(* ===== verification/Stsw_Prelude.thy ===== *)
theory Stsw_Prelude
  imports Main "HOL-Library.Word" "HOL-Library.Signed_Division" "HOL-Library.Sublist"
begin

text \<open>
  Shared vocabulary of the StreamSwitch development.

  \<^item> machine integers: \<open>u32\<close> and \<open>u64\<close> are words (unsigned arithmetic of C++ wraps);
    signed integers are \<open>int\<close>, with \<open>to_int32\<close> where the code narrows a value;
  \<^item> undefined behaviour of C++ (an index outside a vector, a null pointer that is
    dereferenced, a call that a library forbids) is the value \<open>Undef\<close> of the type \<open>'a cpp\<close>;
  \<^item> C strings, \<open>%d\<close> and \<open>snprintf\<close>;
  \<^item> the flag words of the two classes, read bit by bit;
  \<^item> \<open>std::map\<close> as a key-sorted association list, with its contract as the locale
    \<open>std_map\<close>;
  \<^item> states reachable in a step relation, with the invariant rule as the locale
    \<open>state_machine\<close>.
\<close>

unbundle bit_operations_syntax

named_theorems stsw_simps \<open>unfolding rules of the small helper operations\<close>
named_theorems flag_simps \<open>reading of the flag words\<close>

type_synonym u32 = "32 word"
type_synonym u64 = "64 word"

section \<open>Undefined behaviour\<close>

datatype 'a cpp = Ret 'a | Undef

definition bind_cpp :: "'a cpp \<Rightarrow> ('a \<Rightarrow> 'b cpp) \<Rightarrow> 'b cpp" where
  "bind_cpp m f = (case m of Ret x \<Rightarrow> f x | Undef \<Rightarrow> Undef)"

lemma bind_cpp_simps [simp]:
  "bind_cpp (Ret x) f = f x"
  "bind_cpp Undef f = Undef"
  by (simp_all add: bind_cpp_def)

lemma bind_cpp_Ret_conv: "bind_cpp m f = Ret y \<longleftrightarrow> (\<exists>x. m = Ret x \<and> f x = Ret y)"
  by (cases m) auto

lemma bind_cpp_RetE:
  assumes "bind_cpp m f = Ret y"
  obtains x where "m = Ret x" "f x = Ret y"
  using assms by (cases m) auto

section \<open>Integers\<close>

definition to_int32 :: "int \<Rightarrow> int" where
  "to_int32 x = signed_take_bit 31 x"

lemma to_int32_id: "- (2 ^ 31) \<le> x \<Longrightarrow> x < 2 ^ 31 \<Longrightarrow> to_int32 x = x"
  by (simp add: to_int32_def signed_take_bit_int_eq_self)

lemma unat_Suc_minus_one: "w \<noteq> 0 \<Longrightarrow> unat w = Suc (unat (w - 1))" for w :: "'a::len word"
  using unat_minus_one [of w] unat_gt_0 [of w] by simp

lemma upt_0_Suc: "[0..<Suc n] = 0 # map Suc [0..<n]"
  by (simp add: map_Suc_upt upt_conv_Cons del: upt_Suc)

section \<open>Text\<close>

text \<open>
  \<open>c_str\<close> is what a \<open>%s\<close> conversion prints of a \<open>std::string\<close>: the characters before the
  first NUL. \<open>dec_int\<close> is \<open>%d\<close>. \<open>snprintf\<close> gives the length of the whole text, and the
  buffer of size \<open>n\<close> holds at most \<open>n - 1\<close> of its characters.
\<close>

definition c_str :: "string \<Rightarrow> string" where
  "c_str s = takeWhile (\<lambda>c. c \<noteq> CHR 0x00) s"

fun dec_nat :: "nat \<Rightarrow> string" where
  "dec_nat n = (if n < 10 then [char_of (48 + n)] else dec_nat (n div 10) @ [char_of (48 + n mod 10)])"

declare dec_nat.simps [simp del]

definition dec_int :: "int \<Rightarrow> string" where
  "dec_int i = (if i < 0 then CHR ''-'' # dec_nat (nat (- i)) else dec_nat (nat i))"

definition snprintf :: "nat \<Rightarrow> string \<Rightarrow> nat \<times> string" where
  "snprintf n full = (length full, take (n - 1) full)"

lemma length_c_str: "length (c_str s) \<le> length s"
  by (simp add: c_str_def length_takeWhile_le)

lemma c_str_id: "CHR 0x00 \<notin> set s \<Longrightarrow> c_str s = s"
  by (auto simp: c_str_def takeWhile_eq_all_conv)

lemma length_dec_nat: "n < 10 ^ Suc k \<Longrightarrow> length (dec_nat n) \<le> Suc k"
proof (induction k arbitrary: n)
  case 0
  then show ?case by (simp add: dec_nat.simps)
next
  case (Suc k)
  show ?case
  proof (cases "n < 10")
    case True
    then show ?thesis by (simp add: dec_nat.simps)
  next
    case False
    from Suc.prems have "n div 10 < 10 ^ Suc k" by (simp add: less_mult_imp_div_less)
    then have "length (dec_nat (n div 10)) \<le> Suc k" by (rule Suc.IH)
    with False show ?thesis by (simp add: dec_nat.simps [of n])
  qed
qed

lemma length_dec_int:
  assumes "- (2 ^ 31) \<le> i" "i \<le> 2 ^ 31"
  shows "length (dec_int i) \<le> 11"
proof -
  have "nat \<bar>i\<bar> < 10 ^ Suc 9" using assms by simp
  then have "length (dec_nat (nat \<bar>i\<bar>)) \<le> 10" using length_dec_nat [of "nat \<bar>i\<bar>" 9] by simp
  then show ?thesis by (cases "i < 0") (simp_all add: dec_int_def abs_if)
qed

section \<open>Blobs\<close>

text \<open>
  A pair of a \<open>const char *\<close> and a size is \<open>None\<close> for a null pointer and otherwise the
  bytes it points to.
\<close>

type_synonym blob = "string option"

definition blob_size :: "blob \<Rightarrow> nat" where
  "blob_size b = (case b of None \<Rightarrow> 0 | Some d \<Rightarrow> length d)"

definition blob_part :: "blob \<Rightarrow> blob" where
  "blob_part b = (case b of None \<Rightarrow> None | Some d \<Rightarrow> if length d \<noteq> 0 then Some d else None)"

lemma blob_part_cases: "blob_part b = None \<longleftrightarrow> blob_size b = 0"
  by (auto simp: blob_part_def blob_size_def split: option.splits)

lemma blob_size_part [simp]: "blob_size (blob_part b) = blob_size b"
  by (auto simp: blob_part_def blob_size_def split: option.splits)

lemma blob_part_idem [simp]: "blob_part (blob_part b) = blob_part b"
  by (auto simp: blob_part_def split: option.splits)

section \<open>Flag words\<close>

definition flag_on :: "u32 \<Rightarrow> u32 \<Rightarrow> bool" where
  "flag_on flags m \<longleftrightarrow> flags AND m \<noteq> 0"

lemma and_mask_bit: "(w :: u32) AND 2 ^ n \<noteq> 0 \<longleftrightarrow> bit w n" if "n < 32"
proof -
  have "w AND 2 ^ n = (if bit w n then 2 ^ n else 0)"
    by (rule bit_word_eqI) (auto simp: bit_simps)
  with that show ?thesis by simp
qed

lemma flag_on_bit [flag_simps]:
  "flag_on w 1 \<longleftrightarrow> bit w 0"
  "flag_on w 2 \<longleftrightarrow> bit w 1"
  "flag_on w 4 \<longleftrightarrow> bit w 2"
  using and_mask_bit [of 0 w] and_mask_bit [of 1 w] and_mask_bit [of 2 w]
  by (simp_all add: flag_on_def)

lemma flag_const_bits [flag_simps]:
  "bit (1 :: u32) n \<longleftrightarrow> n = 0"
  "bit (2 :: u32) n \<longleftrightarrow> n = 1"
  "bit (4 :: u32) n \<longleftrightarrow> n = 2"
  using bit_exp_iff [where ?'a = u32, of 1 n] bit_exp_iff [where ?'a = u32, of 2 n]
  by (auto simp: bit_1_iff)

lemmas flag_word [flag_simps] = bit_or_iff bit_and_iff bit_not_iff

lemma flag_set_clear [simp]:
  "flag_on (w OR 1) 1" "flag_on (w OR 2) 2" "flag_on (w OR 4) 4"
  "\<not> flag_on (w AND NOT 1) 1" "\<not> flag_on (w AND NOT 2) 2" "\<not> flag_on (w AND NOT 4) 4"
  "flag_on (w OR 1) 2 = flag_on w 2" "flag_on (w OR 1) 4 = flag_on w 4"
  "flag_on (w OR 2) 1 = flag_on w 1" "flag_on (w OR 2) 4 = flag_on w 4"
  "flag_on (w OR 4) 1 = flag_on w 1" "flag_on (w OR 4) 2 = flag_on w 2"
  "flag_on (w AND NOT 1) 2 = flag_on w 2" "flag_on (w AND NOT 1) 4 = flag_on w 4"
  "flag_on (w AND NOT 2) 1 = flag_on w 1" "flag_on (w AND NOT 2) 4 = flag_on w 4"
  "flag_on (w AND NOT 4) 1 = flag_on w 1" "flag_on (w AND NOT 4) 2 = flag_on w 2"
  by (simp_all add: flag_simps)

text \<open>The simplifier writes the complements of the masks as \<open>- 2\<close>, \<open>- 3\<close> and \<open>- 5\<close>.\<close>

lemma flag_clear_num [simp]:
  "\<not> flag_on (w AND - 2) 1" "\<not> flag_on (w AND - 3) 2" "\<not> flag_on (w AND - 5) 4"
  "flag_on (w AND - 2) 2 = flag_on w 2" "flag_on (w AND - 2) 4 = flag_on w 4"
  "flag_on (w AND - 3) 1 = flag_on w 1" "flag_on (w AND - 3) 4 = flag_on w 4"
  "flag_on (w AND - 5) 1 = flag_on w 1" "flag_on (w AND - 5) 2 = flag_on w 2"
  using flag_set_clear(4-6) [of w] flag_set_clear(13-18) [of w] by simp_all

lemma flag_set_then_clear [simp]: "(w OR 2) AND - 3 = w AND - (3 :: u32)"
proof -
  have "(w OR 2) AND NOT 2 = w AND NOT (2 :: u32)"
    by (rule bit_word_eqI) (auto simp: bit_simps)
  then show ?thesis by simp
qed

lemma flag_on_0 [simp]: "\<not> flag_on 0 m"
  by (simp add: flag_on_def)

section \<open>Ordered maps\<close>

text \<open>
  \<open>std::map\<close> keeps its entries sorted by key: \<open>m[k] = v\<close> is \<open>omap_put\<close>, \<open>m.find(k)\<close> is
  \<open>omap_find\<close>, \<open>m.erase(it)\<close> is \<open>omap_erase\<close>, and an iteration visits the list in order.
\<close>

type_synonym ('k, 'v) omap = "('k \<times> 'v) list"

fun omap_find :: "('k, 'v) omap \<Rightarrow> 'k \<Rightarrow> 'v option" where
  "omap_find [] k = None"
| "omap_find ((k', v) # m) k = (if k' = k then Some v else omap_find m k)"

fun omap_put :: "('k::linorder) \<Rightarrow> 'v \<Rightarrow> ('k, 'v) omap \<Rightarrow> ('k, 'v) omap" where
  "omap_put k v [] = [(k, v)]"
| "omap_put k v ((k', v') # m) =
     (if k < k' then (k, v) # (k', v') # m
      else if k = k' then (k, v) # m
      else (k', v') # omap_put k v m)"

fun omap_erase :: "'k \<Rightarrow> ('k, 'v) omap \<Rightarrow> ('k, 'v) omap" where
  "omap_erase k [] = []"
| "omap_erase k ((k', v) # m) = (if k' = k then m else (k', v) # omap_erase k m)"

definition omap_inv :: "('k::linorder, 'v) omap \<Rightarrow> bool" where
  "omap_inv m \<longleftrightarrow> sorted_wrt (<) (map fst m)"

lemma omap_find_map_of: "omap_find m k = map_of m k"
  by (induction m k rule: omap_find.induct) auto

lemma keys_omap_put: "fst ` set (omap_put k v m) = insert k (fst ` set m)"
  by (induction k v m rule: omap_put.induct) auto

lemma keys_omap_erase: "fst ` set (omap_erase k m) \<subseteq> fst ` set m"
  by (induction k m rule: omap_erase.induct) auto

lemma omap_find_put: "omap_find (omap_put k v m) = (omap_find m)(k := Some v)"
  by (rule ext, induction k v m rule: omap_put.induct) (auto split: if_splits)

lemma omap_inv_Nil: "omap_inv []"
  by (simp add: omap_inv_def)

lemma omap_inv_put: "omap_inv m \<Longrightarrow> omap_inv (omap_put k v m)"
proof (induction k v m rule: omap_put.induct)
  case (1 k v)
  show ?case by (simp add: omap_inv_def)
next
  case (2 k v k' v' m)
  then show ?case
    using keys_omap_put [of k v m] by (fastforce simp: omap_inv_def)
qed

lemma omap_inv_erase: "omap_inv m \<Longrightarrow> omap_inv (omap_erase k m)"
proof (induction k m rule: omap_erase.induct)
  case (1 k)
  show ?case by (simp add: omap_inv_def)
next
  case (2 k k' v m)
  then show ?case
    using keys_omap_erase [of k m] by (fastforce simp: omap_inv_def)
qed

lemma omap_find_None: "(\<And>x. x \<in> fst ` set m \<Longrightarrow> k \<noteq> x) \<Longrightarrow> omap_find m k = None"
  by (induction m k rule: omap_find.induct) auto

lemma omap_find_erase: "omap_inv m \<Longrightarrow> omap_find (omap_erase k m) = (omap_find m)(k := None)"
proof (rule ext, induction k m rule: omap_erase.induct)
  case (1 k)
  show ?case by simp
next
  case (2 k k' v m)
  then have "omap_inv m" and "\<And>y. y \<in> fst ` set m \<Longrightarrow> k' < y"
    by (auto simp: omap_inv_def)
  with 2(1) show ?case
    by (cases "k' = k") (auto intro!: omap_find_None)
qed

subsection \<open>The contract of a keyed table\<close>

locale std_map =
  fixes empty :: 'm
    and find :: "'m \<Rightarrow> 'k \<Rightarrow> 'v option"
    and put :: "'k \<Rightarrow> 'v \<Rightarrow> 'm \<Rightarrow> 'm"
    and erase :: "'k \<Rightarrow> 'm \<Rightarrow> 'm"
    and inv :: "'m \<Rightarrow> bool"
  assumes find_empty: "find empty k = None"
    and find_put: "inv m \<Longrightarrow> find (put k v m) = (find m)(k := Some v)"
    and find_erase: "inv m \<Longrightarrow> find (erase k m) = (find m)(k := None)"
    and inv_empty: "inv empty"
    and inv_put: "inv m \<Longrightarrow> inv (put k v m)"
    and inv_erase: "inv m \<Longrightarrow> inv (erase k m)"
begin

lemma inv_put_all: "inv m \<Longrightarrow> inv (fold (\<lambda>(k, v). put k v) kvs m)"
  by (induction kvs arbitrary: m) (auto simp: inv_put)

lemma find_put_all:
  "inv m \<Longrightarrow> find (fold (\<lambda>(k, v). put k v) kvs m) k
     = (case map_of (rev kvs) k of None \<Rightarrow> find m k | Some v \<Rightarrow> Some v)"
proof (induction kvs arbitrary: m)
  case Nil
  then show ?case by simp
next
  case (Cons kv kvs)
  obtain k' v' where kv: "kv = (k', v')" by (cases kv)
  with Cons.prems have "inv (put k' v' m)" by (simp add: inv_put)
  from Cons.IH [OF this] Cons.prems kv show ?case
    by (auto simp: find_put map_add_Some_iff map_add_def split: option.splits)
qed

lemma find_erase_put_other:
  "inv m \<Longrightarrow> k \<noteq> k' \<Longrightarrow> find (erase k (put k v m)) k' = find m k'"
  by (simp add: find_erase find_put inv_put)

end

interpretation omap: std_map "[]" omap_find omap_put omap_erase omap_inv
  by unfold_locales
    (simp_all add: omap_find_put omap_find_erase omap_inv_Nil omap_inv_put omap_inv_erase)

section \<open>Periodic timers\<close>

text \<open>
  Both worker threads move their next heartbeat time forward by a fixed interval until it
  lies after the current time. The contract of that loop.
\<close>

locale periodic_timer =
  fixes interval :: int and advance :: "int \<Rightarrow> int \<Rightarrow> int"
  assumes interval_pos: "0 < interval"
    and advance_unfold: "advance t now =
      (if t + interval \<le> now then advance (t + interval) now else t + interval)"
begin

lemma advance_spec:
  "now < advance t now \<and> (\<exists>k>0. advance t now = t + int k * interval) \<and>
   (t \<le> now \<longrightarrow> advance t now \<le> now + interval)"
proof (induction "nat (now - t)" arbitrary: t rule: less_induct)
  case less
  show ?case
  proof (cases "t + interval \<le> now")
    case True
    with interval_pos have "nat (now - (t + interval)) < nat (now - t)" by simp
    from less.hyps [OF this] obtain k where IH: "now < advance (t + interval) now"
      "advance (t + interval) now = t + interval + int k * interval"
      "advance (t + interval) now \<le> now + interval" using True by auto
    have "advance (t + interval) now = t + int (Suc k) * interval"
      using IH(2) by (simp add: algebra_simps)
    then have "\<exists>k>0. advance (t + interval) now = t + int k * interval" by blast
    then show ?thesis using True IH by (subst (1 2 3) advance_unfold) simp
  next
    case False
    have "t + interval = t + int 1 * interval" by simp
    then have "\<exists>k>0. t + interval = t + int k * interval" by (metis zero_less_one)
    then show ?thesis using False by (subst (1 2 3) advance_unfold) simp
  qed
qed

end

text \<open>How long both loops wait for a message.\<close>

abbreviation MAX_POLLER_WAIT_TIME :: int where "MAX_POLLER_WAIT_TIME \<equiv> 50"

definition poll_timeout :: "int \<Rightarrow> int \<Rightarrow> int" where
  "poll_timeout next_heartbeat_time now =
     (let timeout = to_int32 (next_heartbeat_time - now)
      in if timeout > MAX_POLLER_WAIT_TIME then MAX_POLLER_WAIT_TIME
         else if timeout < 0 then 0 else timeout)"

lemma poll_timeout_range: "0 \<le> poll_timeout t now \<and> poll_timeout t now \<le> MAX_POLLER_WAIT_TIME"
  by (simp add: poll_timeout_def Let_def)

section \<open>Reachable states\<close>

inductive reachable_from :: "('s \<Rightarrow> bool) \<Rightarrow> ('s \<Rightarrow> 's \<Rightarrow> bool) \<Rightarrow> 's \<Rightarrow> bool"
  for init :: "'s \<Rightarrow> bool" and step :: "'s \<Rightarrow> 's \<Rightarrow> bool" where
  reach_init: "init s \<Longrightarrow> reachable_from init step s"
| reach_step: "reachable_from init step s \<Longrightarrow> step s t \<Longrightarrow> reachable_from init step t"

locale state_machine =
  fixes init :: "'s \<Rightarrow> bool" and step :: "'s \<Rightarrow> 's \<Rightarrow> bool" and inv :: "'s \<Rightarrow> bool"
  assumes init_inv: "init s \<Longrightarrow> inv s"
    and step_inv: "inv s \<Longrightarrow> step s t \<Longrightarrow> inv t"
begin

lemma reach_inv: "reachable_from init step s \<Longrightarrow> inv s"
  by (induction rule: reachable_from.induct) (blast intro: init_inv step_inv)+

end

end
