(* ===== verification/Stsw_Defs.thy ===== *)
theory Stsw_Defs
  imports Stsw_Prelude
begin

text \<open>
  The data types, constants and error codes of \<open>libstreamswitch/include/stsw_defs.h\<close>.

  Field names carry a short tag of their struct (\<open>sm_\<close> for StreamMetadata, \<open>ss_\<close> for
  SubStreamMetadata, \<open>st_\<close> for SubStreamMediaStatistic, \<open>mi_\<close> for MediaStatisticInfo,
  \<open>fi_\<close> for MediaFrameInfo, \<open>ci_\<close> for StreamClientInfo), because several structs share a
  field name. A \<open>double\<close> is only copied by the library and is carried as its 64-bit
  pattern. The enums of the protocol have the numeric values of the library's enums, and
  the code converts by a cast; both sides therefore use one type here.
\<close>

section \<open>Enumerations\<close>

datatype StreamPlayType = STREAM_PLAY_TYPE_LIVE | STREAM_PLAY_TYPE_REPLAY

datatype SubStreamMediaType =
    SUB_STREAM_MEIDA_TYPE_VIDEO
  | SUB_STREAM_MEIDA_TYPE_AUDIO
  | SUB_STREAM_MEIDA_TYPE_TEXT
  | SUB_STREAM_MEIDA_TYPE_PRIVATE

datatype SubStreamDirectionType = SUB_STREAM_DIRECTION_OUTBOUND | SUB_STREAM_DIRECTION_INBOUND

datatype MediaFrameType =
    MEDIA_FRAME_TYPE_KEY_FRAME
  | MEDIA_FRAME_TYPE_DATA_FRAME
  | MEDIA_FRAME_TYPE_PARAM_FRAME
  | MEDIA_FRAME_TYPE_EOF_FRAME

datatype StreamClientIPVersion = STREAM_IP_VERSION_V4 | STREAM_IP_VERSION_V6

definition SOURCE_STREAM_STATE_CONNECTING :: int where "SOURCE_STREAM_STATE_CONNECTING = 0"
definition SOURCE_STREAM_STATE_OK :: int where "SOURCE_STREAM_STATE_OK = 1"
definition SOURCE_STREAM_STATE_ERR :: int where "SOURCE_STREAM_STATE_ERR = -1"
definition SOURCE_STREAM_STATE_ERR_CONNECT_FAIL :: int where "SOURCE_STREAM_STATE_ERR_CONNECT_FAIL = -2"
definition SOURCE_STREAM_STATE_ERR_MEIDA_STOP :: int where "SOURCE_STREAM_STATE_ERR_MEIDA_STOP = -3"

section \<open>Error codes and limits\<close>

definition ERROR_CODE_OK :: int where "ERROR_CODE_OK = 0"
definition ERROR_CODE_GENERAL :: int where "ERROR_CODE_GENERAL = -1"
definition ERROR_CODE_TIMEOUT :: int where "ERROR_CODE_TIMEOUT = -2"
definition ERROR_CODE_PARAM :: int where "ERROR_CODE_PARAM = -3"
definition ERROR_CODE_CLIENT :: int where "ERROR_CODE_CLIENT = -4"
definition ERROR_CODE_SERVER :: int where "ERROR_CODE_SERVER = -5"
definition ERROR_CODE_SYSTEM :: int where "ERROR_CODE_SYSTEM = -6"
definition ERROR_CODE_BUSY :: int where "ERROR_CODE_BUSY = -7"
definition ERROR_CODE_PARSE :: int where "ERROR_CODE_PARSE = -8"
definition ERROR_CODE_OPTIONS :: int where "ERROR_CODE_OPTIONS = -9"

lemmas error_code_defs [stsw_simps] =
  ERROR_CODE_OK_def ERROR_CODE_GENERAL_def ERROR_CODE_TIMEOUT_def ERROR_CODE_PARAM_def
  ERROR_CODE_CLIENT_def ERROR_CODE_SERVER_def ERROR_CODE_SYSTEM_def ERROR_CODE_BUSY_def
  ERROR_CODE_PARSE_def ERROR_CODE_OPTIONS_def

definition STSW_SOCKET_NAME_STREAM_PREFIX :: string where
  "STSW_SOCKET_NAME_STREAM_PREFIX = ''stsw_stream''"
definition STSW_SOCKET_NAME_STREAM_API :: string where
  "STSW_SOCKET_NAME_STREAM_API = ''api''"
definition STSW_SOCKET_NAME_STREAM_PUBLISH :: string where
  "STSW_SOCKET_NAME_STREAM_PUBLISH = ''broadcast''"
definition STSW_PUBLISH_MEDIA_CHANNEL :: string where "STSW_PUBLISH_MEDIA_CHANNEL = ''media''"
definition STSW_PUBLISH_INFO_CHANNEL :: string where "STSW_PUBLISH_INFO_CHANNEL = ''info''"

lemmas socket_name_defs [stsw_simps] =
  STSW_SOCKET_NAME_STREAM_PREFIX_def STSW_SOCKET_NAME_STREAM_API_def
  STSW_SOCKET_NAME_STREAM_PUBLISH_def STSW_PUBLISH_MEDIA_CHANNEL_def
  STSW_PUBLISH_INFO_CHANNEL_def

definition STSW_PUBLISH_SOCKET_HWM :: u32 where "STSW_PUBLISH_SOCKET_HWM = 100"
definition STSW_SUBSCRIBE_SOCKET_HWM :: u32 where "STSW_SUBSCRIBE_SOCKET_HWM = 250"
definition STSW_PUBLISH_SOCKET_LINGER :: int where "STSW_PUBLISH_SOCKET_LINGER = 100"
definition STSW_CLIENT_LEASE :: int where "STSW_CLIENT_LEASE = 15"
definition STSW_MAX_CLIENT_NUM :: nat where "STSW_MAX_CLIENT_NUM = 32767"

section \<open>Metadata\<close>

record VideoMediaParam =
  vp_height :: u32
  vp_width :: u32
  vp_fps :: u32
  vp_gov :: u32

record AudioMediaParam =
  ap_samples_per_second :: u32
  ap_channels :: u32
  ap_bits_per_sample :: u32
  ap_sampele_per_frame :: u32

record TextMediaParam =
  tp_x :: u32
  tp_y :: u32
  tp_fone_size :: u32
  tp_font_type :: string

record SubStreamMetadata =
  ss_sub_stream_index :: int
  ss_media_type :: SubStreamMediaType
  ss_codec_name :: string
  ss_direction :: SubStreamDirectionType
  ss_extra_data :: string
  ss_video :: VideoMediaParam
  ss_audio :: AudioMediaParam
  ss_text :: TextMediaParam

record StreamMetadata =
  sm_play_type :: StreamPlayType
  sm_source_proto :: string
  sm_ssrc :: u32
  sm_stream_len :: u64
  sm_bps :: u32
  sm_sub_streams :: "SubStreamMetadata list"

definition new_VideoMediaParam :: VideoMediaParam where
  "new_VideoMediaParam = \<lparr>vp_height = 0, vp_width = 0, vp_fps = 0, vp_gov = 0\<rparr>"

definition new_AudioMediaParam :: AudioMediaParam where
  "new_AudioMediaParam =
     \<lparr>ap_samples_per_second = 0, ap_channels = 0, ap_bits_per_sample = 0, ap_sampele_per_frame = 0\<rparr>"

definition new_TextMediaParam :: TextMediaParam where
  "new_TextMediaParam = \<lparr>tp_x = 0, tp_y = 0, tp_fone_size = 0, tp_font_type = ''''\<rparr>"

definition new_SubStreamMetadata :: SubStreamMetadata where
  "new_SubStreamMetadata =
     \<lparr>ss_sub_stream_index = 0, ss_media_type = SUB_STREAM_MEIDA_TYPE_VIDEO, ss_codec_name = '''',
      ss_direction = SUB_STREAM_DIRECTION_OUTBOUND, ss_extra_data = '''',
      ss_video = new_VideoMediaParam, ss_audio = new_AudioMediaParam,
      ss_text = new_TextMediaParam\<rparr>"

definition new_StreamMetadata :: StreamMetadata where
  "new_StreamMetadata =
     \<lparr>sm_play_type = STREAM_PLAY_TYPE_LIVE, sm_source_proto = '''', sm_ssrc = 0,
      sm_stream_len = 0, sm_bps = 0, sm_sub_streams = []\<rparr>"

lemmas new_meta_defs [stsw_simps] =
  new_VideoMediaParam_def new_AudioMediaParam_def new_TextMediaParam_def
  new_SubStreamMetadata_def new_StreamMetadata_def

section \<open>Statistics, frames and clients\<close>

record SubStreamMediaStatistic =
  st_sub_stream_index :: int
  st_media_type :: SubStreamMediaType
  st_data_bytes :: u64
  st_key_bytes :: u64
  st_lost_frames :: u64
  st_data_frames :: u64
  st_key_frames :: u64
  st_last_gov :: u64
  st_cur_gov :: u64
  st_last_seq :: u64

definition new_SubStreamMediaStatistic :: SubStreamMediaStatistic where
  "new_SubStreamMediaStatistic =
     \<lparr>st_sub_stream_index = 0, st_media_type = SUB_STREAM_MEIDA_TYPE_VIDEO,
      st_data_bytes = 0, st_key_bytes = 0, st_lost_frames = 0, st_data_frames = 0,
      st_key_frames = 0, st_last_gov = 0, st_cur_gov = 0, st_last_seq = 0\<rparr>"

record MediaStatisticInfo =
  mi_ssrc :: u32
  mi_timestamp :: int
  mi_sum_bytes :: u64
  mi_sub_streams :: "SubStreamMediaStatistic list"

record MediaFrameInfo =
  fi_sub_stream_index :: int
  fi_frame_type :: MediaFrameType
  fi_tv_sec :: int
  fi_tv_usec :: int
  fi_ssrc :: u32

record StreamClientInfo =
  ci_client_ip_version :: StreamClientIPVersion
  ci_client_ip :: string
  ci_client_port :: int
  ci_client_token :: string
  ci_client_protocol :: string
  ci_client_text :: string
  ci_last_active_time :: int

definition new_StreamClientInfo :: StreamClientInfo where
  "new_StreamClientInfo =
     \<lparr>ci_client_ip_version = STREAM_IP_VERSION_V4, ci_client_ip = ''127.0.0.1'',
      ci_client_port = 0, ci_client_token = '''', ci_client_protocol = ''uninit'',
      ci_client_text = '''', ci_last_active_time = 0\<rparr>"

section \<open>Handlers\<close>

text \<open>The user data of a handler entry is a pointer: \<open>this\<close> for the built-in handlers.\<close>

datatype user_data = This | Ptr nat

section \<open>Sockets\<close>

text \<open>
  A \<open>SocketHandle\<close> is null or a socket with the options the code sets on it. What the
  ZeroMQ library does with a socket is a parameter: whether a creation or an attach
  succeeds, and what a receive returns.
\<close>

datatype zsock_type = ZMQ_REP | ZMQ_REQ | ZMQ_PUB | ZMQ_SUB | ZMQ_PAIR

record zsock =
  sk_type :: zsock_type
  sk_endpoint :: string
  sk_linger :: int
  sk_keepalive :: bool
  sk_hwm :: "u32 option"
  sk_subscribe :: "string list"

definition new_zsock :: "zsock_type \<Rightarrow> string \<Rightarrow> int \<Rightarrow> zsock" where
  "new_zsock t a l =
     \<lparr>sk_type = t, sk_endpoint = a, sk_linger = l, sk_keepalive = False, sk_hwm = None, sk_subscribe = []\<rparr>"

end
