(* ===== verification/Stsw_Proto.thy ===== *)
theory Stsw_Proto
  imports Stsw_Defs
begin

text \<open>
  The messages of the StreamSwitch protocol (\<open>libstreamswitch/protocol/*.proto\<close>).

  Every field of the messages is optional, and the library reads a field only through
  its getter, which gives the declared default for an absent field; no code asks whether
  a field is present. A message is therefore the record of what its getters return.

  The serialised form of a message is produced and read by the protobuf library. It is a
  parameter: the type \<open>'b\<close> of byte strings and a record \<open>pb_codec\<close> of one serialiser and
  one parser per message. What the code relies on is \<open>codec_ok\<close>: parsing a serialised
  message of the same type gives the message back.
\<close>

section \<open>Packets\<close>

datatype ProtoPacketType =
    PROTO_PACKET_TYPE_REQUEST
  | PROTO_PACKET_TYPE_REPLY
  | PROTO_PACKET_TYPE_MESSAGE

definition PROTO_PACKET_STATUS_OK :: int where "PROTO_PACKET_STATUS_OK = 200"
definition PROTO_PACKET_STATUS_BAD_REQUEST :: int where "PROTO_PACKET_STATUS_BAD_REQUEST = 400"
definition PROTO_PACKET_STATUS_INTERNAL_ERR :: int where "PROTO_PACKET_STATUS_INTERNAL_ERR = 500"

definition PROTO_PACKET_CODE_METADATA :: int where "PROTO_PACKET_CODE_METADATA = 1"
definition PROTO_PACKET_CODE_MEDIA :: int where "PROTO_PACKET_CODE_MEDIA = 2"
definition PROTO_PACKET_CODE_STREAM_INFO :: int where "PROTO_PACKET_CODE_STREAM_INFO = 3"
definition PROTO_PACKET_CODE_KEY_FRAME :: int where "PROTO_PACKET_CODE_KEY_FRAME = 4"
definition PROTO_PACKET_CODE_CLIENT_HEARTBEAT :: int where "PROTO_PACKET_CODE_CLIENT_HEARTBEAT = 5"
definition PROTO_PACKET_CODE_MEDIA_STATISTIC :: int where "PROTO_PACKET_CODE_MEDIA_STATISTIC = 6"
definition PROTO_PACKET_CODE_CLIENT_LIST :: int where "PROTO_PACKET_CODE_CLIENT_LIST = 7"

lemmas packet_status_defs [stsw_simps] =
  PROTO_PACKET_STATUS_OK_def PROTO_PACKET_STATUS_BAD_REQUEST_def
  PROTO_PACKET_STATUS_INTERNAL_ERR_def

lemmas packet_code_defs [stsw_simps] =
  PROTO_PACKET_CODE_METADATA_def PROTO_PACKET_CODE_MEDIA_def PROTO_PACKET_CODE_STREAM_INFO_def
  PROTO_PACKET_CODE_KEY_FRAME_def PROTO_PACKET_CODE_CLIENT_HEARTBEAT_def
  PROTO_PACKET_CODE_MEDIA_STATISTIC_def PROTO_PACKET_CODE_CLIENT_LIST_def

record ProtoCommonHeader =
  h_version :: u32
  h_type :: ProtoPacketType
  h_code :: int
  h_seq :: u32
  h_status :: int
  h_info :: string

record 'b ProtoCommonPacket =
  pk_header :: ProtoCommonHeader
  pk_body :: 'b

definition new_header :: ProtoCommonHeader where
  "new_header =
     \<lparr>h_version = 1, h_type = PROTO_PACKET_TYPE_REQUEST, h_code = 0, h_seq = 0,
      h_status = 200, h_info = ''''\<rparr>"

section \<open>Bodies\<close>

record ProtoClientHeartbeatReq =
  hb_client_ip_version :: StreamClientIPVersion
  hb_client_ip :: string
  hb_client_port :: int
  hb_client_token :: string
  hb_client_protocol :: string
  hb_client_text :: string
  hb_last_active_time :: int

record ProtoClientHeartbeatRep =
  hr_lease :: int
  hr_timestamp :: int

record ProtoClientListReq =
  lq_start_index :: u32
  lq_client_num :: u32

record ProtoClientListRep =
  lr_total_num :: u32
  lr_start_index :: u32
  lr_client_list :: "ProtoClientHeartbeatReq list"

record ProtoMediaFrameMsg =
  mf_stream_index :: int
  mf_sec :: int
  mf_usec :: int
  mf_frame_type :: MediaFrameType
  mf_ssrc :: u32
  mf_seq :: u64

record ProtoSubStreamMediaStatistic =
  ps_sub_stream_index :: int
  ps_media_type :: SubStreamMediaType
  ps_data_bytes :: u64
  ps_key_bytes :: u64
  ps_lost_frames :: u64
  ps_data_frames :: u64
  ps_key_frames :: u64
  ps_last_gov :: u64

record ProtoMediaStatisticRep =
  pr_ssrc :: u32
  pr_timestamp :: int
  pr_sum_bytes :: u64
  pr_sub_stream_stats :: "ProtoSubStreamMediaStatistic list"

record ProtoSubStreamInfo =
  pi_index :: int
  pi_media_type :: SubStreamMediaType
  pi_codec_name :: string
  pi_direction :: SubStreamDirectionType
  pi_extra_data :: string
  pi_height :: u32
  pi_width :: u32
  pi_fps :: u32
  pi_gov :: u32
  pi_samples_per_second :: u32
  pi_channels :: u32
  pi_bits_per_sample :: u32
  pi_sampele_per_frame :: u32
  pi_x :: u32
  pi_y :: u32
  pi_fone_size :: u32
  pi_font_type :: string

definition new_ProtoSubStreamInfo :: ProtoSubStreamInfo where
  "new_ProtoSubStreamInfo =
     \<lparr>pi_index = 0, pi_media_type = SUB_STREAM_MEIDA_TYPE_VIDEO, pi_codec_name = ''H264'',
      pi_direction = SUB_STREAM_DIRECTION_OUTBOUND, pi_extra_data = '''',
      pi_height = 0, pi_width = 0, pi_fps = 0, pi_gov = 0,
      pi_samples_per_second = 0, pi_channels = 0, pi_bits_per_sample = 0,
      pi_sampele_per_frame = 0, pi_x = 0, pi_y = 0, pi_fone_size = 0, pi_font_type = ''''\<rparr>"

record ProtoMetaRep =
  pm_play_type :: StreamPlayType
  pm_source_proto :: string
  pm_stream_len :: u64
  pm_ssrc :: u32
  pm_bps :: u32
  pm_sub_streams :: "ProtoSubStreamInfo list"

record ProtoStreamInfoMsg =
  si_state :: int
  si_play_type :: StreamPlayType
  si_source_proto :: string
  si_ssrc :: u32
  si_cur_bps :: u32
  si_last_frame_sec :: int
  si_last_frame_usec :: int
  si_send_time :: int
  si_stream_name :: string
  si_client_num :: int

section \<open>The codec parameter\<close>

record 'b pb_codec =
  pb_empty :: 'b
  ser_packet :: "'b ProtoCommonPacket \<Rightarrow> 'b"
  par_packet :: "'b \<Rightarrow> 'b ProtoCommonPacket option"
  ser_heartbeat_req :: "ProtoClientHeartbeatReq \<Rightarrow> 'b"
  par_heartbeat_req :: "'b \<Rightarrow> ProtoClientHeartbeatReq option"
  ser_heartbeat_rep :: "ProtoClientHeartbeatRep \<Rightarrow> 'b"
  par_heartbeat_rep :: "'b \<Rightarrow> ProtoClientHeartbeatRep option"
  ser_list_req :: "ProtoClientListReq \<Rightarrow> 'b"
  par_list_req :: "'b \<Rightarrow> ProtoClientListReq option"
  ser_list_rep :: "ProtoClientListRep \<Rightarrow> 'b"
  par_list_rep :: "'b \<Rightarrow> ProtoClientListRep option"
  ser_media_frame :: "ProtoMediaFrameMsg \<Rightarrow> 'b"
  par_media_frame :: "'b \<Rightarrow> ProtoMediaFrameMsg option"
  ser_statistic :: "ProtoMediaStatisticRep \<Rightarrow> 'b"
  par_statistic :: "'b \<Rightarrow> ProtoMediaStatisticRep option"
  ser_meta :: "ProtoMetaRep \<Rightarrow> 'b"
  par_meta :: "'b \<Rightarrow> ProtoMetaRep option"
  ser_stream_info :: "ProtoStreamInfoMsg \<Rightarrow> 'b"

definition codec_ok :: "'b pb_codec \<Rightarrow> bool" where
  "codec_ok C \<longleftrightarrow>
     (\<forall>m. par_packet C (ser_packet C m) = Some m) \<and>
     (\<forall>m. par_heartbeat_req C (ser_heartbeat_req C m) = Some m) \<and>
     (\<forall>m. par_heartbeat_rep C (ser_heartbeat_rep C m) = Some m) \<and>
     (\<forall>m. par_list_req C (ser_list_req C m) = Some m) \<and>
     (\<forall>m. par_list_rep C (ser_list_rep C m) = Some m) \<and>
     (\<forall>m. par_media_frame C (ser_media_frame C m) = Some m) \<and>
     (\<forall>m. par_statistic C (ser_statistic C m) = Some m) \<and>
     (\<forall>m. par_meta C (ser_meta C m) = Some m)"

lemma codec_okD:
  assumes "codec_ok C"
  shows "par_packet C (ser_packet C m1) = Some m1"
    and "par_heartbeat_req C (ser_heartbeat_req C m2) = Some m2"
    and "par_heartbeat_rep C (ser_heartbeat_rep C m3) = Some m3"
    and "par_list_req C (ser_list_req C m4) = Some m4"
    and "par_list_rep C (ser_list_rep C m5) = Some m5"
    and "par_media_frame C (ser_media_frame C m6) = Some m6"
    and "par_statistic C (ser_statistic C m7) = Some m7"
    and "par_meta C (ser_meta C m8) = Some m8"
  using assms by (simp_all add: codec_ok_def)

text \<open>A packet with a default header of the given type and code, as a fresh message is
  before its setters run.\<close>

definition fresh_packet :: "'b pb_codec \<Rightarrow> 'b ProtoCommonPacket" where
  "fresh_packet C = \<lparr>pk_header = new_header, pk_body = pb_empty C\<rparr>"

definition request_packet :: "'b pb_codec \<Rightarrow> u32 \<Rightarrow> int \<Rightarrow> 'b ProtoCommonPacket" where
  "request_packet C seq code =
     (fresh_packet C)\<lparr>pk_header := new_header\<lparr>h_type := PROTO_PACKET_TYPE_REQUEST,
        h_seq := seq, h_code := code\<rparr>\<rparr>"

definition message_packet :: "'b pb_codec \<Rightarrow> int \<Rightarrow> 'b \<Rightarrow> 'b ProtoCommonPacket" where
  "message_packet C code body =
     (fresh_packet C)\<lparr>pk_header := new_header\<lparr>h_type := PROTO_PACKET_TYPE_MESSAGE,
        h_code := code\<rparr>, pk_body := body\<rparr>"

definition reply_to :: "'b pb_codec \<Rightarrow> 'b ProtoCommonPacket \<Rightarrow> int \<Rightarrow> string \<Rightarrow> 'b ProtoCommonPacket"
  where
  "reply_to C request status info =
     (fresh_packet C)\<lparr>pk_header := new_header\<lparr>h_type := PROTO_PACKET_TYPE_REPLY,
        h_status := status, h_info := info,
        h_code := h_code (pk_header request), h_seq := h_seq (pk_header request)\<rparr>\<rparr>"

lemma reply_to_header [simp]:
  "h_type (pk_header (reply_to C r s i)) = PROTO_PACKET_TYPE_REPLY"
  "h_status (pk_header (reply_to C r s i)) = s"
  "h_code (pk_header (reply_to C r s i)) = h_code (pk_header r)"
  "h_seq (pk_header (reply_to C r s i)) = h_seq (pk_header r)"
  by (simp_all add: reply_to_def)

lemma request_packet_header [simp]:
  "h_type (pk_header (request_packet C q c)) = PROTO_PACKET_TYPE_REQUEST"
  "h_code (pk_header (request_packet C q c)) = c"
  "h_seq (pk_header (request_packet C q c)) = q"
  by (simp_all add: request_packet_def)

section \<open>Messages on the wire\<close>

text \<open>
  A multi-part message of the request-reply socket is a packet and an optional blob; one
  of the publish-subscribe socket also starts with the channel name.
\<close>

record 'b api_msg =
  am_packet :: 'b
  am_blob :: blob

record 'b pub_msg =
  pb_channel :: string
  pb_packet :: 'b
  pb_blob :: blob

section \<open>A codec for evaluation\<close>

text \<open>
  An instance of the parameter: the serialised form is the message itself, tagged with
  its type. It shows that \<open>codec_ok\<close> can hold and lets concrete runs be evaluated.
\<close>

datatype wire =
    W_Empty
  | W_Packet ProtoCommonHeader wire
  | W_HeartbeatReq ProtoClientHeartbeatReq
  | W_HeartbeatRep ProtoClientHeartbeatRep
  | W_ListReq ProtoClientListReq
  | W_ListRep ProtoClientListRep
  | W_MediaFrame ProtoMediaFrameMsg
  | W_Statistic ProtoMediaStatisticRep
  | W_Meta ProtoMetaRep
  | W_StreamInfo ProtoStreamInfoMsg

definition wire_codec :: "wire pb_codec" where
  "wire_codec =
     \<lparr>pb_empty = W_Empty,
      ser_packet = (\<lambda>p. W_Packet (pk_header p) (pk_body p)),
      par_packet = (\<lambda>w. case w of W_Packet h b \<Rightarrow> Some \<lparr>pk_header = h, pk_body = b\<rparr> | _ \<Rightarrow> None),
      ser_heartbeat_req = W_HeartbeatReq,
      par_heartbeat_req = (\<lambda>w. case w of W_HeartbeatReq m \<Rightarrow> Some m | _ \<Rightarrow> None),
      ser_heartbeat_rep = W_HeartbeatRep,
      par_heartbeat_rep = (\<lambda>w. case w of W_HeartbeatRep m \<Rightarrow> Some m | _ \<Rightarrow> None),
      ser_list_req = W_ListReq,
      par_list_req = (\<lambda>w. case w of W_ListReq m \<Rightarrow> Some m | _ \<Rightarrow> None),
      ser_list_rep = W_ListRep,
      par_list_rep = (\<lambda>w. case w of W_ListRep m \<Rightarrow> Some m | _ \<Rightarrow> None),
      ser_media_frame = W_MediaFrame,
      par_media_frame = (\<lambda>w. case w of W_MediaFrame m \<Rightarrow> Some m | _ \<Rightarrow> None),
      ser_statistic = W_Statistic,
      par_statistic = (\<lambda>w. case w of W_Statistic m \<Rightarrow> Some m | _ \<Rightarrow> None),
      ser_meta = W_Meta,
      par_meta = (\<lambda>w. case w of W_Meta m \<Rightarrow> Some m | _ \<Rightarrow> None),
      ser_stream_info = W_StreamInfo\<rparr>"

lemma codec_ok_wire [simp]: "codec_ok wire_codec"
  by (simp add: codec_ok_def wire_codec_def)

end
