(* ===== verification/Client_Registry.thy ===== *)
theory Client_Registry
  imports Stsw_Proto
begin

text \<open>
  The list of connected clients a stream source keeps (\<open>ReceiversInfoType\<close> in
  \<open>stsw_stream_source.cc\<close>): the loops of \<open>ClientHeartbeatHandler\<close> (look a client up, replace
  it or append it), \<open>Heartbeat\<close> (erase the clients whose lease ran out) and
  \<open>ClientListHandler\<close> (copy one page).

  The contract of the registry is the locale \<open>client_registry\<close>: a finite map from the
  identity of a client (ip, port and token) to its last heartbeat. The list implements
  it, and the lease guarantee is proved once against the contract.
\<close>

section \<open>Operations\<close>

type_synonym client = ProtoClientHeartbeatReq
type_synonym client_key = "string \<times> int \<times> string"

definition client_key :: "client \<Rightarrow> client_key" where
  "client_key c = (hb_client_ip c, hb_client_port c, hb_client_token c)"

definition same_client :: "client \<Rightarrow> client \<Rightarrow> bool" where
  "same_client c d \<longleftrightarrow>
     hb_client_ip c = hb_client_ip d \<and> hb_client_port c = hb_client_port d \<and>
     hb_client_token c = hb_client_token d"

text \<open>The search loop: the list with the first entry of the same client overwritten, or
  \<open>None\<close> when the loop reaches the end.\<close>

fun replace_client :: "client \<Rightarrow> client list \<Rightarrow> client list option" where
  "replace_client c [] = None"
| "replace_client c (d # ds) =
     (if same_client c d then Some (c # ds)
      else case replace_client c ds of None \<Rightarrow> None | Some es \<Rightarrow> Some (d # es))"

text \<open>\<open>None\<close>: the client is new and the list is full.\<close>

definition register_client :: "client \<Rightarrow> client list \<Rightarrow> client list option" where
  "register_client c cs =
     (case replace_client c cs of
        Some cs' \<Rightarrow> Some cs'
      | None \<Rightarrow> if length cs < STSW_MAX_CLIENT_NUM then Some (cs @ [c]) else None)"

fun kick_timeout :: "int \<Rightarrow> client list \<Rightarrow> client list" where
  "kick_timeout now_sec [] = []"
| "kick_timeout now_sec (c # cs) =
     (if now_sec - hb_last_active_time c \<ge> STSW_CLIENT_LEASE then kick_timeout now_sec cs
      else c # kick_timeout now_sec cs)"

text \<open>The copying loop of \<open>ClientListHandler\<close>; \<open>num\<close> counts down as \<open>client_num\<close> does.\<close>

fun copy_clients :: "client list \<Rightarrow> u32 \<Rightarrow> client list" where
  "copy_clients [] num = []"
| "copy_clients (c # cs) num = (if num > 0 then c # copy_clients cs (num - 1) else [])"

definition client_page :: "u32 \<Rightarrow> u32 \<Rightarrow> client list \<Rightarrow> client list" where
  "client_page start num cs =
     (if unat start < length cs then copy_clients (drop (unat start) cs) num else [])"

section \<open>Well-formedness\<close>

definition registry_inv :: "client list \<Rightarrow> bool" where
  "registry_inv cs \<longleftrightarrow> distinct (map client_key cs) \<and> length cs \<le> STSW_MAX_CLIENT_NUM"

definition registry_map :: "client list \<Rightarrow> client_key \<rightharpoonup> client" where
  "registry_map cs = map_of (map (\<lambda>c. (client_key c, c)) cs)"

lemma same_client_key: "same_client c d \<longleftrightarrow> client_key c = client_key d"
  by (auto simp: same_client_def client_key_def)

lemma replace_client_None:
  "replace_client c cs = None \<longleftrightarrow> client_key c \<notin> client_key ` set cs"
  by (induction c cs rule: replace_client.induct) (auto simp: same_client_key split: option.splits)

lemma replace_client_keys:
  "replace_client c cs = Some ds \<Longrightarrow> map client_key ds = map client_key cs"
  by (induction c cs arbitrary: ds rule: replace_client.induct)
    (auto simp: same_client_key split: if_splits option.splits)

lemma replace_client_map:
  "replace_client c cs = Some ds \<Longrightarrow> registry_map ds = (registry_map cs)(client_key c \<mapsto> c)"
proof (induction c cs arbitrary: ds rule: replace_client.induct)
  case (1 c)
  then show ?case by simp
next
  case (2 c d cs)
  then show ?case
    by (auto simp: registry_map_def same_client_key fun_upd_twist split: if_splits option.splits)
qed

lemma registry_map_None: "registry_map cs k = None \<longleftrightarrow> k \<notin> client_key ` set cs"
  by (auto simp: registry_map_def map_of_eq_None_iff image_image)

lemma registry_map_Some:
  assumes "distinct (map client_key cs)"
  shows "registry_map cs k = Some c \<longleftrightarrow> c \<in> set cs \<and> client_key c = k"
  using assms
proof (induction cs)
  case Nil
  then show ?case by (simp add: registry_map_def)
next
  case (Cons d cs)
  then have "c \<in> set cs \<Longrightarrow> client_key c \<noteq> client_key d"
    and "registry_map cs k = Some c \<longleftrightarrow> c \<in> set cs \<and> client_key c = k"
    by (simp_all add: image_iff) metis
  then show ?case
    by (cases "client_key d = k") (auto simp: registry_map_def)
qed

lemma registry_map_snoc:
  "client_key c \<notin> client_key ` set cs \<Longrightarrow>
     registry_map (cs @ [c]) = (registry_map cs)(client_key c \<mapsto> c)"
proof (rule ext)
  fix k
  assume "client_key c \<notin> client_key ` set cs"
  then have "registry_map cs (client_key c) = None" by (simp add: registry_map_None)
  then show "registry_map (cs @ [c]) k = ((registry_map cs)(client_key c \<mapsto> c)) k"
    by (auto simp: registry_map_def map_add_def split: option.splits)
qed

lemma register_client_map:
  "register_client c cs = Some ds \<Longrightarrow> registry_map ds = (registry_map cs)(client_key c \<mapsto> c)"
  by (auto simp: register_client_def replace_client_None replace_client_map registry_map_snoc
      split: option.splits if_splits)

lemma register_client_None:
  "register_client c cs = None \<longleftrightarrow>
     registry_map cs (client_key c) = None \<and> length cs \<ge> STSW_MAX_CLIENT_NUM"
  using replace_client_None [of c cs]
  by (cases "replace_client c cs") (auto simp: register_client_def registry_map_None)

lemma register_client_inv:
  assumes "registry_inv cs" "register_client c cs = Some ds"
  shows "registry_inv ds"
proof (cases "replace_client c cs")
  case None
  with assms show ?thesis
    by (auto simp: registry_inv_def register_client_def replace_client_None split: if_splits)
next
  case (Some es)
  with assms have "ds = es" by (simp add: register_client_def)
  moreover from replace_client_keys [OF Some] have "length es = length cs"
    by (metis length_map)
  ultimately show ?thesis
    using assms replace_client_keys [OF Some] by (simp add: registry_inv_def)
qed

lemma kick_timeout_filter:
  "kick_timeout now cs = filter (\<lambda>c. now - hb_last_active_time c < STSW_CLIENT_LEASE) cs"
  by (induction now cs rule: kick_timeout.induct) auto

lemma kick_timeout_inv: "registry_inv cs \<Longrightarrow> registry_inv (kick_timeout now cs)"
  by (auto simp: registry_inv_def kick_timeout_filter distinct_map_filter
      intro: order_trans [OF length_filter_le])

lemma kick_timeout_map:
  assumes "registry_inv cs"
  shows "registry_map (kick_timeout now cs) k =
    (case registry_map cs k of None \<Rightarrow> None
     | Some c \<Rightarrow> if now - hb_last_active_time c < STSW_CLIENT_LEASE then Some c else None)"
proof -
  have d: "distinct (map client_key cs)" "distinct (map client_key (kick_timeout now cs))"
    using assms kick_timeout_inv [OF assms] by (simp_all add: registry_inv_def)
  show ?thesis
  proof (cases "registry_map cs k")
    case None
    then have "registry_map (kick_timeout now cs) k = None"
      by (auto simp: registry_map_None kick_timeout_filter)
    with None show ?thesis by simp
  next
    case (Some c)
    then have c: "c \<in> set cs" "client_key c = k" using registry_map_Some [OF d(1)] by auto
    have unique: "c' = c" if "c' \<in> set cs" "client_key c' = k" for c'
      using that c d(1) by (auto simp: distinct_map dest: inj_onD)
    show ?thesis
    proof (cases "now - hb_last_active_time c < STSW_CLIENT_LEASE")
      case True
      then have "registry_map (kick_timeout now cs) k = Some c"
        using c registry_map_Some [OF d(2)] by (simp add: kick_timeout_filter)
      with Some True show ?thesis by simp
    next
      case False
      then have "registry_map (kick_timeout now cs) k = None"
        using unique by (auto simp: registry_map_None kick_timeout_filter)
      with Some False show ?thesis by simp
    qed
  qed
qed

lemma copy_clients_take: "copy_clients cs num = take (unat num) cs"
proof (induction cs num rule: copy_clients.induct)
  case (1 num)
  then show ?case by simp
next
  case (2 c cs num)
  show ?case
  proof (cases "num = 0")
    case True
    then show ?thesis by simp
  next
    case False
    then have "unat num = Suc (unat (num - 1))" by (rule unat_Suc_minus_one)
    with False 2 show ?thesis by (simp add: word_gt_0)
  qed
qed

lemma client_page_take: "client_page start num cs = take (unat num) (drop (unat start) cs)"
  by (simp add: client_page_def copy_clients_take)

section \<open>The contract\<close>

datatype registry_event = Beat client | Expire int

definition reg_apply :: "(client \<Rightarrow> 'r \<Rightarrow> 'r) \<Rightarrow> (int \<Rightarrow> 'r \<Rightarrow> 'r) \<Rightarrow> registry_event \<Rightarrow> 'r \<Rightarrow> 'r"
  where
  "reg_apply beat expire ev r = (case ev of Beat c \<Rightarrow> beat c r | Expire now \<Rightarrow> expire now r)"

text \<open>The events that happen before a given time: expiry checks made before it, and
  heartbeats of a given client only with an active time that is not older.\<close>

definition event_ok :: "client_key \<Rightarrow> int \<Rightarrow> registry_event \<Rightarrow> bool" where
  "event_ok k t ev =
     (case ev of Beat c \<Rightarrow> client_key c = k \<longrightarrow> hb_last_active_time c \<ge> t
      | Expire now \<Rightarrow> now < t + STSW_CLIENT_LEASE)"

text \<open>The same events on a finite map of clients: a heartbeat inserts or replaces the client's
  entry, refused only for a new client when the map is full; an expiry check removes the
  entries whose lease is over.\<close>

definition map_apply :: "registry_event \<Rightarrow> (client_key \<rightharpoonup> client) \<Rightarrow> client_key \<rightharpoonup> client" where
  "map_apply ev m =
     (case ev of
        Beat c \<Rightarrow> if m (client_key c) = None \<and> card (dom m) \<ge> STSW_MAX_CLIENT_NUM then m
          else m(client_key c \<mapsto> c)
      | Expire now \<Rightarrow> (\<lambda>k. case m k of None \<Rightarrow> None
          | Some c \<Rightarrow> if now - hb_last_active_time c < STSW_CLIENT_LEASE then Some c else None))"

locale client_registry =
  fixes clients :: "'r \<Rightarrow> client_key \<rightharpoonup> client"
    and size_of :: "'r \<Rightarrow> nat"
    and beat :: "client \<Rightarrow> 'r \<Rightarrow> 'r"
    and expire :: "int \<Rightarrow> 'r \<Rightarrow> 'r"
    and inv :: "'r \<Rightarrow> bool"
  assumes size_dom: "inv r \<Longrightarrow> size_of r = card (dom (clients r))"
    and size_max: "inv r \<Longrightarrow> size_of r \<le> STSW_MAX_CLIENT_NUM"
    and beat_clients: "inv r \<Longrightarrow>
      clients (beat c r) =
        (if clients r (client_key c) = None \<and> size_of r \<ge> STSW_MAX_CLIENT_NUM then clients r
         else (clients r)(client_key c \<mapsto> c))"
    and expire_clients: "inv r \<Longrightarrow>
      clients (expire now r) k =
        (case clients r k of None \<Rightarrow> None
         | Some c \<Rightarrow> if now - hb_last_active_time c < STSW_CLIENT_LEASE then Some c else None)"
    and beat_inv: "inv r \<Longrightarrow> inv (beat c r)"
    and expire_inv: "inv r \<Longrightarrow> inv (expire now r)"
begin

lemma apply_inv: "inv r \<Longrightarrow> inv (reg_apply beat expire ev r)"
  by (cases ev) (simp_all add: reg_apply_def beat_inv expire_inv)

lemma run_inv: "inv r \<Longrightarrow> inv (fold (reg_apply beat expire) evs r)"
  by (induction evs arbitrary: r) (auto simp: apply_inv)

lemma apply_refines: "inv r \<Longrightarrow> clients (reg_apply beat expire ev r) = map_apply ev (clients r)"
  by (cases ev) (auto simp: reg_apply_def map_apply_def beat_clients size_dom expire_clients)

lemma run_refines: "inv r \<Longrightarrow> clients (fold (reg_apply beat expire) evs r) = fold map_apply evs (clients r)"
  by (induction evs arbitrary: r) (auto simp: apply_inv apply_refines)

lemma beat_known: "inv r \<Longrightarrow> clients r (client_key c) \<noteq> None \<Longrightarrow> clients (beat c r) (client_key c) = Some c"
  by (simp add: beat_clients)

lemma beat_other: "inv r \<Longrightarrow> client_key c \<noteq> k \<Longrightarrow> clients (beat c r) k = clients r k"
  by (simp add: beat_clients)

lemma apply_keeps_lease:
  assumes "inv r" "clients r k = Some c" "hb_last_active_time c \<ge> t" "event_ok k t ev"
  shows "\<exists>d. clients (reg_apply beat expire ev r) k = Some d \<and> hb_last_active_time d \<ge> t"
proof (cases ev)
  case (Beat c')
  show ?thesis
  proof (cases "client_key c' = k")
    case True
    with Beat assms show ?thesis by (auto simp: reg_apply_def event_ok_def beat_known)
  next
    case False
    with Beat assms show ?thesis by (simp add: reg_apply_def beat_other)
  qed
next
  case (Expire now)
  with assms show ?thesis by (auto simp: reg_apply_def event_ok_def expire_clients)
qed

text \<open>The lease: a client with an active time of at least \<open>t\<close> stays registered as long as
  every expiry check happens before \<open>t\<close> plus the lease.\<close>

lemma run_keeps_lease:
  assumes "inv r" "clients r k = Some c" "hb_last_active_time c \<ge> t" "list_all (event_ok k t) evs"
  shows "\<exists>d. clients (fold (reg_apply beat expire) evs r) k = Some d \<and> hb_last_active_time d \<ge> t"
  using assms
proof (induction evs arbitrary: r c)
  case Nil
  then show ?case by auto
next
  case (Cons ev evs)
  then obtain d where "clients (reg_apply beat expire ev r) k = Some d" "hb_last_active_time d \<ge> t"
    using apply_keeps_lease [of r k c t ev] by auto
  with Cons.IH [OF apply_inv [OF Cons.prems(1)]] Cons.prems(4) show ?case by simp
qed

lemma expire_after_lease:
  "inv r \<Longrightarrow> clients r k = Some c \<Longrightarrow> now \<ge> hb_last_active_time c + STSW_CLIENT_LEASE \<Longrightarrow>
     clients (expire now r) k = None"
  by (simp add: expire_clients)

end

definition beat_list :: "client \<Rightarrow> client list \<Rightarrow> client list" where
  "beat_list c cs = (case register_client c cs of None \<Rightarrow> cs | Some ds \<Rightarrow> ds)"

lemma registry_dom_card:
  assumes "registry_inv cs"
  shows "card (dom (registry_map cs)) = length cs"
proof -
  have "dom (registry_map cs) = client_key ` set cs"
    by (auto simp: registry_map_None [symmetric] dom_def) (metis registry_map_None imageI option.distinct(1) not_None_eq)+
  then show ?thesis
    using assms by (metis card_image distinct_card distinct_map length_map registry_inv_def)
qed

interpretation reg: client_registry registry_map length beat_list kick_timeout registry_inv
proof unfold_locales
  fix cs c now k
  show "registry_inv cs \<Longrightarrow> length cs = card (dom (registry_map cs))"
    by (simp add: registry_dom_card)
  show "registry_inv cs \<Longrightarrow> length cs \<le> STSW_MAX_CLIENT_NUM"
    by (simp add: registry_inv_def)
  show "registry_map (beat_list c cs) =
      (if registry_map cs (client_key c) = None \<and> STSW_MAX_CLIENT_NUM \<le> length cs then registry_map cs
       else (registry_map cs)(client_key c \<mapsto> c))" if "registry_inv cs"
  proof (cases "register_client c cs")
    case None
    then show ?thesis using register_client_None [of c cs] by (simp add: beat_list_def)
  next
    case (Some ds)
    then have "\<not> (registry_map cs (client_key c) = None \<and> STSW_MAX_CLIENT_NUM \<le> length cs)"
      using register_client_None [of c cs] by simp
    with Some show ?thesis by (simp only: beat_list_def register_client_map option.simps if_False)
  qed
  show "registry_inv cs \<Longrightarrow> registry_map (kick_timeout now cs) k =
      (case registry_map cs k of None \<Rightarrow> None
       | Some c \<Rightarrow> if now - hb_last_active_time c < STSW_CLIENT_LEASE then Some c else None)"
    by (rule kick_timeout_map)
  show "registry_inv cs \<Longrightarrow> registry_inv (beat_list c cs)"
    by (auto simp: beat_list_def register_client_inv split: option.splits)
  show "registry_inv cs \<Longrightarrow> registry_inv (kick_timeout now cs)"
    by (rule kick_timeout_inv)
qed

end
