(* ===== verification/Frame_Statistic.thy ===== *)
theory Frame_Statistic
  imports Stsw_Proto
begin

text \<open>
  The counters of one sub stream. \<open>stat_send\<close> is the statistic part of
  \<open>StreamSource::SendLiveMediaFrame\<close> (it also numbers the frame), \<open>stat_recv\<close> that of
  \<open>StreamSink::MediaFrameHandler\<close> (it also counts the frames that are missing between two
  sequence numbers).

  Both keep the same traffic counters. What they promise is the locale \<open>frame_counter\<close>:
  after any run of frames the counters are those of a specification over the list of
  frames. The missing-frame counter is characterised by a quantity that every frame
  with a growing sequence number preserves.
\<close>

section \<open>One frame\<close>

definition is_media :: "MediaFrameType \<Rightarrow> bool" where
  "is_media ft \<longleftrightarrow> ft = MEDIA_FRAME_TYPE_KEY_FRAME \<or> ft = MEDIA_FRAME_TYPE_DATA_FRAME"

text \<open>The lines both classes share: a key frame closes the running group of pictures.\<close>

definition stat_count_key :: "MediaFrameType \<Rightarrow> nat \<Rightarrow> SubStreamMediaStatistic \<Rightarrow> SubStreamMediaStatistic"
  where
  "stat_count_key ft sz st =
     (let st1 = (if ft = MEDIA_FRAME_TYPE_KEY_FRAME
                 then st\<lparr>st_key_frames := st_key_frames st + 1,
                         st_key_bytes := st_key_bytes st + of_nat sz,
                         st_last_gov := st_cur_gov st,
                         st_cur_gov := 0\<rparr>
                 else st)
      in st1\<lparr>st_cur_gov := st_cur_gov st1 + 1\<rparr>)"

definition stat_send :: "MediaFrameType \<Rightarrow> nat \<Rightarrow> SubStreamMediaStatistic \<Rightarrow> SubStreamMediaStatistic \<times> u64"
  where
  "stat_send ft sz st =
     (if ft = MEDIA_FRAME_TYPE_KEY_FRAME \<or> ft = MEDIA_FRAME_TYPE_DATA_FRAME then
        let st1 = st\<lparr>st_data_frames := st_data_frames st + 1,
                     st_data_bytes := st_data_bytes st + of_nat sz\<rparr>;
            seq = st_last_seq st1 + 1;
            st2 = st1\<lparr>st_last_seq := seq\<rparr>
        in (stat_count_key ft sz st2, seq)
      else (st, st_last_seq st))"

definition stat_recv :: "MediaFrameType \<Rightarrow> nat \<Rightarrow> u64 \<Rightarrow> SubStreamMediaStatistic \<Rightarrow> SubStreamMediaStatistic"
  where
  "stat_recv ft sz seq st =
     (if ft = MEDIA_FRAME_TYPE_KEY_FRAME \<or> ft = MEDIA_FRAME_TYPE_DATA_FRAME then
        let st1 = st\<lparr>st_data_frames := st_data_frames st + 1,
                     st_data_bytes := st_data_bytes st + of_nat sz\<rparr>;
            st2 = (if st_last_seq st1 \<noteq> 0 \<and> seq > st_last_seq st1 + 1
                   then st1\<lparr>st_lost_frames := st_lost_frames st1 + (seq - (st_last_seq st1 + 1))\<rparr>
                   else st1);
            st3 = st2\<lparr>st_last_seq := seq\<rparr>
        in stat_count_key ft sz st3
      else st)"

section \<open>Specification of the traffic counters\<close>

definition media_of :: "('f \<Rightarrow> MediaFrameType) \<Rightarrow> 'f list \<Rightarrow> 'f list" where
  "media_of kind fs = filter (\<lambda>f. is_media (kind f)) fs"

definition keys_of :: "('f \<Rightarrow> MediaFrameType) \<Rightarrow> 'f list \<Rightarrow> 'f list" where
  "keys_of kind fs = filter (\<lambda>f. kind f = MEDIA_FRAME_TYPE_KEY_FRAME) fs"

text \<open>The running group of pictures, its last frame first: the media frames back to and
  including the last key frame, or all of them when there was no key frame.\<close>

fun running_gov :: "('f \<Rightarrow> MediaFrameType) \<Rightarrow> 'f list \<Rightarrow> nat" where
  "running_gov kind [] = 0"
| "running_gov kind (f # fs) =
     (if kind f = MEDIA_FRAME_TYPE_KEY_FRAME then 1
      else if is_media (kind f) then Suc (running_gov kind fs)
      else running_gov kind fs)"

locale frame_counter =
  fixes kind :: "'f \<Rightarrow> MediaFrameType"
    and bytes :: "'f \<Rightarrow> nat"
    and upd :: "'f \<Rightarrow> SubStreamMediaStatistic \<Rightarrow> SubStreamMediaStatistic"
  assumes upd_frames: "st_data_frames (upd f st) = st_data_frames st + (if is_media (kind f) then 1 else 0)"
    and upd_bytes: "st_data_bytes (upd f st) = st_data_bytes st + (if is_media (kind f) then of_nat (bytes f) else 0)"
    and upd_key_frames: "st_key_frames (upd f st) =
          st_key_frames st + (if kind f = MEDIA_FRAME_TYPE_KEY_FRAME then 1 else 0)"
    and upd_key_bytes: "st_key_bytes (upd f st) =
          st_key_bytes st + (if kind f = MEDIA_FRAME_TYPE_KEY_FRAME then of_nat (bytes f) else 0)"
    and upd_cur_gov: "st_cur_gov (upd f st) =
          (if kind f = MEDIA_FRAME_TYPE_KEY_FRAME then 1
           else if is_media (kind f) then st_cur_gov st + 1 else st_cur_gov st)"
    and upd_last_gov: "st_last_gov (upd f st) =
          (if kind f = MEDIA_FRAME_TYPE_KEY_FRAME then st_cur_gov st else st_last_gov st)"
    and upd_index: "st_sub_stream_index (upd f st) = st_sub_stream_index st"
    and upd_type: "st_media_type (upd f st) = st_media_type st"
begin

lemma run_frames:
  "st_data_frames (fold upd fs st) = st_data_frames st + of_nat (length (media_of kind fs))"
  by (induction fs arbitrary: st) (auto simp: media_of_def upd_frames)

lemma run_bytes:
  "st_data_bytes (fold upd fs st) = st_data_bytes st + of_nat (sum_list (map bytes (media_of kind fs)))"
  by (induction fs arbitrary: st) (auto simp: media_of_def upd_bytes)

lemma run_key_frames:
  "st_key_frames (fold upd fs st) = st_key_frames st + of_nat (length (keys_of kind fs))"
  by (induction fs arbitrary: st) (auto simp: keys_of_def upd_key_frames)

lemma run_key_bytes:
  "st_key_bytes (fold upd fs st) = st_key_bytes st + of_nat (sum_list (map bytes (keys_of kind fs)))"
  by (induction fs arbitrary: st) (auto simp: keys_of_def upd_key_bytes)

lemma run_cur_gov:
  "st_cur_gov st = 0 \<Longrightarrow> st_cur_gov (fold upd fs st) = of_nat (running_gov kind (rev fs))"
  by (induction fs rule: rev_induct) (auto simp: upd_cur_gov)

lemma run_last_gov:
  assumes "st_cur_gov st = 0" "kind f = MEDIA_FRAME_TYPE_KEY_FRAME"
    and "\<And>g. g \<in> set gs \<Longrightarrow> kind g \<noteq> MEDIA_FRAME_TYPE_KEY_FRAME"
  shows "st_last_gov (fold upd (fs @ f # gs) st) = of_nat (running_gov kind (rev fs))"
proof -
  have "st_last_gov (fold upd gs s) = st_last_gov s" for s
    using assms(3) by (induction gs arbitrary: s) (auto simp: upd_last_gov)
  then show ?thesis
    using assms(1,2) by (simp add: upd_last_gov run_cur_gov)
qed

text \<open>The key frames are among the counted frames, so their counters never exceed the
  totals as long as the totals did not wrap around.\<close>

lemma keys_media: "keys_of kind fs = filter (\<lambda>f. kind f = MEDIA_FRAME_TYPE_KEY_FRAME) (media_of kind fs)"
  by (induction fs) (auto simp: keys_of_def media_of_def is_media_def)

lemma run_key_le:
  assumes "sum_list (map bytes (media_of kind fs)) < 2 ^ 64" "length (media_of kind fs) < 2 ^ 64"
    and "st_data_bytes st = 0" "st_key_bytes st = 0" "st_data_frames st = 0" "st_key_frames st = 0"
  shows "st_key_bytes (fold upd fs st) \<le> st_data_bytes (fold upd fs st) \<and>
         st_key_frames (fold upd fs st) \<le> st_data_frames (fold upd fs st)"
proof -
  have le: "sum_list (map bytes (keys_of kind fs)) \<le> sum_list (map bytes (media_of kind fs))"
    unfolding keys_media by (induction "media_of kind fs" rule: rev_induct)
      (auto intro: sum_list_filter_le_nat)
  have len: "length (keys_of kind fs) \<le> length (media_of kind fs)"
    unfolding keys_media by (rule length_filter_le)
  show ?thesis
    using le len assms
    by (simp add: run_frames run_bytes run_key_frames run_key_bytes word_le_nat_alt unat_of_nat)
qed

end

section \<open>The two implementations\<close>

lemmas stat_defs = stat_send_def stat_recv_def stat_count_key_def is_media_def Let_def

text \<open>A frame to send is its type and size; a received frame also has a sequence number.\<close>

definition send_upd :: "MediaFrameType \<times> nat \<Rightarrow> SubStreamMediaStatistic \<Rightarrow> SubStreamMediaStatistic" where
  "send_upd f st = fst (stat_send (fst f) (snd f) st)"

definition recv_upd :: "MediaFrameType \<times> nat \<times> u64 \<Rightarrow> SubStreamMediaStatistic \<Rightarrow> SubStreamMediaStatistic"
  where
  "recv_upd f st = stat_recv (fst f) (fst (snd f)) (snd (snd f)) st"

interpretation snd_cnt: frame_counter fst snd send_upd
  by unfold_locales (simp_all add: send_upd_def stat_defs)

interpretation rcv_cnt: frame_counter fst "\<lambda>f. fst (snd f)" recv_upd
  by unfold_locales (simp_all add: recv_upd_def stat_defs)

section \<open>Sequence numbers\<close>

text \<open>\<open>send_seqs\<close> lists the numbers \<open>SendLiveMediaFrame\<close> puts on a run of frames.\<close>

fun send_seqs :: "(MediaFrameType \<times> nat) list \<Rightarrow> SubStreamMediaStatistic \<Rightarrow> u64 list" where
  "send_seqs [] st = []"
| "send_seqs (f # fs) st =
     snd (stat_send (fst f) (snd f) st) # send_seqs fs (send_upd f st)"

lemma send_last_seq:
  "st_last_seq (send_upd f st) = st_last_seq st + (if is_media (fst f) then 1 else 0)"
  by (simp add: send_upd_def stat_defs)

lemma send_seq_value:
  "snd (stat_send ft sz st) = st_last_seq st + (if is_media ft then 1 else 0)"
  by (simp add: stat_defs)

lemma send_seqs_nth:
  "i < length fs \<Longrightarrow>
     send_seqs fs st ! i = st_last_seq st + of_nat (length (media_of fst (take (Suc i) fs)))"
proof (induction fs arbitrary: st i)
  case Nil
  then show ?case by simp
next
  case (Cons f fs)
  show ?case
  proof (cases i)
    case 0
    then show ?thesis by (simp add: send_seq_value media_of_def)
  next
    case (Suc j)
    with Cons show ?thesis by (simp add: send_last_seq media_of_def)
  qed
qed

lemma length_send_seqs: "length (send_seqs fs st) = length fs"
  by (induction fs arbitrary: st) auto

section \<open>Missing frames\<close>

text \<open>Every received media frame with a larger sequence number keeps
  \<open>last_seq - data_frames - lost_frames\<close>, once one frame was seen.\<close>

lemma recv_balance:
  assumes "st_last_seq st \<noteq> 0" "is_media ft" "st_last_seq st < seq"
  shows "st_last_seq (stat_recv ft n seq st) - st_data_frames (stat_recv ft n seq st)
           - st_lost_frames (stat_recv ft n seq st)
       = st_last_seq st - st_data_frames st - st_lost_frames st"
proof -
  have "st_last_seq st + 1 \<le> seq" using assms(3) by (rule inc_le)
  then have "seq > st_last_seq st + 1 \<or> seq = st_last_seq st + 1" by auto
  then show ?thesis using assms(1,2) by (auto simp: stat_defs)
qed

lemma recv_last_seq: "is_media ft \<Longrightarrow> st_last_seq (stat_recv ft n seq st) = seq"
  by (simp add: stat_defs)

lemma recv_run_balance:
  assumes "st_last_seq st \<noteq> 0" "\<And>f. f \<in> set fs \<Longrightarrow> is_media (fst f)"
    and "sorted_wrt (<) (st_last_seq st # map (\<lambda>f. snd (snd f)) fs)"
  shows "st_last_seq (fold recv_upd fs st) - st_data_frames (fold recv_upd fs st)
           - st_lost_frames (fold recv_upd fs st)
       = st_last_seq st - st_data_frames st - st_lost_frames st \<and>
     st_last_seq (fold recv_upd fs st) = last (st_last_seq st # map (\<lambda>f. snd (snd f)) fs)"
  using assms
proof (induction fs arbitrary: st)
  case Nil
  then show ?case by simp
next
  case (Cons f fs)
  let ?st = "recv_upd f st"
  have m: "is_media (fst f)" and lt: "st_last_seq st < snd (snd f)" using Cons.prems by auto
  have last: "st_last_seq ?st = snd (snd f)" by (simp add: recv_upd_def recv_last_seq m)
  have nz: "st_last_seq ?st \<noteq> 0" using last lt by auto
  have bal: "st_last_seq ?st - st_data_frames ?st - st_lost_frames ?st
      = st_last_seq st - st_data_frames st - st_lost_frames st"
    using recv_balance [OF Cons.prems(1) m lt] by (simp add: recv_upd_def)
  have "sorted_wrt (<) (st_last_seq ?st # map (\<lambda>f. snd (snd f)) fs)"
    using Cons.prems(3) by (simp add: last)
  from Cons.IH [OF nz _ this] Cons.prems(2) bal last show ?case by (auto split: if_splits)
qed

lemma diff_diff_swap: "a - b - c = d \<Longrightarrow> c = a - b - d" for a :: "'a::ab_group_add"
  by auto

lemma recv_first:
  assumes "st_last_seq st = 0" "is_media ft"
  shows "st_lost_frames (stat_recv ft n seq st) = st_lost_frames st"
    "st_data_frames (stat_recv ft n seq st) = st_data_frames st + 1"
  using assms by (simp_all add: stat_defs)

text \<open>From a fresh counter: the missing frames of a run are the gaps between its first and
  its last sequence number.\<close>

lemma recv_run_lost:
  assumes "fs \<noteq> []" "\<And>f. f \<in> set fs \<Longrightarrow> is_media (fst f)"
    and "sorted_wrt (<) (0 # map (\<lambda>f. snd (snd f)) fs)"
    and "st_last_seq st = 0" "st_lost_frames st = 0" "st_data_frames st = 0"
  shows "st_lost_frames (fold recv_upd fs st) =
     snd (snd (last fs)) - snd (snd (hd fs)) - of_nat (length fs - 1)"
proof -
  obtain f gs where fs: "fs = f # gs" using assms(1) by (cases fs) auto
  let ?st = "recv_upd f st" and ?s1 = "snd (snd f)"
  have m: "is_media (fst f)" using assms(2) fs by simp
  have st: "st_last_seq ?st = ?s1" "st_lost_frames ?st = 0" "st_data_frames ?st = 1"
    using assms(4-6) m by (simp_all add: recv_upd_def recv_last_seq recv_first)
  have nz: "?s1 \<noteq> 0" using assms(3) fs by auto
  have bal: "st_last_seq (fold recv_upd gs ?st) - st_data_frames (fold recv_upd gs ?st)
        - st_lost_frames (fold recv_upd gs ?st) = ?s1 - 1"
    and last: "st_last_seq (fold recv_upd gs ?st) = last (?s1 # map (\<lambda>f. snd (snd f)) gs)"
    using recv_run_balance [of ?st gs] assms(2,3) fs nz st by auto
  have cnt: "st_data_frames (fold recv_upd gs ?st) = 1 + of_nat (length gs)"
    using rcv_cnt.run_frames [of gs ?st] assms(2) fs st by (simp add: media_of_def)
  have "snd (snd (last fs)) = last (?s1 # map (\<lambda>f. snd (snd f)) gs)"
    by (simp add: fs last_map)
  then have "st_lost_frames (fold recv_upd gs ?st) =
      snd (snd (last fs)) - (1 + of_nat (length gs)) - (?s1 - 1)"
    using diff_diff_swap [OF bal] last cnt by simp
  then show ?thesis by (simp add: fs)
qed

end
