(* ===== verification/Stream_Source.thy ===== *)
theory Stream_Source
  imports Client_Registry Frame_Statistic
begin

text \<open>
  The class \<open>StreamSource\<close> (\<open>libstreamswitch/src/stsw_stream_source.cc\<close>): its fields as a
  record, and one definition per method.

  \<^item> Methods that hold the lock for their whole body are functions on the state. \<open>Stop\<close> and
    \<open>Start\<close> release it; their interleavings are the subject of \<open>Thread_Lifecycle\<close>.
  \<^item> What a socket sends is appended to \<open>src_api_sent\<close> and \<open>src_pub_sent\<close>; the calls of
    \<open>SourceListener::OnKeyFrame\<close> are counted. Dumps to \<open>stderr\<close> and the \<open>err_info\<close> texts are
    left out.
  \<^item> The clocks, the codec, the handlers that the application registers and the results of
    the library calls are parameters (\<open>src_env\<close>, \<open>init_env\<close> and arguments).
\<close>

unbundle bit_operations_syntax

section \<open>State\<close>

abbreviation STREAM_SOURCE_FLAG_INIT :: u32 where "STREAM_SOURCE_FLAG_INIT \<equiv> 1"
abbreviation STREAM_SOURCE_FLAG_WAITING_REPLY :: u32 where "STREAM_SOURCE_FLAG_WAITING_REPLY \<equiv> 2"
abbreviation STREAM_SOURCE_FLAG_STARTED :: u32 where "STREAM_SOURCE_FLAG_STARTED \<equiv> 4"

text \<open>\<open>on_media_statistic\<close> is how the application's \<open>OnMediaStatistic\<close> rewrites the statistic.\<close>

record SourceListener =
  on_media_statistic :: "MediaStatisticInfo \<Rightarrow> MediaStatisticInfo"

datatype SourceApiHandler =
    StaticMetadataHandler
  | StaticKeyFrameHandler
  | StaticStatisticHandler
  | StaticClientHeartbeatHandler
  | StaticClientListHandler
  | UserApiHandler nat

record SourceApiHandlerEntry =
  ah_handler :: SourceApiHandler
  ah_user_data :: user_data

record 'b StreamSource =
  src_stream_name :: string
  src_tcp_port :: int
  src_api_socket :: "zsock option"
  src_publish_socket :: "zsock option"
  src_notify_socket :: "zsock option"
  src_lock :: bool
  src_api_thread_id :: nat
  src_api_handler_map :: "(int, SourceApiHandlerEntry) omap"
  src_debug_flags :: u32
  src_flags :: u32
  src_statistic :: "SubStreamMediaStatistic list"
  src_stream_meta :: StreamMetadata
  src_cur_bytes :: u32
  src_cur_bps :: u32
  src_last_frame_sec :: int
  src_last_frame_usec :: int
  src_stream_state :: int
  src_receiver_list :: "client list"
  src_last_heartbeat_time :: int
  src_listener :: "SourceListener option"
  src_pub_queue_size :: u32
  src_api_sent :: "'b api_msg list"
  src_pub_sent :: "'b pub_msg list"
  src_key_frame_calls :: nat

text \<open>The constructor leaves \<open>debug_flags_\<close> unset; \<open>Init\<close> sets it before it is read.\<close>

definition new_StreamSource :: "'b StreamSource" where
  "new_StreamSource =
     \<lparr>src_stream_name = '''', src_tcp_port = 0, src_api_socket = None,
      src_publish_socket = None, src_notify_socket = None, src_lock = False,
      src_api_thread_id = 0, src_api_handler_map = [], src_debug_flags = 0, src_flags = 0,
      src_statistic = [], src_stream_meta = new_StreamMetadata, src_cur_bytes = 0,
      src_cur_bps = 0, src_last_frame_sec = 0, src_last_frame_usec = 0,
      src_stream_state = SOURCE_STREAM_STATE_CONNECTING, src_receiver_list = [],
      src_last_heartbeat_time = 0, src_listener = None,
      src_pub_queue_size = STSW_PUBLISH_SOCKET_HWM,
      src_api_sent = [], src_pub_sent = [], src_key_frame_calls = 0\<rparr>"

text \<open>The parameters of one call: the codec, what the registered application handlers do to
  the source, and the readings of \<open>time()\<close>, \<open>zclock_time()\<close> and \<open>zclock_mono()\<close>.\<close>

record 'b src_env =
  se_codec :: "'b pb_codec"
  se_user :: "nat \<Rightarrow> user_data \<Rightarrow> 'b ProtoCommonPacket \<Rightarrow> blob \<Rightarrow> 'b StreamSource \<Rightarrow> 'b StreamSource"
  se_time :: int
  se_zclock_time :: int
  se_zclock_mono :: int

section \<open>Flags and accessors\<close>

definition IsInit :: "'b StreamSource \<Rightarrow> bool" where
  "IsInit s \<longleftrightarrow> flag_on (src_flags s) STREAM_SOURCE_FLAG_INIT"

definition IsStarted :: "'b StreamSource \<Rightarrow> bool" where
  "IsStarted s \<longleftrightarrow> flag_on (src_flags s) STREAM_SOURCE_FLAG_STARTED"

definition IsWaitingReply :: "'b StreamSource \<Rightarrow> bool" where
  "IsWaitingReply s \<longleftrightarrow> flag_on (src_flags s) STREAM_SOURCE_FLAG_WAITING_REPLY"

definition fresh_statistic :: "StreamMetadata \<Rightarrow> SubStreamMediaStatistic list" where
  "fresh_statistic m =
     map (\<lambda>i. new_SubStreamMediaStatistic\<lparr>st_sub_stream_index := int i,
                st_media_type := ss_media_type (sm_sub_streams m ! i)\<rparr>)
       [0..<length (sm_sub_streams m)]"

definition set_stream_meta :: "StreamMetadata \<Rightarrow> 'b StreamSource \<Rightarrow> 'b StreamSource" where
  "set_stream_meta m s =
     (let s1 =
        (if sm_ssrc (src_stream_meta s) \<noteq> sm_ssrc m \<or>
            length (sm_sub_streams (src_stream_meta s)) \<noteq> length (sm_sub_streams m) then
           let s' = s\<lparr>src_statistic := fresh_statistic m\<rparr>
           in if sm_ssrc (src_stream_meta s) \<noteq> sm_ssrc m
              then s'\<lparr>src_cur_bps := 0, src_cur_bytes := 0, src_last_frame_sec := 0,
                     src_last_frame_usec := 0\<rparr>
              else s'
         else s)
      in s1\<lparr>src_stream_meta := m\<rparr>)"

section \<open>Publishing\<close>

definition SendPublishMsg ::
  "'b pb_codec \<Rightarrow> string option \<Rightarrow> 'b ProtoCommonPacket \<Rightarrow> blob \<Rightarrow> 'b StreamSource \<Rightarrow> 'b StreamSource"
  where
  "SendPublishMsg C channel msg blob s =
     (case channel of
        None \<Rightarrow> s
      | Some ch \<Rightarrow>
          if length ch = 0 then s
          else if \<not> IsInit s then s
          else s\<lparr>src_pub_sent := src_pub_sent s @
                 [\<lparr>pb_channel = ch, pb_packet = ser_packet C msg, pb_blob = blob_part blob\<rparr>]\<rparr>)"

definition stream_info_msg :: "'b src_env \<Rightarrow> 'b StreamSource \<Rightarrow> ProtoStreamInfoMsg" where
  "stream_info_msg E s =
     \<lparr>si_state = src_stream_state s,
      si_play_type = sm_play_type (src_stream_meta s),
      si_source_proto = sm_source_proto (src_stream_meta s),
      si_ssrc = sm_ssrc (src_stream_meta s),
      si_cur_bps = src_cur_bps s,
      si_last_frame_sec = src_last_frame_sec s,
      si_last_frame_usec = src_last_frame_usec s,
      si_send_time = se_zclock_time E,
      si_stream_name = src_stream_name s,
      si_client_num = to_int32 (int (length (src_receiver_list s)))\<rparr>"

definition SendStreamInfo :: "'b src_env \<Rightarrow> 'b StreamSource \<Rightarrow> 'b StreamSource" where
  "SendStreamInfo E s =
     SendPublishMsg (se_codec E) (Some STSW_PUBLISH_INFO_CHANNEL)
       (message_packet (se_codec E) PROTO_PACKET_CODE_STREAM_INFO
          (ser_stream_info (se_codec E) (stream_info_msg E s))) None s"

definition set_stream_state :: "'b src_env \<Rightarrow> int \<Rightarrow> 'b StreamSource \<Rightarrow> 'b StreamSource" where
  "set_stream_state E st s =
     (if \<not> IsInit s then s
      else
        let old_stream_state = src_stream_state s;
            s1 = s\<lparr>src_stream_state := st\<rparr>
        in if old_stream_state \<noteq> st then SendStreamInfo E s1 else s1)"

text \<open>The media frame message; the sequence number comes from the sub stream's counter.\<close>

definition media_frame_msg :: "MediaFrameInfo \<Rightarrow> u64 \<Rightarrow> ProtoMediaFrameMsg" where
  "media_frame_msg f seq =
     \<lparr>mf_stream_index = fi_sub_stream_index f, mf_sec = fi_tv_sec f,
      mf_usec = to_int32 (fi_tv_usec f), mf_frame_type = fi_frame_type f,
      mf_ssrc = fi_ssrc f, mf_seq = seq\<rparr>"

text \<open>The check of the index has no lower bound, so a negative index reaches
  \<open>statistic_[sub_stream_index]\<close>: undefined behaviour.\<close>

definition SendLiveMediaFrame ::
  "'b pb_codec \<Rightarrow> MediaFrameInfo \<Rightarrow> blob \<Rightarrow> 'b StreamSource \<Rightarrow> (int \<times> 'b StreamSource) cpp" where
  "SendLiveMediaFrame C f frame_data s =
     (if \<not> IsInit s then Ret (ERROR_CODE_GENERAL, s)
      else if sm_ssrc (src_stream_meta s) \<noteq> fi_ssrc f then Ret (ERROR_CODE_PARAM, s)
      else if fi_sub_stream_index f \<ge> int (length (sm_sub_streams (src_stream_meta s)))
        then Ret (ERROR_CODE_PARAM, s)
      else
        let s1 = s\<lparr>src_cur_bytes := src_cur_bytes s + of_nat (blob_size frame_data),
                   src_last_frame_sec := fi_tv_sec f,
                   src_last_frame_usec := to_int32 (fi_tv_usec f)\<rparr>;
            i = nat (fi_sub_stream_index f)
        in if fi_sub_stream_index f < 0 \<or> i \<ge> length (src_statistic s1) then Undef
           else
             let (st, seq) = stat_send (fi_frame_type f) (blob_size frame_data) (src_statistic s1 ! i);
                 s2 = s1\<lparr>src_statistic := (src_statistic s1)[i := st]\<rparr>;
                 media_msg = message_packet C PROTO_PACKET_CODE_MEDIA
                               (ser_media_frame C (media_frame_msg f seq))
             in Ret (0, SendPublishMsg C (Some STSW_PUBLISH_MEDIA_CHANNEL) media_msg frame_data s2))"

section \<open>Requests and replies\<close>

definition SendRpcReply ::
  "'b pb_codec \<Rightarrow> 'b ProtoCommonPacket \<Rightarrow> blob \<Rightarrow> 'b StreamSource \<Rightarrow> int \<times> 'b StreamSource" where
  "SendRpcReply C reply blob s =
     (if \<not> IsInit s then (ERROR_CODE_GENERAL, s)
      else if h_type (pk_header reply) \<noteq> PROTO_PACKET_TYPE_REPLY then (ERROR_CODE_PARAM, s)
      else if \<not> IsWaitingReply s then (ERROR_CODE_GENERAL, s)
      else
        let s1 = s\<lparr>src_flags := src_flags s AND NOT STREAM_SOURCE_FLAG_WAITING_REPLY\<rparr>
        in (0, s1\<lparr>src_api_sent := src_api_sent s1 @
                   [\<lparr>am_packet = ser_packet C reply, am_blob = blob_part blob\<rparr>]\<rparr>))"

definition RegisterApiHandler ::
  "int \<Rightarrow> SourceApiHandler \<Rightarrow> user_data \<Rightarrow> 'b StreamSource \<Rightarrow> 'b StreamSource" where
  "RegisterApiHandler op_code handler ud s =
     s\<lparr>src_api_handler_map :=
        omap_put op_code \<lparr>ah_handler = handler, ah_user_data = ud\<rparr> (src_api_handler_map s)\<rparr>"

definition UnregisterApiHandler :: "int \<Rightarrow> 'b StreamSource \<Rightarrow> 'b StreamSource" where
  "UnregisterApiHandler op_code s =
     s\<lparr>src_api_handler_map := omap_erase op_code (src_api_handler_map s)\<rparr>"

definition UnregisterAllApiHandler :: "'b StreamSource \<Rightarrow> 'b StreamSource" where
  "UnregisterAllApiHandler s = s\<lparr>src_api_handler_map := []\<rparr>"

subsection \<open>Metadata\<close>

definition proto_of_sub_stream :: "int \<Rightarrow> SubStreamMetadata \<Rightarrow> ProtoSubStreamInfo" where
  "proto_of_sub_stream index m =
     (let p = new_ProtoSubStreamInfo\<lparr>pi_index := index, pi_media_type := ss_media_type m,
                pi_codec_name := ss_codec_name m, pi_direction := ss_direction m,
                pi_extra_data := ss_extra_data m\<rparr>
      in case ss_media_type m of
           SUB_STREAM_MEIDA_TYPE_VIDEO \<Rightarrow>
             p\<lparr>pi_height := vp_height (ss_video m), pi_width := vp_width (ss_video m),
               pi_fps := vp_fps (ss_video m), pi_gov := vp_gov (ss_video m)\<rparr>
         | SUB_STREAM_MEIDA_TYPE_AUDIO \<Rightarrow>
             p\<lparr>pi_samples_per_second := ap_samples_per_second (ss_audio m),
               pi_channels := ap_channels (ss_audio m),
               pi_bits_per_sample := ap_bits_per_sample (ss_audio m),
               pi_sampele_per_frame := ap_sampele_per_frame (ss_audio m)\<rparr>
         | SUB_STREAM_MEIDA_TYPE_TEXT \<Rightarrow>
             p\<lparr>pi_x := tp_x (ss_text m), pi_y := tp_y (ss_text m),
               pi_fone_size := tp_fone_size (ss_text m), pi_font_type := tp_font_type (ss_text m)\<rparr>
         | SUB_STREAM_MEIDA_TYPE_PRIVATE \<Rightarrow> p)"

fun proto_of_sub_streams :: "int \<Rightarrow> SubStreamMetadata list \<Rightarrow> ProtoSubStreamInfo list" where
  "proto_of_sub_streams index [] = []"
| "proto_of_sub_streams index (m # ms) =
     proto_of_sub_stream index m # proto_of_sub_streams (index + 1) ms"

definition meta_rep :: "StreamMetadata \<Rightarrow> ProtoMetaRep" where
  "meta_rep m =
     \<lparr>pm_play_type = sm_play_type m, pm_source_proto = sm_source_proto m,
      pm_stream_len = sm_stream_len m, pm_ssrc = sm_ssrc m, pm_bps = sm_bps m,
      pm_sub_streams = proto_of_sub_streams 0 (sm_sub_streams m)\<rparr>"

definition MetadataHandler ::
  "'b src_env \<Rightarrow> 'b ProtoCommonPacket \<Rightarrow> 'b StreamSource \<Rightarrow> 'b StreamSource" where
  "MetadataHandler E request s =
     (let C = se_codec E;
          reply = (reply_to C request PROTO_PACKET_STATUS_OK '''')
                    \<lparr>pk_body := ser_meta C (meta_rep (src_stream_meta s))\<rparr>
      in snd (SendRpcReply C reply None s))"

subsection \<open>Key frame\<close>

definition KeyFrameHandler ::
  "'b src_env \<Rightarrow> 'b ProtoCommonPacket \<Rightarrow> 'b StreamSource \<Rightarrow> 'b StreamSource" where
  "KeyFrameHandler E request s =
     (let s1 = (case src_listener s of
                  None \<Rightarrow> s
                | Some _ \<Rightarrow> s\<lparr>src_key_frame_calls := src_key_frame_calls s + 1\<rparr>)
      in snd (SendRpcReply (se_codec E)
                (reply_to (se_codec E) request PROTO_PACKET_STATUS_OK '''') None s1))"

subsection \<open>Statistic\<close>

definition proto_of_statistic :: "SubStreamMediaStatistic \<Rightarrow> ProtoSubStreamMediaStatistic" where
  "proto_of_statistic st =
     \<lparr>ps_sub_stream_index = st_sub_stream_index st, ps_media_type = st_media_type st,
      ps_data_bytes = st_data_bytes st, ps_key_bytes = st_key_bytes st,
      ps_lost_frames = st_lost_frames st, ps_data_frames = st_data_frames st,
      ps_key_frames = st_key_frames st, ps_last_gov = st_last_gov st\<rparr>"

definition local_statistic :: "'b src_env \<Rightarrow> 'b StreamSource \<Rightarrow> MediaStatisticInfo" where
  "local_statistic E s =
     (let m = \<lparr>mi_ssrc = sm_ssrc (src_stream_meta s), mi_timestamp = se_zclock_time E,
               mi_sum_bytes = sum_list (map st_data_bytes (src_statistic s)),
               mi_sub_streams = src_statistic s\<rparr>
      in case src_listener s of None \<Rightarrow> m | Some l \<Rightarrow> on_media_statistic l m)"

definition statistic_rep :: "MediaStatisticInfo \<Rightarrow> ProtoMediaStatisticRep" where
  "statistic_rep m =
     \<lparr>pr_ssrc = mi_ssrc m, pr_timestamp = mi_timestamp m, pr_sum_bytes = mi_sum_bytes m,
      pr_sub_stream_stats = map proto_of_statistic (mi_sub_streams m)\<rparr>"

definition StatisticHandler ::
  "'b src_env \<Rightarrow> 'b ProtoCommonPacket \<Rightarrow> 'b StreamSource \<Rightarrow> 'b StreamSource" where
  "StatisticHandler E request s =
     (let C = se_codec E;
          reply = (reply_to C request PROTO_PACKET_STATUS_OK '''')
                    \<lparr>pk_body := ser_statistic C (statistic_rep (local_statistic E s))\<rparr>
      in snd (SendRpcReply C reply None s))"

subsection \<open>Clients\<close>

definition ClientHeartbeatHandler ::
  "'b src_env \<Rightarrow> 'b ProtoCommonPacket \<Rightarrow> 'b StreamSource \<Rightarrow> 'b StreamSource" where
  "ClientHeartbeatHandler E request s =
     (let C = se_codec E;
          reply = reply_to C request PROTO_PACKET_STATUS_OK ''''
      in case par_heartbeat_req C (pk_body request) of
           None \<Rightarrow>
             snd (SendRpcReply C
               (reply_to C request PROTO_PACKET_STATUS_BAD_REQUEST
                  ''ProtoClientHeartbeatReq body Parse Error'') None s)
         | Some hb \<Rightarrow>
             let now = se_time E;
                 client_heartbeat = hb\<lparr>hb_last_active_time := now\<rparr>
             in case register_client client_heartbeat (src_receiver_list s) of
                  None \<Rightarrow>
                    snd (SendRpcReply C
                      (reply_to C request PROTO_PACKET_STATUS_BAD_REQUEST
                         ''ProtoClientHeartbeatReq body Parse Error'') None s)
                | Some clients \<Rightarrow>
                    snd (SendRpcReply C
                      (reply\<lparr>pk_body := ser_heartbeat_rep C
                         \<lparr>hr_lease = STSW_CLIENT_LEASE, hr_timestamp = now\<rparr>\<rparr>) None
                      (s\<lparr>src_receiver_list := clients\<rparr>)))"

definition client_list_rep :: "ProtoClientListReq \<Rightarrow> client list \<Rightarrow> ProtoClientListRep" where
  "client_list_rep req clients =
     \<lparr>lr_total_num = of_nat (length clients), lr_start_index = lq_start_index req,
      lr_client_list = client_page (lq_start_index req) (lq_client_num req) clients\<rparr>"

definition ClientListHandler ::
  "'b src_env \<Rightarrow> 'b ProtoCommonPacket \<Rightarrow> 'b StreamSource \<Rightarrow> 'b StreamSource" where
  "ClientListHandler E request s =
     (let C = se_codec E
      in case par_list_req C (pk_body request) of
           None \<Rightarrow>
             snd (SendRpcReply C
               (reply_to C request PROTO_PACKET_STATUS_BAD_REQUEST
                  ''ProtoClientHeartbeatReq body Parse Error'') None s)
         | Some req \<Rightarrow>
             snd (SendRpcReply C
               ((reply_to C request PROTO_PACKET_STATUS_OK '''')
                  \<lparr>pk_body := ser_list_rep C (client_list_rep req (src_receiver_list s))\<rparr>) None s))"

subsection \<open>Dispatch\<close>

definition call_handler ::
  "'b src_env \<Rightarrow> SourceApiHandlerEntry \<Rightarrow> 'b ProtoCommonPacket \<Rightarrow> blob \<Rightarrow> 'b StreamSource \<Rightarrow> 'b StreamSource"
  where
  "call_handler E entry request blob s =
     (case ah_handler entry of
        StaticMetadataHandler \<Rightarrow> MetadataHandler E request s
      | StaticKeyFrameHandler \<Rightarrow> KeyFrameHandler E request s
      | StaticStatisticHandler \<Rightarrow> StatisticHandler E request s
      | StaticClientHeartbeatHandler \<Rightarrow> ClientHeartbeatHandler E request s
      | StaticClientListHandler \<Rightarrow> ClientListHandler E request s
      | UserApiHandler n \<Rightarrow> se_user E n (ah_user_data entry) request blob s)"

definition OnRpcRequest ::
  "'b src_env \<Rightarrow> 'b ProtoCommonPacket \<Rightarrow> blob \<Rightarrow> 'b StreamSource \<Rightarrow> 'b StreamSource" where
  "OnRpcRequest E request blob s =
     (let C = se_codec E;
          op_code = h_code (pk_header request)
      in case omap_find (src_api_handler_map s) op_code of
           None \<Rightarrow>
             snd (SendRpcReply C
               (reply_to C request PROTO_PACKET_STATUS_INTERNAL_ERR
                  (''Handler for code('' @ dec_int op_code @ '') Not Found'')) None s)
         | Some entry \<Rightarrow>
             let s1 = s\<lparr>src_flags := src_flags s OR STREAM_SOURCE_FLAG_WAITING_REPLY\<rparr>;
                 s2 = call_handler E entry request blob s1
             in if IsWaitingReply s2
                then snd (SendRpcReply C
                       (reply_to C request PROTO_PACKET_STATUS_INTERNAL_ERR
                          ''API Handler Error (Not send reply)'') None s2)
                else s2)"

text \<open>\<open>None\<close> is a receive that returns no message; a received message has at least one part.\<close>

definition OnApiSocketRead ::
  "'b src_env \<Rightarrow> 'b api_msg option \<Rightarrow> 'b StreamSource \<Rightarrow> 'b StreamSource" where
  "OnApiSocketRead E zmsg s =
     (let C = se_codec E
      in case zmsg of
           None \<Rightarrow> s
         | Some m \<Rightarrow>
             (case par_packet C (am_packet m) of
                Some request \<Rightarrow> OnRpcRequest E request (blob_part (am_blob m)) s
              | None \<Rightarrow>
                  snd (SendRpcReply C
                    ((fresh_packet C)\<lparr>pk_header := new_header\<lparr>h_type := PROTO_PACKET_TYPE_REPLY,
                       h_status := PROTO_PACKET_STATUS_BAD_REQUEST,
                       h_info := ''Request Parse Error''\<rparr>\<rparr>) None s)))"

section \<open>The worker thread\<close>

definition Heartbeat :: "'b src_env \<Rightarrow> int \<Rightarrow> 'b StreamSource \<Rightarrow> 'b StreamSource" where
  "Heartbeat E now0 s =
     (let now = (if now0 = 0 then se_zclock_mono E else now0);
          s1 =
            (if src_last_heartbeat_time s \<noteq> 0 then
               let elapse = now - src_last_heartbeat_time s;
                   s' = s\<lparr>src_last_heartbeat_time := now\<rparr>
               in if elapse \<noteq> 0
                  then s'\<lparr>src_cur_bps := of_int (uint (src_cur_bytes s' * 8 * 1000) sdiv elapse),
                          src_cur_bytes := 0\<rparr>
                  else s'
             else s\<lparr>src_last_heartbeat_time := now, src_cur_bytes := 0\<rparr>);
          now_sec = se_time E;
          s2 = s1\<lparr>src_receiver_list := kick_timeout now_sec (src_receiver_list s1)\<rparr>
      in SendStreamInfo E s2)"

abbreviation STSW_STREAM_SOURCE_HEARTBEAT_INT :: int where
  "STSW_STREAM_SOURCE_HEARTBEAT_INT \<equiv> 1000"

function next_source_heartbeat :: "int \<Rightarrow> int \<Rightarrow> int" where
  "next_source_heartbeat next_heartbeat_time now =
     (let t = next_heartbeat_time + STSW_STREAM_SOURCE_HEARTBEAT_INT
      in if t \<le> now then next_source_heartbeat t now else t)"
  by pat_completeness auto
termination
  by (relation "measure (\<lambda>(t, now). nat (now - t))") auto

declare next_source_heartbeat.simps [simp del]

datatype 'b src_poll = Src_Timeout | Src_Api "'b api_msg option" | Src_Notify

text \<open>One turn of the loop: wait, handle what the poller reports, then the heartbeat if it is due.
  The poller is a function of the timeout it is given; \<open>before\<close> and \<open>now\<close> are the two readings of
  the clock. The pending heartbeat time is the loop's local variable. \<open>OnNotifySocketRead\<close> only
  frees the message it reads.\<close>

definition source_turn ::
  "'b src_env \<Rightarrow> (int \<Rightarrow> 'b src_poll) \<Rightarrow> int \<Rightarrow> int \<Rightarrow> int \<times> 'b StreamSource \<Rightarrow> int \<times> 'b StreamSource" where
  "source_turn E poller before now = (\<lambda>(next_heartbeat_time, s).
     let s1 = (case poller (poll_timeout next_heartbeat_time before) of
                 Src_Timeout \<Rightarrow> s
               | Src_Api zmsg \<Rightarrow> OnApiSocketRead E zmsg s
               | Src_Notify \<Rightarrow> s)
     in if now \<ge> next_heartbeat_time
        then (next_source_heartbeat next_heartbeat_time now, Heartbeat E now s1)
        else (next_heartbeat_time, s1))"

fun source_routine ::
  "('b src_env \<times> (int \<Rightarrow> 'b src_poll) \<times> int \<times> int) list \<Rightarrow> int \<times> 'b StreamSource \<Rightarrow> int \<times> 'b StreamSource" where
  "source_routine [] st = st"
| "source_routine ((E, poller, before, now) # turns) (next_heartbeat_time, s) =
     (if IsStarted s
      then source_routine turns (source_turn E poller before now (next_heartbeat_time, s))
      else (next_heartbeat_time, s))"

section \<open>Life cycle\<close>

record init_env =
  ie_mutexattr_settype :: int
  ie_mutex_init :: int
  ie_api_new :: bool
  ie_api_attach :: int
  ie_pub_new :: bool
  ie_pub_attach :: int
  ie_notify_new :: bool

abbreviation MAX_SOCKET_BIND_ADDR_LEN :: nat where "MAX_SOCKET_BIND_ADDR_LEN \<equiv> 255"

definition source_addr :: "string \<Rightarrow> string \<Rightarrow> int \<Rightarrow> int \<Rightarrow> string" where
  "source_addr stream_name socket_name tcp_port port =
     ''@ipc://@'' @ STSW_SOCKET_NAME_STREAM_PREFIX @ ''/'' @ c_str stream_name @ ''/'' @ socket_name @
     (if tcp_port = 0 then '''' else '',@tcp://*:'' @ dec_int port)"

definition init_error_2 :: "'b StreamSource \<Rightarrow> 'b StreamSource" where
  "init_error_2 s = s\<lparr>src_notify_socket := None, src_api_socket := None,
     src_publish_socket := None, src_lock := False\<rparr>"

text \<open>The part of \<open>Init\<close> that creates the sockets. The branches for an address that is too long
  assign to a local \<open>ret\<close> that hides the outer one, so they return the 0 of
  \<open>pthread_mutex_init\<close>. After the publish socket is created, the code tests \<open>api_socket_\<close>
  again; a null publish socket then reaches \<open>zsock_set_linger\<close>, which does not accept it.\<close>

definition init_sockets ::
  "init_env \<Rightarrow> string \<Rightarrow> int \<Rightarrow> u32 \<Rightarrow> 'b StreamSource \<Rightarrow> (int \<times> bool \<times> 'b StreamSource) cpp" where
  "init_sockets ie stream_name tcp_port pub_queue_size s =
     (let (len1, addr1) = snprintf MAX_SOCKET_BIND_ADDR_LEN
             (source_addr stream_name STSW_SOCKET_NAME_STREAM_API tcp_port tcp_port)
      in if len1 = MAX_SOCKET_BIND_ADDR_LEN then Ret (0, False, init_error_2 s)
      else if \<not> ie_api_new ie then Ret (ERROR_CODE_SYSTEM, False, init_error_2 s)
      else
        let s1 = s\<lparr>src_api_socket := Some ((new_zsock ZMQ_REP addr1 0)\<lparr>sk_keepalive := True\<rparr>)\<rparr>
        in if ie_api_attach ie \<noteq> 0 then Ret (ERROR_CODE_SYSTEM, False, init_error_2 s1)
        else
          let (len2, addr2) = snprintf MAX_SOCKET_BIND_ADDR_LEN
                (source_addr stream_name STSW_SOCKET_NAME_STREAM_PUBLISH tcp_port (tcp_port + 1))
          in if len2 = MAX_SOCKET_BIND_ADDR_LEN then Ret (0, False, init_error_2 s1)
          else if src_api_socket s1 = None then Ret (ERROR_CODE_SYSTEM, False, init_error_2 s1)
          else if \<not> ie_pub_new ie then Undef
          else
            let s2 = s1\<lparr>src_publish_socket :=
                  Some ((new_zsock ZMQ_PUB addr2 STSW_PUBLISH_SOCKET_LINGER)
                        \<lparr>sk_keepalive := True, sk_hwm := Some pub_queue_size\<rparr>)\<rparr>
            in if ie_pub_attach ie \<noteq> 0 then Ret (ERROR_CODE_SYSTEM, False, init_error_2 s2)
            else if \<not> ie_notify_new ie then Ret (ERROR_CODE_SYSTEM, False, init_error_2 s2)
            else Ret (0, True, s2\<lparr>src_notify_socket := Some (new_zsock ZMQ_PAIR ''@inproc://source'' 0)\<rparr>))"

definition builtin_handlers :: "(int \<times> SourceApiHandlerEntry) list" where
  "builtin_handlers =
     [(PROTO_PACKET_CODE_METADATA, \<lparr>ah_handler = StaticMetadataHandler, ah_user_data = This\<rparr>),
      (PROTO_PACKET_CODE_KEY_FRAME, \<lparr>ah_handler = StaticKeyFrameHandler, ah_user_data = This\<rparr>),
      (PROTO_PACKET_CODE_MEDIA_STATISTIC, \<lparr>ah_handler = StaticStatisticHandler, ah_user_data = This\<rparr>),
      (PROTO_PACKET_CODE_CLIENT_HEARTBEAT,
         \<lparr>ah_handler = StaticClientHeartbeatHandler, ah_user_data = This\<rparr>),
      (PROTO_PACKET_CODE_CLIENT_LIST, \<lparr>ah_handler = StaticClientListHandler, ah_user_data = This\<rparr>)]"

text \<open>\<open>Init\<close> resets the metadata field by field and leaves \<open>stream_len\<close> as it is.\<close>

definition init_fields ::
  "string \<Rightarrow> int \<Rightarrow> u32 \<Rightarrow> SourceListener option \<Rightarrow> u32 \<Rightarrow> 'b StreamSource \<Rightarrow> 'b StreamSource" where
  "init_fields stream_name tcp_port pub_queue_size listener debug_flags s =
     (let s1 = fold (\<lambda>(op_code, e). RegisterApiHandler op_code (ah_handler e) (ah_user_data e))
                 builtin_handlers s
      in s1\<lparr>src_stream_meta := (src_stream_meta s1)\<lparr>sm_sub_streams := [], sm_bps := 0,
              sm_play_type := STREAM_PLAY_TYPE_LIVE, sm_ssrc := 0, sm_source_proto := ''''\<rparr>,
            src_statistic := [],
            src_stream_name := stream_name,
            src_tcp_port := tcp_port,
            src_debug_flags := debug_flags,
            src_listener := listener,
            src_pub_queue_size := pub_queue_size,
            src_flags := src_flags s1 OR STREAM_SOURCE_FLAG_INIT\<rparr>)"

definition Init ::
  "init_env \<Rightarrow> string \<Rightarrow> int \<Rightarrow> u32 \<Rightarrow> SourceListener option \<Rightarrow> u32 \<Rightarrow> 'b StreamSource \<Rightarrow>
     (int \<times> 'b StreamSource) cpp" where
  "Init ie stream_name tcp_port pub_queue_size listener debug_flags s =
     (if length stream_name = 0 then Ret (ERROR_CODE_PARAM, s)
      else if length stream_name \<ge> 64 then Ret (ERROR_CODE_PARAM, s)
      else if flag_on (src_flags s) STREAM_SOURCE_FLAG_INIT then Ret (-1, s)
      else if ie_mutexattr_settype ie \<noteq> 0 then Ret (ERROR_CODE_SYSTEM, s)
      else if ie_mutex_init ie \<noteq> 0 then Ret (ERROR_CODE_SYSTEM, s)
      else
        bind_cpp (init_sockets ie stream_name tcp_port pub_queue_size (s\<lparr>src_lock := True\<rparr>))
          (\<lambda>(ret, ok, s1).
             if ok then Ret (0, init_fields stream_name tcp_port pub_queue_size listener debug_flags s1)
             else Ret (ret, s1)))"

text \<open>\<open>thread\<close> is the identifier \<open>pthread_create\<close> stores, or \<open>None\<close> when it fails.\<close>

definition Start :: "nat option \<Rightarrow> 'b StreamSource \<Rightarrow> int \<times> 'b StreamSource" where
  "Start thread s =
     (if \<not> IsInit s then (-1, s)
      else if flag_on (src_flags s) STREAM_SOURCE_FLAG_STARTED then (0, s)
      else if src_api_thread_id s \<noteq> 0 then (ERROR_CODE_BUSY, s)
      else
        let s1 = s\<lparr>src_flags := src_flags s OR STREAM_SOURCE_FLAG_STARTED\<rparr>
        in case thread of
             None \<Rightarrow> (-1, s1\<lparr>src_flags := src_flags s1 AND NOT STREAM_SOURCE_FLAG_STARTED,
                             src_api_thread_id := 0\<rparr>)
           | Some tid \<Rightarrow> (0, s1\<lparr>src_api_thread_id := tid\<rparr>))"

text \<open>\<open>Stop\<close> as seen by its caller once the join has returned.\<close>

definition Stop :: "'b StreamSource \<Rightarrow> 'b StreamSource" where
  "Stop s =
     (if \<not> flag_on (src_flags s) STREAM_SOURCE_FLAG_STARTED then s
      else
        let s1 = s\<lparr>src_flags := src_flags s AND NOT STREAM_SOURCE_FLAG_STARTED\<rparr>
        in if src_api_thread_id s1 \<noteq> 0 then s1\<lparr>src_api_thread_id := 0\<rparr> else s1)"

definition Uninit :: "'b StreamSource \<Rightarrow> 'b StreamSource" where
  "Uninit s =
     (if \<not> IsInit s then s
      else
        let s1 = Stop s;
            s2 = s1\<lparr>src_flags := src_flags s1 AND NOT STREAM_SOURCE_FLAG_INIT\<rparr>;
            s3 = UnregisterAllApiHandler s2
        in s3\<lparr>src_notify_socket := None, src_api_socket := None, src_publish_socket := None,
              src_lock := False\<rparr>)"

end
