(* ===== verification/Source_Properties.thy ===== *)
theory Source_Properties
  imports Stream_Source
begin

text \<open>
  Properties of the stream source: the request-reply discipline, the invariant of the
  object under every sequence of operations, sending of media frames, the client
  registry seen through the handlers, the bit rate, and the addresses \<open>Init\<close> binds.
\<close>

unbundle bit_operations_syntax

lemmas src_flag_defs = IsInit_def IsStarted_def IsWaitingReply_def

section \<open>Replies\<close>

lemma SendRpcReply_sends:
  assumes "IsInit s" "IsWaitingReply s" "h_type (pk_header r) = PROTO_PACKET_TYPE_REPLY"
  shows "SendRpcReply C r b s = (0, s\<lparr>src_flags := src_flags s AND NOT 2,
     src_api_sent := src_api_sent s @ [\<lparr>am_packet = ser_packet C r, am_blob = blob_part b\<rparr>]\<rparr>)"
  using assms by (simp add: SendRpcReply_def Let_def)

lemma SendRpcReply_not_waiting: "\<not> IsWaitingReply s \<Longrightarrow> snd (SendRpcReply C r b s) = s"
  by (simp add: SendRpcReply_def)

text \<open>What a built-in handler answers: the reply packet, and the source it leaves apart from
  the flag and the sent message.\<close>

definition builtin_reply ::
  "'b src_env \<Rightarrow> SourceApiHandler \<Rightarrow> 'b ProtoCommonPacket \<Rightarrow> 'b StreamSource \<Rightarrow> 'b ProtoCommonPacket"
  where
  "builtin_reply E h request s =
     (let C = se_codec E; ok = reply_to C request PROTO_PACKET_STATUS_OK '''';
          bad = reply_to C request PROTO_PACKET_STATUS_BAD_REQUEST
                  ''ProtoClientHeartbeatReq body Parse Error''
      in case h of
           StaticMetadataHandler \<Rightarrow> ok\<lparr>pk_body := ser_meta C (meta_rep (src_stream_meta s))\<rparr>
         | StaticStatisticHandler \<Rightarrow> ok\<lparr>pk_body := ser_statistic C (statistic_rep (local_statistic E s))\<rparr>
         | StaticClientHeartbeatHandler \<Rightarrow>
             (case par_heartbeat_req C (pk_body request) of
                None \<Rightarrow> bad
              | Some hb \<Rightarrow>
                  (case register_client (hb\<lparr>hb_last_active_time := se_time E\<rparr>) (src_receiver_list s) of
                     None \<Rightarrow> bad
                   | Some _ \<Rightarrow> ok\<lparr>pk_body := ser_heartbeat_rep C
                                   \<lparr>hr_lease = STSW_CLIENT_LEASE, hr_timestamp = se_time E\<rparr>\<rparr>))
         | StaticClientListHandler \<Rightarrow>
             (case par_list_req C (pk_body request) of
                None \<Rightarrow> bad
              | Some req \<Rightarrow> ok\<lparr>pk_body := ser_list_rep C (client_list_rep req (src_receiver_list s))\<rparr>)
         | _ \<Rightarrow> ok)"

definition builtin_effect ::
  "'b src_env \<Rightarrow> SourceApiHandler \<Rightarrow> 'b ProtoCommonPacket \<Rightarrow> 'b StreamSource \<Rightarrow> 'b StreamSource" where
  "builtin_effect E h request s =
     (case h of
        StaticKeyFrameHandler \<Rightarrow>
          (case src_listener s of None \<Rightarrow> s
           | Some _ \<Rightarrow> s\<lparr>src_key_frame_calls := src_key_frame_calls s + 1\<rparr>)
      | StaticClientHeartbeatHandler \<Rightarrow>
          (case par_heartbeat_req (se_codec E) (pk_body request) of
             None \<Rightarrow> s
           | Some hb \<Rightarrow> s\<lparr>src_receiver_list :=
               beat_list (hb\<lparr>hb_last_active_time := se_time E\<rparr>) (src_receiver_list s)\<rparr>)
      | _ \<Rightarrow> s)"

definition is_builtin :: "SourceApiHandler \<Rightarrow> bool" where
  "is_builtin h \<longleftrightarrow> (\<forall>n. h \<noteq> UserApiHandler n)"

lemma builtin_reply_header:
  "is_builtin h \<Longrightarrow> h_type (pk_header (builtin_reply E h r s)) = PROTO_PACKET_TYPE_REPLY \<and>
     h_code (pk_header (builtin_reply E h r s)) = h_code (pk_header r) \<and>
     h_seq (pk_header (builtin_reply E h r s)) = h_seq (pk_header r)"
  by (cases h) (auto simp: builtin_reply_def Let_def is_builtin_def split: option.splits)

lemma builtin_effect_flags [simp]:
  "src_flags (builtin_effect E h r s) = src_flags s"
  "src_api_sent (builtin_effect E h r s) = src_api_sent s"
  by (auto simp: builtin_effect_def split: SourceApiHandler.splits option.splits)

lemma call_handler_builtin:
  assumes "is_builtin (ah_handler e)" "IsInit s" "IsWaitingReply s"
  shows "call_handler E e r b s =
    (builtin_effect E (ah_handler e) r s)\<lparr>src_flags := src_flags s AND NOT 2,
       src_api_sent := src_api_sent s @
         [\<lparr>am_packet = ser_packet (se_codec E) (builtin_reply E (ah_handler e) r s), am_blob = None\<rparr>]\<rparr>"
proof -
  have fl: "flag_on (src_flags s) 1" "flag_on (src_flags s) 2"
    using assms(2,3) by (simp_all add: src_flag_defs)
  have bp: "blob_part None = None" by (simp add: blob_part_def)
  note defs = call_handler_def builtin_effect_def builtin_reply_def Let_def SendRpcReply_def src_flag_defs bp
  show ?thesis
  proof (cases "ah_handler e")
    case StaticMetadataHandler
    with fl show ?thesis by (simp add: defs MetadataHandler_def)
  next
    case StaticKeyFrameHandler
    with fl show ?thesis by (simp add: defs KeyFrameHandler_def split: option.splits)
  next
    case StaticStatisticHandler
    with fl show ?thesis by (simp add: defs StatisticHandler_def)
  next
    case StaticClientHeartbeatHandler
    with fl show ?thesis
      by (simp add: defs ClientHeartbeatHandler_def beat_list_def split: option.splits)
  next
    case StaticClientListHandler
    with fl show ?thesis by (simp add: defs ClientListHandler_def split: option.splits)
  next
    case (UserApiHandler n)
    with assms(1) show ?thesis by (simp add: is_builtin_def)
  qed
qed

lemma OnRpcRequest_builtin:
  assumes "IsInit s" "omap_find (src_api_handler_map s) (h_code (pk_header r)) = Some e"
    and "is_builtin (ah_handler e)"
  shows "OnRpcRequest E r b s =
    (builtin_effect E (ah_handler e) r s)\<lparr>src_flags := src_flags s AND NOT 2,
       src_api_sent := src_api_sent s @
         [\<lparr>am_packet = ser_packet (se_codec E) (builtin_reply E (ah_handler e) r s), am_blob = None\<rparr>]\<rparr>"
proof -
  let ?s = "s\<lparr>src_flags := src_flags s OR 2\<rparr>"
  have "IsInit ?s" "IsWaitingReply ?s" using assms(1) by (simp_all add: src_flag_defs)
  note c = call_handler_builtin [OF assms(3) this, of E r b]
  have r: "builtin_reply E (ah_handler e) r ?s = builtin_reply E (ah_handler e) r s"
    by (simp add: builtin_reply_def local_statistic_def Let_def
        split: SourceApiHandler.splits option.splits)
  have e: "(builtin_effect E (ah_handler e) r ?s)\<lparr>src_flags := w, src_api_sent := a\<rparr> =
      (builtin_effect E (ah_handler e) r s)\<lparr>src_flags := w, src_api_sent := a\<rparr>" for w a
    by (auto simp: builtin_effect_def split: SourceApiHandler.splits option.splits)
  have "\<not> IsWaitingReply (call_handler E e r b ?s)"
    by (simp add: c src_flag_defs)
  with assms(2) show ?thesis
    unfolding OnRpcRequest_def Let_def by (simp add: c r e)
qed

text \<open>C2: A request whose code has a built-in handler is answered by exactly one reply packet
  with the code and the sequence number of the request, without a blob, and afterwards the
  source is not waiting for a reply any more.\<close>

theorem rpc_request_answered:
  assumes "IsInit s"
    and "omap_find (src_api_handler_map s) (h_code (pk_header request)) = Some entry"
    and "\<And>n. ah_handler entry \<noteq> UserApiHandler n"
  shows "\<exists>reply. src_api_sent (OnRpcRequest E request blob s) =
       src_api_sent s @ [\<lparr>am_packet = ser_packet (se_codec E) reply, am_blob = None\<rparr>] \<and>
     h_type (pk_header reply) = PROTO_PACKET_TYPE_REPLY \<and>
     h_code (pk_header reply) = h_code (pk_header request) \<and>
     h_seq (pk_header reply) = h_seq (pk_header request) \<and>
     \<not> IsWaitingReply (OnRpcRequest E request blob s)"
proof -
  have b: "is_builtin (ah_handler entry)" using assms(3) by (simp add: is_builtin_def)
  show ?thesis
    using OnRpcRequest_builtin [OF assms(1,2) b, of E blob] builtin_reply_header [OF b, of E request s]
    by (auto simp: src_flag_defs)
qed

text \<open>A source with the five built-in handlers, used by the concrete runs below.\<close>

definition demo_meta :: StreamMetadata where
  "demo_meta = new_StreamMetadata\<lparr>sm_ssrc := 7, sm_source_proto := ''rtsp'',
     sm_sub_streams := [new_SubStreamMetadata, new_SubStreamMetadata\<lparr>ss_media_type := SUB_STREAM_MEIDA_TYPE_AUDIO\<rparr>]\<rparr>"

definition demo_init_env :: init_env where
  "demo_init_env = \<lparr>ie_mutexattr_settype = 0, ie_mutex_init = 0, ie_api_new = True,
     ie_api_attach = 0, ie_pub_new = True, ie_pub_attach = 0, ie_notify_new = True\<rparr>"

definition demo_source :: "wire StreamSource" where
  "demo_source = (case Init demo_init_env ''cam'' 0 100 None 0 new_StreamSource of
     Ret (r, s) \<Rightarrow> set_stream_meta demo_meta s | Undef \<Rightarrow> new_StreamSource)"

definition demo_env :: "wire src_env" where
  "demo_env = \<lparr>se_codec = wire_codec, se_user = (\<lambda>n ud r b s. s), se_time = 1000,
     se_zclock_time = 1000000, se_zclock_mono = 5000\<rparr>"

lemmas demo_defs = demo_meta_def demo_init_env_def demo_source_def demo_env_def init_fields_def
  Init_def init_sockets_def source_addr_def snprintf_def c_str_def
  builtin_handlers_def RegisterApiHandler_def new_StreamSource_def set_stream_meta_def
  fresh_statistic_def Let_def stsw_simps

lemma demo_source_handlers:
  "omap_find (src_api_handler_map demo_source) 4 = Some \<lparr>ah_handler = StaticKeyFrameHandler, ah_user_data = This\<rparr>"
  "omap_find (src_api_handler_map demo_source) 1 = Some \<lparr>ah_handler = StaticMetadataHandler, ah_user_data = This\<rparr>"
  "omap_find (src_api_handler_map demo_source) 99 = None"
  by (simp_all add: demo_defs)

lemma demo_source_init: "IsInit demo_source" "\<not> IsWaitingReply demo_source" "\<not> IsStarted demo_source"
  by (simp_all add: demo_defs src_flag_defs flag_on_def)

theorem rpc_request_answered_witness:
  "\<exists>reply. src_api_sent (OnRpcRequest demo_env (request_packet wire_codec 1 4) None demo_source) =
       src_api_sent demo_source @ [\<lparr>am_packet = ser_packet (se_codec demo_env) reply, am_blob = None\<rparr>] \<and>
     h_type (pk_header reply) = PROTO_PACKET_TYPE_REPLY \<and> h_code (pk_header reply) = 4 \<and>
     h_seq (pk_header reply) = 1 \<and>
     \<not> IsWaitingReply (OnRpcRequest demo_env (request_packet wire_codec 1 4) None demo_source)"
  using rpc_request_answered [OF demo_source_init(1),
      of "request_packet wire_codec 1 4" "\<lparr>ah_handler = StaticKeyFrameHandler, ah_user_data = This\<rparr>"
         demo_env None]
  by (simp add: demo_source_handlers)

text \<open>A request that cannot be parsed, or whose code has no handler, gets no reply at all:
  the reply flag is set only on the path of a found handler, so \<open>SendRpcReply\<close> refuses the
  error reply and the source is unchanged.\<close>

theorem rpc_error_unanswered:
  assumes "\<not> IsWaitingReply s"
  shows "(par_packet (se_codec E) (am_packet m) = None \<longrightarrow> OnApiSocketRead E (Some m) s = s) \<and>
    (par_packet (se_codec E) (am_packet m) = Some request \<and>
     omap_find (src_api_handler_map s) (h_code (pk_header request)) = None \<longrightarrow>
       OnApiSocketRead E (Some m) s = s)"
  using SendRpcReply_not_waiting [OF assms]
  by (auto simp: OnApiSocketRead_def OnRpcRequest_def Let_def)

theorem rpc_error_unanswered_witness:
  "OnApiSocketRead demo_env (Some \<lparr>am_packet = W_Empty, am_blob = None\<rparr>) demo_source = demo_source \<and>
   OnApiSocketRead demo_env
     (Some \<lparr>am_packet = ser_packet wire_codec (request_packet wire_codec 1 99), am_blob = None\<rparr>)
     demo_source = demo_source"
  using rpc_error_unanswered [OF demo_source_init(2), of demo_env "\<lparr>am_packet = W_Empty, am_blob = None\<rparr>"]
    rpc_error_unanswered [OF demo_source_init(2), of demo_env
      "\<lparr>am_packet = ser_packet wire_codec (request_packet wire_codec 1 99), am_blob = None\<rparr>"
      "request_packet wire_codec 1 99"]
  by (simp add: demo_source_handlers demo_env_def codec_okD(1)) (simp add: wire_codec_def)

section \<open>The invariant of the object\<close>

text \<open>\<open>source_core\<close>: one statistic entry per sub stream, numbered from 0; a well-formed
  client registry and handler map; the sockets and the lock exist exactly while the
  source is initialised; a worker thread is recorded exactly while it is started. Between
  two calls no reply is pending.\<close>

definition stat_inv :: "'b StreamSource \<Rightarrow> bool" where
  "stat_inv s \<longleftrightarrow>
     map st_sub_stream_index (src_statistic s) = map int [0..<length (sm_sub_streams (src_stream_meta s))]"

definition life_inv :: "'b StreamSource \<Rightarrow> bool" where
  "life_inv s \<longleftrightarrow>
     (IsStarted s \<longrightarrow> IsInit s) \<and> (IsStarted s \<longleftrightarrow> src_api_thread_id s \<noteq> 0) \<and>
     (IsInit s \<longleftrightarrow> src_lock s) \<and>
     (IsInit s \<longleftrightarrow> src_api_socket s \<noteq> None) \<and> (IsInit s \<longleftrightarrow> src_publish_socket s \<noteq> None) \<and>
     (IsInit s \<longleftrightarrow> src_notify_socket s \<noteq> None)"

definition source_core :: "'b StreamSource \<Rightarrow> bool" where
  "source_core s \<longleftrightarrow> stat_inv s \<and> life_inv s \<and> registry_inv (src_receiver_list s) \<and>
     omap_inv (src_api_handler_map s)"

definition source_inv :: "'b StreamSource \<Rightarrow> bool" where
  "source_inv s \<longleftrightarrow> source_core s \<and> \<not> IsWaitingReply s"

text \<open>What an application handler must respect: the invariant and the initialised state.\<close>

definition user_safe :: "'b src_env \<Rightarrow> bool" where
  "user_safe E \<longleftrightarrow> (\<forall>n ud r b s. source_core s \<longrightarrow>
     source_core (se_user E n ud r b s) \<and> IsInit (se_user E n ud r b s) = IsInit s)"

inductive source_step :: "'b StreamSource \<Rightarrow> 'b StreamSource \<Rightarrow> bool" where
  step_init: "Init ie name port qsize l dbg s = Ret (r, s') \<Longrightarrow> source_step s s'"
| step_start: "th \<noteq> Some 0 \<Longrightarrow> source_step s (snd (Start th s))"
| step_stop: "source_step s (Stop s)"
| step_uninit: "source_step s (Uninit s)"
| step_meta: "source_step s (set_stream_meta m s)"
| step_state: "source_step s (set_stream_state E st s)"
| step_send: "SendLiveMediaFrame C f d s = Ret (r, s') \<Longrightarrow> source_step s s'"
| step_read: "IsStarted s \<Longrightarrow> user_safe E \<Longrightarrow> source_step s (OnApiSocketRead E z s)"
| step_heartbeat: "source_step s (Heartbeat E now s)"
| step_register: "source_step s (RegisterApiHandler op h ud s)"
| step_unregister: "source_step s (UnregisterApiHandler op s)"
| step_unregister_all: "source_step s (UnregisterAllApiHandler s)"

lemmas source_inv_defs = source_inv_def source_core_def

lemma stat_inv_fresh:
  "src_statistic s = fresh_statistic m \<Longrightarrow> src_stream_meta s = m \<Longrightarrow> stat_inv s"
  by (simp add: stat_inv_def fresh_statistic_def)

lemma stat_inv_length: "stat_inv s \<Longrightarrow> length (src_statistic s) = length (sm_sub_streams (src_stream_meta s))"
  unfolding stat_inv_def by (drule arg_cong [where f = length]) simp

lemma stat_inv_cong:
  "src_statistic t = src_statistic s \<Longrightarrow> src_stream_meta t = src_stream_meta s \<Longrightarrow> stat_inv t = stat_inv s"
  by (simp add: stat_inv_def)

lemma life_inv_cong:
  assumes "flag_on (src_flags t) 1 = flag_on (src_flags s) 1" "flag_on (src_flags t) 4 = flag_on (src_flags s) 4"
    "src_api_thread_id t = src_api_thread_id s" "src_lock t = src_lock s"
    "src_api_socket t = src_api_socket s" "src_publish_socket t = src_publish_socket s"
    "src_notify_socket t = src_notify_socket s"
  shows "life_inv t = life_inv s"
  using assms by (simp add: life_inv_def src_flag_defs)

lemma source_inv_change:
  assumes "source_inv s" "stat_inv t" "registry_inv (src_receiver_list t)" "omap_inv (src_api_handler_map t)"
    and "src_flags t = src_flags s" "src_api_thread_id t = src_api_thread_id s" "src_lock t = src_lock s"
    "src_api_socket t = src_api_socket s" "src_publish_socket t = src_publish_socket s"
    "src_notify_socket t = src_notify_socket s"
  shows "source_inv t"
proof -
  have "life_inv t = life_inv s" using assms by (intro life_inv_cong) simp_all
  with assms show ?thesis by (simp add: source_inv_defs src_flag_defs)
qed

lemma source_inv_new: "source_inv new_StreamSource"
  by (simp add: source_inv_defs new_StreamSource_def stat_inv_def life_inv_def registry_inv_def
      src_flag_defs omap_inv_Nil new_StreamMetadata_def)

lemma SendStreamInfo_frame:
  obtains xs where "SendStreamInfo E s = s\<lparr>src_pub_sent := xs\<rparr>"
proof -
  have "\<exists>xs. SendStreamInfo E s = s\<lparr>src_pub_sent := xs\<rparr>"
  proof (cases "IsInit s")
    case True
    then show ?thesis by (auto simp: SendStreamInfo_def SendPublishMsg_def stsw_simps)
  next
    case False
    then have "SendStreamInfo E s = s\<lparr>src_pub_sent := src_pub_sent s\<rparr>"
      by (simp add: SendStreamInfo_def SendPublishMsg_def)
    then show ?thesis ..
  qed
  then show ?thesis using that by blast
qed

lemma source_inv_pub [simp]: "source_inv (s\<lparr>src_pub_sent := xs\<rparr>) = source_inv s"
  by (simp add: source_inv_defs stat_inv_def life_inv_def src_flag_defs)

lemma source_inv_state [simp]: "source_inv (s\<lparr>src_stream_state := x\<rparr>) = source_inv s"
  by (simp add: source_inv_defs stat_inv_def life_inv_def src_flag_defs)

lemma source_inv_info: "source_inv (SendStreamInfo E s) = source_inv s"
  by (rule SendStreamInfo_frame [of E s]) simp

subsection \<open>Every operation keeps it\<close>

lemma handler_entry_eta: "\<lparr>ah_handler = ah_handler e, ah_user_data = ah_user_data e\<rparr> = (e :: SourceApiHandlerEntry)"
  by simp

lemma register_fold_other:
  "fold (\<lambda>(op_code, e). RegisterApiHandler op_code (ah_handler e) (ah_user_data e)) kvs s
     = s\<lparr>src_api_handler_map := fold (\<lambda>(k, v). omap_put k v) kvs (src_api_handler_map s)\<rparr>"
  by (induction kvs arbitrary: s) (auto simp: RegisterApiHandler_def handler_entry_eta)

lemma init_sockets_cases:
  assumes "init_sockets ie name port q s = Ret (r, ok, t)"
  shows "(if ok then
      \<exists>a p n. r = 0 \<and> t = s\<lparr>src_api_socket := Some a, src_publish_socket := Some p, src_notify_socket := Some n\<rparr>
    else t = init_error_2 s)"
  using assms
  by (auto simp: init_sockets_def snprintf_def Let_def init_error_2_def split: if_splits)

lemma init_fields_simps:
  "init_fields name port q l dbg s = s\<lparr>
     src_api_handler_map := fold (\<lambda>(k, v). omap_put k v) builtin_handlers (src_api_handler_map s),
     src_stream_meta := (src_stream_meta s)\<lparr>sm_sub_streams := [], sm_bps := 0,
        sm_play_type := STREAM_PLAY_TYPE_LIVE, sm_ssrc := 0, sm_source_proto := ''''\<rparr>,
     src_statistic := [], src_stream_name := name, src_tcp_port := port, src_debug_flags := dbg,
     src_listener := l, src_pub_queue_size := q, src_flags := src_flags s OR 1\<rparr>"
  by (simp add: init_fields_def Let_def register_fold_other)

lemma Init_cases:
  assumes "Init ie name port q l dbg s = Ret (r, t)"
  obtains (same) "t = s" "r \<noteq> 0"
  | (fail) "\<not> IsInit s"
      "init_sockets ie name port q (s\<lparr>src_lock := True\<rparr>) = Ret (r, False, t)"
  | (ok) r' s' where "\<not> IsInit s" "r = 0"
      "init_sockets ie name port q (s\<lparr>src_lock := True\<rparr>) = Ret (r', True, s')"
      "t = init_fields name port q l dbg s'"
  using assms
  by (auto simp: Init_def bind_cpp_Ret_conv src_flag_defs stsw_simps split: if_splits)

lemma Init_inv:
  assumes "source_inv s" "Init ie name port q l dbg s = Ret (r, t)"
  shows "source_inv t"
  using assms(2)
proof (cases rule: Init_cases)
  case same
  with assms(1) show ?thesis by simp
next
  case fail
  with init_sockets_cases [OF fail(2)] have "t = init_error_2 (s\<lparr>src_lock := True\<rparr>)" by simp
  with assms(1) fail(1) show ?thesis
    by (auto simp: init_error_2_def source_inv_defs stat_inv_def life_inv_def src_flag_defs)
next
  case (ok r' s')
  with init_sockets_cases [OF ok(3)] obtain a p n where
    s': "s' = s\<lparr>src_lock := True, src_api_socket := Some a, src_publish_socket := Some p, src_notify_socket := Some n\<rparr>"
    by auto
  have "omap_inv (fold (\<lambda>(k, v). omap_put k v) builtin_handlers (src_api_handler_map s))"
    by (rule omap.inv_put_all) (use assms(1) in \<open>simp add: source_inv_defs\<close>)
  with ok(4) s' assms(1) ok(1) show ?thesis
    by (auto simp: init_fields_simps source_inv_defs stat_inv_def life_inv_def src_flag_defs)
qed

lemma Start_inv: "source_inv s \<Longrightarrow> th \<noteq> Some 0 \<Longrightarrow> source_inv (snd (Start th s))"
  by (auto simp: Start_def Let_def source_inv_defs stat_inv_def life_inv_def src_flag_defs
      split: option.splits)

lemma Stop_inv: "source_inv s \<Longrightarrow> source_inv (Stop s)"
  by (auto simp: Stop_def Let_def source_inv_defs stat_inv_def life_inv_def src_flag_defs)

lemma Stop_flags:
  "\<not> IsStarted (Stop s)" "IsInit (Stop s) = IsInit s"
  by (auto simp: Stop_def Let_def src_flag_defs)

lemma Uninit_inv:
  assumes "source_inv s"
  shows "source_inv (Uninit s)"
proof (cases "IsInit s")
  case True
  have inv: "source_inv (Stop s)" and st: "\<not> IsStarted (Stop s)"
    using assms by (simp_all add: Stop_inv Stop_flags)
  then have "src_api_thread_id (Stop s) = 0" by (simp add: source_inv_defs life_inv_def)
  with True inv st show ?thesis
    by (auto simp: Uninit_def Let_def UnregisterAllApiHandler_def source_inv_defs stat_inv_def
        life_inv_def src_flag_defs omap_inv_Nil)
next
  case False
  with assms show ?thesis by (simp add: Uninit_def)
qed

lemma set_stream_meta_stat: "stat_inv s \<Longrightarrow> stat_inv (set_stream_meta m s)"
proof -
  assume inv: "stat_inv s"
  let ?c = "sm_ssrc (src_stream_meta s) \<noteq> sm_ssrc m \<or>
    length (sm_sub_streams (src_stream_meta s)) \<noteq> length (sm_sub_streams m)"
  show ?thesis
  proof (cases ?c)
    case True
    show ?thesis
      by (rule stat_inv_fresh [where m = m]) (use True in \<open>auto simp: set_stream_meta_def Let_def\<close>)
  next
    case False
    with inv show ?thesis by (auto simp: set_stream_meta_def Let_def stat_inv_def)
  qed
qed

lemma set_stream_meta_frame [simp]:
  "src_flags (set_stream_meta m s) = src_flags s"
  "src_receiver_list (set_stream_meta m s) = src_receiver_list s"
  "src_api_handler_map (set_stream_meta m s) = src_api_handler_map s"
  "src_api_thread_id (set_stream_meta m s) = src_api_thread_id s"
  "src_lock (set_stream_meta m s) = src_lock s"
  "src_api_socket (set_stream_meta m s) = src_api_socket s"
  "src_publish_socket (set_stream_meta m s) = src_publish_socket s"
  "src_notify_socket (set_stream_meta m s) = src_notify_socket s"
  by (simp_all add: set_stream_meta_def Let_def)

lemma set_stream_meta_inv: "source_inv s \<Longrightarrow> source_inv (set_stream_meta m s)"
  using life_inv_cong [of "set_stream_meta m s" s]
  by (simp add: source_inv_defs set_stream_meta_stat src_flag_defs)

lemma set_stream_state_inv: "source_inv s \<Longrightarrow> source_inv (set_stream_state E st s)"
  by (simp add: set_stream_state_def Let_def source_inv_info)

lemma SendPublishMsg_inv: "source_inv (SendPublishMsg C ch msg b s) = source_inv s"
  by (auto simp: SendPublishMsg_def split: option.splits)

lemma stat_send_index: "st_sub_stream_index (fst (stat_send ft n st)) = st_sub_stream_index st"
  using snd_cnt.upd_index [of "(ft, n)" st] by (simp add: send_upd_def)

lemma stat_inv_update:
  assumes "stat_inv s" "i < length (src_statistic s)"
    and "st_sub_stream_index st = st_sub_stream_index (src_statistic s ! i)"
  shows "stat_inv (s\<lparr>src_statistic := (src_statistic s)[i := st]\<rparr>)"
proof -
  have "map st_sub_stream_index ((src_statistic s)[i := st]) = map st_sub_stream_index (src_statistic s)"
    using assms(2,3) by (simp add: map_update list_update_same_conv)
  with assms(1) show ?thesis by (simp add: stat_inv_def)
qed

text \<open>The successful path of \<open>SendLiveMediaFrame\<close>, written once.\<close>

lemma SendLiveMediaFrame_ok:
  assumes "IsInit s" "sm_ssrc (src_stream_meta s) = fi_ssrc f" "0 \<le> fi_sub_stream_index f"
    and "nat (fi_sub_stream_index f) < length (sm_sub_streams (src_stream_meta s))" "stat_inv s"
  shows "SendLiveMediaFrame C f d s = Ret (0,
    let i = nat (fi_sub_stream_index f);
        (st, seq) = stat_send (fi_frame_type f) (blob_size d) (src_statistic s ! i)
    in s\<lparr>src_cur_bytes := src_cur_bytes s + of_nat (blob_size d),
         src_last_frame_sec := fi_tv_sec f, src_last_frame_usec := to_int32 (fi_tv_usec f),
         src_statistic := (src_statistic s)[i := st],
         src_pub_sent := src_pub_sent s @ [\<lparr>pb_channel = ''media'',
           pb_packet = ser_packet C (message_packet C PROTO_PACKET_CODE_MEDIA
             (ser_media_frame C (media_frame_msg f seq))), pb_blob = blob_part d\<rparr>]\<rparr>)"
  using assms stat_inv_length [OF assms(5)]
  by (simp add: SendLiveMediaFrame_def SendPublishMsg_def src_flag_defs Let_def
      STSW_PUBLISH_MEDIA_CHANNEL_def nat_less_iff split: prod.splits)

lemma SendLiveMediaFrame_inv:
  assumes inv: "source_inv s" and ret: "SendLiveMediaFrame C f d s = Ret (r, t)"
  shows "source_inv t"
proof -
  let ?i = "nat (fi_sub_stream_index f)"
  let ?st = "stat_send (fi_frame_type f) (blob_size d) (src_statistic s ! ?i)"
  let ?s1 = "s\<lparr>src_cur_bytes := src_cur_bytes s + of_nat (blob_size d),
                   src_last_frame_sec := fi_tv_sec f, src_last_frame_usec := to_int32 (fi_tv_usec f)\<rparr>"
  have "t = s \<or> (?i < length (src_statistic s) \<and> (\<exists>ch msg. t = SendPublishMsg C ch msg d
      (?s1\<lparr>src_statistic := (src_statistic s)[?i := fst ?st]\<rparr>)))"
    using ret by (auto simp: SendLiveMediaFrame_def Let_def split: if_splits prod.splits)
  then show ?thesis
  proof (elim disjE conjE exE)
    assume "t = s" with inv show ?thesis by simp
  next
    fix ch msg
    assume i: "?i < length (src_statistic s)"
      and t: "t = SendPublishMsg C ch msg d (?s1\<lparr>src_statistic := (src_statistic s)[?i := fst ?st]\<rparr>)"
    let ?t = "?s1\<lparr>src_statistic := (src_statistic s)[?i := fst ?st]\<rparr>"
    have "stat_inv (s\<lparr>src_statistic := (src_statistic s)[?i := fst ?st]\<rparr>)"
      using inv i by (intro stat_inv_update) (simp_all add: source_inv_defs stat_send_index)
    then have "stat_inv ?t" by (simp add: stat_inv_def)
    moreover have "life_inv ?t = life_inv s" by (rule life_inv_cong) simp_all
    ultimately have "source_inv ?t" using inv by (simp add: source_inv_defs src_flag_defs)
    with t show ?thesis by (simp add: SendPublishMsg_inv)
  qed
qed

lemma Heartbeat_inv: "source_inv s \<Longrightarrow> source_inv (Heartbeat E now s)"
  unfolding Heartbeat_def Let_def source_inv_info
  by (rule source_inv_change [of s]) (simp_all add: source_inv_defs stat_inv_def kick_timeout_inv)

lemma register_inv:
  assumes "source_inv s"
  shows "source_inv (RegisterApiHandler op h ud s)"
    and "source_inv (UnregisterApiHandler op s)"
    and "source_inv (UnregisterAllApiHandler s)"
  by (rule source_inv_change [OF assms]; use assms in \<open>simp add: RegisterApiHandler_def
        UnregisterApiHandler_def UnregisterAllApiHandler_def source_inv_defs stat_inv_def
        omap_inv_put omap_inv_erase omap_inv_Nil\<close>)+

lemma builtin_effect_core: "source_core (builtin_effect E h r s) = source_core s" if "source_core s"
proof -
  have "source_core (s\<lparr>src_receiver_list := beat_list c (src_receiver_list s)\<rparr>)" for c
    using that reg.beat_inv by (auto simp: source_core_def stat_inv_def life_inv_def src_flag_defs)
  moreover have "source_core (s\<lparr>src_key_frame_calls := n\<rparr>)" for n
    using that by (auto simp: source_core_def stat_inv_def life_inv_def src_flag_defs)
  ultimately show ?thesis
    using that by (auto simp: builtin_effect_def split: SourceApiHandler.splits option.splits)
qed

lemma source_core_answered:
  "source_core (s\<lparr>src_flags := src_flags s AND - 3, src_api_sent := a\<rparr>) = source_core s"
  "source_core (s\<lparr>src_flags := src_flags s OR 2\<rparr>) = source_core s"
  by (simp_all add: source_core_def stat_inv_def life_inv_def src_flag_defs)

lemma SendRpcReply_core: "source_core (snd (SendRpcReply C r b s)) = source_core s"
  by (simp add: SendRpcReply_def Let_def source_core_answered)

lemma OnRpcRequest_builtin_inv:
  assumes "source_inv s" "IsInit s"
    and "omap_find (src_api_handler_map s) (h_code (pk_header r)) = Some e" "is_builtin (ah_handler e)"
  shows "source_inv (OnRpcRequest E r b s)"
proof -
  have "source_core (builtin_effect E (ah_handler e) r s)"
    using assms(1) by (simp add: builtin_effect_core source_inv_def)
  with OnRpcRequest_builtin [OF assms(2-4), of E b] show ?thesis
    by (simp add: source_inv_def src_flag_defs
        source_core_answered(1) [where s = "builtin_effect E (ah_handler e) r s", simplified])
qed

lemma OnRpcRequest_inv:
  assumes "source_inv s" "IsInit s" "user_safe E"
  shows "source_inv (OnRpcRequest E r b s)"
proof (cases "omap_find (src_api_handler_map s) (h_code (pk_header r))")
  case None
  with assms(1) show ?thesis
    by (simp add: OnRpcRequest_def Let_def SendRpcReply_not_waiting source_inv_def)
next
  case (Some e)
  show ?thesis
  proof (cases "is_builtin (ah_handler e)")
    case True
    show ?thesis by (rule OnRpcRequest_builtin_inv [OF assms(1,2) Some True])
  next
    case False
    then obtain n where n: "ah_handler e = UserApiHandler n" by (auto simp: is_builtin_def)
    let ?s1 = "s\<lparr>src_flags := src_flags s OR 2\<rparr>"
    let ?s2 = "se_user E n (ah_user_data e) r b ?s1"
    have "source_core ?s1" using assms(1) by (simp add: source_core_answered source_inv_def)
    then have s2: "source_core ?s2" "IsInit ?s2"
      using assms(2,3) by (simp_all add: user_safe_def src_flag_defs)
    then have "\<not> IsWaitingReply (snd (SendRpcReply C (reply_to C r st i) None ?s2))" for C st i
      by (simp add: SendRpcReply_def Let_def src_flag_defs)
    with s2 Some n show ?thesis
      by (simp add: OnRpcRequest_def Let_def call_handler_def source_inv_def SendRpcReply_core)
  qed
qed

lemma OnApiSocketRead_inv:
  assumes "source_inv s" "IsStarted s" "user_safe E"
  shows "source_inv (OnApiSocketRead E z s)"
proof -
  have "IsInit s" using assms by (simp add: source_inv_defs life_inv_def)
  moreover have "\<not> IsWaitingReply s" using assms by (simp add: source_inv_def)
  ultimately show ?thesis
    using assms by (simp add: OnApiSocketRead_def Let_def OnRpcRequest_inv SendRpcReply_not_waiting
        split: option.splits)
qed

lemmas source_op_inv = Init_inv Start_inv Stop_inv Uninit_inv set_stream_meta_inv set_stream_state_inv
  SendLiveMediaFrame_inv OnApiSocketRead_inv Heartbeat_inv register_inv

lemma source_step_inv: "source_inv s \<Longrightarrow> source_step s t \<Longrightarrow> source_inv t"
  by (erule source_step.cases) (blast intro: source_op_inv)+

interpretation src_machine: state_machine "\<lambda>s. s = new_StreamSource" source_step source_inv
  by unfold_locales (auto simp: source_inv_new intro: source_step_inv)

text \<open>C3: In every state a source can reach by any sequence of its operations the invariant
  holds: one numbered statistic entry per sub stream, at most the maximal number of
  pairwise different clients, sockets exactly while initialised, a recorded worker thread
  exactly while started, and no reply pending between two calls.\<close>

theorem source_reachable_inv:
  assumes "reachable_from (\<lambda>s. s = new_StreamSource) source_step s"
  shows "source_inv s"
  using assms by (rule src_machine.reach_inv)

lemma demo_init_ret:
  "\<exists>s. Init demo_init_env ''cam'' 0 100 None 0 new_StreamSource = Ret (0, s) \<and>
       demo_source = set_stream_meta demo_meta s"
  unfolding demo_source_def
  by (simp add: demo_init_env_def Init_def init_sockets_def source_addr_def snprintf_def c_str_def
      new_StreamSource_def stsw_simps)

lemma demo_source_reachable: "reachable_from (\<lambda>s. s = new_StreamSource) source_step demo_source"
proof -
  obtain s where i: "Init demo_init_env ''cam'' 0 100 None 0 new_StreamSource = Ret (0, s)"
    and d: "demo_source = set_stream_meta demo_meta s" using demo_init_ret by blast
  have "reachable_from (\<lambda>s. s = new_StreamSource) source_step s"
    using reach_init [of "\<lambda>s. s = new_StreamSource" new_StreamSource] step_init [OF i]
    by (blast intro: reach_step)
  then show ?thesis unfolding d using step_meta by (rule reach_step)
qed

theorem source_reachable_inv_witness:
  "reachable_from (\<lambda>s. s = new_StreamSource) source_step demo_source \<and> source_inv demo_source"
  using demo_source_reachable source_reachable_inv [OF demo_source_reachable] by simp

lemma demo_source_inv: "source_inv demo_source"
  using demo_source_reachable by (rule src_machine.reach_inv)

section \<open>Sending media frames\<close>

text \<open>On a well-formed initialised source a frame whose ssrc matches has undefined
  behaviour exactly when its sub stream index is negative; the code only checks the upper
  bound before it indexes the statistic vector.\<close>

theorem send_frame_undefined_iff:
  assumes "source_inv s"
  shows "SendLiveMediaFrame C f d s = Undef \<longleftrightarrow>
    IsInit s \<and> sm_ssrc (src_stream_meta s) = fi_ssrc f \<and> fi_sub_stream_index f < 0"
proof -
  have "length (src_statistic s) = length (sm_sub_streams (src_stream_meta s))"
    using assms by (simp add: source_inv_defs stat_inv_length)
  then show ?thesis
    by (auto simp: SendLiveMediaFrame_def Let_def nat_le_iff split: prod.splits)
qed

theorem send_frame_undefined_iff_witness:
  "SendLiveMediaFrame wire_codec \<lparr>fi_sub_stream_index = -1, fi_frame_type = MEDIA_FRAME_TYPE_DATA_FRAME,
     fi_tv_sec = 0, fi_tv_usec = 0, fi_ssrc = 7\<rparr> None demo_source = Undef"
proof -
  have "sm_ssrc (src_stream_meta demo_source) = 7" by (simp add: demo_defs)
  then show ?thesis
    using send_frame_undefined_iff [OF demo_source_inv, of wire_codec "\<lparr>fi_sub_stream_index = -1,
        fi_frame_type = MEDIA_FRAME_TYPE_DATA_FRAME, fi_tv_sec = 0, fi_tv_usec = 0, fi_ssrc = 7\<rparr>" None]
      demo_source_init by simp
qed

text \<open>A run of calls, and the frames of one sub stream.\<close>

fun send_run :: "'b pb_codec \<Rightarrow> (MediaFrameInfo \<times> blob) list \<Rightarrow> 'b StreamSource \<Rightarrow> 'b StreamSource cpp" where
  "send_run C [] s = Ret s"
| "send_run C ((f, d) # fs) s = bind_cpp (SendLiveMediaFrame C f d s) (\<lambda>(r, t). send_run C fs t)"

definition frame_ok :: "'b StreamSource \<Rightarrow> MediaFrameInfo \<Rightarrow> bool" where
  "frame_ok s f \<longleftrightarrow> sm_ssrc (src_stream_meta s) = fi_ssrc f \<and> 0 \<le> fi_sub_stream_index f \<and>
     fi_sub_stream_index f < int (length (sm_sub_streams (src_stream_meta s)))"

definition frames_of :: "int \<Rightarrow> (MediaFrameInfo \<times> blob) list \<Rightarrow> (MediaFrameType \<times> nat) list" where
  "frames_of i fs = map (\<lambda>(f, d). (fi_frame_type f, blob_size d)) (filter (\<lambda>(f, d). fi_sub_stream_index f = i) fs)"

lemma send_one:
  assumes "source_inv s" "IsInit s" "frame_ok s f"
  obtains t where "SendLiveMediaFrame C f d s = Ret (0, t)" "source_inv t" "IsInit t"
    "src_stream_meta t = src_stream_meta s"
    "src_statistic t = (src_statistic s)[nat (fi_sub_stream_index f) :=
       send_upd (fi_frame_type f, blob_size d) (src_statistic s ! nat (fi_sub_stream_index f))]"
    "src_pub_sent t = src_pub_sent s @ [\<lparr>pb_channel = ''media'',
       pb_packet = ser_packet C (message_packet C PROTO_PACKET_CODE_MEDIA (ser_media_frame C
         (media_frame_msg f (snd (stat_send (fi_frame_type f) (blob_size d)
            (src_statistic s ! nat (fi_sub_stream_index f))))))), pb_blob = blob_part d\<rparr>]"
proof -
  let ?t = "let i = nat (fi_sub_stream_index f);
        (st, seq) = stat_send (fi_frame_type f) (blob_size d) (src_statistic s ! i)
    in s\<lparr>src_cur_bytes := src_cur_bytes s + of_nat (blob_size d),
         src_last_frame_sec := fi_tv_sec f, src_last_frame_usec := to_int32 (fi_tv_usec f),
         src_statistic := (src_statistic s)[i := st],
         src_pub_sent := src_pub_sent s @ [\<lparr>pb_channel = ''media'',
           pb_packet = ser_packet C (message_packet C PROTO_PACKET_CODE_MEDIA
             (ser_media_frame C (media_frame_msg f seq))), pb_blob = blob_part d\<rparr>]\<rparr>"
  have ok: "SendLiveMediaFrame C f d s = Ret (0, ?t)"
    using assms by (intro SendLiveMediaFrame_ok) (auto simp: frame_ok_def source_inv_defs)
  show ?thesis
    by (rule that [OF ok SendLiveMediaFrame_inv [OF assms(1) ok]])
      (use assms(2) in \<open>simp_all add: Let_def src_flag_defs send_upd_def split: prod.splits\<close>)
qed

text \<open>The number of the \<open>k\<close>-th frame of a run: the last number of its sub stream before the run
  plus the media frames of that sub stream up to and including it.\<close>

definition run_seq :: "SubStreamMediaStatistic list \<Rightarrow> (MediaFrameInfo \<times> blob) list \<Rightarrow> nat \<Rightarrow> u64" where
  "run_seq sts fs k =
     (let i = fi_sub_stream_index (fst (fs ! k))
      in st_last_seq (sts ! nat i) + of_nat (length (media_of fst (frames_of i (take (Suc k) fs)))))"

definition run_msg ::
  "'b pb_codec \<Rightarrow> SubStreamMediaStatistic list \<Rightarrow> (MediaFrameInfo \<times> blob) list \<Rightarrow> nat \<Rightarrow> 'b pub_msg" where
  "run_msg C sts fs k = \<lparr>pb_channel = ''media'',
     pb_packet = ser_packet C (message_packet C PROTO_PACKET_CODE_MEDIA (ser_media_frame C
        (media_frame_msg (fst (fs ! k)) (run_seq sts fs k)))), pb_blob = blob_part (snd (fs ! k))\<rparr>"

lemma frames_of_Cons:
  "frames_of i ((f, d) # fs) =
     (if fi_sub_stream_index f = i then (fi_frame_type f, blob_size d) # frames_of i fs else frames_of i fs)"
  by (simp add: frames_of_def)

lemma run_seq_Suc:
  assumes "nat (fi_sub_stream_index f) < length sts" "0 \<le> fi_sub_stream_index f"
    and "0 \<le> fi_sub_stream_index (fst (fs ! k))" "k < length fs"
  shows "run_seq sts ((f, d) # fs) (Suc k) =
    run_seq (sts[nat (fi_sub_stream_index f) :=
       send_upd (fi_frame_type f, blob_size d) (sts ! nat (fi_sub_stream_index f))]) fs k"
  using assms
  by (auto simp: run_seq_def Let_def frames_of_Cons media_of_def send_last_seq nth_list_update
      eq_nat_nat_iff)

lemma run_msg_0:
  "run_msg C sts ((f, d) # fs) 0 = \<lparr>pb_channel = ''media'',
     pb_packet = ser_packet C (message_packet C PROTO_PACKET_CODE_MEDIA (ser_media_frame C
       (media_frame_msg f (snd (stat_send (fi_frame_type f) (blob_size d) (sts ! nat (fi_sub_stream_index f))))))),
     pb_blob = blob_part d\<rparr>"
  by (simp add: run_msg_def run_seq_def frames_of_def media_of_def send_seq_value)

lemma run_msg_Suc:
  assumes "nat (fi_sub_stream_index f) < length sts" "0 \<le> fi_sub_stream_index f"
    and "0 \<le> fi_sub_stream_index (fst (fs ! k))" "k < length fs"
  shows "run_msg C sts ((f, d) # fs) (Suc k) =
    run_msg C (sts[nat (fi_sub_stream_index f) :=
       send_upd (fi_frame_type f, blob_size d) (sts ! nat (fi_sub_stream_index f))]) fs k"
  using run_seq_Suc [OF assms] by (simp add: run_msg_def)

lemma send_run_spec:
  assumes "source_inv s" "IsInit s" "list_all (\<lambda>(f, d). frame_ok s f) fs"
  shows "\<exists>t. send_run C fs s = Ret t \<and> source_inv t \<and> IsInit t \<and> src_stream_meta t = src_stream_meta s \<and>
    src_pub_sent t = src_pub_sent s @ map (run_msg C (src_statistic s) fs) [0..<length fs] \<and>
    (\<forall>i < length (src_statistic s).
       src_statistic t ! i = fold send_upd (frames_of (int i) fs) (src_statistic s ! i))"
  using assms
proof (induction fs arbitrary: s)
  case Nil
  then show ?case by (simp add: frames_of_def)
next
  case (Cons fd fs)
  obtain f d where fd: "fd = (f, d)" by (cases fd)
  let ?i = "nat (fi_sub_stream_index f)"
  have ok: "frame_ok s f" and oks: "list_all (\<lambda>(f, d). frame_ok s f) fs" using Cons.prems fd by auto
  obtain u where u: "SendLiveMediaFrame C f d s = Ret (0, u)" "source_inv u" "IsInit u"
    "src_stream_meta u = src_stream_meta s"
    "src_statistic u = (src_statistic s)[?i := send_upd (fi_frame_type f, blob_size d) (src_statistic s ! ?i)]"
    "src_pub_sent u = src_pub_sent s @ [\<lparr>pb_channel = ''media'',
       pb_packet = ser_packet C (message_packet C PROTO_PACKET_CODE_MEDIA (ser_media_frame C
         (media_frame_msg f (snd (stat_send (fi_frame_type f) (blob_size d) (src_statistic s ! ?i)))))),
       pb_blob = blob_part d\<rparr>]"
    using send_one [OF Cons.prems(1,2) ok] by metis
  have oku: "list_all (\<lambda>(f, d). frame_ok u f) fs" using oks u(4) by (simp add: frame_ok_def)
  obtain t where t: "send_run C fs u = Ret t" "source_inv t" "IsInit t" "src_stream_meta t = src_stream_meta u"
    "src_pub_sent t = src_pub_sent u @ map (run_msg C (src_statistic u) fs) [0..<length fs]"
    "\<And>i. i < length (src_statistic u) \<Longrightarrow>
       src_statistic t ! i = fold send_upd (frames_of (int i) fs) (src_statistic u ! i)"
    using Cons.IH [OF u(2,3) oku] by blast
  have i: "?i < length (src_statistic s)" "0 \<le> fi_sub_stream_index f"
    using ok Cons.prems(1) by (auto simp: frame_ok_def source_inv_defs stat_inv_length)
  have "run_msg C (src_statistic u) fs k = run_msg C (src_statistic s) (fd # fs) (Suc k)"
    if "k < length fs" for k
    unfolding fd u(5)
    by (rule run_msg_Suc [symmetric]) (use that oks i in \<open>auto simp: list_all_length frame_ok_def split_beta\<close>)
  then have "map (run_msg C (src_statistic u) fs) [0..<length fs] =
      map (run_msg C (src_statistic s) (fd # fs)) (map Suc [0..<length fs])"
    by simp
  then have pub: "src_pub_sent t = src_pub_sent s @ map (run_msg C (src_statistic s) (fd # fs)) [0..<length (fd # fs)]"
    by (simp only: t(5) u(6) run_msg_0 fd length_Cons upt_0_Suc list.map append_assoc append_Cons append_Nil)
  have stat: "src_statistic t ! j = fold send_upd (frames_of (int j) (fd # fs)) (src_statistic s ! j)"
    if "j < length (src_statistic s)" for j
    using that i t(6) [of j] by (auto simp: u(5) fd frames_of_Cons nth_list_update)
  show ?case
    using u(1) t(1-4) u(4) pub stat by (simp add: fd)
qed

text \<open>C7: A run of frames that match the metadata is accepted completely and published on the
  media channel in order; the \<open>k\<close>-th message carries the frame and the next sequence number
  of its sub stream: media frames of one sub stream are numbered consecutively, frames
  without media data repeat the last number.\<close>

theorem send_run_published:
  assumes "source_inv s" "IsInit s" "list_all (\<lambda>(f, d). frame_ok s f) fs"
  shows "\<exists>t. send_run C fs s = Ret t \<and>
    src_pub_sent t = src_pub_sent s @ map (\<lambda>k. \<lparr>pb_channel = STSW_PUBLISH_MEDIA_CHANNEL,
      pb_packet = ser_packet C (message_packet C PROTO_PACKET_CODE_MEDIA (ser_media_frame C
        (media_frame_msg (fst (fs ! k)) (run_seq (src_statistic s) fs k)))),
      pb_blob = blob_part (snd (fs ! k))\<rparr>) [0..<length fs]"
  using send_run_spec [OF assms, of C] by (auto simp: run_msg_def [abs_def] stsw_simps)

text \<open>C8: After such a run every sub stream's statistic counts exactly its own frames: frames
  and bytes of media and key frames, and the length of the running group of pictures.\<close>

theorem send_run_statistic:
  assumes "source_inv s" "IsInit s" "list_all (\<lambda>(f, d). frame_ok s f) fs" "i < length (src_statistic s)"
    and "src_statistic s ! i = new_SubStreamMediaStatistic\<lparr>st_sub_stream_index := int i, st_media_type := ty\<rparr>"
  shows "\<exists>t. send_run C fs s = Ret t \<and>
    (let st = src_statistic t ! i; mine = frames_of (int i) fs
     in st_data_frames st = of_nat (length (media_of fst mine)) \<and>
        st_data_bytes st = of_nat (sum_list (map snd (media_of fst mine))) \<and>
        st_key_frames st = of_nat (length (keys_of fst mine)) \<and>
        st_key_bytes st = of_nat (sum_list (map snd (keys_of fst mine))) \<and>
        st_cur_gov st = of_nat (running_gov fst (rev mine)))"
  using send_run_spec [OF assms(1-3), of C] assms(4,5)
  by (auto simp: Let_def snd_cnt.run_frames snd_cnt.run_bytes snd_cnt.run_key_frames
      snd_cnt.run_key_bytes snd_cnt.run_cur_gov new_SubStreamMediaStatistic_def)

definition demo_frames :: "(MediaFrameInfo \<times> blob) list" where
  "demo_frames =
     [(\<lparr>fi_sub_stream_index = 0, fi_frame_type = MEDIA_FRAME_TYPE_KEY_FRAME, fi_tv_sec = 1, fi_tv_usec = 0, fi_ssrc = 7\<rparr>, Some ''abc''),
      (\<lparr>fi_sub_stream_index = 1, fi_frame_type = MEDIA_FRAME_TYPE_DATA_FRAME, fi_tv_sec = 1, fi_tv_usec = 5, fi_ssrc = 7\<rparr>, Some ''d''),
      (\<lparr>fi_sub_stream_index = 0, fi_frame_type = MEDIA_FRAME_TYPE_DATA_FRAME, fi_tv_sec = 2, fi_tv_usec = 0, fi_ssrc = 7\<rparr>, Some ''ef'')]"

lemma demo_frames_ok: "list_all (\<lambda>(f, d). frame_ok demo_source f) demo_frames"
  by (simp add: demo_frames_def frame_ok_def demo_defs)

lemma demo_source_stat:
  "src_statistic demo_source =
     [new_SubStreamMediaStatistic\<lparr>st_sub_stream_index := 0, st_media_type := SUB_STREAM_MEIDA_TYPE_VIDEO\<rparr>,
      new_SubStreamMediaStatistic\<lparr>st_sub_stream_index := 1, st_media_type := SUB_STREAM_MEIDA_TYPE_AUDIO\<rparr>]"
  by (simp add: demo_defs upt_rec)

theorem send_run_published_witness:
  "\<exists>t. send_run wire_codec demo_frames demo_source = Ret t \<and> length (src_pub_sent t) = length (src_pub_sent demo_source) + 3 \<and>
     run_seq (src_statistic demo_source) demo_frames 2 = 2"
proof -
  have "run_seq (src_statistic demo_source) demo_frames 2 = 2"
    by (simp add: run_seq_def demo_frames_def demo_source_stat frames_of_def media_of_def is_media_def
        new_SubStreamMediaStatistic_def)
  then show ?thesis
    using send_run_published [OF demo_source_inv demo_source_init(1) demo_frames_ok, of wire_codec]
    by (auto simp: demo_frames_def)
qed

theorem send_run_statistic_witness:
  "\<exists>t. send_run wire_codec demo_frames demo_source = Ret t \<and>
     st_data_frames (src_statistic t ! 0) = 2 \<and> st_data_bytes (src_statistic t ! 0) = 5"
proof -
  have i: "0 < length (src_statistic demo_source)" by (simp add: demo_source_stat)
  have st: "src_statistic demo_source ! 0 = new_SubStreamMediaStatistic
      \<lparr>st_sub_stream_index := int 0, st_media_type := SUB_STREAM_MEIDA_TYPE_VIDEO\<rparr>"
    by (simp add: demo_source_stat)
  show ?thesis
    using send_run_statistic [OF demo_source_inv demo_source_init(1) demo_frames_ok i st, of wire_codec]
    by (auto simp: Let_def demo_frames_def frames_of_def media_of_def is_media_def blob_size_def)
qed

section \<open>Clients\<close>

text \<open>The operations that touch the registry: heartbeat requests that reach the source, and the
  periodic heartbeat of its worker thread.\<close>

datatype 'b client_event = Hb_Request "'b src_env" "'b ProtoCommonPacket" blob | Hb_Tick "'b src_env" int

fun client_event_run :: "'b client_event list \<Rightarrow> 'b StreamSource \<Rightarrow> 'b StreamSource" where
  "client_event_run [] s = s"
| "client_event_run (Hb_Request E r b # evs) s = client_event_run evs (OnRpcRequest E r b s)"
| "client_event_run (Hb_Tick E now # evs) s = client_event_run evs (Heartbeat E now s)"

text \<open>What an event means for the registry; a request with a body that is no heartbeat means
  nothing.\<close>

fun registry_event_of :: "'b client_event \<Rightarrow> registry_event list" where
  "registry_event_of (Hb_Request E r b) =
     (case par_heartbeat_req (se_codec E) (pk_body r) of
        None \<Rightarrow> [] | Some hb \<Rightarrow> [Beat (hb\<lparr>hb_last_active_time := se_time E\<rparr>)])"
| "registry_event_of (Hb_Tick E now) = [Expire (se_time E)]"

definition hb_entry :: SourceApiHandlerEntry where
  "hb_entry = \<lparr>ah_handler = StaticClientHeartbeatHandler, ah_user_data = This\<rparr>"

definition serves_heartbeat :: "'b StreamSource \<Rightarrow> bool" where
  "serves_heartbeat s \<longleftrightarrow> IsInit s \<and>
     omap_find (src_api_handler_map s) PROTO_PACKET_CODE_CLIENT_HEARTBEAT = Some hb_entry"

definition is_hb_event :: "'b client_event \<Rightarrow> bool" where
  "is_hb_event ev = (case ev of Hb_Request E r b \<Rightarrow> h_code (pk_header r) = PROTO_PACKET_CODE_CLIENT_HEARTBEAT
     | Hb_Tick E now \<Rightarrow> True)"

lemma Heartbeat_clients: "src_receiver_list (Heartbeat E now s) = kick_timeout (se_time E) (src_receiver_list s)"
proof -
  have *: "src_receiver_list (SendStreamInfo E t) = src_receiver_list t" for t
    by (rule SendStreamInfo_frame [of E t]) simp
  show ?thesis by (simp add: Heartbeat_def Let_def *)
qed

lemma Heartbeat_serves: "serves_heartbeat (Heartbeat E now s) = serves_heartbeat s"
proof -
  have *: "src_flags (SendStreamInfo E t) = src_flags t"
    "src_api_handler_map (SendStreamInfo E t) = src_api_handler_map t" for t
    by (rule SendStreamInfo_frame [of E t], simp)+
  show ?thesis by (simp add: serves_heartbeat_def src_flag_defs Heartbeat_def Let_def *)
qed

lemma OnRpcRequest_heartbeat:
  assumes "serves_heartbeat s" "h_code (pk_header r) = PROTO_PACKET_CODE_CLIENT_HEARTBEAT"
  shows "src_receiver_list (OnRpcRequest E r b s) =
      fold (reg_apply beat_list kick_timeout) (registry_event_of (Hb_Request E r b)) (src_receiver_list s)"
    and "serves_heartbeat (OnRpcRequest E r b s)"
proof -
  have e: "IsInit s" "omap_find (src_api_handler_map s) (h_code (pk_header r)) = Some hb_entry"
    "is_builtin (ah_handler hb_entry)"
    using assms by (simp_all add: serves_heartbeat_def hb_entry_def is_builtin_def)
  note eq = OnRpcRequest_builtin [OF e, of E b]
  show "src_receiver_list (OnRpcRequest E r b s) =
      fold (reg_apply beat_list kick_timeout) (registry_event_of (Hb_Request E r b)) (src_receiver_list s)"
    by (simp add: eq hb_entry_def builtin_effect_def reg_apply_def split: option.splits)
  show "serves_heartbeat (OnRpcRequest E r b s)"
    using assms by (simp add: eq hb_entry_def builtin_effect_def serves_heartbeat_def src_flag_defs
        split: option.splits)
qed

lemma OnRpcRequest_heartbeat_inv:
  assumes "source_inv s" "serves_heartbeat s" "h_code (pk_header r) = PROTO_PACKET_CODE_CLIENT_HEARTBEAT"
  shows "source_inv (OnRpcRequest E r b s)"
  by (rule OnRpcRequest_builtin_inv [of s r hb_entry])
    (use assms in \<open>simp_all add: serves_heartbeat_def hb_entry_def is_builtin_def\<close>)

lemma client_event_run_refines:
  "serves_heartbeat s \<Longrightarrow> list_all is_hb_event evs \<Longrightarrow>
     src_receiver_list (client_event_run evs s) =
       fold (reg_apply beat_list kick_timeout) (concat (map registry_event_of evs)) (src_receiver_list s)"
proof (induction evs s rule: client_event_run.induct)
  case (1 s)
  then show ?case by simp
next
  case (2 E r b evs s)
  then show ?case by (simp add: is_hb_event_def OnRpcRequest_heartbeat)
next
  case (3 E now evs s)
  then show ?case by (simp add: Heartbeat_serves Heartbeat_clients reg_apply_def)
qed

lemma client_event_run_keeps:
  "source_inv s \<Longrightarrow> serves_heartbeat s \<Longrightarrow> list_all is_hb_event evs \<Longrightarrow>
     source_inv (client_event_run evs s) \<and> serves_heartbeat (client_event_run evs s)"
proof (induction evs s rule: client_event_run.induct)
  case (1 s)
  then show ?case by simp
next
  case (2 E r b evs s)
  then show ?case by (simp add: is_hb_event_def OnRpcRequest_heartbeat(2) OnRpcRequest_heartbeat_inv)
next
  case (3 E now evs s)
  then show ?case by (simp add: Heartbeat_serves Heartbeat_inv)
qed

text \<open>C5: Refinement of the client list by a finite map keyed by ip, port and token. From an
  initialised source that has its own handler for the client heartbeat, any interleaving of
  heartbeat requests and periodic heartbeats of the worker acts on the map as the same sequence of
  insertions, with the time of the request (refused only for a new client when the source is full;
  a request with a malformed body means nothing), and removals of the entries that were not active
  for the lease; and the source keeps its invariant and goes on serving heartbeats.\<close>

theorem client_list_refines_map:
  assumes "source_inv s" "serves_heartbeat s" "list_all is_hb_event evs"
  shows "registry_map (src_receiver_list (client_event_run evs s)) =
      fold map_apply (concat (map registry_event_of evs)) (registry_map (src_receiver_list s)) \<and>
    source_inv (client_event_run evs s) \<and> serves_heartbeat (client_event_run evs s)"
proof -
  have "registry_inv (src_receiver_list s)" using assms(1) by (simp add: source_inv_defs)
  then show ?thesis
    unfolding client_event_run_refines [OF assms(2,3)]
    using client_event_run_keeps [OF assms] by (simp add: reg.run_refines)
qed

definition demo_client :: client where
  "demo_client = \<lparr>hb_client_ip_version = STREAM_IP_VERSION_V4, hb_client_ip = ''10.0.0.1'',
     hb_client_port = 5000, hb_client_token = ''t'', hb_client_protocol = ''rtsp'',
     hb_client_text = '''', hb_last_active_time = 0\<rparr>"

definition demo_hb_request :: "wire ProtoCommonPacket" where
  "demo_hb_request = (request_packet wire_codec 3 PROTO_PACKET_CODE_CLIENT_HEARTBEAT)
     \<lparr>pk_body := W_HeartbeatReq demo_client\<rparr>"

definition demo_registered :: "wire StreamSource" where
  "demo_registered = OnRpcRequest demo_env demo_hb_request None demo_source"

lemma demo_hb_request_simps:
  "h_code (pk_header demo_hb_request) = PROTO_PACKET_CODE_CLIENT_HEARTBEAT"
  "par_heartbeat_req (se_codec demo_env) (pk_body demo_hb_request) = Some demo_client"
  "se_time demo_env = 1000"
  by (simp_all add: demo_hb_request_def demo_env_def wire_codec_def request_packet_def)

lemma demo_serves: "serves_heartbeat demo_source"
  unfolding serves_heartbeat_def hb_entry_def using demo_source_init(1) by (simp add: demo_defs)

lemma demo_source_clients: "src_receiver_list demo_source = []"
  by (simp add: demo_defs)

theorem client_list_refines_map_witness:
  "registry_map (src_receiver_list (client_event_run [Hb_Request demo_env demo_hb_request None,
       Hb_Tick (demo_env\<lparr>se_time := 1014\<rparr>) 20000] demo_source)) (client_key demo_client)
     = Some (demo_client\<lparr>hb_last_active_time := 1000\<rparr>) \<and>
   registry_map (src_receiver_list (client_event_run [Hb_Request demo_env demo_hb_request None,
       Hb_Tick (demo_env\<lparr>se_time := 1015\<rparr>) 20000] demo_source)) (client_key demo_client) = None"
proof -
  have "list_all is_hb_event [Hb_Request demo_env demo_hb_request None, Hb_Tick E n]" for E n
    by (simp add: is_hb_event_def demo_hb_request_simps)
  from client_list_refines_map [OF demo_source_inv demo_serves this]
  show ?thesis
    by (simp add: demo_hb_request_simps demo_source_clients registry_map_def map_apply_def client_key_def
        STSW_MAX_CLIENT_NUM_def STSW_CLIENT_LEASE_def)
qed

lemma demo_registered_step:
  "source_inv demo_registered" "serves_heartbeat demo_registered"
  "src_receiver_list demo_registered = [demo_client\<lparr>hb_last_active_time := 1000\<rparr>]"
proof -
  have "user_safe demo_env" by (simp add: user_safe_def demo_env_def)
  then show "source_inv demo_registered"
    unfolding demo_registered_def by (rule OnRpcRequest_inv [OF demo_source_inv demo_source_init(1)])
  show "serves_heartbeat demo_registered"
    unfolding demo_registered_def by (rule OnRpcRequest_heartbeat(2) [OF demo_serves demo_hb_request_simps(1)])
  show "src_receiver_list demo_registered = [demo_client\<lparr>hb_last_active_time := 1000\<rparr>]"
    unfolding demo_registered_def OnRpcRequest_heartbeat(1) [OF demo_serves demo_hb_request_simps(1)]
    by (simp add: demo_hb_request_simps demo_source_clients reg_apply_def beat_list_def register_client_def
        STSW_MAX_CLIENT_NUM_def)
qed

text \<open>The lease. Once a client is registered with an active time of at least \<open>t\<close>, it stays
  registered through every sequence of requests and heartbeats of the source whose clock
  readings stay within \<open>t\<close> and \<open>t\<close> plus the lease of 15 seconds.\<close>

theorem client_lease_kept:
  assumes "source_inv s" "serves_heartbeat s" "list_all is_hb_event evs"
    and "registry_map (src_receiver_list s) k = Some c" "hb_last_active_time c \<ge> t"
    and "list_all (event_ok k t) (concat (map registry_event_of evs))"
  shows "\<exists>d. registry_map (src_receiver_list (client_event_run evs s)) k = Some d \<and> hb_last_active_time d \<ge> t"
  unfolding client_event_run_refines [OF assms(2,3)]
  by (rule reg.run_keeps_lease [OF _ assms(4-6)]) (use assms(1) in \<open>simp add: source_inv_defs\<close>)

theorem client_lease_kept_witness:
  "\<exists>d. registry_map (src_receiver_list
      (client_event_run [Hb_Tick (demo_env\<lparr>se_time := 1014\<rparr>) 20000] demo_registered)) (client_key demo_client) = Some d
    \<and> hb_last_active_time d \<ge> 1000"
  by (rule client_lease_kept [OF demo_registered_step(1,2), where c = "demo_client\<lparr>hb_last_active_time := 1000\<rparr>"])
    (simp_all add: is_hb_event_def demo_registered_step(3) registry_map_def client_key_def event_ok_def
      STSW_CLIENT_LEASE_def)

text \<open>Paging. Asking a source for consecutive pages of \<open>n\<close> clients returns the client list
  itself, cut into pages; the total number of every page is the size of the list.\<close>

theorem client_pages_cover:
  assumes "m * n < 2 ^ 32"
  shows "concat (map (\<lambda>j. lr_client_list (client_list_rep
      \<lparr>lq_start_index = of_nat (j * n), lq_client_num = of_nat n\<rparr> cs)) [0..<m]) = take (m * n) cs"
  using assms
proof (induction m)
  case 0
  then show ?case by simp
next
  case (Suc m)
  then have lt: "m * n < 2 ^ 32" "n < 2 ^ 32" by (auto intro: le_less_trans [rotated])
  have "unat (of_nat (m * n) :: u32) = m * n" "unat (of_nat n :: u32) = n"
    using lt by (simp_all add: unat_of_nat del: of_nat_mult)
  then have "client_page (of_nat (m * n)) (of_nat n) cs = take n (drop (m * n) cs)"
    by (simp only: client_page_take)
  moreover have "take (Suc m * n) cs = take (m * n) cs @ take n (drop (m * n) cs)"
    by (simp add: take_add add.commute [of n])
  ultimately show ?case
    using Suc.IH lt by (simp add: client_list_rep_def del: of_nat_mult)
qed

theorem client_pages_cover_witness:
  "concat (map (\<lambda>j. lr_client_list (client_list_rep
      \<lparr>lq_start_index = of_nat (j * 2), lq_client_num = of_nat 2\<rparr> [demo_client, demo_client, demo_client])) [0..<2])
    = [demo_client, demo_client, demo_client]"
  using client_pages_cover [of 2 2 "[demo_client, demo_client, demo_client]"] by simp

text \<open>A page request with a client number of 0 returns no client, whatever the list holds;
  the protocol definition says that 0 asks for all clients.\<close>

theorem client_page_zero:
  "lr_client_list (client_list_rep \<lparr>lq_start_index = start, lq_client_num = 0\<rparr> cs) = []"
  by (simp add: client_list_rep_def client_page_take)

section \<open>Bit rate\<close>

lemma Heartbeat_bps:
  assumes "src_last_heartbeat_time s \<noteq> 0" "now \<noteq> 0" "now \<noteq> src_last_heartbeat_time s"
  shows "src_cur_bps (Heartbeat E now s) =
    of_int (uint (src_cur_bytes s * 8 * 1000) sdiv (now - src_last_heartbeat_time s))"
    and "src_cur_bytes (Heartbeat E now s) = 0"
proof -
  have *: "src_cur_bps (SendStreamInfo E t) = src_cur_bps t"
    "src_cur_bytes (SendStreamInfo E t) = src_cur_bytes t" for t
    by (rule SendStreamInfo_frame [of E t], simp)+
  show "src_cur_bps (Heartbeat E now s) =
    of_int (uint (src_cur_bytes s * 8 * 1000) sdiv (now - src_last_heartbeat_time s))"
    and "src_cur_bytes (Heartbeat E now s) = 0"
    using assms by (simp_all add: Heartbeat_def Let_def *)
qed

lemma sdiv_nonneg: "0 \<le> a \<Longrightarrow> 0 < b \<Longrightarrow> a sdiv b = a div b" for a b :: int
  by (cases "a = 0") (simp_all add: signed_divide_int_def)

text \<open>The published bit rate is the number of bits since the last heartbeat per second,
  rounded down, as long as the bits times 1000 fit into 32 bits.\<close>

theorem heartbeat_bps_exact:
  assumes "src_last_heartbeat_time s \<noteq> 0" "now \<noteq> 0" "src_last_heartbeat_time s < now"
    and "uint (src_cur_bytes s) * 8000 < 2 ^ 32"
  shows "uint (src_cur_bps (Heartbeat E now s)) =
    uint (src_cur_bytes s) * 8 * 1000 div (now - src_last_heartbeat_time s)"
proof -
  let ?e = "now - src_last_heartbeat_time s"
  have b: "uint (8000 * src_cur_bytes s) = 8000 * uint (src_cur_bytes s)"
    using assms(4) by (simp add: uint_word_ariths uint_word_of_int)
  have "0 \<le> uint (src_cur_bytes s) * 8 * 1000 div ?e"
    using assms(3) by (simp add: pos_imp_zdiv_nonneg_iff)
  moreover have "uint (src_cur_bytes s) * 8 * 1000 div ?e \<le> uint (src_cur_bytes s) * 8 * 1000"
    using assms(3) zdiv_mono2 [of "uint (src_cur_bytes s) * 8 * 1000" 1 ?e] by simp
  ultimately show ?thesis
    using assms by (simp add: Heartbeat_bps(1) b sdiv_nonneg uint_word_of_int)
qed

text \<open>Above that limit the rate is wrong: 600000 bytes in one second are 4.8 Mbit/s, and the
  source publishes 505032 bit/s, because the product is computed in 32 bits.\<close>

theorem heartbeat_bps_wraps:
  assumes "src_last_heartbeat_time s = 1000" "src_cur_bytes s = 600000"
  shows "src_cur_bps (Heartbeat E 2000 s) = 505032"
  using Heartbeat_bps(1) [of s 2000 E] assms by (simp add: signed_divide_int_def)


definition demo_busy :: "wire StreamSource" where
  "demo_busy = demo_source\<lparr>src_last_heartbeat_time := 1000, src_cur_bytes := 125000\<rparr>"

theorem heartbeat_bps_exact_witness:
  "uint (src_cur_bps (Heartbeat demo_env 2000 demo_busy)) = 1000000"
  using heartbeat_bps_exact [of demo_busy 2000 demo_env] by (simp add: demo_busy_def)

theorem heartbeat_bps_wraps_witness:
  "src_cur_bps (Heartbeat demo_env 2000 (demo_busy\<lparr>src_cur_bytes := 600000\<rparr>)) = 505032"
  using heartbeat_bps_wraps [of "demo_busy\<lparr>src_cur_bytes := 600000\<rparr>" demo_env] by (simp add: demo_busy_def)


section \<open>Initialisation\<close>

lemma source_addr_length:
  assumes "length name < 64" "length sock \<le> 9" "- (2 ^ 31) \<le> p" "p \<le> 2 ^ 31"
  shows "length (source_addr name sock port p) < 254"
  using assms length_c_str [of name] length_dec_int [of p]
  by (auto simp: source_addr_def STSW_SOCKET_NAME_STREAM_PREFIX_def)

lemma source_sockets:
  assumes "length name < 64" "- (2 ^ 31) \<le> port" "port < 2 ^ 31" "init_sockets ie name port q s = Ret (r, ok, t)"
  shows "if ok then r = 0 \<and> (\<exists>n. t = s\<lparr>
      src_api_socket := Some ((new_zsock ZMQ_REP (source_addr name STSW_SOCKET_NAME_STREAM_API port port) 0)\<lparr>sk_keepalive := True\<rparr>),
      src_publish_socket := Some ((new_zsock ZMQ_PUB (source_addr name STSW_SOCKET_NAME_STREAM_PUBLISH port (port + 1))
         STSW_PUBLISH_SOCKET_LINGER)\<lparr>sk_keepalive := True, sk_hwm := Some q\<rparr>),
      src_notify_socket := Some n\<rparr>)
    else r = ERROR_CODE_SYSTEM \<and> t = init_error_2 s"
proof -
  let ?a = "source_addr name STSW_SOCKET_NAME_STREAM_API port port"
  let ?b = "source_addr name STSW_SOCKET_NAME_STREAM_PUBLISH port (port + 1)"
  have len: "length ?a < 254" "length ?b < 254"
    using assms(1-3) by (auto intro!: source_addr_length simp: socket_name_defs)
  then have "take 254 ?a = ?a" "take 254 ?b = ?b" "length ?a \<noteq> 255" "length ?b \<noteq> 255" by auto
  then show ?thesis
    using assms(4) by (auto simp: init_sockets_def snprintf_def Let_def init_error_2_def split: if_splits)
qed

text \<open>\<open>Init\<close> is all or nothing, for every stream name it accepts: on success the two sockets have their
  complete addresses (no truncation) and the five built-in handlers are registered; on failure
  the source is not initialised and keeps no socket and no lock.\<close>

theorem source_init_all_or_nothing:
  assumes "source_inv s" "\<not> IsInit s" "0 < length name" "length name < 64" "- (2 ^ 31) \<le> port" "port < 2 ^ 31"
    and "Init ie name port q l dbg s = Ret (r, t)"
  shows "if r = 0 then IsInit t \<and> src_stream_name t = name \<and>
      map_option sk_endpoint (src_api_socket t) = Some (source_addr name STSW_SOCKET_NAME_STREAM_API port port) \<and>
      map_option sk_endpoint (src_publish_socket t) = Some (source_addr name STSW_SOCKET_NAME_STREAM_PUBLISH port (port + 1)) \<and>
      (\<forall>(code, e) \<in> set builtin_handlers. omap_find (src_api_handler_map t) code = Some e)
    else \<not> IsInit t \<and> \<not> src_lock t \<and> src_api_socket t = None \<and> src_publish_socket t = None \<and> src_notify_socket t = None"
  using assms(7)
proof (cases rule: Init_cases)
  case same
  with assms(1,2) show ?thesis by (auto simp: source_inv_defs life_inv_def src_flag_defs)
next
  case fail
  from source_sockets [OF assms(4-6) fail(2)] fail(1) show ?thesis
    by (simp add: init_error_2_def src_flag_defs error_code_defs)
next
  case (ok r' s')
  have "map_of (rev builtin_handlers) code = Some e" if "(code, e) \<in> set builtin_handlers" for code e
    using that by (auto simp: builtin_handlers_def packet_code_defs)
  then have "omap_find (fold (\<lambda>(k, v). omap_put k v) builtin_handlers (src_api_handler_map s)) code = Some e"
    if "(code, e) \<in> set builtin_handlers" for code e
    using that omap.find_put_all [of "src_api_handler_map s" builtin_handlers code] assms(1)
    by (simp add: source_inv_defs)
  with source_sockets [OF assms(4-6) ok(3)] ok show ?thesis
    by (auto simp: init_fields_simps src_flag_defs new_zsock_def)
qed

theorem source_init_all_or_nothing_witness:
  "\<exists>t :: wire StreamSource. Init demo_init_env ''cam'' 0 100 None 0 new_StreamSource = Ret (0, t) \<and>
     map_option sk_endpoint (src_api_socket t) = Some ''@ipc://@stsw_stream/cam/api''"
proof -
  obtain t :: "wire StreamSource" where t: "Init demo_init_env ''cam'' 0 100 None 0 new_StreamSource = Ret (0, t)"
    using demo_init_ret by blast
  have "\<not> IsInit (new_StreamSource :: wire StreamSource)" by (simp add: src_flag_defs new_StreamSource_def)
  from source_init_all_or_nothing [OF source_inv_new this _ _ _ _ t]
  have "map_option sk_endpoint (src_api_socket t) = Some (source_addr ''cam'' STSW_SOCKET_NAME_STREAM_API 0 0)"
    by simp
  with t show ?thesis by (auto simp: source_addr_def socket_name_defs c_str_def)
qed

section \<open>State changes and timers\<close>

text \<open>A change of the stream state is announced at once, by exactly one message on the info channel that
  carries the new state; setting the state it already has publishes nothing.\<close>

theorem stream_state_announced:
  assumes "IsInit s"
  shows "src_stream_state (set_stream_state E st s) = st \<and>
    src_pub_sent (set_stream_state E st s) = src_pub_sent s @
      (if src_stream_state s = st then []
       else [\<lparr>pb_channel = STSW_PUBLISH_INFO_CHANNEL,
              pb_packet = ser_packet (se_codec E) (message_packet (se_codec E) PROTO_PACKET_CODE_STREAM_INFO
                (ser_stream_info (se_codec E) ((stream_info_msg E s)\<lparr>si_state := st\<rparr>))),
              pb_blob = None\<rparr>])"
proof -
  have i: "IsInit (s\<lparr>src_stream_state := st\<rparr>)" using assms by (simp add: src_flag_defs)
  have m: "stream_info_msg E (s\<lparr>src_stream_state := st\<rparr>) = (stream_info_msg E s)\<lparr>si_state := st\<rparr>"
    by (simp add: stream_info_msg_def)
  show ?thesis
    using assms i
    by (auto simp: set_stream_state_def SendStreamInfo_def SendPublishMsg_def m Let_def blob_part_def
        STSW_PUBLISH_INFO_CHANNEL_def)
qed

theorem stream_state_announced_witness:
  "length (src_pub_sent (set_stream_state demo_env SOURCE_STREAM_STATE_OK demo_source)) = length (src_pub_sent demo_source) + 1"
proof -
  have "src_stream_state demo_source = 0" by (simp add: demo_defs SOURCE_STREAM_STATE_CONNECTING_def)
  then show ?thesis
    using stream_state_announced [OF demo_source_init(1), of demo_env SOURCE_STREAM_STATE_OK]
    by (simp add: SOURCE_STREAM_STATE_OK_def)
qed

interpretation src_timer: periodic_timer 1000 next_source_heartbeat
  by unfold_locales (simp_all add: next_source_heartbeat.simps Let_def)


text \<open>One turn of the worker loop moves the heartbeat time only when it is due, and then by a whole number
  of seconds to the first such time after the clock, so no heartbeat is scheduled in the past and
  the schedule does not drift.\<close>

theorem source_heartbeat_schedule:
  "let n' = fst (source_turn E poller before now (n, s))
   in if n \<le> now then now < n' \<and> n' \<le> now + STSW_STREAM_SOURCE_HEARTBEAT_INT \<and> 1000 dvd (n' - n) else n' = n"
  using src_timer.advance_spec [of now n] by (auto simp: source_turn_def Let_def)

end
