(* ===== verification/Stream_Sink.thy ===== *)
theory Stream_Sink
  imports Frame_Statistic "HOL-Library.List_Lexorder" "HOL-Library.Char_ord"
begin

text \<open>
  The class \<open>StreamSink\<close> (\<open>libstreamswitch/src/stsw_stream_sink.cc\<close>): its fields as a record,
  and one definition per method. Names that the class shares with \<open>StreamSource\<close> carry the
  suffix \<open>_sink\<close>.

  \<^item> The calls of \<open>SinkListener\<close> are appended to \<open>snk_calls\<close>, the frames sent on the heartbeat
    socket to \<open>snk_hb_sent\<close>. Dumps to \<open>stderr\<close> and the \<open>err_info\<close> texts are left out.
  \<^item> What the network answers is a parameter: \<open>rpc_env\<close> for a request, \<open>sink_env\<close> for the
    worker thread, \<open>sink_init_env\<close> for the life cycle.
  \<^item> \<open>SendRpcRequest\<close> runs without the lock while it waits; what other threads do to the sink in
    the meantime is the parameter \<open>re_meanwhile\<close>.
\<close>

unbundle bit_operations_syntax

section \<open>State\<close>

abbreviation STREAM_RECEIVER_FLAG_INIT :: u32 where "STREAM_RECEIVER_FLAG_INIT \<equiv> 1"
abbreviation STREAM_RECEIVER_FLAG_STARTED :: u32 where "STREAM_RECEIVER_FLAG_STARTED \<equiv> 4"

datatype SinkSubHandler = StaticMediaFrameHandler | UserSubHandler nat

record SinkSubHandlerEntry =
  sh_handler :: SinkSubHandler
  sh_channel_name :: string
  sh_user_data :: user_data

datatype sink_call = OnLiveMediaFrame MediaFrameInfo blob | OnMetadataMismatch u32

record 'b StreamSink =
  snk_api_addr :: string
  snk_subscriber_addr :: string
  snk_last_api_socket :: "zsock option"
  snk_client_hearbeat_socket :: "zsock option"
  snk_subscriber_socket :: "zsock option"
  snk_notify_socket :: "zsock option"
  snk_lock :: bool
  snk_worker_thread_id :: nat
  snk_next_seq :: u32
  snk_debug_flags :: u32
  snk_subsriber_handler_map :: "(int, SinkSubHandlerEntry) omap"
  snk_statistic :: "SubStreamMediaStatistic list"
  snk_flags :: u32
  snk_stream_meta :: StreamMetadata
  snk_last_heartbeat_time :: int
  snk_last_send_client_heartbeat_msec :: int
  snk_next_send_client_heartbeat_msec :: int
  snk_client_info :: StreamClientInfo
  snk_listener :: bool
  snk_sub_queue_size :: u32
  snk_last_frame_ssrc :: u32
  snk_calls :: "sink_call list"
  snk_hb_sent :: "'b list"

text \<open>The constructor leaves \<open>notify_socket_\<close> unset; \<open>InitBase\<close> sets it before it is read.\<close>

definition new_StreamSink :: "'b StreamSink" where
  "new_StreamSink =
     \<lparr>snk_api_addr = '''', snk_subscriber_addr = '''', snk_last_api_socket = None,
      snk_client_hearbeat_socket = None, snk_subscriber_socket = None, snk_notify_socket = None,
      snk_lock = False, snk_worker_thread_id = 0, snk_next_seq = 1, snk_debug_flags = 0,
      snk_subsriber_handler_map = [], snk_statistic = [], snk_flags = 0,
      snk_stream_meta = new_StreamMetadata, snk_last_heartbeat_time = 0,
      snk_last_send_client_heartbeat_msec = 0, snk_next_send_client_heartbeat_msec = 0,
      snk_client_info = new_StreamClientInfo, snk_listener = False,
      snk_sub_queue_size = STSW_SUBSCRIBE_SOCKET_HWM, snk_last_frame_ssrc = 0,
      snk_calls = [], snk_hb_sent = []\<rparr>"

definition IsInit_sink :: "'b StreamSink \<Rightarrow> bool" where
  "IsInit_sink s \<longleftrightarrow> flag_on (snk_flags s) STREAM_RECEIVER_FLAG_INIT"

definition IsStarted_sink :: "'b StreamSink \<Rightarrow> bool" where
  "IsStarted_sink s \<longleftrightarrow> flag_on (snk_flags s) STREAM_RECEIVER_FLAG_STARTED"

definition set_client_info :: "StreamClientInfo \<Rightarrow> 'b StreamSink \<Rightarrow> 'b StreamSink" where
  "set_client_info c s = s\<lparr>snk_client_info := c\<rparr>"

definition GetNextSeq :: "'b StreamSink \<Rightarrow> u32 \<times> 'b StreamSink" where
  "GetNextSeq s = (snk_next_seq s, s\<lparr>snk_next_seq := snk_next_seq s + 1\<rparr>)"

section \<open>Handlers\<close>

definition RegisterSubHandler ::
  "int \<Rightarrow> string \<Rightarrow> SinkSubHandler \<Rightarrow> user_data \<Rightarrow> 'b StreamSink \<Rightarrow> 'b StreamSink" where
  "RegisterSubHandler op_code channel_name handler ud s =
     (if IsStarted_sink s then s
      else s\<lparr>snk_subsriber_handler_map :=
        omap_put op_code \<lparr>sh_handler = handler, sh_channel_name = channel_name, sh_user_data = ud\<rparr>
          (snk_subsriber_handler_map s)\<rparr>)"

definition UnregisterSubHandler :: "int \<Rightarrow> 'b StreamSink \<Rightarrow> 'b StreamSink" where
  "UnregisterSubHandler op_code s =
     (if IsStarted_sink s then s
      else s\<lparr>snk_subsriber_handler_map := omap_erase op_code (snk_subsriber_handler_map s)\<rparr>)"

definition UnregisterAllSubHandler :: "'b StreamSink \<Rightarrow> 'b StreamSink" where
  "UnregisterAllSubHandler s =
     (if IsStarted_sink s then s else s\<lparr>snk_subsriber_handler_map := []\<rparr>)"

definition DestroySubscriberSocket :: "'b StreamSink \<Rightarrow> 'b StreamSink" where
  "DestroySubscriberSocket s =
     (if \<not> IsInit_sink s then s
      else if IsStarted_sink s then s
      else s\<lparr>snk_subscriber_socket := None\<rparr>)"

section \<open>Media frames\<close>

definition frame_info_of :: "ProtoMediaFrameMsg \<Rightarrow> MediaFrameInfo" where
  "frame_info_of m =
     \<lparr>fi_sub_stream_index = mf_stream_index m, fi_frame_type = mf_frame_type m,
      fi_tv_sec = mf_sec m, fi_tv_usec = mf_usec m, fi_ssrc = mf_ssrc m\<rparr>"

definition listener_call :: "sink_call \<Rightarrow> 'b StreamSink \<Rightarrow> 'b StreamSink" where
  "listener_call c s = (if snk_listener s then s\<lparr>snk_calls := snk_calls s @ [c]\<rparr> else s)"

text \<open>The index is checked against the sub streams of the metadata, but the access is to
  \<open>statistic_\<close>, which may be shorter: undefined behaviour for a frame that is counted.\<close>

definition MediaFrameHandler ::
  "'b pb_codec \<Rightarrow> 'b ProtoCommonPacket \<Rightarrow> blob \<Rightarrow> 'b StreamSink \<Rightarrow> (int \<times> 'b StreamSink) cpp" where
  "MediaFrameHandler C msg extra_blob s =
     (case par_media_frame C (pk_body msg) of
        None \<Rightarrow> Ret (ERROR_CODE_PARSE, s)
      | Some frame_msg \<Rightarrow>
          let frame_info = frame_info_of frame_msg;
              seq = mf_seq frame_msg
          in if sm_ssrc (snk_stream_meta s) \<noteq> fi_ssrc frame_info then
               (if fi_ssrc frame_info \<noteq> snk_last_frame_ssrc s
                then Ret (0, listener_call (OnMetadataMismatch (fi_ssrc frame_info))
                               (s\<lparr>snk_last_frame_ssrc := fi_ssrc frame_info\<rparr>))
                else Ret (0, s))
             else if fi_sub_stream_index frame_info < 0 \<or>
               fi_sub_stream_index frame_info \<ge> int (length (sm_sub_streams (snk_stream_meta s)))
               then Ret (0, s)
             else
               let i = nat (fi_sub_stream_index frame_info)
               in if is_media (fi_frame_type frame_info) \<and> i \<ge> length (snk_statistic s) then Undef
                  else
                    let s1 = (if is_media (fi_frame_type frame_info)
                              then s\<lparr>snk_statistic := (snk_statistic s)[i :=
                                     stat_recv (fi_frame_type frame_info) (blob_size extra_blob) seq
                                       (snk_statistic s ! i)]\<rparr>
                              else s)
                    in Ret (0, listener_call (OnLiveMediaFrame frame_info extra_blob) s1))"

text \<open>The parameters of one turn of the worker thread. \<open>hb_poll\<close> is what polling the heartbeat
  socket and receiving from it gives.\<close>

datatype 'b hb_poll = Hb_Nothing | Hb_NoFrame | Hb_Frame 'b

record 'b sink_env =
  ke_codec :: "'b pb_codec"
  ke_user :: "nat \<Rightarrow> user_data \<Rightarrow> 'b ProtoCommonPacket \<Rightarrow> blob \<Rightarrow> 'b StreamSink \<Rightarrow> 'b StreamSink"
  ke_zclock_mono :: int
  ke_hb_poll :: "'b hb_poll"
  ke_req_new :: bool

definition OnSubMsg ::
  "'b sink_env \<Rightarrow> string \<Rightarrow> 'b ProtoCommonPacket \<Rightarrow> blob \<Rightarrow> 'b StreamSink \<Rightarrow> 'b StreamSink cpp" where
  "OnSubMsg E channel_name msg extra_blob s =
     (case omap_find (snk_subsriber_handler_map s) (h_code (pk_header msg)) of
        None \<Rightarrow> Ret s
      | Some entry \<Rightarrow>
          if sh_channel_name entry = channel_name then
            (case sh_handler entry of
               StaticMediaFrameHandler \<Rightarrow>
                 bind_cpp (MediaFrameHandler (ke_codec E) msg extra_blob s) (\<lambda>(r, t). Ret t)
             | UserSubHandler n \<Rightarrow> Ret (ke_user E n (sh_user_data entry) msg extra_blob s))
          else Ret s)"

text \<open>What \<open>zmsg_recv\<close> gives: nothing, a message without parts, one with only a channel name,
  or a channel name, a packet and possibly a blob.\<close>

datatype 'b sub_zmsg = Sub_Interrupted | Sub_NoChannel | Sub_NoPacket string | Sub_Full "'b pub_msg"

definition OnSubRead :: "'b sink_env \<Rightarrow> 'b sub_zmsg \<Rightarrow> 'b StreamSink \<Rightarrow> 'b StreamSink cpp" where
  "OnSubRead E zmsg s =
     (case zmsg of
        Sub_Interrupted \<Rightarrow> Ret s
      | Sub_NoChannel \<Rightarrow> Ret s
      | Sub_NoPacket _ \<Rightarrow> Ret s
      | Sub_Full m \<Rightarrow>
          (case par_packet (ke_codec E) (pb_packet m) of
             None \<Rightarrow> Ret s
           | Some msg \<Rightarrow> OnSubMsg E (c_str (pb_channel m)) msg (blob_part (pb_blob m)) s))"


section \<open>The client heartbeat\<close>

abbreviation STSW_RECEIVER_CLIENT_HEARTBEAT_TIMEOUT :: int where
  "STSW_RECEIVER_CLIENT_HEARTBEAT_TIMEOUT \<equiv> 3000"

definition new_req :: "string \<Rightarrow> zsock" where
  "new_req addr = new_zsock ZMQ_REQ (c_str addr) 0"

text \<open>When to send again after a reply. \<open>lease * 1000\<close> is an \<open>int\<close> product: undefined behaviour
  if it does not fit.\<close>

definition heartbeat_reply_time :: "'b pb_codec \<Rightarrow> 'b \<Rightarrow> int \<Rightarrow> int \<Rightarrow> int cpp" where
  "heartbeat_reply_time C frame last_send now =
     (case par_packet C frame of
        None \<Rightarrow> Ret (now + 5000)
      | Some reply \<Rightarrow>
          if h_code (pk_header reply) = PROTO_PACKET_CODE_CLIENT_HEARTBEAT \<and>
             h_status (pk_header reply) = PROTO_PACKET_STATUS_OK \<and>
             h_type (pk_header reply) = PROTO_PACKET_TYPE_REPLY
          then (case par_heartbeat_rep C (pk_body reply) of
                  None \<Rightarrow> Ret (now + 5000)
                | Some rep \<Rightarrow>
                    if - (2 ^ 31) \<le> hr_lease rep * 1000 \<and> hr_lease rep * 1000 < 2 ^ 31
                    then Ret (last_send + hr_lease rep * 1000 sdiv 3)
                    else Undef)
          else Ret (now + 5000))"

definition client_heartbeat_req :: "StreamClientInfo \<Rightarrow> ProtoClientHeartbeatReq" where
  "client_heartbeat_req c =
     \<lparr>hb_client_ip_version = ci_client_ip_version c, hb_client_ip = ci_client_ip c,
      hb_client_port = ci_client_port c, hb_client_token = ci_client_token c,
      hb_client_protocol = ci_client_protocol c, hb_client_text = ci_client_text c,
      hb_last_active_time = 0\<rparr>"

text \<open>The first half of the handler: look for the reply to an outstanding request. The boolean
  tells whether the handler goes on to the second half.\<close>

definition check_heartbeat_reply ::
  "'b sink_env \<Rightarrow> int \<Rightarrow> 'b StreamSink \<Rightarrow> (bool \<times> 'b StreamSink) cpp" where
  "check_heartbeat_reply E now s =
     (if snk_last_send_client_heartbeat_msec s \<noteq> 0 then
        (case ke_hb_poll E of
           Hb_NoFrame \<Rightarrow> Ret (False, s)
         | Hb_Frame frame \<Rightarrow>
             bind_cpp (heartbeat_reply_time (ke_codec E) frame (snk_last_send_client_heartbeat_msec s) now)
               (\<lambda>t. Ret (True, s\<lparr>snk_next_send_client_heartbeat_msec := t,
                              snk_last_send_client_heartbeat_msec := 0\<rparr>))
         | Hb_Nothing \<Rightarrow>
             if now - snk_last_send_client_heartbeat_msec s \<ge> STSW_RECEIVER_CLIENT_HEARTBEAT_TIMEOUT
             then Ret (True, s\<lparr>snk_client_hearbeat_socket := None,
                            snk_last_send_client_heartbeat_msec := 0,
                            snk_next_send_client_heartbeat_msec := 0\<rparr>)
             else Ret (True, s))
      else Ret (True, s))"

text \<open>The second half: send the request when it is due.\<close>

definition send_heartbeat_req :: "'b sink_env \<Rightarrow> int \<Rightarrow> 'b StreamSink \<Rightarrow> 'b StreamSink" where
  "send_heartbeat_req E now s =
     (if snk_last_send_client_heartbeat_msec s = 0 \<and> now \<ge> snk_next_send_client_heartbeat_msec s then
        let s1 = (case snk_client_hearbeat_socket s of
                    Some _ \<Rightarrow> s
                  | None \<Rightarrow> if ke_req_new E
                            then s\<lparr>snk_client_hearbeat_socket := Some (new_req (snk_api_addr s))\<rparr>
                            else s)
        in if snk_client_hearbeat_socket s1 = None then s1
           else
             let request = (request_packet (ke_codec E) (snk_next_seq s1) PROTO_PACKET_CODE_CLIENT_HEARTBEAT)
                   \<lparr>pk_body := ser_heartbeat_req (ke_codec E) (client_heartbeat_req (snk_client_info s1))\<rparr>
             in s1\<lparr>snk_next_seq := snk_next_seq s1 + 1,
                   snk_hb_sent := snk_hb_sent s1 @ [ser_packet (ke_codec E) request],
                   snk_last_send_client_heartbeat_msec := now,
                   snk_next_send_client_heartbeat_msec := 0\<rparr>
      else s)"

definition ClientHeartbeatHandler_sink :: "'b sink_env \<Rightarrow> int \<Rightarrow> 'b StreamSink \<Rightarrow> 'b StreamSink cpp" where
  "ClientHeartbeatHandler_sink E now s =
     bind_cpp (check_heartbeat_reply E now s)
       (\<lambda>(go, t). Ret (if go then send_heartbeat_req E now t else t))"

definition Heartbeat_sink :: "'b sink_env \<Rightarrow> int \<Rightarrow> 'b StreamSink \<Rightarrow> 'b StreamSink cpp" where
  "Heartbeat_sink E now0 s =
     (let now = (if now0 = 0 then ke_zclock_mono E else now0)
      in ClientHeartbeatHandler_sink E now (s\<lparr>snk_last_heartbeat_time := now\<rparr>))"

section \<open>The worker thread\<close>

abbreviation STSW_STREAM_RECEIVER_HEARTBEAT_INT :: int where
  "STSW_STREAM_RECEIVER_HEARTBEAT_INT \<equiv> 500"

function next_sink_heartbeat :: "int \<Rightarrow> int \<Rightarrow> int" where
  "next_sink_heartbeat next_heartbeat_time now =
     (let t = next_heartbeat_time + STSW_STREAM_RECEIVER_HEARTBEAT_INT
      in if t \<le> now then next_sink_heartbeat t now else t)"
  by pat_completeness auto
termination
  by (relation "measure (\<lambda>(t, now). nat (now - t))") auto

declare next_sink_heartbeat.simps [simp del]

datatype 'b sink_poll = Snk_Timeout | Snk_Sub "'b sub_zmsg" | Snk_Notify

text \<open>One turn of the loop, as in the source; \<open>OnNotifySocketRead\<close> only frees what it reads.\<close>

definition sink_turn ::
  "'b sink_env \<Rightarrow> (int \<Rightarrow> 'b sink_poll) \<Rightarrow> int \<Rightarrow> int \<Rightarrow> int \<times> 'b StreamSink \<Rightarrow> (int \<times> 'b StreamSink) cpp" where
  "sink_turn E poller before now = (\<lambda>(next_heartbeat_time, s).
     bind_cpp (case poller (poll_timeout next_heartbeat_time before) of
                 Snk_Timeout \<Rightarrow> Ret s
               | Snk_Sub zmsg \<Rightarrow> OnSubRead E zmsg s
               | Snk_Notify \<Rightarrow> Ret s)
       (\<lambda>s1. if now \<ge> next_heartbeat_time
             then bind_cpp (Heartbeat_sink E now s1)
                    (\<lambda>s2. Ret (next_sink_heartbeat next_heartbeat_time now, s2))
             else Ret (next_heartbeat_time, s1)))"

fun sink_routine ::
  "('b sink_env \<times> (int \<Rightarrow> 'b sink_poll) \<times> int \<times> int) list \<Rightarrow> int \<times> 'b StreamSink \<Rightarrow> (int \<times> 'b StreamSink) cpp" where
  "sink_routine [] st = Ret st"
| "sink_routine ((E, poller, before, now) # turns) (next_heartbeat_time, s) =
     (if IsStarted_sink s
      then bind_cpp (sink_turn E poller before now (next_heartbeat_time, s)) (sink_routine turns)
      else Ret (next_heartbeat_time, s))"


section \<open>Requests\<close>

definition ReplyStatus2ErrorCode :: "'b ProtoCommonPacket \<Rightarrow> int" where
  "ReplyStatus2ErrorCode reply =
     (let status = h_status (pk_header reply)
      in if status = PROTO_PACKET_STATUS_OK then ERROR_CODE_OK
         else if status \<ge> 400 \<and> status \<le> 499 then ERROR_CODE_CLIENT
         else if status \<ge> 500 \<and> status \<le> 599 then ERROR_CODE_SERVER
         else ERROR_CODE_GENERAL)"

text \<open>What waiting for the reply and receiving it gives.\<close>

datatype 'b net_result = Net_Timeout | Net_Interrupted | Net_NoFrame | Net_Reply "'b api_msg"

record 'b rpc_env =
  re_codec :: "'b pb_codec"
  re_req_new :: bool
  re_serialize :: bool
  re_net :: "string \<Rightarrow> 'b api_msg \<Rightarrow> int \<Rightarrow> 'b net_result"
  re_meanwhile :: "'b StreamSink \<Rightarrow> 'b StreamSink"

record 'b RpcResult =
  rr_reply :: "'b ProtoCommonPacket"
  rr_blob :: blob

text \<open>The label \<open>error_2\<close>: keep the socket for the next request, unless another thread has
  stored its own.\<close>

definition cache_api_socket :: "zsock \<Rightarrow> 'b StreamSink \<Rightarrow> 'b StreamSink" where
  "cache_api_socket api_socket s =
     (if IsInit_sink s \<and> snk_last_api_socket s = None
      then s\<lparr>snk_last_api_socket := Some api_socket\<rparr> else s)"

text \<open>A receive that is interrupted jumps to \<open>error_1\<close> with \<open>ret\<close> still 0.\<close>

definition SendRpcRequest ::
  "'b rpc_env \<Rightarrow> 'b ProtoCommonPacket \<Rightarrow> blob \<Rightarrow> int \<Rightarrow> 'b StreamSink \<Rightarrow>
     int \<times> 'b RpcResult option \<times> 'b StreamSink" where
  "SendRpcRequest R request extra_blob timeout s =
     (if timeout < 0 then (ERROR_CODE_PARAM, None, s)
      else if h_type (pk_header request) \<noteq> PROTO_PACKET_TYPE_REQUEST then (ERROR_CODE_PARAM, None, s)
      else if \<not> IsInit_sink s then (ERROR_CODE_PARAM, None, s)
      else
        let api_addr = snk_api_addr s;
            api_socket = (case snk_last_api_socket s of
                            Some k \<Rightarrow> Some k
                          | None \<Rightarrow> if re_req_new R then Some (new_req api_addr) else None);
            s1 = s\<lparr>snk_last_api_socket := None\<rparr>
        in case api_socket of
             None \<Rightarrow> (ERROR_CODE_SYSTEM, None, s1)
           | Some sock \<Rightarrow>
               if \<not> re_serialize R then (ERROR_CODE_SYSTEM, None, s1)
               else
                 let s2 = re_meanwhile R s1
                 in case re_net R (sk_endpoint sock)
                        \<lparr>am_packet = ser_packet (re_codec R) request, am_blob = blob_part extra_blob\<rparr> timeout of
                      Net_Timeout \<Rightarrow> (ERROR_CODE_TIMEOUT, None, s2)
                    | Net_Interrupted \<Rightarrow> (0, None, s2)
                    | Net_NoFrame \<Rightarrow> (0, None, s2)
                    | Net_Reply m \<Rightarrow>
                        (case par_packet (re_codec R) (am_packet m) of
                           None \<Rightarrow> (ERROR_CODE_GENERAL, None, s2)
                         | Some reply \<Rightarrow>
                             if h_type (pk_header reply) \<noteq> PROTO_PACKET_TYPE_REPLY \<or>
                                h_seq (pk_header request) \<noteq> h_seq (pk_header reply) \<or>
                                h_code (pk_header request) \<noteq> h_code (pk_header reply)
                             then (ERROR_CODE_GENERAL, None, cache_api_socket sock s2)
                             else (0, Some \<lparr>rr_reply = reply, rr_blob = am_blob m\<rparr>,
                                   cache_api_socket sock s2)))"

text \<open>The part that the four callers share: send, dereference the result (a null pointer after
  an interrupted receive: undefined behaviour) and check the status of the reply.\<close>

definition rpc_call ::
  "'b rpc_env \<Rightarrow> 'b ProtoCommonPacket \<Rightarrow> int \<Rightarrow> 'b StreamSink \<Rightarrow>
     (int \<times> 'b option \<times> 'b StreamSink) cpp" where
  "rpc_call R request timeout s =
     (let (ret, result, t) = SendRpcRequest R request None timeout s
      in if ret \<noteq> 0 then Ret (ret, None, t)
         else case result of
                None \<Rightarrow> Undef
              | Some r \<Rightarrow>
                  let ret = ReplyStatus2ErrorCode (rr_reply r)
                  in if ret \<noteq> 0 then Ret (ret, None, t)
                     else Ret (0, Some (pk_body (rr_reply r)), t))"

subsection \<open>Metadata\<close>

definition sub_stream_of_proto :: "ProtoSubStreamInfo \<Rightarrow> SubStreamMetadata" where
  "sub_stream_of_proto p =
     (let m = new_SubStreamMetadata\<lparr>ss_sub_stream_index := pi_index p, ss_media_type := pi_media_type p,
                ss_codec_name := pi_codec_name p, ss_direction := pi_direction p,
                ss_extra_data := pi_extra_data p\<rparr>
      in case pi_media_type p of
           SUB_STREAM_MEIDA_TYPE_VIDEO \<Rightarrow>
             m\<lparr>ss_video := \<lparr>vp_height = pi_height p, vp_width = pi_width p, vp_fps = pi_fps p,
                           vp_gov = pi_gov p\<rparr>\<rparr>
         | SUB_STREAM_MEIDA_TYPE_AUDIO \<Rightarrow>
             m\<lparr>ss_audio := \<lparr>ap_samples_per_second = pi_samples_per_second p,
                           ap_channels = pi_channels p, ap_bits_per_sample = pi_bits_per_sample p,
                           ap_sampele_per_frame = pi_sampele_per_frame p\<rparr>\<rparr>
         | SUB_STREAM_MEIDA_TYPE_TEXT \<Rightarrow>
             m\<lparr>ss_text := \<lparr>tp_x = pi_x p, tp_y = pi_y p, tp_fone_size = pi_fone_size p,
                          tp_font_type = pi_font_type p\<rparr>\<rparr>
         | SUB_STREAM_MEIDA_TYPE_PRIVATE \<Rightarrow> m)"

text \<open>The sub streams of the reply are appended to those the sink has; the counters are
  renewed for as many sub streams as the reply has.\<close>

definition apply_meta_rep :: "ProtoMetaRep \<Rightarrow> 'b StreamSink \<Rightarrow> 'b StreamSink" where
  "apply_meta_rep r s =
     (let sub_stream_num = length (pm_sub_streams r);
          m = (snk_stream_meta s)\<lparr>sm_play_type := pm_play_type r, sm_source_proto := pm_source_proto r,
                sm_ssrc := pm_ssrc r, sm_bps := pm_bps r, sm_stream_len := pm_stream_len r,
                sm_sub_streams := sm_sub_streams (snk_stream_meta s) @
                  map sub_stream_of_proto (pm_sub_streams r)\<rparr>
      in s\<lparr>snk_stream_meta := m,
           snk_statistic :=
             map (\<lambda>i. new_SubStreamMediaStatistic\<lparr>st_sub_stream_index := int i,
                        st_media_type := ss_media_type (sm_sub_streams m ! i)\<rparr>)
               [0..<sub_stream_num]\<rparr>)"

text \<open>The output parameter \<open>metadata\<close> gets a copy of the sink's metadata.\<close>

definition UpdateStreamMetaData :: "'b rpc_env \<Rightarrow> int \<Rightarrow> 'b StreamSink \<Rightarrow> (int \<times> 'b StreamSink) cpp" where
  "UpdateStreamMetaData R timeout s =
     (if IsStarted_sink s then Ret (ERROR_CODE_GENERAL, s)
      else
        let (seq, s1) = GetNextSeq s
        in bind_cpp (rpc_call R (request_packet (re_codec R) seq PROTO_PACKET_CODE_METADATA) timeout s1)
             (\<lambda>(ret, body, t).
                case body of
                  None \<Rightarrow> Ret (ret, t)
                | Some b \<Rightarrow>
                    (case par_meta (re_codec R) b of
                       None \<Rightarrow> Ret (ERROR_CODE_PARSE, t)
                     | Some r \<Rightarrow> Ret (0, apply_meta_rep r t))))"


subsection \<open>Statistic, key frame, client list\<close>

definition statistic_of_proto :: "ProtoSubStreamMediaStatistic \<Rightarrow> SubStreamMediaStatistic" where
  "statistic_of_proto p =
     new_SubStreamMediaStatistic\<lparr>st_sub_stream_index := ps_sub_stream_index p,
       st_media_type := ps_media_type p, st_data_bytes := ps_data_bytes p,
       st_key_bytes := ps_key_bytes p, st_lost_frames := ps_lost_frames p,
       st_data_frames := ps_data_frames p, st_key_frames := ps_key_frames p,
       st_last_gov := ps_last_gov p\<rparr>"

text \<open>\<open>statistic\<close> is the structure the caller passes, \<open>None\<close> for a null pointer; the sub streams
  are appended to what it holds.\<close>

definition SourceStatistic ::
  "'b rpc_env \<Rightarrow> int \<Rightarrow> MediaStatisticInfo option \<Rightarrow> 'b StreamSink \<Rightarrow>
     (int \<times> MediaStatisticInfo option \<times> 'b StreamSink) cpp" where
  "SourceStatistic R timeout statistic s =
     (case statistic of
        None \<Rightarrow> Ret (ERROR_CODE_PARAM, None, s)
      | Some st \<Rightarrow>
          let (seq, s1) = GetNextSeq s
          in bind_cpp (rpc_call R (request_packet (re_codec R) seq PROTO_PACKET_CODE_MEDIA_STATISTIC) timeout s1)
               (\<lambda>(ret, body, t).
                  case body of
                    None \<Rightarrow> Ret (ret, Some st, t)
                  | Some b \<Rightarrow>
                      (case par_statistic (re_codec R) b of
                         None \<Rightarrow> Ret (ERROR_CODE_PARSE, Some st, t)
                       | Some r \<Rightarrow>
                           Ret (0, Some (st\<lparr>mi_ssrc := pr_ssrc r, mi_timestamp := pr_timestamp r,
                                 mi_sum_bytes := pr_sum_bytes r,
                                 mi_sub_streams := mi_sub_streams st @
                                   map statistic_of_proto (pr_sub_stream_stats r)\<rparr>), t))))"

definition KeyFrame :: "'b rpc_env \<Rightarrow> int \<Rightarrow> 'b StreamSink \<Rightarrow> (int \<times> 'b StreamSink) cpp" where
  "KeyFrame R timeout s =
     (let (seq, s1) = GetNextSeq s
      in bind_cpp (rpc_call R (request_packet (re_codec R) seq PROTO_PACKET_CODE_KEY_FRAME) timeout s1)
           (\<lambda>(ret, body, t). Ret (ret, t)))"

definition client_info_of_proto :: "ProtoClientHeartbeatReq \<Rightarrow> StreamClientInfo" where
  "client_info_of_proto h =
     \<lparr>ci_client_ip_version = hb_client_ip_version h, ci_client_ip = hb_client_ip h,
      ci_client_port = hb_client_port h, ci_client_token = hb_client_token h,
      ci_client_protocol = hb_client_protocol h, ci_client_text = hb_client_text h,
      ci_last_active_time = hb_last_active_time h\<rparr>"

text \<open>\<open>total_num\<close> and \<open>client_list\<close> are what the two pointers refer to.\<close>

definition ClientList ::
  "'b rpc_env \<Rightarrow> int \<Rightarrow> u32 \<Rightarrow> u32 \<Rightarrow> u32 option \<Rightarrow> StreamClientInfo list option \<Rightarrow> 'b StreamSink \<Rightarrow>
     (int \<times> u32 option \<times> StreamClientInfo list option \<times> 'b StreamSink) cpp" where
  "ClientList R timeout start_index request_num total_num clients s =
     (let (seq, s1) = GetNextSeq s;
          request = (request_packet (re_codec R) seq PROTO_PACKET_CODE_CLIENT_LIST)
            \<lparr>pk_body := ser_list_req (re_codec R) \<lparr>lq_start_index = start_index, lq_client_num = request_num\<rparr>\<rparr>
      in bind_cpp (rpc_call R request timeout s1)
           (\<lambda>(ret, body, t).
              case body of
                None \<Rightarrow> Ret (ret, total_num, clients, t)
              | Some b \<Rightarrow>
                  (case par_list_rep (re_codec R) b of
                     None \<Rightarrow> Ret (ERROR_CODE_PARSE, total_num, clients, t)
                   | Some r \<Rightarrow>
                       Ret (0, map_option (\<lambda>_. lr_total_num r) total_num,
                            map_option (\<lambda>cs. cs @ map client_info_of_proto (lr_client_list r)) clients, t))))"

text \<open>The sum starts from whatever the caller's structure holds.\<close>

definition ReceiverStatistic ::
  "int \<Rightarrow> MediaStatisticInfo option \<Rightarrow> 'b StreamSink \<Rightarrow> MediaStatisticInfo option" where
  "ReceiverStatistic zclock_time statistic s =
     map_option (\<lambda>st.
       st\<lparr>mi_ssrc := sm_ssrc (snk_stream_meta s), mi_timestamp := zclock_time,
          mi_sub_streams := snk_statistic s,
          mi_sum_bytes := fold (\<lambda>x n. n + st_data_bytes x) (snk_statistic s) (mi_sum_bytes st)\<rparr>) statistic"

section \<open>Life cycle\<close>

text \<open>\<open>std::set\<close> of the channel names: sorted and without duplicates.\<close>

definition subsribe_keys :: "(int, SinkSubHandlerEntry) omap \<Rightarrow> string list" where
  "subsribe_keys m = map fst (fold (\<lambda>(op_code, e). omap_put (sh_channel_name e) ()) m [])"

definition CreateSubscriberSocket :: "bool \<Rightarrow> int \<Rightarrow> 'b StreamSink \<Rightarrow> int \<times> 'b StreamSink" where
  "CreateSubscriberSocket sub_new sub_attach s =
     (if snk_subscriber_socket s \<noteq> None then (0, s)
      else if \<not> sub_new then (ERROR_CODE_SYSTEM, s)
      else if sub_attach \<noteq> 0 then (ERROR_CODE_SYSTEM, s)
      else (0, s\<lparr>snk_subscriber_socket :=
             Some ((new_zsock ZMQ_SUB (c_str (snk_subscriber_addr s)) 0)
               \<lparr>sk_hwm := Some (snk_sub_queue_size s),
                sk_subscribe := map c_str (subsribe_keys (snk_subsriber_handler_map s))\<rparr>)\<rparr>))"

record sink_init_env =
  ke_mutexattr_settype :: int
  ke_mutex_init :: int
  ke_hb_new :: bool
  ke_notify_new :: bool
  ke_sub_new :: bool
  ke_sub_attach :: int

definition InitBase ::
  "sink_init_env \<Rightarrow> StreamClientInfo \<Rightarrow> u32 \<Rightarrow> bool \<Rightarrow> u32 \<Rightarrow> 'b StreamSink \<Rightarrow> int \<times> 'b StreamSink" where
  "InitBase ie client_info sub_queue_size listener debug_flags s =
     (if flag_on (snk_flags s) STREAM_RECEIVER_FLAG_INIT then (-1, s)
      else if ke_mutexattr_settype ie \<noteq> 0 then (ERROR_CODE_SYSTEM, s)
      else if ke_mutex_init ie \<noteq> 0 then (ERROR_CODE_SYSTEM, s)
      else if \<not> ke_hb_new ie
        then (ERROR_CODE_SYSTEM, s\<lparr>snk_client_hearbeat_socket := None, snk_lock := False\<rparr>)
      else if \<not> ke_notify_new ie
        then (ERROR_CODE_SYSTEM, s\<lparr>snk_client_hearbeat_socket := None, snk_notify_socket := None,
                                  snk_lock := False\<rparr>)
      else
        let s1 = s\<lparr>snk_lock := True,
                   snk_client_hearbeat_socket := Some (new_req (snk_api_addr s)),
                   snk_notify_socket := Some (new_zsock ZMQ_PAIR ''@inproc://sink'' 0)\<rparr>;
            s2 = RegisterSubHandler PROTO_PACKET_CODE_MEDIA STSW_PUBLISH_MEDIA_CHANNEL
                   StaticMediaFrameHandler This s1;
            (ret, s3) = CreateSubscriberSocket (ke_sub_new ie) (ke_sub_attach ie) s2
        in if ret \<noteq> 0 then
             let s4 = UnregisterAllSubHandler (s3\<lparr>snk_subscriber_socket := None\<rparr>)
             in (ret, s4\<lparr>snk_notify_socket := None, snk_client_hearbeat_socket := None, snk_lock := False\<rparr>)
           else (0, s3\<lparr>snk_client_info := client_info, snk_debug_flags := debug_flags,
                      snk_listener := listener, snk_sub_queue_size := sub_queue_size,
                      snk_flags := snk_flags s3 OR STREAM_RECEIVER_FLAG_INIT\<rparr>))"

text \<open>The part that \<open>InitRemote\<close> and \<open>InitLocal\<close> share, from the two printed addresses on. A length
  of exactly 255 is refused; a longer address is cut off.\<close>

definition init_addrs ::
  "sink_init_env \<Rightarrow> string \<Rightarrow> string \<Rightarrow> StreamClientInfo \<Rightarrow> u32 \<Rightarrow> bool \<Rightarrow> u32 \<Rightarrow> 'b StreamSink \<Rightarrow> int \<times> 'b StreamSink"
  where
  "init_addrs ie api_full sub_full client_info sub_queue_size listener debug_flags s =
     (let error_out = (\<lambda>t. t\<lparr>snk_api_addr := '''', snk_subscriber_addr := ''''\<rparr>);
          (len1, addr1) = snprintf 255 api_full
      in if len1 = 255 then (ERROR_CODE_PARAM, error_out s)
         else
           let s1 = s\<lparr>snk_api_addr := addr1\<rparr>;
               (len2, addr2) = snprintf 255 sub_full
           in if len2 = 255 then (ERROR_CODE_PARAM, error_out s1)
              else
                let (ret, s2) = InitBase ie client_info sub_queue_size listener debug_flags
                                  (s1\<lparr>snk_subscriber_addr := addr2\<rparr>)
                in if ret \<noteq> 0 then (ret, error_out s2) else (0, s2))"

definition remote_addr :: "string \<Rightarrow> int \<Rightarrow> string" where
  "remote_addr source_ip port = ''>tcp://'' @ c_str source_ip @ '':'' @ dec_int port"

definition InitRemote ::
  "sink_init_env \<Rightarrow> string \<Rightarrow> int \<Rightarrow> StreamClientInfo \<Rightarrow> u32 \<Rightarrow> bool \<Rightarrow> u32 \<Rightarrow> 'b StreamSink \<Rightarrow> int \<times> 'b StreamSink"
  where
  "InitRemote ie source_ip source_tcp_port client_info sub_queue_size listener debug_flags s =
     (if length source_ip = 0 \<or> source_tcp_port = 0 then (ERROR_CODE_PARAM, s)
      else init_addrs ie (remote_addr source_ip source_tcp_port) (remote_addr source_ip (source_tcp_port + 1))
             client_info sub_queue_size listener debug_flags s)"

definition local_addr :: "string \<Rightarrow> string \<Rightarrow> string" where
  "local_addr stream_name socket_name =
     ''>ipc://@'' @ STSW_SOCKET_NAME_STREAM_PREFIX @ ''/'' @ c_str stream_name @ ''/'' @ socket_name"

definition InitLocal ::
  "sink_init_env \<Rightarrow> string \<Rightarrow> StreamClientInfo \<Rightarrow> u32 \<Rightarrow> bool \<Rightarrow> u32 \<Rightarrow> 'b StreamSink \<Rightarrow> int \<times> 'b StreamSink"
  where
  "InitLocal ie stream_name client_info sub_queue_size listener debug_flags s =
     (if length stream_name = 0 then (ERROR_CODE_PARAM, s)
      else init_addrs ie (local_addr stream_name STSW_SOCKET_NAME_STREAM_API)
             (local_addr stream_name STSW_SOCKET_NAME_STREAM_PUBLISH)
             client_info sub_queue_size listener debug_flags s)"

text \<open>\<open>thread\<close> is the identifier \<open>pthread_create\<close> stores, or \<open>None\<close> when it fails.\<close>

definition Start_sink :: "bool \<Rightarrow> int \<Rightarrow> nat option \<Rightarrow> 'b StreamSink \<Rightarrow> int \<times> 'b StreamSink" where
  "Start_sink sub_new sub_attach thread s =
     (if \<not> IsInit_sink s then (-1, s)
      else if flag_on (snk_flags s) STREAM_RECEIVER_FLAG_STARTED then (0, s)
      else if snk_worker_thread_id s \<noteq> 0 then (ERROR_CODE_BUSY, s)
      else
        let (ret, s1) = CreateSubscriberSocket sub_new sub_attach s
        in if ret \<noteq> 0 then (ret, s1)
           else
             let s2 = s1\<lparr>snk_last_send_client_heartbeat_msec := 0,
                         snk_next_send_client_heartbeat_msec := 0,
                         snk_last_frame_ssrc := sm_ssrc (snk_stream_meta s1)\<rparr>
             in case thread of
                  None \<Rightarrow> (ERROR_CODE_SYSTEM, s2\<lparr>snk_worker_thread_id := 0, snk_subscriber_socket := None\<rparr>)
                | Some tid \<Rightarrow> (0, s2\<lparr>snk_worker_thread_id := tid,
                                   snk_flags := snk_flags s2 OR STREAM_RECEIVER_FLAG_STARTED\<rparr>))"

text \<open>\<open>Stop\<close> as seen by its caller once the join has returned.\<close>

definition Stop_sink :: "'b StreamSink \<Rightarrow> 'b StreamSink" where
  "Stop_sink s =
     (if \<not> flag_on (snk_flags s) STREAM_RECEIVER_FLAG_STARTED then s
      else
        let s1 = s\<lparr>snk_flags := snk_flags s AND NOT STREAM_RECEIVER_FLAG_STARTED\<rparr>;
            s2 = (if snk_worker_thread_id s1 \<noteq> 0 then s1\<lparr>snk_worker_thread_id := 0\<rparr> else s1)
        in s2\<lparr>snk_subscriber_socket := None\<rparr>)"

definition Uninit_sink :: "'b StreamSink \<Rightarrow> 'b StreamSink" where
  "Uninit_sink s =
     (if \<not> IsInit_sink s then s
      else
        let s1 = Stop_sink s;
            s2 = s1\<lparr>snk_flags := snk_flags s1 AND NOT STREAM_RECEIVER_FLAG_INIT,
                    snk_subscriber_socket := None\<rparr>;
            s3 = UnregisterAllSubHandler s2
        in s3\<lparr>snk_notify_socket := None, snk_client_hearbeat_socket := None,
              snk_last_api_socket := None, snk_lock := False\<rparr>)"

end
