(* ===== verification/Sink_Properties.thy ===== *)
theory Sink_Properties
  imports Stream_Sink
begin

text \<open>
  Properties of the stream sink: the invariant of its reachable states, when a media frame is
  counted and delivered, the client heartbeat schedule, the checks on a reply and the reuse of
  request sockets, subscriptions, and the life cycle.
\<close>

unbundle bit_operations_syntax

lemmas snk_flag_defs = IsInit_sink_def IsStarted_sink_def

section \<open>Invariant\<close>

text \<open>The life cycle, over what is set: initialised, started, worker thread, lock, the notify, heartbeat,
  subscriber and request sockets, and an outstanding heartbeat request. While the sink is
  started, an outstanding heartbeat request has its socket; \<open>Uninit\<close> closes the socket and
  leaves the time of the request, which the next \<open>Start\<close> resets.\<close>

definition life_ok :: "bool \<Rightarrow> bool \<Rightarrow> bool \<Rightarrow> bool \<Rightarrow> bool \<Rightarrow> bool \<Rightarrow> bool \<Rightarrow> bool \<Rightarrow> bool \<Rightarrow> bool" where
  "life_ok init started thread lock notify hb sub api pending \<longleftrightarrow>
     (started \<longrightarrow> init \<and> sub) \<and> started = thread \<and> lock = init \<and> notify = init \<and>
     (\<not> init \<longrightarrow> \<not> hb \<and> \<not> sub \<and> \<not> api) \<and>
     (started \<and> pending \<longrightarrow> hb)"

definition sink_life :: "'b StreamSink \<Rightarrow> bool" where
  "sink_life s \<longleftrightarrow>
     life_ok (IsInit_sink s) (IsStarted_sink s) (snk_worker_thread_id s \<noteq> 0) (snk_lock s)
       (snk_notify_socket s \<noteq> None) (snk_client_hearbeat_socket s \<noteq> None)
       (snk_subscriber_socket s \<noteq> None) (snk_last_api_socket s \<noteq> None)
       (snk_last_send_client_heartbeat_msec s \<noteq> 0)"

definition sink_stat :: "'b StreamSink \<Rightarrow> bool" where
  "sink_stat s \<longleftrightarrow>
     map st_sub_stream_index (snk_statistic s) = map int [0..<length (snk_statistic s)] \<and>
     length (snk_statistic s) \<le> length (sm_sub_streams (snk_stream_meta s))"

definition sink_inv :: "'b StreamSink \<Rightarrow> bool" where
  "sink_inv s \<longleftrightarrow> sink_life s \<and> sink_stat s \<and> omap_inv (snk_subsriber_handler_map s)"

lemmas sink_inv_defs = sink_inv_def sink_life_def sink_stat_def snk_flag_defs

definition handler_safe :: "'b sink_env \<Rightarrow> bool" where
  "handler_safe E \<longleftrightarrow> (\<forall>n ud m b s. sink_inv s \<longrightarrow> sink_inv (ke_user E n ud m b s))"

definition meanwhile_safe :: "'b rpc_env \<Rightarrow> bool" where
  "meanwhile_safe R \<longleftrightarrow> (\<forall>s. sink_inv s \<longrightarrow> sink_inv (re_meanwhile R s))"

inductive sink_step :: "'b StreamSink \<Rightarrow> 'b StreamSink \<Rightarrow> bool" where
  snk_init_local: "sink_step s (snd (InitLocal ie name c q l d s))"
| snk_init_remote: "sink_step s (snd (InitRemote ie ip port c q l d s))"
| snk_start: "th \<noteq> Some 0 \<Longrightarrow> sink_step s (snd (Start_sink n a th s))"
| snk_stop: "sink_step s (Stop_sink s)"
| snk_uninit: "sink_step s (Uninit_sink s)"
| snk_register: "sink_step s (RegisterSubHandler op ch h ud s)"
| snk_unregister: "sink_step s (UnregisterSubHandler op s)"
| snk_unregister_all: "sink_step s (UnregisterAllSubHandler s)"
| snk_destroy_sub: "sink_step s (DestroySubscriberSocket s)"
| snk_client_info: "sink_step s (set_client_info c s)"
| snk_sub_read: "handler_safe E \<Longrightarrow> OnSubRead E z s = Ret t \<Longrightarrow> sink_step s t"
| snk_heartbeat: "IsStarted_sink s \<Longrightarrow> Heartbeat_sink E now s = Ret t \<Longrightarrow> sink_step s t"
| snk_meta: "meanwhile_safe R \<Longrightarrow> UpdateStreamMetaData R timeout s = Ret (r, t) \<Longrightarrow> sink_step s t"
| snk_key_frame: "meanwhile_safe R \<Longrightarrow> KeyFrame R timeout s = Ret (r, t) \<Longrightarrow> sink_step s t"
| snk_statistics: "meanwhile_safe R \<Longrightarrow> SourceStatistic R timeout st s = Ret (r, st', t) \<Longrightarrow> sink_step s t"
| snk_clients: "meanwhile_safe R \<Longrightarrow> ClientList R timeout i n tot cs s = Ret (r, tot', cs', t) \<Longrightarrow> sink_step s t"

lemma sink_inv_new: "sink_inv new_StreamSink"
  by (simp add: sink_inv_defs new_StreamSink_def omap_inv_Nil life_ok_def)

lemma sink_inv_irrelevant [simp]:
  "sink_inv (s\<lparr>snk_client_info := c\<rparr>) = sink_inv s"
  "sink_inv (s\<lparr>snk_calls := cs\<rparr>) = sink_inv s"
  "sink_inv (s\<lparr>snk_next_seq := n\<rparr>) = sink_inv s"
  "sink_inv (s\<lparr>snk_last_frame_ssrc := x\<rparr>) = sink_inv s"
  "sink_inv (s\<lparr>snk_last_heartbeat_time := x2\<rparr>) = sink_inv s"
  "sink_inv (s\<lparr>snk_api_addr := a\<rparr>) = sink_inv s"
  "sink_inv (s\<lparr>snk_subscriber_addr := a\<rparr>) = sink_inv s"
  by (simp_all add: sink_inv_defs)

lemma sink_inv_table:
  assumes "sink_inv s" "omap_inv m"
  shows "sink_inv (s\<lparr>snk_subsriber_handler_map := m\<rparr>)"
  using assms by (simp add: sink_inv_defs)

lemma sink_table_inv:
  assumes "sink_inv s"
  shows "sink_inv (RegisterSubHandler op ch h ud s)" "sink_inv (UnregisterSubHandler op s)"
    "sink_inv (UnregisterAllSubHandler s)"
proof -
  have "omap_inv (snk_subsriber_handler_map s)" using assms by (simp add: sink_inv_def)
  then show "sink_inv (RegisterSubHandler op ch h ud s)" "sink_inv (UnregisterSubHandler op s)"
    "sink_inv (UnregisterAllSubHandler s)"
    using assms by (simp_all add: RegisterSubHandler_def UnregisterSubHandler_def UnregisterAllSubHandler_def
        sink_inv_table omap_inv_put omap_inv_erase omap_inv_Nil)
qed

text \<open>The steps of the life cycle on its view.\<close>

lemma life_ok_stop: "life_ok i st th lk nt hb sb ap pn \<Longrightarrow> life_ok i False False lk nt hb False ap pn"
  by (auto simp: life_ok_def)

lemma life_ok_no_thread: "life_ok i st th lk nt hb sb ap pn \<Longrightarrow> \<not> st \<Longrightarrow> \<not> th"
  by (simp add: life_ok_def)

lemma life_ok_unsub: "life_ok i False th lk nt hb sb ap pn \<Longrightarrow> life_ok i False th lk nt hb False ap pn'"
  by (auto simp: life_ok_def)

lemma life_ok_start: "life_ok True False th lk nt hb sb ap pn \<Longrightarrow> life_ok True True True lk nt hb True ap False"
  by (auto simp: life_ok_def)

lemma life_ok_uninit: "life_ok False False False False False False False False pn"
  by (simp add: life_ok_def)

lemma life_ok_init:
  "life_ok False st th lk nt hb sb ap pn \<Longrightarrow>
     \<not> st \<and> \<not> th \<and> \<not> lk \<and> \<not> nt \<and> \<not> hb \<and> \<not> sb \<and> \<not> ap"
  by (auto simp: life_ok_def)

lemma DestroySubscriberSocket_inv: "sink_inv s \<Longrightarrow> sink_inv (DestroySubscriberSocket s)"
  using life_ok_unsub by (auto simp: DestroySubscriberSocket_def sink_inv_defs)

lemma CreateSubscriberSocket_cases:
  assumes "CreateSubscriberSocket n a s = (r, t)"
  shows "r \<noteq> 0 \<and> t = s \<and> snk_subscriber_socket s = None \<or>
    r = 0 \<and> (\<exists>k. t = s\<lparr>snk_subscriber_socket := Some k\<rparr>)"
proof (cases "snk_subscriber_socket s")
  case None
  with assms show ?thesis
    by (auto simp: CreateSubscriberSocket_def error_code_defs split: if_splits)
next
  case (Some k)
  then have "s = s\<lparr>snk_subscriber_socket := Some k\<rparr>" by simp
  then have "\<exists>k. s = s\<lparr>snk_subscriber_socket := Some k\<rparr>" ..
  with Some assms show ?thesis by (auto simp: CreateSubscriberSocket_def simp del: StreamSink.update_convs)
qed

lemma Start_sink_inv:
  assumes "sink_inv s" "th \<noteq> Some 0"
  shows "sink_inv (snd (Start_sink n a th s))"
proof -
  obtain r t where rt: "CreateSubscriberSocket n a s = (r, t)" by (cases "CreateSubscriberSocket n a s")
  consider "r \<noteq> 0" "t = s" | k where "r = 0" "t = s\<lparr>snk_subscriber_socket := Some k\<rparr>"
    using CreateSubscriberSocket_cases [OF rt] by blast
  then show ?thesis
  proof cases
    case 1
    then show ?thesis using assms(1) by (simp add: Start_sink_def rt)
  next
    case 2
    show ?thesis
    proof (cases "IsInit_sink s \<and> \<not> IsStarted_sink s \<and> snk_worker_thread_id s = 0")
      case False
      then show ?thesis using assms(1) by (auto simp: Start_sink_def snk_flag_defs)
    next
      case True
      then have life: "life_ok True False False (snk_lock s) (snk_notify_socket s \<noteq> None)
          (snk_client_hearbeat_socket s \<noteq> None) (snk_subscriber_socket s \<noteq> None)
          (snk_last_api_socket s \<noteq> None) (snk_last_send_client_heartbeat_msec s \<noteq> 0)"
        using assms(1) by (simp add: sink_inv_def sink_life_def)
      show ?thesis
        using True assms life_ok_start [OF life] life_ok_unsub [OF life, of False] 2
        by (cases th) (auto simp: Start_sink_def rt sink_inv_defs)
    qed
  qed
qed

lemma Stop_sink_inv: "sink_inv s \<Longrightarrow> sink_inv (Stop_sink s)"
  using life_ok_stop by (auto simp: Stop_sink_def Let_def sink_inv_defs)

lemma Stop_sink_stopped:
  "\<not> flag_on (snk_flags (Stop_sink s)) 4" "flag_on (snk_flags (Stop_sink s)) 1 = flag_on (snk_flags s) 1"
  by (auto simp: Stop_sink_def Let_def)

lemma Uninit_sink_inv:
  assumes "sink_inv s"
  shows "sink_inv (Uninit_sink s)"
proof (cases "IsInit_sink s")
  case True
  have inv: "sink_inv (Stop_sink s)" by (rule Stop_sink_inv [OF assms])
  then have "snk_worker_thread_id (Stop_sink s) = 0"
    using Stop_sink_stopped(1) [of s] by (auto simp: sink_inv_defs life_ok_def)
  then show ?thesis
    using True inv Stop_sink_stopped(1) [of s]
    by (simp add: Uninit_sink_def Let_def UnregisterAllSubHandler_def sink_inv_defs life_ok_uninit omap_inv_Nil)
qed (simp add: Uninit_sink_def assms)


lemma InitBase_inv:
  assumes "sink_inv s"
  shows "sink_inv (snd (InitBase ie c q l d s))"
proof (cases "flag_on (snk_flags s) 1 \<or> ke_mutexattr_settype ie \<noteq> 0 \<or> ke_mutex_init ie \<noteq> 0 \<or>
    \<not> ke_hb_new ie \<or> \<not> ke_notify_new ie")
  case True
  then show ?thesis
    using assms by (auto simp: InitBase_def sink_inv_defs life_ok_def)
next
  case False
  let ?s1 = "s\<lparr>snk_lock := True, snk_client_hearbeat_socket := Some (new_req (snk_api_addr s)),
     snk_notify_socket := Some (new_zsock ZMQ_PAIR ''@inproc://sink'' 0)\<rparr>"
  let ?s2 = "RegisterSubHandler PROTO_PACKET_CODE_MEDIA STSW_PUBLISH_MEDIA_CHANNEL StaticMediaFrameHandler This ?s1"
  have idle: "\<not> flag_on (snk_flags s) 4 \<and> snk_worker_thread_id s = 0 \<and> snk_last_api_socket s = None"
    and m: "omap_inv (snk_subsriber_handler_map s)" and stat: "sink_stat s"
    using False assms by (auto simp: sink_inv_defs dest: life_ok_init)
  obtain r t where rt: "CreateSubscriberSocket (ke_sub_new ie) (ke_sub_attach ie) ?s2 = (r, t)"
    by (cases "CreateSubscriberSocket (ke_sub_new ie) (ke_sub_attach ie) ?s2")
  consider "r \<noteq> 0" "t = ?s2" | k where "r = 0" "t = ?s2\<lparr>snk_subscriber_socket := Some k\<rparr>"
    using CreateSubscriberSocket_cases [OF rt] by blast
  moreover have "snd (InitBase ie c q l d s) =
     (if r \<noteq> 0 then (UnregisterAllSubHandler (t\<lparr>snk_subscriber_socket := None\<rparr>))
          \<lparr>snk_notify_socket := None, snk_client_hearbeat_socket := None, snk_lock := False\<rparr>
      else t\<lparr>snk_client_info := c, snk_debug_flags := d, snk_listener := l, snk_sub_queue_size := q,
             snk_flags := snk_flags t OR 1\<rparr>)"
    using False by (simp add: InitBase_def Let_def rt)
  ultimately show ?thesis
    using idle m stat False
    by cases (simp_all add: RegisterSubHandler_def UnregisterAllSubHandler_def
        sink_inv_defs life_ok_def omap_inv_put omap_inv_Nil)
qed

lemma init_addrs_inv:
  assumes "sink_inv s"
  shows "sink_inv (snd (init_addrs ie a b c q l d s))"
proof -
  let ?t = "s\<lparr>snk_api_addr := take 254 a, snk_subscriber_addr := take 254 b\<rparr>"
  have "sink_inv (snd (InitBase ie c q l d ?t))" using assms by (intro InitBase_inv) simp
  with assms show ?thesis
    by (cases "InitBase ie c q l d ?t") (simp add: init_addrs_def snprintf_def Let_def)
qed

lemma Init_sink_inv:
  "sink_inv s \<Longrightarrow> sink_inv (snd (InitLocal ie name c q l d s))"
  "sink_inv s \<Longrightarrow> sink_inv (snd (InitRemote ie ip port c q l d s))"
  by (simp_all add: InitLocal_def InitRemote_def init_addrs_inv)

subsection \<open>Frames\<close>

lemma listener_call_inv [simp]: "sink_inv (listener_call c s) = sink_inv s"
  by (simp add: listener_call_def)

lemma stat_recv_index: "st_sub_stream_index (stat_recv ft n q st) = st_sub_stream_index st"
  by (simp add: stat_recv_def stat_count_key_def Let_def)

lemma sink_stat_update:
  assumes "sink_inv s" "st_sub_stream_index x = st_sub_stream_index (snk_statistic s ! i)"
  shows "sink_inv (s\<lparr>snk_statistic := (snk_statistic s)[i := x]\<rparr>)"
proof (cases "i < length (snk_statistic s)")
  case True
  then have "map st_sub_stream_index ((snk_statistic s)[i := x]) = map st_sub_stream_index (snk_statistic s)"
    using assms(2) by (simp add: map_update list_update_same_conv)
  with assms(1) show ?thesis by (simp add: sink_inv_defs)
qed (use assms(1) in \<open>simp add: list_update_beyond\<close>)

lemma MediaFrameHandler_inv:
  "sink_inv s \<Longrightarrow> MediaFrameHandler C msg b s = Ret (r, t) \<Longrightarrow> sink_inv t"
  by (auto simp: MediaFrameHandler_def Let_def sink_stat_update stat_recv_index
      split: option.splits if_splits)

lemma OnSubRead_inv:
  assumes "sink_inv s" "handler_safe E" "OnSubRead E z s = Ret t"
  shows "sink_inv t"
proof (cases z)
  case (Sub_Full m)
  show ?thesis
  proof (cases "par_packet (ke_codec E) (pb_packet m)")
    case None
    with Sub_Full assms show ?thesis by (simp add: OnSubRead_def)
  next
    case (Some msg)
    with Sub_Full assms(3) have "OnSubMsg E (c_str (pb_channel m)) msg (blob_part (pb_blob m)) s = Ret t"
      by (simp add: OnSubRead_def)
    with assms(1,2) show ?thesis
      by (auto simp: OnSubMsg_def bind_cpp_Ret_conv handler_safe_def MediaFrameHandler_inv
          split: option.splits if_splits SinkSubHandler.splits)
  qed
qed (use assms in \<open>simp_all add: OnSubRead_def\<close>)


subsection \<open>Heartbeats and requests\<close>

lemma check_heartbeat_cases:
  assumes "check_heartbeat_reply E now s = Ret (go, t)"
  shows "t = s \<or>
    (\<exists>n. t = s\<lparr>snk_next_send_client_heartbeat_msec := n, snk_last_send_client_heartbeat_msec := 0\<rparr>) \<or>
    t = s\<lparr>snk_client_hearbeat_socket := None, snk_last_send_client_heartbeat_msec := 0,
          snk_next_send_client_heartbeat_msec := 0\<rparr>"
proof (cases "snk_last_send_client_heartbeat_msec s = 0")
  case True
  then show ?thesis using assms by (simp add: check_heartbeat_reply_def)
next
  case False
  show ?thesis
  proof (cases "ke_hb_poll E")
    case Hb_Nothing
    then show ?thesis using assms False
      by (cases "now - snk_last_send_client_heartbeat_msec s \<ge> 3000") (simp_all add: check_heartbeat_reply_def)
  next
    case Hb_NoFrame
    then show ?thesis using assms False by (simp add: check_heartbeat_reply_def)
  next
    case (Hb_Frame f)
    with assms False have "bind_cpp (heartbeat_reply_time (ke_codec E) f (snk_last_send_client_heartbeat_msec s) now)
        (\<lambda>n. Ret (True, s\<lparr>snk_next_send_client_heartbeat_msec := n, snk_last_send_client_heartbeat_msec := 0\<rparr>))
      = Ret (go, t)" by (simp add: check_heartbeat_reply_def)
    then show ?thesis by (rule bind_cpp_RetE) (simp, metis)
  qed
qed

lemma sink_inv_heartbeat_fields:
  assumes "sink_inv s"
  shows "sink_inv (s\<lparr>snk_next_send_client_heartbeat_msec := n, snk_last_send_client_heartbeat_msec := 0\<rparr>)"
    and "sink_inv (s\<lparr>snk_client_hearbeat_socket := None, snk_last_send_client_heartbeat_msec := 0,
          snk_next_send_client_heartbeat_msec := 0\<rparr>)"
  using assms by (simp_all add: sink_inv_defs life_ok_def)

lemma check_heartbeat_inv:
  assumes "sink_inv s" "check_heartbeat_reply E now s = Ret (go, t)"
  shows "sink_inv t \<and> snk_flags t = snk_flags s"
proof -
  consider "t = s"
    | n where "t = s\<lparr>snk_next_send_client_heartbeat_msec := n, snk_last_send_client_heartbeat_msec := 0\<rparr>"
    | "t = s\<lparr>snk_client_hearbeat_socket := None, snk_last_send_client_heartbeat_msec := 0,
          snk_next_send_client_heartbeat_msec := 0\<rparr>"
    using check_heartbeat_cases [OF assms(2)] by blast
  then show ?thesis
    by cases (simp_all add: assms(1) sink_inv_heartbeat_fields [OF assms(1)])
qed

lemma send_heartbeat_inv:
  assumes "sink_inv s" "IsInit_sink s"
  shows "sink_inv (send_heartbeat_req E now s)"
  using assms
  by (cases "snk_client_hearbeat_socket s")
    (auto simp: send_heartbeat_req_def Let_def sink_inv_defs life_ok_def)

lemma Heartbeat_sink_cases:
  assumes "Heartbeat_sink E now0 s = Ret t"
  obtains now go u where "now = (if now0 = 0 then ke_zclock_mono E else now0)"
    "check_heartbeat_reply E now (s\<lparr>snk_last_heartbeat_time := now\<rparr>) = Ret (go, u)"
    "t = (if go then send_heartbeat_req E now u else u)"
  using assms
  by (auto simp: Heartbeat_sink_def ClientHeartbeatHandler_sink_def Let_def elim!: bind_cpp_RetE)

lemma Heartbeat_sink_inv:
  assumes "sink_inv s" "IsStarted_sink s" "Heartbeat_sink E now0 s = Ret t"
  shows "sink_inv t"
proof -
  obtain now go u where u: "check_heartbeat_reply E now (s\<lparr>snk_last_heartbeat_time := now\<rparr>) = Ret (go, u)"
    and t: "t = (if go then send_heartbeat_req E now u else u)"
    using assms(3) by (rule Heartbeat_sink_cases)
  have s: "sink_inv (s\<lparr>snk_last_heartbeat_time := now\<rparr>)" using assms(1) by simp
  have "IsInit_sink s" using assms(1,2) by (simp add: sink_inv_def sink_life_def life_ok_def)
  then have "IsInit_sink u" using check_heartbeat_inv [OF s u] by (simp add: snk_flag_defs)
  then show ?thesis using check_heartbeat_inv [OF s u] by (simp add: t send_heartbeat_inv)
qed

lemma sink_inv_take_socket: "sink_inv s \<Longrightarrow> sink_inv (s\<lparr>snk_last_api_socket := None\<rparr>)"
  by (auto simp: sink_inv_defs life_ok_def)

lemma cache_api_socket_inv: "sink_inv s \<Longrightarrow> sink_inv (cache_api_socket k s)"
  by (auto simp: cache_api_socket_def sink_inv_defs life_ok_def)

lemma SendRpcRequest_inv:
  assumes "sink_inv s" "meanwhile_safe R"
  shows "sink_inv (snd (snd (SendRpcRequest R req b timeout s)))"
proof -
  have 1: "sink_inv (s\<lparr>snk_last_api_socket := None\<rparr>)" by (rule sink_inv_take_socket [OF assms(1)])
  then have "sink_inv (re_meanwhile R (s\<lparr>snk_last_api_socket := None\<rparr>))"
    using assms(2) by (simp add: meanwhile_safe_def)
  with 1 assms(1) show ?thesis
    by (simp add: SendRpcRequest_def Let_def cache_api_socket_inv split: option.split net_result.split)
qed

lemma rpc_call_inv:
  assumes "sink_inv s" "meanwhile_safe R" "rpc_call R req timeout s = Ret (r, body, t)"
  shows "sink_inv t"
proof -
  obtain ret res u where u: "SendRpcRequest R req None timeout s = (ret, res, u)"
    by (metis prod_cases3)
  then have "sink_inv u" using SendRpcRequest_inv [OF assms(1,2), of req None timeout] by simp
  moreover have "t = u"
    using assms(3) u by (auto simp: rpc_call_def Let_def split: if_splits option.splits)
  ultimately show ?thesis by simp
qed

lemma apply_meta_rep_inv: "sink_inv s \<Longrightarrow> sink_inv (apply_meta_rep r s)"
  by (simp add: apply_meta_rep_def Let_def sink_inv_defs comp_def)

lemma sink_rpc_inv:
  assumes "sink_inv s" "meanwhile_safe R"
  shows "UpdateStreamMetaData R timeout s = Ret (r, t) \<Longrightarrow> sink_inv t"
    and "KeyFrame R timeout s = Ret (r, t) \<Longrightarrow> sink_inv t"
    and "SourceStatistic R timeout st s = Ret (r, st', t) \<Longrightarrow> sink_inv t"
    and "ClientList R timeout i n tot cs s = Ret (r, tot', cs', t) \<Longrightarrow> sink_inv t"
proof -
  let ?s = "s\<lparr>snk_next_seq := snk_next_seq s + 1\<rparr>"
  have inv: "sink_inv ?s" using assms(1) by simp
  note call = rpc_call_inv [OF inv assms(2)]
  show "sink_inv t" if "UpdateStreamMetaData R timeout s = Ret (r, t)"
  proof (cases "IsStarted_sink s")
    case True
    with that assms(1) show ?thesis by (simp add: UpdateStreamMetaData_def)
  next
    case False
    with that obtain x body u where c: "rpc_call R (request_packet (re_codec R) (snk_next_seq s)
        PROTO_PACKET_CODE_METADATA) timeout ?s = Ret (x, body, u)"
      and u: "t = u \<or> (\<exists>m. t = apply_meta_rep m u)"
      by (fastforce simp: UpdateStreamMetaData_def GetNextSeq_def elim!: bind_cpp_RetE split: option.splits)
    from u show ?thesis by (elim disjE exE) (simp_all add: call [OF c] apply_meta_rep_inv)
  qed
  show "KeyFrame R timeout s = Ret (r, t) \<Longrightarrow> sink_inv t"
    by (auto simp: KeyFrame_def GetNextSeq_def dest: call elim!: bind_cpp_RetE)
  show "SourceStatistic R timeout st s = Ret (r, st', t) \<Longrightarrow> sink_inv t"
    using assms(1) by (auto simp: SourceStatistic_def GetNextSeq_def dest: call elim!: bind_cpp_RetE
        split: option.splits)
  show "ClientList R timeout i n tot cs s = Ret (r, tot', cs', t) \<Longrightarrow> sink_inv t"
    by (auto simp: ClientList_def GetNextSeq_def Let_def dest: call elim!: bind_cpp_RetE split: option.splits)
qed

lemmas sink_op_inv = Init_sink_inv Start_sink_inv Stop_sink_inv Uninit_sink_inv sink_table_inv
  DestroySubscriberSocket_inv

lemma sink_step_inv:
  assumes "sink_inv s" "sink_step s t"
  shows "sink_inv t"
  using assms(2)
proof cases
  case snk_sub_read
  then show ?thesis using OnSubRead_inv [OF assms(1)] by blast
next
  case snk_heartbeat
  then show ?thesis using Heartbeat_sink_inv [OF assms(1)] by blast
next
  case snk_meta
  then show ?thesis using sink_rpc_inv(1) [OF assms(1)] by blast
next
  case snk_key_frame
  then show ?thesis using sink_rpc_inv(2) [OF assms(1)] by blast
next
  case snk_statistics
  then show ?thesis using sink_rpc_inv(3) [OF assms(1)] by blast
next
  case snk_clients
  then show ?thesis using sink_rpc_inv(4) [OF assms(1)] by blast
qed (simp_all add: assms(1) sink_op_inv set_client_info_def)

interpretation snk_machine: state_machine "\<lambda>s. s = new_StreamSink" sink_step sink_inv
  by unfold_locales (auto simp: sink_inv_new sink_step_inv)

text \<open>C4: In every state of the sink that its operations reach, with handlers of the application and
  activity of other threads during a request that keep this invariant themselves: a started sink is
  initialised, has its worker thread and its subscriber socket; the lock and the notify socket
  exist exactly while it is initialised, and no socket survives without that; while the sink is
  started, an outstanding heartbeat request has its socket; the counters are numbered by their
  position and never more than the sub streams; and the handler table is sorted by code.\<close>

theorem sink_reachable_inv:
  assumes "reachable_from (\<lambda>s. s = new_StreamSink) sink_step s"
  shows "sink_inv s"
  using assms by (rule snk_machine.reach_inv)


section \<open>A sink for evaluation\<close>

definition demo_sink_init_env :: sink_init_env where
  "demo_sink_init_env = \<lparr>ke_mutexattr_settype = 0, ke_mutex_init = 0, ke_hb_new = True,
     ke_notify_new = True, ke_sub_new = True, ke_sub_attach = 0\<rparr>"

definition demo_info :: StreamClientInfo where
  "demo_info = new_StreamClientInfo\<lparr>ci_client_ip := ''10.0.0.1'', ci_client_port := 5000,
     ci_client_token := ''t'', ci_client_protocol := ''rtsp''\<rparr>"

definition demo_sink :: "wire StreamSink" where
  "demo_sink = snd (InitLocal demo_sink_init_env ''cam'' demo_info 250 True 0 new_StreamSink)"

lemma demo_sink_step: "sink_step new_StreamSink demo_sink"
  unfolding demo_sink_def by (rule snk_init_local)

lemmas demo_sink_defs = demo_sink_def InitLocal_def init_addrs_def InitBase_def snprintf_def Let_def
  local_addr_def CreateSubscriberSocket_def RegisterSubHandler_def demo_sink_init_env_def snk_flag_defs
  new_StreamSink_def socket_name_defs c_str_def subsribe_keys_def

theorem sink_reachable_inv_witness:
  "IsInit_sink (snd (Start_sink True 0 (Some 1) demo_sink)) \<and> sink_inv (snd (Start_sink True 0 (Some 1) demo_sink))"
proof -
  have "reachable_from (\<lambda>s. s = new_StreamSink) sink_step new_StreamSink" by (rule reach_init) simp
  from reach_step [OF this demo_sink_step]
  have r: "reachable_from (\<lambda>s. s = new_StreamSink) sink_step (snd (Start_sink True 0 (Some 1) demo_sink))"
    by (rule reach_step) (simp add: snk_start)
  have "IsInit_sink (snd (Start_sink True 0 (Some 1) demo_sink))"
    by (simp add: Start_sink_def demo_sink_defs flag_on_def)
  then show ?thesis using sink_reachable_inv [OF r] by simp
qed

section \<open>Media frames\<close>

fun deliver :: "'b sink_env \<Rightarrow> 'b pub_msg list \<Rightarrow> 'b StreamSink \<Rightarrow> 'b StreamSink cpp" where
  "deliver E [] s = Ret s"
| "deliver E (m # ms) s = bind_cpp (OnSubRead E (Sub_Full m) s) (deliver E ms)"

definition media_pub :: "'b pb_codec \<Rightarrow> ProtoMediaFrameMsg \<Rightarrow> blob \<Rightarrow> 'b pub_msg" where
  "media_pub C m d = \<lparr>pb_channel = STSW_PUBLISH_MEDIA_CHANNEL,
     pb_packet = ser_packet C (message_packet C PROTO_PACKET_CODE_MEDIA (ser_media_frame C m)), pb_blob = d\<rparr>"

definition receives_media :: "'b StreamSink \<Rightarrow> bool" where
  "receives_media s \<longleftrightarrow> omap_find (snk_subsriber_handler_map s) PROTO_PACKET_CODE_MEDIA =
     Some \<lparr>sh_handler = StaticMediaFrameHandler, sh_channel_name = STSW_PUBLISH_MEDIA_CHANNEL, sh_user_data = This\<rparr>"

lemma c_str_media [simp]: "c_str STSW_PUBLISH_MEDIA_CHANNEL = STSW_PUBLISH_MEDIA_CHANNEL"
  by (simp add: c_str_def STSW_PUBLISH_MEDIA_CHANNEL_def)

lemma OnSubRead_media:
  assumes "codec_ok (ke_codec E)" "receives_media s"
  shows "OnSubRead E (Sub_Full (media_pub (ke_codec E) m d)) s =
    bind_cpp (MediaFrameHandler (ke_codec E) (message_packet (ke_codec E) PROTO_PACKET_CODE_MEDIA
       (ser_media_frame (ke_codec E) m)) (blob_part d) s) (\<lambda>(r, t). Ret t)"
  using assms(2)
  by (simp add: OnSubRead_def media_pub_def codec_okD(1) [OF assms(1)] OnSubMsg_def receives_media_def
      message_packet_def)

definition msg_ok :: "'b StreamSink \<Rightarrow> ProtoMediaFrameMsg \<Rightarrow> bool" where
  "msg_ok s m \<longleftrightarrow> mf_ssrc m = sm_ssrc (snk_stream_meta s) \<and> 0 \<le> mf_stream_index m \<and>
     mf_stream_index m < int (length (snk_statistic s)) \<and>
     length (snk_statistic s) \<le> length (sm_sub_streams (snk_stream_meta s))"

definition received_of :: "int \<Rightarrow> (ProtoMediaFrameMsg \<times> blob) list \<Rightarrow> (MediaFrameType \<times> nat \<times> u64) list" where
  "received_of i ms = map (\<lambda>(m, d). (mf_frame_type m, blob_size d, mf_seq m))
     (filter (\<lambda>(m, d). mf_stream_index m = i) ms)"

lemma received_of_Cons:
  "received_of i ((m, d) # ms) =
     (if mf_stream_index m = i then (mf_frame_type m, blob_size d, mf_seq m) # received_of i ms else received_of i ms)"
  by (simp add: received_of_def)

lemma stat_recv_not_media: "\<not> is_media ft \<Longrightarrow> stat_recv ft n q st = st"
  by (simp add: stat_recv_def is_media_def)

lemma MediaFrameHandler_ok:
  assumes "codec_ok C" "msg_ok s m"
  shows "MediaFrameHandler C (message_packet C PROTO_PACKET_CODE_MEDIA (ser_media_frame C m)) d s =
    Ret (0, listener_call (OnLiveMediaFrame (frame_info_of m) d)
      (s\<lparr>snk_statistic := (snk_statistic s)[nat (mf_stream_index m) :=
         recv_upd (mf_frame_type m, blob_size d, mf_seq m) (snk_statistic s ! nat (mf_stream_index m))]\<rparr>))"
proof -
  have i: "nat (mf_stream_index m) < length (snk_statistic s)" using assms(2) by (auto simp: msg_ok_def)
  have "s\<lparr>snk_statistic := (snk_statistic s)[nat (mf_stream_index m) := snk_statistic s ! nat (mf_stream_index m)]\<rparr> = s"
    by simp
  then show ?thesis
    using assms(2) i
    by (cases "is_media (mf_frame_type m)")
      (auto simp: MediaFrameHandler_def message_packet_def codec_okD(6) [OF assms(1)] frame_info_of_def
        msg_ok_def Let_def recv_upd_def stat_recv_not_media)
qed

lemma deliver_spec:
  assumes "codec_ok (ke_codec E)" "receives_media s" "list_all (\<lambda>(m, d). msg_ok s m) ms"
  shows "\<exists>t. deliver E (map (\<lambda>(m, d). media_pub (ke_codec E) m d) ms) s = Ret t \<and>
    snk_stream_meta t = snk_stream_meta s \<and> length (snk_statistic t) = length (snk_statistic s) \<and>
    snk_calls t = snk_calls s @ (if snk_listener s
      then map (\<lambda>(m, d). OnLiveMediaFrame (frame_info_of m) (blob_part d)) ms else []) \<and>
    (\<forall>i < length (snk_statistic s).
       snk_statistic t ! i = fold recv_upd (received_of (int i) ms) (snk_statistic s ! i))"
  using assms(2,3)
proof (induction ms arbitrary: s)
  case Nil
  then show ?case by (simp add: received_of_def)
next
  case (Cons md ms)
  obtain m d where md: "md = (m, d)" by (cases md)
  let ?i = "nat (mf_stream_index m)" and ?f = "(mf_frame_type m, blob_size d, mf_seq m)"
  let ?u = "listener_call (OnLiveMediaFrame (frame_info_of m) (blob_part d))
      (s\<lparr>snk_statistic := (snk_statistic s)[?i := recv_upd ?f (snk_statistic s ! ?i)]\<rparr>)"
  have ok: "msg_ok s m" using Cons.prems md by simp
  have u: "receives_media ?u" "list_all (\<lambda>(m, d). msg_ok ?u m) ms" "snk_stream_meta ?u = snk_stream_meta s"
    "snk_listener ?u = snk_listener s"
    "snk_statistic ?u = (snk_statistic s)[?i := recv_upd ?f (snk_statistic s ! ?i)]"
    "snk_calls ?u = snk_calls s @ (if snk_listener s then [OnLiveMediaFrame (frame_info_of m) (blob_part d)] else [])"
    using Cons.prems by (simp_all add: listener_call_def receives_media_def msg_ok_def)
  obtain t where t: "deliver E (map (\<lambda>(m, d). media_pub (ke_codec E) m d) ms) ?u = Ret t"
    "snk_stream_meta t = snk_stream_meta ?u" "length (snk_statistic t) = length (snk_statistic ?u)"
    "snk_calls t = snk_calls ?u @ (if snk_listener ?u
      then map (\<lambda>(m, d). OnLiveMediaFrame (frame_info_of m) (blob_part d)) ms else [])"
    "\<forall>i < length (snk_statistic ?u).
       snk_statistic t ! i = fold recv_upd (received_of (int i) ms) (snk_statistic ?u ! i)"
    using Cons.IH [OF u(1,2)] by blast
  have step: "OnSubRead E (Sub_Full (media_pub (ke_codec E) m d)) s = Ret ?u"
    by (simp add: OnSubRead_media [OF assms(1) Cons.prems(1)] MediaFrameHandler_ok [OF assms(1) ok])
  have "snk_statistic t ! j = fold recv_upd (received_of (int j) (md # ms)) (snk_statistic s ! j)"
    if "j < length (snk_statistic s)" for j
    using that ok t(5) unfolding u(5)
    by (auto simp: md received_of_Cons nth_list_update msg_ok_def)
  with t(1-4) show ?case unfolding u by (simp add: md step)
qed

text \<open>C9: A run of published frames that match the sink's metadata is handed to the listener
  completely, once each and in order, and every sub stream's counters count exactly its own
  frames.\<close>

theorem sink_frames_delivered:
  assumes "codec_ok (ke_codec E)" "receives_media s" "snk_listener s" "list_all (\<lambda>(m, d). msg_ok s m) ms"
  shows "\<exists>t. deliver E (map (\<lambda>(m, d). media_pub (ke_codec E) m d) ms) s = Ret t \<and>
    snk_calls t = snk_calls s @ map (\<lambda>(m, d). OnLiveMediaFrame (frame_info_of m) (blob_part d)) ms \<and>
    (\<forall>i < length (snk_statistic s). let st = snk_statistic t ! i; mine = received_of (int i) ms
       in st_data_frames st = st_data_frames (snk_statistic s ! i) + of_nat (length (media_of fst mine)) \<and>
          st_data_bytes st = st_data_bytes (snk_statistic s ! i) + of_nat (sum_list (map (fst \<circ> snd) (media_of fst mine))) \<and>
          st_key_frames st = st_key_frames (snk_statistic s ! i) + of_nat (length (keys_of fst mine)))"
  using deliver_spec [OF assms(1,2,4)] assms(3)
  by (auto simp: Let_def rcv_cnt.run_frames rcv_cnt.run_bytes rcv_cnt.run_key_frames comp_def)


definition demo_meta_rep :: ProtoMetaRep where
  "demo_meta_rep = \<lparr>pm_play_type = STREAM_PLAY_TYPE_LIVE, pm_source_proto = ''rtsp'', pm_stream_len = 0,
     pm_ssrc = 7, pm_bps = 0, pm_sub_streams =
       [new_ProtoSubStreamInfo\<lparr>pi_height := 720\<rparr>,
        new_ProtoSubStreamInfo\<lparr>pi_index := 1, pi_media_type := SUB_STREAM_MEIDA_TYPE_AUDIO\<rparr>]\<rparr>"

definition demo_rx :: "wire StreamSink" where
  "demo_rx = apply_meta_rep demo_meta_rep demo_sink"

definition demo_sink_env :: "wire sink_env" where
  "demo_sink_env = \<lparr>ke_codec = wire_codec, ke_user = (\<lambda>n ud m b s. s), ke_zclock_mono = 0,
     ke_hb_poll = Hb_Nothing, ke_req_new = True\<rparr>"

definition demo_msgs :: "(ProtoMediaFrameMsg \<times> blob) list" where
  "demo_msgs =
     [(\<lparr>mf_stream_index = 0, mf_sec = 1, mf_usec = 0, mf_frame_type = MEDIA_FRAME_TYPE_KEY_FRAME, mf_ssrc = 7, mf_seq = 1\<rparr>, Some ''abc''),
      (\<lparr>mf_stream_index = 0, mf_sec = 2, mf_usec = 0, mf_frame_type = MEDIA_FRAME_TYPE_DATA_FRAME, mf_ssrc = 7, mf_seq = 4\<rparr>, Some ''d'')]"

lemma demo_rx_simps:
  "codec_ok (ke_codec demo_sink_env)" "receives_media demo_rx" "snk_listener demo_rx"
  "length (snk_statistic demo_rx) = 2" "sm_ssrc (snk_stream_meta demo_rx) = 7"
  "length (sm_sub_streams (snk_stream_meta demo_rx)) = 2" "snk_last_frame_ssrc demo_rx = 0"
  by (simp_all add: demo_sink_env_def demo_rx_def apply_meta_rep_def demo_meta_rep_def demo_sink_defs
      receives_media_def new_StreamMetadata_def)

lemma demo_rx_stat: "snk_statistic demo_rx ! 0 = new_SubStreamMediaStatistic"
  by (simp add: demo_rx_def apply_meta_rep_def demo_meta_rep_def demo_sink_defs new_StreamMetadata_def upt_rec
      sub_stream_of_proto_def new_ProtoSubStreamInfo_def new_SubStreamMetadata_def new_SubStreamMediaStatistic_def)

lemma demo_msgs_ok: "list_all (\<lambda>(m, d). msg_ok demo_rx m) demo_msgs"
  by (simp add: demo_msgs_def msg_ok_def demo_rx_simps)

theorem sink_frames_delivered_witness:
  "\<exists>t. deliver demo_sink_env (map (\<lambda>(m, d). media_pub (ke_codec demo_sink_env) m d) demo_msgs) demo_rx = Ret t \<and>
     st_data_frames (snk_statistic t ! 0) = 2 \<and> st_data_bytes (snk_statistic t ! 0) = 4"
proof -
  from sink_frames_delivered [OF demo_rx_simps(1-3) demo_msgs_ok] obtain t where
    t: "deliver demo_sink_env (map (\<lambda>(m, d). media_pub (ke_codec demo_sink_env) m d) demo_msgs) demo_rx = Ret t"
    and st: "\<forall>i < 2. let st = snk_statistic t ! i; mine = received_of (int i) demo_msgs
       in st_data_frames st = st_data_frames (snk_statistic demo_rx ! i) + of_nat (length (media_of fst mine)) \<and>
          st_data_bytes st = st_data_bytes (snk_statistic demo_rx ! i) + of_nat (sum_list (map (fst \<circ> snd) (media_of fst mine))) \<and>
          st_key_frames st = st_key_frames (snk_statistic demo_rx ! i) + of_nat (length (keys_of fst mine))"
    by (auto simp: demo_rx_simps)
  from st [rule_format, of 0] have "st_data_frames (snk_statistic t ! 0) = 2 \<and> st_data_bytes (snk_statistic t ! 0) = 4"
    by (simp add: Let_def demo_rx_stat demo_msgs_def received_of_def media_of_def is_media_def blob_size_def
        new_SubStreamMediaStatistic_def)
  with t show ?thesis by blast
qed

text \<open>Frames with a foreign ssrc never reach the listener as frames and never change a counter;
  a run of frames with the same foreign ssrc is reported to the listener exactly once.\<close>

theorem sink_mismatch_once:
  assumes "codec_ok (ke_codec E)" "receives_media s" "snk_listener s" "ms \<noteq> []"
    and "x \<noteq> sm_ssrc (snk_stream_meta s)" "x \<noteq> snk_last_frame_ssrc s" "\<forall>(m, d) \<in> set ms. mf_ssrc m = x"
  shows "deliver E (map (\<lambda>(m, d). media_pub (ke_codec E) m d) ms) s =
    Ret (s\<lparr>snk_last_frame_ssrc := x, snk_calls := snk_calls s @ [OnMetadataMismatch x]\<rparr>)"
proof -
  have quiet: "deliver E (map (\<lambda>(m, d). media_pub (ke_codec E) m d) ns) u = Ret u"
    if "receives_media u" "snk_last_frame_ssrc u = x" "x \<noteq> sm_ssrc (snk_stream_meta u)"
      "\<forall>(m, d) \<in> set ns. mf_ssrc m = x" for ns u
    using that
  proof (induction ns)
    case (Cons md ns)
    then show ?case
      by (auto simp: OnSubRead_media [OF assms(1)] MediaFrameHandler_def message_packet_def
          codec_okD(6) [OF assms(1)] frame_info_of_def Let_def)
  qed simp
  obtain m d ns where ms: "ms = (m, d) # ns" using assms(4) by (cases ms) auto
  let ?u = "s\<lparr>snk_last_frame_ssrc := x, snk_calls := snk_calls s @ [OnMetadataMismatch x]\<rparr>"
  have "mf_ssrc m = x" using assms(7) ms by simp
  then have "OnSubRead E (Sub_Full (media_pub (ke_codec E) m d)) s = Ret ?u"
    using assms(3,5,6)
    by (auto simp: OnSubRead_media [OF assms(1,2)] MediaFrameHandler_def message_packet_def
        codec_okD(6) [OF assms(1)] frame_info_of_def Let_def listener_call_def)
  moreover have "receives_media ?u" using assms(2) by (simp add: receives_media_def)
  ultimately show ?thesis using quiet [of ?u ns] assms(5,7) by (simp add: ms)
qed

theorem sink_mismatch_once_witness:
  "deliver demo_sink_env (map (\<lambda>(m, d). media_pub (ke_codec demo_sink_env) m d)
      (map (\<lambda>(m, d). (m\<lparr>mf_ssrc := 8\<rparr>, d)) demo_msgs)) demo_rx =
    Ret (demo_rx\<lparr>snk_last_frame_ssrc := 8, snk_calls := snk_calls demo_rx @ [OnMetadataMismatch 8]\<rparr>)"
  by (rule sink_mismatch_once [OF demo_rx_simps(1-3)]) (auto simp: demo_msgs_def demo_rx_simps)


text \<open>A media frame whose ssrc matches leads to undefined behaviour exactly when it carries media
  data and its index lies between the number of counters and the number of sub streams of the
  metadata.\<close>

theorem media_frame_undefined_iff:
  assumes "codec_ok C" "mf_ssrc m = sm_ssrc (snk_stream_meta s)"
  shows "MediaFrameHandler C (message_packet C PROTO_PACKET_CODE_MEDIA (ser_media_frame C m)) d s = Undef \<longleftrightarrow>
    is_media (mf_frame_type m) \<and> int (length (snk_statistic s)) \<le> mf_stream_index m \<and>
    mf_stream_index m < int (length (sm_sub_streams (snk_stream_meta s)))"
  using assms(2)
  by (auto simp: MediaFrameHandler_def message_packet_def codec_okD(6) [OF assms(1)] frame_info_of_def Let_def)

text \<open>A second metadata update of the same sink, with the same reply.\<close>

definition demo_rx_twice :: "wire StreamSink" where
  "demo_rx_twice = apply_meta_rep demo_meta_rep demo_rx"

theorem media_frame_undefined_iff_witness:
  "MediaFrameHandler wire_codec (message_packet wire_codec PROTO_PACKET_CODE_MEDIA (ser_media_frame wire_codec
     ((fst (hd demo_msgs))\<lparr>mf_stream_index := 2\<rparr>))) None demo_rx_twice = Undef"
proof -
  have "sm_ssrc (snk_stream_meta demo_rx_twice) = 7" "length (snk_statistic demo_rx_twice) = 2"
    "length (sm_sub_streams (snk_stream_meta demo_rx_twice)) = 4"
    by (simp_all add: demo_rx_twice_def apply_meta_rep_def demo_rx_simps(6)) (simp_all add: demo_meta_rep_def)
  then show ?thesis
    using media_frame_undefined_iff [of wire_codec "(fst (hd demo_msgs))\<lparr>mf_stream_index := 2\<rparr>" demo_rx_twice None]
    by (simp add: demo_msgs_def is_media_def)
qed

section \<open>The client heartbeat\<close>

fun hb_run :: "('b sink_env \<times> int) list \<Rightarrow> 'b StreamSink \<Rightarrow> 'b StreamSink cpp" where
  "hb_run [] s = Ret s"
| "hb_run ((E, now) # ts) s = bind_cpp (Heartbeat_sink E now s) (hb_run ts)"

definition hb_packet :: "'b pb_codec \<Rightarrow> 'b StreamSink \<Rightarrow> 'b" where
  "hb_packet C s = ser_packet C ((request_packet C (snk_next_seq s) PROTO_PACKET_CODE_CLIENT_HEARTBEAT)
     \<lparr>pk_body := ser_heartbeat_req C (client_heartbeat_req (snk_client_info s))\<rparr>)"

definition hb_reply :: "'b pb_codec \<Rightarrow> 'b \<Rightarrow> int \<Rightarrow> bool" where
  "hb_reply C frame lease \<longleftrightarrow> (\<exists>reply rep. par_packet C frame = Some reply \<and>
     h_code (pk_header reply) = PROTO_PACKET_CODE_CLIENT_HEARTBEAT \<and>
     h_status (pk_header reply) = PROTO_PACKET_STATUS_OK \<and>
     h_type (pk_header reply) = PROTO_PACKET_TYPE_REPLY \<and>
     par_heartbeat_rep C (pk_body reply) = Some rep \<and> hr_lease rep = lease)"

lemma hb_run_append: "hb_run (xs @ ys) s = bind_cpp (hb_run xs s) (hb_run ys)"
proof (induction xs s rule: hb_run.induct)
  case (2 E now ts s)
  then show ?case by (cases "Heartbeat_sink E now s") simp_all
qed simp

lemma Heartbeat_sink_quiet:
  assumes "now \<noteq> 0" "snk_last_send_client_heartbeat_msec s = 0" "now < snk_next_send_client_heartbeat_msec s"
  shows "Heartbeat_sink E now s = Ret (s\<lparr>snk_last_heartbeat_time := now\<rparr>)"
  using assms by (simp add: Heartbeat_sink_def ClientHeartbeatHandler_sink_def check_heartbeat_reply_def
      send_heartbeat_req_def)

lemma Heartbeat_sink_waits:
  assumes "now \<noteq> 0" "snk_last_send_client_heartbeat_msec s \<noteq> 0" "ke_hb_poll E = Hb_Nothing"
    and "now < snk_last_send_client_heartbeat_msec s + STSW_RECEIVER_CLIENT_HEARTBEAT_TIMEOUT"
  shows "Heartbeat_sink E now s = Ret (s\<lparr>snk_last_heartbeat_time := now\<rparr>)"
  using assms by (simp add: Heartbeat_sink_def ClientHeartbeatHandler_sink_def check_heartbeat_reply_def
      send_heartbeat_req_def)

lemma Heartbeat_sink_sends:
  assumes "now \<noteq> 0" "snk_last_send_client_heartbeat_msec s = 0" "now \<ge> snk_next_send_client_heartbeat_msec s"
    and "snk_client_hearbeat_socket s = Some k"
  shows "Heartbeat_sink E now s = Ret (s\<lparr>snk_last_heartbeat_time := now, snk_next_seq := snk_next_seq s + 1,
    snk_hb_sent := snk_hb_sent s @ [hb_packet (ke_codec E) s],
    snk_last_send_client_heartbeat_msec := now, snk_next_send_client_heartbeat_msec := 0\<rparr>)"
  using assms by (simp add: Heartbeat_sink_def ClientHeartbeatHandler_sink_def check_heartbeat_reply_def
      send_heartbeat_req_def hb_packet_def Let_def)

lemma sdiv_3: "0 \<le> a \<Longrightarrow> a sdiv 3 = a div 3" for a :: int
  by (cases "a = 0") (simp_all add: signed_divide_int_def)

lemma Heartbeat_sink_reply:
  assumes "now \<noteq> 0" "snk_last_send_client_heartbeat_msec s = t0" "t0 \<noteq> 0"
    and "ke_hb_poll E = Hb_Frame f" "hb_reply (ke_codec E) f lease" "0 \<le> lease" "lease * 1000 < 2 ^ 31"
    and "now < t0 + lease * 1000 div 3"
  shows "Heartbeat_sink E now s = Ret (s\<lparr>snk_last_heartbeat_time := now,
    snk_next_send_client_heartbeat_msec := t0 + lease * 1000 div 3, snk_last_send_client_heartbeat_msec := 0\<rparr>)"
proof -
  have "heartbeat_reply_time (ke_codec E) f t0 now = Ret (t0 + lease * 1000 div 3)"
    using assms(5-7) by (auto simp: heartbeat_reply_time_def hb_reply_def sdiv_3)
  then show ?thesis
    using assms(1-4,8) by (simp add: Heartbeat_sink_def ClientHeartbeatHandler_sink_def check_heartbeat_reply_def
        send_heartbeat_req_def)
qed

lemma hb_run_stutter:
  assumes "\<forall>(E, n) \<in> set ts. \<forall>h. Heartbeat_sink E n (s\<lparr>snk_last_heartbeat_time := h\<rparr>) =
    Ret (s\<lparr>snk_last_heartbeat_time := n\<rparr>)"
  shows "\<exists>h. hb_run ts (s\<lparr>snk_last_heartbeat_time := h0\<rparr>) = Ret (s\<lparr>snk_last_heartbeat_time := h\<rparr>)"
  using assms
proof (induction ts arbitrary: h0)
  case (Cons En ts)
  obtain E n where En: "En = (E, n)" by (cases En)
  with Cons.prems have "Heartbeat_sink E n (s\<lparr>snk_last_heartbeat_time := h0\<rparr>) = Ret (s\<lparr>snk_last_heartbeat_time := n\<rparr>)"
    by auto
  with Cons.IH [of n] Cons.prems En show ?case by simp
qed auto

lemma hb_run_quiet:
  assumes "snk_last_send_client_heartbeat_msec s = 0" "\<forall>(E, n) \<in> set ts. n \<noteq> 0 \<and> n < snk_next_send_client_heartbeat_msec s"
  shows "\<exists>h. hb_run ts (s\<lparr>snk_last_heartbeat_time := h0\<rparr>) = Ret (s\<lparr>snk_last_heartbeat_time := h\<rparr>)"
  using assms by (intro hb_run_stutter) (auto simp: Heartbeat_sink_quiet)

lemma hb_run_waits:
  assumes "snk_last_send_client_heartbeat_msec s \<noteq> 0"
    and "\<forall>(E, n) \<in> set ts. n \<noteq> 0 \<and> ke_hb_poll E = Hb_Nothing \<and>
      n < snk_last_send_client_heartbeat_msec s + STSW_RECEIVER_CLIENT_HEARTBEAT_TIMEOUT"
  shows "\<exists>h. hb_run ts (s\<lparr>snk_last_heartbeat_time := h0\<rparr>) = Ret (s\<lparr>snk_last_heartbeat_time := h\<rparr>)"
  using assms by (intro hb_run_stutter) (auto simp: Heartbeat_sink_waits)

text \<open>C10: After a valid reply with a lease of \<open>L\<close> seconds to a request sent at \<open>t0\<close>, the sink keeps silent
  in all later turns before \<open>t0 + L * 1000 / 3\<close> and sends exactly one request, with the next sequence
  number, in the first turn at or after that time: three requests fit into one lease.\<close>

theorem heartbeat_period:
  assumes "snk_last_send_client_heartbeat_msec s = t0" "t0 \<noteq> 0" "snk_client_hearbeat_socket s \<noteq> None"
    and "ke_hb_poll E1 = Hb_Frame f" "hb_reply (ke_codec E1) f L" "0 \<le> L" "L * 1000 < 2 ^ 31"
    and "\<forall>(E, n) \<in> set ((E1, n1) # ts). n \<noteq> 0 \<and> n < t0 + L * 1000 div 3"
    and "n2 \<noteq> 0" "t0 + L * 1000 div 3 \<le> n2"
  shows "\<exists>t. hb_run ((E1, n1) # ts) s = Ret t \<and> snk_hb_sent t = snk_hb_sent s \<and>
    (\<exists>u. Heartbeat_sink E2 n2 t = Ret u \<and> snk_hb_sent u = snk_hb_sent s @ [hb_packet (ke_codec E2) s] \<and>
         snk_next_seq u = snk_next_seq s + 1 \<and> snk_last_send_client_heartbeat_msec u = n2)"
proof -
  let ?r = "s\<lparr>snk_next_send_client_heartbeat_msec := t0 + L * 1000 div 3, snk_last_send_client_heartbeat_msec := 0\<rparr>"
  have first: "Heartbeat_sink E1 n1 s = Ret (?r\<lparr>snk_last_heartbeat_time := n1\<rparr>)"
    using assms(8) by (subst Heartbeat_sink_reply [OF _ assms(1,2,4-7)]) auto
  obtain h where "hb_run ts (?r\<lparr>snk_last_heartbeat_time := n1\<rparr>) = Ret (?r\<lparr>snk_last_heartbeat_time := h\<rparr>)"
    using hb_run_quiet [of ?r ts n1] assms(8) by auto
  then have "hb_run ((E1, n1) # ts) s = Ret (?r\<lparr>snk_last_heartbeat_time := h\<rparr>)" by (simp add: first)
  moreover obtain k where "snk_client_hearbeat_socket s = Some k" using assms(3) by auto
  ultimately show ?thesis
    using assms(9,10) by (simp add: Heartbeat_sink_sends hb_packet_def)
qed

text \<open>Without a reply the sink stays silent for 3 seconds after a request; the first turn after that
  drops the socket, opens a new one to the source's address and sends exactly one new request with
  the next sequence number.\<close>

theorem heartbeat_resend:
  assumes "snk_last_send_client_heartbeat_msec s = t0" "t0 \<noteq> 0"
    and "\<forall>(E, n) \<in> set ts. n \<noteq> 0 \<and> ke_hb_poll E = Hb_Nothing \<and> n < t0 + 3000"
    and "n2 \<noteq> 0" "t0 + 3000 \<le> n2" "0 \<le> n2" "ke_hb_poll E2 = Hb_Nothing" "ke_req_new E2"
  shows "\<exists>t u. hb_run ts s = Ret t \<and> snk_hb_sent t = snk_hb_sent s \<and> Heartbeat_sink E2 n2 t = Ret u \<and>
    snk_hb_sent u = snk_hb_sent s @ [hb_packet (ke_codec E2) s] \<and> snk_next_seq u = snk_next_seq s + 1 \<and>
    snk_client_hearbeat_socket u = Some (new_req (snk_api_addr s)) \<and> snk_last_send_client_heartbeat_msec u = n2"
proof -
  obtain h where h: "hb_run ts s = Ret (s\<lparr>snk_last_heartbeat_time := h\<rparr>)"
    using hb_run_waits [of s ts "snk_last_heartbeat_time s"] assms(1-3) by auto
  have "Heartbeat_sink E2 n2 (s\<lparr>snk_last_heartbeat_time := h\<rparr>) = Ret (s\<lparr>snk_last_heartbeat_time := n2,
    snk_client_hearbeat_socket := Some (new_req (snk_api_addr s)), snk_next_seq := snk_next_seq s + 1,
    snk_hb_sent := snk_hb_sent s @ [hb_packet (ke_codec E2) s],
    snk_last_send_client_heartbeat_msec := n2, snk_next_send_client_heartbeat_msec := 0\<rparr>)"
    using assms by (simp add: Heartbeat_sink_def ClientHeartbeatHandler_sink_def check_heartbeat_reply_def
        send_heartbeat_req_def hb_packet_def Let_def)
  with h show ?thesis by simp
qed

definition demo_hb_env :: "wire hb_poll \<Rightarrow> wire sink_env" where
  "demo_hb_env p = demo_sink_env\<lparr>ke_hb_poll := p\<rparr>"

definition demo_hb_reply :: wire where
  "demo_hb_reply = ser_packet wire_codec ((reply_to wire_codec
     (request_packet wire_codec 1 PROTO_PACKET_CODE_CLIENT_HEARTBEAT) PROTO_PACKET_STATUS_OK [])
       \<lparr>pk_body := W_HeartbeatRep \<lparr>hr_lease = 15, hr_timestamp = 0\<rparr>\<rparr>)"

definition demo_waiting :: "wire StreamSink" where
  "demo_waiting = demo_rx\<lparr>snk_last_send_client_heartbeat_msec := 1000\<rparr>"

lemma demo_waiting_simps:
  "snk_last_send_client_heartbeat_msec demo_waiting = 1000" "snk_client_hearbeat_socket demo_waiting \<noteq> None"
  by (simp_all add: demo_waiting_def demo_rx_def apply_meta_rep_def demo_sink_defs)

theorem heartbeat_period_witness:
  "\<exists>t. hb_run [(demo_hb_env (Hb_Frame demo_hb_reply), 1500), (demo_hb_env Hb_Nothing, 5500)] demo_waiting = Ret t \<and>
     (\<exists>u. Heartbeat_sink (demo_hb_env Hb_Nothing) 6000 t = Ret u \<and> snk_last_send_client_heartbeat_msec u = 6000)"
proof -
  have "hb_reply (ke_codec (demo_hb_env (Hb_Frame demo_hb_reply))) demo_hb_reply 15"
    by (simp add: hb_reply_def demo_hb_env_def demo_hb_reply_def demo_sink_env_def codec_okD(1))
      (simp add: wire_codec_def)
  with heartbeat_period [of demo_waiting 1000 "demo_hb_env (Hb_Frame demo_hb_reply)" demo_hb_reply 15 1500
      "[(demo_hb_env Hb_Nothing, 5500)]" 6000 "demo_hb_env Hb_Nothing"] demo_waiting_simps
  show ?thesis by (fastforce simp: demo_hb_env_def)
qed

theorem heartbeat_resend_witness:
  "\<exists>t u. hb_run [(demo_hb_env Hb_Nothing, 1500), (demo_hb_env Hb_Nothing, 3500)] demo_waiting = Ret t \<and>
     Heartbeat_sink (demo_hb_env Hb_Nothing) 4000 t = Ret u \<and> snk_last_send_client_heartbeat_msec u = 4000"
  using heartbeat_resend [of demo_waiting 1000 "[(demo_hb_env Hb_Nothing, 1500), (demo_hb_env Hb_Nothing, 3500)]"
      4000 "demo_hb_env Hb_Nothing"] demo_waiting_simps
  by (fastforce simp: demo_hb_env_def demo_sink_env_def)


section \<open>Requests\<close>

definition rpc_socket :: "'b rpc_env \<Rightarrow> 'b StreamSink \<Rightarrow> zsock option" where
  "rpc_socket R s = (case snk_last_api_socket s of Some k \<Rightarrow> Some k
     | None \<Rightarrow> if re_req_new R then Some (new_req (snk_api_addr s)) else None)"

definition rpc_answer :: "'b rpc_env \<Rightarrow> zsock \<Rightarrow> 'b ProtoCommonPacket \<Rightarrow> blob \<Rightarrow> int \<Rightarrow> 'b net_result" where
  "rpc_answer R sock request b timeout =
     re_net R (sk_endpoint sock) \<lparr>am_packet = ser_packet (re_codec R) request, am_blob = blob_part b\<rparr> timeout"

definition reply_matches :: "'b ProtoCommonPacket \<Rightarrow> 'b ProtoCommonPacket \<Rightarrow> bool" where
  "reply_matches request reply \<longleftrightarrow> h_type (pk_header reply) = PROTO_PACKET_TYPE_REPLY \<and>
     h_seq (pk_header reply) = h_seq (pk_header request) \<and> h_code (pk_header reply) = h_code (pk_header request)"

lemma SendRpcRequest_answered:
  assumes "0 \<le> timeout" "h_type (pk_header request) = PROTO_PACKET_TYPE_REQUEST" "IsInit_sink s"
    and "rpc_socket R s = Some sock" "re_serialize R"
  shows "SendRpcRequest R request b timeout s =
    (let t = re_meanwhile R (s\<lparr>snk_last_api_socket := None\<rparr>)
     in case rpc_answer R sock request b timeout of
          Net_Timeout \<Rightarrow> (ERROR_CODE_TIMEOUT, None, t)
        | Net_Interrupted \<Rightarrow> (0, None, t)
        | Net_NoFrame \<Rightarrow> (0, None, t)
        | Net_Reply m \<Rightarrow>
            (case par_packet (re_codec R) (am_packet m) of
               None \<Rightarrow> (ERROR_CODE_GENERAL, None, t)
             | Some reply \<Rightarrow>
                 if reply_matches request reply
                 then (0, Some \<lparr>rr_reply = reply, rr_blob = am_blob m\<rparr>, cache_api_socket sock t)
                 else (ERROR_CODE_GENERAL, None, cache_api_socket sock t)))"
  using assms
  by (auto simp: SendRpcRequest_def rpc_socket_def rpc_answer_def Let_def reply_matches_def
      split: option.splits net_result.splits)

text \<open>A request hands out a reply only if the network delivered a packet of type reply with the
  sequence number and the code of the request; and the socket is kept for the next request only
  when a packet was read from it, so no later request can read a late answer to this one.\<close>

theorem rpc_reply_checked:
  assumes "SendRpcRequest R request b timeout s = (ret, result, t)"
  shows "(\<forall>r. result = Some r \<longrightarrow> ret = 0 \<and> reply_matches request (rr_reply r) \<and>
      (\<exists>sock m. rpc_socket R s = Some sock \<and> rpc_answer R sock request b timeout = Net_Reply m \<and>
         par_packet (re_codec R) (am_packet m) = Some (rr_reply r))) \<and>
    (t = s \<or> t = s\<lparr>snk_last_api_socket := None\<rparr> \<or>
     t = re_meanwhile R (s\<lparr>snk_last_api_socket := None\<rparr>) \<or>
     (\<exists>sock m reply. rpc_socket R s = Some sock \<and> rpc_answer R sock request b timeout = Net_Reply m \<and>
        par_packet (re_codec R) (am_packet m) = Some reply \<and>
        t = cache_api_socket sock (re_meanwhile R (s\<lparr>snk_last_api_socket := None\<rparr>))))"
proof (cases "0 \<le> timeout \<and> h_type (pk_header request) = PROTO_PACKET_TYPE_REQUEST \<and> IsInit_sink s")
  case False
  then have "SendRpcRequest R request b timeout s = (ERROR_CODE_PARAM, None, s)"
    by (auto simp: SendRpcRequest_def)
  then show ?thesis using assms by simp
next
  case pre: True
  show ?thesis
  proof (cases "rpc_socket R s")
    case None
    then have "SendRpcRequest R request b timeout s = (ERROR_CODE_SYSTEM, None, s\<lparr>snk_last_api_socket := None\<rparr>)"
      using pre by (auto simp: SendRpcRequest_def rpc_socket_def Let_def split: option.splits)
    then show ?thesis using assms by simp
  next
    case (Some sock)
    show ?thesis
    proof (cases "re_serialize R")
      case False
      then have "SendRpcRequest R request b timeout s = (ERROR_CODE_SYSTEM, None, s\<lparr>snk_last_api_socket := None\<rparr>)"
        using pre Some by (auto simp: SendRpcRequest_def rpc_socket_def Let_def split: option.splits)
      then show ?thesis using assms by simp
    next
      case True
      from pre assms show ?thesis
        by (auto simp: Some SendRpcRequest_answered [OF _ _ _ Some True] Let_def
            split: net_result.splits option.splits if_splits)
    qed
  qed
qed

definition demo_rpc_env :: "wire net_result \<Rightarrow> wire rpc_env" where
  "demo_rpc_env n = \<lparr>re_codec = wire_codec, re_req_new = True, re_serialize = True,
     re_net = (\<lambda>addr m timeout. n), re_meanwhile = (\<lambda>s. s)\<rparr>"

definition demo_request :: "wire ProtoCommonPacket" where
  "demo_request = request_packet wire_codec 1 PROTO_PACKET_CODE_KEY_FRAME"

definition demo_key_reply :: "wire api_msg" where
  "demo_key_reply = \<lparr>am_packet = ser_packet wire_codec (reply_to wire_codec demo_request PROTO_PACKET_STATUS_OK []),
     am_blob = None\<rparr>"

lemma demo_rx_init: "IsInit_sink demo_rx" "\<not> IsStarted_sink demo_rx" "snk_last_api_socket demo_rx = None" "snk_next_seq demo_rx = 1"
  by (simp_all add: demo_rx_def apply_meta_rep_def demo_sink_defs flag_on_def)

theorem rpc_reply_checked_witness:
  "\<exists>r t. SendRpcRequest (demo_rpc_env (Net_Reply demo_key_reply)) demo_request None 1000 demo_rx = (0, Some r, t) \<and>
     reply_matches demo_request (rr_reply r)"
proof -
  have "SendRpcRequest (demo_rpc_env (Net_Reply demo_key_reply)) demo_request None 1000 demo_rx =
    (0, Some \<lparr>rr_reply = reply_to wire_codec demo_request PROTO_PACKET_STATUS_OK [], rr_blob = None\<rparr>,
     cache_api_socket (new_req (snk_api_addr demo_rx)) (demo_rx\<lparr>snk_last_api_socket := None\<rparr>))"
    by (subst SendRpcRequest_answered [where sock = "new_req (snk_api_addr demo_rx)"])
      (simp_all add: demo_rx_init rpc_socket_def rpc_answer_def demo_rpc_env_def demo_key_reply_def codec_okD(1)
        reply_matches_def demo_request_def)
  then show ?thesis using rpc_reply_checked [of "demo_rpc_env (Net_Reply demo_key_reply)" demo_request None 1000 demo_rx]
    by fastforce
qed

text \<open>When receiving the reply is interrupted, \<open>SendRpcRequest\<close> reports success without a result, and
  every operation of the sink that sends a request dereferences a null pointer.\<close>

theorem rpc_interrupted_undefined:
  assumes "0 \<le> timeout" "IsInit_sink s" "rpc_socket R s \<noteq> None" "re_serialize R"
    and "\<And>addr m. re_net R addr m timeout = Net_Interrupted"
  shows "KeyFrame R timeout s = Undef \<and> SourceStatistic R timeout (Some st) s = Undef \<and>
    ClientList R timeout i n tot cs s = Undef \<and> (\<not> IsStarted_sink s \<longrightarrow> UpdateStreamMetaData R timeout s = Undef)"
proof -
  let ?s = "s\<lparr>snk_next_seq := snk_next_seq s + 1\<rparr>"
  have "rpc_socket R ?s = rpc_socket R s" by (cases "snk_last_api_socket s") (simp_all add: rpc_socket_def)
  then obtain sock where "rpc_socket R ?s = Some sock" using assms(3) by auto
  moreover have "IsInit_sink ?s" using assms(2) by (simp add: snk_flag_defs)
  ultimately have "rpc_call R q timeout ?s = Undef" if "h_type (pk_header q) = PROTO_PACKET_TYPE_REQUEST" for q
    using assms(1,4,5) that
    by (simp add: rpc_call_def SendRpcRequest_answered rpc_answer_def Let_def)
  then show ?thesis
    by (simp add: KeyFrame_def SourceStatistic_def ClientList_def UpdateStreamMetaData_def GetNextSeq_def Let_def)
qed

theorem rpc_interrupted_undefined_witness:
  "KeyFrame (demo_rpc_env Net_Interrupted) 1000 demo_rx = Undef"
  using rpc_interrupted_undefined [of 1000 demo_rx "demo_rpc_env Net_Interrupted"]
  by (simp add: demo_rx_init rpc_socket_def demo_rpc_env_def)


section \<open>Subscriptions and life cycle\<close>

lemma subsribe_keys_set: "set (subsribe_keys m) = sh_channel_name ` snd ` set m"
proof -
  have "fst ` set (fold (\<lambda>(op_code, e). omap_put (sh_channel_name e) ()) m acc) =
      fst ` set acc \<union> sh_channel_name ` snd ` set m" for acc
    by (induction m arbitrary: acc) (auto simp: keys_omap_put split_beta)
  then show ?thesis by (simp add: subsribe_keys_def)
qed

lemma subsribe_keys_sorted: "sorted_wrt (<) (subsribe_keys m)"
proof -
  have "omap_inv (fold (\<lambda>(op_code, e). omap_put (sh_channel_name e) ()) m acc)" if "omap_inv acc" for acc
    using that by (induction m arbitrary: acc) (auto simp: omap_inv_put split_beta)
  from this [OF omap_inv_Nil] show ?thesis by (simp add: subsribe_keys_def omap_inv_def)
qed

text \<open>A subscriber socket that the sink creates is attached to the source's publish address and
  subscribes exactly to the channels of the registered handlers, each of them once.\<close>

theorem subscriber_channels:
  assumes "CreateSubscriberSocket sub_new sub_attach s = (r, t)" "snk_subscriber_socket s = None" "r = 0"
    and "\<forall>(op, e) \<in> set (snk_subsriber_handler_map s). CHR 0x00 \<notin> set (sh_channel_name e)"
  shows "\<exists>k. snk_subscriber_socket t = Some k \<and> sk_endpoint k = c_str (snk_subscriber_addr s) \<and>
    sk_hwm k = Some (snk_sub_queue_size s) \<and> distinct (sk_subscribe k) \<and>
    set (sk_subscribe k) = {sh_channel_name e |op e. (op, e) \<in> set (snk_subsriber_handler_map s)}"
proof -
  have keys: "set (subsribe_keys (snk_subsriber_handler_map s)) =
      {sh_channel_name e |op e. (op, e) \<in> set (snk_subsriber_handler_map s)}"
    by (auto simp: subsribe_keys_set image_def) (metis snd_conv)
  have "map c_str (subsribe_keys (snk_subsriber_handler_map s)) = subsribe_keys (snk_subsriber_handler_map s)"
    by (rule map_idI) (use assms(4) in \<open>auto simp: keys c_str_id\<close>)
  moreover have "distinct (subsribe_keys (snk_subsriber_handler_map s))"
    using subsribe_keys_sorted strict_sorted_iff by blast
  ultimately show ?thesis
    using assms(1-3) keys by (auto simp: CreateSubscriberSocket_def error_code_defs new_zsock_def split: if_splits)
qed

theorem subscriber_channels_witness:
  "\<exists>k. snk_subscriber_socket (snd (CreateSubscriberSocket True 0 (demo_sink\<lparr>snk_subscriber_socket := None\<rparr>))) = Some k \<and>
     set (sk_subscribe k) = {STSW_PUBLISH_MEDIA_CHANNEL}"
proof -
  let ?s = "demo_sink\<lparr>snk_subscriber_socket := None\<rparr>"
  have m: "snk_subsriber_handler_map ?s = [(PROTO_PACKET_CODE_MEDIA, \<lparr>sh_handler = StaticMediaFrameHandler,
      sh_channel_name = STSW_PUBLISH_MEDIA_CHANNEL, sh_user_data = This\<rparr>)]"
    by (simp add: demo_sink_defs)
  have r: "CreateSubscriberSocket True 0 ?s = (0, snd (CreateSubscriberSocket True 0 ?s))"
    by (simp add: CreateSubscriberSocket_def)
  have "\<forall>(op, e) \<in> set (snk_subsriber_handler_map ?s). CHR 0x00 \<notin> set (sh_channel_name e)"
    unfolding m by (simp add: STSW_PUBLISH_MEDIA_CHANNEL_def)
  from subscriber_channels [OF r _ _ this] show ?thesis
    by (auto simp: m simp del: StreamSink.update_convs)
qed

text \<open>A handler that is registered between \<open>InitLocal\<close> or \<open>InitRemote\<close> and \<open>Start\<close> is not
  subscribed: the subscriber socket exists since the initialisation, and \<open>Start\<close> keeps it.\<close>

theorem late_handler_not_subscribed:
  assumes "InitLocal ie name c q l d new_StreamSink = (0, s)"
  shows "snk_subscriber_socket (snd (Start_sink n a (Some tid) (RegisterSubHandler op ch h ud s))) =
      snk_subscriber_socket s \<and> map_option sk_subscribe (snk_subscriber_socket s) = Some [STSW_PUBLISH_MEDIA_CHANNEL]"
proof -
  have "map_option sk_subscribe (snk_subscriber_socket s) = Some [STSW_PUBLISH_MEDIA_CHANNEL]"
    using assms
    by (auto simp: InitLocal_def init_addrs_def InitBase_def snprintf_def Let_def CreateSubscriberSocket_def
        RegisterSubHandler_def snk_flag_defs new_StreamSink_def subsribe_keys_def error_code_defs
        split: if_splits)
  then show ?thesis
    by (auto simp: Start_sink_def CreateSubscriberSocket_def RegisterSubHandler_def snk_flag_defs Let_def)
qed

theorem late_handler_not_subscribed_witness:
  "map_option sk_subscribe (snk_subscriber_socket (snd (Start_sink True 0 (Some 1)
     (RegisterSubHandler PROTO_PACKET_CODE_STREAM_INFO STSW_PUBLISH_INFO_CHANNEL (UserSubHandler 0) (Ptr 0) demo_sink))))
   = Some [STSW_PUBLISH_MEDIA_CHANNEL]"
proof -
  have "InitLocal demo_sink_init_env ''cam'' demo_info 250 True 0 new_StreamSink = (0, demo_sink)"
    by (simp add: demo_sink_defs prod_eq_iff)
  from late_handler_not_subscribed [OF this] show ?thesis by simp
qed

text \<open>Initialising a sink a second time fails and erases the addresses of the running sink, so its
  next request on a new socket has no address.\<close>

theorem init_twice_clears_addresses:
  assumes "IsInit_sink s" "name \<noteq> []"
  shows "fst (InitLocal ie name c q l d s) \<noteq> 0 \<and> snd (InitLocal ie name c q l d s) =
    s\<lparr>snk_api_addr := [], snk_subscriber_addr := []\<rparr>"
  using assms by (simp add: InitLocal_def init_addrs_def snprintf_def Let_def InitBase_def snk_flag_defs
      error_code_defs)

theorem init_twice_clears_addresses_witness:
  "snk_api_addr demo_sink = ''>ipc://@stsw_stream/cam/api'' \<and>
   snk_api_addr (snd (InitLocal demo_sink_init_env ''cam'' demo_info 250 True 0 demo_sink)) = []"
proof -
  have "IsInit_sink demo_sink" "snk_api_addr demo_sink = ''>ipc://@stsw_stream/cam/api''"
    by (simp_all add: demo_sink_defs flag_on_def)
  with init_twice_clears_addresses [of demo_sink "''cam''" demo_sink_init_env demo_info 250 True 0]
  show ?thesis by simp
qed


text \<open>The subscriber socket that \<open>InitLocal\<close> creates on a new sink has the default queue length,
  whatever the caller asks for: the requested length is stored after the socket is made.\<close>

theorem init_ignores_queue_size:
  assumes "InitLocal ie name c q l d new_StreamSink = (0, s)"
  shows "map_option sk_hwm (snk_subscriber_socket s) = Some (Some STSW_SUBSCRIBE_SOCKET_HWM) \<and> snk_sub_queue_size s = q"
  using assms
  by (auto simp: InitLocal_def init_addrs_def InitBase_def snprintf_def Let_def CreateSubscriberSocket_def
      RegisterSubHandler_def snk_flag_defs new_StreamSink_def error_code_defs split: if_splits)

theorem init_ignores_queue_size_witness:
  "map_option sk_hwm (snk_subscriber_socket (snd (InitLocal demo_sink_init_env ''cam'' demo_info 1000 True 0 (new_StreamSink :: wire StreamSink))))
     = Some (Some STSW_SUBSCRIBE_SOCKET_HWM)"
proof -
  have "InitLocal demo_sink_init_env ''cam'' demo_info 1000 True 0 (new_StreamSink :: wire StreamSink) =
      (0, snd (InitLocal demo_sink_init_env ''cam'' demo_info 1000 True 0 (new_StreamSink :: wire StreamSink)))"
    by (simp add: demo_sink_defs prod_eq_iff)
  from init_ignores_queue_size [OF this] show ?thesis by blast
qed

lemma InitBase_outcome:
  assumes "\<not> IsInit_sink s" "\<not> IsStarted_sink s" "snk_subscriber_socket s = None" "snk_last_api_socket s = None"
    and "\<not> snk_lock s" "snk_notify_socket s = None" "snk_client_hearbeat_socket s = None"
    and "omap_inv (snk_subsriber_handler_map s)" "InitBase ie c q l d s = (r, t)"
  shows "if r = 0 then IsInit_sink t \<and> snk_subscriber_socket t \<noteq> None \<and> snk_client_hearbeat_socket t \<noteq> None \<and>
      snk_notify_socket t \<noteq> None \<and> receives_media t \<and>
      snk_api_addr t = snk_api_addr s \<and> snk_subscriber_addr t = snk_subscriber_addr s
    else \<not> IsInit_sink t \<and> \<not> snk_lock t \<and> snk_client_hearbeat_socket t = None \<and> snk_subscriber_socket t = None \<and>
      snk_notify_socket t = None \<and> snk_last_api_socket t = None"
  using assms
  by (auto simp: InitBase_def Let_def CreateSubscriberSocket_def RegisterSubHandler_def UnregisterAllSubHandler_def
      snk_flag_defs error_code_defs receives_media_def omap.find_put split: if_splits)

text \<open>Initialising a sink is all or nothing. On success it has its sockets, its addresses and the
  media handler; on failure it is not initialised and keeps no lock, no socket and no address.\<close>

theorem sink_init_all_or_nothing:
  assumes "sink_inv s" "\<not> IsInit_sink s" "name \<noteq> []" "InitLocal ie name c q l d s = (r, t)"
  shows "if r = 0 then IsInit_sink t \<and> snk_subscriber_socket t \<noteq> None \<and> snk_client_hearbeat_socket t \<noteq> None \<and>
      snk_notify_socket t \<noteq> None \<and> receives_media t \<and>
      snk_api_addr t = take 254 (local_addr name STSW_SOCKET_NAME_STREAM_API) \<and>
      snk_subscriber_addr t = take 254 (local_addr name STSW_SOCKET_NAME_STREAM_PUBLISH)
    else \<not> IsInit_sink t \<and> \<not> snk_lock t \<and> snk_client_hearbeat_socket t = None \<and> snk_subscriber_socket t = None \<and>
      snk_notify_socket t = None \<and> snk_last_api_socket t = None \<and> snk_api_addr t = [] \<and> snk_subscriber_addr t = []"
proof -
  have idle: "\<not> IsStarted_sink s" "snk_subscriber_socket s = None" "snk_last_api_socket s = None" "\<not> snk_lock s"
    "snk_notify_socket s = None" "snk_client_hearbeat_socket s = None" "omap_inv (snk_subsriber_handler_map s)"
    using assms(1,2) by (auto simp: sink_inv_def sink_life_def life_ok_def)
  let ?a = "local_addr name STSW_SOCKET_NAME_STREAM_API" and ?b = "local_addr name STSW_SOCKET_NAME_STREAM_PUBLISH"
  let ?u = "s\<lparr>snk_api_addr := take 254 ?a, snk_subscriber_addr := take 254 ?b\<rparr>"
  obtain r' t' where rt: "InitBase ie c q l d ?u = (r', t')" by (cases "InitBase ie c q l d ?u")
  have u: "\<not> IsInit_sink ?u" "\<not> IsStarted_sink ?u" using assms(2) idle(1) by (simp_all add: snk_flag_defs)
  note out = InitBase_outcome [OF u _ _ _ _ _ _ rt]
  show ?thesis
    using assms(2-4) idle out rt
    by (auto simp: InitLocal_def init_addrs_def snprintf_def Let_def error_code_defs snk_flag_defs
        receives_media_def split: if_splits)
qed


theorem sink_init_all_or_nothing_witness:
  "receives_media demo_sink \<and>
   snk_api_addr (snd (InitLocal (demo_sink_init_env\<lparr>ke_sub_attach := -1\<rparr>) ''cam'' demo_info 250 True 0 (new_StreamSink :: wire StreamSink))) = []"
proof -
  have new: "\<not> IsInit_sink (new_StreamSink :: wire StreamSink)" by (simp add: new_StreamSink_def snk_flag_defs)
  have ok: "InitLocal demo_sink_init_env ''cam'' demo_info 250 True 0 new_StreamSink = (0, demo_sink)"
    by (simp add: demo_sink_defs prod_eq_iff)
  let ?e = "demo_sink_init_env\<lparr>ke_sub_attach := -1\<rparr>"
  have bad: "InitLocal ?e ''cam'' demo_info 250 True 0 (new_StreamSink :: wire StreamSink) =
      (ERROR_CODE_SYSTEM, snd (InitLocal ?e ''cam'' demo_info 250 True 0 (new_StreamSink :: wire StreamSink)))"
    by (simp add: demo_sink_defs prod_eq_iff error_code_defs)
  show ?thesis
    using sink_init_all_or_nothing [OF sink_inv_new new _ ok]
      sink_init_all_or_nothing [OF sink_inv_new new _ bad] by (simp add: error_code_defs)
qed

section \<open>Worker timer\<close>

interpretation snk_timer: periodic_timer 500 next_sink_heartbeat
  by unfold_locales (simp_all add: next_sink_heartbeat.simps Let_def)

end
