(* ===== verification/Stream_System.thy ===== *)
theory Stream_System
  imports Source_Properties Sink_Properties
begin

text \<open>
  A stream sink and a stream source that talk to each other. The network parameter of the sink's
  requests is instantiated by the model of the source: a request is read by \<open>OnApiSocketRead\<close>, and
  the reply is what that call sends. What the sink relies on is the locale \<open>rpc_service\<close>; the source
  is an interpretation of it. On top: round trips of the metadata, the statistic and the client
  list, the key frame request, the heartbeat, and the count of lost frames from end to end.
\<close>

section \<open>Requests from a sink to a source\<close>

definition source_answer :: "'b src_env \<times> 'b StreamSource \<Rightarrow> 'b api_msg \<Rightarrow> 'b net_result" where
  "source_answer x m =
     (let (E, s) = x; t = OnApiSocketRead E (Some m) s
      in if length (src_api_sent t) > length (src_api_sent s) then Net_Reply (last (src_api_sent t))
         else Net_Timeout)"

definition source_serves :: "'b src_env \<times> 'b StreamSource \<Rightarrow> int \<Rightarrow> bool" where
  "source_serves x code = (let (E, s) = x in codec_ok (se_codec E) \<and> IsInit s \<and>
     (case omap_find (src_api_handler_map s) code of None \<Rightarrow> False | Some e \<Rightarrow> is_builtin (ah_handler e)))"

definition source_reply :: "'b src_env \<times> 'b StreamSource \<Rightarrow> 'b ProtoCommonPacket \<Rightarrow> 'b ProtoCommonPacket" where
  "source_reply x r = (let (E, s) = x
     in builtin_reply E (ah_handler (the (omap_find (src_api_handler_map s) (h_code (pk_header r))))) r s)"

text \<open>A request environment whose network is the given service; other threads do not change the
  sink's metadata while a request waits.\<close>

definition connected :: "'b pb_codec \<Rightarrow> ('b api_msg \<Rightarrow> 'b net_result) \<Rightarrow> 'b rpc_env \<Rightarrow> bool" where
  "connected C answer R \<longleftrightarrow> re_codec R = C \<and> re_req_new R \<and> re_serialize R \<and>
     (\<forall>addr m timeout. re_net R addr m timeout = answer m) \<and>
     (\<forall>s. snk_stream_meta (re_meanwhile R s) = snk_stream_meta s)"

definition rpc_after :: "'b rpc_env \<Rightarrow> 'b StreamSink \<Rightarrow> 'b StreamSink" where
  "rpc_after R k = cache_api_socket (the (rpc_socket R k)) (re_meanwhile R (k\<lparr>snk_last_api_socket := None\<rparr>))"

locale rpc_service =
  fixes codec :: "'s \<Rightarrow> 'b pb_codec"
    and serves :: "'s \<Rightarrow> int \<Rightarrow> bool"
    and reply :: "'s \<Rightarrow> 'b ProtoCommonPacket \<Rightarrow> 'b ProtoCommonPacket"
    and answer :: "'s \<Rightarrow> 'b api_msg \<Rightarrow> 'b net_result"
  assumes serves_codec: "serves x code \<Longrightarrow> codec_ok (codec x)"
    and serves_answer: "serves x (h_code (pk_header r)) \<Longrightarrow>
      answer x \<lparr>am_packet = ser_packet (codec x) r, am_blob = None\<rparr> =
        Net_Reply \<lparr>am_packet = ser_packet (codec x) (reply x r), am_blob = None\<rparr>"
    and serves_matches: "serves x (h_code (pk_header r)) \<Longrightarrow> reply_matches r (reply x r)"
begin

lemma call_served:
  assumes "serves x (h_code (pk_header r))" "connected (codec x) (answer x) R" "0 \<le> timeout" "IsInit_sink k"
    and "h_type (pk_header r) = PROTO_PACKET_TYPE_REQUEST"
  shows "rpc_call R r timeout k =
    (if ReplyStatus2ErrorCode (reply x r) = 0 then Ret (0, Some (pk_body (reply x r)), rpc_after R k)
     else Ret (ReplyStatus2ErrorCode (reply x r), None, rpc_after R k))"
proof -
  have R: "re_codec R = codec x" "re_serialize R" "re_req_new R" "\<And>a m t. re_net R a m t = answer x m"
    using assms(2) by (simp_all add: connected_def)
  obtain sock where sock: "rpc_socket R k = Some sock"
    using R(3) by (cases "snk_last_api_socket k") (simp_all add: rpc_socket_def)
  have ans: "rpc_answer R sock r None timeout =
      Net_Reply \<lparr>am_packet = ser_packet (codec x) (reply x r), am_blob = None\<rparr>"
    using serves_answer [OF assms(1)] by (simp add: rpc_answer_def R blob_part_def)
  have "SendRpcRequest R r None timeout k = (0, Some \<lparr>rr_reply = reply x r, rr_blob = None\<rparr>, rpc_after R k)"
    using SendRpcRequest_answered [OF assms(3,5,4) sock R(2), of None] serves_matches [OF assms(1)]
      codec_okD(1) [OF serves_codec [OF assms(1)], of "reply x r"] sock
    by (simp add: ans R rpc_after_def Let_def)
  then show ?thesis by (simp add: rpc_call_def Let_def)
qed

end

lemma source_answer_builtin:
  assumes "codec_ok (se_codec E)" "IsInit s" "omap_find (src_api_handler_map s) (h_code (pk_header r)) = Some e"
    "is_builtin (ah_handler e)"
  shows "source_answer (E, s) \<lparr>am_packet = ser_packet (se_codec E) r, am_blob = None\<rparr> =
    Net_Reply \<lparr>am_packet = ser_packet (se_codec E) (builtin_reply E (ah_handler e) r s), am_blob = None\<rparr>"
  using OnRpcRequest_builtin [OF assms(2-4), of E None]
  by (simp add: source_answer_def OnApiSocketRead_def codec_okD(1) [OF assms(1)] blob_part_def)

interpretation src_rpc: rpc_service "\<lambda>(E, s). se_codec E" source_serves source_reply source_answer
proof
  fix x :: "'b src_env \<times> 'b StreamSource" and code :: int and r :: "'b ProtoCommonPacket"
  obtain E s where x: "x = (E, s)" by (cases x)
  show "source_serves x code \<Longrightarrow> codec_ok (case x of (E, s) \<Rightarrow> se_codec E)"
    by (simp add: x source_serves_def)
  assume "source_serves x (h_code (pk_header r))"
  then obtain e where e: "codec_ok (se_codec E)" "IsInit s"
    "omap_find (src_api_handler_map s) (h_code (pk_header r)) = Some e" "is_builtin (ah_handler e)"
    by (auto simp: x source_serves_def split: option.splits)
  show "source_answer x \<lparr>am_packet = ser_packet (case x of (E, s) \<Rightarrow> se_codec E) r, am_blob = None\<rparr> =
      Net_Reply \<lparr>am_packet = ser_packet (case x of (E, s) \<Rightarrow> se_codec E) (source_reply x r), am_blob = None\<rparr>"
    using source_answer_builtin [OF e] e(3) by (simp add: x source_reply_def)
  show "reply_matches r (source_reply x r)"
    using builtin_reply_header [OF e(4), of E r s] e(3) by (simp add: x source_reply_def reply_matches_def)
qed

text \<open>The service of a source that has its built-in handlers.\<close>

definition has_builtin :: "'b src_env \<Rightarrow> 'b StreamSource \<Rightarrow> bool" where
  "has_builtin E s \<longleftrightarrow> codec_ok (se_codec E) \<and> IsInit s \<and>
     (\<forall>(code, e) \<in> set builtin_handlers. omap_find (src_api_handler_map s) code = Some e)"

lemma has_builtin_find:
  assumes "has_builtin E s"
  shows "omap_find (src_api_handler_map s) PROTO_PACKET_CODE_METADATA = Some \<lparr>ah_handler = StaticMetadataHandler, ah_user_data = This\<rparr>"
    "omap_find (src_api_handler_map s) PROTO_PACKET_CODE_KEY_FRAME = Some \<lparr>ah_handler = StaticKeyFrameHandler, ah_user_data = This\<rparr>"
    "omap_find (src_api_handler_map s) PROTO_PACKET_CODE_MEDIA_STATISTIC = Some \<lparr>ah_handler = StaticStatisticHandler, ah_user_data = This\<rparr>"
    "omap_find (src_api_handler_map s) PROTO_PACKET_CODE_CLIENT_HEARTBEAT = Some \<lparr>ah_handler = StaticClientHeartbeatHandler, ah_user_data = This\<rparr>"
    "omap_find (src_api_handler_map s) PROTO_PACKET_CODE_CLIENT_LIST = Some \<lparr>ah_handler = StaticClientListHandler, ah_user_data = This\<rparr>"
  using assms by (simp_all add: has_builtin_def builtin_handlers_def)

lemma has_builtin_serves:
  assumes "has_builtin E s" "code \<in> fst ` set builtin_handlers"
  shows "source_serves (E, s) code"
proof -
  have "codec_ok (se_codec E)" "IsInit s" using assms(1) by (simp_all add: has_builtin_def)
  with assms(2) has_builtin_find [OF assms(1)] show ?thesis
    by (auto simp: source_serves_def builtin_handlers_def is_builtin_def)
qed


section \<open>Round trips\<close>

lemma ReplyStatus2ErrorCode_ok: "h_status (pk_header r) = PROTO_PACKET_STATUS_OK \<Longrightarrow> ReplyStatus2ErrorCode r = 0"
  by (simp add: ReplyStatus2ErrorCode_def Let_def error_code_defs)

lemma rpc_after_meta:
  assumes "connected C answer R"
  shows "snk_stream_meta (rpc_after R k) = snk_stream_meta k"
  using assms by (simp add: rpc_after_def cache_api_socket_def connected_def)

lemma connected_codec: "connected C answer R \<Longrightarrow> re_codec R = C"
  by (simp add: connected_def)

text \<open>A call of a built-in handler whose reply has the status OK.\<close>

lemma source_call_ok:
  assumes "has_builtin E s" "connected (se_codec E) (source_answer (E, s)) R" "0 \<le> timeout" "IsInit_sink k"
    and "h_type (pk_header r) = PROTO_PACKET_TYPE_REQUEST" "h_code (pk_header r) \<in> fst ` set builtin_handlers"
    and "h_status (pk_header (source_reply (E, s) r)) = PROTO_PACKET_STATUS_OK"
  shows "rpc_call R r timeout k = Ret (0, Some (pk_body (source_reply (E, s) r)), rpc_after R k)"
  using src_rpc.call_served [of "(E, s)" r R timeout k] has_builtin_serves [OF assms(1,6)] assms
  by (simp add: ReplyStatus2ErrorCode_ok)

lemma builtin_codes:
  "PROTO_PACKET_CODE_METADATA \<in> fst ` set builtin_handlers" "PROTO_PACKET_CODE_KEY_FRAME \<in> fst ` set builtin_handlers"
  "PROTO_PACKET_CODE_MEDIA_STATISTIC \<in> fst ` set builtin_handlers" "PROTO_PACKET_CODE_CLIENT_LIST \<in> fst ` set builtin_handlers"
  "PROTO_PACKET_CODE_CLIENT_HEARTBEAT \<in> fst ` set builtin_handlers"
  by (simp_all add: builtin_handlers_def)

subsection \<open>Metadata\<close>

text \<open>What the metadata protocol keeps of a sub stream: everything but its own index, which becomes its
  position, and the parameters of the other media types.\<close>

definition wire_sub_stream :: "nat \<Rightarrow> SubStreamMetadata \<Rightarrow> SubStreamMetadata" where
  "wire_sub_stream i m =
     m\<lparr>ss_sub_stream_index := int i,
       ss_video := if ss_media_type m = SUB_STREAM_MEIDA_TYPE_VIDEO then ss_video m else new_VideoMediaParam,
       ss_audio := if ss_media_type m = SUB_STREAM_MEIDA_TYPE_AUDIO then ss_audio m else new_AudioMediaParam,
       ss_text := if ss_media_type m = SUB_STREAM_MEIDA_TYPE_TEXT then ss_text m else new_TextMediaParam\<rparr>"

definition wire_meta :: "StreamMetadata \<Rightarrow> StreamMetadata" where
  "wire_meta m = m\<lparr>sm_sub_streams :=
     map (\<lambda>i. wire_sub_stream i (sm_sub_streams m ! i)) [0..<length (sm_sub_streams m)]\<rparr>"

lemma sub_stream_roundtrip: "sub_stream_of_proto (proto_of_sub_stream (int i) m) = wire_sub_stream i m"
  by (cases "ss_media_type m")
    (simp_all add: sub_stream_of_proto_def proto_of_sub_stream_def wire_sub_stream_def Let_def
      new_ProtoSubStreamInfo_def new_SubStreamMetadata_def)

lemma proto_of_sub_streams_map:
  "proto_of_sub_streams k ms = map (\<lambda>i. proto_of_sub_stream (k + int i) (ms ! i)) [0..<length ms]"
  by (induction k ms rule: proto_of_sub_streams.induct) (simp_all add: upt_0_Suc add.assoc del: upt_Suc)

lemma apply_meta_rep_appends:
  "snk_stream_meta (apply_meta_rep (meta_rep m) k) =
     (wire_meta m)\<lparr>sm_sub_streams := sm_sub_streams (snk_stream_meta k) @ sm_sub_streams (wire_meta m)\<rparr>"
  "length (snk_statistic (apply_meta_rep (meta_rep m) k)) = length (sm_sub_streams m)"
  by (simp_all add: apply_meta_rep_def meta_rep_def wire_meta_def proto_of_sub_streams_map comp_def
      sub_stream_roundtrip Let_def cong: map_cong)

lemma apply_meta_rep_fresh:
  assumes "sm_sub_streams (snk_stream_meta k) = []"
  shows "snk_stream_meta (apply_meta_rep (meta_rep m) k) = wire_meta m"
    "snk_statistic (apply_meta_rep (meta_rep m) k) = fresh_statistic m"
  using assms
  by (simp_all add: apply_meta_rep_def meta_rep_def wire_meta_def proto_of_sub_streams_map comp_def
      sub_stream_roundtrip fresh_statistic_def Let_def wire_sub_stream_def cong: map_cong)

text \<open>A request for the metadata of a source, whatever the sink held before.\<close>

lemma metadata_request:
  assumes "has_builtin E s" "connected (se_codec E) (source_answer (E, s)) R" "0 \<le> timeout"
    and "IsInit_sink k" "\<not> IsStarted_sink k"
  shows "UpdateStreamMetaData R timeout k =
    Ret (0, apply_meta_rep (meta_rep (src_stream_meta s)) (rpc_after R (k\<lparr>snk_next_seq := snk_next_seq k + 1\<rparr>)))"
proof -
  let ?r = "request_packet (se_codec E) (snk_next_seq k) PROTO_PACKET_CODE_METADATA"
  let ?k = "k\<lparr>snk_next_seq := snk_next_seq k + 1\<rparr>"
  have rep: "source_reply (E, s) ?r = (reply_to (se_codec E) ?r PROTO_PACKET_STATUS_OK [])
      \<lparr>pk_body := ser_meta (se_codec E) (meta_rep (src_stream_meta s))\<rparr>"
    using has_builtin_find(1) [OF assms(1)] by (simp add: source_reply_def builtin_reply_def Let_def)
  have "rpc_call R ?r timeout ?k = Ret (0, Some (pk_body (source_reply (E, s) ?r)), rpc_after R ?k)"
    using assms(4) by (intro source_call_ok [OF assms(1-3)]) (simp_all add: rep builtin_codes snk_flag_defs)
  moreover have "codec_ok (se_codec E)" using assms(1) by (simp add: has_builtin_def)
  ultimately show ?thesis
    using assms(5)
    by (simp add: UpdateStreamMetaData_def GetNextSeq_def connected_codec [OF assms(2)] rep codec_okD(8))
qed

text \<open>C6: A sink that asks a source for its metadata for the first time holds the source's metadata, with
  the sub streams numbered by their position, and a fresh counter of the right type for each of
  them.\<close>

theorem metadata_roundtrip:
  assumes "has_builtin E s" "connected (se_codec E) (source_answer (E, s)) R" "0 \<le> timeout"
    and "IsInit_sink k" "\<not> IsStarted_sink k" "sm_sub_streams (snk_stream_meta k) = []"
  shows "\<exists>t. UpdateStreamMetaData R timeout k = Ret (0, t) \<and> snk_stream_meta t = wire_meta (src_stream_meta s) \<and>
    snk_statistic t = fresh_statistic (src_stream_meta s)"
  using metadata_request [OF assms(1-5)] assms(6)
  by (simp add: apply_meta_rep_fresh rpc_after_meta [OF assms(2)])

text \<open>The statistic a sink asks for is the statistic of the source (rewritten by its listener if it has
  one), without the two counters that the source keeps to itself.\<close>

theorem statistic_roundtrip:
  assumes "has_builtin E s" "connected (se_codec E) (source_answer (E, s)) R" "0 \<le> timeout"
    and "IsInit_sink k" "mi_sub_streams st = []"
  shows "\<exists>t. SourceStatistic R timeout (Some st) k = Ret (0, Some ((local_statistic E s)\<lparr>mi_sub_streams :=
     map (\<lambda>x. x\<lparr>st_cur_gov := 0, st_last_seq := 0\<rparr>) (mi_sub_streams (local_statistic E s))\<rparr>), t)"
proof -
  let ?r = "request_packet (se_codec E) (snk_next_seq k) PROTO_PACKET_CODE_MEDIA_STATISTIC"
  let ?k = "k\<lparr>snk_next_seq := snk_next_seq k + 1\<rparr>"
  have rep: "source_reply (E, s) ?r = (reply_to (se_codec E) ?r PROTO_PACKET_STATUS_OK [])
      \<lparr>pk_body := ser_statistic (se_codec E) (statistic_rep (local_statistic E s))\<rparr>"
    using has_builtin_find(3) [OF assms(1)] by (simp add: source_reply_def builtin_reply_def Let_def)
  have "rpc_call R ?r timeout ?k = Ret (0, Some (pk_body (source_reply (E, s) ?r)), rpc_after R ?k)"
    using assms(4) by (intro source_call_ok [OF assms(1-3)]) (simp_all add: rep builtin_codes snk_flag_defs)
  moreover have "codec_ok (se_codec E)" using assms(1) by (simp add: has_builtin_def)
  moreover have "statistic_of_proto (proto_of_statistic x) = x\<lparr>st_cur_gov := 0, st_last_seq := 0\<rparr>" for x
    by (cases x) (simp add: statistic_of_proto_def proto_of_statistic_def new_SubStreamMediaStatistic_def)
  ultimately show ?thesis
    using assms(5)
    by (cases st, cases "local_statistic E s")
      (simp add: SourceStatistic_def GetNextSeq_def connected_codec [OF assms(2)] rep codec_okD(7)
        statistic_rep_def comp_def)
qed

text \<open>A key frame request of a sink succeeds, and the source calls its listener exactly once.\<close>

theorem key_frame_request:
  assumes "has_builtin E s" "connected (se_codec E) (source_answer (E, s)) R" "0 \<le> timeout" "IsInit_sink k"
  shows "\<exists>t. KeyFrame R timeout k = Ret (0, t) \<and>
    src_key_frame_calls (OnApiSocketRead E (Some \<lparr>am_packet = ser_packet (se_codec E) (request_packet (se_codec E)
      (snk_next_seq k) PROTO_PACKET_CODE_KEY_FRAME), am_blob = None\<rparr>) s) =
    src_key_frame_calls s + (if src_listener s = None then 0 else 1)"
proof -
  let ?r = "request_packet (se_codec E) (snk_next_seq k) PROTO_PACKET_CODE_KEY_FRAME"
  let ?k = "k\<lparr>snk_next_seq := snk_next_seq k + 1\<rparr>"
  have e: "omap_find (src_api_handler_map s) (h_code (pk_header ?r)) = Some \<lparr>ah_handler = StaticKeyFrameHandler, ah_user_data = This\<rparr>"
    using has_builtin_find(2) [OF assms(1)] by simp
  have init: "IsInit s" and ok: "codec_ok (se_codec E)" using assms(1) by (simp_all add: has_builtin_def)
  have rep: "source_reply (E, s) ?r = reply_to (se_codec E) ?r PROTO_PACKET_STATUS_OK []"
    using e by (simp add: source_reply_def builtin_reply_def Let_def)
  have "rpc_call R ?r timeout ?k = Ret (0, Some (pk_body (source_reply (E, s) ?r)), rpc_after R ?k)"
    using assms(4) by (intro source_call_ok [OF assms(1-3)]) (simp_all add: rep builtin_codes snk_flag_defs)
  moreover have "src_key_frame_calls (OnRpcRequest E ?r None s) =
      src_key_frame_calls s + (if src_listener s = None then 0 else 1)"
    using OnRpcRequest_builtin [OF init e, of E None]
    by (auto simp: is_builtin_def builtin_effect_def split: option.splits)
  ultimately show ?thesis
    by (simp add: KeyFrame_def GetNextSeq_def connected_codec [OF assms(2)] OnApiSocketRead_def codec_okD(1) [OF ok]
        blob_part_def)
qed

text \<open>A sink that asks for a page of clients gets that part of the source's client list and the number
  of all clients.\<close>

theorem client_list_roundtrip:
  assumes "has_builtin E s" "connected (se_codec E) (source_answer (E, s)) R" "0 \<le> timeout" "IsInit_sink k"
  shows "\<exists>t. ClientList R timeout i n (Some tot) (Some cs) k =
    Ret (0, Some (of_nat (length (src_receiver_list s))),
      Some (cs @ map client_info_of_proto (take (unat n) (drop (unat i) (src_receiver_list s)))), t)"
proof -
  let ?q = "\<lparr>lq_start_index = i, lq_client_num = n\<rparr>"
  let ?r = "(request_packet (se_codec E) (snk_next_seq k) PROTO_PACKET_CODE_CLIENT_LIST)
    \<lparr>pk_body := ser_list_req (se_codec E) ?q\<rparr>"
  let ?k = "k\<lparr>snk_next_seq := snk_next_seq k + 1\<rparr>"
  have ok: "codec_ok (se_codec E)" using assms(1) by (simp add: has_builtin_def)
  have rep: "source_reply (E, s) ?r = (reply_to (se_codec E) ?r PROTO_PACKET_STATUS_OK [])
      \<lparr>pk_body := ser_list_rep (se_codec E) (client_list_rep ?q (src_receiver_list s))\<rparr>"
    using has_builtin_find(5) [OF assms(1)] by (simp add: source_reply_def builtin_reply_def Let_def codec_okD(4) [OF ok])
  have "rpc_call R ?r timeout ?k = Ret (0, Some (pk_body (source_reply (E, s) ?r)), rpc_after R ?k)"
    using assms(4) by (intro source_call_ok [OF assms(1-3)]) (simp_all add: rep builtin_codes snk_flag_defs)
  then show ?thesis
    by (simp add: ClientList_def GetNextSeq_def Let_def connected_codec [OF assms(2)] rep codec_okD(5) [OF ok]
        client_list_rep_def client_page_take)
qed


subsection \<open>Concrete runs\<close>

definition demo_link :: "wire rpc_env" where
  "demo_link = \<lparr>re_codec = wire_codec, re_req_new = True, re_serialize = True,
     re_net = (\<lambda>addr m timeout. source_answer (demo_env, demo_source) m), re_meanwhile = (\<lambda>s. s)\<rparr>"

lemma demo_builtin: "has_builtin demo_env demo_source"
  unfolding has_builtin_def using demo_source_init(1)
  by (simp add: builtin_handlers_def demo_defs)

lemma demo_connected: "connected (se_codec demo_env) (source_answer (demo_env, demo_source)) demo_link"
  by (simp add: connected_def demo_link_def demo_env_def)

lemma demo_sink_init: "IsInit_sink demo_sink" "\<not> IsStarted_sink demo_sink" "sm_sub_streams (snk_stream_meta demo_sink) = []"
  by (simp_all add: demo_sink_defs flag_on_def new_StreamMetadata_def)

lemmas demo_link_facts = demo_builtin demo_connected

theorem metadata_roundtrip_witness:
  "\<exists>t. UpdateStreamMetaData demo_link 1000 demo_sink = Ret (0, t) \<and> sm_ssrc (snk_stream_meta t) = 7 \<and>
     length (sm_sub_streams (snk_stream_meta t)) = 2"
proof -
  have "sm_ssrc (src_stream_meta demo_source) = 7" "length (sm_sub_streams (src_stream_meta demo_source)) = 2"
    by (simp_all add: demo_defs)
  with metadata_roundtrip [OF demo_link_facts _ demo_sink_init, of 1000] show ?thesis
    by (auto simp: wire_meta_def)
qed

theorem statistic_roundtrip_witness:
  "\<exists>st t. SourceStatistic demo_link 1000
     (Some \<lparr>mi_ssrc = 0, mi_timestamp = 0, mi_sum_bytes = 0, mi_sub_streams = []\<rparr>) demo_sink = Ret (0, Some st, t)"
  using statistic_roundtrip [OF demo_link_facts _ demo_sink_init(1), of 1000
      "\<lparr>mi_ssrc = 0, mi_timestamp = 0, mi_sum_bytes = 0, mi_sub_streams = []\<rparr>"] by auto

theorem key_frame_request_witness:
  "\<exists>t. KeyFrame demo_link 1000 demo_sink = Ret (0, t)"
  using key_frame_request [OF demo_link_facts _ demo_sink_init(1), of 1000] by auto

theorem client_list_roundtrip_witness:
  "\<exists>t. ClientList demo_link 1000 0 10 (Some 5) (Some []) demo_sink = Ret (0, Some 0, Some [], t)"
  using client_list_roundtrip [OF demo_link_facts _ demo_sink_init(1), of 1000 0 10 5 "[]"]
  by (simp add: demo_source_clients)

section \<open>Unknown requests and heartbeats\<close>

text \<open>A request with a code that the source does not know is answered by nothing, so a sink that sends
  one runs into its timeout.\<close>

theorem unknown_request_times_out:
  assumes "codec_ok (se_codec E)" "\<not> IsWaitingReply s" "omap_find (src_api_handler_map s) (h_code (pk_header r)) = None"
    and "connected (se_codec E) (source_answer (E, s)) R" "0 \<le> timeout" "IsInit_sink k"
    and "h_type (pk_header r) = PROTO_PACKET_TYPE_REQUEST"
  shows "fst (SendRpcRequest R r None timeout k) = ERROR_CODE_TIMEOUT"
proof -
  have R: "re_codec R = se_codec E" "re_serialize R" "re_req_new R" "\<And>a m t. re_net R a m t = source_answer (E, s) m"
    using assms(4) by (simp_all add: connected_def)
  obtain sock where sock: "rpc_socket R k = Some sock"
    using R(3) by (cases "snk_last_api_socket k") (simp_all add: rpc_socket_def)
  have "source_answer (E, s) \<lparr>am_packet = ser_packet (se_codec E) r, am_blob = None\<rparr> = Net_Timeout"
    using assms(2,3)
    by (simp add: source_answer_def OnApiSocketRead_def codec_okD(1) [OF assms(1)] OnRpcRequest_def Let_def
        SendRpcReply_not_waiting)
  then have "rpc_answer R sock r None timeout = Net_Timeout" by (simp add: rpc_answer_def R blob_part_def)
  then show ?thesis
    by (simp add: SendRpcRequest_answered [OF assms(5,7,6) sock R(2)] Let_def)
qed

theorem unknown_request_times_out_witness:
  "fst (SendRpcRequest demo_link (request_packet wire_codec 1 99) None 1000 demo_sink) = ERROR_CODE_TIMEOUT"
  using unknown_request_times_out [OF _ demo_source_init(2) _ demo_connected _ demo_sink_init(1),
      of "request_packet wire_codec 1 99" 1000]
  by (simp add: demo_source_handlers) (simp add: demo_env_def)

definition sink_key :: "StreamClientInfo \<Rightarrow> client_key" where
  "sink_key c = (ci_client_ip c, ci_client_port c, ci_client_token c)"

text \<open>C11: A heartbeat request of a sink registers the sink at a source that has room for it, with the time
  of its arrival, and the reply is one that the sink accepts, with a lease of 15 seconds.\<close>

theorem heartbeat_registers:
  assumes "has_builtin E s" "length (src_receiver_list s) < STSW_MAX_CLIENT_NUM"
  shows "registry_map (src_receiver_list (OnApiSocketRead E (Some \<lparr>am_packet = hb_packet (se_codec E) k, am_blob = None\<rparr>) s))
      (sink_key (snk_client_info k)) = Some ((client_heartbeat_req (snk_client_info k))\<lparr>hb_last_active_time := se_time E\<rparr>) \<and>
    (\<exists>m. source_answer (E, s) \<lparr>am_packet = hb_packet (se_codec E) k, am_blob = None\<rparr> = Net_Reply m \<and>
       hb_reply (se_codec E) (am_packet m) STSW_CLIENT_LEASE)"
proof -
  let ?c = "(client_heartbeat_req (snk_client_info k))\<lparr>hb_last_active_time := se_time E\<rparr>"
  let ?r = "(request_packet (se_codec E) (snk_next_seq k) PROTO_PACKET_CODE_CLIENT_HEARTBEAT)
     \<lparr>pk_body := ser_heartbeat_req (se_codec E) (client_heartbeat_req (snk_client_info k))\<rparr>"
  have ok: "codec_ok (se_codec E)" and init: "IsInit s" using assms(1) by (simp_all add: has_builtin_def)
  have e: "omap_find (src_api_handler_map s) (h_code (pk_header ?r)) =
      Some \<lparr>ah_handler = StaticClientHeartbeatHandler, ah_user_data = This\<rparr>"
    using has_builtin_find(4) [OF assms(1)] by simp
  have "register_client ?c (src_receiver_list s) \<noteq> None" using assms(2) by (simp add: register_client_None)
  then obtain cs where cs: "register_client ?c (src_receiver_list s) = Some cs" by auto
  have key: "client_key ?c = sink_key (snk_client_info k)"
    by (simp add: client_key_def sink_key_def client_heartbeat_req_def)
  have read: "OnApiSocketRead E (Some \<lparr>am_packet = hb_packet (se_codec E) k, am_blob = None\<rparr>) s = OnRpcRequest E ?r None s"
    by (simp add: OnApiSocketRead_def hb_packet_def codec_okD(1) [OF ok] blob_part_def Let_def)
  have "src_receiver_list (OnRpcRequest E ?r None s) = cs"
    using OnRpcRequest_builtin [OF init e, of E None] cs
    by (simp add: is_builtin_def builtin_effect_def codec_okD(2) [OF ok] beat_list_def)
  then have reg: "registry_map (src_receiver_list (OnRpcRequest E ?r None s)) (sink_key (snk_client_info k)) = Some ?c"
    using register_client_map [OF cs] key by simp
  have "builtin_reply E StaticClientHeartbeatHandler ?r s = (reply_to (se_codec E) ?r PROTO_PACKET_STATUS_OK [])
      \<lparr>pk_body := ser_heartbeat_rep (se_codec E) \<lparr>hr_lease = STSW_CLIENT_LEASE, hr_timestamp = se_time E\<rparr>\<rparr>"
    using cs by (simp add: builtin_reply_def Let_def codec_okD(2) [OF ok])
  then have "hb_reply (se_codec E) (ser_packet (se_codec E) (builtin_reply E StaticClientHeartbeatHandler ?r s)) STSW_CLIENT_LEASE"
    by (simp add: hb_reply_def codec_okD(1,3) [OF ok])
  moreover have "source_answer (E, s) \<lparr>am_packet = hb_packet (se_codec E) k, am_blob = None\<rparr> = Net_Reply
      \<lparr>am_packet = ser_packet (se_codec E) (builtin_reply E StaticClientHeartbeatHandler ?r s), am_blob = None\<rparr>"
    using source_answer_builtin [OF ok init e] by (simp add: hb_packet_def is_builtin_def)
  ultimately show ?thesis using reg by (simp add: read)
qed

theorem heartbeat_registers_witness:
  "\<exists>m. source_answer (demo_env, demo_source) \<lparr>am_packet = hb_packet (se_codec demo_env) demo_sink, am_blob = None\<rparr> = Net_Reply m \<and>
       hb_reply (se_codec demo_env) (am_packet m) 15"
  using heartbeat_registers [OF demo_builtin, of demo_sink]
  by (simp add: demo_source_clients STSW_MAX_CLIENT_NUM_def STSW_CLIENT_LEASE_def)


section \<open>Lost frames\<close>

text \<open>The positions of the media frames of sub stream \<open>i\<close> in a run, and how many there are up to a
  position.\<close>

definition media_at :: "int \<Rightarrow> (MediaFrameInfo \<times> blob) list \<Rightarrow> nat \<Rightarrow> bool" where
  "media_at i fs k \<longleftrightarrow> k < length fs \<and> fi_sub_stream_index (fst (fs ! k)) = i \<and> is_media (fi_frame_type (fst (fs ! k)))"

definition media_upto :: "int \<Rightarrow> (MediaFrameInfo \<times> blob) list \<Rightarrow> nat \<Rightarrow> nat" where
  "media_upto i fs k = card ({j. media_at i fs j} \<inter> {..k})"

lemma media_at_finite [simp]: "finite {j. media_at i fs j}"
  by (rule finite_subset [of _ "{..<length fs}"]) (auto simp: media_at_def)

lemma media_of_frames_of:
  "length (media_of fst (frames_of i fs)) = card {j. media_at i fs j}"
proof -
  have "length (media_of fst (frames_of i fs)) =
      length (filter (\<lambda>fd. fi_sub_stream_index (fst fd) = i \<and> is_media (fi_frame_type (fst fd))) fs)"
    by (simp add: media_of_def frames_of_def filter_map comp_def split_beta conj_commute)
  also have "\<dots> = card {j. media_at i fs j}"
    by (simp add: length_filter_conv_card media_at_def)
  finally show ?thesis .
qed

lemma media_upto_take:
  assumes "k < length fs"
  shows "length (media_of fst (frames_of i (take (Suc k) fs))) = media_upto i fs k"
proof -
  have "{j. media_at i (take (Suc k) fs) j} = {j. media_at i fs j} \<inter> {..k}"
    using assms by (auto simp: media_at_def)
  then show ?thesis by (simp add: media_of_frames_of media_upto_def)
qed

lemma media_upto_diff:
  assumes "a \<le> b"
  shows "media_upto i fs b = media_upto i fs a + card ({j. media_at i fs j} \<inter> {a<..b})"
proof -
  have "{j. media_at i fs j} \<inter> {..b} = {j. media_at i fs j} \<inter> {..a} \<union> {j. media_at i fs j} \<inter> {a<..b}"
    using assms by auto
  moreover have "{j. media_at i fs j} \<inter> {..a} \<inter> ({j. media_at i fs j} \<inter> {a<..b}) = {}" by auto
  ultimately show ?thesis
    unfolding media_upto_def by (simp add: card_Un_disjoint)
qed

lemma media_upto_le: "media_upto i fs k \<le> length fs"
proof -
  have "media_upto i fs k \<le> card {..<length fs}"
    unfolding media_upto_def by (rule card_mono) (auto simp: media_at_def)
  then show ?thesis by simp
qed

lemma media_upto_strict:
  assumes "a < b" "media_at i fs b"
  shows "media_upto i fs a < media_upto i fs b"
proof -
  have "b \<in> {j. media_at i fs j} \<inter> {..b}" "b \<notin> {j. media_at i fs j} \<inter> {..a}" using assms by simp_all
  moreover have "{j. media_at i fs j} \<inter> {..a} \<subseteq> {j. media_at i fs j} \<inter> {..b}" using assms(1) by auto
  ultimately have "{j. media_at i fs j} \<inter> {..a} \<subset> {j. media_at i fs j} \<inter> {..b}" by blast
  then show ?thesis unfolding media_upto_def by (intro psubset_card_mono) simp_all
qed

lemma media_upto_pos: "media_at i fs k \<Longrightarrow> 0 < media_upto i fs k"
  unfolding media_upto_def by (auto simp: card_gt_0_iff)

text \<open>The media frames of sub stream \<open>i\<close> that are sent between the first and the last received one,
  but not received.\<close>

definition media_missing :: "int \<Rightarrow> (MediaFrameInfo \<times> blob) list \<Rightarrow> nat list \<Rightarrow> nat set" where
  "media_missing i fs got = {j. media_at i fs j \<and> hd got < j \<and> j < last got \<and> j \<notin> set got}"

lemma sorted_le_last: "sorted_wrt (<) (xs :: nat list) \<Longrightarrow> x \<in> set xs \<Longrightarrow> x \<le> last xs"
  by (induction xs) (auto dest: less_imp_le)

lemma media_upto_missing:
  assumes "sorted_wrt (<) got" "got \<noteq> []" "\<forall>k \<in> set got. media_at i fs k"
  shows "media_upto i fs (last got) =
    media_upto i fs (hd got) + (length got - 1) + card (media_missing i fs got)"
proof -
  obtain a rest where got: "got = a # rest" using assms(2) by (cases got) auto
  let ?A = "{j. media_at i fs j} \<inter> {a<..last got}"
  have last: "x \<le> last got" if "x \<in> set got" for x using sorted_le_last [OF assms(1) that] .
  have sub: "set rest \<subseteq> ?A" using assms(1,3) last by (auto simp: got)
  have rest: "distinct rest" using assms(1) strict_sorted_iff by (auto simp: got)
  have "?A - set rest = media_missing i fs got"
    using last_in_set [OF assms(2)] by (auto simp: media_missing_def got order_le_less split: if_splits)
  then have "card ?A = length rest + card (media_missing i fs got)"
    using card_Diff_subset [OF _ sub] card_mono [OF _ sub] distinct_card [OF rest] by simp
  then show ?thesis
    using media_upto_diff [of a "last got" i fs] last [of a] by (simp add: got)
qed


lemma fold_recv_media: "fold recv_upd fs st = fold recv_upd (filter (\<lambda>f. is_media (fst f)) fs) st"
  by (induction fs arbitrary: st) (auto simp: recv_upd_def stat_recv_not_media)

definition sent_frame :: "SubStreamMediaStatistic list \<Rightarrow> (MediaFrameInfo \<times> blob) list \<Rightarrow> nat \<Rightarrow> ProtoMediaFrameMsg \<times> blob" where
  "sent_frame sts fs j = (media_frame_msg (fst (fs ! j)) (run_seq sts fs j), blob_part (snd (fs ! j)))"

lemma run_msg_media_pub: "run_msg C sts fs j = (case sent_frame sts fs j of (m, d) \<Rightarrow> media_pub C m d)"
  by (simp add: run_msg_def media_pub_def sent_frame_def stsw_simps)

lemma received_sent:
  assumes "\<forall>j \<in> set ks. j < length fs"
  shows "filter (\<lambda>f. is_media (fst f)) (received_of i (map (sent_frame sts fs) ks)) =
    map (\<lambda>j. (fi_frame_type (fst (fs ! j)), blob_size (snd (fs ! j)), run_seq sts fs j)) (filter (media_at i fs) ks)"
  using assms
  by (induction ks) (auto simp: received_of_def sent_frame_def media_frame_msg_def media_at_def)

lemma run_seq_media:
  assumes "media_at (int i) fs j" "st_last_seq (sts ! i) = 0"
  shows "run_seq sts fs j = of_nat (media_upto (int i) fs j)"
proof -
  have "fi_sub_stream_index (fst (fs ! j)) = int i" "j < length fs" using assms(1) by (auto simp: media_at_def)
  then show ?thesis using assms(2) by (simp add: run_seq_def media_upto_take)
qed

lemma of_nat_u64_less: "a < b \<Longrightarrow> b < 2 ^ 64 \<Longrightarrow> (of_nat a :: u64) < of_nat b"
  by (simp add: word_less_nat_alt unat_of_nat)

lemma lost_of_sent:
  assumes "sorted_wrt (<) got" "got \<noteq> []" "\<forall>j \<in> set got. media_at (int i) fs j" "length fs < 2 ^ 64"
    and "st_last_seq (sts ! i) = 0" "st_last_seq st = 0" "st_lost_frames st = 0" "st_data_frames st = 0"
  shows "st_lost_frames (fold recv_upd (map (\<lambda>j. (fi_frame_type (fst (fs ! j)), blob_size (snd (fs ! j)),
      run_seq sts fs j)) got) st) = of_nat (card (media_missing (int i) fs got))"
    (is "st_lost_frames (fold recv_upd (map ?g got) st) = _")
proof -
  have seq: "snd (snd (?g j)) = of_nat (media_upto (int i) fs j)" if "j \<in> set got" for j
    using that assms(3,5) by (simp add: run_seq_media)
  have "sorted_wrt (\<lambda>x y. (of_nat (media_upto (int i) fs x) :: u64) < of_nat (media_upto (int i) fs y)) got"
    using assms(1)
  proof (rule sorted_wrt_mono_rel [rotated])
    fix x y assume "x \<in> set got" "y \<in> set got" "x < y"
    moreover have "media_upto (int i) fs y < 2 ^ 64" using media_upto_le [of "int i" fs y] assms(4) by simp
    ultimately show "(of_nat (media_upto (int i) fs x) :: u64) < of_nat (media_upto (int i) fs y)"
      using assms(3) by (intro of_nat_u64_less media_upto_strict) auto
  qed
  moreover have "0 < (of_nat (media_upto (int i) fs x) :: u64)" if "x \<in> set got" for x
    using of_nat_u64_less [of 0 "media_upto (int i) fs x"] media_upto_le [of "int i" fs x] assms(3,4) that
    by (simp add: media_upto_pos)
  moreover have "map (\<lambda>f. snd (snd f)) (map ?g got) = map (\<lambda>j. of_nat (media_upto (int i) fs j)) got"
    using seq by simp
  ultimately have sorted: "sorted_wrt (<) (0 # map (\<lambda>f. snd (snd f)) (map ?g got))"
    by (simp only: sorted_wrt.simps sorted_wrt_map set_map) auto
  have media: "is_media (fst f)" if "f \<in> set (map ?g got)" for f
    using that assms(3) by (auto simp: media_at_def)
  have "st_lost_frames (fold recv_upd (map ?g got) st) =
      of_nat (media_upto (int i) fs (last got)) - of_nat (media_upto (int i) fs (hd got)) - of_nat (length got - 1)"
    using recv_run_lost [of "map ?g got" st, OF _ media sorted assms(6-8)] assms(2,3)
      seq [OF last_in_set [OF assms(2)]] seq [OF hd_in_set [OF assms(2)]]
    by (simp add: last_map hd_map)
  then show ?thesis
    using media_upto_missing [OF assms(1-3)] by simp
qed


text \<open>C1: From end to end: a source sends a run of frames, the network delivers any part of the published
  messages in order, and the sink holds the source's metadata. Then for every sub stream of which
  the sink received a media frame, \<open>lost_frames\<close> is the number of media frames of that sub stream that
  were sent between the first and the last received one and did not arrive.\<close>

theorem lost_frames_exact:
  assumes "source_inv s" "IsInit s" "list_all (\<lambda>(f, d). frame_ok s f) fs" "length fs < 2 ^ 64"
    and "codec_ok (ke_codec E)" "receives_media k" "sm_ssrc (snk_stream_meta k) = sm_ssrc (src_stream_meta s)"
    and "length (snk_statistic k) = length (sm_sub_streams (src_stream_meta s))"
    and "length (snk_statistic k) \<le> length (sm_sub_streams (snk_stream_meta k))"
    and "sorted_wrt (<) ks" "\<forall>j \<in> set ks. j < length fs"
    and "i < length (snk_statistic k)" "st_last_seq (src_statistic s ! i) = 0"
    and "snk_statistic k ! i = new_SubStreamMediaStatistic\<lparr>st_sub_stream_index := int i, st_media_type := ty\<rparr>"
    and "filter (media_at (int i) fs) ks \<noteq> []"
  shows "\<exists>t u. send_run (ke_codec E) fs s = Ret t \<and>
    deliver E (map (\<lambda>j. src_pub_sent t ! (length (src_pub_sent s) + j)) ks) k = Ret u \<and>
    st_lost_frames (snk_statistic u ! i) = of_nat (card (media_missing (int i) fs (filter (media_at (int i) fs) ks)))"
proof -
  let ?sts = "src_statistic s" and ?got = "filter (media_at (int i) fs) ks"
  let ?ms = "map (sent_frame ?sts fs) ks"
  obtain t where t: "send_run (ke_codec E) fs s = Ret t"
    "src_pub_sent t = src_pub_sent s @ map (run_msg (ke_codec E) ?sts fs) [0..<length fs]"
    using send_run_spec [OF assms(1-3)] by blast
  have pub: "map (\<lambda>j. src_pub_sent t ! (length (src_pub_sent s) + j)) ks = map (\<lambda>(m, d). media_pub (ke_codec E) m d) ?ms"
    using assms(11) by (simp add: t(2) nth_append run_msg_media_pub)
  have "frame_ok s (fst (fs ! j))" if "j \<in> set ks" for j
    using assms(3,11) that by (auto simp: list_all_length split_beta)
  then have oks: "list_all (\<lambda>(m, d). msg_ok k m) ?ms"
    using assms(7-9)
    by (auto simp: list_all_iff sent_frame_def msg_ok_def media_frame_msg_def frame_ok_def)
  obtain u where u: "deliver E (map (\<lambda>(m, d). media_pub (ke_codec E) m d) ?ms) k = Ret u"
    "snk_statistic u ! i = fold recv_upd (received_of (int i) ?ms) (snk_statistic k ! i)"
    using deliver_spec [OF assms(5,6) oks] assms(12) by blast
  have "sorted_wrt (<) ?got" using assms(10) by (rule sorted_wrt_filter)
  then have "st_lost_frames (snk_statistic u ! i) = of_nat (card (media_missing (int i) fs ?got))"
    unfolding u(2) fold_recv_media [of "received_of (int i) ?ms"] received_sent [OF assms(11)]
    using assms(4,13-15) by (intro lost_of_sent) (auto simp: new_SubStreamMediaStatistic_def)
  with t(1) u(1) show ?thesis unfolding pub [symmetric] by blast
qed


definition demo_stream :: "(MediaFrameInfo \<times> blob) list" where
  "demo_stream = map (\<lambda>n. (\<lparr>fi_sub_stream_index = 0, fi_frame_type = MEDIA_FRAME_TYPE_DATA_FRAME,
     fi_tv_sec = n, fi_tv_usec = 0, fi_ssrc = 7\<rparr>, Some ''x'')) [1, 2, 3, 4]"

lemma demo_stream_at: "media_at 0 demo_stream j \<longleftrightarrow> j < 4"
proof -
  have "j < 4 \<longleftrightarrow> j = 0 \<or> j = 1 \<or> j = 2 \<or> j = 3" by auto
  then show ?thesis by (auto simp: media_at_def demo_stream_def is_media_def)
qed

theorem lost_frames_exact_witness:
  "\<exists>t u. send_run wire_codec demo_stream demo_source = Ret t \<and>
    deliver demo_sink_env (map (\<lambda>j. src_pub_sent t ! (length (src_pub_sent demo_source) + j)) [0, 3]) demo_rx = Ret u \<and>
    st_lost_frames (snk_statistic u ! 0) = 2"
proof -
  have got: "filter (media_at (int 0) demo_stream) [0, 3] = [0, 3]" by (simp add: demo_stream_at)
  have "media_missing 0 demo_stream [0, 3] = {1, 2}" by (auto simp: media_missing_def demo_stream_at)
  then have miss: "card (media_missing (int 0) demo_stream (filter (media_at (int 0) demo_stream) [0, 3])) = 2"
    by (simp add: demo_stream_at)
  have len: "length demo_stream = 4" by (simp add: demo_stream_def)
  have codec: "ke_codec demo_sink_env = wire_codec" by (simp add: demo_sink_env_def)
  have meta: "sm_ssrc (src_stream_meta demo_source) = 7" "length (sm_sub_streams (src_stream_meta demo_source)) = 2"
    by (simp_all add: demo_defs)
  have ok: "list_all (\<lambda>(f, d). frame_ok demo_source f) demo_stream"
    by (simp add: demo_stream_def frame_ok_def meta)
  have st: "st_last_seq (src_statistic demo_source ! 0) = 0"
    by (simp add: demo_source_stat new_SubStreamMediaStatistic_def)
  have rx: "snk_statistic demo_rx ! 0 = new_SubStreamMediaStatistic
      \<lparr>st_sub_stream_index := int 0, st_media_type := SUB_STREAM_MEIDA_TYPE_VIDEO\<rparr>"
    by (simp add: demo_rx_stat new_SubStreamMediaStatistic_def)
  have "\<exists>t u. send_run (ke_codec demo_sink_env) demo_stream demo_source = Ret t \<and>
    deliver demo_sink_env (map (\<lambda>j. src_pub_sent t ! (length (src_pub_sent demo_source) + j)) [0, 3]) demo_rx = Ret u \<and>
    st_lost_frames (snk_statistic u ! 0) =
      of_nat (card (media_missing (int 0) demo_stream (filter (media_at (int 0) demo_stream) [0, 3])))"
    by (rule lost_frames_exact [OF demo_source_inv demo_source_init(1) ok _ demo_rx_simps(1,2)])
      (use rx st in \<open>simp_all add: demo_rx_simps meta demo_stream_at len\<close>)
  then show ?thesis by (simp only: miss codec of_nat_numeral)
qed


section \<open>Addresses\<close>

lemma local_addr_length:
  "length name < 64 \<Longrightarrow> length sock \<le> 9 \<Longrightarrow> length (local_addr name sock) < 254"
  using length_c_str [of name] by (simp add: local_addr_def STSW_SOCKET_NAME_STREAM_PREFIX_def)

lemma source_local_addr:
  "\<exists>rest. source_addr name sock port p = ''@'' @ tl (local_addr name sock) @ rest"
  by (auto simp: source_addr_def local_addr_def)

text \<open>For every stream name that a source accepts, a local sink of the same name connects to the very
  addresses the source binds: both endpoints start with the same local path.\<close>

theorem local_addresses_agree:
  assumes "source_inv s" "\<not> IsInit s" "0 < length name" "length name < 64" "- (2 ^ 31) \<le> port" "port < 2 ^ 31"
    and "Init ie name port q l dbg s = Ret (0, s')"
    and "sink_inv k" "\<not> IsInit_sink k" "InitLocal ke name c q' l' d k = (0, k')"
  shows "\<exists>api pub r1 r2. map_option sk_endpoint (src_api_socket s') = Some (''@'' @ api @ r1) \<and>
    map_option sk_endpoint (src_publish_socket s') = Some (''@'' @ pub @ r2) \<and>
    snk_api_addr k' = ''>'' @ api \<and> snk_subscriber_addr k' = ''>'' @ pub"
proof -
  have n: "name \<noteq> []" using assms(3) by auto
  let ?api = "local_addr name STSW_SOCKET_NAME_STREAM_API" and ?pub = "local_addr name STSW_SOCKET_NAME_STREAM_PUBLISH"
  have "length ?api < 254" "length ?pub < 254"
    using assms(4) by (auto intro!: local_addr_length simp: socket_name_defs)
  then have "snk_api_addr k' = ?api \<and> snk_subscriber_addr k' = ?pub"
    using sink_init_all_or_nothing [OF assms(8,9) n assms(10)] by simp
  moreover have "?api = ''>'' @ tl ?api" "?pub = ''>'' @ tl ?pub" by (simp_all add: local_addr_def)
  moreover obtain r1 r2 where "source_addr name STSW_SOCKET_NAME_STREAM_API port port = ''@'' @ tl ?api @ r1"
    "source_addr name STSW_SOCKET_NAME_STREAM_PUBLISH port (port + 1) = ''@'' @ tl ?pub @ r2"
    using source_local_addr by meson
  moreover note source_init_all_or_nothing [OF assms(1-7)]
  ultimately show ?thesis by (metis (full_types))
qed


theorem local_addresses_agree_witness:
  "\<exists>s' api r1. Init demo_init_env ''cam'' 0 100 None 0 (new_StreamSource :: wire StreamSource) = Ret (0, s') \<and>
     map_option sk_endpoint (src_api_socket s') = Some (''@'' @ api @ r1) \<and> snk_api_addr demo_sink = ''>'' @ api"
proof -
  obtain s' :: "wire StreamSource" where s': "Init demo_init_env ''cam'' 0 100 None 0 new_StreamSource = Ret (0, s')"
    using demo_init_ret by blast
  have i: "\<not> IsInit (new_StreamSource :: wire StreamSource)" by (simp add: src_flag_defs new_StreamSource_def)
  have k: "InitLocal demo_sink_init_env ''cam'' demo_info 250 True 0 new_StreamSink = (0, demo_sink)"
    by (simp add: demo_sink_defs prod_eq_iff)
  have j: "\<not> IsInit_sink (new_StreamSink :: wire StreamSink)" by (simp add: snk_flag_defs new_StreamSink_def)
  from local_addresses_agree [OF source_inv_new i _ _ _ _ s' sink_inv_new j k] s' show ?thesis by auto
qed

end
