(* ===== verification/C_Text.thy ===== *)
theory C_Text
  imports Stsw_Prelude
begin

text \<open>
  The text functions of the C library that the programs use on command lines and addresses:
  \<open>strtol\<close> with base 0 and \<open>strstr\<close>. \<open>strtol0\<close> returns the value (a 64-bit \<open>long\<close>, clamped) and the
  text that the end pointer refers to.
\<close>

section \<open>Numbers\<close>

definition c_isspace :: "char \<Rightarrow> bool" where
  "c_isspace c \<longleftrightarrow> c = CHR '' '' \<or> (9 \<le> (of_char c :: nat) \<and> (of_char c :: nat) \<le> 13)"

definition digit_val :: "char \<Rightarrow> nat option" where
  "digit_val c =
     (let n = (of_char c :: nat)
      in if 48 \<le> n \<and> n \<le> 57 then Some (n - 48)
         else if 97 \<le> n \<and> n \<le> 122 then Some (n - 87)
         else if 65 \<le> n \<and> n \<le> 90 then Some (n - 55)
         else None)"

definition is_digit_in :: "nat \<Rightarrow> char \<Rightarrow> bool" where
  "is_digit_in base c = (case digit_val c of None \<Rightarrow> False | Some d \<Rightarrow> d < base)"

fun digits_from :: "nat \<Rightarrow> nat \<Rightarrow> string \<Rightarrow> nat \<times> string" where
  "digits_from base acc [] = (acc, [])"
| "digits_from base acc (c # cs) =
     (if is_digit_in base c then digits_from base (acc * base + the (digit_val c)) cs else (acc, c # cs))"

definition clamp_long :: "int \<Rightarrow> int" where
  "clamp_long x = max (- (2 ^ 63)) (min (2 ^ 63 - 1) x)"

definition c_sign :: "string \<Rightarrow> bool \<times> string" where
  "c_sign t = (case t of [] \<Rightarrow> (False, []) | c # r \<Rightarrow>
     if c = CHR ''-'' then (True, r) else if c = CHR ''+'' then (False, r) else (False, t))"

definition c_base :: "string \<Rightarrow> nat \<times> string" where
  "c_base u =
     (case u of
        c # x # y # r \<Rightarrow>
          if c = CHR ''0'' then
            (if (x = CHR ''x'' \<or> x = CHR ''X'') \<and> is_digit_in 16 y then (16, y # r) else (8, u))
          else (10, u)
      | c # r \<Rightarrow> if c = CHR ''0'' then (8, u) else (10, u)
      | [] \<Rightarrow> (10, u))"

definition strtol0 :: "string \<Rightarrow> int \<times> string" where
  "strtol0 s =
     (let (neg, u) = c_sign (dropWhile c_isspace s)
      in if u = [] \<or> \<not> is_digit_in 10 (hd u) then (0, s)
         else
           let (base, v) = c_base u;
               (n, rest) = digits_from base 0 v
           in (clamp_long (if neg then - int n else int n), rest))"

lemma of_char_dec [simp]: "n < 10 \<Longrightarrow> (of_char (char_of (48 + n) :: char) :: nat) = 48 + n" for n :: nat
  by (simp add: of_char_of)

lemma digit_val_dec: "n < 10 \<Longrightarrow> digit_val (char_of (48 + n)) = Some n" for n :: nat
  by (simp add: digit_val_def Let_def)

lemma is_digit_dec: "n < 10 \<Longrightarrow> 10 \<le> base \<Longrightarrow> is_digit_in base (char_of (48 + n))" for n :: nat
  by (simp add: is_digit_in_def digit_val_dec)

lemma digits_from_dec_nat:
  "digits_from 10 acc (dec_nat n @ rest) = digits_from 10 (acc * 10 ^ length (dec_nat n) + n) rest"
proof (induction n arbitrary: acc rest rule: dec_nat.induct)
  case (1 n)
  show ?case
  proof (cases "n < 10")
    case True
    then show ?thesis by (simp add: dec_nat.simps [of n] is_digit_dec digit_val_dec)
  next
    case False
    have "n mod 10 < 10" by simp
    then have "digits_from 10 a (char_of (48 + n mod 10) # rest) = digits_from 10 (a * 10 + n mod 10) rest" for a
      by (simp add: is_digit_dec digit_val_dec)
    with 1 [OF False, of acc "char_of (48 + n mod 10) # rest"] False show ?thesis
      by (simp add: dec_nat.simps [of n] algebra_simps)
  qed
qed

lemma dec_nat_hd:
  "\<exists>(d :: nat) ds. dec_nat n = char_of (48 + d) # ds \<and> d < 10 \<and> (d = 0 \<longrightarrow> n = 0 \<and> ds = [])"
proof (induction n rule: dec_nat.induct)
  case (1 n)
  show ?case
  proof (cases "n < 10")
    case True
    then have "dec_nat n = char_of (48 + n) # [] \<and> n < 10 \<and> (n = 0 \<longrightarrow> n = 0 \<and> [] = [])" by (simp add: dec_nat.simps [of n])
    then show ?thesis by blast
  next
    case False
    from 1 [OF False] obtain d :: nat and ds where "dec_nat (n div 10) = char_of (48 + d) # ds" "d < 10"
      "d = 0 \<longrightarrow> n div 10 = 0 \<and> ds = []" by blast
    with False have "dec_nat n = char_of (48 + d) # (ds @ [char_of (48 + n mod 10)]) \<and> d < 10 \<and> d \<noteq> 0"
      by (auto simp: dec_nat.simps [of n])
    then show ?thesis by blast
  qed
qed

text \<open>What follows a number must not continue it, in any base.\<close>

definition number_ends :: "string \<Rightarrow> bool" where
  "number_ends rest \<longleftrightarrow> (case rest of [] \<Rightarrow> True | c # cs \<Rightarrow> digit_val c = None)"

lemma digits_from_ends: "number_ends rest \<Longrightarrow> digits_from base acc rest = (acc, rest)"
  by (cases rest) (simp_all add: number_ends_def is_digit_in_def)

lemma char_of_48 [simp]: "char_of (48 :: nat) = CHR ''0''"
  using char_of_char [where ?'a = nat, of "CHR ''0''"] by simp

lemma not_digit_chars: "digit_val (CHR ''-'') = None" "digit_val (CHR ''+'') = None" "digit_val (CHR ''x'') = Some 33"
  "digit_val (CHR ''X'') = Some 33" "digit_val (CHR ''0'') = Some 0" "digit_val (CHR ''/'') = None"
  by (simp_all add: digit_val_def)

lemma digit_not_space: "is_digit_in 10 c \<Longrightarrow> \<not> c_isspace c"
  by (auto simp: is_digit_in_def digit_val_def c_isspace_def Let_def split: if_splits)

lemma c_base_zero: "number_ends rest \<Longrightarrow> c_base (CHR ''0'' # rest) = (8, CHR ''0'' # rest)"
  by (auto simp: c_base_def number_ends_def not_digit_chars split: list.splits)

lemma c_base_decimal: "c \<noteq> CHR ''0'' \<Longrightarrow> c_base (c # cs) = (10, c # cs)"
  by (simp add: c_base_def split: list.splits)

text \<open>\<open>strtol\<close> reads back what \<open>%d\<close> prints, and stops where the number ends.\<close>

lemma strtol0_dec_nat:
  assumes "int n < 2 ^ 63" "number_ends rest"
  shows "strtol0 (dec_nat n @ rest) = (int n, rest)"
proof -
  obtain d :: nat and ds where d: "dec_nat n = char_of (48 + d) # ds" "d < 10" "d = 0 \<longrightarrow> n = 0 \<and> ds = []"
    using dec_nat_hd by blast
  define c where "c = (char_of (48 + d) :: char)"
  have c: "is_digit_in 10 c" "digit_val c = Some d" using d(2) by (simp_all add: c_def is_digit_dec digit_val_dec)
  then have nc: "\<not> c_isspace c" "c \<noteq> CHR ''-''" "c \<noteq> CHR ''+''"
    using digit_not_space by (auto simp: not_digit_chars)
  have sign: "c_sign (dropWhile c_isspace (dec_nat n @ rest)) = (False, dec_nat n @ rest)"
    using nc by (simp add: d(1) c_sign_def flip: c_def)
  have clamp: "clamp_long (int n) = int n" using assms(1) by (simp add: clamp_long_def)
  show ?thesis
  proof (cases "d = 0")
    case True
    then have "dec_nat n @ rest = CHR ''0'' # rest" "n = 0" using d by auto
    moreover have "digits_from 8 0 (CHR ''0'' # rest) = (0, rest)"
      using digits_from_ends [OF assms(2)] by (simp add: is_digit_in_def not_digit_chars)
    ultimately show ?thesis
      using sign clamp c_base_zero [OF assms(2)]
      by (simp add: strtol0_def is_digit_in_def not_digit_chars)
  next
    case False
    then have "c \<noteq> CHR ''0''" using c(2) by (auto simp: not_digit_chars)
    then have "c_base (dec_nat n @ rest) = (10, dec_nat n @ rest)" by (simp add: d(1) c_base_decimal flip: c_def)
    moreover have "digits_from 10 0 (dec_nat n @ rest) = (n, rest)"
      by (simp add: digits_from_dec_nat digits_from_ends assms(2))
    moreover have "hd (dec_nat n @ rest) = c" "dec_nat n \<noteq> []" by (simp_all add: d(1) c_def)
    ultimately show ?thesis using sign c(1) clamp by (simp add: strtol0_def)
  qed
qed

section \<open>Searching\<close>

fun strstr :: "string \<Rightarrow> string \<Rightarrow> nat option" where
  "strstr hay needle =
     (if prefix needle hay then Some 0
      else case hay of [] \<Rightarrow> None | c # cs \<Rightarrow> map_option Suc (strstr cs needle))"

declare strstr.simps [simp del]

lemma strstr_prefix: "strstr (needle @ rest) needle = Some 0"
  by (simp add: strstr.simps)

lemma strstr_skip:
  assumes "n # ns = needle" "n \<notin> set xs"
  shows "strstr (xs @ ys) needle = map_option ((+) (length xs)) (strstr ys needle)"
  using assms(2)
proof (induction xs)
  case Nil
  show ?case by (cases "strstr ys needle") simp_all
next
  case (Cons x xs)
  then have "\<not> prefix needle (x # xs @ ys)" using assms(1) by auto
  with Cons show ?case by (simp add: strstr.simps [of "x # xs @ ys"] option.map_comp comp_def)
qed

lemma strstr_None: "n # ns = needle \<Longrightarrow> n \<notin> set xs \<Longrightarrow> strstr xs needle = None"
  using strstr_skip [of n ns needle xs "[]"] by (auto simp: strstr.simps [of "[]"])

end
