(* ===== verification/Url_Parser.thy ===== *)
theory Url_Parser
  imports C_Text
begin

text \<open>
  The class \<open>UrlParser\<close> of the proxy source (\<open>sources/stsw_proxy_source/src/url.h\<close>). Pointers into
  the text are offsets; \<open>None\<close> is the null pointer. A part that is empty leaves its field as it is.
\<close>

record UrlParser =
  url_protocol :: string
  url_host_name :: string
  url_port :: int
  url_path :: string

definition new_UrlParser :: UrlParser where
  "new_UrlParser = \<lparr>url_protocol = '''', url_host_name = '''', url_port = 0, url_path = ''''\<rparr>"

definition sub_text :: "string \<Rightarrow> nat \<Rightarrow> nat \<Rightarrow> string" where
  "sub_text u start len = take len (drop start u)"

definition url_port_part :: "string \<Rightarrow> nat \<Rightarrow> nat option \<Rightarrow> nat \<Rightarrow> nat \<Rightarrow> nat \<times> nat \<times> nat" where
  "url_port_part u hostname_start path_start path_len hostname_len =
     (case strstr (drop hostname_start u) '':'' of
        None \<Rightarrow> (0, 0, hostname_len)
      | Some k \<Rightarrow>
          if path_start \<noteq> None \<and> hostname_start + k \<ge> the path_start then (0, 0, hostname_len)
          else
            let port_start = hostname_start + k + 1
            in (port_start,
                if path_len \<noteq> 0 then the path_start - port_start - 1 else length u - port_start,
                port_start - hostname_start - 1))"

definition UrlParser_Parse :: "string \<Rightarrow> UrlParser \<Rightarrow> UrlParser" where
  "UrlParser_Parse urlname p =
     (let u = c_str urlname;
          (hostname_start, protocol_len) =
            (case strstr u ''://'' of None \<Rightarrow> (0, 0) | Some i \<Rightarrow> (i + 3, i));
          (path_start, hostname_len1, path_len) =
            (case strstr (drop hostname_start u) ''/'' of
               None \<Rightarrow> (None, length u - hostname_start, 0)
             | Some j \<Rightarrow> (Some (hostname_start + j + 1), j, length u - (hostname_start + j + 1)));
          (port_start, port_len, hostname_len) =
            url_port_part u hostname_start path_start path_len hostname_len1;
          p1 = (if protocol_len \<noteq> 0 then p\<lparr>url_protocol := sub_text u 0 protocol_len\<rparr> else p);
          p2 = (if port_len \<noteq> 0
                then p1\<lparr>url_port := to_int32 (fst (strtol0 (sub_text u port_start port_len)))\<rparr> else p1);
          p3 = (if path_len \<noteq> 0 then p2\<lparr>url_path := sub_text u (the path_start) path_len\<rparr> else p2)
      in if hostname_len \<noteq> 0 then p3\<lparr>url_host_name := sub_text u hostname_start hostname_len\<rparr> else p3)"

lemma dec_nat_chars: "c \<in> set (dec_nat n) \<Longrightarrow> is_digit_in 10 c"
proof (induction n rule: dec_nat.induct)
  case (1 n)
  have "n mod 10 < 10" by simp
  with 1 show ?case by (cases "n < 10") (auto simp: dec_nat.simps [of n] is_digit_dec)
qed

lemma dec_nat_not:
  "CHR ''/'' \<notin> set (dec_nat n)" "CHR '':'' \<notin> set (dec_nat n)" "CHR 0x00 \<notin> set (dec_nat n)"
  by (auto simp: is_digit_in_def digit_val_def dest!: dec_nat_chars)

lemma dec_nat_ne: "dec_nat n \<noteq> []"
  using dec_nat_hd [of n] by auto

text \<open>C30: A well-formed address is taken apart into the parts it was put together from: a protocol without
  colons, a host without colons and slashes, a port and, after a slash, any path.\<close>

theorem url_roundtrip:
  assumes "CHR 0x00 \<notin> set (proto @ host @ path)" "proto \<noteq> []" "CHR '':'' \<notin> set proto"
    and "host \<noteq> []" "CHR '':'' \<notin> set host" "CHR ''/'' \<notin> set host" "port < 2 ^ 31"
    and "tail = [] \<and> path = [] \<or> tail = CHR ''/'' # path"
  shows "UrlParser_Parse (proto @ ''://'' @ host @ '':'' @ dec_nat port @ tail) new_UrlParser =
    \<lparr>url_protocol = proto, url_host_name = host, url_port = int port, url_path = path\<rparr>"
proof -
  define u where "u = proto @ ''://'' @ host @ '':'' @ dec_nat port @ tail"
  define hs where "hs = length proto + 3"
  have nul: "c_str u = u" using assms(1,8) dec_nat_not(3) [of port] by (intro c_str_id) (auto simp: u_def)
  have proto: "strstr u ''://'' = Some (length proto)"
    using strstr_skip [of "CHR '':''" "''//''" _ proto] strstr_prefix [of "''://''"] assms(3) by (simp add: u_def)
  have drop_hs: "drop hs u = host @ '':'' @ dec_nat port @ tail" by (simp add: u_def hs_def)
  have len: "length u = hs + length host + 1 + length (dec_nat port) + length tail" by (simp add: u_def hs_def)
  have colon: "strstr (drop hs u) '':'' = Some (length host)"
    using strstr_skip [of "CHR '':''" "[]" _ host] strstr_prefix [of "'':''"] assms(5) by (simp add: drop_hs)
  have ends: "number_ends tail" using assms(8) by (auto simp: number_ends_def not_digit_chars)
  have num: "fst (strtol0 (dec_nat port @ r)) = int port" if "number_ends r" for r
    using strtol0_dec_nat [OF _ that, of port] assms(7) by simp
  have i32: "to_int32 (int port) = int port" using assms(7) by (intro to_int32_id) simp_all
  have slash: "strstr (drop hs u) ''/'' =
      (if tail = [] then None else Some (length host + 1 + length (dec_nat port)))"
  proof (cases "tail = []")
    case True
    have "CHR ''/'' \<notin> set (host @ '':'' @ dec_nat port)" using assms(6) dec_nat_not(1) by simp
    from strstr_None [OF refl this] True show ?thesis by (simp add: drop_hs)
  next
    case False
    have "CHR ''/'' \<notin> set (host @ '':'' @ dec_nat port)" using assms(6) dec_nat_not(1) by simp
    from strstr_skip [OF _ this, of "[]" "''/''" tail] False assms(8) strstr_prefix [of "''/''" path]
    show ?thesis by (simp add: drop_hs)
  qed
  have drop_more: "drop (hs + k) u = drop k (host @ '':'' @ dec_nat port @ tail)" for k
    by (metis drop_hs drop_drop add.commute)
  have parts: "sub_text u 0 (length proto) = proto" "sub_text u hs (length host) = host"
    "sub_text u (hs + length host + 1) (length (dec_nat port)) = dec_nat port"
    "sub_text u (hs + length host + 1) (length u - (hs + length host + 1)) = dec_nat port @ tail"
    "sub_text u (hs + (length host + 1 + length (dec_nat port)) + 1) n = take n (drop 1 tail)" for n
    using drop_more [of 0] drop_more [of "length host + 1"] drop_more [of "length host + 1 + length (dec_nat port) + 1"] len
    by (simp_all add: sub_text_def) (simp add: u_def)
  have hs: "length proto + 3 = hs" by (simp add: hs_def)
  have "UrlParser_Parse u new_UrlParser =
    \<lparr>url_protocol = proto, url_host_name = host, url_port = int port, url_path = path\<rparr>"
  proof (cases "path = []")
    case True
    have pl: "length u - (hs + (length host + 1 + length (dec_nat port)) + 1) = 0"
      using True assms(8) len by auto
    have "url_port_part u hs q 0 k = (hs + length host + 1, length u - (hs + length host + 1), length host)"
      if "q = None \<or> q = Some (hs + (length host + 1 + length (dec_nat port)) + 1)" for q k
      using that colon by (auto simp: url_port_part_def Let_def)
    with True proto slash assms(2,4) num [OF ends] i32 len dec_nat_ne [of port] parts(1,2,4) pl show ?thesis
      by (auto simp: UrlParser_Parse_def nul Let_def new_UrlParser_def hs)
  next
    case False
    then have tail: "tail = CHR ''/'' # path" using assms(8) by blast
    define ps where "ps = hs + (length host + 1 + length (dec_nat port)) + 1"
    have ps: "length u - ps = length path" using tail len by (simp add: ps_def)
    have "url_port_part u hs (Some ps) (length path) k = (hs + length host + 1, length (dec_nat port), length host)" for k
      using False colon by (simp add: url_port_part_def Let_def ps_def)
    moreover have "strstr (drop hs u) ''/'' = Some (ps - hs - 1)" using slash tail by (simp add: ps_def)
    moreover have "hs + (ps - hs - 1) + 1 = ps" by (simp add: ps_def)
    moreover have "sub_text u ps (length path) = path" using parts(5) tail by (simp add: ps_def)
    ultimately show ?thesis
      using False proto assms(2,4) num [of "[]"] i32 ps dec_nat_ne [of port] parts(1-3)
      by (simp add: UrlParser_Parse_def nul Let_def new_UrlParser_def number_ends_def hs)
  qed
  then show ?thesis by (simp only: u_def)
qed

theorem url_roundtrip_witness:
  "UrlParser_Parse ''stsw://10.0.0.1:8000/cam'' new_UrlParser =
     \<lparr>url_protocol = ''stsw'', url_host_name = ''10.0.0.1'', url_port = 8000, url_path = ''cam''\<rparr>"
proof -
  have "dec_nat 8000 = ''8000''" by (simp add: dec_nat.simps char_of_eq_iff)
  then show ?thesis using url_roundtrip [of "''stsw''" "''10.0.0.1''" "''cam''" 8000 "''/cam''"] by simp
qed

end
