(* ===== verification/Stream_Proxy.thy ===== *)
theory Stream_Proxy
  imports Stream_System Url_Parser
begin

text \<open>
  The proxy source (\<open>sources/stsw_proxy_source/src/stsw_stream_proxy.cc\<close>): a sink that reads a live
  stream from a back-end source, and a source that publishes it again. The proxy is the listener of
  both.

  The sink model records the calls of its listener; \<open>proxy_sub_read\<close> is one message read by the
  sink's worker, followed by the proxy's own callbacks. The source model takes the listener's
  \<open>OnMediaStatistic\<close> as a function, which here depends on the sink: \<open>proxy_listener\<close>. Log messages
  are left out. The address of the outgoing interface (\<open>GetOutIp4\<close>), the process id and the clock
  are parameters.
\<close>

unbundle bit_operations_syntax

section \<open>State\<close>

abbreviation STREAM_PROXY_FLAG_INIT :: u32 where "STREAM_PROXY_FLAG_INIT \<equiv> 1"
abbreviation STREAM_PROXY_FLAG_STARTED :: u32 where "STREAM_PROXY_FLAG_STARTED \<equiv> 2"
abbreviation STREAM_PROXY_FLAG_META_READY :: u32 where "STREAM_PROXY_FLAG_META_READY \<equiv> 4"

record 'b StreamProxySource =
  px_source :: "'b StreamSource"
  px_sink :: "'b StreamSink"
  px_lock :: bool
  px_need_key_frame :: bool
  px_need_update_metadata :: bool
  px_last_frame_recv :: int
  px_flags :: u32

definition new_StreamProxySource :: "'b StreamProxySource" where
  "new_StreamProxySource =
     \<lparr>px_source = new_StreamSource, px_sink = new_StreamSink, px_lock = False,
      px_need_key_frame = False, px_need_update_metadata = False, px_last_frame_recv = 0, px_flags = 0\<rparr>"

definition IsInit_proxy :: "'b StreamProxySource \<Rightarrow> bool" where
  "IsInit_proxy p \<longleftrightarrow> flag_on (px_flags p) STREAM_PROXY_FLAG_INIT"

definition IsStarted_proxy :: "'b StreamProxySource \<Rightarrow> bool" where
  "IsStarted_proxy p \<longleftrightarrow> flag_on (px_flags p) STREAM_PROXY_FLAG_STARTED"

definition IsMetaReady :: "'b StreamProxySource \<Rightarrow> bool" where
  "IsMetaReady p \<longleftrightarrow> flag_on (px_flags p) STREAM_PROXY_FLAG_META_READY"

section \<open>Callbacks\<close>

definition proxy_OnKeyFrame :: "'b StreamProxySource \<Rightarrow> 'b StreamProxySource" where
  "proxy_OnKeyFrame p = p\<lparr>px_need_key_frame := True\<rparr>"

text \<open>\<open>garbage\<close> is the content of the local \<open>sink_statistic\<close>, which has no constructor.\<close>

definition proxy_OnMediaStatistic ::
  "MediaStatisticInfo \<Rightarrow> int \<Rightarrow> 'b StreamSink \<Rightarrow> MediaStatisticInfo \<Rightarrow> MediaStatisticInfo" where
  "proxy_OnMediaStatistic garbage zclock_time sink statistic =
     (case ReceiverStatistic zclock_time (Some garbage) sink of
        None \<Rightarrow> statistic
      | Some sink_statistic \<Rightarrow>
          if mi_ssrc statistic = mi_ssrc sink_statistic \<and>
             length (mi_sub_streams statistic) = length (mi_sub_streams sink_statistic)
          then statistic\<lparr>mi_sub_streams :=
                 map2 (\<lambda>a b. a\<lparr>st_lost_frames := st_lost_frames b\<rparr>)
                   (mi_sub_streams statistic) (mi_sub_streams sink_statistic)\<rparr>
          else statistic)"

definition proxy_listener :: "MediaStatisticInfo \<Rightarrow> int \<Rightarrow> 'b StreamSink \<Rightarrow> SourceListener" where
  "proxy_listener garbage zclock_time sink = \<lparr>on_media_statistic = proxy_OnMediaStatistic garbage zclock_time sink\<rparr>"

text \<open>The result of \<open>SendLiveMediaFrame\<close> is ignored.\<close>

definition proxy_OnLiveMediaFrame ::
  "'b pb_codec \<Rightarrow> int \<Rightarrow> MediaFrameInfo \<Rightarrow> blob \<Rightarrow> 'b StreamProxySource \<Rightarrow> 'b StreamProxySource cpp" where
  "proxy_OnLiveMediaFrame C now frame_info frame_data p =
     bind_cpp (SendLiveMediaFrame C frame_info frame_data (px_source p))
       (\<lambda>(ret, s). Ret (p\<lparr>px_source := s, px_last_frame_recv := now\<rparr>))"

definition proxy_OnMetadataMismatch :: "u32 \<Rightarrow> 'b StreamProxySource \<Rightarrow> 'b StreamProxySource" where
  "proxy_OnMetadataMismatch mismatch_ssrc p = p\<lparr>px_need_update_metadata := True\<rparr>"

definition proxy_sink_call ::
  "'b pb_codec \<Rightarrow> int \<Rightarrow> sink_call \<Rightarrow> 'b StreamProxySource \<Rightarrow> 'b StreamProxySource cpp" where
  "proxy_sink_call C now c p =
     (case c of
        OnLiveMediaFrame f d \<Rightarrow> proxy_OnLiveMediaFrame C now f d p
      | OnMetadataMismatch x \<Rightarrow> Ret (proxy_OnMetadataMismatch x p))"

fun proxy_sink_calls ::
  "'b pb_codec \<Rightarrow> int \<Rightarrow> sink_call list \<Rightarrow> 'b StreamProxySource \<Rightarrow> 'b StreamProxySource cpp" where
  "proxy_sink_calls C now [] p = Ret p"
| "proxy_sink_calls C now (c # cs) p = bind_cpp (proxy_sink_call C now c p) (proxy_sink_calls C now cs)"

text \<open>One message read by the sink's worker thread.\<close>

definition proxy_sub_read ::
  "'b sink_env \<Rightarrow> int \<Rightarrow> 'b sub_zmsg \<Rightarrow> 'b StreamProxySource \<Rightarrow> 'b StreamProxySource cpp" where
  "proxy_sub_read E now zmsg p =
     bind_cpp (OnSubRead E zmsg (px_sink p))
       (\<lambda>k. proxy_sink_calls (ke_codec E) now (drop (length (snk_calls (px_sink p))) (snk_calls k))
              (p\<lparr>px_sink := k\<rparr>))"

section \<open>Life cycle\<close>

record proxy_env =
  pe_out_ip :: "string option"
  pe_pid :: int
  pe_mutexattr_settype :: int
  pe_mutex_init :: int
  pe_sink_init :: sink_init_env
  pe_source_init :: init_env
  pe_garbage :: MediaStatisticInfo
  pe_zclock_time :: int

definition proxy_client_info :: "proxy_env \<Rightarrow> int \<Rightarrow> StreamClientInfo" where
  "proxy_client_info pe source_tcp_port =
     (let c = (case pe_out_ip pe of
                 None \<Rightarrow> new_StreamClientInfo
               | Some ip \<Rightarrow> new_StreamClientInfo\<lparr>ci_client_ip := ip\<rparr>)
      in c\<lparr>ci_client_port := source_tcp_port, ci_client_protocol := ''stsw'',
           ci_client_token := dec_int (pe_pid pe smod 0xffffff), ci_client_text := ''stsw_stream_proxy''\<rparr>)"

definition proxy_Init ::
  "proxy_env \<Rightarrow> 'b src_env \<Rightarrow> string \<Rightarrow> string \<Rightarrow> int \<Rightarrow> int \<Rightarrow> int \<Rightarrow> int \<Rightarrow> 'b StreamProxySource \<Rightarrow>
     (int \<times> 'b StreamProxySource) cpp" where
  "proxy_Init pe E stsw_url stream_name source_tcp_port sub_queue_size pub_queue_size debug_flags p =
     (if length stsw_url = 0 then Ret (-1, p)
      else if sub_queue_size = 0 \<or> pub_queue_size = 0 then Ret (-1, p)
      else
        let url = UrlParser_Parse (c_str stsw_url) new_UrlParser
        in if length (url_protocol url) = 0 \<or> url_protocol url \<noteq> ''stsw'' then Ret (-1, p)
        else if length (url_host_name url) = 0 then Ret (-1, p)
        else if url_port url = 0 then Ret (-1, p)
        else if IsInit_proxy p then Ret (-1, p)
        else if pe_mutexattr_settype pe \<noteq> 0 then Ret (ERROR_CODE_SYSTEM, p)
        else if pe_mutex_init pe \<noteq> 0 then Ret (ERROR_CODE_SYSTEM, p)
        else
          let p1 = p\<lparr>px_lock := True\<rparr>;
              (ret, k) = InitRemote (pe_sink_init pe) (url_host_name url) (url_port url)
                (proxy_client_info pe source_tcp_port) (of_int sub_queue_size) True (of_int debug_flags) (px_sink p1);
              p2 = p1\<lparr>px_sink := k\<rparr>
          in if ret \<noteq> 0 then Ret (ret, p2\<lparr>px_lock := False\<rparr>)
          else
            bind_cpp (Init (pe_source_init pe) stream_name source_tcp_port (of_int pub_queue_size)
                (Some (proxy_listener (pe_garbage pe) (pe_zclock_time pe) k)) (of_int debug_flags) (px_source p2))
              (\<lambda>(ret, s).
                 let p3 = p2\<lparr>px_source := s\<rparr>
                 in if ret \<noteq> 0
                    then Ret (ret, p3\<lparr>px_sink := Uninit_sink (px_sink p3), px_lock := False\<rparr>)
                    else Ret (0, p3\<lparr>px_source := set_stream_state E SOURCE_STREAM_STATE_CONNECTING s,
                                   px_flags := px_flags p3 OR STREAM_PROXY_FLAG_INIT\<rparr>)))"

definition proxy_Start ::
  "'b src_env \<Rightarrow> nat option \<Rightarrow> bool \<Rightarrow> int \<Rightarrow> nat option \<Rightarrow> 'b StreamProxySource \<Rightarrow> int \<times> 'b StreamProxySource" where
  "proxy_Start E src_thread sub_new sub_attach snk_thread p =
     (if \<not> IsInit_proxy p then (-1, p)
      else if \<not> IsMetaReady p then (-1, p)
      else if IsStarted_proxy p then (0, p)
      else
        let p1 = p\<lparr>px_last_frame_recv := se_time E\<rparr>;
            (ret, s) = Start src_thread (px_source p1)
        in if ret \<noteq> 0
           then (ret, p1\<lparr>px_source := set_stream_state E SOURCE_STREAM_STATE_ERR s\<rparr>)
           else
             let p2 = p1\<lparr>px_source := s\<rparr>;
                 (ret, k) = Start_sink sub_new sub_attach snk_thread (px_sink p2)
             in if ret \<noteq> 0
                then (ret, p2\<lparr>px_sink := k, px_source := set_stream_state E SOURCE_STREAM_STATE_ERR s\<rparr>)
                else (0, p2\<lparr>px_sink := k, px_source := set_stream_state E SOURCE_STREAM_STATE_OK s,
                           px_flags := px_flags p2 OR STREAM_PROXY_FLAG_STARTED\<rparr>))"

definition proxy_Stop :: "'b StreamProxySource \<Rightarrow> 'b StreamProxySource" where
  "proxy_Stop p =
     (if \<not> IsInit_proxy p then p
      else if \<not> IsStarted_proxy p then p
      else p\<lparr>px_flags := px_flags p AND NOT STREAM_PROXY_FLAG_STARTED,
             px_sink := Stop_sink (px_sink p), px_source := Stop (px_source p)\<rparr>)"

definition proxy_Uninit :: "'b StreamProxySource \<Rightarrow> 'b StreamProxySource" where
  "proxy_Uninit p =
     (if \<not> IsInit_proxy p then p
      else
        let p1 = proxy_Stop p
        in p1\<lparr>px_flags := px_flags p1 AND NOT STREAM_PROXY_FLAG_INIT,
              px_source := Uninit (px_source p1), px_sink := Uninit_sink (px_sink p1), px_lock := False\<rparr>)"

text \<open>The temporary \<open>tmp_metadata\<close> is the copy that the sink's method returns; the caller's \<open>metadata\<close>
  gets the metadata of the source.\<close>

definition proxy_UpdateStreamMetaData ::
  "'b src_env \<Rightarrow> 'b rpc_env \<Rightarrow> int \<Rightarrow> 'b StreamProxySource \<Rightarrow> (int \<times> 'b StreamProxySource) cpp" where
  "proxy_UpdateStreamMetaData E R timeout p =
     (if \<not> IsInit_proxy p then Ret (-1, p)
      else
        bind_cpp (UpdateStreamMetaData R timeout (px_sink p)) (\<lambda>(ret, k).
          let p1 = p\<lparr>px_sink := k\<rparr>;
              tmp_metadata = snk_stream_meta k
          in if ret \<noteq> 0
             then Ret (ret, p1\<lparr>px_source := set_stream_state E SOURCE_STREAM_STATE_ERR_CONNECT_FAIL (px_source p1)\<rparr>)
             else if sm_play_type tmp_metadata \<noteq> STREAM_PLAY_TYPE_LIVE
             then Ret (-1, p1\<lparr>px_source := set_stream_state E SOURCE_STREAM_STATE_ERR (px_source p1)\<rparr>)
             else Ret (0, p1\<lparr>px_source := set_stream_meta (tmp_metadata\<lparr>sm_source_proto := ''STSW''\<rparr>) (px_source p1),
                            px_flags := px_flags p1 OR STREAM_PROXY_FLAG_META_READY\<rparr>)))"

abbreviation MAX_FRAME_INTERVAL_SEC :: int where "MAX_FRAME_INTERVAL_SEC \<equiv> 10"
abbreviation DEFAULT_TIMEOUT_MSEC :: int where "DEFAULT_TIMEOUT_MSEC \<equiv> 5000"

definition proxy_Hearbeat ::
  "'b src_env \<Rightarrow> 'b rpc_env \<Rightarrow> nat option \<Rightarrow> bool \<Rightarrow> int \<Rightarrow> nat option \<Rightarrow> 'b StreamProxySource \<Rightarrow>
     (int \<times> 'b StreamProxySource) cpp" where
  "proxy_Hearbeat E R src_thread sub_new sub_attach snk_thread p =
     (if \<not> IsInit_proxy p then Ret (-1, p)
      else if \<not> IsStarted_proxy p then Ret (-1, p)
      else
        let need_key_frame = px_need_key_frame p;
            need_update_metadata = px_need_update_metadata p;
            p1 = p\<lparr>px_need_key_frame := False, px_need_update_metadata := False\<rparr>;
            now = se_time E
        in if now - px_last_frame_recv p1 \<ge> MAX_FRAME_INTERVAL_SEC
           then Ret (ERROR_CODE_GENERAL,
                  p1\<lparr>px_source := set_stream_state E SOURCE_STREAM_STATE_ERR_MEIDA_STOP (px_source p1)\<rparr>)
           else
             bind_cpp
               (if need_key_frame then
                  bind_cpp (KeyFrame R DEFAULT_TIMEOUT_MSEC (px_sink p1)) (\<lambda>(ret, k).
                    let p2 = p1\<lparr>px_sink := k\<rparr>
                    in if ret \<noteq> 0
                       then Ret (ret, p2\<lparr>px_source := set_stream_state E SOURCE_STREAM_STATE_ERR (px_source p2)\<rparr>)
                       else Ret (0, p2))
                else Ret (0, p1))
               (\<lambda>(ret, p2).
                  if ret \<noteq> 0 then Ret (ret, p2)
                  else if need_update_metadata then
                    bind_cpp (proxy_UpdateStreamMetaData E R DEFAULT_TIMEOUT_MSEC (proxy_Stop p2)) (\<lambda>(ret, p3).
                      if ret \<noteq> 0 then Ret (ret, p3)
                      else Ret (proxy_Start E src_thread sub_new sub_attach snk_thread p3))
                  else Ret (0, p2)))"

text \<open>One request read by the source's worker thread: the statistic callback reads the sink, and the key
  frame callback is called when the handler has counted a call.\<close>

definition proxy_api_read ::
  "'b src_env \<Rightarrow> MediaStatisticInfo \<Rightarrow> 'b api_msg option \<Rightarrow> 'b StreamProxySource \<Rightarrow> 'b StreamProxySource" where
  "proxy_api_read E garbage zmsg p =
     (let s0 = (px_source p)\<lparr>src_listener :=
            map_option (\<lambda>_. proxy_listener garbage (se_zclock_time E) (px_sink p)) (src_listener (px_source p))\<rparr>;
          s1 = OnApiSocketRead E zmsg s0;
          p1 = p\<lparr>px_source := s1\<rparr>
      in if src_key_frame_calls s1 > src_key_frame_calls s0 then proxy_OnKeyFrame p1 else p1)"

end
