(* ===== verification/Thread_Lifecycle.thy ===== *)
theory Thread_Lifecycle
  imports Source_Properties Sink_Properties
begin

text \<open>
  Threads that share a source or a sink: application threads that call \<open>Start\<close>, \<open>Stop\<close> and the
  other methods, and the worker threads that \<open>Start\<close> creates.

  \<open>Stop\<close> releases the lock while it waits for the worker, so it is two steps here, with the call
  pending in between. The sink's \<open>Start\<close> sets its flag only after \<open>pthread_create\<close>, and the worker
  reads the flag without the lock, so it is two steps as well. All other methods hold the lock
  and are one step. \<open>Init\<close> and \<open>Uninit\<close> are documented as not thread-safe and are no steps. A worker
  may run its loop body after the flag is cleared (it has tested the flag before) and leaves the
  loop only when it finds the flag cleared.
\<close>

section \<open>Source\<close>

text \<open>The thread to join, if any, and the state at the moment \<open>Stop\<close> releases the lock; then the part
  of \<open>Stop\<close> after the join.\<close>

definition Stop_begin :: "'b StreamSource \<Rightarrow> nat option \<times> 'b StreamSource" where
  "Stop_begin s =
     (if \<not> flag_on (src_flags s) STREAM_SOURCE_FLAG_STARTED then (None, s)
      else
        let s1 = s\<lparr>src_flags := src_flags s AND NOT STREAM_SOURCE_FLAG_STARTED\<rparr>
        in if src_api_thread_id s1 \<noteq> 0 then (Some (src_api_thread_id s1), s1) else (None, s1))"

definition Stop_end :: "'b StreamSource \<Rightarrow> 'b StreamSource" where
  "Stop_end s = s\<lparr>src_api_thread_id := 0\<rparr>"

lemma Stop_split: "Stop s = (case Stop_begin s of (None, s1) \<Rightarrow> s1 | (Some _, s1) \<Rightarrow> Stop_end s1)"
  by (simp add: Stop_def Stop_begin_def Stop_end_def Let_def)

text \<open>The shared source, the workers that have not left their loop, and the joins that calls of \<open>Stop\<close>
  wait for.\<close>

record 'b src_sys =
  sys_src :: "'b StreamSource"
  sys_workers :: "nat set"
  sys_joins :: "nat list"

definition start_creates :: "'b StreamSource \<Rightarrow> bool" where
  "start_creates s \<longleftrightarrow> IsInit s \<and> \<not> IsStarted s \<and> src_api_thread_id s = 0"

definition sys_start :: "nat option \<Rightarrow> 'b src_sys \<Rightarrow> 'b src_sys" where
  "sys_start th y =
     y\<lparr>sys_src := snd (Start th (sys_src y)),
       sys_workers := (if start_creates (sys_src y) then set_option th \<union> sys_workers y else sys_workers y)\<rparr>"

definition sys_stop :: "'b src_sys \<Rightarrow> 'b src_sys" where
  "sys_stop y =
     (case Stop_begin (sys_src y) of
        (None, s1) \<Rightarrow> y\<lparr>sys_src := s1\<rparr>
      | (Some tid, s1) \<Rightarrow> y\<lparr>sys_src := s1, sys_joins := sys_joins y @ [tid]\<rparr>)"

definition sys_exit :: "nat \<Rightarrow> 'b src_sys \<Rightarrow> 'b src_sys" where
  "sys_exit tid y = y\<lparr>sys_workers := sys_workers y - {tid}\<rparr>"

definition sys_join :: "nat \<Rightarrow> 'b src_sys \<Rightarrow> 'b src_sys" where
  "sys_join tid y = y\<lparr>sys_src := Stop_end (sys_src y), sys_joins := remove1 tid (sys_joins y)\<rparr>"

text \<open>A registered handler leaves the life cycle alone: the listener interface forbids it to call
  \<open>Init\<close>, \<open>Uninit\<close>, \<open>Start\<close> and \<open>Stop\<close>.\<close>

definition src_life :: "'b StreamSource \<Rightarrow> bool \<times> bool \<times> nat" where
  "src_life s = (IsInit s, IsStarted s, src_api_thread_id s)"

definition user_keeps_life :: "'b src_env \<Rightarrow> bool" where
  "user_keeps_life E \<longleftrightarrow> (\<forall>n ud r b s. src_life (se_user E n ud r b s) = src_life s)"

text \<open>The methods that hold the lock throughout, and the two calls of the worker's loop body.\<close>

inductive source_call :: "'b StreamSource \<Rightarrow> 'b StreamSource \<Rightarrow> bool" where
  call_meta: "source_call s (set_stream_meta m s)"
| call_state: "source_call s (set_stream_state E st s)"
| call_send: "SendLiveMediaFrame C f d s = Ret (r, t) \<Longrightarrow> source_call s t"
| call_register: "source_call s (RegisterApiHandler op h ud s)"
| call_unregister: "source_call s (UnregisterApiHandler op s)"
| call_unregister_all: "source_call s (UnregisterAllApiHandler s)"

inductive worker_call :: "'b StreamSource \<Rightarrow> 'b StreamSource \<Rightarrow> bool" where
  work_read: "user_keeps_life E \<Longrightarrow> worker_call s (OnApiSocketRead E z s)"
| work_heartbeat: "worker_call s (Heartbeat E now s)"

text \<open>\<open>pthread_create\<close> stores an identifier that no unjoined thread has; the code relies on it not
  being 0. \<open>pthread_join\<close> returns when the thread has ended.\<close>

inductive src_sys_step :: "'b src_sys \<Rightarrow> 'b src_sys \<Rightarrow> bool" where
  sys_step_start: "(\<And>tid. th = Some tid \<Longrightarrow> tid \<noteq> 0 \<and> tid \<notin> sys_workers y \<union> set (sys_joins y)) \<Longrightarrow>
     src_sys_step y (sys_start th y)"
| sys_step_stop: "src_sys_step y (sys_stop y)"
| sys_step_call: "source_call (sys_src y) t \<Longrightarrow> src_sys_step y (y\<lparr>sys_src := t\<rparr>)"
| sys_step_work: "tid \<in> sys_workers y \<Longrightarrow> worker_call (sys_src y) t \<Longrightarrow> src_sys_step y (y\<lparr>sys_src := t\<rparr>)"
| sys_step_exit: "tid \<in> sys_workers y \<Longrightarrow> \<not> IsStarted (sys_src y) \<Longrightarrow> src_sys_step y (sys_exit tid y)"
| sys_step_join: "tid \<in> set (sys_joins y) \<Longrightarrow> tid \<notin> sys_workers y \<Longrightarrow> src_sys_step y (sys_join tid y)"

definition src_sys_init :: "'b src_sys \<Rightarrow> bool" where
  "src_sys_init y \<longleftrightarrow> IsInit (sys_src y) \<and> \<not> IsStarted (sys_src y) \<and> src_api_thread_id (sys_src y) = 0 \<and>
     sys_workers y = {} \<and> sys_joins y = []"

text \<open>Started: exactly the recorded worker runs and nobody waits. Stopping: one call waits for the
  recorded worker. Stopped: neither.\<close>

definition thr_ok :: "bool \<Rightarrow> nat \<Rightarrow> nat set \<Rightarrow> nat list \<Rightarrow> bool" where
  "thr_ok started tid workers joins \<longleftrightarrow>
     workers \<subseteq> {tid} \<and> (tid = 0 \<longrightarrow> \<not> started \<and> workers = {}) \<and>
     joins = (if started \<or> tid = 0 then [] else [tid])"

subsection \<open>The methods keep the life cycle\<close>

lemma src_life_update [simp]:
  "src_life (s\<lparr>src_pub_sent := a\<rparr>) = src_life s"
  "src_life (s\<lparr>src_api_sent := b\<rparr>) = src_life s"
  "src_life (s\<lparr>src_receiver_list := c\<rparr>) = src_life s"
  "src_life (s\<lparr>src_key_frame_calls := n\<rparr>) = src_life s"
  "src_life (s\<lparr>src_stream_state := i\<rparr>) = src_life s"
  "src_life (s\<lparr>src_flags := src_flags s OR 2\<rparr>) = src_life s"
  "src_life (s\<lparr>src_flags := src_flags s AND - 3\<rparr>) = src_life s"
  "src_life (s\<lparr>src_api_handler_map := hm\<rparr>) = src_life s"
  "src_life (s\<lparr>src_stream_meta := sm\<rparr>) = src_life s"
  "src_life (s\<lparr>src_statistic := st\<rparr>) = src_life s"
  "src_life (s\<lparr>src_cur_bytes := w\<rparr>) = src_life s"
  "src_life (s\<lparr>src_cur_bps := w\<rparr>) = src_life s"
  "src_life (s\<lparr>src_last_frame_sec := i\<rparr>) = src_life s"
  "src_life (s\<lparr>src_last_frame_usec := i\<rparr>) = src_life s"
  "src_life (s\<lparr>src_last_heartbeat_time := i\<rparr>) = src_life s"
  by (simp_all add: src_life_def src_flag_defs)

lemma SendPublishMsg_life [simp]: "src_life (SendPublishMsg C ch m b s) = src_life s"
  by (simp add: SendPublishMsg_def split: option.splits)

lemma SendStreamInfo_life [simp]: "src_life (SendStreamInfo E s) = src_life s"
  by (simp add: SendStreamInfo_def)

lemma SendRpcReply_life [simp]: "src_life (snd (SendRpcReply C r b s)) = src_life s"
  by (simp add: SendRpcReply_def Let_def)

lemma call_handler_life: "user_keeps_life E \<Longrightarrow> src_life (call_handler E e r b s) = src_life s"
  by (simp add: call_handler_def MetadataHandler_def KeyFrameHandler_def StatisticHandler_def
      ClientHeartbeatHandler_def ClientListHandler_def user_keeps_life_def Let_def
      split: SourceApiHandler.splits option.splits)

lemma OnApiSocketRead_life: "user_keeps_life E \<Longrightarrow> src_life (OnApiSocketRead E z s) = src_life s"
  by (simp add: OnApiSocketRead_def OnRpcRequest_def Let_def call_handler_life split: option.splits)

lemma Heartbeat_life: "src_life (Heartbeat E now s) = src_life s"
  by (simp add: Heartbeat_def Let_def)

lemma worker_call_life: "worker_call s t \<Longrightarrow> src_life t = src_life s"
  by (induction rule: worker_call.induct) (simp_all add: OnApiSocketRead_life Heartbeat_life)

lemma SendLiveMediaFrame_life: "SendLiveMediaFrame C f d s = Ret (r, t) \<Longrightarrow> src_life t = src_life s"
  by (auto simp: SendLiveMediaFrame_def Let_def split: if_splits prod.splits)

lemma source_call_life: "source_call s t \<Longrightarrow> src_life t = src_life s"
  by (induction rule: source_call.induct)
    (simp_all add: set_stream_meta_def set_stream_state_def Let_def SendLiveMediaFrame_life
      RegisterApiHandler_def UnregisterApiHandler_def UnregisterAllApiHandler_def)

subsection \<open>One worker\<close>

lemma Start_idle: "\<not> start_creates s \<Longrightarrow> snd (Start th s) = s"
  by (auto simp: Start_def start_creates_def src_flag_defs)

lemma Start_creating:
  assumes "start_creates s"
  shows "src_life (snd (Start None s)) = src_life s" "src_life (snd (Start (Some tid) s)) = (True, True, tid)"
  using assms by (simp_all add: Start_def start_creates_def src_life_def src_flag_defs Let_def)

lemma Stop_begin_life:
  "src_life (snd (Stop_begin s)) = (IsInit s, False, src_api_thread_id s)"
  "fst (Stop_begin s) = (if IsStarted s \<and> src_api_thread_id s \<noteq> 0 then Some (src_api_thread_id s) else None)"
  by (simp_all add: Stop_begin_def src_life_def src_flag_defs Let_def)

text \<open>The invariant reads only the life cycle of the source.\<close>

definition sys_inv_of :: "bool \<times> bool \<times> nat \<Rightarrow> nat set \<Rightarrow> nat list \<Rightarrow> bool" where
  "sys_inv_of = (\<lambda>(i, st, tid) ws js. i \<and> thr_ok st tid ws js \<and> (st \<longrightarrow> ws \<noteq> {}))"

definition sys_inv :: "'b src_sys \<Rightarrow> bool" where
  "sys_inv y \<longleftrightarrow> sys_inv_of (src_life (sys_src y)) (sys_workers y) (sys_joins y)"

lemma sys_inv_start:
  assumes "sys_inv y" "\<And>tid. th = Some tid \<Longrightarrow> tid \<noteq> 0 \<and> tid \<notin> sys_workers y \<union> set (sys_joins y)"
  shows "sys_inv (sys_start th y)"
proof (cases "start_creates (sys_src y)")
  case False
  with assms(1) show ?thesis by (simp add: sys_inv_def sys_start_def Start_idle)
next
  case True
  then have "src_life (sys_src y) = (True, False, 0)" by (simp add: start_creates_def src_life_def)
  with assms True show ?thesis
    by (cases th) (auto simp: sys_inv_def sys_start_def Start_creating sys_inv_of_def thr_ok_def split: if_splits)
qed

lemma sys_inv_stop: "sys_inv y \<Longrightarrow> sys_inv (sys_stop y)"
  using Stop_begin_life [of "sys_src y"]
  by (auto simp: sys_inv_def sys_stop_def sys_inv_of_def thr_ok_def src_life_def
      split: prod.splits option.splits if_splits)

lemma sys_inv_exit: "sys_inv y \<Longrightarrow> \<not> IsStarted (sys_src y) \<Longrightarrow> sys_inv (sys_exit tid y)"
  by (auto simp: sys_inv_def sys_exit_def sys_inv_of_def thr_ok_def src_life_def)

lemma sys_inv_join:
  "sys_inv y \<Longrightarrow> tid \<in> set (sys_joins y) \<Longrightarrow> tid \<notin> sys_workers y \<Longrightarrow> sys_inv (sys_join tid y)"
  by (auto simp: sys_inv_def sys_join_def Stop_end_def sys_inv_of_def thr_ok_def src_life_def src_flag_defs
      split: if_splits)

lemma sys_inv_step: "sys_inv y \<Longrightarrow> src_sys_step y z \<Longrightarrow> sys_inv z"
proof (erule src_sys_step.cases, goal_cases)
  case (1 th y')
  then show ?case using sys_inv_start [of y th] by blast
next
  case (3 y' t)
  then show ?case by (simp add: sys_inv_def source_call_life)
next
  case (4 tid y' t)
  then show ?case by (simp add: sys_inv_def worker_call_life)
qed (auto intro: sys_inv_stop sys_inv_exit sys_inv_join)

interpretation src_threads: state_machine src_sys_init src_sys_step sys_inv
proof
  fix y z :: "'b src_sys"
  show "src_sys_init y \<Longrightarrow> sys_inv y"
    by (simp add: sys_inv_def sys_inv_of_def thr_ok_def src_sys_init_def src_life_def)
  show "sys_inv y \<Longrightarrow> src_sys_step y z \<Longrightarrow> sys_inv z" by (rule sys_inv_step)
qed

text \<open>C12: Whatever the interleaving of the threads that share a source, a started source has exactly one
  worker, the recorded one; a source that is not started and that no call of \<open>Stop\<close> is waiting on has
  none; and while a \<open>Stop\<close> waits, it is the only one, it waits for the recorded worker, and every \<open>Start\<close>
  is refused as busy without creating a thread.\<close>

theorem source_single_worker:
  assumes "reachable_from src_sys_init src_sys_step y"
  shows "let s = sys_src y; tid = src_api_thread_id s
    in if IsStarted s then sys_workers y = {tid} \<and> tid \<noteq> 0 \<and> sys_joins y = []
       else if sys_joins y = [] then sys_workers y = {} \<and> tid = 0
       else sys_joins y = [tid] \<and> sys_workers y \<subseteq> {tid} \<and> Start th s = (ERROR_CODE_BUSY, s)"
proof -
  have "sys_inv y" using assms by (rule src_threads.reach_inv)
  then show ?thesis
    by (auto simp: sys_inv_def sys_inv_of_def thr_ok_def src_life_def Start_def src_flag_defs Let_def)
qed

text \<open>A run of the demonstration source: started with worker 7, then stopped by one thread, with the
  worker still in its loop.\<close>

definition demo_sys :: "wire src_sys" where
  "demo_sys = \<lparr>sys_src = demo_source, sys_workers = {}, sys_joins = []\<rparr>"

definition demo_started :: "wire src_sys" where "demo_started = sys_start (Some 7) demo_sys"

definition demo_stopping :: "wire src_sys" where "demo_stopping = sys_stop demo_started"

lemma demo_source_life: "src_life demo_source = (True, False, 0)"
  using demo_source_init by (simp add: src_life_def) (simp add: demo_defs)

lemma demo_creates: "start_creates demo_source"
  using demo_source_life by (simp add: src_life_def start_creates_def)

lemma demo_started_simps:
  "sys_workers demo_started = {7}" "sys_joins demo_started = []"
  "src_life (sys_src demo_started) = (True, True, 7)"
  by (simp_all add: demo_started_def sys_start_def demo_sys_def demo_creates Start_creating)

lemma demo_stopping_simps:
  "sys_workers demo_stopping = {7}" "sys_joins demo_stopping = [7]"
  "src_life (sys_src demo_stopping) = (True, False, 7)"
proof -
  obtain t where "Stop_begin (sys_src demo_started) = (Some 7, t)" "src_life t = (True, False, 7)"
    using demo_started_simps(3) Stop_begin_life [of "sys_src demo_started"]
    by (cases "Stop_begin (sys_src demo_started)") (simp add: src_life_def)
  then show "sys_workers demo_stopping = {7}" "sys_joins demo_stopping = [7]"
    "src_life (sys_src demo_stopping) = (True, False, 7)"
    by (simp_all add: demo_stopping_def sys_stop_def demo_started_simps)
qed

lemma demo_stopping_reachable:
  "reachable_from src_sys_init src_sys_step demo_started" "reachable_from src_sys_init src_sys_step demo_stopping"
proof -
  have "src_sys_init demo_sys"
    using demo_source_life by (simp add: src_sys_init_def demo_sys_def src_life_def)
  then have "reachable_from src_sys_init src_sys_step demo_sys" by (rule reach_init)
  moreover have "src_sys_step demo_sys demo_started"
    unfolding demo_started_def by (rule sys_step_start) (simp add: demo_sys_def)
  ultimately show "reachable_from src_sys_init src_sys_step demo_started" by (rule reach_step)
  then show "reachable_from src_sys_init src_sys_step demo_stopping"
    unfolding demo_stopping_def by (rule reach_step) (rule sys_step_stop)
qed

theorem source_single_worker_witness:
  "sys_workers demo_started = {7} \<and> Start (Some 8) (sys_src demo_stopping) = (ERROR_CODE_BUSY, sys_src demo_stopping)"
  using source_single_worker [OF demo_stopping_reachable(1)]
    source_single_worker [OF demo_stopping_reachable(2), of "Some 8"]
    demo_started_simps demo_stopping_simps by (simp add: src_life_def Let_def)

subsection \<open>Stopping ends\<close>

definition stop_left :: "'b src_sys \<Rightarrow> nat" where
  "stop_left y = card (sys_workers y) + length (sys_joins y)"

lemma stop_step:
  assumes "sys_inv y" "sys_joins y \<noteq> []" "src_sys_step y z"
  shows "stop_left z \<le> stop_left y \<and> \<not> IsStarted (sys_src z) \<and>
    (stop_left z = stop_left y \<longrightarrow> sys_workers z = sys_workers y \<and> sys_joins z = sys_joins y)"
proof -
  have y: "\<not> IsStarted (sys_src y)" "src_api_thread_id (sys_src y) \<noteq> 0"
    "sys_joins y = [src_api_thread_id (sys_src y)]" "finite (sys_workers y)"
    using assms(1,2) by (auto simp: sys_inv_def sys_inv_of_def thr_ok_def src_life_def
        intro: finite_subset split: if_splits)
  have keep: "src_life t = src_life (sys_src y) \<Longrightarrow> \<not> IsStarted t" for t
    using y(1) by (simp add: src_life_def)
  from assms(3) show ?thesis
  proof cases
    case (sys_step_start th)
    have "\<not> start_creates (sys_src y)" using y(2) by (simp add: start_creates_def)
    with sys_step_start y(1) show ?thesis by (simp add: sys_start_def Start_idle)
  next
    case sys_step_stop
    have "Stop_begin (sys_src y) = (None, sys_src y)" using y(1) by (simp add: Stop_begin_def src_flag_defs)
    with sys_step_stop y(1) show ?thesis by (simp add: sys_stop_def)
  next
    case (sys_step_call t)
    then show ?thesis using keep [OF source_call_life] by (simp add: stop_left_def)
  next
    case (sys_step_work tid t)
    then show ?thesis using keep [OF worker_call_life] by (simp add: stop_left_def)
  next
    case (sys_step_exit tid)
    moreover from this y(4) have "card (sys_workers y - {tid}) < card (sys_workers y)"
      by (meson card_Diff1_less)
    ultimately show ?thesis using y(1) by (simp add: sys_exit_def stop_left_def)
  next
    case (sys_step_join tid)
    then show ?thesis using y(1,3) by (simp add: sys_join_def stop_left_def Stop_end_def src_flag_defs)
  qed
qed

text \<open>C13: A waiting \<open>Stop\<close> returns: at most two steps are left, one of them (the worker leaving its loop, or
  the return of the join) is always enabled, and no step of any thread adds to what is left, starts
  the source or changes the workers and joins without reducing it.\<close>

theorem source_stop_returns:
  assumes "reachable_from src_sys_init src_sys_step y" "sys_joins y \<noteq> []"
  shows "stop_left y \<le> 2 \<and> (\<exists>z. src_sys_step y z \<and> stop_left z < stop_left y) \<and>
    (\<forall>z. src_sys_step y z \<longrightarrow> \<not> IsStarted (sys_src z) \<and>
      (stop_left z < stop_left y \<or> stop_left z = stop_left y \<and> sys_workers z = sys_workers y \<and> sys_joins z = sys_joins y))"
proof -
  have inv: "sys_inv y" using assms(1) by (rule src_threads.reach_inv)
  then have y: "\<not> IsStarted (sys_src y)" "sys_joins y = [src_api_thread_id (sys_src y)]"
    "sys_workers y \<subseteq> {src_api_thread_id (sys_src y)}"
    using assms(2) by (auto simp: sys_inv_def sys_inv_of_def thr_ok_def src_life_def split: if_splits)
  then have "stop_left y \<le> 2" using card_mono [OF _ y(3)] by (simp add: stop_left_def)
  moreover have "\<exists>z. src_sys_step y z \<and> stop_left z < stop_left y"
  proof (cases "sys_workers y = {}")
    case True
    with y have "src_sys_step y (sys_join (src_api_thread_id (sys_src y)) y)" by (intro sys_step_join) simp_all
    with y(2) show ?thesis by (auto simp: sys_join_def stop_left_def)
  next
    case False
    with y have "src_sys_step y (sys_exit (src_api_thread_id (sys_src y)) y)" by (intro sys_step_exit) auto
    moreover have "sys_workers y = {src_api_thread_id (sys_src y)}" using False y(3) by auto
    ultimately show ?thesis by (auto simp: sys_exit_def stop_left_def)
  qed
  ultimately show ?thesis using stop_step [OF inv assms(2)] by (metis le_neq_implies_less)
qed

theorem source_stop_returns_witness:
  "\<exists>z. src_sys_step demo_stopping z \<and> stop_left z < stop_left demo_stopping"
  using source_stop_returns [OF demo_stopping_reachable(2)] demo_stopping_simps by simp

text \<open>A second \<open>Stop\<close> does not wait: while one thread waits for the worker, \<open>Stop\<close> called by another
  thread returns at once, with the worker still in its loop.\<close>

theorem second_stop_returns_early:
  "\<exists>y :: wire src_sys. reachable_from src_sys_init src_sys_step y \<and> sys_workers y \<noteq> {} \<and>
     Stop_begin (sys_src y) = (None, sys_src y) \<and> sys_stop y = y"
proof (intro exI conjI)
  show "reachable_from src_sys_init src_sys_step demo_stopping" by (rule demo_stopping_reachable)
  show "sys_workers demo_stopping \<noteq> {}" by (simp add: demo_stopping_simps)
  show "Stop_begin (sys_src demo_stopping) = (None, sys_src demo_stopping)"
    using demo_stopping_simps(3) by (simp add: Stop_begin_def src_life_def src_flag_defs)
  then show "sys_stop demo_stopping = demo_stopping" by (simp add: sys_stop_def)
qed

section \<open>Sink\<close>

text \<open>\<open>Start\<close> up to the return of \<open>pthread_create\<close>: the result and whether the call goes on to set the
  flag.\<close>

definition Start_sink_begin ::
  "bool \<Rightarrow> int \<Rightarrow> nat option \<Rightarrow> 'b StreamSink \<Rightarrow> int \<times> bool \<times> 'b StreamSink" where
  "Start_sink_begin sub_new sub_attach thread s =
     (if \<not> IsInit_sink s then (-1, False, s)
      else if flag_on (snk_flags s) STREAM_RECEIVER_FLAG_STARTED then (0, False, s)
      else if snk_worker_thread_id s \<noteq> 0 then (ERROR_CODE_BUSY, False, s)
      else
        let (ret, s1) = CreateSubscriberSocket sub_new sub_attach s
        in if ret \<noteq> 0 then (ret, False, s1)
           else
             let s2 = s1\<lparr>snk_last_send_client_heartbeat_msec := 0,
                         snk_next_send_client_heartbeat_msec := 0,
                         snk_last_frame_ssrc := sm_ssrc (snk_stream_meta s1)\<rparr>
             in case thread of
                  None \<Rightarrow> (ERROR_CODE_SYSTEM, False,
                            s2\<lparr>snk_worker_thread_id := 0, snk_subscriber_socket := None\<rparr>)
                | Some tid \<Rightarrow> (0, True, s2\<lparr>snk_worker_thread_id := tid\<rparr>))"

definition Start_sink_end :: "'b StreamSink \<Rightarrow> 'b StreamSink" where
  "Start_sink_end s = s\<lparr>snk_flags := snk_flags s OR STREAM_RECEIVER_FLAG_STARTED\<rparr>"

definition Stop_sink_begin :: "'b StreamSink \<Rightarrow> nat option \<times> 'b StreamSink" where
  "Stop_sink_begin s =
     (if \<not> flag_on (snk_flags s) STREAM_RECEIVER_FLAG_STARTED then (None, s)
      else
        let s1 = s\<lparr>snk_flags := snk_flags s AND NOT STREAM_RECEIVER_FLAG_STARTED\<rparr>
        in if snk_worker_thread_id s1 \<noteq> 0 then (Some (snk_worker_thread_id s1), s1)
           else (None, s1\<lparr>snk_subscriber_socket := None\<rparr>))"

definition Stop_sink_end :: "'b StreamSink \<Rightarrow> 'b StreamSink" where
  "Stop_sink_end s = s\<lparr>snk_worker_thread_id := 0, snk_subscriber_socket := None\<rparr>"

lemma Start_sink_split:
  "Start_sink n a th s =
     (case Start_sink_begin n a th s of (ret, go, s1) \<Rightarrow> (ret, if go then Start_sink_end s1 else s1))"
  by (simp add: Start_sink_def Start_sink_begin_def Start_sink_end_def Let_def split: prod.splits option.splits)

lemma Stop_sink_split:
  "Stop_sink s = (case Stop_sink_begin s of (None, s1) \<Rightarrow> s1 | (Some _, s1) \<Rightarrow> Stop_sink_end s1)"
  by (simp add: Stop_sink_def Stop_sink_begin_def Stop_sink_end_def Let_def)

text \<open>The lock is held by a \<open>Start\<close> that has created its thread and not yet set the flag:
  \<open>ksys_starting\<close>. In that state only the new worker and this \<open>Start\<close> itself can move.\<close>

record 'b snk_sys =
  ksys_snk :: "'b StreamSink"
  ksys_workers :: "nat set"
  ksys_joins :: "nat list"
  ksys_starting :: bool

definition snk_life :: "'b StreamSink \<Rightarrow> bool \<times> bool \<times> nat" where
  "snk_life s = (IsInit_sink s, IsStarted_sink s, snk_worker_thread_id s)"

definition ksys_start_begin :: "bool \<Rightarrow> int \<Rightarrow> nat option \<Rightarrow> 'b snk_sys \<Rightarrow> 'b snk_sys" where
  "ksys_start_begin n a th y =
     (case Start_sink_begin n a th (ksys_snk y) of (ret, go, s1) \<Rightarrow>
        y\<lparr>ksys_snk := s1, ksys_starting := go,
          ksys_workers := (if go then set_option th \<union> ksys_workers y else ksys_workers y)\<rparr>)"

definition ksys_start_end :: "'b snk_sys \<Rightarrow> 'b snk_sys" where
  "ksys_start_end y = y\<lparr>ksys_snk := Start_sink_end (ksys_snk y), ksys_starting := False\<rparr>"

definition ksys_stop :: "'b snk_sys \<Rightarrow> 'b snk_sys" where
  "ksys_stop y =
     (case Stop_sink_begin (ksys_snk y) of
        (None, s1) \<Rightarrow> y\<lparr>ksys_snk := s1\<rparr>
      | (Some tid, s1) \<Rightarrow> y\<lparr>ksys_snk := s1, ksys_joins := ksys_joins y @ [tid]\<rparr>)"

definition ksys_exit :: "nat \<Rightarrow> 'b snk_sys \<Rightarrow> 'b snk_sys" where
  "ksys_exit tid y = y\<lparr>ksys_workers := ksys_workers y - {tid}\<rparr>"

definition ksys_join :: "nat \<Rightarrow> 'b snk_sys \<Rightarrow> 'b snk_sys" where
  "ksys_join tid y = y\<lparr>ksys_snk := Stop_sink_end (ksys_snk y), ksys_joins := remove1 tid (ksys_joins y)\<rparr>"

definition sub_user_keeps_life :: "'b sink_env \<Rightarrow> bool" where
  "sub_user_keeps_life E \<longleftrightarrow> (\<forall>n ud m b s. snk_life (ke_user E n ud m b s) = snk_life s)"

text \<open>The requests to the source release the lock while they wait; what the other threads do then is
  their own steps.\<close>

inductive sink_call_step :: "'b StreamSink \<Rightarrow> 'b StreamSink \<Rightarrow> bool" where
  "sink_call_step s (RegisterSubHandler op ch h ud s)"
| "sink_call_step s (UnregisterSubHandler op s)"
| "sink_call_step s (UnregisterAllSubHandler s)"
| "sink_call_step s (DestroySubscriberSocket s)"
| "sink_call_step s (set_client_info c s)"
| "re_meanwhile R = id \<Longrightarrow> UpdateStreamMetaData R timeout s = Ret (r, t) \<Longrightarrow> sink_call_step s t"
| "re_meanwhile R = id \<Longrightarrow> KeyFrame R timeout s = Ret (r, t) \<Longrightarrow> sink_call_step s t"
| "re_meanwhile R = id \<Longrightarrow> SourceStatistic R timeout st s = Ret (r, st', t) \<Longrightarrow> sink_call_step s t"
| "re_meanwhile R = id \<Longrightarrow> ClientList R timeout i n tot cs s = Ret (r, tot', cs', t) \<Longrightarrow> sink_call_step s t"

inductive sink_worker_call :: "'b StreamSink \<Rightarrow> 'b StreamSink \<Rightarrow> bool" where
  "sub_user_keeps_life E \<Longrightarrow> OnSubRead E z s = Ret t \<Longrightarrow> sink_worker_call s t"
| "Heartbeat_sink E now s = Ret t \<Longrightarrow> sink_worker_call s t"

inductive snk_sys_step :: "'b snk_sys \<Rightarrow> 'b snk_sys \<Rightarrow> bool" where
  ksys_step_start: "\<not> ksys_starting y \<Longrightarrow>
     (\<And>tid. th = Some tid \<Longrightarrow> tid \<noteq> 0 \<and> tid \<notin> ksys_workers y \<union> set (ksys_joins y)) \<Longrightarrow>
     snk_sys_step y (ksys_start_begin n a th y)"
| ksys_step_started: "ksys_starting y \<Longrightarrow> snk_sys_step y (ksys_start_end y)"
| ksys_step_stop: "\<not> ksys_starting y \<Longrightarrow> snk_sys_step y (ksys_stop y)"
| ksys_step_call: "\<not> ksys_starting y \<Longrightarrow> sink_call_step (ksys_snk y) t \<Longrightarrow> snk_sys_step y (y\<lparr>ksys_snk := t\<rparr>)"
| ksys_step_work: "\<not> ksys_starting y \<Longrightarrow> tid \<in> ksys_workers y \<Longrightarrow> sink_worker_call (ksys_snk y) t \<Longrightarrow>
     snk_sys_step y (y\<lparr>ksys_snk := t\<rparr>)"
| ksys_step_exit: "tid \<in> ksys_workers y \<Longrightarrow> \<not> IsStarted_sink (ksys_snk y) \<Longrightarrow> snk_sys_step y (ksys_exit tid y)"
| ksys_step_join: "\<not> ksys_starting y \<Longrightarrow> tid \<in> set (ksys_joins y) \<Longrightarrow> tid \<notin> ksys_workers y \<Longrightarrow>
     snk_sys_step y (ksys_join tid y)"

definition snk_sys_init :: "'b snk_sys \<Rightarrow> bool" where
  "snk_sys_init y \<longleftrightarrow> snk_life (ksys_snk y) = (True, False, 0) \<and> ksys_workers y = {} \<and> ksys_joins y = [] \<and>
     \<not> ksys_starting y"

text \<open>As for the source, except that nothing ensures that a started sink has its worker.\<close>

definition ksys_inv :: "'b snk_sys \<Rightarrow> bool" where
  "ksys_inv y \<longleftrightarrow> (case snk_life (ksys_snk y) of (i, st, tid) \<Rightarrow>
     i \<and> (if ksys_starting y then \<not> st \<and> tid \<noteq> 0 \<and> ksys_workers y \<subseteq> {tid} \<and> ksys_joins y = []
          else thr_ok st tid (ksys_workers y) (ksys_joins y)))"

subsection \<open>The methods keep the life cycle\<close>

lemma snk_life_update [simp]:
  "snk_life (s\<lparr>snk_subsriber_handler_map := hm\<rparr>) = snk_life s"
  "snk_life (s\<lparr>snk_subscriber_socket := k\<rparr>) = snk_life s"
  "snk_life (s\<lparr>snk_client_info := c\<rparr>) = snk_life s"
  "snk_life (s\<lparr>snk_next_seq := q\<rparr>) = snk_life s"
  "snk_life (s\<lparr>snk_last_api_socket := k\<rparr>) = snk_life s"
  "snk_life (s\<lparr>snk_client_hearbeat_socket := k\<rparr>) = snk_life s"
  "snk_life (s\<lparr>snk_stream_meta := m\<rparr>) = snk_life s"
  "snk_life (s\<lparr>snk_statistic := st\<rparr>) = snk_life s"
  "snk_life (s\<lparr>snk_last_heartbeat_time := i\<rparr>) = snk_life s"
  "snk_life (s\<lparr>snk_last_send_client_heartbeat_msec := i\<rparr>) = snk_life s"
  "snk_life (s\<lparr>snk_next_send_client_heartbeat_msec := i\<rparr>) = snk_life s"
  "snk_life (s\<lparr>snk_last_frame_ssrc := q\<rparr>) = snk_life s"
  "snk_life (s\<lparr>snk_calls := cs\<rparr>) = snk_life s"
  "snk_life (s\<lparr>snk_hb_sent := bs\<rparr>) = snk_life s"
  by (simp_all add: snk_life_def snk_flag_defs)

lemma snk_life_thread: "snk_life (s\<lparr>snk_worker_thread_id := tid\<rparr>) = (fst (snk_life s), fst (snd (snk_life s)), tid)"
  by (simp add: snk_life_def snk_flag_defs)

lemma CreateSubscriberSocket_life: "snk_life (snd (CreateSubscriberSocket n a s)) = snk_life s"
  by (simp add: CreateSubscriberSocket_def)

lemma listener_call_life [simp]: "snk_life (listener_call c s) = snk_life s"
  by (simp add: listener_call_def)

lemma MediaFrameHandler_life: "MediaFrameHandler C m b s = Ret (r, t) \<Longrightarrow> snk_life t = snk_life s"
  by (auto simp: MediaFrameHandler_def Let_def split: option.splits if_splits)

lemma OnSubRead_life:
  assumes "sub_user_keeps_life E" "OnSubRead E z s = Ret t"
  shows "snk_life t = snk_life s"
  using assms
  by (auto simp: OnSubRead_def OnSubMsg_def sub_user_keeps_life_def MediaFrameHandler_life
      elim!: bind_cpp_RetE split: sub_zmsg.splits option.splits if_splits SinkSubHandler.splits)

lemma send_heartbeat_life [simp]: "snk_life (send_heartbeat_req E now s) = snk_life s"
  by (simp add: send_heartbeat_req_def Let_def split: option.splits)

lemma Heartbeat_sink_life:
  assumes "Heartbeat_sink E now0 s = Ret t"
  shows "snk_life t = snk_life s"
proof -
  obtain now go u where u: "check_heartbeat_reply E now (s\<lparr>snk_last_heartbeat_time := now\<rparr>) = Ret (go, u)"
    and t: "t = (if go then send_heartbeat_req E now u else u)"
    using assms by (rule Heartbeat_sink_cases)
  from check_heartbeat_cases [OF u] have "snk_life u = snk_life s" by (elim disjE exE) simp_all
  with t show ?thesis by simp
qed

lemma sink_worker_call_life: "sink_worker_call s t \<Longrightarrow> snk_life t = snk_life s"
  by (induction rule: sink_worker_call.induct) (simp_all add: OnSubRead_life Heartbeat_sink_life)

lemma rpc_call_life:
  assumes "re_meanwhile R = id" "rpc_call R q timeout s = Ret (r, b, t)"
  shows "snk_life t = snk_life s"
proof -
  have "snk_life (snd (snd (SendRpcRequest R q None timeout s))) = snk_life s"
    using assms(1) by (simp add: SendRpcRequest_def cache_api_socket_def Let_def
        split: option.splits net_result.splits)
  with assms(2) show ?thesis
    by (auto simp: rpc_call_def Let_def split: prod.splits if_splits option.splits)
qed

lemma apply_meta_rep_life [simp]: "snk_life (apply_meta_rep r s) = snk_life s"
  by (simp add: apply_meta_rep_def Let_def)

lemma sink_call_step_life: "sink_call_step s t \<Longrightarrow> snk_life t = snk_life s"
  by (induction rule: sink_call_step.induct)
    (auto simp: RegisterSubHandler_def UnregisterSubHandler_def UnregisterAllSubHandler_def
      DestroySubscriberSocket_def set_client_info_def UpdateStreamMetaData_def KeyFrame_def
      SourceStatistic_def ClientList_def GetNextSeq_def Let_def rpc_call_life
      elim!: bind_cpp_RetE split: if_splits option.splits)

lemma Start_sink_begin_life:
  assumes "Start_sink_begin n a th s = (ret, go, t)"
  shows "if go then \<exists>tid. th = Some tid \<and> snk_life s = (True, False, 0) \<and> snk_life t = (True, False, tid)
         else snk_life t = snk_life s"
proof (cases "IsInit_sink s \<and> \<not> IsStarted_sink s \<and> snk_worker_thread_id s = 0")
  case False
  then have "\<not> go \<and> t = s" using assms by (auto simp: Start_sink_begin_def snk_flag_defs split: if_splits)
  then show ?thesis by simp
next
  case True
  obtain r s1 where c: "CreateSubscriberSocket n a s = (r, s1)" by (cases "CreateSubscriberSocket n a s")
  then have s1: "snk_life s1 = snk_life s" "snk_life s = (True, False, 0)"
    using CreateSubscriberSocket_life [of n a s] True by (simp_all add: snk_life_def)
  then show ?thesis using assms True c
    by (auto simp: Start_sink_begin_def Let_def snk_flag_defs snk_life_thread split: if_splits option.splits)
qed

subsection \<open>At most one worker\<close>

lemma Start_sink_end_life: "snk_life s = (i, st, tid) \<Longrightarrow> snk_life (Start_sink_end s) = (i, True, tid)"
  by (simp add: Start_sink_end_def snk_life_def snk_flag_defs)

lemma Stop_sink_end_life: "snk_life s = (i, st, tid) \<Longrightarrow> snk_life (Stop_sink_end s) = (i, st, 0)"
  by (simp add: Stop_sink_end_def snk_life_def snk_flag_defs)

lemma Stop_sink_begin_life:
  assumes "snk_life s = (i, st, tid)"
  shows "snk_life (snd (Stop_sink_begin s)) = (i, False, tid)"
    "fst (Stop_sink_begin s) = (if st \<and> tid \<noteq> 0 then Some tid else None)"
  using assms by (auto simp: Stop_sink_begin_def snk_life_def snk_flag_defs Let_def)

lemma ksys_inv_start:
  assumes "ksys_inv y" "\<not> ksys_starting y"
    and "\<And>tid. th = Some tid \<Longrightarrow> tid \<noteq> 0 \<and> tid \<notin> ksys_workers y \<union> set (ksys_joins y)"
  shows "ksys_inv (ksys_start_begin n a th y)"
proof -
  obtain ret go t where b: "Start_sink_begin n a th (ksys_snk y) = (ret, go, t)"
    by (cases "Start_sink_begin n a th (ksys_snk y)") auto
  show ?thesis
  proof (cases go)
    case False
    with b Start_sink_begin_life [OF b] assms(1,2) show ?thesis by (simp add: ksys_inv_def ksys_start_begin_def)
  next
    case True
    then obtain tid where "th = Some tid" "snk_life (ksys_snk y) = (True, False, 0)" "snk_life t = (True, False, tid)"
      using Start_sink_begin_life [OF b] by auto
    with b True assms show ?thesis by (auto simp: ksys_inv_def ksys_start_begin_def thr_ok_def)
  qed
qed

lemma ksys_inv_stop:
  assumes "ksys_inv y" "\<not> ksys_starting y"
  shows "ksys_inv (ksys_stop y)"
proof -
  obtain i st tid where l: "snk_life (ksys_snk y) = (i, st, tid)" by (cases "snk_life (ksys_snk y)") auto
  obtain jn t where b: "Stop_sink_begin (ksys_snk y) = (jn, t)" by (cases "Stop_sink_begin (ksys_snk y)")
  have "snk_life t = (i, False, tid)" "jn = (if st \<and> tid \<noteq> 0 then Some tid else None)"
    using Stop_sink_begin_life [OF l] b by simp_all
  with l b assms show ?thesis by (auto simp: ksys_inv_def ksys_stop_def thr_ok_def split: if_splits)
qed

lemma ksys_inv_step: "ksys_inv y \<Longrightarrow> snk_sys_step y z \<Longrightarrow> ksys_inv z"
proof (erule snk_sys_step.cases, goal_cases)
  case (1 y' th n a)
  then show ?case using ksys_inv_start [of y th n a] by blast
next
  case (2 y')
  obtain i st tid where l: "snk_life (ksys_snk y) = (i, st, tid)" by (cases "snk_life (ksys_snk y)") auto
  from 2 l Start_sink_end_life [OF l] show ?case by (simp add: ksys_inv_def ksys_start_end_def thr_ok_def)
next
  case (3 y')
  then show ?case using ksys_inv_stop by blast
next
  case (4 y' t)
  then show ?case by (simp add: ksys_inv_def sink_call_step_life)
next
  case (5 y' tid t)
  then show ?case by (simp add: ksys_inv_def sink_worker_call_life)
next
  case (6 tid y')
  obtain i st tid' where l: "snk_life (ksys_snk y) = (i, st, tid')" by (cases "snk_life (ksys_snk y)") auto
  with 6 have "\<not> st" by (simp add: snk_life_def)
  with 6 l show ?case by (auto simp: ksys_inv_def ksys_exit_def thr_ok_def split: if_splits)
next
  case (7 y' tid)
  obtain i st tid' where l: "snk_life (ksys_snk y) = (i, st, tid')" by (cases "snk_life (ksys_snk y)") auto
  from 7 l Stop_sink_end_life [OF l] show ?case
    by (auto simp: ksys_inv_def ksys_join_def thr_ok_def split: if_splits)
qed

interpretation snk_threads: state_machine snk_sys_init snk_sys_step ksys_inv
proof
  fix y z :: "'b snk_sys"
  show "snk_sys_init y \<Longrightarrow> ksys_inv y" by (simp add: snk_sys_init_def ksys_inv_def thr_ok_def)
  show "ksys_inv y \<Longrightarrow> snk_sys_step y z \<Longrightarrow> ksys_inv z" by (rule ksys_inv_step)
qed

text \<open>C14: Whatever the interleaving of the threads that share a sink, it never has two workers: the only
  thread that may run is the recorded one; no two calls of \<open>Stop\<close> wait at the same time, and when none
  waits and the sink is neither started nor being started, no worker runs.\<close>

theorem sink_at_most_one_worker:
  assumes "reachable_from snk_sys_init snk_sys_step y"
  shows "let s = ksys_snk y; tid = snk_worker_thread_id s
    in ksys_workers y \<subseteq> {tid} \<and> length (ksys_joins y) \<le> 1 \<and>
       (ksys_joins y = [] \<and> \<not> ksys_starting y \<and> \<not> IsStarted_sink s \<longrightarrow> ksys_workers y = {} \<and> tid = 0) \<and>
       (ksys_joins y \<noteq> [] \<longrightarrow> ksys_joins y = [tid] \<and> Start_sink n a th s = (ERROR_CODE_BUSY, s))"
proof -
  have "ksys_inv y" using assms by (rule snk_threads.reach_inv)
  then show ?thesis
    by (auto simp: ksys_inv_def thr_ok_def snk_life_def Start_sink_def snk_flag_defs Let_def split: if_splits)
qed

definition demo_ksys :: "wire snk_sys" where
  "demo_ksys = \<lparr>ksys_snk = demo_sink, ksys_workers = {}, ksys_joins = [], ksys_starting = False\<rparr>"

definition demo_kstarting :: "wire snk_sys" where "demo_kstarting = ksys_start_begin True 0 (Some 7) demo_ksys"

definition demo_klost :: "wire snk_sys" where "demo_klost = ksys_start_end (ksys_exit 7 demo_kstarting)"

lemma demo_kstarting_simps:
  "snk_life (ksys_snk demo_kstarting) = (True, False, 7)" "ksys_workers demo_kstarting = {7}"
  "ksys_joins demo_kstarting = []" "ksys_starting demo_kstarting"
  by (simp_all add: demo_kstarting_def ksys_start_begin_def demo_ksys_def Start_sink_begin_def demo_sink_defs
      snk_life_def flag_on_def)

lemma demo_klost_simps:
  "snk_life (ksys_snk demo_klost) = (True, True, 7)" "ksys_workers demo_klost = {}"
  "ksys_joins demo_klost = []" "\<not> ksys_starting demo_klost"
  using Start_sink_end_life [OF demo_kstarting_simps(1)]
  by (simp_all add: demo_klost_def ksys_start_end_def ksys_exit_def demo_kstarting_simps)

lemma demo_kstarting_reachable: "reachable_from snk_sys_init snk_sys_step demo_kstarting"
proof -
  have "snk_sys_init demo_ksys"
    by (simp add: snk_sys_init_def demo_ksys_def snk_life_def demo_sink_defs flag_on_def)
  then have "reachable_from snk_sys_init snk_sys_step demo_ksys" by (rule reach_init)
  moreover have "snk_sys_step demo_ksys demo_kstarting"
    unfolding demo_kstarting_def by (rule ksys_step_start) (simp_all add: demo_ksys_def)
  ultimately show ?thesis by (rule reach_step)
qed

theorem sink_at_most_one_worker_witness:
  "ksys_workers demo_kstarting \<subseteq> {7} \<and> snk_worker_thread_id (ksys_snk demo_kstarting) = 7"
  using sink_at_most_one_worker [OF demo_kstarting_reachable] demo_kstarting_simps(1)
  by (simp add: snk_life_def Let_def)

text \<open>\<open>Start\<close> of a sink can succeed and leave it without a worker: the new thread may read the flag before
  \<open>Start\<close> sets it and end at once. The sink then counts as started, nobody is stopping it, and a
  further \<open>Start\<close> reports success without creating a thread.\<close>

theorem sink_started_without_worker:
  "\<exists>y :: wire snk_sys. reachable_from snk_sys_init snk_sys_step y \<and> IsStarted_sink (ksys_snk y) \<and>
     ksys_workers y = {} \<and> ksys_joins y = [] \<and> \<not> ksys_starting y \<and>
     (\<forall>n a th. Start_sink n a th (ksys_snk y) = (0, ksys_snk y))"
proof (intro exI conjI)
  have "snk_sys_step demo_kstarting (ksys_exit 7 demo_kstarting)"
    using demo_kstarting_simps by (intro ksys_step_exit) (simp_all add: snk_life_def)
  with demo_kstarting_reachable have r: "reachable_from snk_sys_init snk_sys_step (ksys_exit 7 demo_kstarting)"
    by (rule reach_step)
  have "snk_sys_step (ksys_exit 7 demo_kstarting) demo_klost"
    unfolding demo_klost_def by (rule ksys_step_started) (simp add: ksys_exit_def demo_kstarting_simps)
  with r show "reachable_from snk_sys_init snk_sys_step demo_klost" by (rule reach_step)
  show "IsStarted_sink (ksys_snk demo_klost)" using demo_klost_simps(1) by (simp add: snk_life_def)
  show "\<forall>n a th. Start_sink n a th (ksys_snk demo_klost) = (0, ksys_snk demo_klost)"
    using demo_klost_simps(1) by (simp add: Start_sink_def snk_life_def snk_flag_defs)
qed (simp_all add: demo_klost_simps)

end
