(* ===== verification/Proxy_Properties.thy ===== *)
theory Proxy_Properties
  imports Stream_Proxy Thread_Lifecycle
begin

text \<open>
  Properties of the proxy source: the invariants of its source and its sink hold together with its
  own, the metadata and the frames of the back end reach the proxy's clients, and what a failed
  start leaves behind.
\<close>

lemmas px_flag_defs = IsInit_proxy_def IsStarted_proxy_def IsMetaReady_def

section \<open>Invariant\<close>

text \<open>The proxy is initialised exactly when its source, its sink and its lock are; a started proxy has a
  started source and a started sink.\<close>

definition px_ok :: "u32 \<Rightarrow> bool \<Rightarrow> bool \<times> bool \<times> nat \<Rightarrow> bool \<times> bool \<times> nat \<Rightarrow> bool" where
  "px_ok flags lock = (\<lambda>(si, ss, st) (ki, ks, kt).
     lock = flag_on flags 1 \<and> si = flag_on flags 1 \<and> ki = flag_on flags 1 \<and>
     (flag_on flags 2 \<longrightarrow> flag_on flags 1 \<and> ss \<and> ks))"

definition proxy_inv :: "'b StreamProxySource \<Rightarrow> bool" where
  "proxy_inv p \<longleftrightarrow> source_inv (px_source p) \<and> sink_inv (px_sink p) \<and>
     px_ok (px_flags p) (px_lock p) (src_life (px_source p)) (snk_life (px_sink p))"

inductive proxy_step :: "'b StreamProxySource \<Rightarrow> 'b StreamProxySource \<Rightarrow> bool" where
  px_init: "- (2 ^ 31) \<le> port \<Longrightarrow> port < 2 ^ 31 \<Longrightarrow> proxy_Init pe E url name port subq pubq dbg p = Ret (r, q) \<Longrightarrow>
     proxy_step p q"
| px_update: "re_meanwhile R = id \<Longrightarrow> proxy_UpdateStreamMetaData E R timeout p = Ret (r, q) \<Longrightarrow> proxy_step p q"
| px_start: "a \<noteq> Some 0 \<Longrightarrow> b \<noteq> Some 0 \<Longrightarrow> proxy_step p (snd (proxy_Start E a n i b p))"
| px_stop: "proxy_step p (proxy_Stop p)"
| px_uninit: "proxy_step p (proxy_Uninit p)"
| px_heartbeat: "a \<noteq> Some 0 \<Longrightarrow> b \<noteq> Some 0 \<Longrightarrow> re_meanwhile R = id \<Longrightarrow> proxy_Hearbeat E R a n i b p = Ret (r, q) \<Longrightarrow>
     proxy_step p q"
| px_sub_read: "handler_safe K \<Longrightarrow> sub_user_keeps_life K \<Longrightarrow> proxy_sub_read K now z p = Ret q \<Longrightarrow> proxy_step p q"
| px_api_read: "user_safe E \<Longrightarrow> user_keeps_life E \<Longrightarrow> IsStarted (px_source p) \<Longrightarrow>
     proxy_step p (proxy_api_read E g zm p)"
| px_source_beat: "proxy_step p (p\<lparr>px_source := Heartbeat E now (px_source p)\<rparr>)"
| px_sink_beat: "IsStarted_sink (px_sink p) \<Longrightarrow> Heartbeat_sink K now (px_sink p) = Ret k \<Longrightarrow>
     proxy_step p (p\<lparr>px_sink := k\<rparr>)"

lemma proxy_inv_new: "proxy_inv (new_StreamProxySource :: 'b StreamProxySource)"
proof -
  have "src_life (new_StreamSource :: 'b StreamSource) = (False, False, 0)"
    "snk_life (new_StreamSink :: 'b StreamSink) = (False, False, 0)"
    by (simp_all add: src_life_def snk_life_def src_flag_defs snk_flag_defs new_StreamSource_def new_StreamSink_def)
  then show ?thesis
    by (simp add: proxy_inv_def new_StreamProxySource_def source_inv_new sink_inv_new px_ok_def)
qed

lemma proxy_inv_irrelevant [simp]:
  "proxy_inv (p\<lparr>px_need_key_frame := b\<rparr>) = proxy_inv p"
  "proxy_inv (p\<lparr>px_need_update_metadata := b\<rparr>) = proxy_inv p"
  "proxy_inv (p\<lparr>px_last_frame_recv := i\<rparr>) = proxy_inv p"
  "proxy_inv (p\<lparr>px_flags := px_flags p OR 4\<rparr>) = proxy_inv p"
  by (simp_all add: proxy_inv_def px_ok_def)

lemma proxy_inv_source:
  "proxy_inv p \<Longrightarrow> source_inv s \<Longrightarrow> src_life s = src_life (px_source p) \<Longrightarrow> proxy_inv (p\<lparr>px_source := s\<rparr>)"
  by (simp add: proxy_inv_def)

lemma proxy_inv_sink:
  "proxy_inv p \<Longrightarrow> sink_inv k \<Longrightarrow> snk_life k = snk_life (px_sink p) \<Longrightarrow> proxy_inv (p\<lparr>px_sink := k\<rparr>)"
  by (simp add: proxy_inv_def)

lemma proxy_inv_parts: "proxy_inv p \<Longrightarrow> source_inv (px_source p) \<and> sink_inv (px_sink p)"
  by (simp add: proxy_inv_def)

lemma set_stream_state_life [simp]: "src_life (set_stream_state E st s) = src_life s"
  by (rule source_call_life) (rule call_state)

lemma set_stream_meta_life [simp]: "src_life (set_stream_meta m s) = src_life s"
  by (rule source_call_life) (rule call_meta)

lemma proxy_inv_state:
  "proxy_inv p \<Longrightarrow> proxy_inv (p\<lparr>px_source := set_stream_state E st (px_source p)\<rparr>)"
  by (simp add: proxy_inv_def set_stream_state_inv)

lemma meanwhile_id: "re_meanwhile R = id \<Longrightarrow> meanwhile_safe R"
  by (simp add: meanwhile_safe_def)

lemma sink_update_keeps:
  assumes "sink_inv k" "re_meanwhile R = id"
  shows "UpdateStreamMetaData R timeout k = Ret (r, t) \<Longrightarrow> sink_inv t \<and> snk_life t = snk_life k"
    and "KeyFrame R timeout k = Ret (r, t) \<Longrightarrow> sink_inv t \<and> snk_life t = snk_life k"
  using sink_rpc_inv(1,2) [OF assms(1) meanwhile_id [OF assms(2)]] sink_call_step.intros(6,7) [OF assms(2)]
    sink_call_step_life by blast+

lemma proxy_update_inv:
  assumes "proxy_inv p" "re_meanwhile R = id" "proxy_UpdateStreamMetaData E R timeout p = Ret (r, q)"
  shows "proxy_inv q"
proof (cases "IsInit_proxy p")
  case True
  then obtain ret k where k: "UpdateStreamMetaData R timeout (px_sink p) = Ret (ret, k)"
    using assms(3) by (auto simp: proxy_UpdateStreamMetaData_def elim!: bind_cpp_RetE)
  have "sink_inv k" "snk_life k = snk_life (px_sink p)"
    using sink_update_keeps(1) [OF _ assms(2) k] assms(1) by (simp_all add: proxy_inv_def)
  then have p1: "proxy_inv (p\<lparr>px_sink := k\<rparr>)" by (rule proxy_inv_sink [OF assms(1)])
  then have "source_inv (set_stream_meta m (px_source p))" for m
    by (simp add: proxy_inv_def set_stream_meta_inv)
  then have "proxy_inv (p\<lparr>px_sink := k, px_source := set_stream_meta m (px_source p)\<rparr>)" for m
    using proxy_inv_source [OF p1] by simp
  then have "proxy_inv (p\<lparr>px_sink := k, px_source := set_stream_meta m (px_source p), px_flags := px_flags p OR 4\<rparr>)" for m
    using proxy_inv_irrelevant(4) [of "p\<lparr>px_sink := k, px_source := set_stream_meta m (px_source p)\<rparr>"] by simp
  with assms(3) True k proxy_inv_state [OF p1] show ?thesis
    by (auto simp: proxy_UpdateStreamMetaData_def Let_def split: if_splits)
qed (use assms in \<open>simp add: proxy_UpdateStreamMetaData_def\<close>)

lemma Start_life:
  "src_life (snd (Start th s)) = src_life s \<or> fst (Start th s) = 0 \<and> IsInit s \<and> (\<exists>t. src_life (snd (Start th s)) = (True, True, t))"
proof (cases "start_creates s")
  case True
  with Start_creating [OF True] show ?thesis
    by (cases th) (auto simp: Start_def start_creates_def src_flag_defs Let_def)
qed (simp add: Start_idle)

lemma Start_ok:
  assumes "fst (Start th s) = 0"
  shows "IsInit s \<and> fst (snd (src_life (snd (Start th s))))"
  using assms by (auto simp: Start_def src_life_def src_flag_defs error_code_defs Let_def split: if_splits option.splits)

lemma Start_sink_life:
  "if fst (Start_sink n a th k) = 0 then IsInit_sink k \<and> (\<exists>t. snk_life (snd (Start_sink n a th k)) = (True, True, t))
   else snk_life (snd (Start_sink n a th k)) = snk_life k"
proof (cases "Start_sink_begin n a th k")
  case (fields ret go k1)
  show ?thesis
  proof (cases go)
    case True
    with Start_sink_begin_life [OF fields] obtain tid where "snk_life k = (True, False, 0)" "snk_life k1 = (True, False, tid)" by auto
    moreover from this fields True have "ret = 0"
      by (auto simp: Start_sink_begin_def snk_life_def snk_flag_defs Let_def split: if_splits prod.splits option.splits)
    ultimately show ?thesis
      using True fields Start_sink_end_life [of k1 True False tid] by (auto simp: Start_sink_split snk_life_def)
  next
    case False
    with Start_sink_begin_life [OF fields] have l: "snk_life k1 = snk_life k" by simp
    have "IsInit_sink k \<and> IsStarted_sink k" if "ret = 0"
      using that fields False
      by (auto simp: Start_sink_begin_def snk_flag_defs error_code_defs Let_def split: if_splits prod.splits option.splits)
    with l False fields show ?thesis by (auto simp: Start_sink_split snk_life_def)
  qed
qed

lemma Stop_life: "src_life (Stop s) = (IsInit s, False, src_api_thread_id (Stop s))"
  by (simp add: src_life_def Stop_flags)

lemma Stop_sink_life: "snk_life (Stop_sink k) = (IsInit_sink k, False, snk_worker_thread_id (Stop_sink k))"
  by (simp add: snk_life_def Stop_sink_def snk_flag_defs Let_def)

lemma proxy_stop_inv: "proxy_inv p \<Longrightarrow> proxy_inv (proxy_Stop p)"
  by (auto simp: proxy_Stop_def proxy_inv_def px_flag_defs px_ok_def Stop_inv Stop_sink_inv Stop_life Stop_sink_life
      src_life_def [of "px_source p"] snk_life_def [of "px_sink p"])

lemma proxy_start_inv:
  assumes "proxy_inv p" "a \<noteq> Some 0" "b \<noteq> Some 0"
  shows "proxy_inv (snd (proxy_Start E a n i b p))"
proof (cases "IsInit_proxy p \<and> IsMetaReady p \<and> \<not> IsStarted_proxy p")
  case False
  with assms(1) show ?thesis by (auto simp: proxy_Start_def)
next
  case True
  obtain r1 s where s: "Start a (px_source p) = (r1, s)" by (cases "Start a (px_source p)")
  obtain r2 k where k: "Start_sink n i b (px_sink p) = (r2, k)" by (cases "Start_sink n i b (px_sink p)")
  have p: "source_inv (px_source p)" "sink_inv (px_sink p)" "px_lock p" "IsInit (px_source p)" "IsInit_sink (px_sink p)"
    "flag_on (px_flags p) 1" "\<not> flag_on (px_flags p) 2"
    using assms(1) True by (auto simp: proxy_inv_def px_ok_def px_flag_defs src_life_def snk_life_def)
  have si: "source_inv s" "sink_inv k" using Start_inv [OF p(1) assms(2)] Start_sink_inv [OF p(2) assms(3), of n i] s k by auto
  have ls: "fst (src_life s)" using Start_life [of a "px_source p"] s p(4) by (auto simp: src_life_def)
  have lk: "fst (snk_life k)" using Start_sink_life [of n i b "px_sink p"] k p(5) by (auto simp: snk_life_def split: if_splits)
  have ok: "fst (snd (src_life s))" if "r1 = 0" using Start_ok [of a "px_source p"] s that by simp
  have okk: "fst (snd (snk_life k))" if "r2 = 0" using Start_sink_life [of n i b "px_sink p"] k that by auto
  obtain ss ts where vs: "src_life s = (True, ss, ts)" using ls by (cases "src_life s") auto
  obtain ks tk where vk: "snk_life k = (True, ks, tk)" using lk by (cases "snk_life k") auto
  obtain ks0 tk0 where vk0: "snk_life (px_sink p) = (True, ks0, tk0)" using p(5) by (simp add: snk_life_def)
  have res: "snd (proxy_Start E a n i b p) =
     (if r1 \<noteq> 0 then p\<lparr>px_last_frame_recv := se_time E, px_source := set_stream_state E SOURCE_STREAM_STATE_ERR s\<rparr>
      else if r2 \<noteq> 0 then p\<lparr>px_last_frame_recv := se_time E, px_sink := k,
        px_source := set_stream_state E SOURCE_STREAM_STATE_ERR s\<rparr>
      else p\<lparr>px_last_frame_recv := se_time E, px_sink := k, px_source := set_stream_state E SOURCE_STREAM_STATE_OK s,
        px_flags := px_flags p OR 2\<rparr>)"
    using True s k by (simp add: proxy_Start_def Let_def)
  show ?thesis
    unfolding res using p(2,3,6,7) si vs vk vk0 ok okk
    by (simp add: proxy_inv_def px_ok_def set_stream_state_inv)
qed

lemma Uninit_life: "source_inv s \<Longrightarrow> \<not> IsInit (Uninit s)"
  by (simp add: Uninit_def Let_def UnregisterAllApiHandler_def src_flag_defs)

lemma Uninit_sink_life: "\<not> IsInit_sink (Uninit_sink k)"
  by (simp add: Uninit_sink_def Let_def UnregisterAllSubHandler_def snk_flag_defs)

lemma proxy_uninit_inv:
  assumes "proxy_inv p"
  shows "proxy_inv (proxy_Uninit p)"
proof (cases "IsInit_proxy p")
  case True
  define q where "q = proxy_Stop p"
  have q: "proxy_inv q" using proxy_stop_inv [OF assms] by (simp add: q_def)
  have st: "\<not> flag_on (px_flags q) 2" using True by (simp add: q_def proxy_Stop_def px_flag_defs)
  have qs: "source_inv (px_source q)" "sink_inv (px_sink q)" using q by (simp_all add: proxy_inv_def)
  have "source_inv (Uninit (px_source q))" "sink_inv (Uninit_sink (px_sink q))"
    "\<not> IsInit (Uninit (px_source q))" "\<not> IsInit_sink (Uninit_sink (px_sink q))"
    using Uninit_inv [OF qs(1)] Uninit_sink_inv [OF qs(2)] Uninit_life [OF qs(1)] Uninit_sink_life by auto
  with True st show ?thesis
    by (simp add: proxy_Uninit_def Let_def proxy_inv_def px_ok_def src_life_def snk_life_def flip: q_def)
qed (use assms in \<open>simp add: proxy_Uninit_def\<close>)

lemma InitRemote_init:
  assumes "sink_inv k" "\<not> IsInit_sink k" "InitRemote ie ip port c q l d k = (r, t)"
  shows "IsInit_sink t = (r = 0)"
proof -
  have idle: "\<not> IsStarted_sink k" "snk_subscriber_socket k = None" "snk_last_api_socket k = None" "\<not> snk_lock k"
    "snk_notify_socket k = None" "snk_client_hearbeat_socket k = None" "omap_inv (snk_subsriber_handler_map k)"
    using assms(1,2) by (auto simp: sink_inv_def sink_life_def life_ok_def)
  let ?a = "remote_addr ip port" and ?b = "remote_addr ip (port + 1)"
  let ?u = "k\<lparr>snk_api_addr := take 254 ?a, snk_subscriber_addr := take 254 ?b\<rparr>"
  obtain r' t' where rt: "InitBase ie c q l d ?u = (r', t')" by (cases "InitBase ie c q l d ?u")
  have u: "\<not> IsInit_sink ?u" "\<not> IsStarted_sink ?u" using assms(2) idle(1) by (simp_all add: snk_flag_defs)
  have "IsInit_sink t' = (r' = 0)"
    using InitBase_outcome [OF u _ _ _ _ _ _ rt] idle by (auto split: if_splits)
  with assms(2,3) rt show ?thesis
    by (auto simp: InitRemote_def init_addrs_def snprintf_def Let_def error_code_defs snk_flag_defs split: if_splits)
qed

lemma Init_init:
  assumes "source_inv s" "\<not> IsInit s" "- (2 ^ 31) \<le> port" "port < 2 ^ 31" "Init ie name port q l dbg s = Ret (r, t)"
  shows "IsInit t = (r = 0)"
proof -
  have name: "length name < 64 \<or> t = s \<and> r \<noteq> 0"
    using assms(5) by (auto simp: Init_def error_code_defs split: if_splits)
  show ?thesis using assms(5)
  proof (cases rule: Init_cases)
    case same
    with assms(2) show ?thesis by simp
  next
    case fail
    with name source_sockets [OF _ assms(3,4) fail(2)] assms(2) show ?thesis
      by (auto simp: init_error_2_def src_flag_defs error_code_defs)
  next
    case (ok r' s')
    then show ?thesis by (simp add: init_fields_simps src_flag_defs)
  qed
qed

lemma proxy_init_inv:
  assumes "proxy_inv p" "- (2 ^ 31) \<le> port" "port < 2 ^ 31" "proxy_Init pe E url name port subq pubq dbg p = Ret (r, q)"
  shows "proxy_inv q"
proof (cases "q = p")
  case False
  define u where "u = UrlParser_Parse (c_str url) new_UrlParser"
  obtain r1 k where k: "InitRemote (pe_sink_init pe) (url_host_name u) (url_port u) (proxy_client_info pe port)
      (of_int subq) True (of_int dbg) (px_sink p) = (r1, k)" by (metis surj_pair)
  have new: "\<not> IsInit_proxy p" using assms(4) False by (auto simp: proxy_Init_def Let_def split: if_splits)
  then have p: "source_inv (px_source p)" "sink_inv (px_sink p)" "\<not> px_lock p" "\<not> IsInit (px_source p)"
    "\<not> IsInit_sink (px_sink p)" "\<not> flag_on (px_flags p) 1" "\<not> flag_on (px_flags p) 2"
    using assms(1) by (auto simp: proxy_inv_def px_ok_def px_flag_defs src_life_def snk_life_def)
  have kinv: "sink_inv k" "IsInit_sink k = (r1 = 0)"
    using Init_sink_inv(2) [OF p(2), of "pe_sink_init pe" "url_host_name u" "url_port u" "proxy_client_info pe port"
        "of_int subq" True "of_int dbg"] InitRemote_init [OF p(2,5) k] k by simp_all
  show ?thesis
  proof (cases "r1 = 0")
    case False
    with assms(4) k new \<open>q \<noteq> p\<close> have "q = p\<lparr>px_sink := k, px_lock := False\<rparr>"
      by (auto simp: proxy_Init_def Let_def simp flip: u_def split: if_splits)
    with p kinv False show ?thesis by (simp add: proxy_inv_def px_ok_def src_life_def snk_life_def)
  next
    case True
    with assms(4) k new \<open>q \<noteq> p\<close> obtain r2 s where
      s: "Init (pe_source_init pe) name port (of_int pubq) (Some (proxy_listener (pe_garbage pe) (pe_zclock_time pe) k))
          (of_int dbg) (px_source p) = Ret (r2, s)"
      and q: "q = (if r2 \<noteq> 0 then p\<lparr>px_source := s, px_sink := Uninit_sink k, px_lock := False\<rparr>
        else p\<lparr>px_lock := True, px_sink := k, px_source := set_stream_state E SOURCE_STREAM_STATE_CONNECTING s,
               px_flags := px_flags p OR 1\<rparr>)"
      by (auto simp: proxy_Init_def Let_def elim!: bind_cpp_RetE simp flip: u_def split: if_splits)
    have sinv: "source_inv s" "IsInit s = (r2 = 0)"
      using Init_inv [OF p(1) s] Init_init [OF p(1,4) assms(2,3) s] by simp_all
    show ?thesis
      unfolding q using p sinv kinv True Uninit_sink_inv [OF kinv(1)] Uninit_sink_life [of k]
      by (simp add: proxy_inv_def px_ok_def set_stream_state_inv) (simp add: src_life_def snk_life_def)
  qed
qed (use assms(1) in simp)

lemma proxy_heartbeat_inv:
  assumes "proxy_inv p" "a \<noteq> Some 0" "b \<noteq> Some 0" "re_meanwhile R = id" "proxy_Hearbeat E R a n i b p = Ret (r, q)"
  shows "proxy_inv q"
proof -
  define p1 where "p1 = p\<lparr>px_need_key_frame := False, px_need_update_metadata := False\<rparr>"
  have p1: "proxy_inv p1" using assms(1) by (simp add: p1_def)
  have upd: "proxy_inv q'"
    if inv2: "proxy_inv p2" and run: "bind_cpp (proxy_UpdateStreamMetaData E R 5000 (proxy_Stop p2)) (\<lambda>(ret, p3).
        if ret \<noteq> 0 then Ret (ret, p3) else Ret (proxy_Start E a n i b p3)) = Ret (r', q')" for p2 q' r'
  proof -
    obtain ret p3 where p3: "proxy_UpdateStreamMetaData E R 5000 (proxy_Stop p2) = Ret (ret, p3)"
      using run by (auto elim!: bind_cpp_RetE)
    have "proxy_inv p3" using proxy_update_inv [OF proxy_stop_inv [OF inv2] assms(4) p3] .
    with run p3 proxy_start_inv [OF _ assms(2,3), of p3 E n i] show ?thesis
      by (auto split: if_splits)
  qed
  have key: "proxy_inv (p1\<lparr>px_sink := k\<rparr>)" if "KeyFrame R 5000 (px_sink p1) = Ret (ret, k)" for ret k
    using sink_update_keeps(2) [OF _ assms(4) that] p1 by (intro proxy_inv_sink [OF p1]) (simp_all add: proxy_inv_def)
  show ?thesis
    using assms(1,5) p1 upd [OF p1] upd [OF key] key proxy_inv_state [OF p1] proxy_inv_state [OF key]
    by (auto simp: proxy_Hearbeat_def Let_def elim!: bind_cpp_RetE simp flip: p1_def split: if_splits)
qed

lemma proxy_sink_calls_inv:
  "proxy_inv p \<Longrightarrow> proxy_sink_calls C now cs p = Ret q \<Longrightarrow> proxy_inv q"
proof (induction cs arbitrary: p)
  case (Cons c cs)
  then obtain p1 where p1: "proxy_sink_call C now c p = Ret p1" "proxy_sink_calls C now cs p1 = Ret q"
    by (auto elim!: bind_cpp_RetE)
  have "proxy_inv p1"
  proof (cases c)
    case (OnLiveMediaFrame f d)
    then obtain ret s where s: "SendLiveMediaFrame C f d (px_source p) = Ret (ret, s)"
      "p1 = p\<lparr>px_source := s, px_last_frame_recv := now\<rparr>"
      using p1(1) by (auto simp: proxy_sink_call_def proxy_OnLiveMediaFrame_def elim!: bind_cpp_RetE)
    have "source_inv s" using SendLiveMediaFrame_inv [OF _ s(1)] Cons.prems(1) by (simp add: proxy_inv_def)
    from proxy_inv_source [OF Cons.prems(1) this SendLiveMediaFrame_life [OF s(1)]] s(2) show ?thesis by simp
  next
    case (OnMetadataMismatch x)
    with p1(1) Cons.prems(1) show ?thesis by (auto simp: proxy_sink_call_def proxy_OnMetadataMismatch_def)
  qed
  with Cons.IH p1(2) show ?case by blast
qed simp

lemma proxy_sub_read_inv:
  assumes "proxy_inv p" "handler_safe K" "sub_user_keeps_life K" "proxy_sub_read K now z p = Ret q"
  shows "proxy_inv q"
proof -
  obtain k where k: "OnSubRead K z (px_sink p) = Ret k"
    "proxy_sink_calls (ke_codec K) now (drop (length (snk_calls (px_sink p))) (snk_calls k)) (p\<lparr>px_sink := k\<rparr>) = Ret q"
    using assms(4) by (auto simp: proxy_sub_read_def elim!: bind_cpp_RetE)
  have "proxy_inv (p\<lparr>px_sink := k\<rparr>)"
    using OnSubRead_inv [OF _ assms(2) k(1)] OnSubRead_life [OF assms(3) k(1)] assms(1)
    by (intro proxy_inv_sink [OF assms(1)]) (simp_all add: proxy_inv_def)
  then show ?thesis using proxy_sink_calls_inv k(2) by blast
qed

lemma source_listener_change [simp]:
  "source_inv (s\<lparr>src_listener := l\<rparr>) = source_inv s" "src_life (s\<lparr>src_listener := l\<rparr>) = src_life s"
  by (simp_all add: source_inv_defs stat_inv_def life_inv_def src_flag_defs src_life_def)

lemma proxy_api_read_inv:
  assumes "proxy_inv p" "user_safe E" "user_keeps_life E" "IsStarted (px_source p)"
  shows "proxy_inv (proxy_api_read E g z p)"
proof -
  define s0 where "s0 = (px_source p)\<lparr>src_listener :=
    map_option (\<lambda>_. proxy_listener g (se_zclock_time E) (px_sink p)) (src_listener (px_source p))\<rparr>"
  have "source_inv s0" "IsStarted s0" using assms(1,4) by (simp_all add: s0_def proxy_inv_def IsStarted_def)
  then have "source_inv (OnApiSocketRead E z s0)" using assms(2) by (intro OnApiSocketRead_inv)
  moreover have "src_life (OnApiSocketRead E z s0) = src_life (px_source p)"
    using OnApiSocketRead_life [OF assms(3)] by (simp add: s0_def)
  ultimately have "proxy_inv (p\<lparr>px_source := OnApiSocketRead E z s0\<rparr>)" by (rule proxy_inv_source [OF assms(1)])
  then show ?thesis by (simp add: proxy_api_read_def Let_def proxy_OnKeyFrame_def flip: s0_def)
qed

lemma proxy_step_inv:
  assumes "proxy_step p q" "proxy_inv p"
  shows "proxy_inv q"
  using assms
proof (induction rule: proxy_step.induct)
  case (px_source_beat p E now)
  then show ?case
    by (intro proxy_inv_source Heartbeat_inv) (simp_all add: proxy_inv_parts Heartbeat_life)
next
  case (px_sink_beat p K now k)
  then show ?case
    using Heartbeat_sink_inv [of "px_sink p" K now k] Heartbeat_sink_life [of K now "px_sink p" k]
    by (intro proxy_inv_sink) (simp_all add: proxy_inv_parts)
qed (rule proxy_init_inv proxy_update_inv proxy_start_inv proxy_stop_inv proxy_uninit_inv proxy_heartbeat_inv
      proxy_sub_read_inv proxy_api_read_inv; assumption)+

interpretation proxy_machine: state_machine "\<lambda>p. p = new_StreamProxySource" proxy_step proxy_inv
  by unfold_locales (auto simp: proxy_inv_new intro: proxy_step_inv)

text \<open>C29: In every state a proxy reaches, through its own methods, the messages its sink reads and the requests its
  source serves, the invariants of the source and of the sink hold, the proxy is initialised exactly
  when both of them are, and a started proxy has both of them started.\<close>

theorem proxy_reachable_inv:
  assumes "reachable_from (\<lambda>p. p = new_StreamProxySource) proxy_step p"
  shows "source_inv (px_source p) \<and> sink_inv (px_sink p) \<and> px_lock p = IsInit_proxy p \<and>
    IsInit (px_source p) = IsInit_proxy p \<and> IsInit_sink (px_sink p) = IsInit_proxy p \<and>
    (IsStarted_proxy p \<longrightarrow> IsInit_proxy p \<and> IsStarted (px_source p) \<and> IsStarted_sink (px_sink p))"
  using proxy_machine.reach_inv [OF assms]
  by (auto simp: proxy_inv_def px_ok_def px_flag_defs src_life_def snk_life_def)


section \<open>Frames\<close>

fun proxy_deliver ::
  "'b sink_env \<Rightarrow> int \<Rightarrow> 'b pub_msg list \<Rightarrow> 'b StreamProxySource \<Rightarrow> 'b StreamProxySource cpp" where
  "proxy_deliver K now [] p = Ret p"
| "proxy_deliver K now (m # ms) p = bind_cpp (proxy_sub_read K now (Sub_Full m) p) (proxy_deliver K now ms)"

text \<open>The message can be received by the sink and sent again by the source.\<close>

definition relay_ok :: "'b StreamProxySource \<Rightarrow> ProtoMediaFrameMsg \<Rightarrow> bool" where
  "relay_ok p m \<longleftrightarrow> msg_ok (px_sink p) m \<and> frame_ok (px_source p) (frame_info_of m)"

definition relay_ready :: "'b pb_codec \<Rightarrow> 'b StreamProxySource \<Rightarrow> bool" where
  "relay_ready C p \<longleftrightarrow> codec_ok C \<and> receives_media (px_sink p) \<and> snk_listener (px_sink p) \<and>
     source_inv (px_source p) \<and> IsInit (px_source p)"

lemma proxy_sub_read_relays:
  assumes "relay_ready (ke_codec K) p" "relay_ok p m"
  obtains k s where "OnSubRead K (Sub_Full (media_pub (ke_codec K) m d)) (px_sink p) = Ret k"
    "SendLiveMediaFrame (ke_codec K) (frame_info_of m) (blob_part d) (px_source p) = Ret (0, s)"
    "proxy_sub_read K now (Sub_Full (media_pub (ke_codec K) m d)) p =
       Ret (p\<lparr>px_sink := k, px_source := s, px_last_frame_recv := now\<rparr>)"
    "relay_ready (ke_codec K) (p\<lparr>px_sink := k, px_source := s, px_last_frame_recv := now\<rparr>)"
    "\<forall>m'. relay_ok (p\<lparr>px_sink := k, px_source := s, px_last_frame_recv := now\<rparr>) m' = relay_ok p m'"
proof -
  have r: "codec_ok (ke_codec K)" "receives_media (px_sink p)" "snk_listener (px_sink p)"
    "source_inv (px_source p)" "IsInit (px_source p)" "msg_ok (px_sink p) m" "frame_ok (px_source p) (frame_info_of m)"
    using assms by (simp_all add: relay_ready_def relay_ok_def)
  define k where "k = listener_call (OnLiveMediaFrame (frame_info_of m) (blob_part d))
      ((px_sink p)\<lparr>snk_statistic := (snk_statistic (px_sink p))[nat (mf_stream_index m) :=
         recv_upd (mf_frame_type m, blob_size (blob_part d), mf_seq m)
           (snk_statistic (px_sink p) ! nat (mf_stream_index m))]\<rparr>)"
  have k: "OnSubRead K (Sub_Full (media_pub (ke_codec K) m d)) (px_sink p) = Ret k"
    by (simp add: OnSubRead_media [OF r(1,2)] MediaFrameHandler_ok [OF r(1,6)] k_def)
  have calls: "drop (length (snk_calls (px_sink p))) (snk_calls k) = [OnLiveMediaFrame (frame_info_of m) (blob_part d)]"
    using r(3) by (simp add: listener_call_def k_def)
  have keep: "snk_stream_meta k = snk_stream_meta (px_sink p)" "length (snk_statistic k) = length (snk_statistic (px_sink p))"
    "receives_media k" "snk_listener k"
    using r(2,3) by (simp_all add: listener_call_def receives_media_def k_def)
  obtain s where s: "SendLiveMediaFrame (ke_codec K) (frame_info_of m) (blob_part d) (px_source p) = Ret (0, s)"
    "source_inv s" "IsInit s" "src_stream_meta s = src_stream_meta (px_source p)"
    by (rule send_one [OF r(4,5,7)])
  show ?thesis
    by (rule that [OF k s(1)])
      (simp_all add: proxy_sub_read_def k calls proxy_sink_call_def proxy_OnLiveMediaFrame_def s relay_ready_def
        relay_ok_def r(1) keep msg_ok_def frame_ok_def)
qed

lemma proxy_deliver_relays:
  assumes "relay_ready (ke_codec K) p" "list_all (\<lambda>(m, d). relay_ok p m) ms"
  shows "\<exists>q. proxy_deliver K now (map (\<lambda>(m, d). media_pub (ke_codec K) m d) ms) p = Ret q \<and>
    deliver K (map (\<lambda>(m, d). media_pub (ke_codec K) m d) ms) (px_sink p) = Ret (px_sink q) \<and>
    send_run (ke_codec K) (map (\<lambda>(m, d). (frame_info_of m, blob_part d)) ms) (px_source p) = Ret (px_source q) \<and>
    px_last_frame_recv q = (if ms = [] then px_last_frame_recv p else now)"
  using assms
proof (induction ms arbitrary: p)
  case (Cons md ms)
  obtain m d where md: "md = (m, d)" by (cases md)
  obtain k s where ks: "OnSubRead K (Sub_Full (media_pub (ke_codec K) m d)) (px_sink p) = Ret k"
    "SendLiveMediaFrame (ke_codec K) (frame_info_of m) (blob_part d) (px_source p) = Ret (0, s)"
    "proxy_sub_read K now (Sub_Full (media_pub (ke_codec K) m d)) p =
       Ret (p\<lparr>px_sink := k, px_source := s, px_last_frame_recv := now\<rparr>)"
    "relay_ready (ke_codec K) (p\<lparr>px_sink := k, px_source := s, px_last_frame_recv := now\<rparr>)"
    "\<forall>m'. relay_ok (p\<lparr>px_sink := k, px_source := s, px_last_frame_recv := now\<rparr>) m' = relay_ok p m'"
    using Cons.prems md by (auto intro: proxy_sub_read_relays [of K p m d now])
  from Cons.IH [OF ks(4)] Cons.prems(2) ks(5) obtain q where
    "proxy_deliver K now (map (\<lambda>(m, d). media_pub (ke_codec K) m d) ms)
       (p\<lparr>px_sink := k, px_source := s, px_last_frame_recv := now\<rparr>) = Ret q"
    "deliver K (map (\<lambda>(m, d). media_pub (ke_codec K) m d) ms) k = Ret (px_sink q)"
    "send_run (ke_codec K) (map (\<lambda>(m, d). (frame_info_of m, blob_part d)) ms) s = Ret (px_source q)"
    "px_last_frame_recv q = now"
    by auto
  then show ?case by (simp add: md ks)
qed simp


text \<open>C15: The proxy hands on what it receives: a run of frames that match the metadata of its sink and of
  its source is read completely, and the proxy publishes the same frames with the same data in the
  same order, numbered by its own counters; the time of the last one is noted.\<close>

theorem proxy_relays_frames:
  assumes "relay_ready (ke_codec K) p" "list_all (\<lambda>(m, d). relay_ok p m) ms"
  shows "\<exists>q. proxy_deliver K now (map (\<lambda>(m, d). media_pub (ke_codec K) m d) ms) p = Ret q \<and>
    src_pub_sent (px_source q) = src_pub_sent (px_source p) @
      map (\<lambda>j. media_pub (ke_codec K)
        (media_frame_msg (frame_info_of (fst (ms ! j)))
          (run_seq (src_statistic (px_source p)) (map (\<lambda>(m, d). (frame_info_of m, blob_part d)) ms) j))
        (blob_part (snd (ms ! j)))) [0..<length ms] \<and>
    (ms \<noteq> [] \<longrightarrow> px_last_frame_recv q = now)"
proof -
  let ?fs = "map (\<lambda>(m, d). (frame_info_of m, blob_part d)) ms"
  obtain q where q: "proxy_deliver K now (map (\<lambda>(m, d). media_pub (ke_codec K) m d) ms) p = Ret q"
    "send_run (ke_codec K) ?fs (px_source p) = Ret (px_source q)" "ms \<noteq> [] \<longrightarrow> px_last_frame_recv q = now"
    using proxy_deliver_relays [OF assms, of now] by auto
  have "list_all (\<lambda>(f, d). frame_ok (px_source p) f) ?fs"
    using assms(2) by (auto simp: list_all_iff relay_ok_def)
  then have "src_pub_sent (px_source q) = src_pub_sent (px_source p) @
      map (run_msg (ke_codec K) (src_statistic (px_source p)) ?fs) [0..<length ms]"
    using send_run_spec [of "px_source p" ?fs "ke_codec K"] assms(1) q(2) by (auto simp: relay_ready_def)
  moreover have "run_msg (ke_codec K) (src_statistic (px_source p)) ?fs j = media_pub (ke_codec K)
      (media_frame_msg (frame_info_of (fst (ms ! j))) (run_seq (src_statistic (px_source p)) ?fs j))
      (blob_part (snd (ms ! j)))" if "j < length ms" for j
    using that by (cases "ms ! j") (simp add: run_msg_media_pub sent_frame_def)
  ultimately have "src_pub_sent (px_source q) = src_pub_sent (px_source p) @
      map (\<lambda>j. media_pub (ke_codec K)
        (media_frame_msg (frame_info_of (fst (ms ! j))) (run_seq (src_statistic (px_source p)) ?fs j))
        (blob_part (snd (ms ! j)))) [0..<length ms]"
    by simp
  with q show ?thesis by blast
qed

section \<open>Metadata\<close>

text \<open>When the back end is a live source, updating the metadata of a proxy succeeds: the sink appends the
  back end's sub streams to those it has, the proxy's source publishes the same metadata under the
  protocol name STSW, and if the sink had none before, every frame that matches the back end's
  metadata can be relayed.\<close>

theorem proxy_metadata_update:
  assumes "IsInit_proxy p" "IsInit_sink (px_sink p)" "\<not> IsStarted_sink (px_sink p)"
    and "has_builtin E s" "connected (se_codec E) (source_answer (E, s)) R" "0 \<le> timeout"
    and "sm_play_type (src_stream_meta s) = STREAM_PLAY_TYPE_LIVE"
  shows "\<exists>q. proxy_UpdateStreamMetaData E' R timeout p = Ret (0, q) \<and> IsMetaReady q \<and>
    (let old = sm_sub_streams (snk_stream_meta (px_sink p));
         m = (wire_meta (src_stream_meta s))\<lparr>sm_sub_streams := old @ sm_sub_streams (wire_meta (src_stream_meta s))\<rparr>
     in snk_stream_meta (px_sink q) = m \<and> src_stream_meta (px_source q) = m\<lparr>sm_source_proto := ''STSW''\<rparr> \<and>
        (old = [] \<longrightarrow> (\<forall>f seq. frame_ok s f \<longrightarrow> relay_ok q (media_frame_msg f seq))))"
proof -
  let ?m = "src_stream_meta s"
  let ?k = "apply_meta_rep (meta_rep ?m) (rpc_after R ((px_sink p)\<lparr>snk_next_seq := snk_next_seq (px_sink p) + 1\<rparr>))"
  define k where "k = ?k"
  have upd: "UpdateStreamMetaData R timeout (px_sink p) = Ret (0, k)"
    using metadata_request [OF assms(4-6,2,3)] by (simp add: k_def)
  have meta: "snk_stream_meta k = (wire_meta ?m)\<lparr>sm_sub_streams := sm_sub_streams (snk_stream_meta (px_sink p)) @
      sm_sub_streams (wire_meta ?m)\<rparr>" "length (snk_statistic k) = length (sm_sub_streams ?m)"
    by (simp_all add: k_def apply_meta_rep_appends rpc_after_meta [OF assms(5)])
  let ?q = "p\<lparr>px_sink := k, px_source := set_stream_meta ((snk_stream_meta k)\<lparr>sm_source_proto := ''STSW''\<rparr>) (px_source p),
     px_flags := px_flags p OR 4\<rparr>"
  have src: "src_stream_meta (set_stream_meta x y) = x" for x and y :: "'a StreamSource" by (simp add: set_stream_meta_def)
  have "proxy_UpdateStreamMetaData E' R timeout p = Ret (0, ?q)"
    using assms(1,7) by (simp add: proxy_UpdateStreamMetaData_def upd Let_def) (simp add: meta wire_meta_def)
  moreover have "relay_ok ?q (media_frame_msg f seq)"
    if "sm_sub_streams (snk_stream_meta (px_sink p)) = []" "frame_ok s f" for f seq
    using that by (simp add: relay_ok_def msg_ok_def frame_ok_def meta src media_frame_msg_def frame_info_of_def wire_meta_def)
  ultimately show ?thesis
    by (simp add: Let_def meta src px_flag_defs)
qed


section \<open>A failed start\<close>

text \<open>When the sink cannot be started, \<open>Start\<close> fails after the source has been started and does not
  stop it: the proxy does not count as started, its source's worker thread runs, and \<open>Stop\<close> does
  nothing.\<close>

theorem proxy_start_leaves_source_running:
  assumes "proxy_inv p" "IsInit_proxy p" "IsMetaReady p" "\<not> IsStarted_proxy p" "start_creates (px_source p)"
    and "fst (Start_sink sub_new sub_attach snk_thread (px_sink p)) \<noteq> 0"
  shows "case proxy_Start E (Some tid) sub_new sub_attach snk_thread p of (r, q) \<Rightarrow>
    r \<noteq> 0 \<and> \<not> IsStarted_proxy q \<and> IsStarted (px_source q) \<and> src_api_thread_id (px_source q) = tid \<and>
    src_stream_state (px_source q) = SOURCE_STREAM_STATE_ERR \<and> proxy_Stop q = q"
proof -
  obtain r k where k: "Start_sink sub_new sub_attach snk_thread (px_sink p) = (r, k)" "r \<noteq> 0"
    using assms(6) by (cases "Start_sink sub_new sub_attach snk_thread (px_sink p)") simp
  obtain s where s: "Start (Some tid) (px_source p) = (0, s)"
    using assms(5) by (auto simp: Start_def start_creates_def src_flag_defs Let_def)
  have life: "src_life s = (True, True, tid)"
    using Start_creating(2) [OF assms(5), of tid] s by simp
  define q where "q = p\<lparr>px_last_frame_recv := se_time E, px_sink := k,
    px_source := set_stream_state E SOURCE_STREAM_STATE_ERR s\<rparr>"
  have start: "proxy_Start E (Some tid) sub_new sub_attach snk_thread p = (r, q)"
    using assms(2-4) s k by (simp add: proxy_Start_def Let_def q_def)
  have "\<not> IsStarted_proxy q" using assms(4) by (simp add: q_def px_flag_defs)
  moreover have "IsStarted (px_source q)" "src_api_thread_id (px_source q) = tid"
    using life set_stream_state_life [of E SOURCE_STREAM_STATE_ERR s] by (simp_all add: q_def src_life_def)
  moreover have "src_stream_state (px_source q) = SOURCE_STREAM_STATE_ERR"
    using life by (simp add: q_def set_stream_state_def src_life_def Let_def SendStreamInfo_def SendPublishMsg_def)
  ultimately show ?thesis using k(2) by (simp add: start proxy_Stop_def)
qed

section \<open>Concrete runs\<close>

definition demo_proxy_env :: proxy_env where
  "demo_proxy_env = \<lparr>pe_out_ip = Some ''10.0.0.9'', pe_pid = 77, pe_mutexattr_settype = 0, pe_mutex_init = 0,
     pe_sink_init = demo_sink_init_env, pe_source_init = demo_init_env,
     pe_garbage = \<lparr>mi_ssrc = 0, mi_timestamp = 0, mi_sum_bytes = 0, mi_sub_streams = []\<rparr>, pe_zclock_time = 0\<rparr>"

lemma demo_url: "UrlParser_Parse ''stsw://h:80'' new_UrlParser =
    \<lparr>url_protocol = ''stsw'', url_host_name = ''h'', url_port = 80, url_path = ''''\<rparr>"
  by code_simp

definition demo_proxy :: "wire StreamProxySource" where
  "demo_proxy = (case proxy_Init demo_proxy_env demo_env ''stsw://h:80'' ''copy'' 0 100 100 0 new_StreamProxySource of
     Ret (r, q) \<Rightarrow> q | Undef \<Rightarrow> new_StreamProxySource)"

lemma demo_ports: "dec_int 80 = ''80''" "dec_int 81 = ''81''"
  by (simp_all add: dec_int_def dec_nat.simps char_of_eq_iff)

lemmas demo_proxy_defs = demo_proxy_def proxy_Init_def demo_url InitRemote_def remote_addr_def demo_sink_defs demo_defs
  demo_proxy_env_def new_StreamProxySource_def px_flag_defs flag_on_def demo_ports

lemma demo_proxy_init:
  "proxy_Init demo_proxy_env demo_env ''stsw://h:80'' ''copy'' 0 100 100 0 new_StreamProxySource = Ret (0, demo_proxy)"
  by (simp add: demo_proxy_defs)

lemma demo_proxy_simps:
  "IsInit_proxy demo_proxy" "\<not> IsStarted_proxy demo_proxy" "IsInit_sink (px_sink demo_proxy)"
  "\<not> IsStarted_sink (px_sink demo_proxy)" "sm_sub_streams (snk_stream_meta (px_sink demo_proxy)) = []"
  by (simp_all add: demo_proxy_defs set_stream_state_def new_StreamMetadata_def)

lemma demo_proxy_inv: "proxy_inv demo_proxy"
  by (rule proxy_init_inv [OF proxy_inv_new _ _ demo_proxy_init]) simp_all

theorem proxy_reachable_inv_witness:
  "source_inv (px_source demo_proxy) \<and> sink_inv (px_sink demo_proxy) \<and> IsInit (px_source demo_proxy)"
proof -
  have "reachable_from (\<lambda>p. p = new_StreamProxySource) proxy_step (new_StreamProxySource :: wire StreamProxySource)"
    by (rule reach_init) simp
  then have "reachable_from (\<lambda>p. p = new_StreamProxySource) proxy_step demo_proxy"
    by (rule reach_step) (rule px_init [OF _ _ demo_proxy_init], simp_all)
  from proxy_reachable_inv [OF this] demo_proxy_simps(1) show ?thesis by simp
qed

theorem proxy_metadata_update_witness:
  "\<exists>q. proxy_UpdateStreamMetaData demo_env demo_link 5000 demo_proxy = Ret (0, q) \<and> IsMetaReady q \<and>
     sm_ssrc (src_stream_meta (px_source q)) = 7 \<and> sm_source_proto (src_stream_meta (px_source q)) = ''STSW'' \<and>
     length (sm_sub_streams (src_stream_meta (px_source q))) = 2"
proof -
  have "sm_ssrc (src_stream_meta demo_source) = 7" "length (sm_sub_streams (src_stream_meta demo_source)) = 2"
    "sm_play_type (src_stream_meta demo_source) = STREAM_PLAY_TYPE_LIVE"
    by (simp_all add: demo_defs new_StreamMetadata_def)
  with proxy_metadata_update [OF demo_proxy_simps(1,3,4) demo_link_facts, of 5000 demo_env]
  show ?thesis by (auto simp: demo_proxy_simps(5) wire_meta_def Let_def)
qed

text \<open>A proxy that has the metadata of the back end.\<close>

definition demo_relay :: "wire StreamProxySource" where
  "demo_relay = demo_proxy\<lparr>px_sink := demo_rx, px_source := demo_source, px_flags := 5\<rparr>"

theorem proxy_relays_frames_witness:
  "\<exists>q. proxy_deliver demo_sink_env 3 (map (\<lambda>(m, d). media_pub (ke_codec demo_sink_env) m d) demo_msgs) demo_relay = Ret q \<and>
     length (src_pub_sent (px_source q)) = length (src_pub_sent demo_source) + 2 \<and> px_last_frame_recv q = 3"
proof -
  have meta: "sm_ssrc (src_stream_meta demo_source) = 7" "length (sm_sub_streams (src_stream_meta demo_source)) = 2"
    by (simp_all add: demo_defs)
  have "relay_ready (ke_codec demo_sink_env) demo_relay"
    by (simp add: relay_ready_def demo_relay_def demo_rx_simps demo_source_inv demo_source_init)
  moreover have "list_all (\<lambda>(m, d). relay_ok demo_relay m) demo_msgs"
    using demo_msgs_ok by (simp add: relay_ok_def demo_relay_def demo_msgs_def frame_ok_def frame_info_of_def meta)
  ultimately show ?thesis
    using proxy_relays_frames [of demo_sink_env demo_relay demo_msgs 3]
    by (auto simp: demo_relay_def) (simp_all add: demo_msgs_def)
qed

theorem proxy_start_leaves_source_running_witness:
  "\<not> IsStarted_proxy (snd (proxy_Start demo_env (Some 4) True 0 None (demo_proxy\<lparr>px_flags := 5\<rparr>))) \<and>
   IsStarted (px_source (snd (proxy_Start demo_env (Some 4) True 0 None (demo_proxy\<lparr>px_flags := 5\<rparr>))))"
proof -
  let ?p = "demo_proxy\<lparr>px_flags := 5\<rparr>"
  have "px_flags demo_proxy = 1" by (simp add: demo_proxy_defs)
  then have inv: "proxy_inv ?p" using demo_proxy_inv proxy_inv_irrelevant(4) [of demo_proxy] by simp
  have "IsInit_proxy ?p" "IsMetaReady ?p" "\<not> IsStarted_proxy ?p" by (simp_all add: px_flag_defs flag_on_def)
  moreover have "start_creates (px_source ?p)"
    by (simp add: start_creates_def demo_proxy_defs set_stream_state_def src_flag_defs)
  moreover have "fst (Start_sink True 0 None (px_sink ?p)) \<noteq> 0"
    by (simp add: demo_proxy_defs Start_sink_def error_code_defs)
  ultimately show ?thesis
    using proxy_start_leaves_source_running [OF inv, of True 0 None 4 demo_env]
    by (auto split: prod.splits)
qed

end
