(* ===== verification/Pts_Normalizer.thy ===== *)
theory Pts_Normalizer
  imports Stsw_Prelude
begin

text \<open>
  The time stamp normalizer of the RTSP source
  (\<open>sources/stsw_rtsp_source/src/stsw_pts_normalizer.cc\<close>): presentation times of the incoming
  RTP streams are aligned with the wall clock, keeping the distances between the streams of one
  session.

  The subsession normalizers live on a heap, linked by \<open>fNext\<close>; a pointer is \<open>None\<close> for null and
  otherwise an address. A null pointer that is dereferenced is \<open>Undef\<close>, and so is reading
  \<open>fPTAdjustment\<close>, which the constructor leaves unset, before it is written. The loop that looks for a
  normalizer to unlink and the loop that closes all of them may run forever on a damaged list:
  \<open>None\<close>. Readings of the RTP source and of the clock are parameters. Times are unbounded.
\<close>

section \<open>State\<close>

record timeval =
  tv_sec :: int
  tv_usec :: int

abbreviation MILLION :: int where "MILLION \<equiv> 1000000"

text \<open>What \<open>hasBeenSynchronizedUsingRTCP\<close>, \<open>curPacketRTPTimestamp\<close> and \<open>timestampFrequency\<close> return.\<close>

record rtp_reading =
  rtp_synced :: bool
  rtp_timestamp :: u32
  rtp_frequency :: u32

record PtsSubsessionNormalizer =
  fRTPSource :: "nat option"
  fCodecName :: "string option"
  fMediumName :: "string option"
  fLastRtpTimestamp :: u32
  fNext :: "nat option"
  fFrameSize :: u32
  fNumTruncatedBytes :: u32
  fPresentationTime :: timeval
  fDurationInMicroseconds :: u32

record PtsSessionNormalizer =
  fSubsessionNormalizers :: "nat option"
  fMasterSSNormalizer :: "nat option"
  fUsingLocalTs :: bool
  fPTAdjustment :: "timeval option"

type_synonym pts_heap = "nat \<rightharpoonup> PtsSubsessionNormalizer"
type_synonym pts_state = "pts_heap \<times> PtsSessionNormalizer"

definition new_PtsSessionNormalizer :: "bool \<Rightarrow> PtsSessionNormalizer" where
  "new_PtsSessionNormalizer usingLocalTs =
     \<lparr>fSubsessionNormalizers = None, fMasterSSNormalizer = None, fUsingLocalTs = usingLocalTs,
      fPTAdjustment = None\<rparr>"

text \<open>\<open>strdup\<close> copies up to the first NUL. The base class clears the presentation time; the other
  inherited fields are written before they are read.\<close>

definition new_PtsSubsessionNormalizer ::
  "nat option \<Rightarrow> string option \<Rightarrow> string option \<Rightarrow> nat option \<Rightarrow> PtsSubsessionNormalizer" where
  "new_PtsSubsessionNormalizer rtpSource mediumName codecName nxt =
     \<lparr>fRTPSource = rtpSource, fCodecName = map_option c_str codecName,
      fMediumName = map_option c_str mediumName, fLastRtpTimestamp = 0, fNext = nxt,
      fFrameSize = 0, fNumTruncatedBytes = 0, fPresentationTime = \<lparr>tv_sec = 0, tv_usec = 0\<rparr>,
      fDurationInMicroseconds = 0\<rparr>"

text \<open>\<open>p\<close> is the address that \<open>new\<close> returns.\<close>

definition createNewPtsSubsessionNormalizer ::
  "nat \<Rightarrow> nat option \<Rightarrow> string option \<Rightarrow> string option \<Rightarrow> pts_state \<Rightarrow> pts_state" where
  "createNewPtsSubsessionNormalizer p rtpSource mediumName codecName = (\<lambda>(h, s).
     (h(p \<mapsto> new_PtsSubsessionNormalizer rtpSource mediumName codecName (fSubsessionNormalizers s)),
      s\<lparr>fSubsessionNormalizers := Some p\<rparr>))"

section \<open>Unlinking\<close>

text \<open>\<open>ssPtrPtr\<close> points to the \<open>fNext\<close> field of the node at \<open>p\<close>.\<close>

partial_function (option) unlink_loop :: "pts_heap \<Rightarrow> nat \<Rightarrow> nat \<Rightarrow> pts_heap cpp option" where
  "unlink_loop h p x =
     (case h p of
        None \<Rightarrow> Some Undef
      | Some n \<Rightarrow>
          (case fNext n of
             None \<Rightarrow> Some Undef
           | Some q \<Rightarrow>
               if q = x
               then (case h x of
                       None \<Rightarrow> Some Undef
                     | Some nx \<Rightarrow> Some (Ret (h(p \<mapsto> n\<lparr>fNext := fNext nx\<rparr>))))
               else unlink_loop h q x))"

definition removePresentationTimeSubsessionNormalizer :: "nat \<Rightarrow> pts_state \<Rightarrow> pts_state cpp option" where
  "removePresentationTimeSubsessionNormalizer x = (\<lambda>(h, s).
     let master = (\<lambda>s1. if fMasterSSNormalizer s1 = Some x then s1\<lparr>fMasterSSNormalizer := None\<rparr> else s1)
     in if fSubsessionNormalizers s = Some x
        then (case h x of
                None \<Rightarrow> Some Undef
              | Some n \<Rightarrow> Some (Ret (h, master (s\<lparr>fSubsessionNormalizers := fNext n\<rparr>))))
        else (case fSubsessionNormalizers s of
                None \<Rightarrow> Some Undef
              | Some p \<Rightarrow>
                  map_option (\<lambda>r. bind_cpp r (\<lambda>h1. Ret (h1, master s))) (unlink_loop h p x)))"

text \<open>The destructor, which \<open>Medium::close\<close> calls: unlink, then the memory is freed.\<close>

definition close_PtsSubsessionNormalizer :: "nat \<Rightarrow> pts_state \<Rightarrow> pts_state cpp option" where
  "close_PtsSubsessionNormalizer x st =
     map_option (\<lambda>r. bind_cpp r (\<lambda>(h, s). Ret (h(x := None), s)))
       (removePresentationTimeSubsessionNormalizer x st)"

partial_function (option) delete_PtsSessionNormalizer :: "pts_state \<Rightarrow> pts_state cpp option" where
  "delete_PtsSessionNormalizer st =
     (case fSubsessionNormalizers (snd st) of
        None \<Rightarrow> Some (Ret st)
      | Some p \<Rightarrow>
          (case close_PtsSubsessionNormalizer p st of
             None \<Rightarrow> None
           | Some Undef \<Rightarrow> Some Undef
           | Some (Ret st1) \<Rightarrow> delete_PtsSessionNormalizer st1))"

section \<open>Normalizing\<close>

function carry_usec :: "int \<Rightarrow> int \<Rightarrow> timeval" where
  "carry_usec sec usec =
     (if usec > MILLION then carry_usec (sec + 1) (usec - MILLION) else \<lparr>tv_sec = sec, tv_usec = usec\<rparr>)"
  by pat_completeness auto
termination
  by (relation "measure (\<lambda>(sec, usec). nat usec)") auto

declare carry_usec.simps [simp del]

definition strcmp_video :: "string option \<Rightarrow> bool cpp" where
  "strcmp_video name = (case name of None \<Rightarrow> Undef | Some m \<Rightarrow> Ret (m \<noteq> ''video''))"

definition needs_master :: "pts_heap \<Rightarrow> PtsSubsessionNormalizer \<Rightarrow> PtsSessionNormalizer \<Rightarrow> bool cpp" where
  "needs_master h ss s =
     (case fMasterSSNormalizer s of
        None \<Rightarrow> Ret True
      | Some m \<Rightarrow>
          (case h m of
             None \<Rightarrow> Undef
           | Some mn \<Rightarrow>
               bind_cpp (strcmp_video (fMediumName mn)) (\<lambda>b.
                 if b then strcmp_video (fMediumName ss) else Ret False)))"

definition rtp_offset :: "u32 \<Rightarrow> u32 \<Rightarrow> int" where
  "rtp_offset lastRtpTimestamp curRtpTimestamp =
     (if curRtpTimestamp \<ge> lastRtpTimestamp then uint (curRtpTimestamp - lastRtpTimestamp) else 0)"

definition rtp_freq :: "rtp_reading \<Rightarrow> int" where
  "rtp_freq rd = (let frequency = uint (rtp_frequency rd) in if frequency \<le> 0 then 9000 else frequency)"

text \<open>The local variable \<open>timeNow\<close>: the time the new master's current packet is to have.\<close>

definition master_time ::
  "timeval \<Rightarrow> rtp_reading \<Rightarrow> PtsSubsessionNormalizer \<Rightarrow> timeval \<Rightarrow> timeval \<Rightarrow> PtsSessionNormalizer \<Rightarrow> timeval cpp"
  where
  "master_time clock rd ss fromPT toPT s =
     (if fLastRtpTimestamp ss = 0 then
        (if fMasterSSNormalizer s = None then Ret clock
         else case fPTAdjustment s of
                None \<Rightarrow> Undef
              | Some adj \<Rightarrow> Ret \<lparr>tv_sec = tv_sec adj + tv_sec fromPT, tv_usec = tv_usec adj + tv_usec fromPT\<rparr>)
      else
        let offset = rtp_offset (fLastRtpTimestamp ss) (rtp_timestamp rd);
            frequency = rtp_freq rd
        in Ret (carry_usec (offset div frequency + tv_sec toPT)
                  (offset mod frequency * MILLION div frequency + tv_usec toPT)))"

definition normalizePresentationTime ::
  "timeval \<Rightarrow> (nat \<Rightarrow> rtp_reading) \<Rightarrow> nat \<Rightarrow> timeval \<Rightarrow> timeval \<Rightarrow> pts_state \<Rightarrow>
     (timeval \<times> PtsSessionNormalizer) cpp" where
  "normalizePresentationTime clock rtp x fromPT toPT = (\<lambda>(h, s).
     case h x of
       None \<Rightarrow> Undef
     | Some ss \<Rightarrow>
         (case fRTPSource ss of
            None \<Rightarrow> Undef
          | Some r \<Rightarrow>
              if fUsingLocalTs s then Ret (clock, s)
              else if \<not> rtp_synced (rtp r) then Ret (fromPT, s)
              else
                bind_cpp (needs_master h ss s) (\<lambda>b.
                bind_cpp
                  (if b then
                     bind_cpp (master_time clock (rtp r) ss fromPT toPT s) (\<lambda>timeNow.
                       Ret (s\<lparr>fMasterSSNormalizer := Some x,
                              fPTAdjustment := Some \<lparr>tv_sec = tv_sec timeNow - tv_sec fromPT,
                                                     tv_usec = tv_usec timeNow - tv_usec fromPT\<rparr>\<rparr>))
                   else Ret s) (\<lambda>s1.
                if rtp_timestamp (rtp r) = fLastRtpTimestamp ss then Ret (toPT, s1)
                else case fPTAdjustment s1 of
                       None \<Rightarrow> Undef
                     | Some adj \<Rightarrow>
                         Ret (carry_usec (tv_sec fromPT + tv_sec adj - 1)
                                (tv_usec fromPT + tv_usec adj + MILLION), s1)))))"

definition afterGettingFrame ::
  "timeval \<Rightarrow> (nat \<Rightarrow> rtp_reading) \<Rightarrow> nat \<Rightarrow> u32 \<Rightarrow> u32 \<Rightarrow> timeval \<Rightarrow> u32 \<Rightarrow> pts_state \<Rightarrow> pts_state cpp" where
  "afterGettingFrame clock rtp x frameSize numTruncatedBytes presentationTime durationInMicroseconds = (\<lambda>(h, s).
     case h x of
       None \<Rightarrow> Undef
     | Some ss \<Rightarrow>
         let ss1 = ss\<lparr>fFrameSize := frameSize, fNumTruncatedBytes := numTruncatedBytes,
                      fDurationInMicroseconds := durationInMicroseconds\<rparr>
         in bind_cpp (normalizePresentationTime clock rtp x presentationTime (fPresentationTime ss1)
                        (h(x \<mapsto> ss1), s))
              (\<lambda>(pt, s1).
                 case fRTPSource ss1 of
                   None \<Rightarrow> Undef
                 | Some r \<Rightarrow>
                     Ret (h(x \<mapsto> ss1\<lparr>fPresentationTime := pt, fLastRtpTimestamp := rtp_timestamp (rtp r)\<rparr>), s1)))"

section \<open>Arithmetic of times\<close>

definition us :: "timeval \<Rightarrow> int" where
  "us t = tv_sec t * MILLION + tv_usec t"

lemma carry_usec_spec:
  "us (carry_usec sec usec) = sec * MILLION + usec \<and> tv_usec (carry_usec sec usec) \<le> MILLION \<and>
   (0 < usec \<longrightarrow> 0 < tv_usec (carry_usec sec usec))"
proof (induction sec usec rule: carry_usec.induct)
  case (1 sec usec)
  show ?case
  proof (cases "usec > MILLION")
    case True
    with 1 show ?thesis by (simp add: carry_usec.simps [of sec usec] algebra_simps)
  next
    case False
    then show ?thesis by (simp add: carry_usec.simps [of sec usec] us_def)
  qed
qed

lemma div_mod_scale: "0 < f \<Longrightarrow> a div f * m + a mod f * m div f = a * m div f" for a f m :: int
proof -
  assume f: "0 < f"
  have "(a div f * f + a mod f) * m = a mod f * m + f * (a div f * m)" by (simp only: algebra_simps)
  then have "a * m = a mod f * m + f * (a div f * m)" by (simp only: div_mult_mod_eq)
  then have "a * m div f = (a mod f * m + f * (a div f * m)) div f" by simp
  also have "\<dots> = a div f * m + a mod f * m div f" using f by (simp add: div_mult_self2)
  finally show ?thesis by simp
qed

section \<open>The linked list\<close>

text \<open>The nodes on the chain from \<open>p\<close>, in order.\<close>

primrec pts_chain :: "pts_heap \<Rightarrow> nat option \<Rightarrow> nat list \<Rightarrow> bool" where
  "pts_chain h p [] \<longleftrightarrow> p = None"
| "pts_chain h p (x # xs) \<longleftrightarrow> p = Some x \<and> (\<exists>n. h x = Some n \<and> pts_chain h (fNext n) xs)"

lemma pts_chain_cong:
  "pts_chain h p xs \<Longrightarrow> (\<And>x. x \<in> set xs \<Longrightarrow> map_option fNext (h' x) = map_option fNext (h x)) \<Longrightarrow> pts_chain h' p xs"
proof (induction xs arbitrary: p)
  case (Cons x xs)
  then obtain n where n: "p = Some x" "h x = Some n" "pts_chain h (fNext n) xs" by auto
  with Cons.prems(2) [of x] obtain n' where "h' x = Some n'" "fNext n' = fNext n" by auto
  with n Cons show ?case by auto
qed simp

text \<open>Two heaps that differ only in the links.\<close>

definition same_nodes :: "pts_heap \<Rightarrow> pts_heap \<Rightarrow> bool" where
  "same_nodes h h' \<longleftrightarrow>
     (\<forall>y. map_option (\<lambda>n. n\<lparr>fNext := None\<rparr>) (h' y) = map_option (\<lambda>n. n\<lparr>fNext := None\<rparr>) (h y))"

text \<open>The search reaches the node before \<open>x\<close> and takes \<open>x\<close> out of the chain.\<close>

lemma unlink_loop_chain:
  assumes "pts_chain h (Some p) (p # xs)" "distinct (p # xs)" "x \<in> set xs"
  shows "\<exists>h'. unlink_loop h p x = Some (Ret h') \<and> pts_chain h' (Some p) (p # remove1 x xs) \<and>
    same_nodes h h' \<and> (\<forall>y. y \<notin> set (p # xs) \<longrightarrow> h' y = h y)"
  using assms
proof (induction xs arbitrary: p)
  case (Cons q xs)
  obtain n m where n: "h p = Some n" "fNext n = Some q" and m: "h q = Some m" "pts_chain h (fNext m) xs"
    using Cons.prems(1) by auto
  show ?case
  proof (cases "q = x")
    case True
    define h' where "h' = h(p \<mapsto> n\<lparr>fNext := fNext m\<rparr>)"
    have "unlink_loop h p x = Some (Ret h')" using n m True by (simp add: unlink_loop.simps [of h p] h'_def)
    moreover have "pts_chain h' (fNext m) xs"
      using m(2) Cons.prems(2) by (auto intro: pts_chain_cong simp: h'_def)
    then have "pts_chain h' (Some p) (p # remove1 x (q # xs))" using True by (simp add: h'_def)
    moreover have "same_nodes h h'" using n by (simp add: h'_def same_nodes_def)
    moreover have "y \<notin> set (p # q # xs) \<Longrightarrow> h' y = h y" for y by (simp add: h'_def)
    ultimately show ?thesis by blast
  next
    case False
    with Cons.prems have "x \<in> set xs" "distinct (q # xs)" "pts_chain h (Some q) (q # xs)" using m by auto
    from Cons.IH [OF this(3,2,1)] obtain h' where h': "unlink_loop h q x = Some (Ret h')"
      "pts_chain h' (Some q) (q # remove1 x xs)"
      "same_nodes h h'"
      "\<And>y. y \<notin> set (q # xs) \<Longrightarrow> h' y = h y" by blast
    have "unlink_loop h p x = Some (Ret h')" using n False h'(1) by (simp add: unlink_loop.simps [of h p])
    moreover have "h' p = Some n" using h'(4) [of p] n Cons.prems(2) by auto
    ultimately show ?thesis using h' n False by (intro exI [of _ h']) auto
  qed
qed simp

section \<open>Invariant\<close>

text \<open>The chain holds exactly the live normalizers; each has an RTP source and a medium name; the master is
  one of them, and the adjustment is set while there is a master.\<close>

definition pts_node_ok :: "PtsSubsessionNormalizer \<Rightarrow> bool" where
  "pts_node_ok n \<longleftrightarrow> fRTPSource n \<noteq> None \<and> fMediumName n \<noteq> None"

definition pts_inv :: "nat list \<Rightarrow> pts_state \<Rightarrow> bool" where
  "pts_inv xs = (\<lambda>(h, s).
     pts_chain h (fSubsessionNormalizers s) xs \<and> distinct xs \<and> dom h = set xs \<and>
     (\<forall>x n. h x = Some n \<longrightarrow> pts_node_ok n) \<and>
     (\<forall>m. fMasterSSNormalizer s = Some m \<longrightarrow> m \<in> set xs \<and> fPTAdjustment s \<noteq> None))"

lemma pts_inv_new: "pts_inv [] (Map.empty, new_PtsSessionNormalizer b)"
  by (simp add: pts_inv_def new_PtsSessionNormalizer_def)

lemma pts_inv_create:
  assumes "pts_inv xs st" "p \<notin> set xs"
  shows "pts_inv (p # xs) (createNewPtsSubsessionNormalizer p (Some r) (Some m) c st)"
proof -
  obtain h s where st: "st = (h, s)" by (cases st)
  define n where "n = new_PtsSubsessionNormalizer (Some r) (Some m) c (fSubsessionNormalizers s)"
  have n: "fNext n = fSubsessionNormalizers s" "pts_node_ok n"
    by (simp_all add: n_def new_PtsSubsessionNormalizer_def pts_node_ok_def)
  have "pts_chain h (fSubsessionNormalizers s) xs" using assms(1) by (simp add: pts_inv_def st)
  then have "pts_chain (h(p \<mapsto> n)) (fSubsessionNormalizers s) xs"
    by (rule pts_chain_cong) (use assms(2) in auto)
  then have "pts_chain (h(p \<mapsto> n)) (Some p) (p # xs)" using n(1) by simp
  moreover have "createNewPtsSubsessionNormalizer p (Some r) (Some m) c st =
      (h(p \<mapsto> n), s\<lparr>fSubsessionNormalizers := Some p\<rparr>)"
    by (simp add: st createNewPtsSubsessionNormalizer_def n_def)
  ultimately show ?thesis using assms n(2) by (simp add: pts_inv_def st)
qed

lemma same_nodesD:
  assumes "same_nodes h h'"
  shows "dom h' = dom h" and "h' y = Some n' \<Longrightarrow> \<exists>n k. h y = Some n \<and> n' = n\<lparr>fNext := k\<rparr>"
proof -
  have eq: "map_option (\<lambda>n. n\<lparr>fNext := None\<rparr>) (h' y) = map_option (\<lambda>n. n\<lparr>fNext := None\<rparr>) (h y)" for y
    using assms by (simp add: same_nodes_def)
  have "h' y = None \<longleftrightarrow> h y = None" for y using eq [of y] by (metis map_option_is_None)
  then show "dom h' = dom h" by (simp add: dom_def)
  assume y: "h' y = Some n'"
  then obtain n where n: "h y = Some n" "n'\<lparr>fNext := None\<rparr> = n\<lparr>fNext := None\<rparr>" using eq [of y] by (cases "h y") auto
  from n(2) have "n' = n\<lparr>fNext := fNext n'\<rparr>"
    by (metis PtsSubsessionNormalizer.surjective PtsSubsessionNormalizer.update_convs(5))
  with n(1) show "\<exists>n k. h y = Some n \<and> n' = n\<lparr>fNext := k\<rparr>" by blast
qed

lemma same_nodes_refl: "same_nodes h h"
  by (simp add: same_nodes_def)

lemma pts_node_ok_next [simp]: "pts_node_ok (n\<lparr>fNext := p\<rparr>) = pts_node_ok n"
  by (simp add: pts_node_ok_def)

text \<open>The head of the list and the heap after unlinking \<open>x\<close>.\<close>

lemma remove_chain:
  assumes "pts_chain h (fSubsessionNormalizers s) xs" "distinct xs" "x \<in> set xs"
  obtains h' p where "removePresentationTimeSubsessionNormalizer x (h, s) = Some (Ret (h',
      (if fMasterSSNormalizer s = Some x then s\<lparr>fSubsessionNormalizers := p, fMasterSSNormalizer := None\<rparr>
       else s\<lparr>fSubsessionNormalizers := p\<rparr>)))"
    "pts_chain h' p (remove1 x xs)" "same_nodes h h'"
proof -
  obtain q ys where xs: "xs = q # ys" using assms(3) by (cases xs) auto
  then have q: "fSubsessionNormalizers s = Some q" using assms(1) by simp
  show ?thesis
  proof (cases "q = x")
    case True
    then obtain n where "h x = Some n" "pts_chain h (fNext n) ys" using assms(1) xs by auto
    with q True xs show ?thesis
      by (intro that [of h "fNext n"])
        (simp_all add: removePresentationTimeSubsessionNormalizer_def Let_def same_nodes_refl)
  next
    case False
    with assms xs q have "pts_chain h (Some q) (q # ys)" "distinct (q # ys)" "x \<in> set ys" by auto
    from unlink_loop_chain [OF this] obtain h' where h': "unlink_loop h q x = Some (Ret h')"
      "pts_chain h' (Some q) (q # remove1 x ys)" "same_nodes h h'" by blast
    have s: "s\<lparr>fSubsessionNormalizers := Some q\<rparr> = s" using q by simp
    show ?thesis
      using h' q False xs s
      by (intro that [of h' "Some q"]) (simp_all add: removePresentationTimeSubsessionNormalizer_def Let_def)
  qed
qed

lemma pts_inv_close:
  assumes "pts_inv xs (h, s)" "x \<in> set xs"
  obtains h' s' where "close_PtsSubsessionNormalizer x (h, s) = Some (Ret (h', s'))"
    "pts_inv (remove1 x xs) (h', s')" "fPTAdjustment s' = fPTAdjustment s"
    "fUsingLocalTs s' = fUsingLocalTs s"
    "fMasterSSNormalizer s' = (if fMasterSSNormalizer s = Some x then None else fMasterSSNormalizer s)"
    "\<forall>y n'. h' y = Some n' \<longrightarrow> y \<noteq> x \<and> (\<exists>n. h y = Some n \<and> (\<exists>k. n' = n\<lparr>fNext := k\<rparr>))"
proof -
  have inv: "pts_chain h (fSubsessionNormalizers s) xs" "distinct xs" "dom h = set xs"
    "\<And>x n. h x = Some n \<Longrightarrow> pts_node_ok n"
    "\<And>m. fMasterSSNormalizer s = Some m \<Longrightarrow> m \<in> set xs \<and> fPTAdjustment s \<noteq> None"
    using assms(1) by (simp_all add: pts_inv_def)
  obtain h1 p where r: "removePresentationTimeSubsessionNormalizer x (h, s) = Some (Ret (h1,
      (if fMasterSSNormalizer s = Some x then s\<lparr>fSubsessionNormalizers := p, fMasterSSNormalizer := None\<rparr>
       else s\<lparr>fSubsessionNormalizers := p\<rparr>)))"
    "pts_chain h1 p (remove1 x xs)" "same_nodes h h1"
    using remove_chain [OF inv(1,2) assms(2)] by metis
  define s' where "s' = (if fMasterSSNormalizer s = Some x
      then s\<lparr>fSubsessionNormalizers := p, fMasterSSNormalizer := None\<rparr> else s\<lparr>fSubsessionNormalizers := p\<rparr>)"
  have s': "fSubsessionNormalizers s' = p" "fPTAdjustment s' = fPTAdjustment s" "fUsingLocalTs s' = fUsingLocalTs s"
    "fMasterSSNormalizer s' = (if fMasterSSNormalizer s = Some x then None else fMasterSSNormalizer s)"
    by (simp_all add: s'_def)
  have "pts_chain (h1(x := None)) p (remove1 x xs)"
    using r(2) by (rule pts_chain_cong) (use inv(2) in auto)
  moreover have "dom (h1(x := None)) = set (remove1 x xs)"
    using same_nodesD(1) [OF r(3)] inv(2,3) by (simp add: set_remove1_eq)
  moreover have "(h1(x := None)) y = Some n' \<Longrightarrow> pts_node_ok n'" for y n'
    using same_nodesD(2) [OF r(3), of y n'] inv(4) [of y] by (metis fun_upd_apply option.distinct(1) pts_node_ok_next)
  moreover have "fMasterSSNormalizer s' = Some m \<Longrightarrow> m \<in> set (remove1 x xs) \<and> fPTAdjustment s' \<noteq> None" for m
    using inv(5) [of m] inv(2) s' by (simp add: set_remove1_eq split: if_splits)
  ultimately have "pts_inv (remove1 x xs) (h1(x := None), s')"
    using inv(2) s'(1) by (simp add: pts_inv_def)
  moreover have "close_PtsSubsessionNormalizer x (h, s) = Some (Ret (h1(x := None), s'))"
    using r(1) by (simp add: close_PtsSubsessionNormalizer_def s'_def)
  moreover have "(h1(x := None)) y = Some n' \<Longrightarrow> y \<noteq> x \<and> (\<exists>n. h y = Some n \<and> (\<exists>k. n' = n\<lparr>fNext := k\<rparr>))" for y n'
    using same_nodesD(2) [OF r(3), of y n'] by (metis fun_upd_apply option.distinct(1))
  ultimately show ?thesis using s' that by blast
qed

section \<open>Frames\<close>

definition is_video :: "PtsSubsessionNormalizer \<Rightarrow> bool" where
  "is_video n \<longleftrightarrow> fMediumName n = Some ''video''"

text \<open>When the code makes the current normalizer the master.\<close>

definition takes_over :: "pts_heap \<Rightarrow> PtsSubsessionNormalizer \<Rightarrow> PtsSessionNormalizer \<Rightarrow> bool" where
  "takes_over h ss s \<longleftrightarrow>
     (case fMasterSSNormalizer s of None \<Rightarrow> True | Some m \<Rightarrow> \<not> is_video (the (h m)) \<and> \<not> is_video ss)"

definition remastered :: "nat \<Rightarrow> timeval \<Rightarrow> timeval \<Rightarrow> PtsSessionNormalizer \<Rightarrow> PtsSessionNormalizer" where
  "remastered x timeNow fromPT s =
     s\<lparr>fMasterSSNormalizer := Some x,
       fPTAdjustment := Some \<lparr>tv_sec = tv_sec timeNow - tv_sec fromPT, tv_usec = tv_usec timeNow - tv_usec fromPT\<rparr>\<rparr>"

lemma pts_invD:
  assumes "pts_inv xs (h, s)"
  shows "x \<in> set xs \<Longrightarrow> \<exists>n r m. h x = Some n \<and> fRTPSource n = Some r \<and> fMediumName n = Some m"
    and "fMasterSSNormalizer s = Some m \<Longrightarrow> m \<in> set xs \<and> fPTAdjustment s \<noteq> None"
  using assms by (auto simp: pts_inv_def pts_node_ok_def dest: domD [of _ h, OF equalityD2 [THEN subsetD]])

lemma needs_master_inv:
  assumes "pts_inv xs (h, s)" "fMediumName ss \<noteq> None"
  shows "needs_master h ss s = Ret (takes_over h ss s)"
proof (cases "fMasterSSNormalizer s")
  case (Some m)
  with pts_invD(2) [OF assms(1)] have "m \<in> set xs" by blast
  with pts_invD(1) [OF assms(1)] obtain n mm where "h m = Some n" "fMediumName n = Some mm" by blast
  with Some assms(2) show ?thesis
    by (auto simp: needs_master_def takes_over_def strcmp_video_def is_video_def)
qed (simp add: needs_master_def takes_over_def)

lemma master_time_inv:
  assumes "pts_inv xs (h, s)"
  obtains t where "master_time clock rd ss fromPT toPT s = Ret t"
proof (cases "fMasterSSNormalizer s")
  case None
  then show ?thesis using that by (cases "fLastRtpTimestamp ss = 0") (auto simp: master_time_def Let_def)
next
  case (Some m)
  with pts_invD(2) [OF assms] obtain adj where "fPTAdjustment s = Some adj" by blast
  with Some show ?thesis using that by (cases "fLastRtpTimestamp ss = 0") (auto simp: master_time_def Let_def)
qed

text \<open>The session and the time of a frame, on a session in order.\<close>

definition frame_session ::
  "timeval \<Rightarrow> rtp_reading \<Rightarrow> nat \<Rightarrow> PtsSubsessionNormalizer \<Rightarrow> timeval \<Rightarrow> pts_state \<Rightarrow> PtsSessionNormalizer" where
  "frame_session clock rd x ss fromPT = (\<lambda>(h, s).
     if fUsingLocalTs s \<or> \<not> rtp_synced rd \<or> \<not> takes_over h ss s then s
     else case master_time clock rd ss fromPT (fPresentationTime ss) s of
            Undef \<Rightarrow> s | Ret t \<Rightarrow> remastered x t fromPT s)"

definition frame_time ::
  "timeval \<Rightarrow> rtp_reading \<Rightarrow> PtsSubsessionNormalizer \<Rightarrow> timeval \<Rightarrow> PtsSessionNormalizer \<Rightarrow> timeval" where
  "frame_time clock rd ss fromPT s1 =
     (if fUsingLocalTs s1 then clock
      else if \<not> rtp_synced rd then fromPT
      else if rtp_timestamp rd = fLastRtpTimestamp ss then fPresentationTime ss
      else carry_usec (tv_sec fromPT + tv_sec (the (fPTAdjustment s1)) - 1)
             (tv_usec fromPT + tv_usec (the (fPTAdjustment s1)) + MILLION))"

lemma takes_over_upd:
  "h x = Some ss \<Longrightarrow> is_video ss' = is_video ss \<Longrightarrow> takes_over (h(x \<mapsto> ss')) ss' s = takes_over h ss s"
  by (auto simp: takes_over_def split: option.splits)

lemma pts_inv_upd:
  assumes "pts_inv xs (h, s)" "x \<in> set xs" "h x = Some ss" "fNext ss' = fNext ss" "pts_node_ok ss'"
  shows "pts_inv xs (h(x \<mapsto> ss'), s)"
proof -
  have inv: "pts_chain h (fSubsessionNormalizers s) xs" "distinct xs" "dom h = set xs"
    "\<And>x n. h x = Some n \<Longrightarrow> pts_node_ok n"
    using assms(1) by (simp_all add: pts_inv_def)
  have "pts_chain (h(x \<mapsto> ss')) (fSubsessionNormalizers s) xs"
    using inv(1) by (rule pts_chain_cong) (use assms(3,4) in auto)
  with inv(2-4) assms(1,2,5) show ?thesis by (simp add: pts_inv_def insert_absorb)
qed

definition frame_node ::
  "timeval \<Rightarrow> rtp_reading \<Rightarrow> u32 \<Rightarrow> u32 \<Rightarrow> timeval \<Rightarrow> u32 \<Rightarrow> PtsSessionNormalizer \<Rightarrow> PtsSubsessionNormalizer \<Rightarrow>
     PtsSubsessionNormalizer" where
  "frame_node clock rd fs nt pt d s1 ss =
     ss\<lparr>fFrameSize := fs, fNumTruncatedBytes := nt, fDurationInMicroseconds := d,
        fPresentationTime := frame_time clock rd ss pt s1, fLastRtpTimestamp := rtp_timestamp rd\<rparr>"

lemma normalize_spec:
  assumes "pts_inv xs (h, s)" "h x = Some ss" "fRTPSource ss = Some r"
  shows "normalizePresentationTime clock rtp x pt (fPresentationTime ss) (h, s) =
    (let s1 = frame_session clock (rtp r) x ss pt (h, s) in Ret (frame_time clock (rtp r) ss pt s1, s1))"
proof -
  have "x \<in> set xs" using assms(1,2) by (auto simp: pts_inv_def dom_def)
  with pts_invD(1) [OF assms(1)] assms(2) have med: "fMediumName ss \<noteq> None" by fastforce
  note nm = needs_master_inv [OF assms(1) med]
  consider "fUsingLocalTs s" | "\<not> fUsingLocalTs s" "\<not> rtp_synced (rtp r)"
    | "\<not> fUsingLocalTs s" "rtp_synced (rtp r)" "takes_over h ss s"
    | "\<not> fUsingLocalTs s" "rtp_synced (rtp r)" "\<not> takes_over h ss s" by blast
  then show ?thesis
  proof cases
    case 3
    obtain t where "master_time clock (rtp r) ss pt (fPresentationTime ss) s = Ret t"
      using master_time_inv [OF assms(1)] .
    with 3 assms nm show ?thesis
      by (simp add: normalizePresentationTime_def frame_session_def frame_time_def remastered_def Let_def)
  next
    case 4
    then obtain m where "fMasterSSNormalizer s = Some m" by (auto simp: takes_over_def split: option.splits)
    with pts_invD(2) [OF assms(1)] obtain adj where "fPTAdjustment s = Some adj" by blast
    with 4 assms nm show ?thesis
      by (simp add: normalizePresentationTime_def frame_session_def frame_time_def Let_def)
  qed (use assms in \<open>simp_all add: normalizePresentationTime_def frame_session_def frame_time_def Let_def\<close>)
qed

lemma frame_step:
  assumes "pts_inv xs (h, s)" "h x = Some ss" "fRTPSource ss = Some r"
  shows "afterGettingFrame clock rtp x fs nt pt d (h, s) =
    (let s1 = frame_session clock (rtp r) x ss pt (h, s)
     in Ret (h(x \<mapsto> frame_node clock (rtp r) fs nt pt d s1 ss), s1))"
proof -
  define ss1 where "ss1 = ss\<lparr>fFrameSize := fs, fNumTruncatedBytes := nt, fDurationInMicroseconds := d\<rparr>"
  have x: "x \<in> set xs" using assms(1,2) by (auto simp: pts_inv_def dom_def)
  have ok: "pts_node_ok ss" using assms(1,2) by (simp add: pts_inv_def)
  have ss1: "fNext ss1 = fNext ss" "pts_node_ok ss1" "fRTPSource ss1 = Some r" "fPresentationTime ss1 = fPresentationTime ss"
    "is_video ss1 = is_video ss" using ok assms(3) by (simp_all add: ss1_def pts_node_ok_def is_video_def)
  have inv1: "pts_inv xs (h(x \<mapsto> ss1), s)" using pts_inv_upd [OF assms(1) x assms(2) ss1(1,2)] .
  have same: "frame_session clock (rtp r) x ss1 pt (h(x \<mapsto> ss1), s) = frame_session clock (rtp r) x ss pt (h, s)"
    using takes_over_upd [of h x ss ss1 s] assms(2) ss1(5) by (simp add: frame_session_def master_time_def ss1_def)
  have time: "frame_time clock (rtp r) ss1 pt s1 = frame_time clock (rtp r) ss pt s1" for s1
    by (simp add: frame_time_def ss1_def)
  have "normalizePresentationTime clock rtp x pt (fPresentationTime ss1) (h(x \<mapsto> ss1), s) =
    (let s1 = frame_session clock (rtp r) x ss pt (h, s) in Ret (frame_time clock (rtp r) ss pt s1, s1))"
    using normalize_spec [OF inv1, of x ss1 r clock rtp pt] ss1(3) by (simp add: same time)
  then show ?thesis
    using assms(2,3) by (simp add: afterGettingFrame_def Let_def frame_node_def flip: ss1_def) (simp add: ss1_def)
qed

lemma frame_session_simps:
  assumes "s1 = frame_session clock rd x ss pt (h, s)"
  shows "fSubsessionNormalizers s1 = fSubsessionNormalizers s" "fUsingLocalTs s1 = fUsingLocalTs s"
    "fMasterSSNormalizer s1 \<in> {fMasterSSNormalizer s, Some x}"
    "fMasterSSNormalizer s1 = fMasterSSNormalizer s \<and> fPTAdjustment s1 = fPTAdjustment s \<or>
     fMasterSSNormalizer s1 = Some x \<and> fPTAdjustment s1 \<noteq> None"
  using assms by (auto simp: frame_session_def remastered_def split: cpp.splits if_splits)

lemma pts_inv_frame:
  assumes "pts_inv xs (h, s)" "x \<in> set xs"
  obtains h' s' where "afterGettingFrame clock rtp x fs nt pt d (h, s) = Ret (h', s')" "pts_inv xs (h', s')"
proof -
  obtain ss r where ss: "h x = Some ss" "fRTPSource ss = Some r" using pts_invD(1) [OF assms] by blast
  define s1 where "s1 = frame_session clock (rtp r) x ss pt (h, s)"
  note s1 = frame_session_simps [OF s1_def]
  define n where "n = frame_node clock (rtp r) fs nt pt d s1 ss"
  have ok: "pts_node_ok ss" using assms(1) ss by (simp add: pts_inv_def)
  then have "pts_inv xs (h(x \<mapsto> n), s)"
    using pts_inv_upd [OF assms ss(1), of n] by (simp add: n_def frame_node_def pts_node_ok_def)
  then have "pts_inv xs (h(x \<mapsto> n), s1)" using s1 assms(2) by (auto simp: pts_inv_def)
  with frame_step [OF assms(1) ss, of clock rtp fs nt pt d] show ?thesis
    by (intro that) (simp_all add: Let_def flip: s1_def n_def)
qed

section \<open>Properties\<close>

datatype pts_event =
    Pts_Create nat nat string "string option"
  | Pts_Close nat
  | Pts_Frame timeval "nat \<Rightarrow> rtp_reading" nat u32 u32 timeval u32

fun pts_apply :: "pts_event \<Rightarrow> pts_state \<Rightarrow> pts_state cpp option" where
  "pts_apply (Pts_Create p r m c) st = Some (Ret (createNewPtsSubsessionNormalizer p (Some r) (Some m) c st))"
| "pts_apply (Pts_Close x) st = close_PtsSubsessionNormalizer x st"
| "pts_apply (Pts_Frame clock rtp x fs nt pt d) st = Some (afterGettingFrame clock rtp x fs nt pt d st)"

fun pts_run :: "pts_event list \<Rightarrow> pts_state \<Rightarrow> pts_state cpp option" where
  "pts_run [] st = Some (Ret st)"
| "pts_run (e # es) st =
     (case pts_apply e st of
        None \<Rightarrow> None | Some Undef \<Rightarrow> Some Undef | Some (Ret st1) \<Rightarrow> pts_run es st1)"

text \<open>The abstract session: the list of its normalizers, and what a client may do with it: \<open>new\<close> gives an
  address that is free, and only live normalizers are closed or get frames.\<close>

fun pts_abs :: "pts_event \<Rightarrow> nat list \<Rightarrow> nat list option" where
  "pts_abs (Pts_Create p r m c) xs = (if p \<in> set xs then None else Some (p # xs))"
| "pts_abs (Pts_Close x) xs = (if x \<in> set xs then Some (remove1 x xs) else None)"
| "pts_abs (Pts_Frame clock rtp x fs nt pt d) xs = (if x \<in> set xs then Some xs else None)"

fun pts_abs_run :: "pts_event list \<Rightarrow> nat list \<Rightarrow> nat list option" where
  "pts_abs_run [] xs = Some xs"
| "pts_abs_run (e # es) xs = (case pts_abs e xs of None \<Rightarrow> None | Some ys \<Rightarrow> pts_abs_run es ys)"

lemma pts_apply_refines:
  assumes "pts_inv xs st" "pts_abs e xs = Some ys"
  shows "\<exists>st'. pts_apply e st = Some (Ret st') \<and> pts_inv ys st'"
proof -
  obtain h s where st: "st = (h, s)" by (cases st)
  show ?thesis
  proof (cases e)
    case (Pts_Create p r m c)
    with assms show ?thesis using pts_inv_create [OF assms(1)] by (auto split: if_splits)
  next
    case (Pts_Close x)
    with assms have "x \<in> set xs" "ys = remove1 x xs" by (auto split: if_splits)
    with Pts_Close assms(1) show ?thesis by (metis pts_inv_close pts_apply.simps(2) st)
  next
    case (Pts_Frame clock rtp x fs nt pt d)
    with assms have "x \<in> set xs" "ys = xs" by (auto split: if_splits)
    with Pts_Frame assms(1) show ?thesis by (metis pts_inv_frame pts_apply.simps(3) st)
  qed
qed

lemma pts_run_refines:
  "pts_inv xs st \<Longrightarrow> pts_abs_run es xs = Some ys \<Longrightarrow> \<exists>st'. pts_run es st = Some (Ret st') \<and> pts_inv ys st'"
proof (induction es arbitrary: xs st)
  case (Cons e es)
  then obtain zs where zs: "pts_abs e xs = Some zs" "pts_abs_run es zs = Some ys" by (auto split: option.splits)
  with pts_apply_refines [OF Cons.prems(1)] obtain st1 where "pts_apply e st = Some (Ret st1)" "pts_inv zs st1" by blast
  with Cons.IH [OF _ zs(2)] show ?case by simp
qed simp

lemma delete_all:
  "pts_inv xs (h, s) \<Longrightarrow> \<exists>s'. delete_PtsSessionNormalizer (h, s) = Some (Ret (Map.empty, s')) \<and>
     fSubsessionNormalizers s' = None \<and> fMasterSSNormalizer s' = None"
proof (induction xs arbitrary: h s)
  case Nil
  then have "h = Map.empty" "fSubsessionNormalizers s = None" "fMasterSSNormalizer s = None"
    by (auto simp: pts_inv_def)
  then show ?case by (simp add: delete_PtsSessionNormalizer.simps)
next
  case (Cons x xs)
  then have head: "fSubsessionNormalizers s = Some x" by (simp add: pts_inv_def)
  obtain h' s' where "close_PtsSubsessionNormalizer x (h, s) = Some (Ret (h', s'))"
    "pts_inv (remove1 x (x # xs)) (h', s')" using pts_inv_close [OF Cons.prems] by (metis list.set_intros(1))
  with Cons.IH [of h' s'] head show ?case by (simp add: delete_PtsSessionNormalizer.simps [of "(h, s)"])
qed

text \<open>C36: The linked list of normalizers implements a list: any sequence of creations, frames and closings that
  a client may make runs to its end, with no null pointer dereferenced, no freed normalizer reached
  (neither through the list nor as the master), no adjustment read before it is set and no loop that
  runs on; the chain then holds exactly the live normalizers, newest first, and deleting the session
  closes every one of them.\<close>

theorem pts_list_refines:
  assumes "pts_abs_run es [] = Some xs"
  shows "\<exists>h s s'. pts_run es (Map.empty, new_PtsSessionNormalizer b) = Some (Ret (h, s)) \<and>
    pts_chain h (fSubsessionNormalizers s) xs \<and> dom h = set xs \<and> distinct xs \<and>
    (\<forall>m. fMasterSSNormalizer s = Some m \<longrightarrow> m \<in> set xs) \<and>
    delete_PtsSessionNormalizer (h, s) = Some (Ret (Map.empty, s')) \<and> fSubsessionNormalizers s' = None"
proof -
  obtain h s where run: "pts_run es (Map.empty, new_PtsSessionNormalizer b) = Some (Ret (h, s))"
    and inv: "pts_inv xs (h, s)" using pts_run_refines [OF pts_inv_new assms] by (metis surj_pair)
  obtain s' where "delete_PtsSessionNormalizer (h, s) = Some (Ret (Map.empty, s'))" "fSubsessionNormalizers s' = None"
    using delete_all [OF inv] by blast
  with run inv show ?thesis by (auto simp: pts_inv_def)
qed

subsection \<open>Distances are kept under a video master\<close>

text \<open>The packet of \<open>x\<close> is synchronized and has a new RTP time stamp.\<close>

definition fresh_packet_of :: "(nat \<Rightarrow> rtp_reading) \<Rightarrow> nat \<Rightarrow> pts_heap \<Rightarrow> bool" where
  "fresh_packet_of rtp x h \<longleftrightarrow>
     (case h x of None \<Rightarrow> False | Some n \<Rightarrow>
        (case fRTPSource n of None \<Rightarrow> False | Some r \<Rightarrow>
           rtp_synced (rtp r) \<and> rtp_timestamp (rtp r) \<noteq> fLastRtpTimestamp n))"

definition video_master :: "nat \<Rightarrow> timeval \<Rightarrow> pts_state \<Rightarrow> bool" where
  "video_master m adj = (\<lambda>(h, s). fMasterSSNormalizer s = Some m \<and> fPTAdjustment s = Some adj \<and>
     \<not> fUsingLocalTs s \<and> (\<exists>n. h m = Some n \<and> is_video n))"

lemma video_master_apply:
  assumes "pts_inv xs st" "video_master m adj st" "pts_abs e xs \<noteq> None" "e \<noteq> Pts_Close m" "pts_apply e st = Some (Ret st')"
  shows "video_master m adj st'"
proof -
  obtain h s h' s' where st: "st = (h, s)" "st' = (h', s')" by (cases st, cases st') auto
  obtain n where vm: "fMasterSSNormalizer s = Some m" "fPTAdjustment s = Some adj" "\<not> fUsingLocalTs s"
    "h m = Some n" "is_video n" using assms(2) by (auto simp: video_master_def st)
  have m: "m \<in> set xs" using pts_invD(2) assms(1) vm(1) unfolding st by blast
  show ?thesis
  proof (cases e)
    case (Pts_Create p r k c)
    with assms(3) m have "p \<noteq> m" by auto
    with Pts_Create assms(5) vm show ?thesis
      by (auto simp: st createNewPtsSubsessionNormalizer_def video_master_def)
  next
    case (Pts_Close x)
    with assms(3,4) have x: "x \<in> set xs" "x \<noteq> m" by (auto split: if_splits)
    obtain h1 s1 where c: "close_PtsSubsessionNormalizer x (h, s) = Some (Ret (h1, s1))"
      "pts_inv (remove1 x xs) (h1, s1)" "fPTAdjustment s1 = fPTAdjustment s" "fUsingLocalTs s1 = fUsingLocalTs s"
      "fMasterSSNormalizer s1 = (if fMasterSSNormalizer s = Some x then None else fMasterSSNormalizer s)"
      "\<forall>y n'. h1 y = Some n' \<longrightarrow> y \<noteq> x \<and> (\<exists>n. h y = Some n \<and> (\<exists>k. n' = n\<lparr>fNext := k\<rparr>))"
      using assms(1) x(1) unfolding st by (rule pts_inv_close) blast
    have e: "h' = h1" "s' = s1" using Pts_Close assms(5) c(1) by (simp_all add: st)
    have "m \<in> set (remove1 x xs)" using m x(2) by simp
    then obtain n' where n': "h1 m = Some n'" using pts_invD(1) [OF c(2)] by blast
    then obtain k where "n' = n\<lparr>fNext := k\<rparr>" using c(6) vm(4) by (metis option.inject)
    then have "is_video n'" using vm(5) by (simp add: is_video_def)
    with c(3-5) vm x(2) n' e show ?thesis by (simp add: st video_master_def)
  next
    case (Pts_Frame clock rtp x fs nt pt d)
    with assms(3) have "x \<in> set xs" by (auto split: if_splits)
    with pts_invD(1) [OF assms(1) [unfolded st]] obtain ss r where ss: "h x = Some ss" "fRTPSource ss = Some r" by blast
    have "\<not> takes_over h ss s" using vm by (simp add: takes_over_def)
    then have "frame_session clock (rtp r) x ss pt (h, s) = s" by (simp add: frame_session_def)
    with frame_step [OF assms(1) [unfolded st] ss, of clock rtp fs nt pt d] Pts_Frame assms(5)
    have "s' = s \<and> h' = h(x \<mapsto> frame_node clock (rtp r) fs nt pt d s ss)" by (auto simp: st Let_def)
    with vm ss show ?thesis by (auto simp: st video_master_def frame_node_def is_video_def)
  qed
qed

lemma video_master_run:
  "pts_inv xs st \<Longrightarrow> video_master m adj st \<Longrightarrow> pts_abs_run es xs = Some ys \<Longrightarrow> Pts_Close m \<notin> set es \<Longrightarrow>
   pts_run es st = Some (Ret st') \<Longrightarrow> pts_inv ys st' \<and> video_master m adj st'"
proof (induction es arbitrary: xs st)
  case (Cons e es)
  obtain zs where zs: "pts_abs e xs = Some zs" "pts_abs_run es zs = Some ys"
    using Cons.prems(3) by (auto split: option.splits)
  obtain st1 where st1: "pts_apply e st = Some (Ret st1)" "pts_inv zs st1"
    using pts_apply_refines [OF Cons.prems(1) zs(1)] by blast
  have "video_master m adj st1"
    using video_master_apply [OF Cons.prems(1,2) _ _ st1(1)] zs(1) Cons.prems(4) by auto
  with Cons.IH [OF st1(2) _ zs(2)] Cons.prems(4,5) st1(1) show ?case by simp
qed simp

lemma fresh_frame_time:
  assumes "pts_inv xs (h, s)" "video_master m adj (h, s)" "fresh_packet_of rtp x h"
    and "afterGettingFrame clock rtp x fs nt pt d (h, s) = Ret (h', s')"
  shows "us (fPresentationTime (the (h' x))) = us pt + us adj"
proof -
  obtain ss r where ss: "h x = Some ss" "fRTPSource ss = Some r" "rtp_synced (rtp r)"
    "rtp_timestamp (rtp r) \<noteq> fLastRtpTimestamp ss"
    using assms(3) by (auto simp: fresh_packet_of_def split: option.splits)
  have "\<not> takes_over h ss s" using assms(2) by (auto simp: video_master_def takes_over_def)
  then have "frame_session clock (rtp r) x ss pt (h, s) = s" by (simp add: frame_session_def)
  with frame_step [OF assms(1) ss(1,2)] assms(4)
  have "fPresentationTime (the (h' x)) = frame_time clock (rtp r) ss pt s"
    by (auto simp: Let_def frame_node_def)
  with assms(2) ss carry_usec_spec show ?thesis by (simp add: frame_time_def video_master_def us_def [of pt] us_def [of adj])
qed

text \<open>C37: Once a video normalizer is the master, and the session does not use local time stamps, the times of two
  frames that are synchronised by RTCP and have a new RTP time stamp keep the distance of their incoming presentation
  times, whatever frames, creations and closings (other than of the master) happen in between, as long as they are
  calls on existing normalizers and defined, and whichever normalizers the two frames belong to. (A frame
  that is not synchronised passes with its own time, and a repeated RTP time stamp keeps the time before.)\<close>

theorem pts_separation:
  assumes "pts_abs_run es0 [] = Some xs" "pts_run es0 (Map.empty, new_PtsSessionNormalizer b) = Some (Ret (h, s))"
    and "video_master m adj (h, s)"
    and "fresh_packet_of rtp x h" "afterGettingFrame clock rtp x fs nt pt d (h, s) = Ret (h1, s1)"
    and "pts_abs_run es xs = Some ys" "Pts_Close m \<notin> set es" "pts_run es (h1, s1) = Some (Ret (h2, s2))"
    and "fresh_packet_of rtp' y h2" "afterGettingFrame clock' rtp' y fs' nt' pt' d' (h2, s2) = Ret (h3, s3)"
  shows "us (fPresentationTime (the (h3 y))) - us (fPresentationTime (the (h1 x))) = us pt' - us pt"
proof -
  have inv: "pts_inv xs (h, s)" using pts_run_refines [OF pts_inv_new assms(1)] assms(2) by (metis cpp.inject option.inject)
  then have x: "x \<in> set xs"
    using assms(4) by (auto simp: pts_inv_def fresh_packet_of_def dom_def split: option.splits)
  let ?e = "Pts_Frame clock rtp x fs nt pt d"
  have "pts_run (?e # es) (h, s) = Some (Ret (h2, s2))" "pts_abs_run (?e # es) xs = Some ys"
    using assms(5,6,8) x by simp_all
  then have "pts_inv ys (h2, s2)" "video_master m adj (h2, s2)"
    using video_master_run [OF inv assms(3), of "?e # es" ys "(h2, s2)"] assms(7) by simp_all
  from fresh_frame_time [OF this assms(9,10)] fresh_frame_time [OF inv assms(3,4,5)] show ?thesis by simp
qed

subsection \<open>Other masters\<close>

lemma us_remastered: "us pt + us (the (fPTAdjustment (remastered x t pt s))) = us t"
  by (simp add: remastered_def us_def algebra_simps)

text \<open>A master that is not video is never replaced by a video normalizer, while every synchronized frame of a
  normalizer that is not video, the master's own included, makes that normalizer the master; the time
  of such a frame is then its previous time advanced by the RTP time stamps (by nothing when they go
  back), whatever its incoming presentation time is.\<close>

theorem pts_nonvideo_master:
  assumes "pts_abs_run es [] = Some xs" "pts_run es (Map.empty, new_PtsSessionNormalizer False) = Some (Ret (h, s))"
    and "fMasterSSNormalizer s = Some m" "\<not> is_video (the (h m))"
    and "h x = Some ss" "fRTPSource ss = Some r" "rtp_synced (rtp r)"
    and "afterGettingFrame clock rtp x fs nt pt d (h, s) = Ret (h', s')" "fUsingLocalTs s = False"
  shows "if is_video ss then s' = s
    else fMasterSSNormalizer s' = Some x \<and>
      (fLastRtpTimestamp ss \<noteq> 0 \<longrightarrow> rtp_timestamp (rtp r) \<noteq> fLastRtpTimestamp ss \<longrightarrow>
       us (fPresentationTime (the (h' x))) = us (fPresentationTime ss) +
         rtp_offset (fLastRtpTimestamp ss) (rtp_timestamp (rtp r)) * MILLION div rtp_freq (rtp r))"
proof -
  have inv: "pts_inv xs (h, s)" using pts_run_refines [OF pts_inv_new assms(1)] assms(2) by (metis cpp.inject option.inject)
  define s1 where "s1 = frame_session clock (rtp r) x ss pt (h, s)"
  have res: "s' = s1" "fPresentationTime (the (h' x)) = frame_time clock (rtp r) ss pt s1"
    using frame_step [OF inv assms(5,6), of clock rtp fs nt pt d] assms(8)
    by (auto simp: Let_def frame_node_def s1_def)
  show ?thesis
  proof (cases "is_video ss")
    case True
    then have "\<not> takes_over h ss s" using assms(3) by (simp add: takes_over_def)
    with True res show ?thesis by (simp add: s1_def frame_session_def)
  next
    case False
    then have over: "takes_over h ss s" using assms(3,4) by (simp add: takes_over_def)
    obtain t where t: "master_time clock (rtp r) ss pt (fPresentationTime ss) s = Ret t"
      using master_time_inv [OF inv] .
    with over assms(7,9) have s1: "s1 = remastered x t pt s" by (simp add: s1_def frame_session_def)
    have "us (frame_time clock (rtp r) ss pt s1) = us t" if "rtp_timestamp (rtp r) \<noteq> fLastRtpTimestamp ss"
      using that assms(7,9) carry_usec_spec us_remastered [of pt x t s] s1
      by (simp add: frame_time_def remastered_def us_def [of pt] us_def)
    moreover have "us t = us (fPresentationTime ss) +
        rtp_offset (fLastRtpTimestamp ss) (rtp_timestamp (rtp r)) * MILLION div rtp_freq (rtp r)"
      if "fLastRtpTimestamp ss \<noteq> 0"
    proof -
      have "0 < rtp_freq (rtp r)" unfolding rtp_freq_def Let_def by (split if_split) linarith
      note scale = div_mod_scale [OF this, of "rtp_offset (fLastRtpTimestamp ss) (rtp_timestamp (rtp r))" MILLION]
      define q u where "q = rtp_offset (fLastRtpTimestamp ss) (rtp_timestamp (rtp r)) div rtp_freq (rtp r)"
        and "u = rtp_offset (fLastRtpTimestamp ss) (rtp_timestamp (rtp r)) mod rtp_freq (rtp r) * MILLION div rtp_freq (rtp r)"
      have "t = carry_usec (q + tv_sec (fPresentationTime ss)) (u + tv_usec (fPresentationTime ss))"
        using t that by (simp add: master_time_def Let_def q_def u_def)
      then have "us t = us (fPresentationTime ss) + (q * MILLION + u)"
        using carry_usec_spec by (simp add: us_def [of "fPresentationTime ss"] algebra_simps)
      with scale show ?thesis by (simp add: q_def u_def)
    qed
    moreover have "fMasterSSNormalizer s' = Some x" using s1 res by (simp add: remastered_def)
    ultimately show ?thesis using False res by simp
  qed
qed

text \<open>The first synchronized frame of a session gets the time of the clock, in the form with microseconds
  from 1 to one million: at a whole second it is one second less and a million microseconds, which is
  not a valid \<open>timeval\<close>.\<close>

theorem pts_first_frame:
  assumes "0 \<le> tv_usec clock" "tv_usec clock < MILLION" "rtp_synced (rtp r)" "rtp_timestamp (rtp r) \<noteq> 0"
    and "pts_run [Pts_Create x r m c, Pts_Frame clock rtp x fs nt pt d]
           (Map.empty, new_PtsSessionNormalizer False) = Some (Ret (h, s))"
  shows "fPresentationTime (the (h x)) =
      (if tv_usec clock = 0 then \<lparr>tv_sec = tv_sec clock - 1, tv_usec = MILLION\<rparr> else clock)"
proof -
  define st where "st = createNewPtsSubsessionNormalizer x (Some r) (Some m) c (Map.empty, new_PtsSessionNormalizer False)"
  obtain h0 s0 where st: "st = (h0, s0)" by (cases st)
  have inv: "pts_inv [x] (h0, s0)" using pts_inv_create [OF pts_inv_new, of x r m c False] st by (simp add: st_def)
  have s0: "fMasterSSNormalizer s0 = None" "\<not> fUsingLocalTs s0"
    using st by (auto simp: st_def createNewPtsSubsessionNormalizer_def new_PtsSessionNormalizer_def)
  obtain ss where ss: "h0 x = Some ss" "fRTPSource ss = Some r" "fLastRtpTimestamp ss = 0"
    using st by (auto simp: st_def createNewPtsSubsessionNormalizer_def new_PtsSubsessionNormalizer_def)
  have s1: "frame_session clock (rtp r) x ss pt (h0, s0) = remastered x clock pt s0"
    using s0 ss(3) assms(3) by (simp add: frame_session_def takes_over_def master_time_def)
  have "fPresentationTime (the (h x)) = frame_time clock (rtp r) ss pt (remastered x clock pt s0)"
    using frame_step [OF inv ss(1,2), of clock rtp fs nt pt d] assms(5) s1
    by (auto simp: Let_def frame_node_def st [unfolded st_def])
  also have "\<dots> = carry_usec (tv_sec clock - 1) (tv_usec clock + MILLION)"
    using assms(3,4) ss(3) s0 by (simp add: frame_time_def remastered_def)
  also have "\<dots> = (if tv_usec clock = 0 then \<lparr>tv_sec = tv_sec clock - 1, tv_usec = MILLION\<rparr> else clock)"
    using assms(1,2) by (simp add: carry_usec.simps [of "tv_sec clock - 1"] carry_usec.simps [of "tv_sec clock"])
  finally show ?thesis .
qed

subsection \<open>A session for evaluation\<close>

definition pts_ret :: "pts_state cpp option \<Rightarrow> pts_state" where
  "pts_ret r = (case r of Some (Ret st) \<Rightarrow> st | _ \<Rightarrow> (Map.empty, new_PtsSessionNormalizer False))"

definition demo_rtp :: "u32 \<Rightarrow> nat \<Rightarrow> rtp_reading" where
  "demo_rtp t = (\<lambda>r. \<lparr>rtp_synced = True, rtp_timestamp = t, rtp_frequency = 90000\<rparr>)"

definition demo_tv :: "int \<Rightarrow> int \<Rightarrow> timeval" where "demo_tv s u = \<lparr>tv_sec = s, tv_usec = u\<rparr>"

definition demo_pts_start :: "string \<Rightarrow> pts_event list" where
  "demo_pts_start medium =
     [Pts_Create 1 10 medium None, Pts_Frame (demo_tv 5000 250000) (demo_rtp 100) 1 0 0 (demo_tv 1000 0) 0]"

definition demo_pts :: "string \<Rightarrow> pts_state" where
  "demo_pts medium = pts_ret (pts_run (demo_pts_start medium) (Map.empty, new_PtsSessionNormalizer False))"

definition demo_pts1 :: pts_state where
  "demo_pts1 = pts_ret (Some (afterGettingFrame (demo_tv 0 0) (demo_rtp 200) 1 0 0 (demo_tv 1001 0) 0 (demo_pts ''video'')))"

definition demo_pts2 :: pts_state where
  "demo_pts2 = pts_ret (pts_run [Pts_Create 2 20 ''audio'' None] demo_pts1)"

lemmas demo_pts_defs = pts_ret_def demo_rtp_def demo_tv_def demo_pts_start_def demo_pts_def demo_pts1_def demo_pts2_def
  createNewPtsSubsessionNormalizer_def new_PtsSubsessionNormalizer_def new_PtsSessionNormalizer_def
  afterGettingFrame_def normalizePresentationTime_def needs_master_def master_time_def strcmp_video_def
  carry_usec.simps Let_def c_str_def

lemma demo_pts_eval:
  "pts_run (demo_pts_start ''video'') (Map.empty, new_PtsSessionNormalizer False) = Some (Ret (demo_pts ''video''))"
  "afterGettingFrame (demo_tv 0 0) (demo_rtp 200) 1 0 0 (demo_tv 1001 0) 0 (demo_pts ''video'') = Ret demo_pts1"
  "pts_run [Pts_Create 2 20 ''audio'' None] demo_pts1 = Some (Ret demo_pts2)"
  "video_master 1 (demo_tv 4000 250000) (demo_pts ''video'')"
  "fresh_packet_of (demo_rtp 200) 1 (fst (demo_pts ''video''))"
  "fresh_packet_of (demo_rtp 300) 2 (fst demo_pts2)"
  by (simp_all add: demo_pts_defs video_master_def is_video_def fresh_packet_of_def)

theorem pts_list_refines_witness:
  "\<exists>h s. pts_run [Pts_Create 1 10 ''video'' None, Pts_Create 2 20 ''audio'' None, Pts_Create 3 30 ''text'' None, Pts_Close 2]
     (Map.empty, new_PtsSessionNormalizer False) = Some (Ret (h, s)) \<and> pts_chain h (fSubsessionNormalizers s) [3, 1]"
proof -
  have "pts_abs_run [Pts_Create 1 10 ''video'' None, Pts_Create 2 20 ''audio'' None, Pts_Create 3 30 ''text'' None,
    Pts_Close 2] [] = Some [3, 1]" by simp
  from pts_list_refines [OF this, of False] show ?thesis by blast
qed

theorem pts_separation_witness:
  "\<exists>h3 s3. afterGettingFrame (demo_tv 0 0) (demo_rtp 300) 2 0 0 (demo_tv 1002 500000) 0 demo_pts2 = Ret (h3, s3) \<and>
     us (fPresentationTime (the (h3 2))) - us (fPresentationTime (the (fst demo_pts1 1))) = 1500000"
proof -
  obtain h3 s3 where f: "afterGettingFrame (demo_tv 0 0) (demo_rtp 300) 2 0 0 (demo_tv 1002 500000) 0 demo_pts2 = Ret (h3, s3)"
    by (simp add: demo_pts_defs)
  have "pts_abs_run (demo_pts_start ''video'') [] = Some [1]" by (simp add: demo_pts_start_def)
  from pts_separation [OF this _ _ demo_pts_eval(5), of False "snd (demo_pts ''video'')" 1 _ "demo_tv 0 0" 0 0 "demo_tv 1001 0" 0
      "fst demo_pts1" "snd demo_pts1" "[Pts_Create 2 20 ''audio'' None]" "[2, 1]" "fst demo_pts2" "snd demo_pts2"
      "demo_rtp 300" 2 "demo_tv 0 0" 0 0 "demo_tv 1002 500000" 0 h3 s3] demo_pts_eval f
  have "us (fPresentationTime (the (h3 2))) - us (fPresentationTime (the (fst demo_pts1 1))) =
    us (demo_tv 1002 500000) - us (demo_tv 1001 0)" by simp
  with f show ?thesis by (simp add: us_def demo_tv_def)
qed

text \<open>One second of RTP time later (90000 ticks), with an incoming presentation time far in the future.\<close>

theorem pts_nonvideo_master_witness:
  "\<exists>h' s'. afterGettingFrame (demo_tv 0 0) (demo_rtp 90100) 1 0 0 (demo_tv 9999 0) 0 (demo_pts ''audio'') = Ret (h', s') \<and>
     us (fPresentationTime (the (h' 1))) = us (fPresentationTime (the (fst (demo_pts ''audio'') 1))) + 1000000"
proof -
  obtain h' s' where f: "afterGettingFrame (demo_tv 0 0) (demo_rtp 90100) 1 0 0 (demo_tv 9999 0) 0 (demo_pts ''audio'') = Ret (h', s')"
    by (simp add: demo_pts_defs rtp_offset_def rtp_freq_def)
  obtain h s where st: "demo_pts ''audio'' = (h, s)" by (cases "demo_pts ''audio''")
  obtain ss where ss: "h 1 = Some ss" "fRTPSource ss = Some 10" "fLastRtpTimestamp ss = 100" "\<not> is_video ss"
    "fMasterSSNormalizer s = Some 1" "fUsingLocalTs s = False"
    "pts_run (demo_pts_start ''audio'') (Map.empty, new_PtsSessionNormalizer False) = Some (Ret (h, s))"
    using st by (auto simp: demo_pts_defs is_video_def)
  have "pts_abs_run (demo_pts_start ''audio'') [] = Some [1]" by (simp add: demo_pts_start_def)
  from pts_nonvideo_master [OF this ss(7,5) _ ss(1,2) _ f [unfolded st] ss(6)] ss
  have "us (fPresentationTime (the (h' 1))) = us (fPresentationTime ss) + 1000000"
    by (simp add: demo_rtp_def rtp_offset_def rtp_freq_def)
  with f ss(1) st show ?thesis by simp
qed

theorem pts_first_frame_witness:
  "\<exists>h s. pts_run [Pts_Create 1 10 ''video'' None, Pts_Frame (demo_tv 5000 0) (demo_rtp 100) 1 0 0 (demo_tv 1000 0) 0]
     (Map.empty, new_PtsSessionNormalizer False) = Some (Ret (h, s)) \<and>
     fPresentationTime (the (h 1)) = \<lparr>tv_sec = 4999, tv_usec = 1000000\<rparr>"
proof -
  obtain h s where r: "pts_run [Pts_Create 1 10 ''video'' None, Pts_Frame (demo_tv 5000 0) (demo_rtp 100) 1 0 0 (demo_tv 1000 0) 0]
    (Map.empty, new_PtsSessionNormalizer False) = Some (Ret (h, s))" by (simp add: demo_pts_defs)
  from pts_first_frame [OF _ _ _ _ r] have "fPresentationTime (the (h 1)) = \<lparr>tv_sec = 4999, tv_usec = 1000000\<rparr>"
    by (simp add: demo_rtp_def demo_tv_def)
  with r show ?thesis by blast
qed

end
