(* ===== verification/Rotate_Logger.thy ===== *)
theory Rotate_Logger
  imports C_Text Stsw_Defs
begin

text \<open>
  The rotating logger (\<open>libstreamswitch/src/stsw_rotate_logger.cc\<close>).

  The part of the operating system that it uses is a small model of a directory of files:
  names refer to files (inodes), descriptors refer to open file descriptions (a file and an offset),
  and \<open>dup2\<close> lets two descriptors share one. Writing is in append mode, complete, and moves the offset
  to the end. The number that \<open>open\<close> or \<open>dup\<close> gives is a parameter (negative when the call fails), as
  are the failures of the other calls, the process id, the text of the time and the formatted
  message. What a \<open>char\<close> buffer of the code holds after \<open>snprintf\<close> is \<open>snprintf\<close> of the prelude.
\<close>

unbundle bit_operations_syntax

section \<open>Files and descriptors\<close>

record os =
  os_dir :: "string \<Rightarrow> nat option"
  os_data :: "nat \<Rightarrow> string"
  os_next_ino :: nat
  os_fd :: "int \<Rightarrow> nat option"
  os_ofd :: "nat \<Rightarrow> nat \<times> nat"
  os_next_ofd :: nat

definition sys_open :: "string \<Rightarrow> int \<Rightarrow> os \<Rightarrow> os" where
  "sys_open name fd w =
     (if fd < 0 then w
      else
        let w1 = (case os_dir w name of
                    Some _ \<Rightarrow> w
                  | None \<Rightarrow> w\<lparr>os_dir := (os_dir w)(name := Some (os_next_ino w)),
                             os_data := (os_data w)(os_next_ino w := ''''),
                             os_next_ino := Suc (os_next_ino w)\<rparr>)
        in w1\<lparr>os_fd := (os_fd w1)(fd := Some (os_next_ofd w1)),
              os_ofd := (os_ofd w1)(os_next_ofd w1 := (the (os_dir w1 name), 0)),
              os_next_ofd := Suc (os_next_ofd w1)\<rparr>)"

definition sys_close :: "int \<Rightarrow> os \<Rightarrow> os" where
  "sys_close fd w = w\<lparr>os_fd := (os_fd w)(fd := None)\<rparr>"

text \<open>\<open>dup2\<close> fails for a closed descriptor; it may fail for other reasons too (\<open>le_dup2\<close> below).\<close>

definition sys_dup2 :: "int \<Rightarrow> int \<Rightarrow> os \<Rightarrow> os" where
  "sys_dup2 old new w = (if os_fd w old = None then w else w\<lparr>os_fd := (os_fd w)(new := os_fd w old)\<rparr>)"

text \<open>\<open>lseek(fd, 0, SEEK_END)\<close> and \<open>lseek(fd, 0, SEEK_CUR)\<close>; a negative result for a closed
  descriptor.\<close>

definition sys_seek_end :: "int \<Rightarrow> os \<Rightarrow> os" where
  "sys_seek_end fd w =
     (case os_fd w fd of
        None \<Rightarrow> w
      | Some d \<Rightarrow> w\<lparr>os_ofd := (os_ofd w)(d := (fst (os_ofd w d), length (os_data w (fst (os_ofd w d)))))\<rparr>)"

definition sys_tell :: "int \<Rightarrow> os \<Rightarrow> int" where
  "sys_tell fd w = (case os_fd w fd of None \<Rightarrow> -1 | Some d \<Rightarrow> int (snd (os_ofd w d)))"

definition sys_write :: "int \<Rightarrow> string \<Rightarrow> os \<Rightarrow> os" where
  "sys_write fd txt w =
     (case os_fd w fd of
        None \<Rightarrow> w
      | Some d \<Rightarrow>
          let ino = fst (os_ofd w d); new = os_data w ino @ txt
          in w\<lparr>os_data := (os_data w)(ino := new), os_ofd := (os_ofd w)(d := (ino, length new))\<rparr>)"

definition sys_remove :: "string \<Rightarrow> os \<Rightarrow> os" where
  "sys_remove name w = w\<lparr>os_dir := (os_dir w)(name := None)\<rparr>"

text \<open>\<open>rename\<close> fails when there is no file \<open>src\<close>, and does nothing when both names are the same file.\<close>

definition sys_rename :: "string \<Rightarrow> string \<Rightarrow> os \<Rightarrow> os" where
  "sys_rename src dst w =
     (if os_dir w src = None \<or> os_dir w src = os_dir w dst then w
      else w\<lparr>os_dir := (os_dir w)(dst := os_dir w src, src := None)\<rparr>)"

section \<open>State\<close>

abbreviation (input) LOG_LEVEL_EMERG :: int where "LOG_LEVEL_EMERG \<equiv> 0"
abbreviation (input) LOG_LEVEL_DEBUG :: int where "LOG_LEVEL_DEBUG \<equiv> 7"
abbreviation ROTATE_LOGGER_FLAG_INIT :: u32 where "ROTATE_LOGGER_FLAG_INIT \<equiv> 1"
abbreviation (input) STDERR_FD :: int where "STDERR_FD \<equiv> 2"

definition log_level_str :: "string list" where
  "log_level_str = [''EMERG'', ''ALERT'', ''CRIT'', ''ERR'', ''WARNING'', ''NOTICE'', ''INFO'', ''DEBUG'']"

record RotateLogger =
  lg_prog_name :: string
  lg_base_name :: string
  lg_file_size :: int
  lg_rotate_num :: int
  lg_stderr_redirect :: bool
  lg_lock :: bool
  lg_log_level :: int
  lg_fd :: int
  lg_redirect_fd_old :: int
  lg_flags :: u32
  lg_pid :: int

definition new_RotateLogger :: "int \<Rightarrow> RotateLogger" where
  "new_RotateLogger getpid =
     \<lparr>lg_prog_name = '''', lg_base_name = '''', lg_file_size = 0, lg_rotate_num = 0,
      lg_stderr_redirect = False, lg_lock = False, lg_log_level = 0, lg_fd = -1, lg_redirect_fd_old = -1,
      lg_flags = 0, lg_pid = getpid\<rparr>"

definition IsInit_logger :: "RotateLogger \<Rightarrow> bool" where
  "IsInit_logger l \<longleftrightarrow> flag_on (lg_flags l) ROTATE_LOGGER_FLAG_INIT"

definition clamp_level :: "int \<Rightarrow> int" where
  "clamp_level log_level =
     (if log_level < LOG_LEVEL_EMERG then LOG_LEVEL_EMERG
      else if log_level > LOG_LEVEL_DEBUG then LOG_LEVEL_DEBUG
      else log_level)"

definition set_log_level :: "int \<Rightarrow> RotateLogger \<Rightarrow> RotateLogger" where
  "set_log_level log_level l = l\<lparr>lg_log_level := clamp_level log_level\<rparr>"

section \<open>The log file\<close>

record log_env =
  le_open :: int
  le_dup2 :: bool
  le_getpid :: int
  le_ctime :: string

definition dup2_ok :: "log_env \<Rightarrow> int \<Rightarrow> os \<Rightarrow> bool" where
  "dup2_ok E old w \<longleftrightarrow> le_dup2 E \<and> os_fd w old \<noteq> None"

definition log_file_name :: "string \<Rightarrow> int \<Rightarrow> string" where
  "log_file_name base i =
     snd (snprintf 1023 (if i > 0 then c_str base @ ''.'' @ dec_int i else c_str base))"

fun shift_loop :: "string \<Rightarrow> nat \<Rightarrow> string \<Rightarrow> os \<Rightarrow> os" where
  "shift_loop base 0 dst w = w"
| "shift_loop base (Suc i) dst w =
     (let src = log_file_name base (int i)
      in shift_loop base i src (sys_rename src dst w))"

definition ShiftFile :: "RotateLogger \<Rightarrow> os \<Rightarrow> os" where
  "ShiftFile l w =
     (let log_file = log_file_name (lg_base_name l) (lg_rotate_num l)
      in shift_loop (lg_base_name l) (nat (lg_rotate_num l)) log_file (sys_remove log_file w))"

definition OpenFile :: "log_env \<Rightarrow> RotateLogger \<Rightarrow> os \<Rightarrow> int \<times> RotateLogger \<times> os" where
  "OpenFile E l w =
     (let fd = le_open E; w1 = sys_open (c_str (lg_base_name l)) fd w
      in if fd < 0 then
           (ERROR_CODE_SYSTEM, l,
            if lg_stderr_redirect l
            then (if dup2_ok E (lg_redirect_fd_old l) w1 then sys_dup2 (lg_redirect_fd_old l) STDERR_FD w1 else sys_close STDERR_FD w1)
            else w1)
         else
           let w2 = sys_seek_end fd w1
           in if lg_stderr_redirect l then
                (if dup2_ok E fd w2 then (0, l\<lparr>lg_fd := fd\<rparr>, sys_dup2 fd STDERR_FD w2)
                 else (ERROR_CODE_SYSTEM, l, sys_close STDERR_FD (sys_close fd w2)))
              else (0, l\<lparr>lg_fd := fd\<rparr>, w2))"

definition CloseFile :: "RotateLogger \<Rightarrow> os \<Rightarrow> RotateLogger \<times> os" where
  "CloseFile l w = (if lg_fd l \<ge> 0 then (l\<lparr>lg_fd := -1\<rparr>, sys_close (lg_fd l) w) else (l, w))"

text \<open>The result of \<open>dup2\<close> is not looked at here; it is taken to succeed, as the saved descriptor is open.\<close>

definition restore_stderr :: "RotateLogger \<Rightarrow> os \<Rightarrow> RotateLogger \<times> os" where
  "restore_stderr l w =
     (if lg_redirect_fd_old l \<ge> 0
      then (l\<lparr>lg_redirect_fd_old := -1\<rparr>,
            sys_close (lg_redirect_fd_old l) (sys_dup2 (lg_redirect_fd_old l) STDERR_FD w))
      else (l, w))"

definition CheckFork :: "log_env \<Rightarrow> RotateLogger \<Rightarrow> os \<Rightarrow> bool \<times> RotateLogger \<times> os" where
  "CheckFork E l w =
     (if lg_pid l = le_getpid E then (False, l, w)
      else let (l1, w1) = CloseFile l w in (True, restore_stderr l1 w1))"

definition IsTooLarge :: "RotateLogger \<Rightarrow> os \<Rightarrow> bool" where
  "IsTooLarge l w =
     (if lg_fd l < 0 then False
      else let len = sys_tell (lg_fd l) w in if len < 0 then False else len \<ge> lg_file_size l)"

definition CheckRotateInternal :: "log_env \<Rightarrow> RotateLogger \<Rightarrow> os \<Rightarrow> RotateLogger \<times> os" where
  "CheckRotateInternal E l w =
     (let (forked, l1, w1) = CheckFork E l w
      in if forked then (l1, w1)
         else if IsTooLarge l1 w1 then
           let (l2, w2) = CloseFile l1 w1 in snd (OpenFile E l2 (ShiftFile l2 w2))
         else (l1, w1))"

definition CheckRotate :: "log_env \<Rightarrow> RotateLogger \<Rightarrow> os \<Rightarrow> RotateLogger \<times> os" where
  "CheckRotate E l w = (if \<not> IsInit_logger l then (l, w) else CheckRotateInternal E l w)"

section \<open>Records\<close>

abbreviation (input) MAX_LOG_RECORD_SIZE :: nat where "MAX_LOG_RECORD_SIZE \<equiv> 1024"

text \<open>\<open>message\<close> is what \<open>vsnprintf\<close> makes of the format and the arguments, \<open>None\<close> when it fails. A level
  below zero passes the filter and is an index outside \<open>log_level_str\<close>.\<close>

definition log_prefix :: "log_env \<Rightarrow> string \<Rightarrow> string \<Rightarrow> string \<Rightarrow> int \<Rightarrow> string" where
  "log_prefix E prog_name level_str filename line =
     snd (snprintf (MAX_LOG_RECORD_SIZE - 1)
       (''['' @ butlast (le_ctime E) @ '']['' @ c_str prog_name @ ''][''  @ level_str @ ''][''
          @ filename @ '':'' @ dec_int line @ '']: ''))"

definition log_record :: "string \<Rightarrow> string \<Rightarrow> string" where
  "log_record head_str message =
     (let log_str = head_str @ snd (snprintf (MAX_LOG_RECORD_SIZE - 1) message)
      in if last log_str \<noteq> CHR 0x0A then log_str @ [CHR 0x0A] else log_str)"

definition LogV ::
  "log_env \<Rightarrow> int \<Rightarrow> string \<Rightarrow> int \<Rightarrow> string option \<Rightarrow> RotateLogger \<Rightarrow> os \<Rightarrow> (RotateLogger \<times> os) cpp" where
  "LogV E level filename line message l w =
     (if \<not> IsInit_logger l then Ret (l, w)
      else if level > lg_log_level l then Ret (l, w)
      else if level < 0 \<or> level \<ge> int (length log_level_str) then Undef
      else
        let head_str = log_prefix E (lg_prog_name l) (log_level_str ! nat level) filename line
        in case message of
             None \<Rightarrow> Ret (l, w)
           | Some m \<Rightarrow>
               let log_str = log_record head_str m; (l1, w1) = CheckRotateInternal E l w
               in Ret (l1, if lg_fd l1 \<ge> 0 then sys_write (lg_fd l1) log_str w1 else w1))"

section \<open>Life cycle\<close>

record log_init_env =
  li_dup :: int
  li_getfd :: int
  li_setfd :: int
  li_mutexattr_settype :: int
  li_mutex_init :: int

definition clear_logger :: "RotateLogger \<Rightarrow> RotateLogger" where
  "clear_logger l = l\<lparr>lg_prog_name := '''', lg_base_name := '''', lg_file_size := 0, lg_rotate_num := 0,
     lg_log_level := LOG_LEVEL_EMERG, lg_stderr_redirect := False\<rparr>"

text \<open>The blocks at the labels \<open>error_0\<close> and \<open>error_1\<close>.\<close>

definition init_logger_error_0 :: "RotateLogger \<Rightarrow> RotateLogger" where
  "init_logger_error_0 l = (clear_logger l)\<lparr>lg_redirect_fd_old := -1\<rparr>"

definition init_logger_error_1 :: "RotateLogger \<Rightarrow> os \<Rightarrow> RotateLogger \<times> os" where
  "init_logger_error_1 l w =
     (init_logger_error_0 l, if lg_redirect_fd_old l \<ge> 0 then sys_close (lg_redirect_fd_old l) w else w)"

definition Init_logger ::
  "log_init_env \<Rightarrow> log_env \<Rightarrow> string \<Rightarrow> string \<Rightarrow> int \<Rightarrow> int \<Rightarrow> int \<Rightarrow> bool \<Rightarrow> RotateLogger \<Rightarrow> os \<Rightarrow>
     int \<times> RotateLogger \<times> os" where
  "Init_logger I E prog_name base_name file_size rotate_num log_level stderr_redirect l w =
     (if file_size \<le> 0 \<or> rotate_num < 0 then (ERROR_CODE_PARAM, l, w)
      else if IsInit_logger l then (ERROR_CODE_GENERAL, l, w)
      else
        let l1 = l\<lparr>lg_prog_name := prog_name, lg_base_name := base_name, lg_file_size := file_size,
                   lg_rotate_num := rotate_num, lg_log_level := clamp_level log_level,
                   lg_stderr_redirect := stderr_redirect\<rparr>;
            (l2, w2) = (if stderr_redirect
                        then (l1\<lparr>lg_redirect_fd_old := li_dup I\<rparr>,
                              if li_dup I \<ge> 0 then sys_dup2 STDERR_FD (li_dup I) w else w)
                        else (l1, w))
        in if stderr_redirect \<and> li_dup I < 0 then (ERROR_CODE_SYSTEM, init_logger_error_0 l2, w2)
           else if stderr_redirect \<and> (li_getfd I < 0 \<or> li_setfd I < 0)
             then (ERROR_CODE_SYSTEM, init_logger_error_1 l2 w2)
           else if li_mutexattr_settype I \<noteq> 0 then (ERROR_CODE_SYSTEM, init_logger_error_1 l2 w2)
           else if li_mutex_init I \<noteq> 0 then (ERROR_CODE_SYSTEM, init_logger_error_1 l2 w2)
           else
             let (ret, l3, w3) = OpenFile E (l2\<lparr>lg_lock := True\<rparr>) w2
             in if ret \<noteq> 0 then (ret, init_logger_error_1 (l3\<lparr>lg_lock := False\<rparr>) w3)
                else (0, l3\<lparr>lg_flags := lg_flags l3 OR ROTATE_LOGGER_FLAG_INIT\<rparr>, w3))"

definition Uninit_logger :: "RotateLogger \<Rightarrow> os \<Rightarrow> RotateLogger \<times> os" where
  "Uninit_logger l w =
     (if \<not> IsInit_logger l then (l, w)
      else
        let (l1, w1) = CloseFile l w;
            (l2, w2) = restore_stderr (l1\<lparr>lg_lock := False\<rparr>) w1
        in ((clear_logger l2)\<lparr>lg_flags := lg_flags l2 AND NOT ROTATE_LOGGER_FLAG_INIT\<rparr>, w2))"

end
