(* ===== verification/Logger_Properties.thy ===== *)
theory Logger_Properties
  imports Rotate_Logger
begin

text \<open>
  Properties of the rotating logger: rotation moves every log file up by one name; a logger with an
  open file implements a bounded queue of files; the files hold the most recent output and are
  bounded in size; a file that cannot be opened again silences the logger.
\<close>

section \<open>Names\<close>

lemma dec_nat_inj: "dec_nat m = dec_nat n \<Longrightarrow> m = n"
  using digits_from_dec_nat [of 0 m "[]"] digits_from_dec_nat [of 0 n "[]"] by simp

text \<open>The names of the log files are cut off at 1022 characters; with a base name that leaves room for the
  number they are distinct.\<close>

definition base_fits :: "string \<Rightarrow> bool" where
  "base_fits base \<longleftrightarrow> length (c_str base) \<le> 1010"

lemma log_file_name_eq:
  assumes "base_fits base" "i < 2 ^ 31"
  shows "log_file_name base i = (if i > 0 then c_str base @ ''.'' @ dec_int i else c_str base)"
proof -
  have "i > 0 \<longrightarrow> length (dec_int i) \<le> 11" using length_dec_int [of i] assms(2) by simp
  then show ?thesis using assms(1) by (auto simp: log_file_name_def snprintf_def base_fits_def)
qed

lemma log_file_name_inj:
  assumes "base_fits base" "i < 2 ^ 31" "j < 2 ^ 31" "log_file_name base (int i) = log_file_name base (int j)"
  shows "i = j"
proof -
  have lt: "int i < 2 ^ 31" "int j < 2 ^ 31" using assms(2,3) by (metis of_nat_less_iff of_nat_numeral of_nat_power)+
  then show ?thesis
    using assms(4) by (auto simp: log_file_name_eq [OF assms(1)] dec_int_def dest!: dec_nat_inj split: if_splits)
qed

section \<open>Rotation\<close>

lemma sys_rename_free:
  assumes "os_dir w dst = None" "src \<noteq> dst"
  shows "sys_rename src dst w = w\<lparr>os_dir := (os_dir w)(dst := os_dir w src, src := None)\<rparr>"
proof (cases "os_dir w src")
  case None
  with assms have "(os_dir w)(dst := os_dir w src, src := None) = os_dir w" by auto
  with None show ?thesis by (simp add: sys_rename_def)
qed (use assms in \<open>simp add: sys_rename_def\<close>)

lemma shift_loop_dir:
  assumes "inj_on N {..n}" "\<forall>i \<le> n. log_file_name base (int i) = N i" "os_dir w (N n) = None"
  shows "\<exists>dir. shift_loop base n (N n) w = w\<lparr>os_dir := dir\<rparr> \<and> (\<forall>i < n. dir (N (Suc i)) = os_dir w (N i)) \<and>
    dir (N 0) = None \<and> (\<forall>x. x \<notin> N ` {..n} \<longrightarrow> dir x = os_dir w x)"
  using assms
proof (induction n arbitrary: w)
  case 0
  then show ?case by (intro exI [of _ "os_dir w"]) simp
next
  case (Suc n)
  have ne: "N i \<noteq> N (Suc n)" if "i \<le> n" for i using inj_onD [OF Suc.prems(1), of i "Suc n"] that by auto
  have ne': "N i \<noteq> N n" if "i < n" for i using inj_onD [OF Suc.prems(1), of i n] that by auto
  define w1 where "w1 = w\<lparr>os_dir := (os_dir w)(N (Suc n) := os_dir w (N n), N n := None)\<rparr>"
  have ren: "sys_rename (N n) (N (Suc n)) w = w1"
    unfolding w1_def using Suc.prems(3) ne [of n] by (intro sys_rename_free) simp_all
  have "inj_on N {..n}" using Suc.prems(1) by (rule inj_on_subset) auto
  from Suc.IH [OF this, of w1] Suc.prems(2) obtain dir where
    dir: "shift_loop base n (N n) w1 = w1\<lparr>os_dir := dir\<rparr>" "\<forall>i < n. dir (N (Suc i)) = os_dir w1 (N i)"
      "dir (N 0) = None" "\<forall>x. x \<notin> N ` {..n} \<longrightarrow> dir x = os_dir w1 x"
    by (auto simp: w1_def)
  have "dir (N (Suc i)) = os_dir w (N i)" if "i < Suc n" for i
  proof (cases "i = n")
    case True
    have "N (Suc n) \<notin> N ` {..n}" using ne by (metis atMost_iff imageE)
    with dir(4) True ne [of n] show ?thesis by (simp add: w1_def)
  next
    case False
    with that dir(2) ne [of i] ne' [of i] show ?thesis by (simp add: w1_def)
  qed
  moreover have "dir x = os_dir w x" if "x \<notin> N ` {..Suc n}" for x
  proof -
    from that have "x \<notin> N ` {..n}" "x \<noteq> N n" "x \<noteq> N (Suc n)" by auto
    with dir(4) show ?thesis by (simp add: w1_def)
  qed
  moreover have "shift_loop base (Suc n) (N (Suc n)) w = w\<lparr>os_dir := dir\<rparr>"
    using Suc.prems(2) dir(1) by (simp add: ren Let_def) (simp add: w1_def)
  ultimately show ?case using dir(3) by blast
qed

definition log_name :: "RotateLogger \<Rightarrow> nat \<Rightarrow> string" where
  "log_name l i = log_file_name (lg_base_name l) (int i)"

definition rotates :: "RotateLogger \<Rightarrow> bool" where
  "rotates l \<longleftrightarrow> base_fits (lg_base_name l) \<and> 0 \<le> lg_rotate_num l \<and> lg_rotate_num l < 2 ^ 31"

lemma log_name_inj: "rotates l \<Longrightarrow> inj_on (log_name l) {..nat (lg_rotate_num l)}"
  by (rule inj_onI) (auto simp: log_name_def rotates_def dest!: log_file_name_inj [rotated 3])

text \<open>A rotation gives every log file the next number and removes the one with the last; the base name
  becomes free, and no other name and no content of a file changes.\<close>

lemma ShiftFile_dir:
  assumes "rotates l"
  shows "\<exists>dir. ShiftFile l w = w\<lparr>os_dir := dir\<rparr> \<and>
    (\<forall>i < nat (lg_rotate_num l). dir (log_name l (Suc i)) = os_dir w (log_name l i)) \<and>
    dir (log_name l 0) = None \<and> (\<forall>x. x \<notin> log_name l ` {..nat (lg_rotate_num l)} \<longrightarrow> dir x = os_dir w x)"
proof -
  let ?n = "nat (lg_rotate_num l)" and ?w = "sys_remove (log_name l (nat (lg_rotate_num l))) w"
  have ne: "log_name l i \<noteq> log_name l ?n" if "i < ?n" for i
    using inj_onD [OF log_name_inj [OF assms], of i ?n] that by auto
  have "ShiftFile l w = shift_loop (lg_base_name l) ?n (log_name l ?n) ?w"
    using assms by (simp add: ShiftFile_def log_name_def Let_def rotates_def)
  moreover obtain dir where "shift_loop (lg_base_name l) ?n (log_name l ?n) ?w = ?w\<lparr>os_dir := dir\<rparr>"
    "\<forall>i < ?n. dir (log_name l (Suc i)) = os_dir ?w (log_name l i)" "dir (log_name l 0) = None"
    "\<forall>x. x \<notin> log_name l ` {..?n} \<longrightarrow> dir x = os_dir ?w x"
    using shift_loop_dir [OF log_name_inj [OF assms], of "lg_base_name l" ?w]
    by (auto simp: log_name_def sys_remove_def)
  moreover have "os_dir ?w x = os_dir w x" if "x \<noteq> log_name l ?n" for x using that by (simp add: sys_remove_def)
  ultimately have "ShiftFile l w = w\<lparr>os_dir := dir\<rparr> \<and>
    (\<forall>i < ?n. dir (log_name l (Suc i)) = os_dir w (log_name l i)) \<and> dir (log_name l 0) = None \<and>
    (\<forall>x. x \<notin> log_name l ` {..?n} \<longrightarrow> dir x = os_dir w x)"
    using ne by (auto simp: sys_remove_def)
  then show ?thesis by blast
qed


section \<open>Queue of files\<close>

text \<open>The log file is open at its end, and the log files are distinct files.\<close>

definition files_ok :: "RotateLogger \<Rightarrow> os \<Rightarrow> bool" where
  "files_ok l w \<longleftrightarrow> (\<forall>x i. os_dir w x = Some i \<longrightarrow> i < os_next_ino w) \<and>
     (\<forall>i \<le> nat (lg_rotate_num l). \<forall>j \<le> nat (lg_rotate_num l).
        os_dir w (log_name l i) = os_dir w (log_name l j) \<longrightarrow> os_dir w (log_name l i) \<noteq> None \<longrightarrow> i = j)"

definition file_open :: "RotateLogger \<Rightarrow> os \<Rightarrow> bool" where
  "file_open l w \<longleftrightarrow> lg_fd l \<ge> 0 \<and> (\<exists>d i. os_fd w (lg_fd l) = Some d \<and> os_dir w (log_name l 0) = Some i \<and>
     os_ofd w d = (i, length (os_data w i)))"

definition logs :: "RotateLogger \<Rightarrow> bool" where
  "logs l \<longleftrightarrow> IsInit_logger l \<and> rotates l \<and> 0 < lg_file_size l \<and> lg_log_level l \<le> 7"

definition log_files :: "RotateLogger \<Rightarrow> os \<Rightarrow> string option list" where
  "log_files l w = map (\<lambda>i. map_option (os_data w) (os_dir w (log_name l i))) [0..<Suc (nat (lg_rotate_num l))]"

text \<open>No call fails, and the process is the one that created the logger.\<close>

definition env_ok :: "log_env \<Rightarrow> RotateLogger \<Rightarrow> bool" where
  "env_ok E l \<longleftrightarrow> le_open E \<ge> 0 \<and> le_dup2 E \<and> le_getpid E = lg_pid l"

text \<open>The abstract logger: a queue of files, newest first.\<close>

definition queue_rotate :: "nat \<Rightarrow> int \<Rightarrow> string option list \<Rightarrow> string option list" where
  "queue_rotate n limit fs = (if int (length (the (hd fs))) \<ge> limit then Some '''' # take n fs else fs)"

definition queue_write :: "string \<Rightarrow> string option list \<Rightarrow> string option list" where
  "queue_write r fs = Some (the (hd fs) @ r) # tl fs"

lemma upt_0_Suc_map: "map f [0..<Suc n] = f 0 # map (\<lambda>i. f (Suc i)) [0..<n]"
  by (simp only: upt_0_Suc list.map map_map comp_def)

lemma log_files_Cons:
  "log_files l w = map_option (os_data w) (os_dir w (log_name l 0)) #
     map (\<lambda>i. map_option (os_data w) (os_dir w (log_name l (Suc i)))) [0..<nat (lg_rotate_num l)]"
  unfolding log_files_def by (rule upt_0_Suc_map)

lemma log_name_0: "rotates l \<Longrightarrow> log_name l 0 = c_str (lg_base_name l)"
  by (simp add: log_name_def log_file_name_eq rotates_def)

lemma write_refines:
  assumes "file_open l w" "files_ok l w"
  shows "log_files l (sys_write (lg_fd l) r w) = queue_write r (log_files l w)"
    "file_open l (sys_write (lg_fd l) r w)" "files_ok l (sys_write (lg_fd l) r w)"
proof -
  obtain d i where d: "os_fd w (lg_fd l) = Some d" "os_dir w (log_name l 0) = Some i" "os_ofd w d = (i, length (os_data w i))"
    "lg_fd l \<ge> 0"
    using assms(1) by (auto simp: file_open_def)
  let ?v = "sys_write (lg_fd l) r w"
  have v: "?v = w\<lparr>os_data := (os_data w)(i := os_data w i @ r), os_ofd := (os_ofd w)(d := (i, length (os_data w i @ r)))\<rparr>"
    by (simp add: sys_write_def d Let_def)
  show "file_open l ?v" unfolding v using d by (simp add: file_open_def)
  show "files_ok l ?v" unfolding v using assms(2) by (simp add: files_ok_def)
  have "os_dir w (log_name l (Suc j)) \<noteq> Some i" if "j < nat (lg_rotate_num l)" for j
    using assms(2) d(2) that unfolding files_ok_def by (metis Suc_leI le0 nat.distinct(1) option.distinct(1))
  then have "map_option (os_data ?v) (os_dir w (log_name l (Suc j))) = map_option (os_data w) (os_dir w (log_name l (Suc j)))"
    if "j < nat (lg_rotate_num l)" for j
    using that by (cases "os_dir w (log_name l (Suc j))") (auto simp: v)
  then show "log_files l ?v = queue_write r (log_files l w)"
    by (simp add: log_files_Cons queue_write_def v d(2) cong: map_cong)
qed


lemma IsTooLarge_iff:
  assumes "file_open l w"
  shows "IsTooLarge l w \<longleftrightarrow> int (length (the (hd (log_files l w)))) \<ge> lg_file_size l"
  using assms by (auto simp: file_open_def IsTooLarge_def sys_tell_def log_files_Cons)

text \<open>Opening a file that does not exist.\<close>

lemma OpenFile_new:
  assumes "rotates l" "env_ok E l" "os_dir w (log_name l 0) = None" "files_ok l w"
  obtains v where "OpenFile E l w = (0, l\<lparr>lg_fd := le_open E\<rparr>, v)" "file_open (l\<lparr>lg_fd := le_open E\<rparr>) v"
    "os_dir v = (os_dir w)(log_name l 0 := Some (os_next_ino w))" "os_data v = (os_data w)(os_next_ino w := '''')"
    "os_next_ino v = Suc (os_next_ino w)"
proof -
  let ?fd = "le_open E" and ?i = "os_next_ino w" and ?d = "os_next_ofd w"
  have ok: "?fd \<ge> 0" "le_dup2 E" using assms(2) by (simp_all add: env_ok_def)
  define v where "v = sys_seek_end ?fd (sys_open (log_name l 0) ?fd w)"
  have v: "os_fd v = (os_fd w)(?fd := Some ?d)" "os_ofd v = (os_ofd w)(?d := (?i, 0))"
    "os_dir v = (os_dir w)(log_name l 0 := Some ?i)" "os_data v = (os_data w)(?i := '''')" "os_next_ino v = Suc ?i"
    using ok(1) assms(3) by (simp_all add: v_def sys_seek_end_def sys_open_def Let_def)
  have open_v: "OpenFile E l w = (0, l\<lparr>lg_fd := ?fd\<rparr>, if lg_stderr_redirect l then sys_dup2 ?fd 2 v else v)"
    using ok v(1) by (simp add: OpenFile_def Let_def log_name_0 [OF assms(1), symmetric] dup2_ok_def flip: v_def)
  show thesis
    by (rule that [OF open_v]) (use ok v in \<open>auto simp: file_open_def sys_dup2_def log_name_def\<close>)
qed

lemma logs_fd [simp]:
  "rotates (l\<lparr>lg_fd := fd\<rparr>) = rotates l" "log_name (l\<lparr>lg_fd := fd\<rparr>) = log_name l"
  "logs (l\<lparr>lg_fd := fd\<rparr>) = logs l" "env_ok E (l\<lparr>lg_fd := fd\<rparr>) = env_ok E l"
  by (simp_all add: rotates_def log_name_def logs_def env_ok_def IsInit_logger_def fun_eq_iff)

lemma ShiftFile_refines:
  assumes "rotates l" "files_ok l w"
  obtains v where "ShiftFile l w = v" "os_dir v (log_name l 0) = None" "files_ok l v" "os_data v = os_data w"
    "os_next_ino v = os_next_ino w"
    "\<forall>i < nat (lg_rotate_num l). os_dir v (log_name l (Suc i)) = os_dir w (log_name l i)"
proof -
  let ?n = "nat (lg_rotate_num l)"
  obtain dir where dir: "ShiftFile l w = w\<lparr>os_dir := dir\<rparr>"
    "\<forall>i < ?n. dir (log_name l (Suc i)) = os_dir w (log_name l i)" "dir (log_name l 0) = None"
    "\<forall>x. x \<notin> log_name l ` {..?n} \<longrightarrow> dir x = os_dir w x"
    using ShiftFile_dir [OF assms(1), of w] by blast
  have old: "\<forall>x i. os_dir w x = Some i \<longrightarrow> i < os_next_ino w"
    "\<forall>i \<le> ?n. \<forall>j \<le> ?n. os_dir w (log_name l i) = os_dir w (log_name l j) \<longrightarrow> os_dir w (log_name l i) \<noteq> None \<longrightarrow> i = j"
    using assms(2) by (simp_all add: files_ok_def)
  have "i < os_next_ino w" if "dir x = Some i" for x i
  proof (cases "x \<in> log_name l ` {..?n}")
    case True
    then obtain k where "x = log_name l k" "k \<le> ?n" by auto
    with that dir(2,3) old(1) show ?thesis by (cases k) (auto simp: Suc_le_eq)
  qed (use that dir(4) old(1) in auto)
  moreover have "i = j"
    if "i \<le> ?n" "j \<le> ?n" "dir (log_name l i) = dir (log_name l j)" "dir (log_name l i) \<noteq> None" for i j
    using that dir(2,3) old(2) by (cases i; cases j) (auto simp: Suc_le_eq)
  ultimately have "files_ok l (w\<lparr>os_dir := dir\<rparr>)" unfolding files_ok_def by auto
  with dir show thesis by (intro that [OF dir(1)]) simp_all
qed

text \<open>A new file in front of the shifted ones.\<close>

lemma new_file_refines:
  assumes "rotates l" "files_ok l s" "files_ok l w" "os_data s = os_data w" "os_next_ino s = os_next_ino w"
    and "\<forall>i < nat (lg_rotate_num l). os_dir s (log_name l (Suc i)) = os_dir w (log_name l i)"
    and "os_dir v = (os_dir s)(log_name l 0 := Some (os_next_ino s))"
    and "os_data v = (os_data s)(os_next_ino s := '''')" "os_next_ino v = Suc (os_next_ino s)"
  shows "log_files l v = Some '''' # take (nat (lg_rotate_num l)) (log_files l w)" "files_ok l v"
proof -
  let ?n = "nat (lg_rotate_num l)" and ?k = "os_next_ino s"
  have ne: "log_name l (Suc i) \<noteq> log_name l 0" if "i < ?n" for i
    using inj_onD [OF log_name_inj [OF assms(1)], of "Suc i" 0] that by auto
  have small: "os_dir w x = Some i \<Longrightarrow> i \<noteq> ?k" "os_dir s x = Some i \<Longrightarrow> i < ?k" for x i
    using assms(2,3,5) by (force simp: files_ok_def)+
  have "map_option (os_data v) (os_dir v (log_name l (Suc i))) = map_option (os_data w) (os_dir w (log_name l i))"
    if "i < ?n" for i
    using that ne small(1) assms(4,6-8) by (cases "os_dir w (log_name l i)") auto
  moreover have "take ?n (log_files l w) = map (\<lambda>i. map_option (os_data w) (os_dir w (log_name l i))) [0..<?n]"
    by (simp add: log_files_def take_map)
  ultimately show "log_files l v = Some '''' # take ?n (log_files l w)"
    by (simp add: log_files_Cons [of l v] assms(7,8) cong: map_cong)
  have "i = j" if "i \<le> ?n" "j \<le> ?n" "os_dir v (log_name l i) = os_dir v (log_name l j)" "os_dir v (log_name l i) \<noteq> None" for i j
  proof -
    have dist: "i = j" if "i < ?n" "j < ?n" "os_dir s (log_name l (Suc i)) = Some y" "os_dir s (log_name l (Suc j)) = Some y" for i j y
    proof -
      have "Suc i \<le> ?n" "Suc j \<le> ?n" using that by simp_all
      with that(3,4) assms(2) have "Suc i = Suc j" unfolding files_ok_def by (metis option.distinct(1))
      then show ?thesis by simp
    qed
    have new: "os_dir s x \<noteq> Some ?k" for x using small(2) [of x ?k] by auto
    have v0: "os_dir v (log_name l 0) = Some ?k" "\<And>i. i < ?n \<Longrightarrow> os_dir v (log_name l (Suc i)) = os_dir s (log_name l (Suc i))"
      using ne assms(7) by simp_all
    from that show ?thesis
      by (cases i; cases j) (use new v0 in \<open>auto simp: Suc_le_eq dest: sym dist\<close>)
  qed
  moreover have "i < Suc ?k" if "os_dir v x = Some i" for x i
    using that small(2) assms(7) by (auto simp: less_Suc_eq split: if_splits)
  ultimately show "files_ok l v" unfolding files_ok_def using assms(9) by auto
qed

lemma files_fd [simp]:
  "files_ok (l\<lparr>lg_fd := fd\<rparr>) w = files_ok l w" "log_files (l\<lparr>lg_fd := fd\<rparr>) w = log_files l w"
  "files_ok l (sys_close fd w) = files_ok l w" "log_files l (sys_close fd w) = log_files l w"
  by (simp_all add: files_ok_def log_files_def sys_close_def)

lemma rotate_refines:
  assumes "logs l" "file_open l w" "files_ok l w" "env_ok E l" "CheckRotateInternal E l w = (l', w')"
  shows "log_files l' w' = queue_rotate (nat (lg_rotate_num l)) (lg_file_size l) (log_files l w) \<and>
    file_open l' w' \<and> files_ok l' w' \<and> (\<exists>fd. l' = l\<lparr>lg_fd := fd\<rparr>)"
proof (cases "IsTooLarge l w")
  case False
  have "l' = l" "w' = w" using assms(4,5) False by (auto simp: CheckRotateInternal_def CheckFork_def env_ok_def)
  with assms(2,3) False show ?thesis
    by (auto simp: IsTooLarge_iff [OF assms(2)] queue_rotate_def intro: exI [of _ "lg_fd l"])
next
  case True
  let ?l = "l\<lparr>lg_fd := -1\<rparr>" and ?w = "sys_close (lg_fd l) w"
  have rot: "rotates l" using assms(1) by (simp add: logs_def)
  obtain s where s: "ShiftFile ?l ?w = s" "os_dir s (log_name ?l 0) = None" "files_ok ?l s" "os_data s = os_data ?w"
    "os_next_ino s = os_next_ino ?w"
    "\<forall>i < nat (lg_rotate_num ?l). os_dir s (log_name ?l (Suc i)) = os_dir ?w (log_name ?l i)"
    by (rule ShiftFile_refines [of ?l ?w]) (use rot assms(3) in simp_all)
  obtain v where v: "OpenFile E ?l s = (0, ?l\<lparr>lg_fd := le_open E\<rparr>, v)" "file_open (?l\<lparr>lg_fd := le_open E\<rparr>) v"
    "os_dir v = (os_dir s)(log_name ?l 0 := Some (os_next_ino s))" "os_data v = (os_data s)(os_next_ino s := '''')"
    "os_next_ino v = Suc (os_next_ino s)"
    by (rule OpenFile_new [of ?l E s]) (use rot assms(4) s in simp_all)
  have res: "l' = l\<lparr>lg_fd := le_open E\<rparr>" "w' = v"
    using assms(2,4,5) True v(1) s(1)
    by (auto simp: CheckRotateInternal_def CheckFork_def env_ok_def CloseFile_def file_open_def)
  have "log_files l v = Some '''' # take (nat (lg_rotate_num l)) (log_files l w)" "files_ok l v"
    using new_file_refines [of l s ?w v] rot s v(3-5) assms(3) by simp_all
  with v(2) True show ?thesis
    by (auto simp: res queue_rotate_def IsTooLarge_iff [OF assms(2)])
qed

section \<open>Records\<close>

definition record_of :: "log_env \<Rightarrow> RotateLogger \<Rightarrow> int \<Rightarrow> string \<Rightarrow> int \<Rightarrow> string \<Rightarrow> string" where
  "record_of E l level filename line m =
     log_record (log_prefix E (lg_prog_name l) (log_level_str ! nat level) filename line) m"

definition log_ok :: "RotateLogger \<Rightarrow> os \<Rightarrow> bool" where
  "log_ok l w \<longleftrightarrow> logs l \<and> file_open l w \<and> files_ok l w"

lemma LogV_refines:
  assumes "log_ok l w" "env_ok E l" "0 \<le> level" "level \<le> lg_log_level l"
  obtains l' w' where "LogV E level filename line (Some m) l w = Ret (l', w')" "log_ok l' w'" "\<exists>fd. l' = l\<lparr>lg_fd := fd\<rparr>"
    "log_files l' w' = queue_write (record_of E l level filename line m)
       (queue_rotate (nat (lg_rotate_num l)) (lg_file_size l) (log_files l w))"
proof -
  obtain l' w1 where c: "CheckRotateInternal E l w = (l', w1)" by (cases "CheckRotateInternal E l w")
  have ok: "logs l" "file_open l w" "files_ok l w" using assms(1) by (simp_all add: log_ok_def)
  have r: "log_files l' w1 = queue_rotate (nat (lg_rotate_num l)) (lg_file_size l) (log_files l w)"
    "file_open l' w1" "files_ok l' w1" "\<exists>fd. l' = l\<lparr>lg_fd := fd\<rparr>"
    using rotate_refines [OF ok assms(2) c] by simp_all
  have fd: "lg_fd l' \<ge> 0" using r(2) by (simp add: file_open_def)
  have "logs l'" using r(4) ok(1) by auto
  moreover have "level < int (length log_level_str)" using ok(1) assms(4) by (simp add: logs_def log_level_str_def)
  ultimately show thesis
    using assms(3,4) ok(1) fd c r(4) write_refines [OF r(2,3)]
    by (intro that [of l' "sys_write (lg_fd l') (record_of E l level filename line m) w1"])
      (simp_all add: LogV_def logs_def Let_def record_of_def log_ok_def r(1))
qed


section \<open>Runs of the logger\<close>

type_synonym log_call = "log_env \<times> int \<times> string \<times> int \<times> string"

fun log_run :: "log_call list \<Rightarrow> RotateLogger \<Rightarrow> os \<Rightarrow> (RotateLogger \<times> os) cpp" where
  "log_run [] l w = Ret (l, w)"
| "log_run ((E, level, filename, line, m) # cs) l w =
     bind_cpp (LogV E level filename line (Some m) l w) (\<lambda>(l1, w1). log_run cs l1 w1)"

fun queue_run :: "nat \<Rightarrow> int \<Rightarrow> string list \<Rightarrow> string option list \<Rightarrow> string option list" where
  "queue_run n limit [] fs = fs"
| "queue_run n limit (r # rs) fs = queue_run n limit rs (queue_write r (queue_rotate n limit fs))"

definition records_of :: "RotateLogger \<Rightarrow> log_call list \<Rightarrow> string list" where
  "records_of l cs = map (\<lambda>(E, level, filename, line, m). record_of E l level filename line m)
     (filter (\<lambda>(E, level, _). level \<le> lg_log_level l) cs)"

definition calls_ok :: "RotateLogger \<Rightarrow> log_call list \<Rightarrow> bool" where
  "calls_ok l cs \<longleftrightarrow> list_all (\<lambda>(E, level, _). env_ok E l \<and> 0 \<le> level) cs"

lemma records_of_fd [simp]: "records_of (l\<lparr>lg_fd := fd\<rparr>) cs = records_of l cs" "calls_ok (l\<lparr>lg_fd := fd\<rparr>) cs = calls_ok l cs"
  by (simp_all add: records_of_def record_of_def calls_ok_def)

lemma log_run_refines:
  assumes "log_ok l w" "calls_ok l cs"
  shows "\<exists>l' w'. log_run cs l w = Ret (l', w') \<and> log_ok l' w' \<and>
    log_files l' w' = queue_run (nat (lg_rotate_num l)) (lg_file_size l) (records_of l cs) (log_files l w)"
  using assms
proof (induction cs arbitrary: l w)
  case (Cons c cs)
  obtain E level filename line m where c: "c = (E, level, filename, line, m)" by (cases c)
  have ok: "env_ok E l" "0 \<le> level" "calls_ok l cs" using Cons.prems(2) by (simp_all add: c calls_ok_def)
  show ?case
  proof (cases "level \<le> lg_log_level l")
    case False
    then have "LogV E level filename line (Some m) l w = Ret (l, w)" by (simp add: LogV_def)
    with Cons.IH [OF Cons.prems(1) ok(3)] False show ?thesis by (simp add: c records_of_def)
  next
    case True
    obtain l1 w1 fd where l1: "LogV E level filename line (Some m) l w = Ret (l1, w1)" "log_ok l1 w1" "l1 = l\<lparr>lg_fd := fd\<rparr>"
      "log_files l1 w1 = queue_write (record_of E l level filename line m)
         (queue_rotate (nat (lg_rotate_num l)) (lg_file_size l) (log_files l w))"
      using LogV_refines [OF Cons.prems(1) ok(1,2) True, of filename line m] by metis
    have "records_of l (c # cs) = record_of E l level filename line m # records_of l cs"
      using True by (simp add: c records_of_def)
    with Cons.IH [OF l1(2)] ok(3) l1 show ?thesis by (simp add: c)
  qed
qed (simp add: records_of_def)

text \<open>C31: A logger with an open file behaves as a bounded queue of files, as long as \<open>open\<close> and \<open>dup2\<close>
  succeed and the process is the one that created the logger: every accepted record, complete and
  in order, goes to the newest file, after a new file has been put in front (and the oldest dropped
  from a full queue) when the newest has reached the size limit.\<close>

theorem logger_refines_queue:
  assumes "log_ok l w" "calls_ok l cs"
  shows "\<exists>l' w'. log_run cs l w = Ret (l', w') \<and> log_ok l' w' \<and>
    log_files l' w' = queue_run (nat (lg_rotate_num l)) (lg_file_size l) (records_of l cs) (log_files l w)"
  using assms by (rule log_run_refines)

section \<open>What the files hold\<close>

definition file_text :: "string option list \<Rightarrow> string" where
  "file_text fs = concat (map (case_option '''' id) (rev fs))"

text \<open>A queue that has been filled by rotation: the older files have reached the limit.\<close>

definition queue_form :: "nat \<Rightarrow> int \<Rightarrow> nat \<Rightarrow> string option list \<Rightarrow> bool" where
  "queue_form n limit k fs \<longleftrightarrow> (\<exists>d xs. fs = Some d # map Some xs @ replicate k None \<and> length xs + k = n \<and>
     list_all (\<lambda>x. int (length x) \<ge> limit) xs)"

lemma file_text_form: "file_text (Some d # map Some xs @ replicate k None) = concat (rev xs) @ d"
  by (simp add: file_text_def rev_map comp_def)

lemma queue_step_form:
  assumes "queue_form n limit k fs" "fs' = queue_write r (queue_rotate n limit fs)"
  shows "\<exists>k'. queue_form n limit k' fs' \<and> k' \<le> k \<and> suffix (file_text fs') (file_text fs @ r) \<and>
    (k' = 0 \<or> file_text fs' = file_text fs @ r)"
proof -
  obtain d xs where fs: "fs = Some d # map Some xs @ replicate k None" "length xs + k = n"
    "list_all (\<lambda>x. int (length x) \<ge> limit) xs"
    using assms(1) by (auto simp: queue_form_def)
  have t: "file_text fs = concat (rev xs) @ d" unfolding fs(1) by (rule file_text_form)
  show ?thesis
  proof (cases "int (length d) \<ge> limit")
    case False
    then have "fs' = Some (d @ r) # map Some xs @ replicate k None"
      using assms(2) fs(1) by (simp add: queue_rotate_def queue_write_def)
    with fs show ?thesis
      by (intro exI [of _ k]) (auto simp: queue_form_def file_text_form)
  next
    case True
    then have q: "fs' = Some r # take n (Some d # map Some xs @ replicate k None)"
      using assms(2) fs(1) by (simp add: queue_rotate_def queue_write_def)
    show ?thesis
    proof (cases k)
      case (Suc j)
      then have n: "n = Suc (length xs + j)" using fs(2) by simp
      have "fs' = Some r # map Some (d # xs) @ replicate j None"
        unfolding q n Suc by (simp del: replicate.simps)
      moreover from this have "file_text fs' = file_text fs @ r" by (simp only: file_text_form t) simp
      moreover have "queue_form n limit j (Some r # map Some (d # xs) @ replicate j None)"
        unfolding queue_form_def using fs(3) True n by (intro exI [of _ r] exI [of _ "d # xs"]) simp
      ultimately show ?thesis using Suc by (intro exI [of _ j]) simp
    next
      case 0
      with q fs(2) have f: "fs' = Some r # map Some (take n (d # xs)) @ replicate 0 None"
        by (simp flip: take_map)
      have "suffix (concat (rev (take n (d # xs)))) (concat (rev (d # xs)))"
        by (metis append_take_drop_id concat_append rev_append suffix_def)
      then have "suffix (file_text fs') (file_text fs @ r)"
        unfolding f file_text_form t by (auto simp: suffix_def)
      moreover have "list_all (\<lambda>x. int (length x) \<ge> limit) (take n (d # xs))"
        using fs(3) True by (auto simp: list_all_iff dest!: in_set_takeD)
      ultimately show ?thesis
        using fs(2) 0 by (intro exI [of _ 0]) (auto simp: queue_form_def f intro!: exI [of _ "take n (d # xs)"])
    qed
  qed
qed


lemma queue_run_form:
  assumes "queue_form n limit k fs"
  shows "\<exists>k'. queue_form n limit k' (queue_run n limit rs fs) \<and> k' \<le> k \<and>
    suffix (file_text (queue_run n limit rs fs)) (file_text fs @ concat rs) \<and>
    (k' = 0 \<or> file_text (queue_run n limit rs fs) = file_text fs @ concat rs)"
  using assms
proof (induction rs arbitrary: k fs)
  case (Cons r rs)
  let ?fs = "queue_write r (queue_rotate n limit fs)"
  obtain k1 where k1: "queue_form n limit k1 ?fs" "k1 \<le> k" "suffix (file_text ?fs) (file_text fs @ r)"
    "k1 = 0 \<or> file_text ?fs = file_text fs @ r"
    using queue_step_form [OF Cons.prems refl, of r] by blast
  obtain k2 where k2: "queue_form n limit k2 (queue_run n limit rs ?fs)" "k2 \<le> k1"
    "suffix (file_text (queue_run n limit rs ?fs)) (file_text ?fs @ concat rs)"
    "k2 = 0 \<or> file_text (queue_run n limit rs ?fs) = file_text ?fs @ concat rs"
    using Cons.IH [OF k1(1)] by blast
  have "suffix (file_text ?fs @ concat rs) (file_text fs @ concat (r # rs))"
    using k1(3) by (auto simp: suffix_def)
  with k2(3) have "suffix (file_text (queue_run n limit rs ?fs)) (file_text fs @ concat (r # rs))"
    by (rule suffix_order.trans)
  with k1 k2 show ?case by (intro exI [of _ k2]) auto
qed auto

lemma length_record: "length (record_of E l level filename line m) \<le> 2045"
  by (auto simp: record_of_def log_record_def log_prefix_def snprintf_def Let_def)

lemma queue_run_bound:
  assumes "\<forall>x. Some x \<in> set fs \<longrightarrow> int (length x) < limit + 2045" "0 < limit" "\<forall>r \<in> set rs. length r \<le> 2045" "fs \<noteq> []" "hd fs \<noteq> None"
  shows "\<forall>x. Some x \<in> set (queue_run n limit rs fs) \<longrightarrow> int (length x) < limit + 2045"
  using assms
proof (induction rs arbitrary: fs)
  case (Cons r rs)
  obtain d gs where fs: "fs = Some d # gs" using Cons.prems(4,5) by (cases fs) auto
  have "int (length x) < limit + 2045" if "Some x \<in> set (queue_write r (queue_rotate n limit fs))" for x
    using that Cons.prems(1-3) unfolding fs queue_write_def queue_rotate_def
    by (auto split: if_splits dest!: in_set_takeD)
  with Cons.IH [of "queue_write r (queue_rotate n limit fs)"] Cons.prems(2,3) show ?case
    by (simp add: queue_write_def)
qed simp

text \<open>C32: The files of a logger that started with one file, smaller than the limit plus a record of the
  maximal length (2045 bytes), hold the end of everything that was logged (by the process that created it, while \<open>open\<close> and \<open>dup2\<close>
  succeed). Nothing is lost before all \<open>rotate_num\<close> older files exist and each of them has reached the size
  limit; and no file ever exceeds the limit by a record of the maximal length or more.\<close>

theorem logger_keeps_latest:
  assumes "log_ok l w" "calls_ok l cs" "log_files l w = Some d # replicate (nat (lg_rotate_num l)) None"
    and "int (length d) < lg_file_size l + 2045"
  shows "\<exists>l' w'. log_run cs l w = Ret (l', w') \<and>
    suffix (file_text (log_files l' w')) (d @ concat (records_of l cs)) \<and>
    (file_text (log_files l' w') = d @ concat (records_of l cs) \<or>
     (\<exists>newest older. log_files l' w' = Some newest # map Some older \<and> length older = nat (lg_rotate_num l) \<and>
        list_all (\<lambda>x. int (length x) \<ge> lg_file_size l) older)) \<and>
    (\<forall>x. Some x \<in> set (log_files l' w') \<longrightarrow> int (length x) < lg_file_size l + 2045)"
proof -
  let ?n = "nat (lg_rotate_num l)" and ?q = "queue_run (nat (lg_rotate_num l)) (lg_file_size l) (records_of l cs) (log_files l w)"
  obtain l' w' where run: "log_run cs l w = Ret (l', w')" "log_files l' w' = ?q"
    using log_run_refines [OF assms(1,2)] by blast
  have pos: "0 < lg_file_size l" "0 \<le> lg_rotate_num l" using assms(1) by (simp_all add: log_ok_def logs_def rotates_def)
  have "queue_form ?n (lg_file_size l) ?n (log_files l w)"
    unfolding assms(3) queue_form_def by (intro exI [of _ d] exI [of _ "[]"]) simp
  moreover have "file_text (log_files l w) = d"
    using file_text_form [of d "[]" ?n] by (simp add: assms(3))
  ultimately obtain k where k: "queue_form ?n (lg_file_size l) k ?q" "suffix (file_text ?q) (d @ concat (records_of l cs))"
    "k = 0 \<or> file_text ?q = d @ concat (records_of l cs)"
    using queue_run_form [of ?n "lg_file_size l" ?n "log_files l w" "records_of l cs"] by auto
  have "\<exists>d xs. ?q = Some d # map Some xs \<and> length xs = ?n \<and> list_all (\<lambda>x. int (length x) \<ge> lg_file_size l) xs" if "k = 0"
    using k(1) that unfolding queue_form_def by simp
  moreover have "\<forall>x. Some x \<in> set ?q \<longrightarrow> int (length x) < lg_file_size l + 2045"
    by (rule queue_run_bound) (use assms(3,4) pos in \<open>auto simp: records_of_def length_record\<close>)
  ultimately show ?thesis using run k(2,3) by auto
qed

text \<open>When the file cannot be opened again at a rotation, the logger drops the record and every later
  one, although it is still initialised.\<close>

theorem logger_never_reopens:
  assumes "log_ok l w" "le_open E < 0" "le_getpid E = lg_pid l" "IsTooLarge l w" "0 \<le> level" "level \<le> lg_log_level l"
    and "list_all (\<lambda>(E', level', _). le_getpid E' = lg_pid l \<and> 0 \<le> level') cs"
  shows "\<exists>l' w'. LogV E level filename line (Some m) l w = Ret (l', w') \<and> IsInit_logger l' \<and>
    log_run cs l' w' = Ret (l', w')"
proof -
  have ok: "IsInit_logger l" "lg_fd l \<ge> 0" "lg_log_level l \<le> 7"
    using assms(1) by (simp_all add: log_ok_def logs_def file_open_def)
  let ?l = "l\<lparr>lg_fd := -1\<rparr>"
  obtain v where v: "CheckRotateInternal E l w = (?l, v)"
    using assms(2-4) ok(2) by (auto simp: CheckRotateInternal_def CheckFork_def CloseFile_def OpenFile_def Let_def)
  have init: "IsInit_logger ?l" using ok(1) by (simp add: IsInit_logger_def)
  have "LogV E' lv fn ln (Some m') ?l v = Ret (?l, v)" if "le_getpid E' = lg_pid l" "0 \<le> lv" for E' lv fn ln m'
    using that ok init
    by (auto simp: LogV_def CheckRotateInternal_def CheckFork_def IsTooLarge_def Let_def log_level_str_def)
  then have "log_run cs ?l v = Ret (?l, v)"
    using assms(7) by (induction cs) auto
  moreover have "LogV E level filename line (Some m) l w = Ret (?l, v)"
    using assms(5,6) ok by (simp add: LogV_def v Let_def log_level_str_def)
  ultimately show ?thesis using init by blast
qed


section \<open>Concrete runs\<close>

definition demo_os :: os where
  "demo_os = \<lparr>os_dir = (\<lambda>_. None), os_data = (\<lambda>_. ''''), os_next_ino = 0, os_fd = (\<lambda>_. None),
     os_ofd = (\<lambda>_. (0, 0)), os_next_ofd = 0\<rparr>"

definition demo_log_env :: log_env where
  "demo_log_env = \<lparr>le_open = 3, le_dup2 = True, le_getpid = 77, le_ctime = ''T'' @ [CHR 0x0A]\<rparr>"

definition demo_log_init :: log_init_env where
  "demo_log_init = \<lparr>li_dup = -1, li_getfd = 0, li_setfd = 0, li_mutexattr_settype = 0, li_mutex_init = 0\<rparr>"

definition demo_logger :: RotateLogger where
  "demo_logger = fst (snd (Init_logger demo_log_init demo_log_env ''prog'' ''log'' 10 2 6 False (new_RotateLogger 77) demo_os))"

definition demo_disk :: os where
  "demo_disk = snd (snd (Init_logger demo_log_init demo_log_env ''prog'' ''log'' 10 2 6 False (new_RotateLogger 77) demo_os))"

definition demo_call :: log_call where
  "demo_call = (demo_log_env, 3, ''a.cc'', 1, ''hello'')"

lemmas demo_log_defs = demo_logger_def demo_disk_def Init_logger_def OpenFile_def sys_open_def sys_seek_end_def Let_def
  demo_log_init_def demo_log_env_def demo_os_def new_RotateLogger_def IsInit_logger_def clamp_level_def c_str_def flag_on_def

lemma demo_logger_fields:
  "lg_base_name demo_logger = ''log''" "lg_rotate_num demo_logger = 2" "lg_file_size demo_logger = 10"
  "lg_log_level demo_logger = 6" "lg_fd demo_logger = 3" "lg_pid demo_logger = 77" "lg_flags demo_logger = 1"
  by (simp_all add: demo_log_defs)

lemma demo_disk_fields:
  "os_dir demo_disk = (\<lambda>_. None)(''log'' := Some 0)" "os_data demo_disk 0 = ''''" "os_fd demo_disk 3 = Some 0"
  "os_ofd demo_disk 0 = (0, 0)" "os_next_ino demo_disk = 1"
  by (simp_all add: demo_log_defs)

lemma demo_log_names: "log_name demo_logger 0 = ''log''" "log_name demo_logger (Suc i) \<noteq> ''log''"
proof -
  show "log_name demo_logger 0 = ''log''"
    by (simp add: log_name_def demo_logger_fields log_file_name_def snprintf_def c_str_def)
  have "length (log_name demo_logger (Suc i)) > 3"
    by (simp add: log_name_def demo_logger_fields log_file_name_def snprintf_def c_str_def)
  then show "log_name demo_logger (Suc i) \<noteq> ''log''" by auto
qed

lemma demo_log_ok: "log_ok demo_logger demo_disk"
proof -
  have "logs demo_logger"
    by (simp add: logs_def IsInit_logger_def rotates_def base_fits_def demo_logger_fields c_str_def flag_on_def)
  moreover have "file_open demo_logger demo_disk"
    by (simp add: file_open_def demo_logger_fields demo_disk_fields demo_log_names)
  moreover have "i = j" if "os_dir demo_disk (log_name demo_logger i) = os_dir demo_disk (log_name demo_logger j)"
    "os_dir demo_disk (log_name demo_logger i) \<noteq> None" for i j
    using that by (cases i; cases j) (simp_all add: demo_disk_fields demo_log_names split: if_splits)
  ultimately show ?thesis
    by (auto simp: log_ok_def files_ok_def demo_disk_fields split: if_splits)
qed

lemma demo_log_files: "log_files demo_logger demo_disk = Some '''' # replicate (nat (lg_rotate_num demo_logger)) None"
  by (simp add: log_files_Cons demo_logger_fields demo_disk_fields demo_log_names upt_rec numeral_2_eq_2)

lemma demo_calls_ok: "calls_ok demo_logger [demo_call, demo_call]"
  by (simp add: calls_ok_def demo_call_def env_ok_def demo_log_env_def demo_logger_fields)

lemma demo_line: "dec_int 1 = ''1''"
  by (simp add: dec_int_def dec_nat.simps [of "Suc 0"] char_of_eq_iff)

lemma demo_prog: "lg_prog_name demo_logger = ''prog''"
  by (simp add: demo_log_defs)

lemma demo_records: "records_of demo_logger [demo_call, demo_call] =
    [''[T][prog][ERR][a.cc:1]: hello'' @ [CHR 0x0A], ''[T][prog][ERR][a.cc:1]: hello'' @ [CHR 0x0A]]"
  by (simp add: records_of_def demo_call_def record_of_def log_record_def log_prefix_def snprintf_def demo_logger_fields
      demo_log_env_def log_level_str_def demo_line demo_prog c_str_def Let_def)

theorem logger_refines_queue_witness:
  "\<exists>l' w'. log_run [demo_call, demo_call] demo_logger demo_disk = Ret (l', w') \<and>
     log_files l' w' = [Some (''[T][prog][ERR][a.cc:1]: hello'' @ [CHR 0x0A]), Some (''[T][prog][ERR][a.cc:1]: hello'' @ [CHR 0x0A]), None]"
  using logger_refines_queue [OF demo_log_ok demo_calls_ok]
  by (auto simp: demo_records demo_log_files demo_logger_fields queue_write_def queue_rotate_def numeral_2_eq_2)

theorem logger_keeps_latest_witness:
  "\<exists>l' w'. log_run [demo_call, demo_call] demo_logger demo_disk = Ret (l', w') \<and>
     (file_text (log_files l' w') = concat (records_of demo_logger [demo_call, demo_call]) \<or>
      (\<exists>d x y. log_files l' w' = [Some d, Some x, Some y] \<and> length x \<ge> 10 \<and> length y \<ge> 10))"
proof -
  have xs: "\<exists>d x y. fs = [Some d, Some x, Some y] \<and> length x \<ge> 10 \<and> length y \<ge> 10"
    if "\<exists>d xs. fs = Some d # map Some xs \<and> length xs = nat 2 \<and> list_all (\<lambda>x. int (length x) \<ge> 10) xs" for fs :: "string option list"
    using that by (auto simp: length_Suc_conv numeral_2_eq_2)
  obtain l' w' where r: "log_run [demo_call, demo_call] demo_logger demo_disk = Ret (l', w')"
    "file_text (log_files l' w') = concat (records_of demo_logger [demo_call, demo_call]) \<or>
     (\<exists>d xs. log_files l' w' = Some d # map Some xs \<and> length xs = nat 2 \<and> list_all (\<lambda>x. int (length x) \<ge> 10) xs)"
    using logger_keeps_latest [OF demo_log_ok demo_calls_ok demo_log_files] unfolding demo_logger_fields by auto
  from r(2) xs [of "log_files l' w'"] r(1) show ?thesis by blast
qed

definition demo_full :: os where
  "demo_full = demo_disk\<lparr>os_data := (\<lambda>_. ''0123456789''), os_ofd := (\<lambda>_. (0, 10))\<rparr>"

theorem logger_never_reopens_witness:
  "\<exists>l' w'. LogV (demo_log_env\<lparr>le_open := -1\<rparr>) 3 ''a.cc'' 1 (Some ''x'') demo_logger demo_full = Ret (l', w') \<and>
     IsInit_logger l' \<and> log_run [demo_call] l' w' = Ret (l', w')"
proof -
  have "log_ok demo_logger demo_full"
    using demo_log_ok by (simp add: log_ok_def demo_full_def files_ok_def file_open_def demo_disk_fields demo_log_names demo_logger_fields)
  moreover have "IsTooLarge demo_logger demo_full"
    by (simp add: IsTooLarge_def demo_full_def sys_tell_def demo_logger_fields demo_disk_fields)
  ultimately show ?thesis
    using logger_never_reopens [of demo_logger demo_full "demo_log_env\<lparr>le_open := -1\<rparr>" 3 "[demo_call]"]
    by (simp add: demo_logger_fields demo_log_env_def demo_call_def)
qed

end
