(* ===== verification/Arg_Parser.thy ===== *)
theory Arg_Parser
  imports C_Text Stsw_Defs "HOL-Library.List_Lexorder" "HOL-Library.Char_ord"
begin

text \<open>
  The command line parser (\<open>libstreamswitch/src/stsw_arg_parser.cc\<close>).

  The library function \<open>getopt_long\<close> is a parameter: from the option string, the table of long options and
  the arguments it gives the sequence of its results before it returns -1, with the value of \<open>optind\<close>
  after each of them, and the arguments that are left then. The global variables \<open>opterr\<close> and \<open>optind\<close> are
  state. An option handler of the application is a parameter, too: a function that may change the
  parser. What \<open>ParseUnknown\<close> prints is left out.
\<close>

unbundle bit_operations_syntax

section \<open>State\<close>

abbreviation (input) OPTION_FLAG_WITH_ARG :: u32 where "OPTION_FLAG_WITH_ARG \<equiv> 1"
abbreviation (input) OPTION_FLAG_OPTIONAL_ARG :: u32 where "OPTION_FLAG_OPTIONAL_ARG \<equiv> 2"
abbreviation (input) OPTION_FLAG_REQUIRED :: u32 where "OPTION_FLAG_REQUIRED \<equiv> 4"
abbreviation (input) OPTION_FLAG_LONG :: u32 where "OPTION_FLAG_LONG \<equiv> 8"
abbreviation (input) OPTION_FLAG_PREFER :: u32 where "OPTION_FLAG_PREFER \<equiv> 0x10"

record ArgParserOptionsEntry =
  oe_opt_name :: string
  oe_opt_key :: int
  oe_flags :: u32
  oe_value_name :: string
  oe_help_info :: string
  oe_user_parse_handler :: "nat option"
  oe_user_data :: nat

record ArgParser =
  ap_option_reg_map :: "(int, ArgParserOptionsEntry) omap"
  ap_options :: "(string, string) omap"
  ap_non_options :: "string list"
  ap_next_option_key :: int

definition new_ArgParser :: ArgParser where
  "new_ArgParser = \<lparr>ap_option_reg_map = [], ap_options = [], ap_non_options = [], ap_next_option_key = 1024\<rparr>"

definition is_long :: "string \<Rightarrow> bool" where
  "is_long str \<longleftrightarrow> snd (strtol0 str) = []"

section \<open>Registration\<close>

definition getNextOptionKey :: "ArgParser \<Rightarrow> int \<times> ArgParser" where
  "getNextOptionKey p = (ap_next_option_key p, p\<lparr>ap_next_option_key := ap_next_option_key p + 1\<rparr>)"

text \<open>\<open>opt_short\<close> is the value of a \<open>char\<close>.\<close>

definition RegisterOption ::
  "string option \<Rightarrow> int \<Rightarrow> u32 \<Rightarrow> string option \<Rightarrow> string option \<Rightarrow> nat option \<Rightarrow> nat \<Rightarrow> ArgParser \<Rightarrow> int \<times> ArgParser" where
  "RegisterOption opt_name opt_short flags value_name help_info user_parse_handler user_data p =
     (if opt_short > 127 then (ERROR_CODE_PARAM, p)
      else if opt_short = of_char CHR ''?'' then (ERROR_CODE_PARAM, p)
      else case opt_name of
        None \<Rightarrow> (ERROR_CODE_PARAM, p)
      | Some name \<Rightarrow>
          let (key, p1) = (if opt_short \<noteq> 0 then (opt_short, p) else getNextOptionKey p);
              entry = \<lparr>oe_opt_name = name, oe_opt_key = key, oe_flags = flags,
                oe_value_name = (case value_name of None \<Rightarrow> '''' | Some v \<Rightarrow> v),
                oe_help_info = (case help_info of None \<Rightarrow> '''' | Some h \<Rightarrow> h),
                oe_user_parse_handler = user_parse_handler, oe_user_data = user_data\<rparr>
          in (0, p1\<lparr>ap_option_reg_map := omap_put key entry (ap_option_reg_map p1)\<rparr>))"

definition UnregisterOption :: "string \<Rightarrow> ArgParser \<Rightarrow> ArgParser" where
  "UnregisterOption opt_name p =
     p\<lparr>ap_option_reg_map := filter (\<lambda>(k, e). oe_opt_name e \<noteq> opt_name) (ap_option_reg_map p)\<rparr>"

definition UnregisterAllOption :: "ArgParser \<Rightarrow> ArgParser" where
  "UnregisterAllOption p = p\<lparr>ap_option_reg_map := [], ap_next_option_key := 1024\<rparr>"

definition Clear :: "ArgParser \<Rightarrow> ArgParser" where
  "Clear p = p\<lparr>ap_options := [], ap_non_options := []\<rparr>"

definition reg :: "string \<Rightarrow> int \<Rightarrow> u32 \<Rightarrow> string option \<Rightarrow> string \<Rightarrow> ArgParser \<Rightarrow> ArgParser" where
  "reg name short flags value_name help p = snd (RegisterOption (Some name) short flags value_name (Some help) None 0 p)"

definition RegisterBasicOptions :: "ArgParser \<Rightarrow> ArgParser" where
  "RegisterBasicOptions p =
     reg ''version'' (of_char CHR ''v'') OPTION_FLAG_PREFER None ''print version''
      (reg ''help'' (of_char CHR ''h'') OPTION_FLAG_PREFER None ''print help info'' p)"

definition log_options :: "ArgParser \<Rightarrow> ArgParser" where
  "log_options p =
     reg ''log-level'' 0 (OPTION_FLAG_WITH_ARG OR OPTION_FLAG_LONG) (Some ''NUM'')
       ''log level, compatible with syslog's log level number. By default, it's LOG_INFO(6)''
      (reg ''log-rotate'' (of_char CHR ''r'') (OPTION_FLAG_WITH_ARG OR OPTION_FLAG_LONG) (Some ''NUM'')
        ''log rotate number, 0 means no rotating, default is 0''
      (reg ''log-size'' (of_char CHR ''L'') (OPTION_FLAG_WITH_ARG OR OPTION_FLAG_LONG) (Some ''SIZE'')
        ''log file max size in bytes''
      (reg ''log-file'' (of_char CHR ''l'') OPTION_FLAG_WITH_ARG (Some ''FILE'')
        ''log file path for debug, default is no log'' p)))"

definition RegisterSourceOptions :: "ArgParser \<Rightarrow> ArgParser" where
  "RegisterSourceOptions p =
     reg ''url'' (of_char CHR ''u'') (OPTION_FLAG_REQUIRED OR OPTION_FLAG_WITH_ARG) (Some ''URL'')
       ''the url which source would connect to''
      (reg ''queue-size'' (of_char CHR ''q'') (OPTION_FLAG_WITH_ARG OR OPTION_FLAG_LONG) (Some ''NUM'')
        ''the size of the message queue for Pub/Sub, 0 means no limit.Default is an internal value determined when compiling''
      (log_options
      (reg ''port'' (of_char CHR ''p'') (OPTION_FLAG_WITH_ARG OR OPTION_FLAG_LONG) (Some ''PORT'')
        ''the stream API tcp port''
      (reg ''stream-name'' (of_char CHR ''s'') (OPTION_FLAG_REQUIRED OR OPTION_FLAG_WITH_ARG) (Some ''STREAM'')
        ''stream name'' p))))"

definition RegisterSenderOptions :: "ArgParser \<Rightarrow> ArgParser" where
  "RegisterSenderOptions p =
     reg ''format'' (of_char CHR ''f'') OPTION_FLAG_WITH_ARG (Some ''NAME'')
       ''the dest file format, if this option is absent, the sender would guess the format''
      (reg ''url'' (of_char CHR ''u'') (OPTION_FLAG_REQUIRED OR OPTION_FLAG_WITH_ARG) (Some ''URL'')
        ''the url of the dest file which the sender send to''
      (reg ''queue-size'' (of_char CHR ''q'') (OPTION_FLAG_WITH_ARG OR OPTION_FLAG_LONG) (Some ''NUM'')
        ''the size of the message queue for Subscriber, 0 means no limit.Default is an internal value determined when compiling''
      (log_options
      (reg ''port'' (of_char CHR ''p'') (OPTION_FLAG_WITH_ARG OR OPTION_FLAG_LONG) (Some ''PORT'')
        ''tcp port of the remote stream, if the sender want read from a remote stream, this option should be used to set the remote tcp port of this stream''
      (reg ''host'' (of_char CHR ''H'') OPTION_FLAG_WITH_ARG (Some ''HOSTADDR'')
        ''host IP address of the remote stream, if the sender want to read from a remote stream, this option should be used to set the remote host address of this stream''
      (reg ''stream-name'' (of_char CHR ''s'') OPTION_FLAG_WITH_ARG (Some ''STREAM'')
        ''local stream name, if the sender want to read froma local stream, this option should be used to set the name of the stream'' p))))))"

section \<open>Help\<close>

definition spaces :: "nat \<Rightarrow> string" where "spaces n = replicate n CHR '' ''"

text \<open>The loop over the text; after a break the next character is copied without a test, so a text that
  ends with the space of a break gets the terminating NUL.\<close>

fun help_wrap :: "int \<Rightarrow> string \<Rightarrow> string" where
  "help_wrap col [] = []"
| "help_wrap col (c # cs) =
     (if col \<ge> 70 \<and> c = CHR '' '' then
        c # CHR 0x0A # spaces 30 @ (case cs of [] \<Rightarrow> [CHR 0x00] | d # ds \<Rightarrow> d # help_wrap 31 ds)
      else c # help_wrap (col + 1) cs)"

definition option_head :: "ArgParserOptionsEntry \<Rightarrow> string" where
  "option_head e =
     (if oe_opt_key e < 128 \<and> oe_opt_key e > 0 then ''  -'' @ [char_of (oe_opt_key e), CHR '','']
      else ''     '') @ '' --'' @ oe_opt_name e @
     (if flag_on (oe_flags e) OPTION_FLAG_OPTIONAL_ARG then ''[='' @ oe_value_name e @ '']''
      else if flag_on (oe_flags e) OPTION_FLAG_WITH_ARG then ''='' @ oe_value_name e
      else '''')"

definition option_help :: "ArgParserOptionsEntry \<Rightarrow> string" where
  "option_help e =
     (let h = option_head e
      in (if length h < 30 then h @ spaces (30 - length h) else h @ CHR 0x0A # spaces 30) @
         help_wrap 30 (oe_help_info e) @ [CHR 0x0A])"

definition GetOptionsHelp :: "ArgParser \<Rightarrow> string" where
  "GetOptionsHelp p = concat (map (\<lambda>(k, e). option_help e) (ap_option_reg_map p))"

section \<open>Parsing\<close>

datatype getopt_result = Getopt_Unknown | Getopt_Option int "string option"

record getopt_globals =
  g_opterr :: int
  g_optind :: int

definition has_arg :: "ArgParserOptionsEntry \<Rightarrow> int" where
  "has_arg e =
     (if flag_on (oe_flags e) OPTION_FLAG_OPTIONAL_ARG then 2
      else if flag_on (oe_flags e) OPTION_FLAG_WITH_ARG then 1 else 0)"

definition longopts :: "ArgParser \<Rightarrow> (string \<times> int \<times> int) list" where
  "longopts p = map (\<lambda>(k, e). (c_str (oe_opt_name e), has_arg e, oe_opt_key e)) (ap_option_reg_map p)"

definition optstring :: "ArgParser \<Rightarrow> string" where
  "optstring p = concat (map (\<lambda>(k, e).
     if oe_opt_key e < 128 \<and> oe_opt_key e > 0
     then char_of (oe_opt_key e) # replicate (nat (has_arg e)) CHR '':'' else '''') (ap_option_reg_map p))"

type_synonym getopt_fun = "string \<Rightarrow> (string \<times> int \<times> int) list \<Rightarrow> string list \<Rightarrow> (getopt_result \<times> int) list \<times> string list"
type_synonym option_handler = "nat \<Rightarrow> string \<Rightarrow> string option \<Rightarrow> nat \<Rightarrow> ArgParser \<Rightarrow> ArgParser"

definition ParseOption ::
  "option_handler \<Rightarrow> string \<Rightarrow> string option \<Rightarrow> nat option \<Rightarrow> nat \<Rightarrow> ArgParser \<Rightarrow> ArgParser" where
  "ParseOption H opt_name opt_value user_parse_handler user_data p =
     (let value = (case opt_value of None \<Rightarrow> '''' | Some v \<Rightarrow> v);
          p1 = p\<lparr>ap_options := omap_put opt_name value (ap_options p)\<rparr>
      in case user_parse_handler of None \<Rightarrow> p1 | Some h \<Rightarrow> H h opt_name opt_value user_data p1)"

definition ParseNonOption :: "string \<Rightarrow> ArgParser \<Rightarrow> ArgParser" where
  "ParseNonOption value p = p\<lparr>ap_non_options := ap_non_options p @ [value]\<rparr>"

definition CheckOption :: "string \<Rightarrow> ArgParser \<Rightarrow> bool" where
  "CheckOption opt_name p = (case omap_find (ap_options p) opt_name of None \<Rightarrow> False | Some _ \<Rightarrow> True)"

definition OptionValue :: "string \<Rightarrow> string \<Rightarrow> ArgParser \<Rightarrow> string" where
  "OptionValue opt_name default_value p =
     (case omap_find (ap_options p) opt_name of None \<Rightarrow> default_value | Some v \<Rightarrow> v)"

text \<open>The parse loop: \<open>Inl\<close> is the jump to \<open>error_out\<close> with the name of the option.\<close>

definition opt_value :: "ArgParserOptionsEntry \<Rightarrow> string option \<Rightarrow> string option" where
  "opt_value e optarg =
     (if flag_on (oe_flags e) OPTION_FLAG_OPTIONAL_ARG then optarg
      else if flag_on (oe_flags e) OPTION_FLAG_WITH_ARG then optarg else None)"

fun parse_loop ::
  "option_handler \<Rightarrow> (getopt_result \<times> int) list \<Rightarrow> bool \<Rightarrow> ArgParser \<Rightarrow> (string \<times> int \<times> ArgParser) + (bool \<times> ArgParser)" where
  "parse_loop H [] need p = Inr (need, p)"
| "parse_loop H ((Getopt_Unknown, ind) # rs) need p = parse_loop H rs need p"
| "parse_loop H ((Getopt_Option opt optarg, ind) # rs) need p =
     (case omap_find (ap_option_reg_map p) opt of
        None \<Rightarrow> parse_loop H rs need p
      | Some e \<Rightarrow>
          let v = opt_value e optarg
          in if flag_on (oe_flags e) OPTION_FLAG_LONG \<and> v \<noteq> None \<and> \<not> is_long (the v)
             then Inl (oe_opt_name e, ind, p)
             else parse_loop H rs (need \<and> \<not> flag_on (oe_flags e) OPTION_FLAG_PREFER)
                    (ParseOption H (oe_opt_name e) v (oe_user_parse_handler e) (oe_user_data e) p))"

fun missing_option :: "ArgParser \<Rightarrow> (int, ArgParserOptionsEntry) omap \<Rightarrow> string option" where
  "missing_option p [] = None"
| "missing_option p ((k, e) # m) =
     (if flag_on (oe_flags e) OPTION_FLAG_REQUIRED \<and> \<not> CheckOption (oe_opt_name e) p then Some (oe_opt_name e)
      else missing_option p m)"

definition Parse ::
  "getopt_fun \<Rightarrow> option_handler \<Rightarrow> string list \<Rightarrow> getopt_globals \<Rightarrow> ArgParser \<Rightarrow>
     int \<times> string option \<times> getopt_globals \<times> ArgParser" where
  "Parse getopt_long H argv g p =
     (let (results, rest) = getopt_long (optstring p) (longopts p) argv
      in case parse_loop H results True p of
           Inl (name, ind, p1) \<Rightarrow>
             (ERROR_CODE_OPTIONS, Some (''Option '' @ name @ '' Value must be a Long Number''),
              \<lparr>g_opterr = 0, g_optind = ind\<rparr>, p1)
         | Inr (need_check_required, p1) \<Rightarrow>
             let p2 = fold ParseNonOption rest p1
             in case (if need_check_required then missing_option p2 (ap_option_reg_map p2) else None) of
                  None \<Rightarrow> (0, None, g, p2)
                | Some name \<Rightarrow> (ERROR_CODE_OPTIONS, Some (''Option '' @ name @ '' must be specified''), g, p2))"


section \<open>What parsing does\<close>

text \<open>The registered options among the results of \<open>getopt_long\<close>, with their values.\<close>

definition given :: "(int, ArgParserOptionsEntry) omap \<Rightarrow> (getopt_result \<times> int) list \<Rightarrow>
    (ArgParserOptionsEntry \<times> string option) list" where
  "given m rs = concat (map (\<lambda>(r, ind).
     case r of Getopt_Unknown \<Rightarrow> []
     | Getopt_Option opt optarg \<Rightarrow>
         (case omap_find m opt of None \<Rightarrow> [] | Some e \<Rightarrow> [(e, opt_value e optarg)])) rs)"

definition bad_value :: "ArgParserOptionsEntry \<times> string option \<Rightarrow> bool" where
  "bad_value = (\<lambda>(e, v). flag_on (oe_flags e) OPTION_FLAG_LONG \<and> v \<noteq> None \<and> \<not> is_long (the v))"

definition stored :: "ArgParserOptionsEntry \<times> string option \<Rightarrow> string \<times> string" where
  "stored = (\<lambda>(e, v). (oe_opt_name e, case v of None \<Rightarrow> '''' | Some x \<Rightarrow> x))"

definition no_handlers :: "(int, ArgParserOptionsEntry) omap \<Rightarrow> bool" where
  "no_handlers m \<longleftrightarrow> list_all (\<lambda>(k, e). oe_user_parse_handler e = None) m"

definition put_options :: "(string \<times> string) list \<Rightarrow> ArgParser \<Rightarrow> ArgParser" where
  "put_options xs p = p\<lparr>ap_options := fold (\<lambda>(k, v). omap_put k v) xs (ap_options p)\<rparr>"

lemma no_handlers_find: "no_handlers m \<Longrightarrow> omap_find m k = Some e \<Longrightarrow> oe_user_parse_handler e = None"
  by (auto simp: no_handlers_def omap_find_map_of list_all_iff dest!: map_of_SomeD)

lemma put_options_simps [simp]:
  "put_options [] p = p" "put_options (x # xs) p = put_options xs (p\<lparr>ap_options := omap_put (fst x) (snd x) (ap_options p)\<rparr>)"
  "ap_option_reg_map (put_options xs p) = ap_option_reg_map p" "ap_non_options (put_options xs p) = ap_non_options p"
  by (simp_all add: put_options_def split: prod.splits)

lemma find_put_options: "omap_find (ap_options (put_options xs p)) = omap_find (ap_options p) ++ map_of (rev xs)"
  by (induction xs arbitrary: p) (auto simp: omap_find_put fun_eq_iff map_add_def split: option.splits)

lemma given_Cons:
  "given m ((Getopt_Unknown, ind) # rs) = given m rs"
  "given m ((Getopt_Option opt optarg, ind) # rs) =
     (case omap_find m opt of None \<Rightarrow> given m rs | Some e \<Rightarrow> (e, opt_value e optarg) # given m rs)"
  by (simp_all add: given_def split: option.splits)

lemma parse_loop_given:
  assumes "no_handlers (ap_option_reg_map p)" "omap_find (ap_option_reg_map p) opt = Some e"
  shows "parse_loop H ((Getopt_Option opt optarg, ind) # rs) need p =
    (if bad_value (e, opt_value e optarg) then Inl (oe_opt_name e, ind, p)
     else parse_loop H rs (need \<and> \<not> flag_on (oe_flags e) OPTION_FLAG_PREFER)
       (put_options [stored (e, opt_value e optarg)] p))"
  using assms(2) no_handlers_find [OF assms]
  by (cases "opt_value e optarg") (simp_all add: bad_value_def ParseOption_def stored_def Let_def)

lemma parse_loop_good:
  assumes "no_handlers (ap_option_reg_map p)" "\<not> list_ex bad_value (given (ap_option_reg_map p) rs)"
  shows "parse_loop H rs need p = Inr (need \<and> \<not> list_ex (\<lambda>(e, v). flag_on (oe_flags e) OPTION_FLAG_PREFER)
      (given (ap_option_reg_map p) rs), put_options (map stored (given (ap_option_reg_map p) rs)) p)"
  using assms
proof (induction rs arbitrary: need p)
  case (Cons r rs)
  obtain x ind where r: "r = (x, ind)" by (cases r)
  show ?case
    proof (cases x)
      case (Getopt_Option opt optarg)
      show ?thesis
      proof (cases "omap_find (ap_option_reg_map p) opt")
        case (Some e)
        then have "\<not> bad_value (e, opt_value e optarg)"
          "\<not> list_ex bad_value (given (ap_option_reg_map p) rs)"
          using Cons.prems(2) by (simp_all add: r Getopt_Option given_Cons)
        with Some Cons.IH [of "put_options [stored (e, opt_value e optarg)] p"] Cons.prems(1) show ?thesis
          by (simp add: r Getopt_Option parse_loop_given [OF Cons.prems(1) Some] given_Cons
              del: parse_loop.simps)
      qed (use Cons in \<open>simp add: r Getopt_Option given_Cons\<close>)
    qed (use Cons in \<open>simp add: r given_Cons\<close>)
qed (simp add: given_def)

lemma parse_loop_bad:
  assumes "no_handlers (ap_option_reg_map p)" "list_ex bad_value (given (ap_option_reg_map p) rs)"
  shows "\<exists>name ind q. parse_loop H rs need p = Inl (name, ind, q)"
  using assms
proof (induction rs arbitrary: need p)
  case (Cons r rs)
  obtain x ind where r: "r = (x, ind)" by (cases r)
  show ?case
  proof (cases x)
    case (Getopt_Option opt optarg)
    show ?thesis
    proof (cases "omap_find (ap_option_reg_map p) opt")
      case (Some e)
      with Cons.IH [of "put_options [stored (e, opt_value e optarg)] p"] Cons.prems show ?thesis
        by (auto simp: r Getopt_Option parse_loop_given [OF Cons.prems(1) Some] given_Cons simp del: parse_loop.simps)
    qed (use Cons in \<open>simp add: r Getopt_Option given_Cons\<close>)
  qed (use Cons in \<open>simp add: r given_Cons\<close>)
qed (simp add: given_def)

lemma fold_ParseNonOption: "fold ParseNonOption rest p = p\<lparr>ap_non_options := ap_non_options p @ rest\<rparr>"
  by (induction rest arbitrary: p) (simp_all add: ParseNonOption_def)

lemma missing_option_None:
  "missing_option p m = None \<longleftrightarrow>
     list_all (\<lambda>(k, e). flag_on (oe_flags e) OPTION_FLAG_REQUIRED \<longrightarrow> oe_opt_name e \<in> dom (omap_find (ap_options p))) m"
  by (induction p m rule: missing_option.induct) (auto simp: CheckOption_def split: option.splits)

text \<open>C35: What parsing does with a parser that has no option handlers: a malformed number is an error. Otherwise
  every given option is stored, the last value winning, the remaining arguments are appended, the
  variables of \<open>getopt\<close> are restored, and the result is success exactly if a preferred option was given
  or all required options are there.\<close>

theorem arg_parse_outcome:
  assumes "no_handlers (ap_option_reg_map p)" "getopt_long (optstring p) (longopts p) argv = (rs, rest)"
    and "Parse getopt_long H argv g p = (ret, err, g', q)"
  shows "if list_ex bad_value (given (ap_option_reg_map p) rs) then ret = ERROR_CODE_OPTIONS
    else omap_find (ap_options q) = omap_find (ap_options p) ++ map_of (rev (map stored (given (ap_option_reg_map p) rs))) \<and>
      ap_non_options q = ap_non_options p @ rest \<and> g' = g \<and>
      ret = (if list_ex (\<lambda>(e, v). flag_on (oe_flags e) OPTION_FLAG_PREFER) (given (ap_option_reg_map p) rs) \<or>
          list_all (\<lambda>(k, e). flag_on (oe_flags e) OPTION_FLAG_REQUIRED \<longrightarrow>
            oe_opt_name e \<in> dom (omap_find (ap_options q))) (ap_option_reg_map p)
        then 0 else ERROR_CODE_OPTIONS)"
proof (cases "list_ex bad_value (given (ap_option_reg_map p) rs)")
  case True
  with parse_loop_bad [OF assms(1), of rs H True] assms(2,3) show ?thesis by (auto simp: Parse_def)
next
  case False
  let ?us = "given (ap_option_reg_map p) rs"
  let ?q = "put_options (map stored ?us) p"
  let ?r = "?q\<lparr>ap_non_options := ap_non_options ?q @ rest\<rparr>"
  let ?prefer = "list_ex (\<lambda>(e, v). flag_on (oe_flags e) OPTION_FLAG_PREFER) ?us"
  have loop: "parse_loop H rs True p = Inr (\<not> ?prefer, ?q)"
    using parse_loop_good [OF assms(1) False, of H True] by simp
  have res: "q = ?r" "g' = g" "ret = (if ?prefer \<or> missing_option ?r (ap_option_reg_map p) = None then 0 else ERROR_CODE_OPTIONS)"
    using assms(2,3) by (auto simp: Parse_def loop fold_ParseNonOption Let_def split: option.splits if_splits)
  have find: "omap_find (ap_options q) = omap_find (ap_options p) ++ map_of (rev (map stored ?us))"
    by (simp add: res(1) find_put_options)
  have "missing_option ?r (ap_option_reg_map p) = None \<longleftrightarrow> list_all (\<lambda>(k, e). flag_on (oe_flags e) OPTION_FLAG_REQUIRED \<longrightarrow>
      oe_opt_name e \<in> dom (omap_find (ap_options q))) (ap_option_reg_map p)"
    unfolding missing_option_None by (simp add: res(1))
  with False res find show ?thesis by simp
qed

text \<open>A parse error leaves \<open>opterr\<close> at 0 and \<open>optind\<close> where the scan stopped.\<close>

lemma parse_error_keeps_globals:
  assumes "parse_loop H (fst (getopt_long (optstring p) (longopts p) argv)) True p = Inl (name, ind, q)"
  shows "Parse getopt_long H argv g p = (ERROR_CODE_OPTIONS, Some (''Option '' @ name @ '' Value must be a Long Number''),
    \<lparr>g_opterr = 0, g_optind = ind\<rparr>, q)"
  using assms by (cases "getopt_long (optstring p) (longopts p) argv") (simp add: Parse_def)

text \<open>An empty value is accepted as a number.\<close>

lemma empty_is_long: "is_long ''''"
  by (simp add: is_long_def strtol0_def c_sign_def)


section \<open>Concrete runs\<close>

definition demo_parser :: ArgParser where
  "demo_parser = RegisterSourceOptions (RegisterBasicOptions new_ArgParser)"

text \<open>The command line \<open>-s cam -u rtsp://h extra\<close>.\<close>

definition demo_getopt :: getopt_fun where
  "demo_getopt optstr table argv =
     ([(Getopt_Option (of_char CHR ''s'') (Some ''cam''), 3), (Getopt_Option (of_char CHR ''u'') (Some ''rtsp://h''), 5)], [''extra''])"

lemmas demo_arg_defs = demo_parser_def RegisterSourceOptions_def RegisterBasicOptions_def log_options_def reg_def
  RegisterOption_def getNextOptionKey_def new_ArgParser_def Let_def

lemma demo_parser_map:
  "no_handlers (ap_option_reg_map demo_parser)" "ap_options demo_parser = []" "ap_non_options demo_parser = []"
  "map_option oe_opt_name (omap_find (ap_option_reg_map demo_parser) 115) = Some ''stream-name''"
  "map_option oe_opt_name (omap_find (ap_option_reg_map demo_parser) 117) = Some ''url''"
  by (simp_all add: demo_arg_defs no_handlers_def)

theorem arg_parse_outcome_witness:
  "ap_non_options (snd (snd (snd (Parse demo_getopt (\<lambda>h n v u p. p) [''prog''] \<lparr>g_opterr = 1, g_optind = 1\<rparr> demo_parser)))) = [''extra''] \<and>
   fst (snd (snd (Parse demo_getopt (\<lambda>h n v u p. p) [''prog''] \<lparr>g_opterr = 1, g_optind = 1\<rparr> demo_parser))) = \<lparr>g_opterr = 1, g_optind = 1\<rparr>"
proof -
  obtain ret err g' q where q: "Parse demo_getopt (\<lambda>h n v u p. p) [''prog''] \<lparr>g_opterr = 1, g_optind = 1\<rparr> demo_parser = (ret, err, g', q)"
    by (metis prod_cases4)
  obtain e1 e2 where e: "omap_find (ap_option_reg_map demo_parser) 115 = Some e1" "\<not> flag_on (oe_flags e1) 8"
    "omap_find (ap_option_reg_map demo_parser) 117 = Some e2" "\<not> flag_on (oe_flags e2) 8"
    by (simp add: demo_arg_defs flag_on_def)
  show ?thesis
    using arg_parse_outcome [OF demo_parser_map(1) demo_getopt_def q] e
    by (simp add: q demo_parser_map(3) given_Cons given_def bad_value_def)
qed


section \<open>The help text\<close>

text \<open>Breaking the lines adds and removes no visible character.\<close>

definition visible :: "char \<Rightarrow> bool" where
  "visible c \<longleftrightarrow> c \<noteq> CHR '' '' \<and> c \<noteq> CHR 0x0A \<and> c \<noteq> CHR 0x00"

lemma help_wrap_visible: "filter visible (help_wrap col s) = filter visible s"
proof (induction s arbitrary: col rule: length_induct)
  case (1 s)
  have sp: "filter visible (spaces 30) = []" by (simp add: spaces_def visible_def)
  have nl: "\<not> visible (CHR 0x0A)" "\<not> visible (CHR 0x00)" "\<not> visible (CHR '' '')" by (simp_all add: visible_def)
  show ?case
  proof (cases s)
    case (Cons c cs)
    have IH: "filter visible (help_wrap k t) = filter visible t" if "length t \<le> length cs" for k t
      using 1 that by (simp add: Cons)
    have eq: "help_wrap col s = (if col \<ge> 70 \<and> c = CHR '' '' then
        c # CHR 0x0A # spaces 30 @ (case cs of [] \<Rightarrow> [CHR 0x00] | d # ds \<Rightarrow> d # help_wrap 31 ds)
      else c # help_wrap (col + 1) cs)"
      by (simp add: Cons)
    have "filter visible (case cs of [] \<Rightarrow> [CHR 0x00] | d # ds \<Rightarrow> d # help_wrap 31 ds) = filter visible cs"
      using nl IH by (cases cs) simp_all
    then show ?thesis using sp nl IH [of cs "col + 1"] unfolding eq by (simp add: Cons)
  qed simp
qed

end
