(* ===== verification/Bit_Reader.thy ===== *)
theory Bit_Reader
  imports Stsw_Prelude
begin

text \<open>
  The bit reader of the parameter set decoder (\<open>senders/ffmpeg_sender/src/parsers/dec_sps.cc\<close>): bytes are
  words, the memory behind a pointer is the list of the bytes from there to the end of its array, and
  an access behind the end is undefined behaviour. The machine has little-endian 32-bit \<open>int\<close> and
  64-bit \<open>unsigned long\<close>, and shifts of signed integers are those of two's complement.
\<close>

unbundle bit_operations_syntax

type_synonym u8 = "8 word"

section \<open>Reading memory\<close>

definition get_int :: "u8 list \<Rightarrow> nat \<Rightarrow> u32 cpp" where
  "get_int p i =
     (if i + 4 \<le> length p
      then Ret (ucast (p ! i) OR push_bit 8 (ucast (p ! (i + 1))) OR push_bit 16 (ucast (p ! (i + 2))) OR
                push_bit 24 (ucast (p ! (i + 3))))
      else Undef)"

definition swap32 :: "u32 \<Rightarrow> u32" where
  "swap32 x = push_bit 24 (x AND 0xFF) OR push_bit 8 (x AND 0xFF00) OR drop_bit 8 (x AND 0xFF0000) OR
     drop_bit 24 (x AND 0xFF000000)"

definition H264_unaligned32_be :: "u8 list \<Rightarrow> nat \<Rightarrow> u32 cpp" where
  "H264_unaligned32_be p i = bind_cpp (get_int p i) (\<lambda>x. Ret (swap32 x))"

section \<open>The context\<close>

record GetBitContext =
  gb_buffer :: "u8 list"
  gb_index :: nat
  gb_size_in_bits :: int

type_synonym 'a bit_reader = "GetBitContext \<Rightarrow> ('a \<times> GetBitContext) cpp"

definition bind_gb :: "'a bit_reader \<Rightarrow> ('a \<Rightarrow> 'b bit_reader) \<Rightarrow> 'b bit_reader" where
  "bind_gb m f gb = bind_cpp (m gb) (\<lambda>(x, gb1). f x gb1)"

definition return_gb :: "'a \<Rightarrow> 'a bit_reader" where
  "return_gb x gb = Ret (x, gb)"

definition re_cache :: "GetBitContext \<Rightarrow> u32 cpp" where
  "re_cache s = bind_cpp (H264_unaligned32_be (gb_buffer s) (gb_index s div 8)) (\<lambda>x. Ret (push_bit (gb_index s mod 8) x))"

text \<open>The initialisation reads the first word and drops it.\<close>

definition H264_init_get_bits :: "u8 list \<Rightarrow> int \<Rightarrow> GetBitContext cpp" where
  "H264_init_get_bits buffer bit_size =
     bind_cpp (H264_unaligned32_be buffer 0)
       (\<lambda>_. Ret \<lparr>gb_buffer = buffer, gb_index = 0, gb_size_in_bits = bit_size\<rparr>)"

definition H264_skip_bits :: "nat \<Rightarrow> unit bit_reader" where
  "H264_skip_bits n s = Ret ((), s\<lparr>gb_index := gb_index s + n\<rparr>)"

definition H264_skip_one_bits :: "unit bit_reader" where
  "H264_skip_one_bits = H264_skip_bits 1"

definition H264_get_one_bit :: "u32 bit_reader" where
  "H264_get_one_bit s =
     (if gb_index s div 8 < length (gb_buffer s) then
        let result = drop_bit 7 (push_bit (gb_index s mod 8) (gb_buffer s ! (gb_index s div 8)))
        in Ret (ucast result, s\<lparr>gb_index := gb_index s + 1\<rparr>)
      else Undef)"

text \<open>The cache is an \<open>int\<close> that is converted to a 64-bit \<open>unsigned long\<close> before the shift.\<close>

definition H264_get_bits :: "nat \<Rightarrow> u32 bit_reader" where
  "H264_get_bits n s =
     bind_cpp (re_cache s) (\<lambda>c.
       Ret (ucast (drop_bit (32 - n) (scast c :: u64)), s\<lparr>gb_index := gb_index s + n\<rparr>))"

definition get_bits_long :: "nat \<Rightarrow> u32 bit_reader" where
  "get_bits_long n =
     (if n \<le> 17 then H264_get_bits n
      else bind_gb (H264_get_bits 16) (\<lambda>hi. bind_gb (H264_get_bits (n - 16)) (\<lambda>lo.
        return_gb (push_bit (n - 16) hi OR lo))))"

section \<open>Exponential Golomb codes\<close>

definition ff_golomb_vlc_len :: "nat list" where
  "ff_golomb_vlc_len =
     [0, 9, 7, 7, 5, 5, 5, 5, 3, 3, 3, 3, 3, 3, 3, 3, 1, 1, 1, 1, 1, 1, 1, 1, 1, 1, 1, 1, 1, 1, 1, 1]"

definition ff_log2_table :: "nat list" where
  "ff_log2_table = [0, 1] @ replicate 2 2 @ replicate 4 3 @ replicate 8 4 @ replicate 16 5 @ replicate 32 6 @ replicate 64 7"

definition ff_ue_golomb_vlc_code :: "int list" where
  "ff_ue_golomb_vlc_code = replicate 16 0 @ [15, 16, 17, 18, 19, 20, 21, 22, 23, 24, 25, 26, 27, 28, 29, 30] @
     concat (map (replicate 4) [7, 8, 9, 10, 11, 12, 13, 14]) @ concat (map (replicate 16) [3, 4, 5, 6]) @
     concat (map (replicate 64) [1, 2])"

definition ff_se_golomb_vlc_code :: "int list" where
  "ff_se_golomb_vlc_code = replicate 16 0 @ [8, -8, 9, -9, 10, -10, 11, -11, 12, -12, 13, -13, 14, -14, 15, -15] @
     concat (map (replicate 4) [4, -4, 5, -5, 6, -6, 7, -7]) @ concat (map (replicate 16) [2, -2, 3, -3]) @
     concat (map (replicate 64) [1, -1])"

definition H264_av_log2 :: "u32 \<Rightarrow> nat" where
  "H264_av_log2 v =
     (if v AND 0xffff0000 \<noteq> 0 then
        let v1 = drop_bit 16 v
        in if v1 AND 0xff00 \<noteq> 0 then 24 + ff_log2_table ! unat (drop_bit 1 (drop_bit 8 v1))
           else 16 + ff_log2_table ! unat (drop_bit 1 v1)
      else if v AND 0xff00 \<noteq> 0 then 8 + ff_log2_table ! unat (drop_bit 1 (drop_bit 8 v))
      else ff_log2_table ! unat (drop_bit 1 v))"

text \<open>A code of more than 31 bits makes the shift count negative: undefined behaviour.\<close>

definition H264_get_ue_golomb :: "int bit_reader" where
  "H264_get_ue_golomb gb =
     bind_cpp (re_cache gb) (\<lambda>buf.
       if buf \<ge> 0x08000000 then
         let b = unat (drop_bit 23 buf)
         in Ret (if b < 256 then ff_ue_golomb_vlc_code ! b else 0,
                 gb\<lparr>gb_index := gb_index gb + ff_golomb_vlc_len ! (b div 16)\<rparr>)
       else if 2 * H264_av_log2 buf < 31 then Undef
       else
         let log = 2 * H264_av_log2 buf - 31
         in Ret (sint (drop_bit log buf - 1), gb\<lparr>gb_index := gb_index gb + (32 - log)\<rparr>))"

definition H264_get_se_golomb :: "int bit_reader" where
  "H264_get_se_golomb gb =
     bind_cpp (re_cache gb) (\<lambda>buf.
       if buf \<ge> 0x08000000 then
         let b = unat (drop_bit 23 buf)
         in Ret (if b < 256 then ff_se_golomb_vlc_code ! b else 0,
                 gb\<lparr>gb_index := gb_index gb + ff_golomb_vlc_len ! (b div 16)\<rparr>)
       else if 2 * H264_av_log2 buf < 31 then Undef
       else
         let log = 2 * H264_av_log2 buf - 31;
             b = drop_bit log buf
         in Ret (sint (if b AND 1 \<noteq> 0 then - drop_bit 1 b else drop_bit 1 b),
                 gb\<lparr>gb_index := gb_index gb + (32 - log)\<rparr>))"

end
