(* ===== verification/Sps_Decoder.thy ===== *)
theory Sps_Decoder
  imports Bit_Reader
begin

text \<open>
  The search for the picture size in the codec configuration of H.264 and H.265
  (\<open>senders/ffmpeg_sender/src/parsers/dec_sps.cc\<close>, \<open>remove_0x03\<close>, \<open>H264_Analyse\<close> and \<open>H265_Analyse\<close>).
  The array \<open>sps_nal\<close> is a local variable without an initialiser: what it holds at the start is the
  parameter \<open>junk\<close> of 512 bytes. The decoded numbers have at most 16 bits, so that the arithmetic of
  \<open>int\<close> on them does not overflow.
\<close>

section \<open>Removing the emulation prevention bytes\<close>

text \<open>The bytes that \<open>remove_0x03\<close> writes to \<open>dst\<close> for \<open>size\<close> bytes from \<open>src\<close>; their number is the
  result of the function.\<close>

fun remove_0x03 :: "u8 list \<Rightarrow> nat \<Rightarrow> u8 list cpp" where
  "remove_0x03 (a # b # c # r) k =
     (if k \<le> 2 then Ret []
      else if a = 0 \<and> b = 0 \<and> c = 3 then bind_cpp (remove_0x03 r (k - 3)) (\<lambda>d. Ret (a # b # d))
      else bind_cpp (remove_0x03 (b # c # r) (k - 1)) (\<lambda>d. Ret (a # d)))"
| "remove_0x03 _ k = (if k \<le> 2 then Ret [] else Undef)"

text \<open>Overwriting the first bytes of an array.\<close>

definition store_bytes :: "u8 list \<Rightarrow> u8 list \<Rightarrow> u8 list" where
  "store_bytes dst bytes = bytes @ drop (length bytes) dst"

section \<open>The sequence parameter set of H.264\<close>

record sps_out =
  so_width :: int
  so_height :: int
  so_framerate :: int

primrec repeat_gb :: "nat \<Rightarrow> 'a bit_reader \<Rightarrow> unit bit_reader" where
  "repeat_gb 0 rd = return_gb ()"
| "repeat_gb (Suc n) rd = bind_gb rd (\<lambda>_. repeat_gb n rd)"

primrec scaling_list :: "nat \<Rightarrow> int \<Rightarrow> int \<Rightarrow> unit bit_reader" where
  "scaling_list 0 lst nxt = return_gb ()"
| "scaling_list (Suc j) lst nxt =
     bind_gb (if nxt \<noteq> 0 then bind_gb H264_get_se_golomb (\<lambda>d. return_gb ((lst + d) mod 256)) else return_gb nxt)
       (\<lambda>nxt1. scaling_list j (if nxt1 \<noteq> 0 then nxt1 else lst) nxt1)"

primrec scaling_matrix :: "nat list \<Rightarrow> unit bit_reader" where
  "scaling_matrix [] = return_gb ()"
| "scaling_matrix (idx # idxs) =
     bind_gb (H264_get_bits 1) (\<lambda>scal_list.
     bind_gb (if scal_list \<noteq> 0 then scaling_list (if idx \<ge> 6 then 64 else 16) 8 8 else return_gb ()) (\<lambda>_.
     scaling_matrix idxs))"

definition sps_high_profile :: "unit bit_reader" where
  "sps_high_profile =
     bind_gb H264_get_ue_golomb (\<lambda>_.
     bind_gb H264_get_ue_golomb (\<lambda>_.
     bind_gb H264_get_ue_golomb (\<lambda>_.
     bind_gb (H264_skip_bits 1) (\<lambda>_.
     bind_gb (H264_get_bits 1) (\<lambda>seq_scaling_matrix_present_flag.
     if seq_scaling_matrix_present_flag \<noteq> 0 then scaling_matrix [0..<8] else return_gb ())))))"

definition sps_poc :: "int bit_reader" where
  "sps_poc =
     bind_gb H264_get_ue_golomb (\<lambda>poc_type.
     bind_gb
       (if poc_type = 0 then bind_gb H264_get_ue_golomb (\<lambda>_. return_gb ())
        else if poc_type = 1 then
          bind_gb H264_skip_one_bits (\<lambda>_.
          bind_gb H264_get_se_golomb (\<lambda>_.
          bind_gb H264_get_se_golomb (\<lambda>_.
          bind_gb H264_get_ue_golomb (\<lambda>poc_cycle_length.
          repeat_gb (nat poc_cycle_length) H264_get_se_golomb))))
        else return_gb ())
       (\<lambda>_. return_gb poc_type))"

definition sps_crop :: "(int \<times> int \<times> int \<times> int) bit_reader" where
  "sps_crop =
     bind_gb H264_get_one_bit (\<lambda>flag_b.
     if flag_b \<noteq> 0 then
       bind_gb H264_get_ue_golomb (\<lambda>crop_left.
       bind_gb H264_get_ue_golomb (\<lambda>crop_right.
       bind_gb H264_get_ue_golomb (\<lambda>crop_top.
       bind_gb H264_get_ue_golomb (\<lambda>crop_bottom.
       return_gb (crop_left, crop_right, crop_top, crop_bottom)))))
     else return_gb (0, 0, 0, 0))"

text \<open>The usability information. The division truncates; \<open>2 * num_units_in_tick\<close> may overflow.\<close>

definition frame_rate :: "u32 \<Rightarrow> u32 \<Rightarrow> int \<Rightarrow> int cpp" where
  "frame_rate num_units_in_tick timeScale framerate =
     (let d = 2 * sint num_units_in_tick; t = sint timeScale
      in if num_units_in_tick = 0 then Ret framerate
         else if - (2 ^ 31) \<le> d \<and> d < 2 ^ 31 then Ret (sgn t * sgn d * (\<bar>t\<bar> div \<bar>d\<bar>)) else Undef)"

definition if_bit :: "'a bit_reader \<Rightarrow> unit bit_reader" where
  "if_bit rd = bind_gb H264_get_one_bit (\<lambda>b. if b \<noteq> 0 then bind_gb rd (\<lambda>_. return_gb ()) else return_gb ())"

definition sps_vui :: "int \<Rightarrow> int bit_reader" where
  "sps_vui framerate =
     bind_gb (if_bit (bind_gb (H264_get_bits 8) (\<lambda>tmp. if sint tmp = 255 then H264_skip_bits 32 else return_gb ()))) (\<lambda>_.
     bind_gb (if_bit H264_skip_one_bits) (\<lambda>_.
     bind_gb (if_bit (bind_gb (H264_skip_bits 3) (\<lambda>_. bind_gb H264_skip_one_bits (\<lambda>_.
       if_bit (bind_gb (H264_skip_bits 8) (\<lambda>_. bind_gb (H264_skip_bits 8) (\<lambda>_. H264_skip_bits 8))))))) (\<lambda>_.
     bind_gb (if_bit (bind_gb H264_get_ue_golomb (\<lambda>_. H264_get_ue_golomb))) (\<lambda>_.
     bind_gb H264_get_one_bit (\<lambda>timing.
     if timing \<noteq> 0 then
       bind_gb (get_bits_long 32) (\<lambda>num_units_in_tick.
       bind_gb (get_bits_long 32) (\<lambda>timeScale gb.
         bind_cpp (frame_rate num_units_in_tick timeScale framerate) (\<lambda>r. Ret (r, gb))))
     else return_gb framerate)))))"

text \<open>The picture size, the cropping and what follows them.\<close>

definition h264_frame :: "sps_out \<Rightarrow> (int \<times> sps_out) bit_reader" where
  "h264_frame out =
     bind_gb H264_get_ue_golomb (\<lambda>_.
     bind_gb H264_skip_one_bits (\<lambda>_.
     bind_gb H264_get_ue_golomb (\<lambda>w.
     bind_gb H264_get_ue_golomb (\<lambda>h.
     bind_gb H264_get_one_bit (\<lambda>flag_a.
     bind_gb (if flag_a = 0 then H264_skip_one_bits else return_gb ()) (\<lambda>_.
     bind_gb H264_skip_one_bits (\<lambda>_.
     bind_gb sps_crop (\<lambda>(crop_left, crop_right, crop_top, crop_bottom).
     bind_gb H264_get_one_bit (\<lambda>vui.
     bind_gb (if vui \<noteq> 0 then sps_vui (so_framerate out) else return_gb (so_framerate out)) (\<lambda>framerate.
     return_gb (1, \<lparr>so_width = 16 * (w + 1) - 2 * (crop_left + crop_right),
       so_height = (if flag_a \<noteq> 0 then 16 * (h + 1) - 2 * (crop_top + crop_bottom)
                    else 16 * (h + 1) - 4 * (crop_top + crop_bottom)),
       so_framerate = framerate\<rparr>)))))))))))"

text \<open>The function after the initialisation of the reader; the first component is the returned value.\<close>

definition h264_sps :: "sps_out \<Rightarrow> (int \<times> sps_out) bit_reader" where
  "h264_sps out =
     bind_gb (H264_get_bits 8) (\<lambda>profile.
     bind_gb (H264_skip_bits 16) (\<lambda>_.
     bind_gb H264_get_ue_golomb (\<lambda>_.
     bind_gb (if profile \<ge> 100 then sps_high_profile else return_gb ()) (\<lambda>_.
     bind_gb H264_get_ue_golomb (\<lambda>_.
     bind_gb sps_poc (\<lambda>poc_type.
     if poc_type > 2 then return_gb (-1, out) else h264_frame out))))))"

definition run_sps :: "(sps_out \<Rightarrow> (int \<times> sps_out) bit_reader) \<Rightarrow> nat \<Rightarrow> u8 list \<Rightarrow> u8 list \<Rightarrow> nat \<Rightarrow> sps_out \<Rightarrow> (int \<times> sps_out) cpp" where
  "run_sps body hdr junk pBuf nSize out =
     bind_cpp (remove_0x03 pBuf (min nSize 512)) (\<lambda>bytes.
     bind_cpp (H264_init_get_bits (drop hdr (store_bytes junk bytes)) (int (length bytes) - int hdr)) (\<lambda>gb.
     bind_cpp (body out gb) (\<lambda>(r, _). Ret r)))"

definition H264_Analyse :: "u8 list \<Rightarrow> u8 list \<Rightarrow> nat \<Rightarrow> sps_out \<Rightarrow> (int \<times> sps_out) cpp" where
  "H264_Analyse = run_sps h264_sps 4"

section \<open>The sequence parameter set of H.265\<close>

definition h265_sps :: "sps_out \<Rightarrow> (int \<times> sps_out) bit_reader" where
  "h265_sps out =
     bind_gb (H264_skip_bits (8 + 8 + 32 + 4 + 32 + 20)) (\<lambda>_.
     bind_gb H264_get_ue_golomb (\<lambda>_.
     bind_gb H264_get_ue_golomb (\<lambda>_.
     bind_gb H264_get_ue_golomb (\<lambda>width.
     bind_gb H264_get_ue_golomb (\<lambda>height.
     bind_gb sps_crop (\<lambda>(crop_left, crop_right, crop_top, crop_bottom).
     return_gb (2, out\<lparr>so_width := width - 2 * (crop_left + crop_right),
                       so_height := height - 2 * (crop_top + crop_bottom)\<rparr>)))))))"

definition H265_Analyse :: "u8 list \<Rightarrow> u8 list \<Rightarrow> nat \<Rightarrow> sps_out \<Rightarrow> (int \<times> sps_out) cpp" where
  "H265_Analyse = run_sps h265_sps 5"

end
