(* ===== verification/Mpeg4_Decoder.thy ===== *)
theory Mpeg4_Decoder
  imports Sps_Decoder
begin

text \<open>
  The search for the picture size in the configuration of MPEG-4 video
  (\<open>senders/ffmpeg_sender/src/parsers/dec_sps.cc\<close>, the type \<open>Bitstream\<close> with its functions and
  \<open>Mpeg4_Analyse\<close>). The pointer \<open>tail\<close> counts the words from the start. Shifting a 32-bit number by 32
  or more is undefined behaviour.
\<close>

section \<open>The bit stream\<close>

record Bitstream =
  bs_mem :: "u8 list"
  bs_bufa :: u32
  bs_bufb :: u32
  bs_pos :: nat
  bs_tail :: nat
  bs_length :: nat

type_synonym 'a bs_reader = "Bitstream \<Rightarrow> ('a \<times> Bitstream) cpp"

definition bind_bs :: "'a bs_reader \<Rightarrow> ('a \<Rightarrow> 'b bs_reader) \<Rightarrow> 'b bs_reader" where
  "bind_bs m f bs = bind_cpp (m bs) (\<lambda>(x, bs1). f x bs1)"

definition return_bs :: "'a \<Rightarrow> 'a bs_reader" where
  "return_bs x bs = Ret (x, bs)"

definition MPEG4_BitstreamInit :: "u8 list \<Rightarrow> nat \<Rightarrow> Bitstream cpp" where
  "MPEG4_BitstreamInit bitstream len =
     bind_cpp (get_int bitstream 0) (\<lambda>a. bind_cpp (get_int bitstream 4) (\<lambda>b.
       Ret \<lparr>bs_mem = bitstream, bs_bufa = swap32 a, bs_bufb = swap32 b, bs_pos = 0, bs_tail = 0, bs_length = len\<rparr>))"

definition MPEG4_BitstreamShowBits :: "nat \<Rightarrow> u32 bs_reader" where
  "MPEG4_BitstreamShowBits bits bs =
     (if bs_pos bs \<ge> 32 then Undef
      else
        let low = bs_bufa bs AND drop_bit (bs_pos bs) 0xffffffff
        in if bits + bs_pos bs > 32 then
             let nbit = bits + bs_pos bs - 32
             in if nbit \<ge> 32 then Undef else Ret (push_bit nbit low OR drop_bit (32 - nbit) (bs_bufb bs), bs)
           else if 32 - bs_pos bs - bits \<ge> 32 then Undef else Ret (drop_bit (32 - bs_pos bs - bits) low, bs))"

definition MPEG4_BitstreamSkip :: "nat \<Rightarrow> unit bs_reader" where
  "MPEG4_BitstreamSkip bits bs =
     (let pos = bs_pos bs + bits
      in if pos \<ge> 32 then
           bind_cpp (get_int (bs_mem bs) (4 * (bs_tail bs + 2))) (\<lambda>tmp.
             Ret ((), bs\<lparr>bs_bufa := bs_bufb bs, bs_bufb := swap32 tmp, bs_tail := bs_tail bs + 1, bs_pos := pos - 32\<rparr>))
         else Ret ((), bs\<lparr>bs_pos := pos\<rparr>))"

definition MPEG4_BitstreamByteAlign :: "unit bs_reader" where
  "MPEG4_BitstreamByteAlign bs =
     (let remainder = bs_pos bs mod 8
      in if remainder \<noteq> 0 then MPEG4_BitstreamSkip (8 - remainder) bs else Ret ((), bs))"

definition MPEG4_BitstreamGetBits :: "nat \<Rightarrow> u32 bs_reader" where
  "MPEG4_BitstreamGetBits n = bind_bs (MPEG4_BitstreamShowBits n) (\<lambda>ret. bind_bs (MPEG4_BitstreamSkip n) (\<lambda>_. return_bs ret))"

definition MPEG4_BitstreamGetBit :: "u32 bs_reader" where
  "MPEG4_BitstreamGetBit = MPEG4_BitstreamGetBits 1"

fun MPEG4_log2bin :: "nat \<Rightarrow> nat" where
  "MPEG4_log2bin value = (if value = 0 then 0 else Suc (MPEG4_log2bin (value div 2)))"

declare MPEG4_log2bin.simps [simp del]

definition MPEG4_BitstreamPos :: "Bitstream \<Rightarrow> u32" where
  "MPEG4_BitstreamPos bs = word_of_nat (8 * (4 * bs_tail bs) + bs_pos bs)"

section \<open>Progress through the stream\<close>

text \<open>An operation moves the tail forward only inside the memory.\<close>

definition moves :: "Bitstream \<Rightarrow> Bitstream \<Rightarrow> bool" where
  "moves bs bs1 \<longleftrightarrow> bs_mem bs1 = bs_mem bs \<and> bs_length bs1 = bs_length bs \<and> bs_tail bs \<le> bs_tail bs1 \<and>
     (bs_tail bs < bs_tail bs1 \<longrightarrow> 4 * bs_tail bs1 + 8 \<le> length (bs_mem bs))"

definition forward :: "'a bs_reader \<Rightarrow> bool" where
  "forward m \<longleftrightarrow> (\<forall>bs x bs1. m bs = Ret (x, bs1) \<longrightarrow> moves bs bs1)"

definition advancing :: "'a bs_reader \<Rightarrow> bool" where
  "advancing m \<longleftrightarrow> (\<forall>bs x bs1. m bs = Ret (x, bs1) \<longrightarrow> moves bs bs1 \<and> bs_tail bs < bs_tail bs1)"

named_theorems progress

lemma moves_refl [simp]: "moves bs bs"
  by (simp add: moves_def)

lemma moves_trans: "moves a b \<Longrightarrow> moves b c \<Longrightarrow> moves a c"
  by (auto simp: moves_def)

lemma forward_bind [progress]: "forward m \<Longrightarrow> (\<And>x. forward (f x)) \<Longrightarrow> forward (bind_bs m f)"
  unfolding forward_def bind_bs_def by (fastforce simp: bind_cpp_Ret_conv intro: moves_trans)

lemma advancing_bind: "advancing m \<Longrightarrow> (\<And>x. forward (f x)) \<Longrightarrow> advancing (bind_bs m f)"
  unfolding advancing_def forward_def bind_bs_def
proof (intro allI impI, goal_cases)
  case (1 bs y bs2)
  then obtain x bs1 where x: "m bs = Ret (x, bs1)" "f x bs1 = Ret (y, bs2)" by (auto simp: bind_cpp_Ret_conv)
  with 1 have "moves bs bs1" "bs_tail bs < bs_tail bs1" "moves bs1 bs2" by blast+
  then show ?case by (auto intro: moves_trans simp: moves_def)
qed

lemma advancing_after: "forward m \<Longrightarrow> (\<And>x. advancing (f x)) \<Longrightarrow> advancing (bind_bs m f)"
  unfolding advancing_def forward_def bind_bs_def
proof (intro allI impI, goal_cases)
  case (1 bs y bs2)
  then obtain x bs1 where x: "m bs = Ret (x, bs1)" "f x bs1 = Ret (y, bs2)" by (auto simp: bind_cpp_Ret_conv)
  with 1 have "moves bs bs1" "bs_tail bs1 < bs_tail bs2" "moves bs1 bs2" by blast+
  then show ?case by (auto intro: moves_trans simp: moves_def)
qed

lemma forward_return [progress]: "forward (return_bs x)"
  by (simp add: forward_def return_bs_def)

lemma forward_if [progress]: "forward m \<Longrightarrow> forward n \<Longrightarrow> forward (if b then m else n)"
  by simp

lemma forward_show [progress]: "forward (MPEG4_BitstreamShowBits n)"
  by (auto simp: forward_def MPEG4_BitstreamShowBits_def Let_def split: if_splits)

lemma skip_moves: "MPEG4_BitstreamSkip n bs = Ret (x, bs1) \<Longrightarrow> moves bs bs1 \<and> (32 \<le> n \<longrightarrow> bs_tail bs < bs_tail bs1)"
  by (auto simp: MPEG4_BitstreamSkip_def moves_def Let_def get_int_def bind_cpp_Ret_conv split: if_splits)

lemma forward_skip [progress]: "forward (MPEG4_BitstreamSkip n)"
  by (auto simp: forward_def dest: skip_moves)

lemma advancing_skip: "32 \<le> n \<Longrightarrow> advancing (MPEG4_BitstreamSkip n)"
  by (auto simp: advancing_def dest: skip_moves)

lemma forward_align [progress]: "forward MPEG4_BitstreamByteAlign"
  by (auto simp: forward_def MPEG4_BitstreamByteAlign_def Let_def dest: skip_moves split: if_splits)

lemma forward_get [progress]: "forward (MPEG4_BitstreamGetBits n)" "forward MPEG4_BitstreamGetBit"
  unfolding MPEG4_BitstreamGetBits_def MPEG4_BitstreamGetBit_def by (intro progress)+


section \<open>Skipping the modulo time base\<close>

lemma bind_cpp_cong [fundef_cong]: "m = m' \<Longrightarrow> (\<And>x. m' = Ret x \<Longrightarrow> f x = f' x) \<Longrightarrow> bind_cpp m f = bind_cpp m' f'"
  by (cases m') simp_all

lemma get_bit_step:
  assumes "MPEG4_BitstreamGetBit bs = Ret (x, bs1)"
  shows "bs_mem bs1 = bs_mem bs" "bs_tail bs < bs_tail bs1 \<and> 4 * bs_tail bs < length (bs_mem bs) \<or>
     bs_tail bs1 = bs_tail bs \<and> bs_pos bs < 32 \<and> bs_pos bs1 = Suc (bs_pos bs)"
  using assms
  by (auto simp: MPEG4_BitstreamGetBit_def MPEG4_BitstreamGetBits_def MPEG4_BitstreamShowBits_def MPEG4_BitstreamSkip_def
      bind_bs_def return_bs_def Let_def bind_cpp_Ret_conv get_int_def split: if_splits)

text \<open>\<open>while (MPEG4_BitstreamGetBit(&bs) != 0) time_incr++;\<close>: the counter is not used afterwards.\<close>

function modulo_time_base :: "unit bs_reader" where
  "modulo_time_base bs = bind_cpp (MPEG4_BitstreamGetBit bs) (\<lambda>r. if fst r \<noteq> 0 then modulo_time_base (snd r) else Ret ((), snd r))"
  by pat_completeness auto

termination
proof (relation "measures [\<lambda>bs. length (bs_mem bs) - 4 * bs_tail bs, \<lambda>bs. 32 - bs_pos bs]")
  fix bs :: Bitstream and r
  assume "MPEG4_BitstreamGetBit bs = Ret r"
  then show "(snd r, bs) \<in> measures [\<lambda>bs. length (bs_mem bs) - 4 * bs_tail bs, \<lambda>bs. 32 - bs_pos bs]"
    using get_bit_step [of bs "fst r" "snd r"] by auto
qed simp

declare modulo_time_base.simps [simp del]

lemma forward_modulo [progress]: "forward modulo_time_base"
proof -
  have "modulo_time_base bs = Ret (x, bs1) \<Longrightarrow> moves bs bs1" for bs x bs1
  proof (induction bs rule: modulo_time_base.induct)
    case (1 bs)
    obtain b bs2 where b: "MPEG4_BitstreamGetBit bs = Ret (b, bs2)"
      "(if b \<noteq> 0 then modulo_time_base bs2 else Ret ((), bs2)) = Ret (x, bs1)"
      using 1(2) unfolding modulo_time_base.simps [of bs] by (auto simp: bind_cpp_Ret_conv cong: if_cong)
    moreover have "moves bs bs2" using b(1) forward_get(2) by (auto simp: forward_def)
    ultimately show ?case using 1(1) [OF b(1)] by (auto split: if_splits intro: moves_trans)
  qed
  then show ?thesis by (simp add: forward_def)
qed

section \<open>Analysing the configuration\<close>

text \<open>The variables that the passes of the loop share. The counters that are only written are left out.\<close>

record mpeg4_vars =
  mv_shape :: u32
  mv_time_inc_bits :: nat
  mv_vol_ver_id :: u32
  mv_out :: sps_out

text \<open>One pass returns the value that the function returns, or nothing when the loop goes on.\<close>

type_synonym pass = "(int option \<times> mpeg4_vars) bs_reader"

definition visual_object :: "mpeg4_vars \<Rightarrow> pass" where
  "visual_object v =
     bind_bs (MPEG4_BitstreamSkip 32) (\<lambda>_.
     bind_bs MPEG4_BitstreamGetBit (\<lambda>b.
     bind_bs (if b \<noteq> 0 then bind_bs (MPEG4_BitstreamGetBits 4) (\<lambda>x. bind_bs (MPEG4_BitstreamSkip 3) (\<lambda>_. return_bs x))
              else return_bs 1) (\<lambda>ver.
     bind_bs (MPEG4_BitstreamShowBits 4) (\<lambda>kind.
     if kind \<noteq> 1 then return_bs (Some (-1), v\<lparr>mv_vol_ver_id := ver\<rparr>)
     else
       bind_bs (MPEG4_BitstreamSkip 4) (\<lambda>_.
       bind_bs MPEG4_BitstreamGetBit (\<lambda>signal.
       bind_bs (if signal \<noteq> 0 then
                  bind_bs (MPEG4_BitstreamSkip 4) (\<lambda>_.
                  bind_bs MPEG4_BitstreamGetBit (\<lambda>colour.
                  if colour \<noteq> 0 then MPEG4_BitstreamSkip 24 else return_bs ()))
                else return_bs ()) (\<lambda>_.
       return_bs (None, v\<lparr>mv_vol_ver_id := ver\<rparr>))))))))"

text \<open>The end of a video object layer: the picture size follows a rectangular shape only.\<close>

definition layer_size :: "mpeg4_vars \<Rightarrow> pass" where
  "layer_size v =
     (if mv_shape v \<noteq> 2 then
        if mv_shape v = 0 then
          bind_bs (MPEG4_BitstreamSkip 1) (\<lambda>_.
          bind_bs (MPEG4_BitstreamGetBits 13) (\<lambda>w.
          bind_bs (MPEG4_BitstreamSkip 1) (\<lambda>_.
          bind_bs (MPEG4_BitstreamGetBits 13) (\<lambda>h.
          return_bs (Some 0, v\<lparr>mv_out := (mv_out v)\<lparr>so_width := sint w, so_height := sint h\<rparr>\<rparr>)))))
        else return_bs (Some (-1), v)
      else
        bind_bs (if mv_vol_ver_id v \<noteq> 1 then MPEG4_BitstreamGetBit else return_bs 0) (\<lambda>b.
        if b \<noteq> 0 then return_bs (Some (-1), v)
        else bind_bs (MPEG4_BitstreamSkip 1) (\<lambda>_. return_bs (None, v))))"

definition layer_time :: "mpeg4_vars \<Rightarrow> mpeg4_vars bs_reader" where
  "layer_time v =
     bind_bs (MPEG4_BitstreamGetBits 2) (\<lambda>shape.
     bind_bs (if shape = 3 \<and> mv_vol_ver_id v \<noteq> 1 then MPEG4_BitstreamSkip 4 else return_bs ()) (\<lambda>_.
     bind_bs (MPEG4_BitstreamSkip 1) (\<lambda>_.
     bind_bs (MPEG4_BitstreamGetBits 16) (\<lambda>resolution.
     let tib = (if resolution > 0 then MPEG4_log2bin (unat (resolution - 1)) else 1)
     in bind_bs (MPEG4_BitstreamSkip 1) (\<lambda>_.
        bind_bs MPEG4_BitstreamGetBit (\<lambda>fixed.
        bind_bs (if fixed \<noteq> 0 then MPEG4_BitstreamSkip tib else return_bs ()) (\<lambda>_.
        return_bs (v\<lparr>mv_shape := shape, mv_time_inc_bits := tib,
                     mv_out := (mv_out v)\<lparr>so_framerate := sint resolution\<rparr>\<rparr>))))))))"

definition object_layer :: "mpeg4_vars \<Rightarrow> pass" where
  "object_layer v =
     bind_bs (MPEG4_BitstreamSkip 33) (\<lambda>_.
     bind_bs (MPEG4_BitstreamShowBits 8) (\<lambda>kind.
     if kind \<noteq> 1 \<and> kind \<noteq> 3 \<and> kind \<noteq> 4 \<and> kind \<noteq> 0 then return_bs (Some (-1), v)
     else
       bind_bs (MPEG4_BitstreamSkip 8) (\<lambda>_.
       bind_bs MPEG4_BitstreamGetBit (\<lambda>b.
       bind_bs (if b \<noteq> 0 then bind_bs (MPEG4_BitstreamGetBits 4) (\<lambda>x. bind_bs (MPEG4_BitstreamSkip 3) (\<lambda>_. return_bs x))
                else return_bs 1) (\<lambda>ver.
       bind_bs (MPEG4_BitstreamGetBits 4) (\<lambda>aspect.
       bind_bs (if aspect = 15 then MPEG4_BitstreamSkip 16 else return_bs ()) (\<lambda>_.
       bind_bs MPEG4_BitstreamGetBit (\<lambda>control.
       bind_bs (if control \<noteq> 0 then
                  bind_bs (MPEG4_BitstreamSkip 3) (\<lambda>_.
                  bind_bs MPEG4_BitstreamGetBit (\<lambda>vbv. if vbv \<noteq> 0 then MPEG4_BitstreamSkip 81 else return_bs ()))
                else return_bs ()) (\<lambda>_.
       bind_bs (layer_time (v\<lparr>mv_vol_ver_id := ver\<rparr>)) layer_size)))))))))"

definition object_plane :: "mpeg4_vars \<Rightarrow> pass" where
  "object_plane v =
     bind_bs (MPEG4_BitstreamSkip 32) (\<lambda>_.
     bind_bs (MPEG4_BitstreamGetBits 2) (\<lambda>frame_type.
     bind_bs modulo_time_base (\<lambda>_.
     bind_bs (MPEG4_BitstreamSkip 1) (\<lambda>_.
     bind_bs (if mv_time_inc_bits v \<noteq> 0 then MPEG4_BitstreamGetBits (mv_time_inc_bits v) else return_bs 0) (\<lambda>_.
     bind_bs (MPEG4_BitstreamSkip 1) (\<lambda>_.
     bind_bs MPEG4_BitstreamGetBit (\<lambda>coded.
     if coded = 0 then return_bs (Some (-1), v)
     else
       bind_bs (if mv_shape v \<noteq> 2 \<and> (frame_type = 1 \<or> frame_type = 3) then MPEG4_BitstreamSkip 1 else return_bs ()) (\<lambda>_.
       bind_bs (if mv_shape v \<noteq> 0 then
                  bind_bs (MPEG4_BitstreamGetBits 13) (\<lambda>_. bind_bs (MPEG4_BitstreamSkip 1) (\<lambda>_.
                  bind_bs (MPEG4_BitstreamGetBits 13) (\<lambda>_. bind_bs (MPEG4_BitstreamSkip 1) (\<lambda>_.
                  bind_bs (MPEG4_BitstreamGetBits 13) (\<lambda>_. bind_bs (MPEG4_BitstreamSkip 1) (\<lambda>_.
                  bind_bs (MPEG4_BitstreamGetBits 13) (\<lambda>_. bind_bs (MPEG4_BitstreamSkip 2) (\<lambda>_.
                  bind_bs MPEG4_BitstreamGetBit (\<lambda>b. if b \<noteq> 0 then MPEG4_BitstreamSkip 8 else return_bs ())))))))))
                else return_bs ()) (\<lambda>_.
       return_bs (Some (-1), v))))))))))"

definition skip_on :: "nat \<Rightarrow> mpeg4_vars \<Rightarrow> pass" where
  "skip_on n v = bind_bs (MPEG4_BitstreamSkip n) (\<lambda>_. return_bs (None, v))"

definition group_of_planes :: "mpeg4_vars \<Rightarrow> pass" where
  "group_of_planes v =
     bind_bs (MPEG4_BitstreamSkip 32) (\<lambda>_. bind_bs (MPEG4_BitstreamSkip 18) (\<lambda>_. skip_on 2 v))"

definition mpeg4_pass :: "mpeg4_vars \<Rightarrow> pass" where
  "mpeg4_pass v =
     bind_bs MPEG4_BitstreamByteAlign (\<lambda>_.
     bind_bs (MPEG4_BitstreamShowBits 32) (\<lambda>start_code.
     if start_code = 0x01b0 then skip_on 40 v
     else if start_code = 0x01b1 then skip_on 32 v
     else if start_code = 0x01b5 then visual_object v
     else if start_code AND NOT 0x1F = 0x100 then skip_on 32 v
     else if start_code AND NOT 0xF = 0x120 then object_layer v
     else if start_code = 0x01b3 then group_of_planes v
     else if start_code = 0x01b6 then object_plane v
     else if start_code = 0x01b2 then skip_on 48 v
     else skip_on 32 v))"

text \<open>The loop, for at most the given number of passes.\<close>

primrec mpeg4_loop :: "nat \<Rightarrow> mpeg4_vars \<Rightarrow> Bitstream \<Rightarrow> (int \<times> sps_out) cpp option" where
  "mpeg4_loop 0 v bs = None"
| "mpeg4_loop (Suc n) v bs =
     (case mpeg4_pass v bs of
        Undef \<Rightarrow> Some Undef
      | Ret ((Some ret, v1), bs1) \<Rightarrow> Some (Ret (ret, mv_out v1))
      | Ret ((None, v1), bs1) \<Rightarrow>
          if unat (drop_bit 3 (MPEG4_BitstreamPos bs1)) < bs_length bs1 then mpeg4_loop n v1 bs1 else Some (Ret (-1, mv_out v1)))"

definition mpeg4_start :: "sps_out \<Rightarrow> mpeg4_vars" where
  "mpeg4_start out = \<lparr>mv_shape = 0, mv_time_inc_bits = 0, mv_vol_ver_id = 0, mv_out = out\<rparr>"

text \<open>A pass reads a new word, so that there are no more passes than words (\<open>mpeg4_terminates\<close>).\<close>

definition Mpeg4_Analyse :: "u8 list \<Rightarrow> nat \<Rightarrow> sps_out \<Rightarrow> (int \<times> sps_out) cpp" where
  "Mpeg4_Analyse pBuf nSize out =
     bind_cpp (MPEG4_BitstreamInit pBuf nSize) (\<lambda>bs.
       case mpeg4_loop (length pBuf div 4) (mpeg4_start out) bs of Some r \<Rightarrow> r | None \<Rightarrow> Undef)"

section \<open>Termination\<close>

lemma forward_layer [progress]: "forward (layer_time v)" "forward (layer_size v)"
  unfolding layer_time_def layer_size_def Let_def by (intro progress)+

lemma advancing_pass: "advancing (mpeg4_pass v)"
proof -
  have s: "advancing (skip_on n v)" if "32 \<le> n" for n
    unfolding skip_on_def by (intro advancing_bind advancing_skip that progress)
  have "advancing (visual_object v)"
    unfolding visual_object_def by (rule advancing_bind [OF advancing_skip]) (simp, intro progress)
  moreover have "advancing (object_layer v)"
    unfolding object_layer_def by (rule advancing_bind [OF advancing_skip]) (simp, intro progress)
  moreover have "advancing (object_plane v)"
    unfolding object_plane_def by (rule advancing_bind [OF advancing_skip]) (simp, intro progress)
  moreover have "advancing (group_of_planes v)"
    unfolding group_of_planes_def skip_on_def by (rule advancing_bind [OF advancing_skip]) (simp, intro progress)
  ultimately show ?thesis
    unfolding mpeg4_pass_def by (intro advancing_after progress) (simp add: s)
qed

text \<open>With as many passes as there are words in the memory behind the tail the loop has ended.\<close>

lemma mpeg4_loop_ends:
  assumes "length (bs_mem bs) < 4 * (n + bs_tail bs) + 8" "0 < n"
  shows "mpeg4_loop n v bs \<noteq> None"
  using assms
proof (induction n arbitrary: v bs)
  case (Suc n)
  have "mpeg4_loop n v1 bs1 \<noteq> None" if "mpeg4_pass v bs = Ret ((r, v1), bs1)" for r v1 bs1
  proof (rule Suc.IH)
    have "moves bs bs1" "bs_tail bs < bs_tail bs1" using that advancing_pass [of v] by (auto simp: advancing_def)
    then show "length (bs_mem bs1) < 4 * (n + bs_tail bs1) + 8" "0 < n" using Suc.prems by (auto simp: moves_def)
  qed
  then show ?case by (auto split: cpp.split option.split)
qed simp

end
