(* ===== verification/Bit_Reader_Properties.thy ===== *)
theory Bit_Reader_Properties
  imports Bit_Reader
begin

text \<open>
  Correctness of the bit reader: the reading functions against the sequence of the bits of the buffer,
  and the decoding of exponential Golomb codes against their definition.
\<close>

section \<open>The cache holds the next bits\<close>

definition stream_bit :: "u8 list \<Rightarrow> nat \<Rightarrow> bool" where
  "stream_bit p i = bit (p ! (i div 8)) (7 - i mod 8)"

lemma bit_byte_masks:
  "bit (0xFF :: u32) n \<longleftrightarrow> n < 8" "bit (0xFF00 :: u32) n \<longleftrightarrow> 8 \<le> n \<and> n < 16"
  "bit (0xFF0000 :: u32) n \<longleftrightarrow> 16 \<le> n \<and> n < 24" "bit (0xFF000000 :: u32) n \<longleftrightarrow> 24 \<le> n \<and> n < 32"
proof -
  have m: "(0xFF :: u32) = mask 8" "(0xFF00 :: u32) = push_bit 8 (mask 8)" "(0xFF0000 :: u32) = push_bit 16 (mask 8)"
    "(0xFF000000 :: u32) = push_bit 24 (mask 8)"
    by (simp_all add: mask_eq_exp_minus_1 push_bit_eq_mult)
  show "bit (0xFF :: u32) n \<longleftrightarrow> n < 8" "bit (0xFF00 :: u32) n \<longleftrightarrow> 8 \<le> n \<and> n < 16"
    "bit (0xFF0000 :: u32) n \<longleftrightarrow> 16 \<le> n \<and> n < 24" "bit (0xFF000000 :: u32) n \<longleftrightarrow> 24 \<le> n \<and> n < 32"
    unfolding m by (auto simp: bit_simps)
qed

lemma bit_u32_less: "bit (w :: u32) n \<Longrightarrow> n < 32"
  using bit_imp_le_length [of w n] by simp

lemma bit_u8_less: "bit (w :: u8) n \<Longrightarrow> n < 8"
  using bit_imp_le_length [of w n] by simp

text \<open>Splitting a bit number into a byte and a bit of the byte.\<close>

lemma byte_cases:
  assumes "(n :: nat) < 32"
  obtains m where "n = m" "m < 8" | m where "n = m + 8" "m < 8" | m where "n = m + 16" "m < 8" | m where "n = m + 24" "m < 8"
proof -
  have "n div 8 < 4" using assms by simp
  then consider "n div 8 = 0" | "n div 8 = 1" | "n div 8 = 2" | "n div 8 = 3" by linarith
  then show thesis
    using that [of "n mod 8"] div_mult_mod_eq [of n 8] by cases auto
qed

lemma byte_arith [simp]:
  assumes "m < (8 :: nat)"
  shows "(m + 8) div 8 = 1" "(m + 8) mod 8 = m" "(m + 16) div 8 = 2" "(m + 16) mod 8 = m" "(m + 24) div 8 = 3" "(m + 24) mod 8 = m"
    "(16 + m) mod 8 = m" "(24 + m) mod 8 = m"
  using assms by (simp_all add: div_nat_eqI mod_nat_eqI)

lemma get_int_bit:
  assumes "n < 32"
  shows "bit (ucast (a :: u8) OR push_bit 8 (ucast (b :: u8)) OR push_bit 16 (ucast (c :: u8)) OR
      push_bit 24 (ucast (d :: u8)) :: u32) n = bit ([a, b, c, d] ! (n div 8)) (n mod 8)"
  using assms by (rule byte_cases) (auto simp: bit_simps numeral_2_eq_2 numeral_3_eq_3 dest: bit_u8_less)

lemma swap32_bit:
  assumes "n < 32"
  shows "bit (swap32 x) n = bit x (24 - 8 * (n div 8) + n mod 8)"
  using assms by (rule byte_cases) (auto simp: swap32_def bit_simps bit_byte_masks simp del: bit_numeral_word_iff dest: bit_u32_less)

lemma be32_bit:
  assumes "i + 4 \<le> length p"
  obtains x where "H264_unaligned32_be p i = Ret x" "\<forall>n < 32. bit x n = bit (p ! (i + 3 - n div 8)) (n mod 8)"
proof -
  let ?g = "ucast (p ! i) OR push_bit 8 (ucast (p ! (i + 1))) OR push_bit 16 (ucast (p ! (i + 2))) OR
      push_bit 24 (ucast (p ! (i + 3))) :: u32"
  have "bit (swap32 ?g) n = bit (p ! (i + 3 - n div 8)) (n mod 8)" if "n < 32" for n
    using that by (rule byte_cases) (simp_all add: swap32_bit get_int_bit numeral_2_eq_2 numeral_3_eq_3)
  with assms show thesis by (intro that [of "swap32 ?g"]) (simp_all add: H264_unaligned32_be_def get_int_def)
qed

lemma re_cache_bit:
  assumes "gb_index s div 8 + 4 \<le> length (gb_buffer s)"
  obtains c where "re_cache s = Ret c"
    "\<forall>k < 32. bit c (31 - k) = (k + gb_index s mod 8 < 32 \<and> stream_bit (gb_buffer s) (gb_index s + k))"
proof -
  let ?i = "gb_index s div 8" and ?r = "gb_index s mod 8"
  obtain x where x: "H264_unaligned32_be (gb_buffer s) ?i = Ret x"
    "\<forall>n < 32. bit x n = bit (gb_buffer s ! (?i + 3 - n div 8)) (n mod 8)"
    using be32_bit [OF assms] by blast
  have "bit (push_bit ?r x) (31 - k) = (k + ?r < 32 \<and> stream_bit (gb_buffer s) (gb_index s + k))" if "k < 32" for k
  proof (cases "k + ?r < 32")
    case True
    define t where "t = k + ?r"
    have t: "t < 32" "31 - k - ?r = 31 - t" using True by (simp_all add: t_def)
    have "(31 - t) div 8 = 3 - t div 8 \<and> (31 - t) mod 8 = 7 - t mod 8"
      using t(1) by (rule byte_cases) (auto simp: div_nat_eqI mod_nat_eqI)
    moreover have "gb_index s + k = 8 * ?i + t" by (simp add: t_def)
    then have "(gb_index s + k) div 8 = ?i + t div 8" "(gb_index s + k) mod 8 = t mod 8" by simp_all
    moreover have "t div 8 \<le> 3" using t(1) by simp
    moreover have "31 - t < 32" "31 - k < 32" "?r \<le> 31 - k" using True by linarith+
    ultimately show ?thesis
      using True that t(2) x(2) by (simp add: bit_simps stream_bit_def)
  next
    case False
    then show ?thesis using that by (auto simp: bit_simps)
  qed
  with x(1) show thesis by (intro that [of "push_bit ?r x"]) (simp_all add: re_cache_def)
qed

section \<open>Reading bits\<close>

text \<open>The bits \<open>bs\<close> are next in the buffer, and there are four more bytes after them: the reader always
  loads whole words.\<close>

definition ahead :: "GetBitContext \<Rightarrow> bool list \<Rightarrow> bool" where
  "ahead s bs \<longleftrightarrow> (gb_index s + length bs) div 8 + 4 \<le> length (gb_buffer s) \<and>
     (\<forall>k < length bs. stream_bit (gb_buffer s) (gb_index s + k) = bs ! k)"

definition adv :: "nat \<Rightarrow> GetBitContext \<Rightarrow> GetBitContext" where
  "adv n s = s\<lparr>gb_index := gb_index s + n\<rparr>"

lemma ahead_append: "ahead s (cs @ bs) \<Longrightarrow> ahead (adv (length cs) s) bs"
  unfolding ahead_def adv_def
proof (intro conjI allI impI, goal_cases)
  case (2 k)
  then show ?case by (auto simp: add.assoc nth_append dest!: spec [of _ "length cs + k"])
qed (simp add: add.assoc)

lemma ahead_prefix: "ahead s (cs @ bs) \<Longrightarrow> ahead s cs"
  unfolding ahead_def
  by (auto simp: nth_append dest!: spec intro: order_trans [OF add_right_mono [OF div_le_mono]])

lemma ahead_cache:
  assumes "ahead s bs" "length bs \<le> 25"
  obtains c where "re_cache s = Ret c" "\<forall>k < length bs. bit c (31 - k) = bs ! k"
proof -
  have "gb_index s div 8 + 4 \<le> length (gb_buffer s)"
    using assms(1) div_le_mono [of "gb_index s" "gb_index s + length bs" 8] by (simp add: ahead_def)
  then obtain c where c: "re_cache s = Ret c"
    "\<forall>k < 32. bit c (31 - k) = (k + gb_index s mod 8 < 32 \<and> stream_bit (gb_buffer s) (gb_index s + k))"
    by (rule re_cache_bit) blast
  have "bit c (31 - k) = bs ! k" if "k < length bs" for k
  proof -
    have "gb_index s mod 8 < 8" by simp
    with that assms(2) have "k + gb_index s mod 8 < 32" by linarith
    then show ?thesis using c(2) that assms by (simp add: ahead_def)
  qed
  with c(1) show thesis by (intro that) auto
qed

section \<open>Exponential Golomb codes\<close>

fun log2n :: "nat \<Rightarrow> nat" where
  "log2n n = (if n \<le> 1 then 0 else Suc (log2n (n div 2)))"

declare log2n.simps [simp del]

definition ue_code :: "nat \<Rightarrow> bool list" where
  "ue_code n = (let z = log2n (n + 1) in replicate z False @ map (\<lambda>i. bit (n + 1) (z - i)) [0..<Suc z])"

definition se_code :: "int \<Rightarrow> bool list" where
  "se_code k = ue_code (if k > 0 then nat (2 * k - 1) else nat (- 2 * k))"

lemma log2n_bounds: "0 < n \<Longrightarrow> 2 ^ log2n n \<le> n \<and> n < 2 ^ Suc (log2n n)"
proof (induction n rule: log2n.induct)
  case (1 n)
  show ?case
  proof (cases "n \<le> 1")
    case True
    with 1 show ?thesis by (simp add: log2n.simps [of n])
  next
    case False
    then have "0 < n div 2" by simp
    with 1(1) [OF False] have "2 ^ log2n (n div 2) \<le> n div 2" "n div 2 < 2 ^ Suc (log2n (n div 2))" by simp_all
    moreover have "n = 2 * (n div 2) + n mod 2" "n mod 2 < 2" by simp_all
    moreover have "log2n n = Suc (log2n (n div 2))" using False by (simp add: log2n.simps [of n])
    ultimately show ?thesis by (simp only: power_Suc) linarith
  qed
qed

lemma log2n_unique: "2 ^ z \<le> n \<Longrightarrow> n < 2 ^ Suc z \<Longrightarrow> log2n n = z"
proof -
  assume n: "2 ^ z \<le> n" "n < 2 ^ Suc z"
  then have "0 < n" by (metis gr0I not_less zero_less_numeral zero_less_power)
  note log2n_bounds [OF this]
  then have "(2 :: nat) ^ z < 2 ^ Suc (log2n n)" "(2 :: nat) ^ log2n n < 2 ^ Suc z" using n by linarith+
  then have "z < Suc (log2n n)" "log2n n < Suc z" by (simp_all del: power_Suc)
  then show ?thesis by simp
qed

abbreviation bits_value :: "bool list \<Rightarrow> 'a::semiring_bit_operations" where
  "bits_value bs \<equiv> horner_sum of_bool 2 (rev bs)"

lemma ue_code_length: "length (ue_code n) = 2 * log2n (n + 1) + 1"
  by (simp add: ue_code_def Let_def)

lemma ue_code_value: "bits_value (ue_code n) = n + 1"
proof -
  let ?z = "log2n (n + 1)"
  have "rev (map (\<lambda>i. bit (n + 1) (?z - i)) [0..<Suc ?z]) = map (bit (n + 1)) [0..<Suc ?z]"
    by (rule nth_equalityI) (auto simp: rev_nth simp del: upt_Suc)
  then have "rev (ue_code n) = map (bit (n + 1)) [0..<Suc ?z] @ replicate ?z False"
    by (simp add: ue_code_def Let_def del: upt_Suc)
  moreover have "horner_sum of_bool 2 (replicate k False) = (0 :: nat)" for k by (induction k) simp_all
  ultimately have "bits_value (ue_code n) = take_bit (Suc ?z) (n + 1)"
    by (simp add: horner_sum_append horner_sum_bit_eq_take_bit del: upt_Suc)
  then show ?thesis using log2n_bounds [of "n + 1"] by (simp add: take_bit_nat_eq_self)
qed

lemma cache_value:
  assumes "\<forall>k < length bs. bit c (31 - k) = bs ! k" "length bs \<le> 32"
  shows "unat (drop_bit (32 - length bs) (c :: u32)) = bits_value bs"
proof -
  have "bit (unat (drop_bit (32 - length bs) c)) n = bit (bits_value bs :: nat) n" for n
    using assms bit_u32_less [of c "32 - length bs + n"] spec [OF assms(1), of "length bs - 1 - n"]
    by (cases "n < length bs") (auto simp: bit_simps bit_horner_sum_bit_iff rev_nth)
  then show ?thesis by (intro bit_eqI) simp
qed

text \<open>The tables, checked entry by entry.\<close>

lemma log2_table_all:
  "list_all2 (\<lambda>i e. e = (if i \<ge> 64 then 7 else if i \<ge> 32 then 6 else if i \<ge> 16 then 5 else if i \<ge> 8 then 4
     else if i \<ge> 4 then 3 else if i \<ge> 2 then 2 else if i \<ge> 1 then 1 else 0)) [0..127 :: int] ff_log2_table"
  by code_simp

lemma len_table_all:
  "list_all2 (\<lambda>i e. i = 0 \<or> e = (if i \<ge> 16 then 1 else if i \<ge> 8 then 3 else if i \<ge> 4 then 5 else if i \<ge> 2 then 7
     else 9)) [0..31 :: int] ff_golomb_vlc_len"
  by code_simp

lemma ue_table_all:
  "list_all2 (\<lambda>b e. b < 16 \<or> e = (if b \<ge> 128 then b div 64 else if b \<ge> 64 then b div 16 else if b \<ge> 32 then b div 4
     else b) - 1) [0..255 :: int] ff_ue_golomb_vlc_code"
  by code_simp

lemma se_table_all:
  "list_all2 (\<lambda>b e. b < 16 \<or> (let m = (if b \<ge> 128 then b div 64 else if b \<ge> 64 then b div 16 else if b \<ge> 32 then b div 4
     else b) in e = (if m mod 2 = 1 then - (m div 2) else m div 2))) [0..255 :: int] ff_se_golomb_vlc_code"
  by code_simp

lemma list_all2_upto: "list_all2 P [0..k] xs \<Longrightarrow> int i \<le> k \<Longrightarrow> P (int i) (xs ! i)"
  by (auto simp: list_all2_conv_all_nth nth_upto)

lemma log2n_div: "2 ^ k \<le> n \<Longrightarrow> log2n n = k + log2n (n div 2 ^ k)"
proof (rule log2n_unique)
  assume "2 ^ k \<le> n"
  then have "0 < n div 2 ^ k" by (simp add: div_greater_zero_iff)
  from log2n_bounds [OF this] have b: "2 ^ log2n (n div 2 ^ k) \<le> n div 2 ^ k" "n div 2 ^ k < 2 ^ Suc (log2n (n div 2 ^ k))" by simp_all
  show "2 ^ (k + log2n (n div 2 ^ k)) \<le> n"
    using b(1) by (simp add: power_add less_eq_div_iff_mult_less_eq mult.commute)
  show "n < 2 ^ Suc (k + log2n (n div 2 ^ k))"
    using b(2) by (simp add: power_add div_less_iff_less_mult mult.commute mult.left_commute)
qed

lemma unat_drop: "unat (drop_bit k (w :: u32)) = unat w div 2 ^ k"
  unfolding unat_drop_bit_eq by (rule drop_bit_eq_div)

lemma log2_table:
  assumes "0 < v" "v < 256"
  shows "ff_log2_table ! (v div 2) = log2n v"
proof -
  let ?i = "int (v div 2)"
  have e: "ff_log2_table ! (v div 2) = (if ?i \<ge> 64 then 7 else if ?i \<ge> 32 then 6 else if ?i \<ge> 16 then 5 else if ?i \<ge> 8 then 4
     else if ?i \<ge> 4 then 3 else if ?i \<ge> 2 then 2 else if ?i \<ge> 1 then 1 else 0)"
    by (rule list_all2_upto [OF log2_table_all]) (use assms in simp)
  show ?thesis
    unfolding e by (rule log2n_unique [symmetric]) (use assms in auto)
qed

lemma high_mask: "(v AND 0xffff0000 = 0) = (drop_bit 16 (v :: u32) = 0)"
proof -
  have m: "(0xffff0000 :: u32) = push_bit 16 (mask 16)" by (simp add: mask_eq_exp_minus_1 push_bit_eq_mult)
  show ?thesis
  proof
    assume a: "v AND 0xffff0000 = 0"
    show "drop_bit 16 v = 0"
    proof (rule bit_word_eqI)
      fix n assume "n < LENGTH(32)"
      moreover have "\<not> bit (v AND 0xffff0000) (16 + n)" by (simp only: a bit_0_eq) simp
      ultimately show "bit (drop_bit 16 v) n = bit (0 :: u32) n"
        unfolding m using bit_u32_less [of v "16 + n"] by (auto simp: bit_simps)
    qed
  next
    assume a: "drop_bit 16 v = 0"
    show "v AND 0xffff0000 = 0"
    proof (rule bit_word_eqI)
      fix n assume "n < LENGTH(32)"
      moreover have "\<not> bit (drop_bit 16 v) (n - 16)" by (simp only: a bit_0_eq) simp
      ultimately show "bit (v AND 0xffff0000) n = bit (0 :: u32) n"
        unfolding m by (auto simp: bit_simps)
    qed
  qed
qed

lemma low_mask:
  assumes "drop_bit 16 (v :: u32) = 0"
  shows "(v AND 0xff00 = 0) = (drop_bit 8 v = 0)"
proof -
  have lt: "\<not> bit v n" if "16 \<le> n" for n
  proof -
    have "\<not> bit (drop_bit 16 v) (n - 16)" by (simp only: assms bit_0_eq) simp
    with that show ?thesis by (simp add: bit_simps)
  qed
  have m: "(0xff00 :: u32) = push_bit 8 (mask 8)" by (simp add: mask_eq_exp_minus_1 push_bit_eq_mult)
  show ?thesis
  proof
    assume a: "v AND 0xff00 = 0"
    show "drop_bit 8 v = 0"
    proof (rule bit_word_eqI)
      fix n assume n: "n < LENGTH(32)"
      have "\<not> bit (v AND 0xff00) (8 + n)" by (simp only: a bit_0_eq) simp
      then show "bit (drop_bit 8 v) n = bit (0 :: u32) n"
        unfolding m using lt [of "8 + n"] n by (cases "n < 8") (auto simp: bit_simps)
    qed
  next
    assume a: "drop_bit 8 v = 0"
    show "v AND 0xff00 = 0"
    proof (rule bit_word_eqI)
      fix n assume "n < LENGTH(32)"
      moreover have "\<not> bit (drop_bit 8 v) (n - 8)" by (simp only: a bit_0_eq) simp
      ultimately show "bit (v AND 0xff00) n = bit (0 :: u32) n"
        unfolding m by (auto simp: bit_simps)
    qed
  qed
qed

text \<open>The table search computes the binary logarithm.\<close>

lemma log2_step:
  assumes "0 < unat (v :: u32)" "unat v < 256"
  shows "ff_log2_table ! unat (drop_bit (Suc 0) v) = log2n (unat v)"
  using log2_table [OF assms] by (simp add: unat_drop)

lemma drop_eq_0: "(drop_bit k (v :: u32) = 0) = (unat v < 2 ^ k)"
  using unat_drop [of k v] unsigned_eq_0_iff [of "drop_bit k v"] by (auto simp: div_eq_0_iff)

lemma av_log2:
  assumes "0 < unat v"
  shows "H264_av_log2 v = log2n (unat v)"
proof (cases "unat v < 2 ^ 16")
  case lo: True
  then have d: "drop_bit 16 v = 0" by (simp add: drop_eq_0)
  show ?thesis
  proof (cases "unat v < 2 ^ 8")
    case True
    with assms lo show ?thesis
      by (simp add: H264_av_log2_def high_mask low_mask [OF d] d drop_eq_0 log2_step)
  next
    case False
    then have "0 < unat v div 256" "unat v div 256 < 256" using lo by (simp_all add: div_greater_zero_iff div_less_iff_less_mult)
    with False lo log2n_div [of 8 "unat v"] log2_step [of "drop_bit 8 v"] show ?thesis
      by (simp add: H264_av_log2_def high_mask low_mask [OF d] d drop_eq_0 unat_drop)
  qed
next
  case hi: False
  let ?w = "drop_bit 16 v"
  have u: "unat ?w < 65536" using unsigned_less [of v] by (simp add: unat_drop div_less_iff_less_mult)
  then have d: "drop_bit 16 ?w = 0" by (simp add: drop_eq_0)
  have n: "unat v div 65536 = unat ?w" by (simp add: unat_drop)
  have p: "0 < unat ?w" using hi by (simp add: unat_drop div_greater_zero_iff)
  have l: "log2n (unat v) = 16 + log2n (unat ?w)"
    using hi log2n_div [of 16 "unat v"] by (simp add: n)
  have h: "?w \<noteq> 0" using p by auto
  show ?thesis
  proof (cases "unat ?w < 2 ^ 8")
    case True
    with p hi show ?thesis
      by (simp add: H264_av_log2_def high_mask low_mask [OF d] h drop_eq_0 log2_step l del: drop_bit_drop_bit)
  next
    case False
    then have "0 < unat ?w div 256" "unat ?w div 256 < 256" using u by (simp_all add: div_greater_zero_iff div_less_iff_less_mult)
    with False hi log2n_div [of 8 "unat ?w"] log2_step [of "drop_bit 8 ?w"] show ?thesis
      by (simp add: H264_av_log2_def high_mask low_mask [OF d] h drop_eq_0 l unat_drop del: drop_bit_drop_bit)
  qed
qed


text \<open>What the cache holds in front of a code of at most 25 bits.\<close>

lemma golomb_cache:
  assumes a: "ahead s (ue_code n @ bs)" and z: "z = log2n (n + 1)" "z \<le> 12"
  obtains c where "re_cache s = Ret c" "unat c div 2 ^ (31 - 2 * z) = n + 1" "log2n (unat c) = 31 - z" "H264_av_log2 c = 31 - z"
proof -
  have len: "length (ue_code n) = 2 * z + 1" by (simp add: ue_code_length z(1))
  then obtain c where c: "re_cache s = Ret c" "\<forall>k < length (ue_code n). bit c (31 - k) = ue_code n ! k"
    using ahead_cache [OF ahead_prefix [OF a]] z(2) by auto
  have "unat (drop_bit (32 - length (ue_code n)) c) = n + 1"
    using cache_value [OF c(2)] z(2) by (simp add: len ue_code_value)
  then have v: "unat c div 2 ^ (31 - 2 * z) = n + 1" by (simp add: unat_drop len)
  then have "2 ^ (31 - 2 * z) \<le> unat c" by (metis add_is_0 div_eq_0_iff not_le one_neq_zero)
  then have l: "log2n (unat c) = 31 - z"
    using log2n_div [of "31 - 2 * z" "unat c"] v z by simp
  moreover have "0 < unat c" using v by (metis add_is_0 div_0 gr0I one_neq_zero)
  ultimately show thesis using that c(1) v by (simp add: av_log2)
qed

lemma cache_class: "(c \<ge> (0x08000000 :: u32)) = (27 \<le> log2n (unat c))"
proof -
  have "(c \<ge> 0x08000000) = (2 ^ 27 \<le> unat c)" by (simp add: word_le_nat_alt)
  also have "\<dots> = (27 \<le> log2n (unat c))"
  proof
    assume "2 ^ 27 \<le> unat c"
    then show "27 \<le> log2n (unat c)" using log2n_div [of 27 "unat c"] by simp
  next
    assume l: "27 \<le> log2n (unat c)"
    then have "0 < unat c" by (intro gr0I) (simp add: log2n.simps)
    with log2n_bounds have "2 ^ log2n (unat c) \<le> unat c" by blast
    moreover have "(2 :: nat) ^ 27 \<le> 2 ^ log2n (unat c)" using l by (intro power_increasing) simp_all
    ultimately show "2 ^ 27 \<le> unat c" by linarith
  qed
  finally show ?thesis .
qed


text \<open>The first nine bits decide a short code.\<close>

definition vlc_value :: "int \<Rightarrow> int" where
  "vlc_value b = (if b \<ge> 128 then b div 64 else if b \<ge> 64 then b div 16 else if b \<ge> 32 then b div 4 else b)"

lemma short_code:
  assumes v: "unat c div 2 ^ (31 - 2 * z) = n + 1" and z: "z = log2n (n + 1)" "z \<le> 4" and b: "b = unat (drop_bit 23 (c :: u32))"
  shows "16 \<le> b" "ff_golomb_vlc_len ! (b div 16) = 2 * z + 1" "b < 256 \<longleftrightarrow> 0 < n" "0 < n \<Longrightarrow> vlc_value (int b) = int n + 1"
proof -
  have n: "2 ^ z \<le> n + 1" "n + 1 < 2 ^ Suc z" using log2n_bounds [of "n + 1"] by (simp_all add: z(1))
  have "31 - 2 * z = 23 + (8 - 2 * z)" using z(2) by simp
  then have "b div 2 ^ (8 - 2 * z) = n + 1"
    using v unfolding b unat_drop by (simp only: power_add div_mult2_eq)
  then have q: "z = 0 \<Longrightarrow> n = 0 \<and> b div 256 = 1" "z = 1 \<Longrightarrow> 1 \<le> n \<and> n < 3 \<and> b div 64 = n + 1"
    "z = 2 \<Longrightarrow> 3 \<le> n \<and> n < 7 \<and> b div 16 = n + 1" "z = 3 \<Longrightarrow> 7 \<le> n \<and> n < 15 \<and> b div 4 = n + 1"
    "z = 4 \<Longrightarrow> 15 \<le> n \<and> n < 31 \<and> b = n + 1"
    using n by simp_all
  have "z = 0 \<Longrightarrow> n = 0 \<and> 256 \<le> b \<and> b < 512" using q(1) by linarith
  moreover have "z = 1 \<Longrightarrow> 0 < n \<and> 128 \<le> b \<and> b < 256 \<and> b div 64 = n + 1" using q(2) by linarith
  moreover have "z = 2 \<Longrightarrow> 0 < n \<and> 64 \<le> b \<and> b < 128 \<and> b div 16 = n + 1" using q(3) by linarith
  moreover have "z = 3 \<Longrightarrow> 0 < n \<and> 32 \<le> b \<and> b < 64 \<and> b div 4 = n + 1" using q(4) by linarith
  moreover have "z = 4 \<Longrightarrow> 0 < n \<and> 16 \<le> b \<and> b < 32 \<and> b = n + 1" using q(5) by linarith
  moreover have "z = 0 \<or> z = 1 \<or> z = 2 \<or> z = 3 \<or> z = 4" using z(2) by linarith
  ultimately consider
      "z = 0" "n = 0" "256 \<le> b" "b < 512" | "z = 1" "0 < n" "128 \<le> b" "b < 256" "b div 64 = n + 1"
    | "z = 2" "0 < n" "64 \<le> b" "b < 128" "b div 16 = n + 1" | "z = 3" "0 < n" "32 \<le> b" "b < 64" "b div 4 = n + 1"
    | "z = 4" "0 < n" "16 \<le> b" "b < 32" "b = n + 1"
    by blast
  note cs = this
  from cs show "16 \<le> b" by cases simp_all
  from cs show "b < 256 \<longleftrightarrow> 0 < n" by cases simp_all
  from cs have "b div 16 \<le> 31" "b div 16 \<noteq> 0" by (cases, simp_all)+
  then have t: "ff_golomb_vlc_len ! (b div 16) = (if int (b div 16) \<ge> 16 then 1 else if int (b div 16) \<ge> 8 then 3
      else if int (b div 16) \<ge> 4 then 5 else if int (b div 16) \<ge> 2 then 7 else 9)"
    using list_all2_upto [OF len_table_all, of "b div 16"] by simp
  from cs show "ff_golomb_vlc_len ! (b div 16) = 2 * z + 1"
    unfolding t by cases auto
  have d: "int b div 64 = int (b div 64)" "int b div 16 = int (b div 16)" "int b div 4 = int (b div 4)"
    by (simp_all only: zdiv_int of_nat_numeral)
  from cs show "0 < n \<Longrightarrow> vlc_value (int b) = int n + 1"
    unfolding vlc_value_def d by cases simp_all
qed

lemma vlc_codes:
  assumes "16 \<le> b" "b < 256"
  shows "ff_ue_golomb_vlc_code ! b = vlc_value (int b) - 1"
    "ff_se_golomb_vlc_code ! b = (if vlc_value (int b) mod 2 = 1 then - (vlc_value (int b) div 2) else vlc_value (int b) div 2)"
  using list_all2_upto [OF ue_table_all, of b] list_all2_upto [OF se_table_all, of b] assms
  unfolding vlc_value_def Let_def by auto

lemma sint_small: "n < 2 ^ 31 \<Longrightarrow> unat (w :: u32) = n \<Longrightarrow> sint w = int n"
  unfolding sint_uint uint_nat by (simp add: signed_take_bit_int_eq_self)


section \<open>The reading functions\<close>

lemma ue_code_short:
  assumes "n < 8191"
  shows "log2n (n + 1) \<le> 12"
proof -
  have "2 ^ log2n (n + 1) < (2 :: nat) ^ 13" using log2n_bounds [of "n + 1"] assms by simp
  then have "log2n (n + 1) < 13" by (rule power_less_imp_less_exp [rotated]) simp
  then show ?thesis by simp
qed

text \<open>Decoding an unsigned code gives its number and leaves the position behind it.\<close>

lemma ue_read:
  assumes a: "ahead s (ue_code n @ bs)" and n: "n < 8191"
  shows "H264_get_ue_golomb s = Ret (int n, adv (length (ue_code n)) s)"
proof -
  define z where "z = log2n (n + 1)"
  have z: "z \<le> 12" using ue_code_short [OF n] by (simp add: z_def)
  obtain c where c: "re_cache s = Ret c" "unat c div 2 ^ (31 - 2 * z) = n + 1" "log2n (unat c) = 31 - z" "H264_av_log2 c = 31 - z"
    using golomb_cache [OF a z_def z] by blast
  show ?thesis
  proof (cases "z \<le> 4")
    case True
    note sc = short_code [OF c(2) z_def True refl]
    show ?thesis
      using True c(1,3) sc vlc_codes(1) [OF sc(1)]
      by (auto simp: H264_get_ue_golomb_def cache_class ue_code_length adv_def z_def [symmetric, simplified])
  next
    case False
    have "unat (drop_bit (31 - 2 * z) c - 1) = n" using c(2) by (simp add: unat_drop unat_sub_if')
    then have "sint (drop_bit (31 - 2 * z) c - 1) = int n" using n by (intro sint_small) simp_all
    moreover have "\<not> 27 \<le> 31 - z" "\<not> 2 * (31 - z) < 31" "2 * (31 - z) - 31 = 31 - 2 * z" "32 - (31 - 2 * z) = 2 * z + 1"
      using z False by linarith+
    ultimately show ?thesis
      using False z c(1,3,4) by (simp add: H264_get_ue_golomb_def cache_class ue_code_length adv_def z_def [symmetric, simplified])
  qed
qed


lemma sint_neg_small:
  assumes "unat (w :: u32) = n" "n < 2 ^ 31"
  shows "sint (- w) = - int n"
proof -
  have "- w = word_of_int (- int n)" by (simp flip: assms(1))
  moreover have "sint (word_of_int (- int n) :: u32) = - int n"
    unfolding signed_of_int using assms(2) by (simp add: signed_take_bit_int_eq_self)
  ultimately show ?thesis by simp
qed

lemma se_index: "0 < (k :: int) \<Longrightarrow> (int (nat (2 * k - 1)) + 1) mod 2 = 0 \<and> (int (nat (2 * k - 1)) + 1) div 2 = k"
  "(k :: int) \<le> 0 \<Longrightarrow> (int (nat (- 2 * k)) + 1) mod 2 = 1 \<and> (int (nat (- 2 * k)) + 1) div 2 = - k"
proof -
  show "(int (nat (2 * k - 1)) + 1) mod 2 = 0 \<and> (int (nat (2 * k - 1)) + 1) div 2 = k" if "0 < k" using that by simp
  show "(int (nat (- 2 * k)) + 1) mod 2 = 1 \<and> (int (nat (- 2 * k)) + 1) div 2 = - k" if "k \<le> 0" using that by simp presburger
qed

lemma and_one_odd: "(w AND 1 \<noteq> 0) = odd (unat (w :: u32))"
proof -
  have "bit (unat w) 0 = bit w 0" by (simp only: bit_simps) simp
  then show ?thesis by (simp add: bit_0 and_one_eq odd_iff_mod_2_eq_one)
qed

text \<open>Decoding a signed code.\<close>

lemma se_read:
  assumes a: "ahead s (se_code k @ bs)" and k: "- 4096 < k" "k < 4096"
  shows "H264_get_se_golomb s = Ret (k, adv (length (se_code k)) s)"
proof -
  define n where "n = (if k > 0 then nat (2 * k - 1) else nat (- 2 * k))"
  define z where "z = log2n (n + 1)"
  have e: "se_code k = ue_code n" by (simp add: se_code_def n_def)
  have n: "n < 8191" using k by (auto simp: n_def)
  have r: "(if (int n + 1) mod 2 = 1 then - ((int n + 1) div 2) else (int n + 1) div 2) = k"
    using se_index [of k] by (auto simp: n_def)
  have z: "z \<le> 12" using ue_code_short [OF n] by (simp add: z_def)
  obtain c where c: "re_cache s = Ret c" "unat c div 2 ^ (31 - 2 * z) = n + 1" "log2n (unat c) = 31 - z" "H264_av_log2 c = 31 - z"
    using golomb_cache [OF a [unfolded e] z_def z] by blast
  show ?thesis
  proof (cases "z \<le> 4")
    case True
    note sc = short_code [OF c(2) z_def True refl]
    have "(if unat (drop_bit 23 c) < 256 then ff_se_golomb_vlc_code ! unat (drop_bit 23 c) else 0) = k"
      using r sc(3,4) vlc_codes(2) [OF sc(1)] by (auto simp: n_def split: if_splits)
    moreover have "27 \<le> 31 - z" using True by linarith
    ultimately show ?thesis
      using True c(1,3) sc(2)
      by (simp add: H264_get_se_golomb_def cache_class e ue_code_length adv_def z_def [symmetric, simplified])
  next
    case False
    let ?w = "drop_bit (31 - 2 * z) c"
    have u: "unat ?w = n + 1" "unat (drop_bit 1 ?w) = (n + 1) div 2" using c(2) by (simp_all add: unat_drop del: drop_bit_drop_bit)
    have "(?w AND 1 \<noteq> 0) = ((int n + 1) mod 2 = 1)"
      unfolding and_one_odd u(1) by presburger
    moreover have "sint (drop_bit 1 ?w) = (int n + 1) div 2" "sint (- drop_bit 1 ?w) = - ((int n + 1) div 2)"
      using sint_small [OF _ u(2)] sint_neg_small [OF u(2)] n by (simp_all add: zdiv_int)
    ultimately have "sint (if ?w AND 1 \<noteq> 0 then - drop_bit 1 ?w else drop_bit 1 ?w) = k"
      using r by (auto simp del: drop_bit_drop_bit split: if_splits)
    moreover have "\<not> 27 \<le> 31 - z" "\<not> 2 * (31 - z) < 31" "2 * (31 - z) - 31 = 31 - 2 * z" "32 - (31 - 2 * z) = 2 * z + 1"
      using z False by linarith+
    ultimately show ?thesis
      using False z c(1,3,4)
      by (simp add: H264_get_se_golomb_def cache_class e ue_code_length adv_def Let_def z_def [symmetric, simplified] del: drop_bit_drop_bit)
  qed
qed


lemma one_bit_read:
  assumes "ahead s (b # bs)"
  shows "H264_get_one_bit s = Ret (of_bool b, adv 1 s)"
proof -
  let ?r = "gb_index s mod 8" and ?p = "gb_buffer s ! (gb_index s div 8)"
  have "(gb_index s + Suc (length bs)) div 8 + 4 \<le> length (gb_buffer s)" using assms by (simp add: ahead_def)
  moreover have "gb_index s div 8 \<le> (gb_index s + Suc (length bs)) div 8" by (rule div_le_mono) simp
  ultimately have l: "gb_index s div 8 < length (gb_buffer s)" by linarith
  have b: "bit ?p (7 - ?r) = b" using assms by (auto simp: ahead_def stream_bit_def)
  have "ucast (drop_bit 7 (push_bit ?r ?p)) = (of_bool b :: u32)"
  proof (rule bit_word_eqI)
    fix n assume "n < LENGTH(32)"
    have "?r \<le> 7" by simp
    with b bit_u8_less [of ?p "7 + n - ?r"] show "bit (ucast (drop_bit 7 (push_bit ?r ?p)) :: u32) n = bit (of_bool b :: u32) n"
      by (auto simp: bit_simps)
  qed
  with l show ?thesis by (simp add: H264_get_one_bit_def adv_def Let_def)
qed

lemma skip_read: "H264_skip_bits n s = Ret ((), adv n s)"
  by (simp add: H264_skip_bits_def adv_def)

text \<open>Reading at most 25 bits: the value is extended with the sign of its first bit.\<close>

lemma bits_read:
  assumes a: "ahead s (cs @ bs)" and n: "n = length cs" "0 < n" "n \<le> 25"
  shows "H264_get_bits n s = Ret (word_of_nat (bits_value cs) OR (if hd cs then NOT (mask n) else 0), adv n s)"
proof -
  obtain c where c: "re_cache s = Ret c" "\<forall>k < length cs. bit c (31 - k) = cs ! k"
    using ahead_cache [OF ahead_prefix [OF a]] n(1,3) by auto
  have h: "bit c 31 = hd cs" using c(2) n(1,2) by (cases cs) auto
  have "ucast (drop_bit (32 - n) (scast c :: u64)) = (word_of_nat (bits_value cs) OR (if hd cs then NOT (mask n) else 0) :: u32)"
  proof (rule bit_word_eqI)
    fix k assume k: "k < LENGTH(32)"
    show "bit (ucast (drop_bit (32 - n) (scast c :: u64)) :: u32) k =
        bit (word_of_nat (bits_value cs) OR (if hd cs then NOT (mask n) else 0) :: u32) k"
    proof (cases "k < n")
      case True
      then have "31 - (n - Suc k) = 32 - n + k" using n(3) by simp
      then show ?thesis
        using True k n c(2) h spec [OF c(2), of "n - Suc k"] by (auto simp: bit_simps bit_horner_sum_bit_iff rev_nth)
    next
      case False
      then show ?thesis
        using k n h by (cases "n = k") (auto simp: bit_simps bit_horner_sum_bit_iff min_def)
    qed
  qed
  with c(1) show ?thesis by (simp add: H264_get_bits_def adv_def)
qed


section \<open>What the functions promise\<close>

lemma vlc_bounds: "16 \<le> b \<Longrightarrow> b < 256 \<Longrightarrow> 1 \<le> vlc_value b \<and> vlc_value b \<le> 31"
  unfolding vlc_value_def by auto

lemma vlc_len_bounds:
  assumes "16 \<le> b" "b < 512"
  shows "1 \<le> ff_golomb_vlc_len ! (b div 16)" "ff_golomb_vlc_len ! (b div 16) \<le> 9"
proof -
  have "b div 16 \<noteq> 0" "int (b div 16) \<le> 31" using assms by auto
  then have "ff_golomb_vlc_len ! (b div 16) \<in> {1, 3, 5, 7, 9}"
    using list_all2_upto [OF len_table_all, of "b div 16"] by (auto split: if_splits)
  then show "1 \<le> ff_golomb_vlc_len ! (b div 16)" "ff_golomb_vlc_len ! (b div 16) \<le> 9" by auto
qed

text \<open>A long code whose shift count is not negative has at most 16 bits of value.\<close>

lemma long_code:
  assumes "\<not> (c :: u32) \<ge> 0x08000000" "\<not> 2 * H264_av_log2 c < 31"
  shows "16 \<le> H264_av_log2 c" "H264_av_log2 c \<le> 26" "1 \<le> unat (drop_bit (2 * H264_av_log2 c - 31) c)"
    "unat (drop_bit (2 * H264_av_log2 c - 31) c) < 2 ^ 16"
proof -
  have "c \<noteq> 0" using assms(2) by (auto simp: H264_av_log2_def ff_log2_table_def)
  then have p: "0 < unat c" by (simp add: unat_gt_0)
  let ?l = "log2n (unat c)"
  note e = av_log2 [OF p]
  have l: "16 \<le> ?l" "?l \<le> 26" using assms e by (auto simp: cache_class)
  then show "16 \<le> H264_av_log2 c" "H264_av_log2 c \<le> 26" by (simp_all add: e)
  have b: "2 ^ ?l \<le> unat c" "unat c < 2 ^ Suc ?l" using log2n_bounds [OF p] by auto
  have "(2 :: nat) ^ (2 * ?l - 31) \<le> 2 ^ ?l" using l by (intro power_increasing) auto
  with b(1) have "2 ^ (2 * ?l - 31) \<le> unat c" by (rule order_trans [rotated])
  then show "1 \<le> unat (drop_bit (2 * H264_av_log2 c - 31) c)"
    by (simp add: e unat_drop Suc_le_eq div_greater_zero_iff)
  have "Suc ?l = (32 - ?l) + (2 * ?l - 31)" using l by linarith
  with b(2) have "unat c < 2 ^ (32 - ?l + (2 * ?l - 31))" by (simp only:)
  then have "unat c < 2 ^ (32 - ?l) * 2 ^ (2 * ?l - 31)" unfolding power_add .
  moreover have "(2 :: nat) ^ (32 - ?l) \<le> 2 ^ 16" using l by (intro power_increasing) auto
  then have "(2 :: nat) ^ (32 - ?l) * 2 ^ (2 * ?l - 31) \<le> 2 ^ 16 * 2 ^ (2 * ?l - 31)" by (rule mult_le_mono1)
  ultimately have "unat c < 2 ^ 16 * 2 ^ (2 * ?l - 31)" by (rule less_le_trans)
  then show "unat (drop_bit (2 * H264_av_log2 c - 31) c) < 2 ^ 16" by (simp add: e unat_drop div_less_iff_less_mult)
qed

text \<open>whatever the bytes are, an unsigned code that is decoded at all is a number of at most 16 bits,
  so that the arithmetic of \<open>int\<close> on it does not overflow, and it moves the reader by 1 to 31 bits.\<close>

theorem ue_golomb_bounds:
  assumes "H264_get_ue_golomb s = Ret (v, s1)"
  shows "0 \<le> v \<and> v < 2 ^ 16 \<and> gb_buffer s1 = gb_buffer s \<and> gb_index s < gb_index s1 \<and> gb_index s1 \<le> gb_index s + 31"
proof -
  obtain c where c: "re_cache s = Ret c" using assms by (auto simp: H264_get_ue_golomb_def bind_cpp_Ret_conv)
  show ?thesis
  proof (cases "c \<ge> 0x08000000")
    case True
    define b where "b = unat (drop_bit 23 c)"
    have "2 ^ 27 \<le> unat c" "unat c < 2 ^ 32" using True unsigned_less [of c] by (simp_all add: word_le_nat_alt)
    then have b: "16 \<le> b" "b < 512" unfolding b_def unat_drop by auto
    have "v = (if b < 256 then ff_ue_golomb_vlc_code ! b else 0)" "s1 = s\<lparr>gb_index := gb_index s + ff_golomb_vlc_len ! (b div 16)\<rparr>"
      using assms c True by (simp_all add: H264_get_ue_golomb_def Let_def b_def split: if_splits)
    then show ?thesis
      using vlc_len_bounds [OF b] vlc_codes(1) [OF b(1)] vlc_bounds [of "int b"] b(1) by (auto split: if_splits)
  next
    case False
    with assms c have g: "\<not> 2 * H264_av_log2 c < 31" by (auto simp: H264_get_ue_golomb_def split: if_splits)
    let ?log = "2 * H264_av_log2 c - 31"
    have v: "v = sint (drop_bit ?log c - 1)" "s1 = s\<lparr>gb_index := gb_index s + (32 - ?log)\<rparr>"
      using assms c False g by (simp_all add: H264_get_ue_golomb_def Let_def)
    note l = long_code [OF False g]
    have "unat (drop_bit ?log c - 1) = unat (drop_bit ?log c) - 1" using l(3) by (simp add: unat_sub_if')
    then have "v = int (unat (drop_bit ?log c) - 1)" unfolding v(1) using l(4) by (intro sint_small) simp_all
    moreover have "int (unat (drop_bit ?log c) - 1) < int (2 ^ 16)" using l(4) by (simp only: of_nat_less_iff)
    ultimately have "0 \<le> v" "v < 2 ^ 16" by simp_all
    then show ?thesis using v(2) l(1,2) by auto
  qed
qed

theorem ue_golomb_bounds_witness:
  "\<exists>v s1. H264_get_ue_golomb \<lparr>gb_buffer = [0, 2, 1, 9], gb_index = 3, gb_size_in_bits = 32\<rparr> = Ret (v, s1) \<and> 0 \<le> v \<and> v < 2 ^ 16"
proof -
  obtain v s1 where "H264_get_ue_golomb \<lparr>gb_buffer = [0, 2, 1, 9], gb_index = 3, gb_size_in_bits = 32\<rparr> = Ret (v, s1)"
    by (simp add: H264_get_ue_golomb_def re_cache_def H264_unaligned32_be_def get_int_def swap32_def H264_av_log2_def ff_log2_table_def)
  with ue_golomb_bounds [OF this] show ?thesis by blast
qed

text \<open>The decoders invert the exponential Golomb codes of at most 25 bits, signed and unsigned, at any
  position of the buffer, and leave the reader behind the code.\<close>

theorem golomb_roundtrip:
  assumes "n < 8191" "- 4096 < k" "k < 4096" "ahead s (ue_code n @ se_code k @ bs)"
  shows "bind_gb H264_get_ue_golomb (\<lambda>u. bind_gb H264_get_se_golomb (\<lambda>v. return_gb (u, v))) s =
    Ret ((int n, k), adv (length (ue_code n @ se_code k)) s)"
proof -
  have "H264_get_ue_golomb s = Ret (int n, adv (length (ue_code n)) s)" by (rule ue_read [OF assms(4,1)])
  moreover have "H264_get_se_golomb (adv (length (ue_code n)) s) = Ret (k, adv (length (se_code k)) (adv (length (ue_code n)) s))"
    by (rule se_read [OF ahead_append [OF assms(4)] assms(2,3)])
  ultimately show ?thesis by (simp add: bind_gb_def return_gb_def adv_def add.assoc)
qed

theorem golomb_roundtrip_witness:
  "bind_gb H264_get_ue_golomb (\<lambda>u. bind_gb H264_get_se_golomb (\<lambda>v. return_gb (u, v)))
     \<lparr>gb_buffer = [1, 0x52, 0x80, 0, 0, 0, 0], gb_index = 3, gb_size_in_bits = 56\<rparr> =
   Ret ((20, -2), \<lparr>gb_buffer = [1, 0x52, 0x80, 0, 0, 0, 0], gb_index = 17, gb_size_in_bits = 56\<rparr>)"
proof -
  let ?s = "\<lparr>gb_buffer = [1, 0x52, 0x80, 0, 0, 0, 0], gb_index = 3, gb_size_in_bits = 56\<rparr>"
  have "ahead ?s (ue_code 20 @ se_code (-2) @ [])" by code_simp
  from golomb_roundtrip [OF _ _ _ this] show ?thesis
    by (simp add: adv_def ue_code_length se_code_def log2n.simps)
qed

end
