(* ===== verification/Sps_Properties.thy ===== *)
theory Sps_Properties
  imports Sps_Decoder Bit_Reader_Properties
begin

text \<open>
  Decoding a parameter set gives back what was encoded: the syntax of the sequence parameter set is
  written down as a list of bits, and the reading functions are followed through it.
\<close>

section \<open>Reading against a list of bits\<close>

definition reads :: "'a bit_reader \<Rightarrow> bool list \<Rightarrow> 'a \<Rightarrow> bool" where
  "reads m cs x \<longleftrightarrow> (\<forall>s bs. ahead s (cs @ bs) \<longrightarrow> m s = Ret (x, adv (length cs) s))"

lemma adv_adv [simp]: "adv n (adv m s) = adv (m + n) s" "adv 0 s = s"
  by (simp_all add: adv_def add.assoc)

lemma reads_return [simp]: "reads (return_gb x) [] x"
  by (simp add: reads_def return_gb_def)

lemma reads_bind:
  assumes "reads m cs x" "reads (f x) ds y"
  shows "reads (bind_gb m f) (cs @ ds) y"
  unfolding reads_def
proof (intro allI impI)
  fix s bs assume a: "ahead s ((cs @ ds) @ bs)"
  then have "m s = Ret (x, adv (length cs) s)" using assms(1) unfolding reads_def append_assoc by blast
  moreover have "ahead (adv (length cs) s) (ds @ bs)" using a by (auto intro: ahead_append)
  then have "f x (adv (length cs) s) = Ret (y, adv (length ds) (adv (length cs) s))" using assms(2) unfolding reads_def by blast
  ultimately show "bind_gb m f s = Ret (y, adv (length (cs @ ds)) s)" by (simp add: bind_gb_def)
qed

text \<open>A code: how a value is written and what reading it returns.\<close>

locale bit_code =
  fixes rd :: "'a bit_reader" and code :: "'b \<Rightarrow> bool list" and val :: "'b \<Rightarrow> 'a" and ok :: "'b \<Rightarrow> bool"
  assumes read_code: "ok x \<Longrightarrow> reads rd (code x) (val x)"
begin

lemma read_then: "ok x \<Longrightarrow> reads (f (val x)) ds y \<Longrightarrow> reads (bind_gb rd f) (code x @ ds) y"
  by (rule reads_bind [OF read_code])

lemma read_list: "list_all ok xs \<Longrightarrow> reads (repeat_gb (length xs) rd) (concat (map code xs)) ()"
proof (induction xs)
  case (Cons x xs)
  then have "reads (repeat_gb (length xs) rd) (concat (map code xs)) ()" by simp
  with Cons.prems show ?case by (simp add: read_then)
qed simp

end

definition ue_ok :: "nat \<Rightarrow> bool" where
  "ue_ok n \<longleftrightarrow> n < 8191"

definition se_ok :: "int \<Rightarrow> bool" where
  "se_ok k \<longleftrightarrow> - 4096 < k \<and> k < 4096"

interpretation ue: bit_code H264_get_ue_golomb ue_code int ue_ok
  by unfold_locales (auto simp: reads_def ue_ok_def intro: ue_read)

interpretation se: bit_code H264_get_se_golomb se_code id se_ok
  by unfold_locales (auto simp: reads_def se_ok_def intro: se_read)

interpretation flag: bit_code H264_get_one_bit "\<lambda>b. [b]" "of_bool :: bool \<Rightarrow> u32" "\<lambda>_. True"
  by unfold_locales (auto simp: reads_def dest: one_bit_read)

interpretation skip: bit_code "H264_skip_bits n" id "\<lambda>_. ()" "\<lambda>cs. length cs = n"
  by unfold_locales (auto simp: reads_def skip_read)

interpretation bits: bit_code "H264_get_bits n" id
    "\<lambda>cs. word_of_nat (bits_value cs) OR (if hd cs then NOT (mask n) else 0) :: u32" "\<lambda>cs. length cs = n \<and> 0 < n \<and> n \<le> 25"
  by unfold_locales (auto simp: reads_def bits_read)

lemma reads_skip_one: "reads H264_skip_one_bits [b] ()"
  using skip.read_code [of "[b]" 1] by (simp add: H264_skip_one_bits_def)


section \<open>The syntax of a sequence parameter set\<close>

definition fixed_bits :: "nat \<Rightarrow> nat \<Rightarrow> bool list" where
  "fixed_bits n v = rev (map (bit v) [0..<n])"

definition opt_bits :: "('a \<Rightarrow> bool list) \<Rightarrow> 'a option \<Rightarrow> bool list" where
  "opt_bits f x = (case x of None \<Rightarrow> [False] | Some y \<Rightarrow> True # f y)"

text \<open>The differences of a scaling list end where the next scale is zero.\<close>

fun deltas_ok :: "nat \<Rightarrow> int \<Rightarrow> int \<Rightarrow> int list \<Rightarrow> bool" where
  "deltas_ok 0 lst nxt ds = (ds = [])"
| "deltas_ok (Suc j) lst nxt ds =
     (if nxt = 0 then deltas_ok j lst nxt ds
      else (case ds of [] \<Rightarrow> False
            | d # r \<Rightarrow> se_ok d \<and> (let n = (lst + d) mod 256 in deltas_ok j (if n \<noteq> 0 then n else lst) n r)))"

datatype poc = Poc0 nat | Poc1 bool int int "int list" | Poc2

fun poc_bits :: "poc \<Rightarrow> bool list" where
  "poc_bits (Poc0 n) = ue_code 0 @ ue_code n"
| "poc_bits (Poc1 b x y offs) = ue_code 1 @ [b] @ se_code x @ se_code y @ ue_code (length offs) @ concat (map se_code offs)"
| "poc_bits Poc2 = ue_code 2"

fun poc_ok :: "poc \<Rightarrow> bool" where
  "poc_ok (Poc0 n) = ue_ok n"
| "poc_ok (Poc1 b x y offs) = (se_ok x \<and> se_ok y \<and> ue_ok (length offs) \<and> list_all se_ok offs)"
| "poc_ok Poc2 = True"

record high_profile =
  hp_chroma_format :: nat
  hp_luma_depth :: nat
  hp_chroma_depth :: nat
  hp_bypass :: bool
  hp_scaling :: "int list option list option"

definition high_bits :: "high_profile \<Rightarrow> bool list" where
  "high_bits h = ue_code (hp_chroma_format h) @ ue_code (hp_luma_depth h) @ ue_code (hp_chroma_depth h) @ [hp_bypass h] @
     opt_bits (\<lambda>ls. concat (map (opt_bits (\<lambda>ds. concat (map se_code ds))) ls)) (hp_scaling h)"

definition lists_ok :: "nat list \<Rightarrow> int list option list \<Rightarrow> bool" where
  "lists_ok idxs ls \<longleftrightarrow> list_all2 (\<lambda>idx l. \<forall>ds. l = Some ds \<longrightarrow> deltas_ok (if idx \<ge> 6 then 64 else 16) 8 8 ds) idxs ls"

definition high_ok :: "high_profile \<Rightarrow> bool" where
  "high_ok h \<longleftrightarrow> ue_ok (hp_chroma_format h) \<and> ue_ok (hp_luma_depth h) \<and> ue_ok (hp_chroma_depth h) \<and>
     (\<forall>ls. hp_scaling h = Some ls \<longrightarrow> lists_ok [0..<8] ls)"

text \<open>The usability information up to the timing; the number of a sample aspect ratio is not the one
  for an explicit ratio, and the lower halves of the timing words have no upper bit.\<close>

record usability =
  vui_aspect :: "nat option"
  vui_overscan :: "bool option"
  vui_signal :: "(bool list \<times> bool list option) option"
  vui_chroma_loc :: "(nat \<times> nat) option"
  vui_timing :: "(nat \<times> nat) option"

definition vui_bits :: "usability \<Rightarrow> bool list" where
  "vui_bits v = opt_bits (fixed_bits 8) (vui_aspect v) @ opt_bits (\<lambda>b. [b]) (vui_overscan v) @
     opt_bits (\<lambda>(fmt, desc). fmt @ opt_bits id desc) (vui_signal v) @
     opt_bits (\<lambda>(t, b). ue_code t @ ue_code b) (vui_chroma_loc v) @
     opt_bits (\<lambda>(u, t). fixed_bits 32 u @ fixed_bits 32 t) (vui_timing v)"

definition vui_ok :: "usability \<Rightarrow> bool" where
  "vui_ok v \<longleftrightarrow> (\<forall>n. vui_aspect v = Some n \<longrightarrow> n < 255) \<and>
     (\<forall>fmt desc. vui_signal v = Some (fmt, desc) \<longrightarrow> length fmt = 4 \<and> (\<forall>d. desc = Some d \<longrightarrow> length d = 24)) \<and>
     (\<forall>t b. vui_chroma_loc v = Some (t, b) \<longrightarrow> ue_ok t \<and> ue_ok b) \<and>
     (\<forall>u t. vui_timing v = Some (u, t) \<longrightarrow> 0 < u \<and> u < 2 ^ 30 \<and> \<not> bit u 15 \<and> t < 2 ^ 31 \<and> \<not> bit t 15)"

definition vui_rate :: "int \<Rightarrow> usability \<Rightarrow> int" where
  "vui_rate r v = (case vui_timing v of None \<Rightarrow> r | Some (u, t) \<Rightarrow> int (t div (2 * u)))"

record h264_params =
  p_profile :: nat
  p_level :: "bool list"
  p_id :: nat
  p_high :: high_profile
  p_frame_num :: nat
  p_poc :: poc
  p_refs :: nat
  p_gaps :: bool
  p_width_mbs :: nat
  p_height_mbs :: nat
  p_frame_mbs_only :: bool
  p_adaptive :: bool
  p_direct :: bool
  p_crop :: "(nat \<times> nat \<times> nat \<times> nat) option"
  p_vui :: "usability option"

definition crop_bits :: "(nat \<times> nat \<times> nat \<times> nat) option \<Rightarrow> bool list" where
  "crop_bits = opt_bits (\<lambda>(l, r, t, b). ue_code l @ ue_code r @ ue_code t @ ue_code b)"

definition crop_ok :: "(nat \<times> nat \<times> nat \<times> nat) option \<Rightarrow> bool" where
  "crop_ok c \<longleftrightarrow> (\<forall>l r t b. c = Some (l, r, t, b) \<longrightarrow> ue_ok l \<and> ue_ok r \<and> ue_ok t \<and> ue_ok b)"

definition crop_val :: "(nat \<times> nat \<times> nat \<times> nat) option \<Rightarrow> int \<times> int \<times> int \<times> int" where
  "crop_val c = (case c of None \<Rightarrow> (0, 0, 0, 0) | Some (l, r, t, b) \<Rightarrow> (int l, int r, int t, int b))"

definition h264_bits :: "h264_params \<Rightarrow> bool list" where
  "h264_bits p = fixed_bits 8 (p_profile p) @ p_level p @ ue_code (p_id p) @
     (if p_profile p \<ge> 100 then high_bits (p_high p) else []) @ ue_code (p_frame_num p) @ poc_bits (p_poc p) @
     ue_code (p_refs p) @ [p_gaps p] @ ue_code (p_width_mbs p) @ ue_code (p_height_mbs p) @ [p_frame_mbs_only p] @
     (if p_frame_mbs_only p then [] else [p_adaptive p]) @ [p_direct p] @ crop_bits (p_crop p) @ opt_bits vui_bits (p_vui p)"

definition h264_ok :: "h264_params \<Rightarrow> bool" where
  "h264_ok p \<longleftrightarrow> p_profile p < 256 \<and> length (p_level p) = 16 \<and> ue_ok (p_id p) \<and> high_ok (p_high p) \<and> ue_ok (p_frame_num p) \<and>
     poc_ok (p_poc p) \<and> ue_ok (p_refs p) \<and> ue_ok (p_width_mbs p) \<and> ue_ok (p_height_mbs p) \<and> crop_ok (p_crop p) \<and>
     (\<forall>v. p_vui p = Some v \<longrightarrow> vui_ok v)"


text \<open>The picture size of the standard: the chroma format (4:2:0 where the profile does not give one) decides
  the units in which the frame is cropped, and a frame that may consist of fields has twice as many rows as the
  map units say.\<close>

definition high_profiles :: "nat list" where
  "high_profiles = [100, 110, 122, 244, 44, 83, 86, 118, 128, 138, 139, 134, 135]"

definition h264_chroma :: "h264_params \<Rightarrow> nat" where
  "h264_chroma p = (if p_profile p \<in> set high_profiles then hp_chroma_format (p_high p) else 1)"

definition sub_width_c :: "nat \<Rightarrow> int" where
  "sub_width_c chroma = (if chroma = 1 \<or> chroma = 2 then 2 else 1)"

definition sub_height_c :: "nat \<Rightarrow> int" where
  "sub_height_c chroma = (if chroma = 1 then 2 else 1)"

definition h264_size :: "h264_params \<Rightarrow> int \<times> int" where
  "h264_size p =
     (let fields = (if p_frame_mbs_only p then 1 else 2);
          crop_unit_x = sub_width_c (h264_chroma p);
          crop_unit_y = sub_height_c (h264_chroma p) * fields;
          (l, r, t, b) = crop_val (p_crop p)
      in (16 * (int (p_width_mbs p) + 1) - crop_unit_x * (l + r),
          16 * (fields * (int (p_height_mbs p) + 1)) - crop_unit_y * (t + b)))"

text \<open>The parameter sets for which the decoder follows the standard: the profiles from 100 on are those with
  the additional fields, the chroma format is not 4:4:4 (which has one more flag and more scaling lists), there are
  only frames, and the frame is cropped only in the format 4:2:0.\<close>

definition h264_supported :: "h264_params \<Rightarrow> bool" where
  "h264_supported p \<longleftrightarrow> (100 \<le> p_profile p \<longleftrightarrow> p_profile p \<in> set high_profiles) \<and>
     h264_chroma p \<noteq> 3 \<and> p_frame_mbs_only p \<and> (p_crop p = None \<or> h264_chroma p = 1)"


section \<open>Following the syntax\<close>

lemma reads_poc:
  assumes "poc_ok p"
  shows "\<exists>k \<le> 2. reads sps_poc (poc_bits p) k"
proof (cases p)
  case (Poc0 n)
  then have "reads sps_poc (ue_code 0 @ (ue_code n @ []) @ []) (int 0)"
    unfolding sps_poc_def using assms
    by (intro ue.read_then reads_bind) (simp_all add: ue_ok_def ue.read_then [of n _ "[]", simplified] ue_ok_def)
  with Poc0 show ?thesis by (intro exI [of _ 0]) simp
next
  case (Poc1 b x y offs)
  have "reads sps_poc (ue_code 1 @ ([b] @ se_code x @ se_code y @ ue_code (length offs) @ concat (map se_code offs)) @ []) (int 1)"
    unfolding sps_poc_def using assms Poc1
    by (intro ue.read_then reads_bind)
       (simp_all add: ue_ok_def reads_bind [OF reads_skip_one, simplified] se.read_then ue.read_then se.read_list ue_ok_def)
  with Poc1 show ?thesis by (intro exI [of _ 1]) simp
next
  case Poc2
  have "reads sps_poc (ue_code 2 @ [] @ []) (int 2)"
    unfolding sps_poc_def by (intro ue.read_then reads_bind) (simp_all add: ue_ok_def)
  with Poc2 show ?thesis by (intro exI [of _ 2]) simp
qed

lemma reads_crop: "crop_ok c \<Longrightarrow> reads sps_crop (crop_bits c) (crop_val c)"
proof (cases c)
  case None
  have "reads sps_crop ([False] @ []) (0, 0, 0, 0)"
    unfolding sps_crop_def by (intro flag.read_then) simp_all
  with None show ?thesis by (simp add: crop_bits_def opt_bits_def crop_val_def)
next
  case (Some q)
  obtain l r t b where q: "q = (l, r, t, b)" by (cases q)
  assume "crop_ok c"
  with Some q have "reads sps_crop ([True] @ ue_code l @ ue_code r @ ue_code t @ ue_code b @ []) (int l, int r, int t, int b)"
    unfolding sps_crop_def by (intro flag.read_then) (simp_all add: crop_ok_def ue.read_then [of _ _ _ _] del: append_Nil2)
  with Some q show ?thesis by (simp add: crop_bits_def opt_bits_def crop_val_def)
qed


lemma reads_scaling_list: "deltas_ok n lst nxt ds \<Longrightarrow> reads (scaling_list n lst nxt) (concat (map se_code ds)) ()"
proof (induction n arbitrary: lst nxt ds)
  case (Suc j)
  show ?case
  proof (cases "nxt = 0")
    case True
    with Suc have "reads (scaling_list j lst 0) (concat (map se_code ds)) ()" by simp
    then have "reads (bind_gb (return_gb 0) (\<lambda>n. scaling_list j (if n \<noteq> 0 then n else lst) n)) ([] @ concat (map se_code ds)) ()"
      by (intro reads_bind [OF reads_return]) simp
    with True show ?thesis by simp
  next
    case False
    with Suc.prems obtain d r where ds: "ds = d # r" "se_ok d" by (auto split: list.splits)
    define m where "m = (lst + d) mod 256"
    have "reads (bind_gb H264_get_se_golomb (\<lambda>d. return_gb ((lst + d) mod 256))) (se_code d @ []) m"
      by (rule se.read_then) (simp_all add: ds m_def)
    moreover have "reads (scaling_list j (if m \<noteq> 0 then m else lst) m) (concat (map se_code r)) ()"
      by (rule Suc.IH) (use Suc.prems False ds in \<open>simp add: m_def Let_def split: if_splits\<close>)
    ultimately show ?thesis using False by (simp add: ds reads_bind [where x = m])
  qed
qed simp

interpretation flag1: bit_code "H264_get_bits 1" "\<lambda>b. [b]" "\<lambda>b. if b then - 1 else 0 :: u32" "\<lambda>_. True"
proof
  fix b
  have "(1 :: u32) OR NOT (mask (Suc 0)) = - 1" by (simp add: mask_eq_exp_minus_1)
  then show "reads (H264_get_bits 1) [b] (if b then - 1 else 0)"
    using bits.read_code [of "[b]" 1] by (cases b) (simp_all add: mask_eq_exp_minus_1)
qed

interpretation skip1: bit_code "H264_skip_bits 1" "\<lambda>b. [b]" "\<lambda>_. ()" "\<lambda>_. True"
  using skip.read_code [of _ 1] by unfold_locales simp

lemma reads_matrix: "lists_ok idxs ls \<Longrightarrow> reads (scaling_matrix idxs) (concat (map (opt_bits (\<lambda>ds. concat (map se_code ds))) ls)) ()"
  unfolding lists_ok_def
proof (induction idxs ls rule: list_all2_induct)
  case (Cons idx idxs l ls)
  have "reads (if (if l \<noteq> None then - 1 else 0) \<noteq> (0 :: u32) then scaling_list (if idx \<ge> 6 then 64 else 16) 8 8 else return_gb ())
      (case l of None \<Rightarrow> [] | Some ds \<Rightarrow> concat (map se_code ds)) ()"
    using Cons(1) by (cases l) (auto intro: reads_scaling_list)
  then have "reads (scaling_matrix (idx # idxs)) ([l \<noteq> None] @ (case l of None \<Rightarrow> [] | Some ds \<Rightarrow> concat (map se_code ds)) @
      concat (map (opt_bits (\<lambda>ds. concat (map se_code ds))) ls)) ()"
    unfolding scaling_matrix.simps by (intro flag1.read_then reads_bind Cons(3)) simp_all
  moreover have "opt_bits f l = [l \<noteq> None] @ (case l of None \<Rightarrow> [] | Some ds \<Rightarrow> f ds)" for f :: "int list \<Rightarrow> bool list"
    by (cases l) (simp_all add: opt_bits_def)
  ultimately show ?case by (simp only: list.map concat.simps append_assoc)
qed simp

lemma reads_high:
  assumes "high_ok h"
  shows "reads sps_high_profile (high_bits h) ()"
proof -
  let ?f = "\<lambda>ls. concat (map (opt_bits (\<lambda>ds. concat (map se_code ds))) ls)"
  have m: "reads (if (if hp_scaling h \<noteq> None then - 1 else 0) \<noteq> (0 :: u32) then scaling_matrix [0..<8] else return_gb ())
      (case hp_scaling h of None \<Rightarrow> [] | Some ls \<Rightarrow> ?f ls) ()"
    using assms by (cases "hp_scaling h") (auto simp: high_ok_def intro: reads_matrix)
  have "reads sps_high_profile (ue_code (hp_chroma_format h) @ ue_code (hp_luma_depth h) @ ue_code (hp_chroma_depth h) @ [hp_bypass h] @
      [hp_scaling h \<noteq> None] @ (case hp_scaling h of None \<Rightarrow> [] | Some ls \<Rightarrow> ?f ls)) ()"
    unfolding sps_high_profile_def
    by (intro ue.read_then skip1.read_then flag1.read_then m) (use assms in \<open>simp_all add: high_ok_def\<close>)
  then show ?thesis by (cases "hp_scaling h") (simp_all add: high_bits_def opt_bits_def)
qed

lemma reads_if_bit:
  assumes "\<And>y. x = Some y \<Longrightarrow> \<exists>v. reads rd (f y) v"
  shows "reads (if_bit rd) (opt_bits f x) ()"
proof (cases x)
  case None
  have "reads (if_bit rd) ([False] @ []) ()"
    unfolding if_bit_def by (intro flag.read_then) simp_all
  with None show ?thesis by (simp add: opt_bits_def)
next
  case (Some y)
  with assms obtain v where v: "reads rd (f y) v" by blast
  have "reads (if_bit rd) ([True] @ f y @ []) ()"
    unfolding if_bit_def by (intro flag.read_then) (simp_all add: reads_bind [OF v, where ds = "[]", simplified])
  with Some show ?thesis by (simp add: opt_bits_def)
qed


lemma fixed_bits_length [simp]: "length (fixed_bits n v) = n"
  by (simp add: fixed_bits_def)

lemma fixed_bits_value: "v < 2 ^ n \<Longrightarrow> bits_value (fixed_bits n v) = v"
  by (simp add: fixed_bits_def horner_sum_bit_eq_take_bit take_bit_nat_eq_self)

lemma fixed_bits_hd: "0 < n \<Longrightarrow> hd (fixed_bits n v) = bit v (n - 1)"
  by (cases n) (simp_all add: fixed_bits_def)

lemma fixed_bits_split: "fixed_bits (n + m) v = fixed_bits n (drop_bit m v) @ fixed_bits m v"
proof -
  have "map (bit v) [0..<n + m] = map (bit v) [0..<m] @ map (bit v) (map ((+) m) [0..<n])"
    by (rule nth_equalityI) (auto simp: nth_append)
  then show ?thesis by (simp add: fixed_bits_def bit_drop_bit_eq o_def)
qed

text \<open>A timing word is read in two halves.\<close>

lemma reads_long:
  assumes v: "v < 2 ^ 31" "\<not> bit v 15"
  shows "reads (get_bits_long 32) (fixed_bits 32 v) (word_of_nat v)"
proof -
  let ?h = "drop_bit 16 v" and ?l = "take_bit 16 v"
  have h: "?h < 2 ^ 15" using v(1) by (simp add: drop_bit_eq_div div_less_iff_less_mult)
  have l: "fixed_bits 16 v = fixed_bits 16 ?l" "bit ?l 15 = bit v 15"
    by (simp_all add: fixed_bits_def bit_take_bit_iff)
  have hb: "\<not> bit ?h 15" using h unfolding bit_iff_odd by simp
  have "reads (H264_get_bits 16) (fixed_bits 16 ?h) (word_of_nat ?h)"
    using bits.read_code [of "fixed_bits 16 ?h" 16] fixed_bits_value [of ?h 16] fixed_bits_hd [of 16 ?h] h hb by simp
  moreover have "reads (H264_get_bits 16) (fixed_bits 16 ?l) (word_of_nat ?l)"
    using bits.read_code [of "fixed_bits 16 ?l" 16] fixed_bits_value [of ?l 16, OF take_bit_nat_less_exp] fixed_bits_hd [of 16 ?l] l v(2) by simp
  moreover have "get_bits_long 32 = bind_gb (H264_get_bits 16) (\<lambda>hi. bind_gb (H264_get_bits 16) (\<lambda>lo. return_gb (push_bit 16 hi OR lo)))"
    by (simp add: get_bits_long_def)
  ultimately have "reads (get_bits_long 32) (fixed_bits 16 ?h @ fixed_bits 16 ?l @ []) (push_bit 16 (word_of_nat ?h) OR word_of_nat ?l)"
    by (simp only:) (rule reads_bind, assumption, rule reads_bind, assumption, simp)
  moreover have "push_bit 16 (word_of_nat ?h) OR word_of_nat ?l = (word_of_nat v :: u32)"
  proof -
    have "bit (push_bit 16 ?h OR ?l) n = bit v n" for n
      by (auto simp: bit_simps)
    then have "push_bit 16 ?h OR ?l = v" by (intro bit_eqI) simp
    then have "(word_of_nat (push_bit 16 ?h OR ?l) :: u32) = word_of_nat v" by (simp only:)
    then show ?thesis by (simp only: of_nat_or_eq of_nat_push_bit)
  qed
  ultimately show ?thesis using fixed_bits_split [of 16 16 v] l(1) by simp
qed

lemma frame_rate_val:
  assumes "0 < u" "u < 2 ^ 30" "t < 2 ^ 31"
  shows "frame_rate (word_of_nat u) (word_of_nat t) r = Ret (int (t div (2 * u)))"
proof -
  have "unat (word_of_nat u :: u32) = u" "unat (word_of_nat t :: u32) = t"
    using assms by (simp_all add: unat_of_nat)
  then have "sint (word_of_nat u :: u32) = int u" "sint (word_of_nat t :: u32) = int t" "word_of_nat u \<noteq> (0 :: u32)"
    using sint_small [of u] sint_small [of t] assms by auto
  moreover have "sgn (int t) * (int t div (2 * int u)) = int t div (2 * int u)"
    by (cases "t = 0") simp_all
  ultimately show ?thesis using assms by (simp add: frame_rate_def Let_def zdiv_int)
qed

lemma reads_timing:
  assumes "0 < u" "u < 2 ^ 30" "\<not> bit u 15" "t < 2 ^ 31" "\<not> bit t 15"
  shows "reads (bind_gb (get_bits_long 32) (\<lambda>n. bind_gb (get_bits_long 32) (\<lambda>t gb.
      bind_cpp (frame_rate n t r) (\<lambda>r. Ret (r, gb))))) (fixed_bits 32 u @ fixed_bits 32 t @ []) (int (t div (2 * u)))"
proof (rule reads_bind [OF reads_long])
  have "reads (\<lambda>gb. bind_cpp (frame_rate (word_of_nat u) (word_of_nat t) r) (\<lambda>r. Ret (r, gb))) [] (int (t div (2 * u)))"
    using assms by (simp add: reads_def frame_rate_val)
  with assms show "reads (bind_gb (get_bits_long 32) (\<lambda>t gb. bind_cpp (frame_rate (word_of_nat u) t r) (\<lambda>r. Ret (r, gb))))
      (fixed_bits 32 t @ []) (int (t div (2 * u)))"
    by (intro reads_bind [OF reads_long])
qed (use assms in simp_all)

lemma reads_aspect:
  assumes "n < 255"
  shows "reads (bind_gb (H264_get_bits 8) (\<lambda>tmp. if sint tmp = 255 then H264_skip_bits 32 else return_gb ())) (fixed_bits 8 n) ()"
proof -
  let ?w = "word_of_nat n OR (if bit n 7 then NOT (mask 8) else 0) :: u32"
  have v: "bits_value (fixed_bits 8 n) = n" using assms by (intro fixed_bits_value) simp
  have "reads (H264_get_bits 8) (fixed_bits 8 n) ?w"
    using bits.read_code [of "fixed_bits 8 n" 8] by (simp add: v fixed_bits_hd)
  moreover have "?w \<noteq> 255"
  proof
    assume e: "?w = 255"
    show False
    proof (cases "bit n 7")
      case True
      with e have "bit (word_of_nat n OR NOT (mask 8) :: u32) 8 = bit (255 :: u32) 8" by simp
      then show False using bit_byte_masks(1) [of 8] by (simp add: bit_simps del: bit_numeral_word_iff)
    next
      case False
      with e have "(word_of_nat n :: u32) = 255" by simp
      then have "unat (word_of_nat n :: u32) = 255" by (simp only:) simp
      with assms show False by (simp add: unat_of_nat)
    qed
  qed
  then have "sint ?w \<noteq> sint (255 :: u32)" by (metis signed_word_eqI)
  then have "sint ?w \<noteq> 255" by simp
  ultimately show ?thesis using reads_bind [of _ _ ?w _ "[]" "()"] by simp
qed

lemma opt_bits_conv: "opt_bits f x = [x \<noteq> None] @ (case x of None \<Rightarrow> [] | Some y \<Rightarrow> f y)"
  by (cases x) (simp_all add: opt_bits_def)

lemma reads_three_bytes:
  assumes "length d = 24"
  shows "reads (bind_gb (H264_skip_bits 8) (\<lambda>_. bind_gb (H264_skip_bits 8) (\<lambda>_. H264_skip_bits 8))) d ()"
proof -
  have "reads (bind_gb (H264_skip_bits 8) (\<lambda>_. bind_gb (H264_skip_bits 8) (\<lambda>_. H264_skip_bits 8)))
      (id (take 8 d) @ id (take 8 (drop 8 d)) @ id (drop 8 (drop 8 d))) ()"
    by (intro skip.read_then skip.read_code) (simp_all add: assms)
  then show ?thesis by (simp only: id_apply append_take_drop_id)
qed

lemma reads_signal:
  assumes "length fmt = 4" "\<And>d. desc = Some d \<Longrightarrow> length d = 24"
  shows "reads (bind_gb (H264_skip_bits 3) (\<lambda>_. bind_gb H264_skip_one_bits (\<lambda>_.
     if_bit (bind_gb (H264_skip_bits 8) (\<lambda>_. bind_gb (H264_skip_bits 8) (\<lambda>_. H264_skip_bits 8))))))
     (fmt @ opt_bits id desc) ()"
proof -
  obtain a b c e where f: "fmt = [a, b, c, e]" using assms(1) by (auto simp: length_Suc_conv numeral_eq_Suc)
  have "reads (bind_gb (H264_skip_bits 3) (\<lambda>_. bind_gb H264_skip_one_bits (\<lambda>_.
     if_bit (bind_gb (H264_skip_bits 8) (\<lambda>_. bind_gb (H264_skip_bits 8) (\<lambda>_. H264_skip_bits 8))))))
     (id [a, b, c] @ [e] @ opt_bits id desc) ()"
    by (intro skip.read_then reads_bind [OF reads_skip_one] reads_if_bit)
       (auto intro!: exI reads_three_bytes simp: assms(2))
  with f show ?thesis by simp
qed

lemma reads_vui:
  assumes "vui_ok v"
  shows "reads (sps_vui r) (vui_bits v) (vui_rate r v)"
proof -
  have aspect: "\<exists>x. reads (bind_gb (H264_get_bits 8) (\<lambda>tmp. if sint tmp = 255 then H264_skip_bits 32 else return_gb ())) (fixed_bits 8 y) x"
    if "vui_aspect v = Some y" for y using assms that reads_aspect by (auto simp: vui_ok_def)
  have overscan: "\<exists>x. reads H264_skip_one_bits [y] x" if "vui_overscan v = Some y" for y using reads_skip_one by blast
  have signal: "\<exists>x. reads (bind_gb (H264_skip_bits 3) (\<lambda>_. bind_gb H264_skip_one_bits (\<lambda>_.
       if_bit (bind_gb (H264_skip_bits 8) (\<lambda>_. bind_gb (H264_skip_bits 8) (\<lambda>_. H264_skip_bits 8))))))
       (case y of (fmt, desc) \<Rightarrow> fmt @ opt_bits id desc) x" if "vui_signal v = Some y" for y
    using assms that by (cases y) (auto simp: vui_ok_def intro!: exI reads_signal)
  have chroma: "\<exists>x. reads (bind_gb H264_get_ue_golomb (\<lambda>_. H264_get_ue_golomb)) (case y of (t, b) \<Rightarrow> ue_code t @ ue_code b) x"
    if "vui_chroma_loc v = Some y" for y
    using assms that by (cases y) (auto simp: vui_ok_def intro!: exI ue.read_then ue.read_code)
  have timing: "reads (if of_bool (vui_timing v \<noteq> None) \<noteq> (0 :: u32) then
       bind_gb (get_bits_long 32) (\<lambda>n. bind_gb (get_bits_long 32) (\<lambda>t gb. bind_cpp (frame_rate n t r) (\<lambda>r. Ret (r, gb))))
     else return_gb r) (case vui_timing v of None \<Rightarrow> [] | Some (u, t) \<Rightarrow> fixed_bits 32 u @ fixed_bits 32 t) (vui_rate r v)"
    using assms by (cases "vui_timing v") (auto simp: vui_ok_def vui_rate_def intro: reads_timing [simplified append_Nil2])
  show ?thesis
    unfolding vui_bits_def sps_vui_def opt_bits_conv [of _ "vui_timing v"]
    by (intro reads_bind [OF reads_if_bit] flag.read_then timing aspect overscan signal chroma) simp_all
qed


text \<open>The profile number is compared as an unsigned number, which the sign extension only makes larger.\<close>

lemma reads_profile:
  assumes "n < 256"
  obtains w where "reads (H264_get_bits 8) (fixed_bits 8 n) w" "(100 \<le> w) = (100 \<le> n)"
proof -
  let ?w = "word_of_nat n OR (if bit n 7 then NOT (mask 8) else 0) :: u32"
  have v: "bits_value (fixed_bits 8 n) = n" using assms by (intro fixed_bits_value) simp
  have r: "reads (H264_get_bits 8) (fixed_bits 8 n) ?w"
    using bits.read_code [of "fixed_bits 8 n" 8] by (simp add: v fixed_bits_hd)
  have "(100 \<le> ?w) = (100 \<le> n)"
  proof (cases "bit n 7")
    case True
    then have n: "128 \<le> n" by (auto simp: bit_iff_odd intro!: leI)
    have "100 \<le> ?w"
    proof (rule ccontr)
      assume "\<not> 100 \<le> ?w"
      then have "unat ?w div 2 ^ 31 = 0" by (simp add: word_le_nat_alt)
      then have "\<not> bit (unat ?w) 31" unfolding bit_iff_odd by simp
      moreover have "bit ?w 31" using True by (simp add: bit_simps)
      ultimately show False by (simp add: bit_unsigned_iff)
    qed
    with True n show ?thesis by simp
  next
    case False
    have "unat (word_of_nat n :: u32) = n" using assms by (simp add: unat_of_nat)
    with False show ?thesis by (simp add: word_le_nat_alt)
  qed
  with r show thesis by (rule that)
qed

text \<open>What \<open>H264_Analyse\<close> computes.\<close>

definition h264_decoded :: "h264_params \<Rightarrow> int \<times> int" where
  "h264_decoded p = (case crop_val (p_crop p) of (l, r, t, b) \<Rightarrow>
     (16 * (int (p_width_mbs p) + 1) - 2 * (l + r),
      16 * (int (p_height_mbs p) + 1) - (if p_frame_mbs_only p then 2 else 4) * (t + b)))"

definition h264_result :: "sps_out \<Rightarrow> h264_params \<Rightarrow> sps_out" where
  "h264_result out p = \<lparr>so_width = fst (h264_decoded p), so_height = snd (h264_decoded p),
     so_framerate = (case p_vui p of None \<Rightarrow> so_framerate out | Some v \<Rightarrow> vui_rate (so_framerate out) v)\<rparr>"

lemma h264_decoded_size: "h264_supported p \<Longrightarrow> h264_decoded p = h264_size p"
  by (auto simp: h264_supported_def h264_decoded_def h264_size_def sub_width_c_def sub_height_c_def crop_val_def Let_def
      split: prod.splits)

text \<open>Where fields are allowed, the decoder gives half of the height.\<close>

lemma h264_field_height:
  "\<not> p_frame_mbs_only p \<Longrightarrow> p_crop p = None \<Longrightarrow> snd (h264_size p) = 2 * snd (h264_decoded p)"
  by (simp add: h264_size_def h264_decoded_def crop_val_def Let_def)

lemma reads_frame:
  assumes ok: "h264_ok p"
  shows "reads (h264_frame out) (ue_code (p_refs p) @ [p_gaps p] @ ue_code (p_width_mbs p) @ ue_code (p_height_mbs p) @
     [p_frame_mbs_only p] @ (if p_frame_mbs_only p then [] else [p_adaptive p]) @ [p_direct p] @ crop_bits (p_crop p) @
     opt_bits vui_bits (p_vui p)) (1, h264_result out p)"
proof -
  obtain l r t b where c: "crop_val (p_crop p) = (l, r, t, b)" by (cases "crop_val (p_crop p)")
  have adapt: "reads (if of_bool (p_frame_mbs_only p) = (0 :: u32) then H264_skip_one_bits else return_gb ())
      (if p_frame_mbs_only p then [] else [p_adaptive p]) ()"
    by (auto intro: reads_skip_one)
  have vui: "reads (if of_bool (p_vui p \<noteq> None) \<noteq> (0 :: u32) then sps_vui (so_framerate out) else return_gb (so_framerate out))
      (case p_vui p of None \<Rightarrow> [] | Some v \<Rightarrow> vui_bits v) (so_framerate (h264_result out p))"
    using ok by (cases "p_vui p") (auto simp: h264_ok_def h264_result_def intro: reads_vui)
  have crop: "reads sps_crop (crop_bits (p_crop p)) (l, r, t, b)" using reads_crop ok c by (metis h264_ok_def)
  have "reads (h264_frame out) (ue_code (p_refs p) @ [p_gaps p] @ ue_code (p_width_mbs p) @ ue_code (p_height_mbs p) @
     [p_frame_mbs_only p] @ (if p_frame_mbs_only p then [] else [p_adaptive p]) @ [p_direct p] @ crop_bits (p_crop p) @
     [p_vui p \<noteq> None] @ (case p_vui p of None \<Rightarrow> [] | Some v \<Rightarrow> vui_bits v) @ []) (1, h264_result out p)"
    unfolding h264_frame_def
    apply (rule ue.read_then, (use ok in \<open>simp add: h264_ok_def\<close>)[1])
    apply (rule reads_bind [OF reads_skip_one])
    apply (rule ue.read_then, (use ok in \<open>simp add: h264_ok_def\<close>)[1])
    apply (rule ue.read_then, (use ok in \<open>simp add: h264_ok_def\<close>)[1])
    apply (rule flag.read_then, simp)
    apply (rule reads_bind [OF adapt])
    apply (rule reads_bind [OF reads_skip_one])
    apply (rule reads_bind [OF crop], unfold split)
    apply (rule flag.read_then, simp)
    apply (rule reads_bind [OF vui])
    using c by (simp add: h264_result_def h264_decoded_def)
  then show ?thesis by (simp add: opt_bits_conv)
qed

lemma reads_h264:
  assumes ok: "h264_ok p"
  shows "reads (h264_sps out) (h264_bits p) (1, h264_result out p)"
proof -
  obtain w where w: "reads (H264_get_bits 8) (fixed_bits 8 (p_profile p)) w" "(100 \<le> w) = (100 \<le> p_profile p)"
    using reads_profile ok by (auto simp: h264_ok_def)
  obtain k where k: "reads sps_poc (poc_bits (p_poc p)) k" "\<not> 2 < k"
    using reads_poc [of "p_poc p"] ok by (auto simp: h264_ok_def)
  have high: "reads (if 100 \<le> w then sps_high_profile else return_gb ()) (if p_profile p \<ge> 100 then high_bits (p_high p) else []) ()"
    using w(2) ok by (auto simp: h264_ok_def intro: reads_high)
  have level: "reads (H264_skip_bits 16) (p_level p) ()" using skip.read_code [of "p_level p" 16] ok by (simp add: h264_ok_def)
  have ue: "ue_ok (p_id p)" "ue_ok (p_frame_num p)" using ok by (simp_all add: h264_ok_def)
  show ?thesis
    unfolding h264_bits_def h264_sps_def
    by (rule reads_bind [OF w(1)], rule reads_bind [OF level], rule ue.read_then [OF ue(1)], rule reads_bind [OF high],
        rule ue.read_then [OF ue(2)], rule reads_bind [OF k(1)]) (simp add: k(2) reads_frame [OF ok, simplified])
qed


section \<open>From bytes to bits\<close>

definition byte_bits :: "u8 \<Rightarrow> bool list" where
  "byte_bits b = rev (map (bit b) [0..<8])"

definition bytes_bits :: "u8 list \<Rightarrow> bool list" where
  "bytes_bits p = concat (map byte_bits p)"

lemma byte_bits_nth: "k < 8 \<Longrightarrow> byte_bits b ! k = bit b (7 - k)" "length (byte_bits b) = 8"
  by (simp_all add: byte_bits_def rev_nth del: upt_Suc)

lemma bytes_bits_length: "length (bytes_bits p) = 8 * length p"
  by (induction p) (simp_all add: bytes_bits_def byte_bits_nth)

lemma bytes_bits_nth: "k < 8 * length p \<Longrightarrow> bytes_bits p ! k = stream_bit p k"
proof (induction p arbitrary: k)
  case (Cons b p)
  show ?case
  proof (cases "k < 8")
    case True
    then show ?thesis by (simp add: bytes_bits_def nth_append byte_bits_nth stream_bit_def)
  next
    case False
    then have "k div 8 = Suc ((k - 8) div 8)" "k mod 8 = (k - 8) mod 8" by (simp_all add: le_div_geq le_mod_geq)
    with False Cons show ?thesis by (simp add: bytes_bits_def nth_append byte_bits_nth stream_bit_def)
  qed
qed simp

lemma ahead_start:
  assumes "bytes_bits p = bs @ rest" "gb_index s = 0" "gb_buffer s = p @ t" "length p + 4 \<le> length (gb_buffer s)"
  shows "ahead s bs"
  unfolding ahead_def
proof (intro conjI allI impI)
  have l: "length bs \<le> 8 * length p" using assms(1) bytes_bits_length [of p] by simp
  then have "length bs div 8 \<le> length p" using div_le_mono [OF l, of 8] by simp
  with assms(2,4) show "(gb_index s + length bs) div 8 + 4 \<le> length (gb_buffer s)" by simp
  fix k assume k: "k < length bs"
  then have "bytes_bits p ! k = bs ! k" using assms(1) by (simp add: nth_append)
  moreover have "bytes_bits p ! k = stream_bit p k" using k l by (intro bytes_bits_nth) linarith
  moreover have "k div 8 < length p" using k l by (simp add: div_less_iff_less_mult)
  ultimately show "stream_bit (gb_buffer s) (gb_index s + k) = bs ! k"
    using assms(2,3) by (simp add: stream_bit_def nth_append)
qed

section \<open>Emulation prevention\<close>

text \<open>An encoder inserts the byte 3 behind two zero bytes in front of a byte up to 3.\<close>

fun emulation_prevention :: "nat \<Rightarrow> u8 list \<Rightarrow> u8 list" where
  "emulation_prevention z [] = []"
| "emulation_prevention z (b # bs) =
     (if z \<ge> 2 \<and> b \<le> 3 then 3 # b # emulation_prevention (if b = 0 then 1 else 0) bs
      else b # emulation_prevention (if b = 0 then Suc z else 0) bs)"

text \<open>The removal on a whole list.\<close>

fun removed :: "u8 list \<Rightarrow> u8 list" where
  "removed (a # b # c # r) = (if a = 0 \<and> b = 0 \<and> c = 3 then a # b # removed r else a # removed (b # c # r))"
| "removed _ = []"

lemma removed_short: "length xs \<le> 2 \<Longrightarrow> removed xs = []"
  by (cases xs rule: removed.cases) simp_all

lemma remove_all: "k \<le> length src \<Longrightarrow> remove_0x03 src k = Ret (removed (take k src))"
proof (induction src k rule: remove_0x03.induct)
  case (1 a b c r k)
  show ?case
  proof (cases "k \<le> 2")
    case True
    then show ?thesis by (simp add: removed_short)
  next
    case False
    then obtain j where "k = Suc (Suc (Suc j))" by (metis Suc_le_eq add_2_eq_Suc' less_iff_Suc_add not_less numeral_2_eq_2)
    with 1 show ?thesis by simp
  qed
qed (auto simp: removed_short split: if_splits)

lemma removed_Cons: "a \<noteq> 0 \<Longrightarrow> 2 \<le> length r \<Longrightarrow> removed (a # r) = a # removed r"
  by (cases r; cases "tl r") auto

lemma removed_0Cons: "b \<noteq> 0 \<Longrightarrow> 1 \<le> length r \<Longrightarrow> removed (0 # b # r) = 0 # removed (b # r)"
  by (cases r) auto

lemma removed_zeros:
  assumes "2 \<le> length rest"
  shows "\<exists>t. removed (0 # rest) = 0 # t" "\<exists>t. removed (0 # 0 # rest) = 0 # 0 # t"
proof -
  from assms obtain x y r where r: "rest = x # y # r" by (cases rest; cases "tl rest") auto
  show "\<exists>t. removed (0 # rest) = 0 # t" "\<exists>t. removed (0 # 0 # rest) = 0 # 0 # t" unfolding r by auto
qed

lemma removed_prevention:
  assumes "z \<le> 2" "2 \<le> length rest"
  shows "\<exists>t. removed (replicate z 0 @ emulation_prevention z bs @ rest) = replicate z 0 @ bs @ t"
  using assms(1)
proof (induction bs arbitrary: z)
  case Nil
  then have "z = 0 \<or> z = 1 \<or> z = 2" by auto
  then show ?case using removed_zeros [OF assms(2)] by (auto simp: numeral_2_eq_2)
next
  case (Cons b bs)
  have len: "2 \<le> length (emulation_prevention y bs @ rest)" for y using assms(2) by simp
  show ?case
  proof (cases "b = 0")
    case b: True
    show ?thesis
    proof (cases "z = 2")
      case True
      with Cons.IH [of 1] b show ?thesis by (simp add: numeral_2_eq_2)
    next
      case False
      with Cons.prems have "z \<le> 1" by simp
      with Cons.IH [of "Suc z"] b show ?thesis by (simp add: replicate_app_Cons_same)
    qed
  next
    case b: False
    obtain t where t: "removed (emulation_prevention 0 bs @ rest) = bs @ t" using Cons.IH [of 0] by auto
    have r: "removed (b # emulation_prevention 0 bs @ rest) = b # bs @ t" using removed_Cons [OF b len] t by simp
    have r0: "removed (0 # b # emulation_prevention 0 bs @ rest) = 0 # b # bs @ t"
      using len [of 0] removed_0Cons [OF b, of "emulation_prevention 0 bs @ rest"] r by simp
    have "z = 0 \<or> z = 1 \<or> z = 2" using Cons.prems by auto
    then show ?thesis using b r r0 by (auto simp: numeral_2_eq_2)
  qed
qed

lemma prevention_length: "length p \<le> length (emulation_prevention z p)"
  by (induction z p rule: emulation_prevention.induct) auto

lemma removed_length: "length (removed xs) \<le> length xs"
  by (induction xs rule: removed.induct) auto

text \<open>The start code and the header of the unit stay as they are.\<close>

definition unit_header :: "u8 list \<Rightarrow> bool" where
  "unit_header h \<longleftrightarrow> (\<exists>ns. h = [0, 0, 1] @ ns \<and> list_all (\<lambda>n. n \<noteq> 0) ns)"

lemma removed_nonzero: "list_all (\<lambda>n. n \<noteq> 0) ns \<Longrightarrow> 2 \<le> length xs \<Longrightarrow> removed (ns @ xs) = ns @ removed xs"
  by (induction ns) (auto simp: removed_Cons)

lemma removed_header:
  assumes "unit_header h" "2 \<le> length xs"
  shows "removed (h @ xs) = h @ removed xs"
proof -
  obtain ns where h: "h = 0 # 0 # 1 # ns" "list_all (\<lambda>n. n \<noteq> 0) ns" using assms(1) by (auto simp: unit_header_def)
  have "removed (1 # ns @ xs) = (1 # ns) @ removed xs" using removed_nonzero [of "1 # ns" xs] h(2) assms(2) by simp
  moreover obtain y ys where "ns @ xs = y # ys" using assms(2) by (cases "ns @ xs") auto
  ultimately show ?thesis by (simp add: h(1))
qed

section \<open>Running the decoder\<close>

text \<open>A parameter set in a buffer: the unit, two more bytes, and no more than 508 bytes in front of them.\<close>

definition holds_sps :: "u8 list \<Rightarrow> nat \<Rightarrow> u8 list \<Rightarrow> bool list \<Rightarrow> bool" where
  "holds_sps pBuf n h bs \<longleftrightarrow> (\<exists>p rest more. pBuf = h @ emulation_prevention 0 p @ rest \<and> bytes_bits p = bs @ more \<and>
     length h + length (emulation_prevention 0 p) \<le> 508 \<and> length h + length (emulation_prevention 0 p) + 2 \<le> n \<and> n \<le> length pBuf)"

lemma init_read:
  assumes "4 \<le> length buf"
  shows "H264_init_get_bits buf z = Ret \<lparr>gb_buffer = buf, gb_index = 0, gb_size_in_bits = z\<rparr>"
  using be32_bit [of 0 buf] assms unfolding H264_init_get_bits_def by (metis add_0 bind_cpp_simps(1))

lemma run_sps_reads:
  assumes r: "reads (body out) bs x" and h: "unit_header h" "length h = k" and b: "holds_sps pBuf n h bs" and j: "length junk = 512"
  shows "run_sps body k junk pBuf n out = Ret x"
proof -
  obtain p rest more where p: "pBuf = h @ emulation_prevention 0 p @ rest" "bytes_bits p = bs @ more"
    "length h + length (emulation_prevention 0 p) \<le> 508" "length h + length (emulation_prevention 0 p) + 2 \<le> n" "n \<le> length pBuf"
    using b by (auto simp: holds_sps_def)
  let ?m = "min n 512" and ?e = "emulation_prevention 0 p"
  define rest1 where "rest1 = take (?m - length h - length ?e) rest"
  have t: "take ?m pBuf = h @ ?e @ rest1" "2 \<le> length rest1" using p by (auto simp: rest1_def)
  then obtain u where u: "removed (take ?m pBuf) = h @ p @ u"
    using removed_header [OF h(1), of "?e @ rest1"] removed_prevention [of 0 rest1 p] by auto
  let ?d = "store_bytes junk (h @ p @ u)"
  have "remove_0x03 pBuf ?m = Ret (h @ p @ u)" using p(5) remove_all [of ?m pBuf] u by simp
  moreover have l: "length (h @ p @ u) \<le> 512" using removed_length [of "take ?m pBuf"] u by simp
  then have buf: "drop k ?d = p @ u @ drop (length (h @ p @ u)) junk" "length (drop k ?d) = 512 - k"
    using h(2) j by (simp_all add: store_bytes_def)
  moreover have lp: "k + length p \<le> 508" using p(3) h(2) prevention_length [of p 0] by simp
  then have "H264_init_get_bits (drop k ?d) z = Ret \<lparr>gb_buffer = drop k ?d, gb_index = 0, gb_size_in_bits = z\<rparr>" for z
    using buf(2) by (intro init_read) simp
  moreover have "ahead \<lparr>gb_buffer = drop k ?d, gb_index = 0, gb_size_in_bits = z\<rparr> bs" for z
    by (rule ahead_start [OF p(2)]) (use buf lp in simp_all)
  then have "body out \<lparr>gb_buffer = drop k ?d, gb_index = 0, gb_size_in_bits = z\<rparr> = Ret (x, adv (length bs) \<lparr>gb_buffer = drop k ?d, gb_index = 0, gb_size_in_bits = z\<rparr>)" for z
    using r unfolding reads_def by (metis append_Nil2)
  ultimately show ?thesis by (simp add: run_sps_def)
qed

text \<open>The decoder returns the picture size and the frame rate of an H.264 parameter set.\<close>

lemma h264_decodes:
  assumes "h264_ok p" "holds_sps pBuf n [0, 0, 1, nal] (h264_bits p)" "nal \<noteq> 0" "length junk = 512"
  shows "H264_Analyse junk pBuf n out = Ret (1, h264_result out p)"
  unfolding H264_Analyse_def
  by (rule run_sps_reads [OF reads_h264 _ _ assms(2)]) (use assms in \<open>simp_all add: unit_header_def\<close>)

record h265_params =
  q_general :: "bool list"
  q_id :: nat
  q_chroma_format :: nat
  q_width :: nat
  q_height :: nat
  q_crop :: "(nat \<times> nat \<times> nat \<times> nat) option"

definition h265_bits :: "h265_params \<Rightarrow> bool list" where
  "h265_bits q = q_general q @ ue_code (q_id q) @ ue_code (q_chroma_format q) @ ue_code (q_width q) @ ue_code (q_height q) @
     crop_bits (q_crop q)"

text \<open>One temporal layer, so that the general part has 104 bits, and a chroma format other than 3.\<close>

definition h265_ok :: "h265_params \<Rightarrow> bool" where
  "h265_ok q \<longleftrightarrow> length (q_general q) = 104 \<and> ue_ok (q_id q) \<and> ue_ok (q_chroma_format q) \<and> q_chroma_format q \<noteq> 3 \<and>
     ue_ok (q_width q) \<and> ue_ok (q_height q) \<and> crop_ok (q_crop q)"

definition h265_result :: "sps_out \<Rightarrow> h265_params \<Rightarrow> sps_out" where
  "h265_result out q = (case crop_val (q_crop q) of (l, r, t, b) \<Rightarrow>
     out\<lparr>so_width := int (q_width q) - 2 * (l + r), so_height := int (q_height q) - 2 * (t + b)\<rparr>)"

lemma reads_h265:
  assumes ok: "h265_ok q"
  shows "reads (h265_sps out) (h265_bits q) (2, h265_result out q)"
proof -
  obtain l r t b where c: "crop_val (q_crop q) = (l, r, t, b)" by (cases "crop_val (q_crop q)")
  have u: "ue_ok (q_id q)" "ue_ok (q_chroma_format q)" "ue_ok (q_width q)" "ue_ok (q_height q)" using ok by (simp_all add: h265_ok_def)
  have g: "reads (H264_skip_bits (8 + 8 + 32 + 4 + 32 + 20)) (q_general q) ()"
    using skip.read_code [of "q_general q" 104] ok by (simp add: h265_ok_def)
  have crop: "reads sps_crop (crop_bits (q_crop q)) (l, r, t, b)" using reads_crop ok c by (metis h265_ok_def)
  have "reads (h265_sps out) (q_general q @ ue_code (q_id q) @ ue_code (q_chroma_format q) @ ue_code (q_width q) @ ue_code (q_height q) @
     crop_bits (q_crop q) @ []) (2, h265_result out q)"
    unfolding h265_sps_def
    by (rule reads_bind [OF g], rule ue.read_then [OF u(1)], rule ue.read_then [OF u(2)], rule ue.read_then [OF u(3)],
        rule ue.read_then [OF u(4)], rule reads_bind [OF crop]) (simp add: h265_result_def c)
  then show ?thesis by (simp add: h265_bits_def)
qed

lemma h265_decodes:
  assumes "h265_ok q" "holds_sps pBuf n [0, 0, 1, n1, n2] (h265_bits q)" "n1 \<noteq> 0" "n2 \<noteq> 0" "length junk = 512"
  shows "H265_Analyse junk pBuf n out = Ret (2, h265_result out q)"
  unfolding H265_Analyse_def
  by (rule run_sps_reads [OF reads_h265 _ _ assms(2)]) (use assms in \<open>simp_all add: unit_header_def\<close>)

end
