(* ===== verification/Video_Size.thy ===== *)
theory Video_Size
  imports Mpeg4_Decoder Sps_Properties
begin

text \<open>
  The search for a configuration unit in a buffer and the functions that the muxers call
  (\<open>senders/ffmpeg_sender/src/parsers/dec_sps.cc\<close>, \<open>Stream_Analyse\<close>, \<open>Stream_Analyse_265\<close>, \<open>decsps\<close> and
  \<open>decsps_265\<close>). The number \<open>k\<close> of the bytes that are left names the call whose uninitialised array
  holds \<open>junk k\<close>.
\<close>

section \<open>Searching a unit\<close>

text \<open>The byte behind a start code at the position, read as far as the comparisons go.\<close>

fun unit_type :: "u8 list \<Rightarrow> u8 option cpp" where
  "unit_type [] = Undef"
| "unit_type (a # p) =
     (if a \<noteq> 0 then Ret None
      else case p of [] \<Rightarrow> Undef
      | b # q \<Rightarrow> if b \<noteq> 0 then Ret None
                 else case q of [] \<Rightarrow> Undef
                 | c # r \<Rightarrow> if c \<noteq> 1 then Ret None else case r of [] \<Rightarrow> Undef | d # _ \<Rightarrow> Ret (Some d))"

type_synonym unit_action = "u8 \<Rightarrow> u8 list \<Rightarrow> nat \<Rightarrow> sps_out \<Rightarrow> (int \<times> sps_out) cpp"

fun scan_units :: "unit_action \<Rightarrow> u8 list \<Rightarrow> nat \<Rightarrow> sps_out \<Rightarrow> (int \<times> sps_out) cpp" where
  "scan_units act p k out =
     (if k \<le> 4 then Ret (-1, out)
      else bind_cpp (unit_type p) (\<lambda>t.
        bind_cpp (case t of None \<Rightarrow> Ret (-1, out) | Some d \<Rightarrow> act d p k out) (\<lambda>r.
        if fst r \<ge> 0 then Ret r else scan_units act (tl p) (k - 1) (snd r))))"

declare scan_units.simps [simp del]

definition h264_unit :: "(nat \<Rightarrow> u8 list) \<Rightarrow> unit_action" where
  "h264_unit junk d p k out =
     bind_cpp (if d = 0xB0 then Mpeg4_Analyse p k out else Ret (-1, out)) (\<lambda>r.
       if fst r \<ge> 0 then Ret r
       else if d AND 0x1F = 7 then H264_Analyse (junk k) p k (snd r) else Ret (-1, snd r))"

definition h265_unit :: "(nat \<Rightarrow> u8 list) \<Rightarrow> unit_action" where
  "h265_unit junk d p k out =
     (if drop_bit 1 (d AND 0x7E) = 33 then H265_Analyse (junk k) p k out else Ret (-1, out))"

text \<open>A buffer that is \<open>None\<close> is a null pointer.\<close>

definition Stream_Analyse :: "(nat \<Rightarrow> u8 list) \<Rightarrow> u8 list option \<Rightarrow> int \<Rightarrow> sps_out \<Rightarrow> (int \<times> sps_out) cpp" where
  "Stream_Analyse junk pBuf nSize out =
     (case pBuf of None \<Rightarrow> Ret (-1, out)
      | Some p \<Rightarrow> scan_units (h264_unit junk) p (nat nSize) (out\<lparr>so_framerate := 0\<rparr>))"

definition Stream_Analyse_265 :: "(nat \<Rightarrow> u8 list) \<Rightarrow> u8 list option \<Rightarrow> int \<Rightarrow> sps_out \<Rightarrow> (int \<times> sps_out) cpp" where
  "Stream_Analyse_265 junk pBuf nSize out =
     (case pBuf of None \<Rightarrow> Ret (-1, out) | Some p \<Rightarrow> scan_units (h265_unit junk) p (nat nSize) out)"

section \<open>The functions for the muxers\<close>

text \<open>The parameter \<open>rate\<close> is the value of the uninitialised local variable; the sizes are written
  through pointers to \<open>unsigned int\<close>.\<close>

definition size_result :: "(int \<times> sps_out) cpp \<Rightarrow> (int \<times> u32 \<times> u32) cpp" where
  "size_result m = bind_cpp m (\<lambda>r. Ret (if fst r > 0 then 0 else -1, word_of_int (so_width (snd r)), word_of_int (so_height (snd r))))"

definition decsps :: "(nat \<Rightarrow> u8 list) \<Rightarrow> int \<Rightarrow> u8 list option \<Rightarrow> u32 \<Rightarrow> u32 \<times> u32 \<Rightarrow> (int \<times> u32 \<times> u32) cpp" where
  "decsps junk rate pBuf nSize wh =
     size_result (Stream_Analyse junk pBuf (sint nSize)
       \<lparr>so_width = sint (fst wh), so_height = sint (snd wh), so_framerate = rate\<rparr>)"

definition decsps_265 :: "(nat \<Rightarrow> u8 list) \<Rightarrow> int \<Rightarrow> u8 list option \<Rightarrow> u32 \<Rightarrow> u32 \<times> u32 \<Rightarrow> (int \<times> u32 \<times> u32) cpp" where
  "decsps_265 junk rate pBuf nSize wh =
     size_result (Stream_Analyse_265 junk pBuf (sint nSize)
       \<lparr>so_width = sint (fst wh), so_height = sint (snd wh), so_framerate = rate\<rparr>)"

section \<open>Finding the unit\<close>

definition no_start_code :: "u8 list \<Rightarrow> u8 list \<Rightarrow> bool" where
  "no_start_code pre q \<longleftrightarrow> (\<forall>i < length pre. take 3 (drop i (pre @ q)) \<noteq> [0, 0, 1])"

lemma unit_type_none: "take 3 p \<noteq> [0, 0, 1] \<Longrightarrow> 3 \<le> length p \<Longrightarrow> unit_type p = Ret None"
  by (cases p rule: unit_type.cases) (auto split: list.split simp: numeral_3_eq_3)

lemma scan_skip:
  assumes "no_start_code pre q" "3 \<le> length q" "length pre + 4 < k"
  shows "scan_units act (pre @ q) k out = scan_units act q (k - length pre) out"
  using assms
proof (induction pre arbitrary: k)
  case (Cons b pre)
  have "unit_type ((b # pre) @ q) = Ret None"
    using Cons.prems by (intro unit_type_none) (auto simp: no_start_code_def dest: spec [of _ 0])
  then have "scan_units act ((b # pre) @ q) k out = scan_units act (pre @ q) (k - 1) out"
    using Cons.prems(3) by (subst scan_units.simps) simp
  moreover have "no_start_code pre q"
    unfolding no_start_code_def
  proof (intro allI impI)
    fix i assume "i < length pre"
    with Cons.prems(1) show "take 3 (drop i (pre @ q)) \<noteq> [0, 0, 1]" unfolding no_start_code_def by (auto dest!: spec [of _ "Suc i"])
  qed
  ultimately show ?case using Cons by simp
qed simp


lemma scan_found:
  assumes "act d ([0, 0, 1, d] @ q) k out = Ret r" "0 \<le> fst r" "4 < k"
  shows "scan_units act ([0, 0, 1, d] @ q) k out = Ret r"
  using assms by (subst scan_units.simps) simp

text \<open>Where a unit stands behind bytes without a start code, the search returns what its analysis returns.\<close>

lemma scan_decodes:
  assumes "no_start_code pre ([0, 0, 1, d] @ q)" "length pre + 6 \<le> k"
    "act d ([0, 0, 1, d] @ q) (k - length pre) out = Ret r" "0 \<le> fst r"
  shows "scan_units act (pre @ [0, 0, 1, d] @ q) k out = Ret r"
  using scan_skip [OF assms(1), of k act out] scan_found [of act d q "k - length pre" out r] assms(2-4) by simp

lemma holds_spsD:
  assumes "holds_sps q n h bs"
  obtains r where "q = h @ r" "length h + 2 \<le> n"
  using assms unfolding holds_sps_def by (elim exE conjE) (rule that, auto)

lemma sint_size: "unat (n :: u32) < 2 ^ 31 \<Longrightarrow> nat (sint n) = unat n"
  using sint_small [of "unat n" n] by simp


text \<open>The size of an H.265 picture, for a parameter set with one temporal layer.\<close>

theorem decsps_h265:
  assumes "h265_ok p" "drop_bit 1 (n1 AND 0x7E) = 33" "n2 \<noteq> 0" "no_start_code pre q"
    "holds_sps q (unat nSize - length pre) [0, 0, 1, n1, n2] (h265_bits p)"
    "unat nSize < 2 ^ 31" "\<forall>k. length (junk k) = 512"
  shows "decsps_265 junk rate (Some (pre @ q)) nSize wh =
    (let r = h265_result \<lparr>so_width = 0, so_height = 0, so_framerate = 0\<rparr> p
     in Ret (0, word_of_int (so_width r), word_of_int (so_height r)))"
proof -
  let ?k = "unat nSize - length pre" and ?out = "\<lparr>so_width = sint (fst wh), so_height = sint (snd wh), so_framerate = rate\<rparr>"
  obtain r where q: "q = [0, 0, 1, n1] @ n2 # r" "6 \<le> ?k" by (rule holds_spsD [OF assms(5)]) simp
  have n: "n1 \<noteq> 0" using assms(2) by auto
  have "h265_unit junk n1 q ?k ?out = Ret (2, h265_result ?out p)"
    unfolding h265_unit_def using h265_decodes [OF assms(1,5) n assms(3)] assms(2,7) by simp
  then have "scan_units (h265_unit junk) (pre @ q) (unat nSize) ?out = Ret (2, h265_result ?out p)"
    using q assms(4) unfolding q(1) by (intro scan_decodes) auto
  then show ?thesis
    using assms(6) by (simp add: decsps_265_def size_result_def Stream_Analyse_265_def sint_size h265_result_def split: prod.split)
qed

text \<open>C34: the search in an MPEG-4 configuration does not run forever: whatever the buffer holds, it ends
  after at most as many passes as there are words in the buffer, with a result or with undefined behaviour (an
  access behind the end of the buffer, or a shift by 32 bits or more).\<close>

theorem mpeg4_terminates:
  assumes "MPEG4_BitstreamInit pBuf nSize = Ret bs"
  shows "\<exists>r. mpeg4_loop (length pBuf div 4) (mpeg4_start out) bs = Some r"
proof -
  have "8 \<le> length pBuf" "bs_mem bs = pBuf" "bs_tail bs = 0"
    using assms by (auto simp: MPEG4_BitstreamInit_def get_int_def bind_cpp_Ret_conv split: if_splits)
  moreover then have "length pBuf < 4 * (length pBuf div 4) + 8" "0 < length pBuf div 4" by linarith+
  ultimately show ?thesis using mpeg4_loop_ends [of bs "length pBuf div 4" "mpeg4_start out"] by auto
qed

text \<open>the analysis of an MPEG-4 configuration reports success with 0, which \<open>decsps\<close> takes for a
  failure: it returns -1 although it has written the picture size.\<close>

theorem decsps_mpeg4_fails:
  assumes "Mpeg4_Analyse ([0, 0, 1, 0xB0] @ q) (unat nSize) \<lparr>so_width = sint (fst wh), so_height = sint (snd wh), so_framerate = 0\<rparr>
      = Ret (0, out)" "4 < unat nSize" "unat nSize < 2 ^ 31"
  shows "decsps junk rate (Some ([0, 0, 1, 0xB0] @ q)) nSize wh = Ret (-1, word_of_int (so_width out), word_of_int (so_height out))"
proof -
  let ?out = "\<lparr>so_width = sint (fst wh), so_height = sint (snd wh), so_framerate = 0\<rparr>"
  have "h264_unit junk 0xB0 ([0, 0, 1, 0xB0] @ q) (unat nSize) ?out = Ret (0, out)"
    unfolding h264_unit_def using assms(1) by simp
  then have "scan_units (h264_unit junk) ([0, 0, 1, 0xB0] @ q) (unat nSize) ?out = Ret (0, out)"
    using assms(2) by (intro scan_found) simp_all
  then show ?thesis using assms(3) by (simp add: decsps_def size_result_def Stream_Analyse_def sint_size)
qed


lemma holds_spsI:
  assumes "take (length bs) (bytes_bits p) = bs" "length h + length (emulation_prevention 0 p) \<le> 508"
    "length h + length (emulation_prevention 0 p) + 2 \<le> n" "n \<le> length h + length (emulation_prevention 0 p) + length rest"
  shows "holds_sps (h @ emulation_prevention 0 p @ rest) n h bs"
  unfolding holds_sps_def
  using assms append_take_drop_id [of "length bs" "bytes_bits p"] by (intro exI [of _ p] exI [of _ rest] exI [of _ "drop (length bs) (bytes_bits p)"]) simp


theorem mpeg4_terminates_witness:
  "\<exists>bs r. MPEG4_BitstreamInit [0, 0, 1, 176, 1, 0, 0, 1] 8 = Ret bs \<and> mpeg4_loop (8 div 4)
     (mpeg4_start \<lparr>so_width = 0, so_height = 0, so_framerate = 0\<rparr>) bs = Some r"
proof -
  obtain bs where "MPEG4_BitstreamInit [0, 0, 1, 176, 1, 0, 0, 1] 8 = Ret bs" by (simp add: MPEG4_BitstreamInit_def get_int_def)
  then show ?thesis using mpeg4_terminates [of "[0, 0, 1, 176, 1, 0, 0, 1]" 8 bs "\<lparr>so_width = 0, so_height = 0, so_framerate = 0\<rparr>"] by auto
qed

theorem decsps_mpeg4_fails_witness:
  "decsps (\<lambda>_. []) 0 (Some ([0, 0, 1, 0xB0] @ [1, 0, 0, 1, 181, 8, 0, 0, 1, 0, 0, 0, 1, 32, 0, 132, 64, 6, 104, 88, 33, 32, 128,
     0, 0, 0, 0, 0, 0, 0, 0, 0, 0, 0, 0])) 27 (0, 0) = Ret (-1, 352, 288)"
proof -
  have "Mpeg4_Analyse ([0, 0, 1, 0xB0] @ [1, 0, 0, 1, 181, 8, 0, 0, 1, 0, 0, 0, 1, 32, 0, 132, 64, 6, 104, 88, 33, 32, 128,
     0, 0, 0, 0, 0, 0, 0, 0, 0, 0, 0, 0]) (unat (27 :: u32)) \<lparr>so_width = sint (fst (0 :: u32, 0 :: u32)), so_height = sint (snd (0 :: u32, 0 :: u32)), so_framerate = 0\<rparr>
      = Ret (0, \<lparr>so_width = 352, so_height = 288, so_framerate = 25\<rparr>)"
    by code_simp
  from decsps_mpeg4_fails [OF this] show ?thesis by simp
qed


theorem decsps_h265_witness:
  "decsps_265 (\<lambda>_. replicate 512 0) 0 (Some ([0] @ [0, 0, 1, 66, 1, 1, 1, 96, 0, 0, 3, 0, 144, 0, 0, 3, 0, 0, 3, 0, 93, 160, 22,
     32, 36, 125, 192, 0, 0])) 30 (0, 0) = Ret (0, 176, 140)"
proof -
  let ?p = "\<lparr>q_general = bytes_bits [1, 1, 96, 0, 0, 0, 144, 0, 0, 0, 0, 0, 93], q_id = 0, q_chroma_format = 1, q_width = 176,
    q_height = 144, q_crop = Some (0, 0, 0, 2)\<rparr>"
  let ?q = "[0, 0, 1, 66, 1] @ emulation_prevention 0 [1, 1, 96, 0, 0, 0, 144, 0, 0, 0, 0, 0, 93, 160, 22, 32, 36, 125, 192] @ [0, 0]"
  have b: "take (length (h265_bits ?p)) (bytes_bits [1, 1, 96, 0, 0, 0, 144, 0, 0, 0, 0, 0, 93, 160, 22, 32, 36, 125, 192]) = h265_bits ?p"
    by code_simp
  have "holds_sps ?q (unat (30 :: u32) - length [0 :: u8]) [0, 0, 1, 66, 1] (h265_bits ?p)"
    by (rule holds_spsI [OF b]) code_simp+
  moreover have "h265_ok ?p" by (simp add: h265_ok_def ue_ok_def crop_ok_def bytes_bits_length)
  moreover have "no_start_code [0] ?q" by (simp add: no_start_code_def)
  moreover have "drop_bit 1 ((66 :: u8) AND 0x7E) = 33" by code_simp
  ultimately have "decsps_265 (\<lambda>_. replicate 512 0) 0 (Some ([0] @ ?q)) 30 (0, 0) =
      (let r = h265_result \<lparr>so_width = 0, so_height = 0, so_framerate = 0\<rparr> ?p in Ret (0, word_of_int (so_width r), word_of_int (so_height r)))"
    by (intro decsps_h265) simp_all
  moreover have "?q = [0, 0, 1, 66, 1, 1, 1, 96, 0, 0, 3, 0, 144, 0, 0, 3, 0, 0, 3, 0, 93, 160, 22, 32, 36, 125, 192, 0, 0]" by code_simp
  ultimately show ?thesis by (simp add: h265_result_def crop_val_def)
qed

end
