(* ===== verification/Stream_Parser.thy ===== *)
theory Stream_Parser
  imports Stsw_Defs
begin

text \<open>
  The time stamps of the FFmpeg source: class \<open>StreamParser\<close>
  (\<open>sources/ffmpeg_demuxer_source/src/parser/stsw_stream_parser.cc\<close>), which turns the packets of one
  stream of the demuxer into media frames.

  The FFmpeg library is a parameter: a stream (\<open>AVStream\<close>) and a packet (\<open>AVPacket\<close>) are the records of
  the fields the code reads, and the streams may change from call to call. Arithmetic that
  overflows and a division by zero are \<open>Undef\<close>; \<open>int\<close> has 32 and \<open>int64_t\<close> has 64 bits.
\<close>

section \<open>What FFmpeg provides\<close>

datatype AVCodecID = AV_CODEC_ID_H264 | AV_CODEC_ID_H265 | AV_CODEC_ID_MPEG4 | AV_CODEC_ID_AAC | AV_CODEC_ID_AMR_NB
  | AV_CODEC_ID_PCM_MULAW | AV_CODEC_ID_PCM_ALAW | AV_CODEC_ID_OTHER nat

datatype AVMediaType = AVMEDIA_TYPE_VIDEO | AVMEDIA_TYPE_AUDIO | AVMEDIA_TYPE_OTHER

record AVStream =
  av_codec_id :: AVCodecID
  av_codec_type :: AVMediaType
  av_width :: int
  av_height :: int
  av_channels :: int
  av_sample_rate :: int
  av_bits_per_raw_sample :: int
  av_extradata :: string
  av_time_base_num :: int
  av_time_base_den :: int
  av_avg_frame_rate_num :: int
  av_avg_frame_rate_den :: int

definition AV_NOPTS_VALUE :: int where
  "AV_NOPTS_VALUE = - (2 ^ 63)"

text \<open>The data are the bytes from the data pointer to the end of their memory; \<open>pkt_in_key_buf\<close> tells
  that the pointer is that of the parser's \<open>key_frame_buf_\<close>.\<close>

record AVPacket =
  pkt_stream_index :: int
  pkt_data :: "8 word list"
  pkt_size :: int
  pkt_pts :: int
  pkt_duration :: int
  pkt_key :: bool
  pkt_corrupt :: bool
  pkt_in_key_buf :: bool

definition FFMPEG_SOURCE_ERR_GENERAL :: int where "FFMPEG_SOURCE_ERR_GENERAL = -1"
definition FFMPEG_SOURCE_ERR_TIMEOUT :: int where "FFMPEG_SOURCE_ERR_TIMEOUT = -2"
definition FFMPEG_SOURCE_ERR_EOF :: int where "FFMPEG_SOURCE_ERR_EOF = -64"
definition FFMPEG_SOURCE_ERR_DROP :: int where "FFMPEG_SOURCE_ERR_DROP = -65"
definition FFMPEG_SOURCE_ERR_IO :: int where "FFMPEG_SOURCE_ERR_IO = -66"
definition FFMPEG_SOURCE_ERR_GAP :: int where "FFMPEG_SOURCE_ERR_GAP = -68"

definition chk32 :: "int \<Rightarrow> int cpp" where
  "chk32 x = (if - (2 ^ 31) \<le> x \<and> x < 2 ^ 31 then Ret x else Undef)"

definition chk64 :: "int \<Rightarrow> int cpp" where
  "chk64 x = (if - (2 ^ 63) \<le> x \<and> x < 2 ^ 63 then Ret x else Undef)"

section \<open>State\<close>

text \<open>The class of a parser, with the fields that only its class has.\<close>

datatype parser_kind = Plain_Parser | H264or5_Parser nat "8 word list" nat | Mpeg4_Parser

record StreamParser =
  sp_is_init :: bool
  sp_stream_index :: int
  sp_is_live :: bool
  sp_gop_started :: bool
  sp_last_pts :: int
  sp_last_dur :: int
  sp_last_live_sec :: int
  sp_last_live_usec :: int
  sp_kind :: parser_kind

record FFmpegDemuxer =
  dm_io_enabled :: bool
  dm_open :: bool
  dm_io_start_sec :: int
  dm_io_start_nsec :: int
  dm_io_timeout :: u64
  dm_meta :: StreamMetadata
  dm_stream_parsers :: "StreamParser list"
  dm_cached_pkts :: "(MediaFrameInfo \<times> AVPacket) list"
  dm_ssrc :: u32
  dm_base_pts :: int
  dm_base_sec :: int
  dm_base_usec :: int

definition new_StreamParser :: "parser_kind \<Rightarrow> StreamParser" where
  "new_StreamParser kind =
     \<lparr>sp_is_init = False, sp_stream_index = 0, sp_is_live = True, sp_gop_started = False, sp_last_pts = AV_NOPTS_VALUE,
      sp_last_dur = 0, sp_last_live_sec = 0, sp_last_live_usec = 0, sp_kind = kind\<rparr>"

definition base_Init :: "FFmpegDemuxer \<Rightarrow> int \<Rightarrow> StreamParser \<Rightarrow> int \<times> StreamParser" where
  "base_Init dm stream_index p =
     (if sp_is_init p then (0, p)
      else (0, p\<lparr>sp_stream_index := stream_index, sp_is_live := (sm_play_type (dm_meta dm) = STREAM_PLAY_TYPE_LIVE),
                 sp_gop_started := False, sp_last_pts := AV_NOPTS_VALUE, sp_last_dur := 0,
                 sp_last_live_sec := 0, sp_last_live_usec := 0, sp_is_init := True\<rparr>))"

definition Uninit_parser :: "StreamParser \<Rightarrow> StreamParser" where
  "Uninit_parser p =
     (if \<not> sp_is_init p then p
      else p\<lparr>sp_is_init := False, sp_stream_index := 0, sp_is_live := True, sp_gop_started := False,
             sp_last_pts := AV_NOPTS_VALUE, sp_last_dur := 0, sp_last_live_sec := 0, sp_last_live_usec := 0\<rparr>)"

definition reset_parser :: "StreamParser \<Rightarrow> StreamParser" where
  "reset_parser p = p\<lparr>sp_gop_started := False\<rparr>"

section \<open>Time stamps\<close>

function carry_ts :: "int \<Rightarrow> int \<Rightarrow> int \<times> int" where
  "carry_ts sec usec = (if usec \<ge> 1000000 then carry_ts (sec + 1) (usec - 1000000) else (sec, usec))"
  by pat_completeness auto
termination by (relation "measure (\<lambda>(sec, usec). nat usec)") auto

declare carry_ts.simps [simp del]

text \<open>A distance in units of the time base, added to a time.\<close>

definition add_ticks :: "AVStream \<Rightarrow> int \<Rightarrow> int \<Rightarrow> int \<Rightarrow> (int \<times> int) cpp" where
  "add_ticks st pts_delta sec usec =
     bind_cpp (chk64 (pts_delta * av_time_base_num st)) (\<lambda>d.
       if av_time_base_den st = 0 then Undef
       else bind_cpp (chk64 (d sdiv av_time_base_den st + sec)) (\<lambda>s.
         Ret (carry_ts s (d smod av_time_base_den st * 1000000 sdiv av_time_base_den st + usec))))"

text \<open>The distance to the previous packet where the time stamps have lost their order or jump by more
  than a minute.\<close>

definition guess_delta :: "AVStream \<Rightarrow> StreamParser \<Rightarrow> int cpp" where
  "guess_delta st p =
     (if sp_last_dur p > 0 then Ret (sp_last_dur p)
      else if av_codec_type st = AVMEDIA_TYPE_VIDEO \<and> av_avg_frame_rate_den st \<noteq> 0 \<and> av_avg_frame_rate_num st \<noteq> 0 then
        bind_cpp (chk32 (av_avg_frame_rate_den st * av_time_base_den st)) (\<lambda>a.
        bind_cpp (chk32 (av_avg_frame_rate_num st * av_time_base_num st)) (\<lambda>b.
        if b = 0 then Undef else chk32 (a sdiv b)))
      else Ret 0)"

definition lost_sync :: "AVStream \<Rightarrow> int \<Rightarrow> StreamParser \<Rightarrow> bool cpp" where
  "lost_sync st pts p =
     (if pts < sp_last_pts p then Ret True
      else bind_cpp (chk64 (pts - sp_last_pts p)) (\<lambda>d.
           bind_cpp (chk64 (d * av_time_base_num st)) (\<lambda>e.
           if av_time_base_den st = 0 then Undef else Ret (e sdiv av_time_base_den st > 60))))"

type_synonym frame_time = "(int \<times> int \<times> int \<times> FFmpegDemuxer \<times> StreamParser) cpp"

definition live_time :: "int \<Rightarrow> int \<Rightarrow> AVStream \<Rightarrow> AVPacket \<Rightarrow> FFmpegDemuxer \<Rightarrow> StreamParser \<Rightarrow> frame_time" where
  "live_time now_sec now_usec st pkt dm p =
     (let dm1 = (if dm_base_pts dm = AV_NOPTS_VALUE \<and> pkt_pts pkt \<noteq> AV_NOPTS_VALUE
                 then dm\<lparr>dm_base_pts := pkt_pts pkt, dm_base_sec := now_sec, dm_base_usec := now_usec\<rparr> else dm)
      in if sp_last_pts p = AV_NOPTS_VALUE then
           if pkt_pts pkt = AV_NOPTS_VALUE \<or> pkt_pts pkt < dm_base_pts dm1 then Ret (FFMPEG_SOURCE_ERR_DROP, 0, 0, dm1, p)
           else
             bind_cpp (chk64 (pkt_pts pkt - dm_base_pts dm1)) (\<lambda>pts_delta.
             bind_cpp (add_ticks st pts_delta (dm_base_sec dm1) (dm_base_usec dm1)) (\<lambda>(sec, usec).
             Ret (0, sec, usec, dm1, p\<lparr>sp_last_pts := pkt_pts pkt, sp_last_dur := pkt_duration pkt,
                                      sp_last_live_sec := sec, sp_last_live_usec := usec\<rparr>)))
         else if pkt_pts pkt = AV_NOPTS_VALUE then
           bind_cpp (chk64 (sp_last_dur p + pkt_duration pkt)) (\<lambda>dur.
           Ret (0, sp_last_live_sec p, sp_last_live_usec p, dm1, p\<lparr>sp_last_dur := dur\<rparr>))
         else
           bind_cpp (lost_sync st (pkt_pts pkt) p) (\<lambda>lost.
           bind_cpp (if lost then guess_delta st p else chk64 (pkt_pts pkt - sp_last_pts p)) (\<lambda>pts_delta.
           bind_cpp (add_ticks st pts_delta (sp_last_live_sec p) (sp_last_live_usec p)) (\<lambda>(sec, usec).
           Ret (0, sec, usec, dm1, p\<lparr>sp_last_pts := pkt_pts pkt, sp_last_dur := pkt_duration pkt,
                                    sp_last_live_sec := sec, sp_last_live_usec := usec\<rparr>)))))"

definition replay_time :: "AVStream \<Rightarrow> AVPacket \<Rightarrow> FFmpegDemuxer \<Rightarrow> StreamParser \<Rightarrow> frame_time" where
  "replay_time st pkt dm p =
     (let (pts, p1) =
        (if pkt_pts pkt = AV_NOPTS_VALUE
         then (if sp_last_pts p \<noteq> AV_NOPTS_VALUE then sp_last_pts p else 0, p)
         else (pkt_pts pkt, p\<lparr>sp_last_pts := pkt_pts pkt, sp_last_dur := pkt_duration pkt\<rparr>))
      in bind_cpp (chk64 (pts * av_time_base_num st)) (\<lambda>d.
           if av_time_base_den st = 0 then Undef
           else Ret (0, d sdiv av_time_base_den st, d smod av_time_base_den st * 1000000 sdiv av_time_base_den st, dm, p1)))"

text \<open>The frame information; the time is the reading of the clock, which the code takes only when it sets
  the base of the time stamps.\<close>

definition DoUpdateFrameInfo ::
  "int \<Rightarrow> int \<Rightarrow> AVStream \<Rightarrow> AVPacket \<Rightarrow> FFmpegDemuxer \<Rightarrow> StreamParser \<Rightarrow>
     (int \<times> MediaFrameInfo \<times> FFmpegDemuxer \<times> StreamParser) cpp" where
  "DoUpdateFrameInfo now_sec now_usec st pkt dm p =
     bind_cpp (if sp_is_live p then live_time now_sec now_usec st pkt dm p else replay_time st pkt dm p)
       (\<lambda>(ret, sec, usec, dm1, p1).
          Ret (ret, \<lparr>fi_sub_stream_index = sp_stream_index p,
                     fi_frame_type = (if pkt_key pkt then MEDIA_FRAME_TYPE_KEY_FRAME else MEDIA_FRAME_TYPE_DATA_FRAME),
                     fi_tv_sec = sec, fi_tv_usec = usec, fi_ssrc = 0\<rparr>, dm1, p1))"

text \<open>\<open>StreamParser::Parse\<close>, with the method \<open>DoUpdateMeta\<close> of the object's class. The result has the
  returned value, the frame, whether the metadata has changed (if the call got that far) and the new
  states.\<close>

type_synonym meta_update = "AVStream \<Rightarrow> AVPacket \<Rightarrow> FFmpegDemuxer \<Rightarrow> StreamParser \<Rightarrow> (bool \<times> FFmpegDemuxer) cpp"

type_synonym parse_result = "(int \<times> MediaFrameInfo option \<times> AVPacket \<times> bool option \<times> FFmpegDemuxer \<times> StreamParser) cpp"

definition base_Parse ::
  "meta_update \<Rightarrow> int \<Rightarrow> int \<Rightarrow> AVStream \<Rightarrow> AVPacket \<Rightarrow> FFmpegDemuxer \<Rightarrow> StreamParser \<Rightarrow> parse_result" where
  "base_Parse upd now_sec now_usec st pkt dm p =
     (if pkt_corrupt pkt then Ret (FFMPEG_SOURCE_ERR_DROP, None, pkt, None, dm, p)
      else
        bind_cpp (DoUpdateFrameInfo now_sec now_usec st pkt dm p) (\<lambda>(ret, frame_info, dm1, p1).
        if ret \<noteq> 0 then Ret (ret, None, pkt, None, dm1, p1)
        else
          bind_cpp (upd st pkt dm1 p1) (\<lambda>(changed, dm2).
          let p2 = (if fi_frame_type frame_info = MEDIA_FRAME_TYPE_KEY_FRAME then p1\<lparr>sp_gop_started := True\<rparr> else p1)
          in if \<not> sp_gop_started p2 then Ret (FFMPEG_SOURCE_ERR_DROP, None, pkt, Some changed, dm2, p2)
             else Ret (0, Some frame_info, pkt, Some changed, dm2, p2))))"

definition base_DoUpdateMeta :: meta_update where
  "base_DoUpdateMeta st pkt dm p = Ret (False, dm)"

end
