(* ===== verification/Parser_Properties.thy ===== *)
theory Parser_Properties
  imports Stream_Parser
begin

text \<open>
  The time stamps that a live stream of the FFmpeg source gets: they never run backwards, and they lag
  behind the time of the packets by less than a microsecond for every packet. Both are proved for any
  class of parsers, whose \<open>DoUpdateMeta\<close> leaves the time base alone (locale \<open>meta_updater\<close>).
\<close>

section \<open>Arithmetic\<close>

definition micro :: "int \<Rightarrow> int \<Rightarrow> int" where
  "micro sec usec = sec * 1000000 + usec"

lemma carry_ts_val: "0 \<le> u \<Longrightarrow> carry_ts s u = (s + u div 1000000, u mod 1000000)"
proof (induction s u rule: carry_ts.induct)
  case (1 s u)
  show ?case
  proof (cases "1000000 \<le> u")
    case True
    then have n: "0 \<le> u - 1000000" by simp
    have "u div 1000000 = (u - 1000000) div 1000000 + 1" by (rule div_pos_geq) (use True in simp_all)
    moreover have "u mod 1000000 = (u - 1000000) mod 1000000" by (rule mod_pos_geq) (use True in simp_all)
    moreover have "carry_ts s u = carry_ts (s + 1) (u - 1000000)" by (subst carry_ts.simps) (simp only: True if_True)
    ultimately show ?thesis unfolding 1(1) [OF True n] by simp
  next
    case False
    with 1(2) show ?thesis by (simp add: carry_ts.simps [of s u])
  qed
qed

lemma sdiv_pos: "0 \<le> (a :: int) \<Longrightarrow> 0 < b \<Longrightarrow> a sdiv b = a div b"
  by (cases "a = 0") (simp_all add: signed_divide_int_def)

lemma smod_pos: "0 \<le> (a :: int) \<Longrightarrow> 0 < b \<Longrightarrow> a smod b = a mod b"
  by (cases "a = 0") (simp_all add: signed_modulo_int_def sdiv_pos minus_div_mult_eq_mod)

lemma div_scale:
  assumes "0 < (q :: int)"
  shows "(n * c) div q = n mod q * c div q + n div q * c"
proof -
  have "n * c = (q * (n div q) + n mod q) * c" by (simp only: mult_div_mod_eq)
  also have "\<dots> = n mod q * c + (n div q * c) * q" by (simp only: algebra_simps)
  finally show ?thesis using assms by simp
qed

lemma chk64_Ret [simp]: "chk64 x = Ret y \<longleftrightarrow> y = x \<and> - (2 ^ 63) \<le> x \<and> x < 2 ^ 63"
  by (auto simp: chk64_def)

lemma chk32_Ret [simp]: "chk32 x = Ret y \<longleftrightarrow> y = x \<and> - (2 ^ 31) \<le> x \<and> x < 2 ^ 31"
  by (auto simp: chk32_def)

definition stream_ok :: "AVStream \<Rightarrow> bool" where
  "stream_ok st \<longleftrightarrow> 0 < av_time_base_num st \<and> 0 < av_time_base_den st \<and>
     0 \<le> av_avg_frame_rate_num st \<and> 0 \<le> av_avg_frame_rate_den st"

text \<open>A distance that is not negative is added exactly, apart from a fraction of a microsecond.\<close>

lemma add_ticks_val:
  assumes st: "stream_ok st" and a: "add_ticks st d sec usec = Ret (s, u)" and d: "0 \<le> d" "0 \<le> usec"
  shows "0 \<le> u" "u < 1000000" "micro s u = micro sec usec + (d * av_time_base_num st * 1000000) div av_time_base_den st"
proof -
  let ?n = "d * av_time_base_num st" and ?q = "av_time_base_den st"
  have q: "0 < ?q" "0 \<le> ?n" using st d(1) by (simp_all add: stream_ok_def)
  let ?u = "?n mod ?q * 1000000 div ?q + usec"
  have e: "?n smod ?q * 1000000 sdiv ?q = ?n mod ?q * 1000000 div ?q" using q by (simp add: smod_pos sdiv_pos)
  have u0: "0 \<le> ?u" using q d(2) by (simp add: pos_imp_zdiv_nonneg_iff)
  have su: "carry_ts (?n div ?q + sec) ?u = (s, u)" using a q by (auto simp: add_ticks_def bind_cpp_Ret_conv e sdiv_pos)
  then have r: "s = ?n div ?q + sec + ?u div 1000000" "u = ?u mod 1000000" using carry_ts_val [OF u0] by simp_all
  then show "0 \<le> u" "u < 1000000" by simp_all
  have "?u div 1000000 * 1000000 + ?u mod 1000000 = ?u" by simp
  then show "micro s u = micro sec usec + (?n * 1000000) div ?q"
    using div_scale [OF q(1), of ?n 1000000] unfolding micro_def r distrib_right by linarith
qed

lemma guess_delta_nonneg:
  assumes "stream_ok st" "guess_delta st p = Ret d"
  shows "0 \<le> d"
proof -
  have "0 \<le> (av_avg_frame_rate_den st * av_time_base_den st) sdiv (av_avg_frame_rate_num st * av_time_base_num st)"
    if "av_avg_frame_rate_num st \<noteq> 0"
    using that assms(1) by (simp add: stream_ok_def sdiv_pos pos_imp_zdiv_nonneg_iff)
  with assms(2) show ?thesis by (auto simp: guess_delta_def bind_cpp_Ret_conv split: if_splits)
qed

lemma lost_sync_False:
  assumes "lost_sync st pts p = Ret False"
  shows "sp_last_pts p \<le> pts"
  using assms by (auto simp: lost_sync_def split: if_splits)

section \<open>One packet\<close>

text \<open>The times a live parser and its demuxer hold are valid, and the parser has a last time exactly when it
  has a last time stamp.\<close>

definition time_inv :: "FFmpegDemuxer \<Rightarrow> StreamParser \<Rightarrow> bool" where
  "time_inv dm p \<longleftrightarrow> sp_is_live p \<and> 0 \<le> dm_base_usec dm \<and> dm_base_usec dm < 1000000 \<and>
     0 \<le> sp_last_live_usec p \<and> sp_last_live_usec p < 1000000"

definition last_micro :: "StreamParser \<Rightarrow> int" where
  "last_micro p = micro (sp_last_live_sec p) (sp_last_live_usec p)"

lemma live_time_step:
  assumes st: "stream_ok st" and now: "0 \<le> now_usec" "now_usec < 1000000" and i: "time_inv dm p"
    and r: "live_time now_sec now_usec st pkt dm p = Ret (ret, sec, usec, dm1, p1)"
  shows "time_inv dm1 p1" "sp_gop_started p1 = sp_gop_started p"
    "ret = 0 \<Longrightarrow> 0 \<le> usec \<and> usec < 1000000 \<and> micro sec usec = last_micro p1 \<and> sp_last_pts p1 \<noteq> AV_NOPTS_VALUE"
    "sp_last_pts p \<noteq> AV_NOPTS_VALUE \<Longrightarrow> ret = 0 \<and> last_micro p \<le> last_micro p1"
    "ret \<noteq> 0 \<Longrightarrow> p1 = p"
proof -
  define dm2 where "dm2 = (if dm_base_pts dm = AV_NOPTS_VALUE \<and> pkt_pts pkt \<noteq> AV_NOPTS_VALUE
      then dm\<lparr>dm_base_pts := pkt_pts pkt, dm_base_sec := now_sec, dm_base_usec := now_usec\<rparr> else dm)"
  have i2: "time_inv dm2 p" using i now by (simp add: time_inv_def dm2_def)
  have nn: "0 \<le> (d * av_time_base_num st * 1000000) div av_time_base_den st" if "0 \<le> d" for d
    using that st by (simp add: stream_ok_def pos_imp_zdiv_nonneg_iff)
  consider (drop) "ret = FFMPEG_SOURCE_ERR_DROP" "sp_last_pts p = AV_NOPTS_VALUE" "dm1 = dm2" "p1 = p"
    | (first) "ret = 0" "sp_last_pts p = AV_NOPTS_VALUE" "dm1 = dm2" "pkt_pts pkt \<noteq> AV_NOPTS_VALUE" "dm_base_pts dm2 \<le> pkt_pts pkt"
        "add_ticks st (pkt_pts pkt - dm_base_pts dm2) (dm_base_sec dm2) (dm_base_usec dm2) = Ret (sec, usec)"
        "p1 = p\<lparr>sp_last_pts := pkt_pts pkt, sp_last_dur := pkt_duration pkt, sp_last_live_sec := sec, sp_last_live_usec := usec\<rparr>"
    | (same) dur where "ret = 0" "sp_last_pts p \<noteq> AV_NOPTS_VALUE" "dm1 = dm2" "sec = sp_last_live_sec p" "usec = sp_last_live_usec p"
        "p1 = p\<lparr>sp_last_dur := dur\<rparr>"
    | (step) lost d where "ret = 0" "sp_last_pts p \<noteq> AV_NOPTS_VALUE" "dm1 = dm2" "pkt_pts pkt \<noteq> AV_NOPTS_VALUE"
        "lost_sync st (pkt_pts pkt) p = Ret lost" "if lost then guess_delta st p = Ret d else d = pkt_pts pkt - sp_last_pts p"
        "add_ticks st d (sp_last_live_sec p) (sp_last_live_usec p) = Ret (sec, usec)"
        "p1 = p\<lparr>sp_last_pts := pkt_pts pkt, sp_last_dur := pkt_duration pkt, sp_last_live_sec := sec, sp_last_live_usec := usec\<rparr>"
    using r unfolding live_time_def dm2_def [symmetric] Let_def
    by (auto simp: bind_cpp_Ret_conv split: if_splits)
  note cs = this
  have step: "0 \<le> usec \<and> usec < 1000000 \<and> last_micro p \<le> micro sec usec"
    if "if lost then guess_delta st p = Ret d else d = pkt_pts pkt - sp_last_pts p" "lost_sync st (pkt_pts pkt) p = Ret lost"
      "add_ticks st d (sp_last_live_sec p) (sp_last_live_usec p) = Ret (sec, usec)" for lost d
  proof -
    have "0 \<le> d" using that(1,2) guess_delta_nonneg [OF st] lost_sync_False by (cases lost) auto
    then show ?thesis using add_ticks_val [OF st that(3)] nn i by (auto simp: time_inv_def last_micro_def)
  qed
  have first: "0 \<le> usec \<and> usec < 1000000" if "dm_base_pts dm2 \<le> pkt_pts pkt"
    "add_ticks st (pkt_pts pkt - dm_base_pts dm2) (dm_base_sec dm2) (dm_base_usec dm2) = Ret (sec, usec)"
    using add_ticks_val [OF st that(2)] that(1) i2 by (auto simp: time_inv_def)
  show "time_inv dm1 p1"
    using cs by cases (use i2 first step in \<open>auto simp: time_inv_def\<close>)
  show "sp_gop_started p1 = sp_gop_started p"
    using cs by cases (auto intro: arg_cong [of _ _ sp_gop_started])
  show "ret = 0 \<Longrightarrow> 0 \<le> usec \<and> usec < 1000000 \<and> micro sec usec = last_micro p1 \<and> sp_last_pts p1 \<noteq> AV_NOPTS_VALUE"
    using cs by cases (use i2 first step in \<open>auto simp: time_inv_def last_micro_def FFMPEG_SOURCE_ERR_DROP_def\<close>)
  show "sp_last_pts p \<noteq> AV_NOPTS_VALUE \<Longrightarrow> ret = 0 \<and> last_micro p \<le> last_micro p1"
    using cs by cases (use step in \<open>auto simp: last_micro_def\<close>)
  show "ret \<noteq> 0 \<Longrightarrow> p1 = p" using cs by cases auto
qed


section \<open>Runs of packets\<close>

text \<open>The packets of one stream one after another, with the clock and the state of the stream at each of them;
  the result has the frames that are not dropped.\<close>

type_synonym packet_event = "int \<times> int \<times> AVStream \<times> AVPacket"

fun parse_run :: "(int \<Rightarrow> int \<Rightarrow> AVStream \<Rightarrow> AVPacket \<Rightarrow> FFmpegDemuxer \<Rightarrow> StreamParser \<Rightarrow> parse_result) \<Rightarrow> packet_event list \<Rightarrow>
  FFmpegDemuxer \<Rightarrow> StreamParser \<Rightarrow> (MediaFrameInfo list \<times> FFmpegDemuxer \<times> StreamParser) cpp" where
  "parse_run f [] dm p = Ret ([], dm, p)"
| "parse_run f ((now_sec, now_usec, st, pkt) # es) dm p =
     bind_cpp (f now_sec now_usec st pkt dm p) (\<lambda>(ret, frame_info, pkt1, changed, dm1, p1).
     bind_cpp (parse_run f es dm1 p1) (\<lambda>(fs, dm2, p2).
     Ret ((case frame_info of None \<Rightarrow> fs | Some fi \<Rightarrow> if ret = 0 then fi # fs else fs), dm2, p2)))"

definition frame_micro :: "MediaFrameInfo \<Rightarrow> int" where
  "frame_micro f = micro (fi_tv_sec f) (fi_tv_usec f)"

definition event_ok :: "packet_event \<Rightarrow> bool" where
  "event_ok e \<longleftrightarrow> (case e of (now_sec, now_usec, st, pkt) \<Rightarrow> 0 \<le> now_usec \<and> now_usec < 1000000 \<and> stream_ok st)"

text \<open>What parsing one packet does to the time: it never runs backwards, and a packet in sync with the one
  before it advances it by the distance of their time stamps.\<close>

definition parse_timed :: "StreamParser \<Rightarrow> int \<Rightarrow> MediaFrameInfo option \<Rightarrow> FFmpegDemuxer \<Rightarrow> StreamParser \<Rightarrow> bool" where
  "parse_timed p ret fi dm1 p1 \<longleftrightarrow> time_inv dm1 p1 \<and> (sp_gop_started p \<longrightarrow> sp_gop_started p1) \<and>
     (sp_last_pts p \<noteq> AV_NOPTS_VALUE \<longrightarrow> sp_last_pts p1 \<noteq> AV_NOPTS_VALUE \<and> last_micro p \<le> last_micro p1) \<and>
     (\<forall>f. fi = Some f \<longrightarrow> ret = 0 \<and> 0 \<le> fi_tv_usec f \<and> fi_tv_usec f < 1000000 \<and> frame_micro f = last_micro p1 \<and>
        sp_last_pts p1 \<noteq> AV_NOPTS_VALUE \<and> sp_gop_started p1)"

definition in_sync :: "AVStream \<Rightarrow> AVPacket \<Rightarrow> StreamParser \<Rightarrow> bool" where
  "in_sync st pkt p \<longleftrightarrow> \<not> pkt_corrupt pkt \<and> pkt_pts pkt \<noteq> AV_NOPTS_VALUE \<and> sp_last_pts p \<noteq> AV_NOPTS_VALUE \<and>
     lost_sync st (pkt_pts pkt) p = Ret False"

definition parse_exact :: "AVStream \<Rightarrow> AVPacket \<Rightarrow> StreamParser \<Rightarrow> MediaFrameInfo option \<Rightarrow> StreamParser \<Rightarrow> bool" where
  "parse_exact st pkt p fi p1 \<longleftrightarrow> sp_last_pts p1 = pkt_pts pkt \<and> (sp_gop_started p \<longrightarrow> fi \<noteq> None) \<and>
     last_micro p1 = last_micro p + (pkt_pts pkt - sp_last_pts p) * av_time_base_num st * 1000000 div av_time_base_den st"

locale timed_parser =
  fixes parse :: "int \<Rightarrow> int \<Rightarrow> AVStream \<Rightarrow> AVPacket \<Rightarrow> FFmpegDemuxer \<Rightarrow> StreamParser \<Rightarrow> parse_result"
  assumes timed: "0 \<le> now_usec \<Longrightarrow> now_usec < 1000000 \<Longrightarrow> stream_ok st \<Longrightarrow> time_inv dm p \<Longrightarrow>
      parse now_sec now_usec st pkt dm p = Ret (ret, fi, pkt1, c, dm1, p1) \<Longrightarrow> parse_timed p ret fi dm1 p1"
    and exact: "0 \<le> now_usec \<Longrightarrow> now_usec < 1000000 \<Longrightarrow> stream_ok st \<Longrightarrow> time_inv dm p \<Longrightarrow> in_sync st pkt p \<Longrightarrow>
      parse now_sec now_usec st pkt dm p = Ret (ret, fi, pkt1, c, dm1, p1) \<Longrightarrow> parse_exact st pkt p fi p1"
begin

text \<open>The frames of a run are in the order of time.\<close>

lemma run_sorted:
  assumes "\<forall>e \<in> set es. event_ok e" "time_inv dm p" "parse_run parse es dm p = Ret (fs, dm1, p1)"
  shows "(\<forall>f \<in> set fs. 0 \<le> fi_tv_usec f \<and> fi_tv_usec f < 1000000) \<and> sorted (map frame_micro fs) \<and>
    (sp_last_pts p \<noteq> AV_NOPTS_VALUE \<longrightarrow> (\<forall>f \<in> set fs. last_micro p \<le> frame_micro f))"
  using assms
proof (induction es arbitrary: dm p fs)
  case (Cons e es)
  obtain now_sec now_usec st pkt where e: "e = (now_sec, now_usec, st, pkt)" by (cases e)
  then have ok: "0 \<le> now_usec" "now_usec < 1000000" "stream_ok st" using Cons.prems(1) by (auto simp: event_ok_def)
  obtain ret fi pkt1 c dm2 p2 gs where r: "parse now_sec now_usec st pkt dm p = Ret (ret, fi, pkt1, c, dm2, p2)"
    "parse_run parse es dm2 p2 = Ret (gs, dm1, p1)" "fs = (case fi of None \<Rightarrow> gs | Some f \<Rightarrow> if ret = 0 then f # gs else gs)"
    using Cons.prems(3) unfolding e by (auto simp: bind_cpp_Ret_conv)
  note s = timed [OF ok Cons.prems(2) r(1), unfolded parse_timed_def]
  then have "(\<forall>f \<in> set gs. 0 \<le> fi_tv_usec f \<and> fi_tv_usec f < 1000000) \<and> sorted (map frame_micro gs) \<and>
    (sp_last_pts p2 \<noteq> AV_NOPTS_VALUE \<longrightarrow> (\<forall>f \<in> set gs. last_micro p2 \<le> frame_micro f))"
    using Cons.IH [OF _ _ r(2)] Cons.prems(1) by simp
  with s r(3) show ?case by (cases fi) (auto intro: order_trans)
qed simp

end

text \<open>Packets of a stream with one time base, each in sync with the one before it.\<close>

fun steady :: "int \<Rightarrow> int \<Rightarrow> packet_event list \<Rightarrow> int \<Rightarrow> bool" where
  "steady num den [] pts = True"
| "steady num den ((now_sec, now_usec, st, pkt) # es) pts =
     (event_ok (now_sec, now_usec, st, pkt) \<and> av_time_base_num st = num \<and> av_time_base_den st = den \<and> \<not> pkt_corrupt pkt \<and>
      pkt_pts pkt \<noteq> AV_NOPTS_VALUE \<and> pts \<le> pkt_pts pkt \<and> (pkt_pts pkt - pts) * num < 61 * den \<and> steady num den es (pkt_pts pkt))"

lemma steady_in_sync:
  assumes "pts \<le> pkt_pts pkt" "(pkt_pts pkt - pts) * av_time_base_num st < 61 * av_time_base_den st" "stream_ok st"
    "\<not> pkt_corrupt pkt" "pkt_pts pkt \<noteq> AV_NOPTS_VALUE" "sp_last_pts p = pts" "pts \<noteq> AV_NOPTS_VALUE"
    "av_time_base_den st < 2 ^ 31"
  shows "in_sync st pkt p"
proof -
  let ?d = "pkt_pts pkt - pts" and ?n = "av_time_base_num st" and ?q = "av_time_base_den st"
  have pos: "0 < ?n" "0 < ?q" using assms(3) by (simp_all add: stream_ok_def)
  have "?d \<le> ?d * ?n" using mult_left_mono [of 1 ?n ?d] pos assms(1) by simp
  then have "?d * ?n < 2 ^ 63" "?d < 2 ^ 63" "0 \<le> ?d * ?n" using assms(1,2,8) pos by simp_all
  moreover have "?d * ?n div ?q < 61"
  proof (rule ccontr)
    assume "\<not> ?thesis"
    then have "61 * ?q \<le> ?d * ?n div ?q * ?q" using pos(2) by (intro mult_right_mono) simp_all
    also have "\<dots> \<le> ?d * ?n" using pos(2) by (simp add: minus_mod_eq_div_mult [symmetric])
    finally show False using assms(2) by simp
  qed
  moreover have "- (2 ^ 63) \<le> ?d * ?n" by (rule order_trans [OF _ mult_nonneg_nonneg]) (use assms(1) pos(1) in simp_all)
  ultimately show ?thesis using assms pos by (simp add: in_sync_def lost_sync_def chk64_def sdiv_pos)
qed

context timed_parser
begin

text \<open>Every packet of a steady run becomes a frame, and the time lags behind that of the packets by less than a
  microsecond for every packet.\<close>

lemma run_drift:
  assumes "steady num den es (sp_last_pts p)" "time_inv dm p" "sp_last_pts p \<noteq> AV_NOPTS_VALUE" "sp_gop_started p"
    "0 < den" "den < 2 ^ 31" "parse_run parse es dm p = Ret (fs, dm1, p1)"
  shows "length fs = length es \<and> time_inv dm1 p1 \<and>
    0 \<le> (sp_last_pts p1 - sp_last_pts p) * num * 1000000 - den * (last_micro p1 - last_micro p) \<and>
    (sp_last_pts p1 - sp_last_pts p) * num * 1000000 - den * (last_micro p1 - last_micro p) \<le> int (length es) * (den - 1) \<and>
    (fs \<noteq> [] \<longrightarrow> frame_micro (last fs) = last_micro p1)"
  using assms
proof (induction es arbitrary: dm p fs)
  case (Cons e es)
  obtain now_sec now_usec st pkt where e: "e = (now_sec, now_usec, st, pkt)" by (cases e)
  have ok: "0 \<le> now_usec" "now_usec < 1000000" "stream_ok st" and tb: "av_time_base_num st = num" "av_time_base_den st = den"
    and st: "steady num den es (pkt_pts pkt)" and np: "pkt_pts pkt \<noteq> AV_NOPTS_VALUE"
    using Cons.prems(1) by (auto simp: event_ok_def e)
  have sync: "in_sync st pkt p"
    by (rule steady_in_sync) (use Cons.prems e tb in \<open>auto simp: event_ok_def\<close>)
  obtain ret fi pkt1 c dm2 p2 gs where r: "parse now_sec now_usec st pkt dm p = Ret (ret, fi, pkt1, c, dm2, p2)"
    "parse_run parse es dm2 p2 = Ret (gs, dm1, p1)" "fs = (case fi of None \<Rightarrow> gs | Some f \<Rightarrow> if ret = 0 then f # gs else gs)"
    using Cons.prems(7) unfolding e by (auto simp: bind_cpp_Ret_conv)
  note s = timed [OF ok Cons.prems(2) r(1), unfolded parse_timed_def] and x = exact [OF ok Cons.prems(2) sync r(1), unfolded parse_exact_def tb]
  obtain f where f: "fi = Some f" "ret = 0" "frame_micro f = last_micro p2" using s x Cons.prems(4) by auto
  let ?d = "(pkt_pts pkt - sp_last_pts p) * num * 1000000"
  have q: "?d - den * (?d div den) = ?d mod den" "?d mod den \<le> den - 1" "0 \<le> ?d mod den"
    using Cons.prems(5) by (simp_all add: minus_mult_div_eq_mod)
  have ih: "length gs = length es \<and> time_inv dm1 p1 \<and>
    0 \<le> (sp_last_pts p1 - pkt_pts pkt) * num * 1000000 - den * (last_micro p1 - last_micro p2) \<and>
    (sp_last_pts p1 - pkt_pts pkt) * num * 1000000 - den * (last_micro p1 - last_micro p2) \<le> int (length es) * (den - 1) \<and>
    (gs \<noteq> [] \<longrightarrow> frame_micro (last gs) = last_micro p1)"
    using Cons.IH [OF _ _ _ _ Cons.prems(5,6) r(2)] st s x np Cons.prems(4) by auto
  have sum: "(sp_last_pts p1 - sp_last_pts p) * num * 1000000 - den * (last_micro p1 - last_micro p) =
      ((sp_last_pts p1 - pkt_pts pkt) * num * 1000000 - den * (last_micro p1 - last_micro p2)) + ?d mod den"
    using x q(1) by (simp add: algebra_simps)
  have "es = [] \<Longrightarrow> p1 = p2" using r(2) by simp
  with ih sum q f r(3) show ?case by (auto simp: algebra_simps)
qed simp

end

text \<open>What a class of parsers promises: its metadata update does not touch the time base.\<close>

locale meta_updater =
  fixes upd :: meta_update
  assumes upd_base: "upd st pkt dm p = Ret (c, dm1) \<Longrightarrow>
    dm_base_pts dm1 = dm_base_pts dm \<and> dm_base_sec dm1 = dm_base_sec dm \<and> dm_base_usec dm1 = dm_base_usec dm"
begin

lemma upd_time_inv: "upd st pkt dm p = Ret (c, dm1) \<Longrightarrow> time_inv dm1 q = time_inv dm q"
  using upd_base by (simp add: time_inv_def)

lemma parse_is_timed:
  assumes ok: "0 \<le> now_usec" "now_usec < 1000000" "stream_ok st" and i: "time_inv dm p"
    and r: "base_Parse upd now_sec now_usec st pkt dm p = Ret (ret, fi, pkt1, c, dm1, p1)"
  shows "parse_timed p ret fi dm1 p1"
proof (cases "pkt_corrupt pkt")
  case True
  with r i show ?thesis by (auto simp: base_Parse_def parse_timed_def)
next
  case False
  have live: "sp_is_live p" using i by (simp add: time_inv_def)
  with False obtain r0 sec usec dm2 p2 where l: "live_time now_sec now_usec st pkt dm p = Ret (r0, sec, usec, dm2, p2)"
    using r by (auto simp: base_Parse_def DoUpdateFrameInfo_def bind_cpp_Ret_conv)
  note s = live_time_step [OF ok(3,1,2) i l]
  have gop: "time_inv d (p2\<lparr>sp_gop_started := b\<rparr>) = time_inv d p2" "last_micro (p2\<lparr>sp_gop_started := b\<rparr>) = last_micro p2" for b d
    by (simp_all add: time_inv_def last_micro_def)
  from r l False live s show ?thesis
    unfolding parse_timed_def
    by (auto simp: base_Parse_def DoUpdateFrameInfo_def bind_cpp_Ret_conv Let_def gop upd_time_inv frame_micro_def split: if_splits)
qed

lemma parse_is_exact:
  assumes ok: "0 \<le> now_usec" "now_usec < 1000000" "stream_ok st" and i: "time_inv dm p" and y: "in_sync st pkt p"
    and r: "base_Parse upd now_sec now_usec st pkt dm p = Ret (ret, fi, pkt1, c, dm1, p1)"
  shows "parse_exact st pkt p fi p1"
proof -
  have live: "sp_is_live p" using i by (simp add: time_inv_def)
  obtain sec usec where a: "add_ticks st (pkt_pts pkt - sp_last_pts p) (sp_last_live_sec p) (sp_last_live_usec p) = Ret (sec, usec)"
    and p1: "p1 = (let q = p\<lparr>sp_last_pts := pkt_pts pkt, sp_last_dur := pkt_duration pkt, sp_last_live_sec := sec, sp_last_live_usec := usec\<rparr>
      in if pkt_key pkt then q\<lparr>sp_gop_started := True\<rparr> else q)" "sp_gop_started p \<longrightarrow> fi \<noteq> None"
    using r y live
    by (auto simp: base_Parse_def DoUpdateFrameInfo_def live_time_def in_sync_def bind_cpp_Ret_conv Let_def split: if_splits)
  have "0 \<le> pkt_pts pkt - sp_last_pts p" using y lost_sync_False by (auto simp: in_sync_def)
  then have "micro sec usec = last_micro p + (pkt_pts pkt - sp_last_pts p) * av_time_base_num st * 1000000 div av_time_base_den st"
    using add_ticks_val(3) [OF ok(3) a] i by (simp add: time_inv_def last_micro_def)
  with p1 show ?thesis by (auto simp: parse_exact_def last_micro_def Let_def)
qed

end

sublocale meta_updater \<subseteq> timed_parser "base_Parse upd"
  by unfold_locales (rule parse_is_timed parse_is_exact; assumption)+

end
