(* ===== verification/Nal_Parser.thy ===== *)
theory Nal_Parser
  imports Parser_Properties Bit_Reader
begin

text \<open>
  The parsers for H.264, H.265 and MPEG-4 video of the FFmpeg source
  (\<open>sources/ffmpeg_demuxer_source/src/parser/stsw_h264or5_parser.cc\<close> and \<open>stsw_mpeg4_parser.cc\<close>), and the
  choice of a parser for a codec. Bytes are words; \<open>extra_data\<close> is a text. An access behind the end of a
  text or of the memory of a packet is \<open>Undef\<close>.
\<close>

section \<open>Texts and bytes\<close>

definition bytes_of :: "string \<Rightarrow> u8 list" where
  "bytes_of s = map (\<lambda>c. word_of_nat (of_char c)) s"

definition text_of :: "u8 list \<Rightarrow> string" where
  "text_of bs = map (\<lambda>b. char_of (unat b)) bs"

lemma bytes_of_text [simp]: "bytes_of (text_of bs) = bs"
proof -
  have "unat (b :: u8) < 2 ^ LENGTH(8)" for b by (rule unsigned_less)
  then have "unat (b :: u8) mod 256 = unat b" for b by simp
  then show ?thesis by (simp add: bytes_of_def text_of_def o_def of_char_of)
qed

lemma text_of_bytes [simp]: "text_of (bytes_of s) = s"
proof -
  have "of_char c < (256 :: nat)" for c using range_nat_of_char by (metis atLeastLessThan_iff rangeI)
  then show ?thesis by (simp add: bytes_of_def text_of_def o_def unat_of_nat map_idI)
qed

abbreviation start_code :: "u8 list" where
  "start_code \<equiv> [0, 0, 0, 1]"

section \<open>H.264 and H.265\<close>

definition RB16 :: "u8 list \<Rightarrow> nat \<Rightarrow> nat" where
  "RB16 b p = 256 * unat (b ! p) + unat (b ! (p + 1))"

text \<open>Copying \<open>cnt\<close> units from the position \<open>p\<close>: the new position and the text, or nothing when the
  position is behind the end.\<close>

fun avcc_units :: "u8 list \<Rightarrow> nat \<Rightarrow> nat \<Rightarrow> u8 list \<Rightarrow> (nat \<times> u8 list) option cpp" where
  "avcc_units b 0 p new_extra = Ret (Some (p, new_extra))"
| "avcc_units b (Suc cnt) p new_extra =
     (if p > length b then Ret None
      else if p + 2 > length b then Undef
      else let nalsize = RB16 b p
           in if p + 2 + nalsize > length b then Undef
              else avcc_units b cnt (p + 2 + nalsize) (new_extra @ start_code @ take nalsize (drop (p + 2) b)))"

definition AvcCToAnnexB :: "u8 list \<Rightarrow> (int \<times> u8 list) cpp" where
  "AvcCToAnnexB b =
     (if length b < 6 then Undef
      else bind_cpp (avcc_units b (unat (b ! 5 AND 0x1F)) 6 []) (\<lambda>r.
        case r of None \<Rightarrow> Ret (-1, b)
        | Some (p, new_extra) \<Rightarrow>
            if p \<ge> length b then Undef
            else bind_cpp (avcc_units b (unat (b ! p)) (p + 1) new_extra) (\<lambda>r.
              case r of None \<Rightarrow> Ret (-1, b) | Some (_, new_extra) \<Rightarrow> Ret (0, new_extra))))"

definition IsVPS :: "nat \<Rightarrow> u8 \<Rightarrow> bool" where
  "IsVPS h t = (h = 265 \<and> t = 32)"

definition IsSPS :: "nat \<Rightarrow> u8 \<Rightarrow> bool" where
  "IsSPS h t = (if h = 264 then t = 7 else t = 33)"

definition IsPPS :: "nat \<Rightarrow> u8 \<Rightarrow> bool" where
  "IsPPS h t = (if h = 264 then t = 8 else t = 34)"

definition IsVCL :: "nat \<Rightarrow> u8 \<Rightarrow> bool" where
  "IsVCL h t = (if h = 264 then t \<le> 5 \<and> t > 0 else t \<le> 31)"

definition nal_type :: "nat \<Rightarrow> u8 \<Rightarrow> u8" where
  "nal_type h b = (if h = 264 then b AND 0x1F else drop_bit 1 (b AND 0x7E))"

definition sub_stream :: "FFmpegDemuxer \<Rightarrow> int \<Rightarrow> SubStreamMetadata cpp" where
  "sub_stream dm i =
     (if 0 \<le> i \<and> nat i < length (sm_sub_streams (dm_meta dm)) then Ret (sm_sub_streams (dm_meta dm) ! nat i) else Undef)"

definition set_sub_stream :: "FFmpegDemuxer \<Rightarrow> int \<Rightarrow> SubStreamMetadata \<Rightarrow> FFmpegDemuxer" where
  "set_sub_stream dm i m = dm\<lparr>dm_meta := (dm_meta dm)\<lparr>sm_sub_streams := (sm_sub_streams (dm_meta dm))[nat i := m]\<rparr>\<rparr>"

definition Init_h264or5 :: "AVStream \<Rightarrow> int \<Rightarrow> FFmpegDemuxer \<Rightarrow> StreamParser \<Rightarrow> (int \<times> FFmpegDemuxer \<times> StreamParser) cpp" where
  "Init_h264or5 st stream_index dm p =
     (if av_codec_id st \<noteq> AV_CODEC_ID_H264 \<and> av_codec_id st \<noteq> AV_CODEC_ID_H265 then Ret (-1, dm, p)
      else
        let h = (if av_codec_id st = AV_CODEC_ID_H264 then 264 else 265)
        in bind_cpp (sub_stream dm stream_index) (\<lambda>m.
           bind_cpp (if h = 264 \<and> ss_extra_data m \<noteq> [] \<and> hd (bytes_of (ss_extra_data m)) = 1
                     then AvcCToAnnexB (bytes_of (ss_extra_data m)) else Ret (0, bytes_of (ss_extra_data m))) (\<lambda>(ret, extra).
           if ret \<noteq> 0 then Ret (ret, dm, p)
           else
             let dm1 = set_sub_stream dm stream_index (m\<lparr>ss_extra_data := text_of extra\<rparr>);
                 p1 = p\<lparr>sp_kind := H264or5_Parser h extra (length extra)\<rparr>;
                 (r, p2) = base_Init dm1 stream_index p1
             in Ret (r, dm1, p2))))"

text \<open>\<open>ntohl\<close> of the four bytes at a position, as an \<open>int\<close>.\<close>

definition be32 :: "u8 list \<Rightarrow> nat \<Rightarrow> int" where
  "be32 d p = sint (push_bit 24 (ucast (d ! p)) OR push_bit 16 (ucast (d ! (p + 1))) OR push_bit 8 (ucast (d ! (p + 2))) OR
     ucast (d ! (p + 3)) :: u32)"

definition put_start_code :: "u8 list \<Rightarrow> nat \<Rightarrow> u8 list" where
  "put_start_code d p = take p d @ start_code @ drop (p + 4) d"

text \<open>The loop that replaces the sizes in front of the units. It ends for every packet: a size that is read
  as a negative number has a first byte of 128 or more, which is overwritten with zero.\<close>

definition high_bytes :: "u8 list \<Rightarrow> nat" where
  "high_bytes d = length (filter (\<lambda>b. bit b 7) d)"

lemma be32_neg: "be32 d p < 0 \<longleftrightarrow> bit (d ! p) 7"
proof -
  have "be32 d p < 0 \<longleftrightarrow> bit (push_bit 24 (ucast (d ! p)) OR push_bit 16 (ucast (d ! (p + 1))) OR push_bit 8 (ucast (d ! (p + 2))) OR
     ucast (d ! (p + 3)) :: u32) 31"
    by (simp add: be32_def sint_uint bit_unsigned_iff signed_take_bit_negative_iff)
  moreover have "\<not> bit (x :: u8) k" if "8 \<le> k" for x k using that bit_imp_le_length [of x k] by auto
  ultimately show ?thesis by (auto simp: bit_simps)
qed

lemma put_start_code_high:
  assumes "p + 4 \<le> length d"
  shows "high_bytes (put_start_code d p) \<le> high_bytes d" "bit (d ! p) 7 \<Longrightarrow> high_bytes (put_start_code d p) < high_bytes d"
proof -
  have d: "d = take p d @ take 4 (drop p d) @ drop (p + 4) d"
    by (metis add.commute append_take_drop_id drop_drop)
  have h: "high_bytes d = high_bytes (take p d) + high_bytes (take 4 (drop p d)) + high_bytes (drop (p + 4) d)"
    by (subst d) (simp add: high_bytes_def)
  have n: "\<not> bit (0 :: u8) 7" "\<not> bit (1 :: u8) 7" by simp_all
  then have s: "high_bytes (put_start_code d p) = high_bytes (take p d) + high_bytes (drop (p + 4) d)"
    by (simp add: high_bytes_def put_start_code_def)
  then show "high_bytes (put_start_code d p) \<le> high_bytes d" using h by simp
  assume "bit (d ! p) 7"
  moreover have "take 4 (drop p d) = d ! p # take 3 (drop (p + 1) d)"
    using assms by (simp add: Cons_nth_drop_Suc [symmetric] numeral_eq_Suc)
  ultimately show "high_bytes (put_start_code d p) < high_bytes d" using s h by (simp add: high_bytes_def)
qed

function avc1_loop :: "u8 list \<Rightarrow> nat \<Rightarrow> int \<Rightarrow> u8 list cpp" where
  "avc1_loop d p sz =
     (if p + 4 > length d then Undef
      else
        let d1 = put_start_code d p; q = int p + 4 + be32 d p
        in if q \<ge> sz - 4 then Ret d1 else if q < 0 then Undef else avc1_loop d1 (nat q) sz)"
  by pat_completeness auto

termination
proof (relation "measures [\<lambda>(d, p, sz). high_bytes d, \<lambda>(d, p, sz). nat (sz - int p)]", goal_cases)
  case (2 d p sz d1 q)
  show ?case
  proof (cases "be32 d p < 0")
    case True
    with 2 show ?thesis using put_start_code_high(2) [of p d] by (auto simp: be32_neg)
  next
    case False
    with 2 show ?thesis using put_start_code_high(1) [of p d] by auto
  qed
qed simp

declare avc1_loop.simps [simp del]

definition Parse_h264or5_data :: "AVPacket \<Rightarrow> u8 list cpp" where
  "Parse_h264or5_data pkt =
     (if length (pkt_data pkt) < 4 then Undef
      else if take 4 (pkt_data pkt) \<noteq> start_code then avc1_loop (pkt_data pkt) 0 (pkt_size pkt)
      else Ret (pkt_data pkt))"

text \<open>\<open>std::string::resize\<close>.\<close>

definition resize :: "nat \<Rightarrow> u8 list \<Rightarrow> u8 list" where
  "resize n s = take n s @ replicate (n - length s) 0"

definition add_header :: "AVPacket \<Rightarrow> StreamParser \<Rightarrow> (AVPacket \<times> StreamParser) cpp" where
  "add_header pkt p =
     (case sp_kind p of
        H264or5_Parser h key_frame_buf extradata_size \<Rightarrow>
          if pkt_key pkt \<and> extradata_size \<noteq> 0 \<and> pkt_size pkt > 5 then
            if nat (pkt_size pkt) > length (pkt_data pkt) then Undef
            else if IsVCL h (nal_type h (pkt_data pkt ! 4)) then
              let buf = resize extradata_size key_frame_buf @ take (nat (pkt_size pkt)) (pkt_data pkt)
              in Ret (pkt\<lparr>pkt_data := buf, pkt_size := int (length buf), pkt_in_key_buf := True\<rparr>,
                      p\<lparr>sp_kind := H264or5_Parser h buf extradata_size\<rparr>)
            else Ret (pkt, p)
          else Ret (pkt, p)
      | _ \<Rightarrow> Ret (pkt, p))"

text \<open>The search for the first coded slice: its position, or nothing, and which parameter sets came before.\<close>

fun extra_scan :: "nat \<Rightarrow> nat \<Rightarrow> u8 list \<Rightarrow> bool \<times> bool \<times> bool \<Rightarrow> nat option \<times> bool \<times> bool \<times> bool" where
  "extra_scan h p (a # b # c # d # e # r) (vps, sps, pps) =
     (if a = 0 \<and> b = 0 \<and> c = 0 \<and> d = 1 then
        let t = (if h = 264 then e AND 0x1F else if h = 265 \<and> r \<noteq> [] then drop_bit 1 (e AND 0x7E) else 0xFF)
        in if IsVPS h t then extra_scan h (p + 1) (b # c # d # e # r) (True, sps, pps)
           else if IsSPS h t then extra_scan h (p + 1) (b # c # d # e # r) (vps, True, pps)
           else if IsPPS h t then extra_scan h (p + 1) (b # c # d # e # r) (vps, sps, True)
           else if IsVCL h t then (Some p, vps, sps, pps)
           else extra_scan h (p + 1) (b # c # d # e # r) (vps, sps, pps)
      else extra_scan h (p + 1) (b # c # d # e # r) (vps, sps, pps))"
| "extra_scan h p _ (vps, sps, pps) = (None, vps, sps, pps)"

definition GetExtraDataSize :: "nat \<Rightarrow> AVPacket \<Rightarrow> int cpp" where
  "GetExtraDataSize h pkt =
     (if nat (pkt_size pkt) > length (pkt_data pkt) then Undef
      else
        let (stop, vps, sps, pps) = extra_scan h 0 (take (nat (pkt_size pkt)) (pkt_data pkt)) (False, False, False);
            extra_size = (case stop of Some p \<Rightarrow> int p | None \<Rightarrow> if pkt_size pkt \<ge> 4 then pkt_size pkt else 0)
        in Ret (if extra_size \<noteq> 0 \<and> (h = 264 \<and> sps \<and> pps \<or> h = 265 \<and> vps \<and> sps \<and> pps) then extra_size else 0))"

section \<open>Metadata\<close>

text \<open>The picture size and the frame rate, as both classes take them from the stream.\<close>

definition update_video :: "AVStream \<Rightarrow> SubStreamMetadata \<Rightarrow> (bool \<times> SubStreamMetadata) cpp" where
  "update_video st m =
     (let (c1, m1) =
        (if av_width st \<noteq> 0 \<and> av_height st \<noteq> 0 \<and>
            (word_of_int (av_height st) \<noteq> vp_height (ss_video m) \<or> word_of_int (av_width st) \<noteq> vp_width (ss_video m))
         then (True, m\<lparr>ss_video := (ss_video m)\<lparr>vp_height := word_of_int (av_height st), vp_width := word_of_int (av_width st)\<rparr>\<rparr>)
         else (False, m))
      in if av_avg_frame_rate_num st \<noteq> 0 \<and> av_avg_frame_rate_den st \<noteq> 0 then
           bind_cpp (chk32 (av_avg_frame_rate_num st sdiv av_avg_frame_rate_den st)) (\<lambda>q.
           let fps = word_of_int q
           in if fps \<noteq> vp_fps (ss_video m1) then Ret (True, m1\<lparr>ss_video := (ss_video m1)\<lparr>vp_fps := fps\<rparr>\<rparr>) else Ret (c1, m1))
         else Ret (c1, m1))"

definition update_extra :: "int \<Rightarrow> AVPacket \<Rightarrow> bool \<times> SubStreamMetadata \<Rightarrow> bool \<times> SubStreamMetadata" where
  "update_extra extra_size pkt cm =
     (let new_extra = text_of (take (nat extra_size) (pkt_data pkt))
      in if extra_size \<noteq> 0 \<and> new_extra \<noteq> ss_extra_data (snd cm) then (True, (snd cm)\<lparr>ss_extra_data := new_extra\<rparr>) else cm)"

definition DoUpdateMeta_video :: "(AVPacket \<Rightarrow> int cpp) \<Rightarrow> meta_update" where
  "DoUpdateMeta_video get_size st pkt dm p =
     (if pkt_key pkt then
        bind_cpp (sub_stream dm (sp_stream_index p)) (\<lambda>m.
        bind_cpp (update_video st m) (\<lambda>cm.
        bind_cpp (get_size pkt) (\<lambda>extra_size.
        let r = update_extra extra_size pkt cm in Ret (fst r, set_sub_stream dm (sp_stream_index p) (snd r)))))
      else Ret (False, dm))"

text \<open>A key frame that lies in the buffer of the parser has the known extra data in front of it.\<close>

definition DoUpdateMeta_h264or5 :: "nat \<Rightarrow> meta_update" where
  "DoUpdateMeta_h264or5 h = DoUpdateMeta_video (\<lambda>pkt. if pkt_in_key_buf pkt then Ret 0 else GetExtraDataSize h pkt)"

section \<open>MPEG-4\<close>

text \<open>The index of the sub stream is the field \<open>stream_index_\<close>, which is set only afterwards.\<close>

definition Init_mpeg4 :: "int \<Rightarrow> FFmpegDemuxer \<Rightarrow> StreamParser \<Rightarrow> (int \<times> FFmpegDemuxer \<times> StreamParser) cpp" where
  "Init_mpeg4 stream_index dm p =
     bind_cpp (sub_stream dm (sp_stream_index p)) (\<lambda>m.
       let dm1 = set_sub_stream dm (sp_stream_index p) (m\<lparr>ss_extra_data := []\<rparr>);
           (r, p1) = base_Init dm1 stream_index p
       in Ret (r, dm1, p1))"

fun vop_scan :: "nat \<Rightarrow> u8 list \<Rightarrow> nat option" where
  "vop_scan i (a # b # c # d # r) =
     (if (d = 0xB3 \<or> d = 0xB6) \<and> c = 1 \<and> b = 0 \<and> a = 0 then Some i else vop_scan (i + 1) (b # c # d # r))"
| "vop_scan i _ = None"

definition GetExtraDataSize_mpeg4 :: "AVPacket \<Rightarrow> int cpp" where
  "GetExtraDataSize_mpeg4 pkt =
     (if nat (pkt_size pkt) > length (pkt_data pkt) then Undef
      else
        let d = take (nat (pkt_size pkt)) (pkt_data pkt)
        in Ret (if take 4 d = [0, 0, 1, 0xB0] then (case vop_scan 7 (drop 4 d) of Some i \<Rightarrow> int i | None \<Rightarrow> pkt_size pkt)
                else 0))"

definition DoUpdateMeta_mpeg4 :: meta_update where
  "DoUpdateMeta_mpeg4 = DoUpdateMeta_video GetExtraDataSize_mpeg4"

section \<open>Choice of the class\<close>

definition NewStreamParser :: "AVCodecID \<Rightarrow> StreamParser" where
  "NewStreamParser codec_id =
     new_StreamParser (case codec_id of
         AV_CODEC_ID_H264 \<Rightarrow> H264or5_Parser 264 [] 0
       | AV_CODEC_ID_H265 \<Rightarrow> H264or5_Parser 264 [] 0
       | AV_CODEC_ID_MPEG4 \<Rightarrow> Mpeg4_Parser
       | _ \<Rightarrow> Plain_Parser)"

definition CodecNameFromId :: "(AVCodecID \<Rightarrow> string) \<Rightarrow> AVCodecID \<Rightarrow> string" where
  "CodecNameFromId avcodec_get_name codec_id =
     (case codec_id of
         AV_CODEC_ID_H264 \<Rightarrow> ''H264''
       | AV_CODEC_ID_H265 \<Rightarrow> ''H265''
       | AV_CODEC_ID_MPEG4 \<Rightarrow> ''MP4V-ES''
       | AV_CODEC_ID_AAC \<Rightarrow> ''AAC''
       | AV_CODEC_ID_AMR_NB \<Rightarrow> ''AMR''
       | AV_CODEC_ID_PCM_MULAW \<Rightarrow> ''PCMU''
       | AV_CODEC_ID_PCM_ALAW \<Rightarrow> ''PCMA''
       | _ \<Rightarrow> avcodec_get_name codec_id)"

definition Init_parser :: "AVStream \<Rightarrow> int \<Rightarrow> FFmpegDemuxer \<Rightarrow> StreamParser \<Rightarrow> (int \<times> FFmpegDemuxer \<times> StreamParser) cpp" where
  "Init_parser st stream_index dm p =
     (case sp_kind p of
        Plain_Parser \<Rightarrow> (let (r, p1) = base_Init dm stream_index p in Ret (r, dm, p1))
      | H264or5_Parser _ _ _ \<Rightarrow> Init_h264or5 st stream_index dm p
      | Mpeg4_Parser \<Rightarrow> Init_mpeg4 stream_index dm p)"

definition DoUpdateMeta :: meta_update where
  "DoUpdateMeta st pkt dm p =
     (case sp_kind p of
        Plain_Parser \<Rightarrow> base_DoUpdateMeta st pkt dm p
      | H264or5_Parser h _ _ \<Rightarrow> DoUpdateMeta_h264or5 h st pkt dm p
      | Mpeg4_Parser \<Rightarrow> DoUpdateMeta_mpeg4 st pkt dm p)"

definition Parse_packet :: "int \<Rightarrow> int \<Rightarrow> AVStream \<Rightarrow> AVPacket \<Rightarrow> FFmpegDemuxer \<Rightarrow> StreamParser \<Rightarrow> parse_result" where
  "Parse_packet now_sec now_usec st pkt dm p =
     (case sp_kind p of
        H264or5_Parser _ _ _ \<Rightarrow>
          bind_cpp (Parse_h264or5_data pkt) (\<lambda>d.
          bind_cpp (add_header (pkt\<lparr>pkt_data := d\<rparr>) p) (\<lambda>(pkt1, p1).
          base_Parse DoUpdateMeta now_sec now_usec st pkt1 dm p1))
      | _ \<Rightarrow> base_Parse DoUpdateMeta now_sec now_usec st pkt dm p)"

definition IsMetaReady_parser :: "FFmpegDemuxer \<Rightarrow> StreamParser \<Rightarrow> bool cpp" where
  "IsMetaReady_parser dm p =
     (case sp_kind p of
        Plain_Parser \<Rightarrow> Ret True
      | _ \<Rightarrow> if \<not> sp_is_init p then Ret False
             else bind_cpp (sub_stream dm (sp_stream_index p)) (\<lambda>m. Ret (ss_extra_data m \<noteq> [])))"

section \<open>Time stamps\<close>

lemma set_sub_stream_simps [simp]:
  "dm_base_pts (set_sub_stream dm i m) = dm_base_pts dm" "dm_base_sec (set_sub_stream dm i m) = dm_base_sec dm"
  "dm_base_usec (set_sub_stream dm i m) = dm_base_usec dm"
  by (simp_all add: set_sub_stream_def)

lemma video_update_base:
  "DoUpdateMeta_video g st pkt dm p = Ret (c, dm1) \<Longrightarrow>
     dm_base_pts dm1 = dm_base_pts dm \<and> dm_base_sec dm1 = dm_base_sec dm \<and> dm_base_usec dm1 = dm_base_usec dm"
  by (auto simp: DoUpdateMeta_video_def bind_cpp_Ret_conv Let_def split: if_splits)

interpretation upd: meta_updater DoUpdateMeta
  by unfold_locales
     (auto simp: DoUpdateMeta_def base_DoUpdateMeta_def DoUpdateMeta_h264or5_def DoUpdateMeta_mpeg4_def
       split: parser_kind.splits dest!: video_update_base)

text \<open>The header in front of a key frame changes neither the times nor the flags.\<close>

lemma add_header_keeps:
  assumes "add_header pkt p = Ret (pkt1, p1)"
  shows "pkt_pts pkt1 = pkt_pts pkt" "pkt_duration pkt1 = pkt_duration pkt" "pkt_key pkt1 = pkt_key pkt" "pkt_corrupt pkt1 = pkt_corrupt pkt"
    "\<exists>k. p1 = p\<lparr>sp_kind := k\<rparr>"
  using assms
  by (auto simp: add_header_def Let_def split: parser_kind.splits if_splits intro: exI [of _ "sp_kind p"])

lemma kind_irrelevant:
  "time_inv dm (p\<lparr>sp_kind := k\<rparr>) = time_inv dm p" "last_micro (p\<lparr>sp_kind := k\<rparr>) = last_micro p"
  "parse_timed (p\<lparr>sp_kind := k\<rparr>) r f d q = parse_timed p r f d q" "lost_sync st t (p\<lparr>sp_kind := k\<rparr>) = lost_sync st t p"
  by (simp_all add: time_inv_def last_micro_def parse_timed_def lost_sync_def)

lemma Parse_packet_base:
  assumes "Parse_packet now_sec now_usec st pkt dm p = Ret (ret, fi, pkt2, c, dm1, p2)"
  obtains pkt1 k where "base_Parse DoUpdateMeta now_sec now_usec st pkt1 dm (p\<lparr>sp_kind := k\<rparr>) = Ret (ret, fi, pkt2, c, dm1, p2)"
    "pkt_pts pkt1 = pkt_pts pkt" "pkt_key pkt1 = pkt_key pkt" "pkt_corrupt pkt1 = pkt_corrupt pkt"
proof (cases "sp_kind p")
  case (H264or5_Parser a b c')
  then obtain d pkt1 p1 where h: "add_header (pkt\<lparr>pkt_data := d\<rparr>) p = Ret (pkt1, p1)"
    "base_Parse DoUpdateMeta now_sec now_usec st pkt1 dm p1 = Ret (ret, fi, pkt2, c, dm1, p2)"
    using assms by (auto simp: Parse_packet_def bind_cpp_Ret_conv)
  with add_header_keeps [OF h(1)] that show thesis by auto
next
  case Plain_Parser
  then have "base_Parse DoUpdateMeta now_sec now_usec st pkt dm p = Ret (ret, fi, pkt2, c, dm1, p2)" using assms by (simp add: Parse_packet_def)
  then show thesis by (intro that [of pkt "sp_kind p"]) simp_all
next
  case Mpeg4_Parser
  then have "base_Parse DoUpdateMeta now_sec now_usec st pkt dm p = Ret (ret, fi, pkt2, c, dm1, p2)" using assms by (simp add: Parse_packet_def)
  then show thesis by (intro that [of pkt "sp_kind p"]) simp_all
qed

interpretation pk: timed_parser Parse_packet
proof
  fix now_sec now_usec st dm p pkt ret fi pkt1 c dm1 p1
  assume a: "0 \<le> now_usec" "now_usec < 1000000" "stream_ok st" "time_inv dm p"
    "Parse_packet now_sec now_usec st pkt dm p = Ret (ret, fi, pkt1, c, dm1, p1)"
  obtain pkt2 k where b: "base_Parse DoUpdateMeta now_sec now_usec st pkt2 dm (p\<lparr>sp_kind := k\<rparr>) = Ret (ret, fi, pkt1, c, dm1, p1)"
    "pkt_pts pkt2 = pkt_pts pkt" "pkt_key pkt2 = pkt_key pkt" "pkt_corrupt pkt2 = pkt_corrupt pkt"
    by (rule Parse_packet_base [OF a(5)])
  have i: "time_inv dm (p\<lparr>sp_kind := k\<rparr>)" using a(4) by (simp add: kind_irrelevant)
  show "parse_timed p ret fi dm1 p1" using upd.timed [OF a(1-3) i b(1)] by (simp add: kind_irrelevant)
  show "parse_exact st pkt p fi p1" if "in_sync st pkt p"
  proof -
    have "in_sync st pkt2 (p\<lparr>sp_kind := k\<rparr>)" using that b(2,4) by (simp add: in_sync_def kind_irrelevant)
    from upd.exact [OF a(1-3) i this b(1)] b(2) show ?thesis by (simp add: parse_exact_def kind_irrelevant)
  qed
qed

end
