(* ===== verification/Output_Sink.thy ===== *)
theory Output_Sink
  imports Pts_Normalizer Nal_Parser
begin

text \<open>
  The output sinks of the RTSP source (\<open>sources/stsw_rtsp_source/src/stsw_output_sink.cc\<close>,
  \<open>stsw_h264or5_output_sink.cc\<close>, \<open>stsw_mpeg4_output_sink.cc\<close>) with the part of the RTSP client that they call
  (\<open>stsw_rtsp_client.cc\<close>).

  \<^item> an object is a record, the subclass for H.264 and H.265 extends the record of the base class;
  \<^item> a frame arrives by the contract of live555: it is stored where the last \<open>getNextFrame\<close> asked for it, then
    \<open>afterGettingFrame\<close> is called. The bytes, the number of truncated bytes and the presentation time are
    arguments; what the framer of the subsession knows (parameter sets, configuration) is an argument too;
  \<^item> a write or read outside the receive buffer and an index outside the list of sub streams are \<open>Undef\<close>;
  \<^item> the readings of \<open>gettimeofday\<close> are a function of their number, and the computations with \<open>double\<close> are the
    fields of \<open>gap_arith\<close>;
  \<^item> calls of the listener of the client are recorded in \<open>rc_calls\<close>. Log messages and the delay of 50 ms after the
    metadata became ready are left out.
\<close>

section \<open>The RTSP client\<close>

definition RTSP_CLIENT_ERR_INTER_FRAME_GAP :: int where "RTSP_CLIENT_ERR_INTER_FRAME_GAP = -9"
definition RTSP_CLIENT_ERR_TIME_ERR :: int where "RTSP_CLIENT_ERR_TIME_ERR = -13"
definition interPacketGapMaxTime :: int where "interPacketGapMaxTime = 10"

datatype rtsp_call =
    OnMediaFrame MediaFrameInfo "u8 list"
  | OnError int
  | OnMetaReady StreamMetadata
  | OnLostFrameUpdate int u64

record LiveRtspClient =
  rc_listener :: bool
  rc_are_already_shutting_down :: bool
  rc_metadata :: StreamMetadata
  rc_is_metadata_ok :: bool
  rc_last_frame_time :: timeval
  rc_calls :: "rtsp_call list"
  rc_clock_reads :: nat

definition notify_listener :: "rtsp_call \<Rightarrow> LiveRtspClient \<Rightarrow> LiveRtspClient" where
  "notify_listener call c = (if rc_listener c then c\<lparr>rc_calls := rc_calls c @ [call]\<rparr> else c)"

definition IsMetaReady_client :: "LiveRtspClient \<Rightarrow> bool" where
  "IsMetaReady_client c = rc_is_metadata_ok c"

fun sub_streams_ready :: "SubStreamMetadata list \<Rightarrow> bool" where
  "sub_streams_ready [] = True"
| "sub_streams_ready (m # ms) =
     (if ss_codec_name m = [] then False
      else if ss_codec_name m \<in> {''H264'', ''H265'', ''MP4V-ES''} \<and> ss_extra_data m = [] then False
      else sub_streams_ready ms)"

definition CheckMetadata :: "LiveRtspClient \<Rightarrow> bool \<times> LiveRtspClient" where
  "CheckMetadata c =
     (if rc_is_metadata_ok c then (True, c)
      else if sm_ssrc (rc_metadata c) = 0 then (False, c)
      else if sm_source_proto (rc_metadata c) = [] then (False, c)
      else if sm_sub_streams (rc_metadata c) = [] then (False, c)
      else if \<not> sub_streams_ready (sm_sub_streams (rc_metadata c)) then (False, c)
      else let c1 = c\<lparr>rc_is_metadata_ok := True\<rparr>
           in (True, notify_listener (OnMetaReady (rc_metadata c1)) c1))"

definition HandleError :: "int \<Rightarrow> LiveRtspClient \<Rightarrow> LiveRtspClient" where
  "HandleError err_code c = notify_listener (OnError err_code) c"

definition AfterGettingFrame ::
  "(nat \<Rightarrow> timeval) \<Rightarrow> int \<Rightarrow> MediaFrameType \<Rightarrow> timeval \<Rightarrow> u8 list \<Rightarrow> LiveRtspClient \<Rightarrow> LiveRtspClient" where
  "AfterGettingFrame clk sub_stream_index frame_type timestamp frame_buf c =
     (if rc_are_already_shutting_down c then c
      else if \<not> IsMetaReady_client c then c
      else
        let now = clk (rc_clock_reads c);
            c1 = c\<lparr>rc_last_frame_time := now, rc_clock_reads := Suc (rc_clock_reads c)\<rparr>
        in if tv_sec timestamp \<le> tv_sec now - 10 \<or> tv_sec timestamp \<ge> tv_sec now + 10
           then HandleError RTSP_CLIENT_ERR_TIME_ERR c1
           else notify_listener (OnMediaFrame
             \<lparr>fi_sub_stream_index = sub_stream_index, fi_frame_type = frame_type, fi_tv_sec = tv_sec timestamp,
              fi_tv_usec = tv_usec timestamp, fi_ssrc = sm_ssrc (rc_metadata c1)\<rparr> frame_buf) c1)"

definition UpdateLostFrame :: "int \<Rightarrow> u64 \<Rightarrow> LiveRtspClient \<Rightarrow> LiveRtspClient" where
  "UpdateLostFrame sub_stream_index lost_frame c = notify_listener (OnLostFrameUpdate sub_stream_index lost_frame) c"

text \<open>The second component says whether the check is scheduled again.\<close>

definition CheckInterFrameGaps :: "timeval \<Rightarrow> LiveRtspClient \<Rightarrow> LiveRtspClient \<times> bool" where
  "CheckInterFrameGaps now c =
     (if tv_sec now \<ge> tv_sec (rc_last_frame_time c) \<and>
         tv_sec now - tv_sec (rc_last_frame_time c) \<ge> interPacketGapMaxTime
      then (HandleError RTSP_CLIENT_ERR_INTER_FRAME_GAP c, False)
      else (c, True))"

section \<open>The base class\<close>

record FrameBuf =
  fb_frame_type :: MediaFrameType
  fb_presentation_time :: timeval
  fb_buf :: "u8 list"

record 'd MediaOutputSink =
  recv_buf :: "u8 list"
  sink_buf_size :: nat
  sub_stream_index :: int
  has_client :: bool
  last_pts :: timeval
  frame_queue :: "FrameBuf list"
  last_gap :: 'd
  lost_frames :: u64
  last_data_frame_pts :: timeval

text \<open>
  Computations with \<open>double\<close>: \<open>0.0\<close>, the distance of two times, the number of frames that a distance \<open>cur_gap\<close> lost
  when the last one was \<open>last_gap\<close> (nothing when the test of lines 188 and 189 fails), and whether the first of two
  times is more than 10 ms after the second.
\<close>

record 'd gap_arith =
  ga_zero :: 'd
  ga_gap :: "timeval \<Rightarrow> timeval \<Rightarrow> 'd"
  ga_lost :: "'d \<Rightarrow> 'd \<Rightarrow> int option"
  ga_stale :: "timeval \<Rightarrow> timeval \<Rightarrow> bool"

definition tv_zero :: timeval where "tv_zero = \<lparr>tv_sec = 0, tv_usec = 0\<rparr>"

definition pts_before :: "timeval \<Rightarrow> timeval \<Rightarrow> bool" where
  "pts_before a b = (tv_sec a < tv_sec b \<or> (tv_sec a = tv_sec b \<and> tv_usec a < tv_usec b))"

text \<open>\<open>new\<close> gives memory with some content \<open>mem\<close>.\<close>

definition new_MediaOutputSink :: "'d gap_arith \<Rightarrow> (nat \<Rightarrow> u8 list) \<Rightarrow> bool \<Rightarrow> int \<Rightarrow> nat \<Rightarrow> 'd MediaOutputSink" where
  "new_MediaOutputSink ga mem client index buf_size =
     \<lparr>recv_buf = mem buf_size, sink_buf_size = buf_size, sub_stream_index = index, has_client = client, last_pts = tv_zero,
      frame_queue = [], last_gap = ga_zero ga, lost_frames = 0, last_data_frame_pts = tv_zero\<rparr>"

definition createNew_base ::
  "'d gap_arith \<Rightarrow> (nat \<Rightarrow> u8 list) \<Rightarrow> bool \<Rightarrow> bool \<Rightarrow> int \<Rightarrow> nat \<Rightarrow> 'd MediaOutputSink option" where
  "createNew_base ga mem client subsession index buf_size =
     (if \<not> subsession \<or> index < 0 \<or> buf_size < 100 then None else Some (new_MediaOutputSink ga mem client index buf_size))"

definition put_bytes :: "nat \<Rightarrow> u8 list \<Rightarrow> u8 list \<Rightarrow> u8 list cpp" where
  "put_bytes off d b = (if off + length d \<le> length b then Ret (take off b @ d @ drop (off + length d) b) else Undef)"

definition DoAfterGettingFrame_base ::
  "(nat \<Rightarrow> timeval) \<Rightarrow> nat \<Rightarrow> nat \<Rightarrow> timeval \<Rightarrow> ('d, 'z) MediaOutputSink_scheme \<Rightarrow> LiveRtspClient \<Rightarrow>
     (('d, 'z) MediaOutputSink_scheme \<times> LiveRtspClient) cpp" where
  "DoAfterGettingFrame_base clk frameSize numTruncatedBytes pts s c =
     (if pts_before pts (last_pts s) then Ret (s, c)
      else
        let s1 = s\<lparr>last_pts := pts\<rparr>
        in if numTruncatedBytes > 0 then Ret (s1, c)
           else if has_client s1 then
             (if frameSize > length (recv_buf s1) then Undef
              else Ret (s1, AfterGettingFrame clk (sub_stream_index s1) MEDIA_FRAME_TYPE_KEY_FRAME pts
                              (take frameSize (recv_buf s1)) c))
           else Ret (s1, c))"

definition CheckLostByTime ::
  "'d gap_arith \<Rightarrow> MediaFrameType \<Rightarrow> timeval \<Rightarrow> ('d, 'z) MediaOutputSink_scheme \<Rightarrow> LiveRtspClient \<Rightarrow>
     ('d, 'z) MediaOutputSink_scheme \<times> LiveRtspClient" where
  "CheckLostByTime ga frame_type pts s c =
     (if frame_type = MEDIA_FRAME_TYPE_KEY_FRAME \<or> frame_type = MEDIA_FRAME_TYPE_DATA_FRAME then
        let (s1, c1) =
          (if tv_sec (last_data_frame_pts s) \<noteq> 0 \<or> tv_usec (last_data_frame_pts s) \<noteq> 0 then
             let cur_gap = ga_gap ga pts (last_data_frame_pts s)
             in case ga_lost ga (last_gap s) cur_gap of
                  Some lost \<Rightarrow>
                    let s2 = s\<lparr>lost_frames := lost_frames s + of_int lost\<rparr>
                    in (s2, if has_client s2 then UpdateLostFrame (sub_stream_index s2) (lost_frames s2) c else c)
                | None \<Rightarrow> (s\<lparr>last_gap := cur_gap\<rparr>, c)
           else (s, c))
        in (s1\<lparr>last_data_frame_pts := pts\<rparr>, c1)
      else (s, c))"

definition PushOneFrame ::
  "MediaFrameType \<Rightarrow> timeval \<Rightarrow> u8 list \<Rightarrow> ('d, 'z) MediaOutputSink_scheme \<Rightarrow> ('d, 'z) MediaOutputSink_scheme" where
  "PushOneFrame frame_type timestamp buf s =
     s\<lparr>frame_queue := frame_queue s @ [\<lparr>fb_frame_type = frame_type, fb_presentation_time = timestamp, fb_buf = buf\<rparr>]\<rparr>"

fun flush_frames :: "(nat \<Rightarrow> timeval) \<Rightarrow> bool \<Rightarrow> int \<Rightarrow> FrameBuf list \<Rightarrow> LiveRtspClient \<Rightarrow> LiveRtspClient" where
  "flush_frames clk client index [] c = c"
| "flush_frames clk client index (f # fs) c =
     flush_frames clk client index fs
       (if client then AfterGettingFrame clk index (fb_frame_type f) (fb_presentation_time f) (fb_buf f) c else c)"

definition FlushQueue ::
  "(nat \<Rightarrow> timeval) \<Rightarrow> ('d, 'z) MediaOutputSink_scheme \<Rightarrow> LiveRtspClient \<Rightarrow>
     ('d, 'z) MediaOutputSink_scheme \<times> LiveRtspClient" where
  "FlushQueue clk s c =
     (s\<lparr>frame_queue := []\<rparr>, flush_frames clk (has_client s) (sub_stream_index s) (frame_queue s) c)"

definition ClearQueue :: "('d, 'z) MediaOutputSink_scheme \<Rightarrow> ('d, 'z) MediaOutputSink_scheme" where
  "ClearQueue s = s\<lparr>frame_queue := []\<rparr>"

definition GetQueueFirstPts :: "('d, 'z) MediaOutputSink_scheme \<Rightarrow> timeval" where
  "GetQueueFirstPts s = (case frame_queue s of [] \<Rightarrow> tv_zero | f # _ \<Rightarrow> fb_presentation_time f)"

text \<open>A frame arrives at the start of the buffer.\<close>

definition afterGettingFrame_base ::
  "(nat \<Rightarrow> timeval) \<Rightarrow> u8 list \<Rightarrow> nat \<Rightarrow> timeval \<Rightarrow> 'd MediaOutputSink \<Rightarrow> LiveRtspClient \<Rightarrow>
     ('d MediaOutputSink \<times> LiveRtspClient) cpp" where
  "afterGettingFrame_base clk frame numTruncatedBytes pts s c =
     bind_cpp (put_bytes 0 frame (recv_buf s)) (\<lambda>b.
       DoAfterGettingFrame_base clk (length frame) numTruncatedBytes pts (s\<lparr>recv_buf := b\<rparr>) c)"


section \<open>H.264 and H.265\<close>

definition MAX_PARAMETER_NAL_SIZE :: nat where "MAX_PARAMETER_NAL_SIZE = 1024"

record 'd H264or5OutputSink = "'d MediaOutputSink" +
  h_number :: int
  recv_buf_size :: u32

definition createNew_h264or5 ::
  "'d gap_arith \<Rightarrow> (nat \<Rightarrow> u8 list) \<Rightarrow> bool \<Rightarrow> bool \<Rightarrow> int \<Rightarrow> nat \<Rightarrow> int \<Rightarrow> 'd H264or5OutputSink option" where
  "createNew_h264or5 ga mem client subsession index buf_size h =
     (if \<not> subsession \<or> index < 0 \<or> buf_size < MAX_PARAMETER_NAL_SIZE \<or> (h \<noteq> 264 \<and> h \<noteq> 265) then None
      else Some (MediaOutputSink.extend (new_MediaOutputSink ga mem client index buf_size)
                   \<lparr>h_number = h, recv_buf_size = 0\<rparr>))"

definition IsVCL_sink :: "int \<Rightarrow> u8 \<Rightarrow> bool" where
  "IsVCL_sink h t = (if h = 264 then t \<le> 5 \<and> t > 0 else t \<le> 31)"

definition IsIDR_sink :: "int \<Rightarrow> u8 \<Rightarrow> bool" where
  "IsIDR_sink h t = (if h = 264 then t = 5 else t = 19 \<or> t = 20)"

definition vcl_type :: "int \<Rightarrow> u8 \<Rightarrow> MediaFrameType" where
  "vcl_type h t = (if IsIDR_sink h t then MEDIA_FRAME_TYPE_KEY_FRAME else MEDIA_FRAME_TYPE_DATA_FRAME)"

definition unit_type_of :: "int \<Rightarrow> u8 \<Rightarrow> u8" where
  "unit_type_of h b = (if h = 264 then b AND 0x1F else if h = 265 then drop_bit 1 (b AND 0x7E) else 0xFF)"

text \<open>The type of the first byte of a frame; \<open>0xFF\<close> when the frame is too short.\<close>

definition first_unit_type :: "int \<Rightarrow> u8 list \<Rightarrow> u8" where
  "first_unit_type h frame =
     (if h = 264 \<and> length frame \<ge> 1 then unit_type_of h (frame ! 0)
      else if h = 265 \<and> length frame \<ge> 2 then unit_type_of h (frame ! 0)
      else 0xFF)"

text \<open>The loop over a frame that starts with a unit without picture data.\<close>

fun inner_type :: "int \<Rightarrow> u8 list \<Rightarrow> MediaFrameType" where
  "inner_type h (a # b # c # d # e # r) =
     (if a = 0 \<and> b = 0 \<and> c = 0 \<and> d = 1 \<and> IsVCL_sink h (unit_type_of h e) then vcl_type h (unit_type_of h e)
      else inner_type h (b # c # d # e # r))"
| "inner_type h _ = MEDIA_FRAME_TYPE_PARAM_FRAME"

definition frame_type_of :: "int \<Rightarrow> u8 list \<Rightarrow> MediaFrameType" where
  "frame_type_of h frame =
     (let t = first_unit_type h frame in if IsVCL_sink h t then vcl_type h t else inner_type h frame)"

text \<open>What \<open>getVPSandSPSandPPS\<close> of the framer returns; a null pointer is \<open>None\<close>.\<close>

type_synonym parameter_sets = "u8 list option \<times> u8 list option \<times> u8 list option"

definition sets_extra_data :: "int \<Rightarrow> parameter_sets \<Rightarrow> string option" where
  "sets_extra_data h sets =
     (case sets of (vps, sps, pps) \<Rightarrow>
        if h = 264 then
          (case (sps, pps) of
             (Some s, Some p) \<Rightarrow> Some (text_of (start_code @ s @ start_code @ p))
           | _ \<Rightarrow> None)
        else if h = 265 then
          (case (vps, sps, pps) of
             (Some v, Some s, Some p) \<Rightarrow> Some (text_of (start_code @ v @ start_code @ s @ start_code @ p))
           | _ \<Rightarrow> None)
        else None)"

definition set_extra_data :: "int \<Rightarrow> string option \<Rightarrow> LiveRtspClient \<Rightarrow> LiveRtspClient cpp" where
  "set_extra_data index extra c =
     (let ms = sm_sub_streams (rc_metadata c); i = nat index
      in if index < 0 \<or> i \<ge> length ms then Undef
         else if ss_extra_data (ms ! i) \<noteq> [] then Ret c
         else case extra of
             None \<Rightarrow> Ret c
           | Some d \<Rightarrow> Ret (snd (CheckMetadata (c\<lparr>rc_metadata := (rc_metadata c)
               \<lparr>sm_sub_streams := ms[i := (ms ! i)\<lparr>ss_extra_data := ss_extra_data (ms ! i) @ d\<rparr>]\<rparr>\<rparr>))))"

definition update_sink_meta :: "bool \<Rightarrow> int \<Rightarrow> string option \<Rightarrow> LiveRtspClient \<Rightarrow> LiveRtspClient cpp" where
  "update_sink_meta client index extra c =
     (if client \<and> \<not> IsMetaReady_client c then set_extra_data index extra c else Ret c)"

text \<open>Sending or keeping what is in the buffer.\<close>

definition output_buffer ::
  "(nat \<Rightarrow> timeval) \<Rightarrow> MediaFrameType \<Rightarrow> timeval \<Rightarrow> 'd H264or5OutputSink \<Rightarrow> LiveRtspClient \<Rightarrow>
     'd H264or5OutputSink \<times> LiveRtspClient" where
  "output_buffer clk frame_type pts s c =
     (let sent = AfterGettingFrame clk (sub_stream_index s) frame_type pts
                   (take (unat (recv_buf_size s)) (recv_buf s)) c;
          cleared = s\<lparr>recv_buf_size := 0\<rparr>
      in if has_client s then
           (if IsMetaReady_client c then
              (if frame_type = MEDIA_FRAME_TYPE_PARAM_FRAME then
                 (if unat (recv_buf_size s) > MAX_PARAMETER_NAL_SIZE then (cleared, sent) else (s, c))
               else (cleared, sent))
            else
              (if frame_type = MEDIA_FRAME_TYPE_PARAM_FRAME then
                 (if unat (recv_buf_size s) > MAX_PARAMETER_NAL_SIZE then (cleared, c) else (s, c))
               else (cleared, c)))
         else (cleared, c))"

definition DoAfterGettingFrame_h264or5 ::
  "'d gap_arith \<Rightarrow> (nat \<Rightarrow> timeval) \<Rightarrow> parameter_sets option \<Rightarrow> nat \<Rightarrow> nat \<Rightarrow> timeval \<Rightarrow> 'd H264or5OutputSink \<Rightarrow>
     LiveRtspClient \<Rightarrow> ('d H264or5OutputSink \<times> LiveRtspClient) cpp" where
  "DoAfterGettingFrame_h264or5 ga clk framer frameSize numTruncatedBytes pts s c =
     (if pts_before pts (last_pts s) then Ret (s, c)
      else
        let s1 = s\<lparr>last_pts := pts\<rparr>; off = unat (recv_buf_size s)
        in if numTruncatedBytes > 0 then Ret (s1\<lparr>recv_buf_size := 0\<rparr>, c)
           else if off + frameSize > length (recv_buf s1) then Undef
           else case framer of
               None \<Rightarrow>
                 bind_cpp (put_bytes 0 (take frameSize (drop off (recv_buf s1))) (recv_buf s1)) (\<lambda>b.
                   DoAfterGettingFrame_base clk frameSize numTruncatedBytes pts
                     (s1\<lparr>recv_buf := b, recv_buf_size := 0\<rparr>) c)
             | Some sets \<Rightarrow>
                 bind_cpp (update_sink_meta (has_client s1) (sub_stream_index s1)
                             (sets_extra_data (h_number s1) sets) c) (\<lambda>c1.
                   let frame_type = frame_type_of (h_number s1) (take frameSize (drop off (recv_buf s1)));
                       (s2, c2) = CheckLostByTime ga frame_type pts s1 c1
                   in Ret (output_buffer clk frame_type pts
                             (s2\<lparr>recv_buf_size := recv_buf_size s2 + of_nat frameSize\<rparr>) c2)))"

text \<open>
  \<open>continuePlaying\<close> puts a start code in front of the next frame; the frame is requested behind it.
\<close>

definition continuePlaying_h264or5 :: "'d H264or5OutputSink \<Rightarrow> 'd H264or5OutputSink cpp" where
  "continuePlaying_h264or5 s =
     bind_cpp (put_bytes (unat (recv_buf_size s)) start_code (recv_buf s)) (\<lambda>b.
       Ret (s\<lparr>recv_buf := b, recv_buf_size := recv_buf_size s + 4\<rparr>))"

definition afterGettingFrame_h264or5 ::
  "'d gap_arith \<Rightarrow> (nat \<Rightarrow> timeval) \<Rightarrow> parameter_sets option \<Rightarrow> u8 list \<Rightarrow> nat \<Rightarrow> timeval \<Rightarrow> 'd H264or5OutputSink \<Rightarrow>
     LiveRtspClient \<Rightarrow> ('d H264or5OutputSink \<times> LiveRtspClient) cpp" where
  "afterGettingFrame_h264or5 ga clk framer frame numTruncatedBytes pts s c =
     bind_cpp (put_bytes (unat (recv_buf_size s)) frame (recv_buf s)) (\<lambda>b.
       bind_cpp (DoAfterGettingFrame_h264or5 ga clk framer (length frame) numTruncatedBytes pts (s\<lparr>recv_buf := b\<rparr>) c) (\<lambda>(s1, c1).
         bind_cpp (continuePlaying_h264or5 s1) (\<lambda>s2. Ret (s2, c1))))"

section \<open>MPEG-4\<close>

definition createNew_mpeg4 ::
  "'d gap_arith \<Rightarrow> (nat \<Rightarrow> u8 list) \<Rightarrow> bool \<Rightarrow> bool \<Rightarrow> int \<Rightarrow> nat \<Rightarrow> 'd MediaOutputSink option" where
  "createNew_mpeg4 ga mem client subsession index buf_size =
     (if \<not> subsession \<or> index < 0 \<or> buf_size < 100 then None else Some (new_MediaOutputSink ga mem client index buf_size))"

fun IsIncludeVOP :: "u8 list \<Rightarrow> bool" where
  "IsIncludeVOP (a # b # c # d # r) = ((a = 0 \<and> b = 0 \<and> c = 1 \<and> d = 0xB6) \<or> IsIncludeVOP (b # c # d # r))"
| "IsIncludeVOP _ = False"

fun IsKeyFrame :: "u8 list \<Rightarrow> bool" where
  "IsKeyFrame (a # b # c # d # r) =
     (if a = 0 \<and> b = 0 \<and> c = 1 then
        (if d = 0xB0 \<or> d = 0xB3 then True
         else if d = 0xB6 then
           (case r of e # _ \<Rightarrow> drop_bit 6 e = 0 | [] \<Rightarrow> IsKeyFrame (b # c # d # r))
         else IsKeyFrame (b # c # d # r))
      else IsKeyFrame (b # c # d # r))"
| "IsKeyFrame _ = False"

definition mpeg4_frame_type :: "u8 list \<Rightarrow> MediaFrameType" where
  "mpeg4_frame_type frame =
     (if IsIncludeVOP frame then
        (if IsKeyFrame frame then MEDIA_FRAME_TYPE_KEY_FRAME else MEDIA_FRAME_TYPE_DATA_FRAME)
      else if length frame < 1024 then MEDIA_FRAME_TYPE_PARAM_FRAME
      else MEDIA_FRAME_TYPE_DATA_FRAME)"

text \<open>The configuration that the framer returns; a null pointer and an empty one have no effect.\<close>

definition config_extra_data :: "u8 list option \<Rightarrow> string option" where
  "config_extra_data config = (case config of None \<Rightarrow> None | Some d \<Rightarrow> if length d \<noteq> 0 then Some (text_of d) else None)"

definition drop_stale :: "'d gap_arith \<Rightarrow> timeval \<Rightarrow> 'd MediaOutputSink \<Rightarrow> 'd MediaOutputSink" where
  "drop_stale ga pts s =
     (if frame_queue s \<noteq> [] \<and> ga_stale ga pts (GetQueueFirstPts s) then ClearQueue s else s)"

definition DoAfterGettingFrame_mpeg4 ::
  "'d gap_arith \<Rightarrow> (nat \<Rightarrow> timeval) \<Rightarrow> u8 list option option \<Rightarrow> nat \<Rightarrow> nat \<Rightarrow> timeval \<Rightarrow> 'd MediaOutputSink \<Rightarrow>
     LiveRtspClient \<Rightarrow> ('d MediaOutputSink \<times> LiveRtspClient) cpp" where
  "DoAfterGettingFrame_mpeg4 ga clk framer frameSize numTruncatedBytes pts s c =
     (if pts_before pts (last_pts s) then Ret (s, c)
      else
        let s1 = s\<lparr>last_pts := pts\<rparr>
        in if numTruncatedBytes > 0 then Ret (s1, c)
           else case framer of
               None \<Rightarrow> DoAfterGettingFrame_base clk frameSize numTruncatedBytes pts s1 c
             | Some config \<Rightarrow>
                 let s2 = drop_stale ga pts s1
                 in bind_cpp (update_sink_meta (has_client s2) (sub_stream_index s2) (config_extra_data config) c) (\<lambda>c1.
                   if frameSize > length (recv_buf s2) then Undef
                   else
                     let frame = take frameSize (recv_buf s2);
                         frame_type = mpeg4_frame_type frame;
                         (s3, c2) = CheckLostByTime ga frame_type pts s2 c1
                     in Ret (if has_client s3 then
                               (if IsMetaReady_client c2 then
                                  let (s4, c3) = (if frame_queue s3 \<noteq> [] then FlushQueue clk s3 c2 else (s3, c2))
                                  in (s4, AfterGettingFrame clk (sub_stream_index s4) frame_type pts frame c3)
                                else if frame_type = MEDIA_FRAME_TYPE_PARAM_FRAME
                                then (PushOneFrame frame_type pts frame s3, c2)
                                else (s3, c2))
                             else (s3, c2))))"

definition afterGettingFrame_mpeg4 ::
  "'d gap_arith \<Rightarrow> (nat \<Rightarrow> timeval) \<Rightarrow> u8 list option option \<Rightarrow> u8 list \<Rightarrow> nat \<Rightarrow> timeval \<Rightarrow> 'd MediaOutputSink \<Rightarrow>
     LiveRtspClient \<Rightarrow> ('d MediaOutputSink \<times> LiveRtspClient) cpp" where
  "afterGettingFrame_mpeg4 ga clk framer frame numTruncatedBytes pts s c =
     bind_cpp (put_bytes 0 frame (recv_buf s)) (\<lambda>b.
       DoAfterGettingFrame_mpeg4 ga clk framer (length frame) numTruncatedBytes pts (s\<lparr>recv_buf := b\<rparr>) c)"

end
