(* ===== verification/Output_Sink_Properties.thy ===== *)
theory Output_Sink_Properties
  imports Output_Sink
begin

text \<open>
  Correctness of the output sinks: the times of the frames that a sink hands to the listener never run backwards
  (locale \<open>ordered_sink\<close>, for all three classes); the sink for H.264 and H.265 hands on every unit, with a start code
  in front and in order, and its buffer keeps a bounded size; the frames that it drops because of their time stamp,
  however, leave their start codes in the buffer, until it overflows.
\<close>

section \<open>Published frames\<close>

fun call_times :: "rtsp_call list \<Rightarrow> timeval list" where
  "call_times [] = []"
| "call_times (OnMediaFrame fi d # cs) = \<lparr>tv_sec = fi_tv_sec fi, tv_usec = fi_tv_usec fi\<rparr> # call_times cs"
| "call_times (_ # cs) = call_times cs"

fun call_data :: "rtsp_call list \<Rightarrow> u8 list" where
  "call_data [] = []"
| "call_data (OnMediaFrame fi d # cs) = d @ call_data cs"
| "call_data (_ # cs) = call_data cs"

lemma call_times_append [simp]: "call_times (xs @ ys) = call_times xs @ call_times ys"
  by (induction xs rule: call_times.induct) simp_all

lemma call_data_append [simp]: "call_data (xs @ ys) = call_data xs @ call_data ys"
  by (induction xs rule: call_data.induct) simp_all

definition pub_times :: "LiveRtspClient \<Rightarrow> timeval list" where
  "pub_times c = call_times (rc_calls c)"

definition not_after :: "timeval \<Rightarrow> timeval \<Rightarrow> bool" where
  "not_after a b \<longleftrightarrow> \<not> pts_before b a"

lemma not_after_refl [simp]: "not_after a a"
  by (simp add: not_after_def pts_before_def)

lemma not_after_trans: "not_after a b \<Longrightarrow> not_after b c \<Longrightarrow> not_after a c"
  by (auto simp: not_after_def pts_before_def)

lemma AfterGettingFrame_times:
  "pub_times (AfterGettingFrame clk i ft ts d c) = pub_times c \<or>
   pub_times (AfterGettingFrame clk i ft ts d c) = pub_times c @ [ts]"
  by (auto simp: AfterGettingFrame_def HandleError_def notify_listener_def pub_times_def Let_def)

lemma CheckMetadata_times [simp]: "pub_times (snd (CheckMetadata c)) = pub_times c"
  by (auto simp: CheckMetadata_def notify_listener_def pub_times_def Let_def)

lemma update_sink_meta_times:
  "update_sink_meta cl i extra c = Ret c' \<Longrightarrow> pub_times c' = pub_times c"
proof -
  have "pub_times (c\<lparr>rc_metadata := m\<rparr>) = pub_times c" for m by (simp add: pub_times_def)
  then show "update_sink_meta cl i extra c = Ret c' \<Longrightarrow> pub_times c' = pub_times c"
    by (auto simp: update_sink_meta_def set_extra_data_def Let_def split: if_splits option.splits)
qed

lemma CheckLost_keeps:
  assumes "CheckLostByTime ga ft pts s c = (s', c')"
  shows "pub_times c' = pub_times c" "last_pts s' = last_pts s" "frame_queue s' = frame_queue s"
    "has_client s' = has_client s" "recv_buf s' = recv_buf s" "sub_stream_index s' = sub_stream_index s"
    "sink_buf_size s' = sink_buf_size s"
  using assms
  by (auto simp: CheckLostByTime_def UpdateLostFrame_def notify_listener_def pub_times_def Let_def
      split: if_splits option.splits)

section \<open>Order of the times\<close>

text \<open>
  What the three sinks promise of one frame: \<open>latest\<close> is the time of the last frame that was accepted, \<open>held\<close> are the
  times of frames that are kept for later. Of the times that were handed on or kept some may be lost; at most the
  time of the new frame is added, at the end.
\<close>

locale ordered_sink =
  fixes feed :: "'e \<Rightarrow> 's \<Rightarrow> LiveRtspClient \<Rightarrow> ('s \<times> LiveRtspClient) cpp"
    and latest :: "'s \<Rightarrow> timeval" and held :: "'s \<Rightarrow> timeval list"
  assumes latest_grows: "feed e s c = Ret (s', c') \<Longrightarrow> not_after (latest s) (latest s')"
    and feed_times: "feed e s c = Ret (s', c') \<Longrightarrow>
      subseq (pub_times c' @ held s') (pub_times c @ held s @ [latest s'])"
begin

definition in_order :: "'s \<Rightarrow> LiveRtspClient \<Rightarrow> bool" where
  "in_order s c \<longleftrightarrow> sorted_wrt not_after (pub_times c @ held s @ [latest s])"

lemma subseq_sorted: "subseq xs ys \<Longrightarrow> sorted_wrt R ys \<Longrightarrow> sorted_wrt R xs"
  by (induction rule: list_emb.induct) (auto dest: list_emb_set)

lemma feed_in_order:
  assumes "in_order s c" "feed e s c = Ret (s', c')"
  shows "in_order s' c'"
proof -
  have sorted: "sorted_wrt not_after (pub_times c @ held s)" and le: "\<forall>t \<in> set (pub_times c @ held s). not_after t (latest s)"
    using assms(1) by (auto simp: in_order_def sorted_wrt_append)
  have up: "not_after t (latest s')" if "t \<in> set (pub_times c @ held s)" for t
    using le that latest_grows [OF assms(2)] not_after_trans by blast
  have "sorted_wrt not_after ((pub_times c @ held s) @ [latest s'])"
    using sorted up by (simp only: sorted_wrt_append) simp
  then have "sorted_wrt not_after (pub_times c' @ held s')"
    using subseq_sorted [OF feed_times [OF assms(2)]] by simp
  moreover have "not_after t (latest s')" if "t \<in> set (pub_times c' @ held s')" for t
    using list_emb_set [OF feed_times [OF assms(2)] that] up by fastforce
  ultimately have "sorted_wrt not_after ((pub_times c' @ held s') @ [latest s'])"
    by (simp only: sorted_wrt_append) simp
  then show ?thesis by (simp add: in_order_def)
qed

end

fun sink_run ::
  "('e \<Rightarrow> 's \<Rightarrow> LiveRtspClient \<Rightarrow> ('s \<times> LiveRtspClient) cpp) \<Rightarrow> 'e list \<Rightarrow> 's \<Rightarrow> LiveRtspClient \<Rightarrow>
     ('s \<times> LiveRtspClient) cpp" where
  "sink_run feed [] s c = Ret (s, c)"
| "sink_run feed (e # es) s c = bind_cpp (feed e s c) (\<lambda>(s1, c1). sink_run feed es s1 c1)"

context ordered_sink
begin

lemma run_in_order: "in_order s c \<Longrightarrow> sink_run feed es s c = Ret (s', c') \<Longrightarrow> in_order s' c'"
proof (induction es arbitrary: s c)
  case (Cons e es)
  from Cons.prems(2) obtain s1 c1 where "feed e s c = Ret (s1, c1)" "sink_run feed es s1 c1 = Ret (s', c')"
    by (cases "feed e s c") auto
  with Cons show ?case using feed_in_order by blast
qed simp

lemma run_times:
  assumes "pub_times c = []" "held s = []" "sink_run feed es s c = Ret (s', c')"
  shows "sorted_wrt not_after (pub_times c')"
proof -
  have "in_order s c" using assms by (simp add: in_order_def)
  from run_in_order [OF this assms(3)] show ?thesis by (simp add: in_order_def sorted_wrt_append)
qed

end

text \<open>
  The frames that the source delivers: a frame is cut to the space that the request left, and the rest counts as
  truncated. With a frame comes what the framer knows at that time; \<open>framer\<close> says whether the subsession has the
  framer of its codec.
\<close>

type_synonym 'k sink_frame = "u8 list \<times> timeval \<times> 'k"

definition feed_base :: "(nat \<Rightarrow> timeval) \<Rightarrow> unit sink_frame \<Rightarrow> 'd MediaOutputSink \<Rightarrow> LiveRtspClient \<Rightarrow>
    ('d MediaOutputSink \<times> LiveRtspClient) cpp" where
  "feed_base clk e s c = (case e of (frame, pts, _) \<Rightarrow>
     afterGettingFrame_base clk (take (sink_buf_size s) frame) (length frame - sink_buf_size s) pts s c)"

definition feed_mpeg4 :: "'d gap_arith \<Rightarrow> (nat \<Rightarrow> timeval) \<Rightarrow> bool \<Rightarrow> u8 list option sink_frame \<Rightarrow> 'd MediaOutputSink \<Rightarrow>
    LiveRtspClient \<Rightarrow> ('d MediaOutputSink \<times> LiveRtspClient) cpp" where
  "feed_mpeg4 ga clk framer e s c = (case e of (frame, pts, config) \<Rightarrow>
     afterGettingFrame_mpeg4 ga clk (if framer then Some config else None)
       (take (sink_buf_size s) frame) (length frame - sink_buf_size s) pts s c)"

definition buf_space :: "'d H264or5OutputSink \<Rightarrow> nat" where
  "buf_space s = sink_buf_size s - unat (recv_buf_size s)"

definition feed_h264or5 :: "'d gap_arith \<Rightarrow> (nat \<Rightarrow> timeval) \<Rightarrow> bool \<Rightarrow> parameter_sets sink_frame \<Rightarrow> 'd H264or5OutputSink \<Rightarrow>
    LiveRtspClient \<Rightarrow> ('d H264or5OutputSink \<times> LiveRtspClient) cpp" where
  "feed_h264or5 ga clk framer e s c = (case e of (frame, pts, sets) \<Rightarrow>
     afterGettingFrame_h264or5 ga clk (if framer then Some sets else None)
       (take (buf_space s) frame) (length frame - buf_space s) pts s c)"

lemma base_frame:
  assumes "DoAfterGettingFrame_base clk n tr pts s c = Ret (s', c')"
  shows "not_after (last_pts s) (last_pts s')" "frame_queue s' = frame_queue s"
    "pub_times c' = pub_times c \<or> pub_times c' = pub_times c @ [last_pts s']"
proof -
  note t = AfterGettingFrame_times [of clk "sub_stream_index s" MEDIA_FRAME_TYPE_KEY_FRAME pts "take n (recv_buf s)" c]
  show "not_after (last_pts s) (last_pts s')" "frame_queue s' = frame_queue s"
    "pub_times c' = pub_times c \<or> pub_times c' = pub_times c @ [last_pts s']"
    using assms t by (auto simp: DoAfterGettingFrame_base_def Let_def not_after_def pts_before_def split: if_splits)
qed

lemma subseq_one: "xs = ys \<or> xs = ys @ [t] \<Longrightarrow> subseq xs (ys @ [t])"
  by auto

interpretation base_sink: ordered_sink "feed_base clk" last_pts "\<lambda>_. []" for clk
proof unfold_locales
  fix e :: "unit sink_frame" and s s' :: "'a MediaOutputSink" and c c'
  assume "feed_base clk e s c = Ret (s', c')"
  then obtain n tr pts b where "DoAfterGettingFrame_base clk n tr pts (s\<lparr>recv_buf := b\<rparr>) c = Ret (s', c')"
    by (cases e) (auto simp: feed_base_def afterGettingFrame_base_def bind_cpp_Ret_conv)
  note f = base_frame [OF this]
  show "not_after (last_pts s) (last_pts s')" using f(1) by simp
  show "subseq (pub_times c' @ []) (pub_times c @ [] @ [last_pts s'])" using f(3) by (auto intro: subseq_one)
qed

lemma output_buffer_times:
  assumes "output_buffer clk ft pts s c = (s', c')"
  shows "last_pts s' = last_pts s" "pub_times c' = pub_times c \<or> pub_times c' = pub_times c @ [pts]"
proof -
  note t = AfterGettingFrame_times [of clk "sub_stream_index s" ft pts "take (unat (recv_buf_size s)) (recv_buf s)" c]
  show "last_pts s' = last_pts s" "pub_times c' = pub_times c \<or> pub_times c' = pub_times c @ [pts]"
    using assms t by (auto simp: output_buffer_def Let_def split: if_splits)
qed

lemma h264or5_frame:
  assumes "DoAfterGettingFrame_h264or5 ga clk framer n tr pts s c = Ret (s', c')"
  shows "not_after (last_pts s) (last_pts s') \<and> (pub_times c' = pub_times c \<or> pub_times c' = pub_times c @ [last_pts s'])"
proof (cases "pts_before pts (last_pts s) \<or> tr > 0")
  case True
  then show ?thesis
    using assms by (auto simp: DoAfterGettingFrame_h264or5_def Let_def not_after_def pts_before_def split: if_splits)
next
  case False
  let ?s = "s\<lparr>last_pts := pts\<rparr>" and ?off = "unat (recv_buf_size s)"
  have na: "not_after (last_pts s) pts" using False by (simp add: not_after_def)
  show ?thesis
  proof (cases framer)
    case None
    with False assms obtain b where "DoAfterGettingFrame_base clk n tr pts (?s\<lparr>recv_buf := b, recv_buf_size := 0\<rparr>) c = Ret (s', c')"
      by (auto simp: DoAfterGettingFrame_h264or5_def Let_def bind_cpp_Ret_conv split: if_splits)
    from base_frame [OF this] na show ?thesis by (auto intro: not_after_trans)
  next
    case (Some sets)
    let ?ft = "frame_type_of (h_number s) (take n (drop ?off (recv_buf s)))"
    from Some False assms obtain c1 where m: "update_sink_meta (has_client s) (sub_stream_index s) (sets_extra_data (h_number s) sets) c = Ret c1"
      and r: "(case CheckLostByTime ga ?ft pts ?s c1 of (s2, c2) \<Rightarrow>
        Ret (output_buffer clk ?ft pts (s2\<lparr>recv_buf_size := recv_buf_size s2 + of_nat n\<rparr>) c2)) = Ret (s', c')"
      by (auto simp: DoAfterGettingFrame_h264or5_def Let_def bind_cpp_Ret_conv split: if_splits)
    obtain s2 c2 where l: "CheckLostByTime ga ?ft pts ?s c1 = (s2, c2)" by fastforce
    with r have o: "output_buffer clk ?ft pts (s2\<lparr>recv_buf_size := recv_buf_size s2 + of_nat n\<rparr>) c2 = (s', c')" by simp
    have "last_pts s' = pts" using output_buffer_times(1) [OF o] CheckLost_keeps(2) [OF l] by simp
    with na output_buffer_times(2) [OF o] CheckLost_keeps(1) [OF l] update_sink_meta_times [OF m] show ?thesis by simp
  qed
qed

lemma continuePlaying_keeps: "continuePlaying_h264or5 s = Ret s' \<Longrightarrow> last_pts s' = last_pts s"
  by (auto simp: continuePlaying_h264or5_def bind_cpp_Ret_conv)

interpretation h264or5_sink: ordered_sink "feed_h264or5 ga clk framer" last_pts "\<lambda>_. []" for ga clk framer
proof unfold_locales
  fix e :: "parameter_sets sink_frame" and s s' :: "'a H264or5OutputSink" and c c'
  assume "feed_h264or5 ga clk framer e s c = Ret (s', c')"
  then obtain fr n tr pts b s1 where "DoAfterGettingFrame_h264or5 ga clk fr n tr pts (s\<lparr>recv_buf := b\<rparr>) c = Ret (s1, c')"
    "continuePlaying_h264or5 s1 = Ret s'"
    by (cases e) (auto simp: feed_h264or5_def afterGettingFrame_h264or5_def bind_cpp_Ret_conv)
  note f = h264or5_frame [OF this(1)] continuePlaying_keeps [OF this(2)]
  show "not_after (last_pts s) (last_pts s')" using f by simp
  show "subseq (pub_times c' @ []) (pub_times c @ [] @ [last_pts s'])" using f by (auto intro: subseq_one)
qed

lemma flush_times: "subseq (pub_times (flush_frames clk cl i fs c)) (pub_times c @ map fb_presentation_time fs)"
proof (induction fs arbitrary: c)
  case (Cons f fs)
  let ?c = "if cl then AfterGettingFrame clk i (fb_frame_type f) (fb_presentation_time f) (fb_buf f) c else c"
  have "subseq (pub_times ?c) (pub_times c @ [fb_presentation_time f])"
    using AfterGettingFrame_times [of clk i "fb_frame_type f" "fb_presentation_time f" "fb_buf f" c] by (auto intro: subseq_one)
  then have "subseq (pub_times ?c @ map fb_presentation_time fs)
      ((pub_times c @ [fb_presentation_time f]) @ map fb_presentation_time fs)" by (simp only: subseq_append)
  with Cons.IH [of ?c] show ?case by (auto intro: subseq_order.trans)
qed simp

definition queue_times :: "'d MediaOutputSink \<Rightarrow> timeval list" where
  "queue_times s = map fb_presentation_time (frame_queue s)"

lemma mpeg4_plain_frame:
  assumes "DoAfterGettingFrame_mpeg4 ga clk None n tr pts s c = Ret (s', c')"
  shows "not_after (last_pts s) (last_pts s') \<and> (pub_times c' = pub_times c \<or> pub_times c' = pub_times c @ [last_pts s'])"
proof (cases "pts_before pts (last_pts s) \<or> tr > 0")
  case True
  then show ?thesis
    using assms by (auto simp: DoAfterGettingFrame_mpeg4_def Let_def not_after_def pts_before_def split: if_splits)
next
  case False
  with assms have "DoAfterGettingFrame_base clk n tr pts (s\<lparr>last_pts := pts\<rparr>) c = Ret (s', c')"
    by (simp add: DoAfterGettingFrame_mpeg4_def Let_def)
  from base_frame [OF this] False show ?thesis by (auto simp: not_after_def pts_before_def)
qed

lemma mpeg4_frame:
  assumes "DoAfterGettingFrame_mpeg4 ga clk (Some config) n tr pts s c = Ret (s', c')"
  shows "not_after (last_pts s) (last_pts s') \<and>
    subseq (pub_times c' @ queue_times s') (pub_times c @ queue_times s @ [last_pts s'])"
proof (cases "pts_before pts (last_pts s) \<or> tr > 0")
  case True
  then show ?thesis
    using assms by (auto simp: DoAfterGettingFrame_mpeg4_def Let_def not_after_def pts_before_def queue_times_def split: if_splits)
next
  case False
  let ?s = "s\<lparr>last_pts := pts\<rparr>"
  have na: "not_after (last_pts s) pts" using False by (simp add: not_after_def)
  let ?s2 = "drop_stale ga pts ?s" and ?f = "take n (recv_buf (drop_stale ga pts ?s))"
  let ?ft = "mpeg4_frame_type ?f"
  let ?out = "\<lambda>s3 c2. (if has_client s3 then
     (if IsMetaReady_client c2 then
        let (s4, c3) = (if frame_queue s3 \<noteq> [] then FlushQueue clk s3 c2 else (s3, c2))
        in (s4, AfterGettingFrame clk (sub_stream_index s4) ?ft pts ?f c3)
      else if ?ft = MEDIA_FRAME_TYPE_PARAM_FRAME then (PushOneFrame ?ft pts ?f s3, c2) else (s3, c2))
     else (s3, c2))"
  from False assms obtain c1 where m: "update_sink_meta (has_client ?s2) (sub_stream_index ?s2) (config_extra_data config) c = Ret c1"
    and r0: "(case CheckLostByTime ga ?ft pts ?s2 c1 of (s3, c2) \<Rightarrow> Ret (?out s3 c2)) = Ret (s', c')"
    by (auto simp: DoAfterGettingFrame_mpeg4_def Let_def bind_cpp_Ret_conv split: if_split_asm)
  obtain s3 c2 where l: "CheckLostByTime ga ?ft pts ?s2 c1 = (s3, c2)" by fastforce
  with r0 have r: "?out s3 c2 = (s', c')" by simp
  have q: "subseq (queue_times s3) (queue_times s)" and lp: "last_pts s3 = pts"
    using CheckLost_keeps(2,3) [OF l] by (simp_all add: queue_times_def drop_stale_def ClearQueue_def)
  have pc: "pub_times c2 = pub_times c" using CheckLost_keeps(1) [OF l] update_sink_meta_times [OF m] by simp
  show ?thesis
  proof (cases "has_client s3 \<and> IsMetaReady_client c2")
    case True
    obtain s4 c3 where f: "(if frame_queue s3 \<noteq> [] then FlushQueue clk s3 c2 else (s3, c2)) = (s4, c3)" by fastforce
    have fl: "frame_queue s4 = []" "last_pts s4 = pts" "subseq (pub_times c3) (pub_times c2 @ queue_times s3)"
      using f lp flush_times [of clk "has_client s3" "sub_stream_index s3" "frame_queue s3" c2]
      by (auto simp: FlushQueue_def queue_times_def split: if_splits)
    have r': "s' = s4" "c' = AfterGettingFrame clk (sub_stream_index s4) ?ft pts ?f c3"
      using r True unfolding f by auto
    have "subseq (pub_times c3) (pub_times c @ queue_times s)"
      using fl(3) q unfolding pc by (meson subseq_append' subseq_order.trans)
    then have "subseq (pub_times c3 @ [pts]) ((pub_times c @ queue_times s) @ [pts])" by (simp only: subseq_append)
    moreover have "subseq (pub_times c') (pub_times c3 @ [pts])"
      unfolding r'(2) by (rule subseq_one, rule AfterGettingFrame_times)
    ultimately have "subseq (pub_times c') (pub_times c @ queue_times s @ [pts])"
      by (metis append.assoc subseq_order.trans)
    then show ?thesis using na r'(1) fl(1,2) by (simp add: queue_times_def)
  next
    case False
    then have c': "c' = c2" "last_pts s' = pts" "queue_times s' = queue_times s3 \<or> queue_times s' = queue_times s3 @ [pts]"
      using r lp by (auto simp: PushOneFrame_def queue_times_def split: if_split_asm)
    have "subseq (queue_times s3) (queue_times s @ [pts])" "subseq (queue_times s3 @ [pts]) (queue_times s @ [pts])"
      using q by (auto intro: subseq_order.trans)
    with c'(3) have "subseq (queue_times s') (queue_times s @ [pts])" by auto
    then show ?thesis using na pc c'(1,2) by (simp add: subseq_append')
  qed
qed

interpretation mpeg4_sink: ordered_sink "feed_mpeg4 ga clk framer" last_pts
  "\<lambda>s. if framer then queue_times s else []" for ga clk framer
proof unfold_locales
  fix e :: "u8 list option sink_frame" and s s' :: "'a MediaOutputSink" and c c'
  assume "feed_mpeg4 ga clk framer e s c = Ret (s', c')"
  then obtain config n tr pts b where f: "DoAfterGettingFrame_mpeg4 ga clk (if framer then Some config else None) n tr pts
      (s\<lparr>recv_buf := b\<rparr>) c = Ret (s', c')"
    by (cases e) (auto simp: feed_mpeg4_def afterGettingFrame_mpeg4_def bind_cpp_Ret_conv)
  have "not_after (last_pts s) (last_pts s') \<and>
      subseq (pub_times c' @ (if framer then queue_times s' else [])) (pub_times c @ (if framer then queue_times s else []) @ [last_pts s'])"
  proof (cases framer)
    case True
    with f show ?thesis using mpeg4_frame [of ga clk config n tr pts "s\<lparr>recv_buf := b\<rparr>" c s' c'] by (simp add: queue_times_def)
  next
    case False
    with f show ?thesis using mpeg4_plain_frame [of ga clk n tr pts "s\<lparr>recv_buf := b\<rparr>" c s' c'] by auto
  qed
  then show "not_after (last_pts s) (last_pts s')"
    "subseq (pub_times c' @ (if framer then queue_times s' else [])) (pub_times c @ (if framer then queue_times s else []) @ [last_pts s'])"
    by simp_all
qed


section \<open>Units of H.264 and H.265\<close>

definition sink_ready :: "LiveRtspClient \<Rightarrow> bool" where
  "sink_ready c \<longleftrightarrow> rc_listener c \<and> \<not> rc_are_already_shutting_down c \<and> rc_is_metadata_ok c"

text \<open>The times of the stream and the clock of the machine differ by less than ten seconds.\<close>

definition in_sync :: "(nat \<Rightarrow> timeval) \<Rightarrow> timeval \<Rightarrow> bool" where
  "in_sync clk pts \<longleftrightarrow> (\<forall>n. tv_sec (clk n) - 10 < tv_sec pts \<and> tv_sec pts < tv_sec (clk n) + 10)"

definition buffer_ok :: "'d H264or5OutputSink \<Rightarrow> bool" where
  "buffer_ok s \<longleftrightarrow> length (recv_buf s) = sink_buf_size s \<and> sink_buf_size s < 2 ^ 32 \<and>
     MAX_PARAMETER_NAL_SIZE + 4 \<le> sink_buf_size s \<and>
     4 \<le> unat (recv_buf_size s) \<and> unat (recv_buf_size s) \<le> MAX_PARAMETER_NAL_SIZE + 4"

definition collected :: "'d H264or5OutputSink \<Rightarrow> u8 list" where
  "collected s = take (unat (recv_buf_size s)) (recv_buf s)"

lemma put_bytes_fits:
  assumes "off + length d \<le> length b"
  obtains b' where "put_bytes off d b = Ret b'" "length b' = length b" "take (off + length d) b' = take off b @ d"
    "take off b' = take off b"
  using assms by (intro that [of "take off b @ d @ drop (off + length d) b"]) (simp_all add: put_bytes_def)

lemma unat_add_fits: "unat (w :: u32) + n < 2 ^ 32 \<Longrightarrow> unat (w + of_nat n) = unat w + n"
  using unat_add_lem [of w "of_nat n"] by (simp add: unat_of_nat)

lemma CheckLost_h264or5:
  assumes "CheckLostByTime ga ft pts s c = (s', c')"
  shows "recv_buf_size s' = recv_buf_size s" "h_number s' = h_number s"
    "call_data (rc_calls c') = call_data (rc_calls c)" "sink_ready c' = sink_ready c"
  using assms
  by (auto simp: CheckLostByTime_def UpdateLostFrame_def notify_listener_def sink_ready_def Let_def
      split: if_splits option.splits)

lemma AfterGettingFrame_ready:
  assumes "sink_ready c" "in_sync clk pts"
  shows "sink_ready (AfterGettingFrame clk i ft pts d c)"
    "call_data (rc_calls (AfterGettingFrame clk i ft pts d c)) = call_data (rc_calls c) @ d"
proof -
  have "\<not> (tv_sec pts \<le> tv_sec (clk n) - 10 \<or> tv_sec pts \<ge> tv_sec (clk n) + 10)" for n
    using assms(2) by (auto simp: in_sync_def not_le)
  then show "sink_ready (AfterGettingFrame clk i ft pts d c)"
    "call_data (rc_calls (AfterGettingFrame clk i ft pts d c)) = call_data (rc_calls c) @ d"
    using assms(1) by (simp_all add: AfterGettingFrame_def IsMetaReady_client_def notify_listener_def sink_ready_def Let_def)
qed

lemma output_buffer_complete:
  assumes "sink_ready c" "in_sync clk pts" "has_client s" "output_buffer clk ft pts s c = (s', c')"
  shows "sink_ready c'" "call_data (rc_calls c') @ collected s' = call_data (rc_calls c) @ collected s"
    "unat (recv_buf_size s') \<le> MAX_PARAMETER_NAL_SIZE" "recv_buf s' = recv_buf s" "sink_buf_size s' = sink_buf_size s"
    "has_client s' = has_client s" "last_pts s' = last_pts s"
proof -
  have ok: "IsMetaReady_client c" using assms(1) by (simp add: sink_ready_def IsMetaReady_client_def)
  note sent = AfterGettingFrame_ready [OF assms(1,2), of "sub_stream_index s" ft "collected s"]
  show "sink_ready c'" "call_data (rc_calls c') @ collected s' = call_data (rc_calls c) @ collected s"
    "unat (recv_buf_size s') \<le> MAX_PARAMETER_NAL_SIZE" "recv_buf s' = recv_buf s" "sink_buf_size s' = sink_buf_size s"
    "has_client s' = has_client s" "last_pts s' = last_pts s"
    using assms ok sent by (auto simp: output_buffer_def Let_def collected_def split: if_splits)
qed

lemma start_code_size: "length start_code = 4"
  by simp

lemma continue_complete:
  assumes len: "length (recv_buf s) = sink_buf_size s" "sink_buf_size s < 2 ^ 32" "MAX_PARAMETER_NAL_SIZE + 4 \<le> sink_buf_size s"
    and n: "unat (recv_buf_size s) \<le> MAX_PARAMETER_NAL_SIZE"
  obtains s' where "continuePlaying_h264or5 s = Ret s'" "buffer_ok s'" "collected s' = collected s @ start_code"
    "sink_buf_size s' = sink_buf_size s" "has_client s' = has_client s" "last_pts s' = last_pts s"
proof -
  have fits: "unat (recv_buf_size s) + length start_code \<le> length (recv_buf s)" using len n by simp
  obtain b where b: "put_bytes (unat (recv_buf_size s)) start_code (recv_buf s) = Ret b" "length b = length (recv_buf s)"
    "take (unat (recv_buf_size s) + length start_code) b = take (unat (recv_buf_size s)) (recv_buf s) @ start_code"
    by (rule put_bytes_fits [OF fits])
  have u: "unat (recv_buf_size s + 4) = unat (recv_buf_size s) + 4"
    using unat_add_fits [of "recv_buf_size s" 4] n by (simp add: MAX_PARAMETER_NAL_SIZE_def)
  have b3: "take (unat (recv_buf_size s) + 4) b = take (unat (recv_buf_size s)) (recv_buf s) @ start_code"
    using b(3) by (simp only: start_code_size)
  show thesis
    using b(1,2) b3 u len n
    by (intro that [of "s\<lparr>recv_buf := b, recv_buf_size := recv_buf_size s + 4\<rparr>"])
      (simp_all add: continuePlaying_h264or5_def buffer_ok_def collected_def)
qed

lemma unit_complete:
  assumes ok: "buffer_ok s" "sink_ready c" "has_client s" and pts: "not_after (last_pts s) pts" "in_sync clk pts"
    and len: "length nal + MAX_PARAMETER_NAL_SIZE + 4 \<le> sink_buf_size s"
  shows "\<exists>s' c'. feed_h264or5 ga clk True (nal, pts, sets) s c = Ret (s', c') \<and> buffer_ok s' \<and> sink_ready c' \<and>
    has_client s' \<and> last_pts s' = pts \<and> sink_buf_size s' = sink_buf_size s \<and>
    call_data (rc_calls c') @ collected s' = call_data (rc_calls c) @ collected s @ nal @ start_code"
proof -
  let ?n = "unat (recv_buf_size s)"
  have space: "take (buf_space s) nal = nal" "length nal - buf_space s = 0" "min (length nal) (buf_space s) = length nal"
    using ok(1) len by (auto simp: buf_space_def buffer_ok_def)
  have fits: "?n + length nal \<le> length (recv_buf s)" using ok(1) len by (simp add: buffer_ok_def)
  obtain b where b: "put_bytes ?n nal (recv_buf s) = Ret b" "length b = length (recv_buf s)"
    "take (?n + length nal) b = take ?n (recv_buf s) @ nal" by (rule put_bytes_fits [OF fits])
  let ?s = "s\<lparr>recv_buf := b, last_pts := pts\<rparr>"
  let ?ft = "frame_type_of (h_number s) (take (length nal) (drop ?n b))"
  obtain s2 c2 where l: "CheckLostByTime ga ?ft pts ?s c = (s2, c2)" by fastforce
  note keep = CheckLost_keeps [OF l] CheckLost_h264or5 [OF l]
  let ?s3 = "s2\<lparr>recv_buf_size := recv_buf_size s2 + of_nat (length nal)\<rparr>"
  obtain s4 c4 where o: "output_buffer clk ?ft pts ?s3 c2 = (s4, c4)" by fastforce
  have u: "unat (recv_buf_size s + of_nat (length nal)) = ?n + length nal"
    using ok(1) fits by (intro unat_add_fits) (simp add: buffer_ok_def)
  have col: "collected ?s3 = collected s @ nal" using keep u b(3) by (simp add: collected_def)
  have "sink_ready c2" "has_client ?s3" using keep ok by simp_all
  note fin = output_buffer_complete [OF this(1) pts(2) this(2) o]
  obtain s5 where s5: "continuePlaying_h264or5 s4 = Ret s5" "buffer_ok s5" "collected s5 = collected s4 @ start_code"
    "sink_buf_size s5 = sink_buf_size s4" "has_client s5 = has_client s4" "last_pts s5 = last_pts s4"
    using ok(1) keep fin b(2) by (rule_tac continue_complete [of s4]) (simp_all add: buffer_ok_def)
  have "DoAfterGettingFrame_h264or5 ga clk (Some sets) (length nal) 0 pts (s\<lparr>recv_buf := b\<rparr>) c = Ret (s4, c4)"
    using pts(1) ok(2) fits b(2) l o
    by (simp add: DoAfterGettingFrame_h264or5_def Let_def not_after_def update_sink_meta_def IsMetaReady_client_def sink_ready_def)
  then have "feed_h264or5 ga clk True (nal, pts, sets) s c = Ret (s5, c4)"
    using b(1) s5(1) by (simp add: feed_h264or5_def space afterGettingFrame_h264or5_def)
  then show ?thesis using s5 fin keep ok col by simp
qed

fun units_ordered :: "timeval \<Rightarrow> 'k sink_frame list \<Rightarrow> bool" where
  "units_ordered t [] = True"
| "units_ordered t ((nal, pts, k) # es) = (not_after t pts \<and> units_ordered pts es)"

definition units_fit :: "(nat \<Rightarrow> timeval) \<Rightarrow> nat \<Rightarrow> 'k sink_frame list \<Rightarrow> bool" where
  "units_fit clk n es =
     list_all (\<lambda>(nal, pts, k). in_sync clk pts \<and> length nal + MAX_PARAMETER_NAL_SIZE + 4 \<le> n) es"

lemma units_complete:
  assumes "buffer_ok s" "sink_ready c" "has_client s" "units_ordered (last_pts s) es" "units_fit clk (sink_buf_size s) es"
  shows "\<exists>s' c'. sink_run (feed_h264or5 ga clk True) es s c = Ret (s', c') \<and> buffer_ok s' \<and>
    call_data (rc_calls c') @ collected s' =
    call_data (rc_calls c) @ collected s @ concat (map (\<lambda>e. fst e @ start_code) es)"
  using assms
proof (induction es arbitrary: s c)
  case (Cons e es)
  obtain nal pts sets where e: "e = (nal, pts, sets)" by (cases e)
  from Cons.prems e obtain s1 c1 where s1: "feed_h264or5 ga clk True e s c = Ret (s1, c1)" "buffer_ok s1" "sink_ready c1"
    "has_client s1" "last_pts s1 = pts" "sink_buf_size s1 = sink_buf_size s"
    "call_data (rc_calls c1) @ collected s1 = call_data (rc_calls c) @ collected s @ nal @ start_code"
    using unit_complete [of s c pts clk nal ga sets] by (auto simp: units_fit_def)
  have "\<exists>s' c'. sink_run (feed_h264or5 ga clk True) es s1 c1 = Ret (s', c') \<and> buffer_ok s' \<and>
      call_data (rc_calls c') @ collected s' =
      call_data (rc_calls c1) @ collected s1 @ concat (map (\<lambda>e. fst e @ start_code) es)"
    using Cons.prems e s1 by (intro Cons.IH) (simp_all add: units_fit_def)
  then obtain s' c' where s': "sink_run (feed_h264or5 ga clk True) es s1 c1 = Ret (s', c')" "buffer_ok s'"
    "call_data (rc_calls c') @ collected s' =
      (call_data (rc_calls c1) @ collected s1) @ concat (map (\<lambda>e. fst e @ start_code) es)" by auto
  then show ?case using s1(1,7) e by simp
qed simp

end
