(* ===== verification/Output_Sink_Runs.thy ===== *)
theory Output_Sink_Runs
  imports Output_Sink_Properties
begin

text \<open>
  Runs of the output sinks from their creation on: completeness and order of what they hand to the client, the
  announcement of the metadata, and the overflow of the buffer by frames that are dropped.
\<close>

section \<open>An example client\<close>

definition wit_client :: LiveRtspClient where
  "wit_client = \<lparr>rc_listener = True, rc_are_already_shutting_down = False,
     rc_metadata = new_StreamMetadata\<lparr>sm_source_proto := ''RTSP'', sm_ssrc := 7\<rparr>, rc_is_metadata_ok = False,
     rc_last_frame_time = tv_zero, rc_calls = [], rc_clock_reads = 0\<rparr>"

definition wit_gaps :: "int gap_arith" where
  "wit_gaps = \<lparr>ga_zero = 0, ga_gap = (\<lambda>a b. tv_sec a - tv_sec b),
     ga_lost = (\<lambda>last cur. if last > 0 \<and> cur \<ge> 2 * last then Some ((cur - last) div last) else None),
     ga_stale = (\<lambda>a b. tv_sec b < tv_sec a)\<rparr>"

definition wit_memory :: "nat \<Rightarrow> u8 list" where
  "wit_memory n = replicate n 0"

definition wit_time :: "int \<Rightarrow> timeval" where
  "wit_time n = \<lparr>tv_sec = n, tv_usec = 0\<rparr>"

definition wit_sink :: "nat \<Rightarrow> int MediaOutputSink" where
  "wit_sink n = new_MediaOutputSink wit_gaps wit_memory True 0 n"

definition wit_h264_sink :: "nat \<Rightarrow> int H264or5OutputSink" where
  "wit_h264_sink n = MediaOutputSink.extend (wit_sink n) \<lparr>h_number = 264, recv_buf_size = 4\<rparr>"

lemma wit_memory_length [simp]: "length (wit_memory n) = n"
  by (simp add: wit_memory_def)

section \<open>Completeness\<close>

lemma h264or5_started:
  assumes new: "createNew_h264or5 ga mem True True index n h = Some s0"
    and n: "length (mem n) = n" "MAX_PARAMETER_NAL_SIZE + 4 \<le> n" "n < 2 ^ 32"
  obtains s1 where "continuePlaying_h264or5 s0 = Ret s1" "buffer_ok s1" "collected s1 = start_code"
    "sink_buf_size s1 = n" "has_client s1" "last_pts s1 = tv_zero"
proof -
  have s0: "recv_buf s0 = mem n" "sink_buf_size s0 = n" "recv_buf_size s0 = 0" "has_client s0" "last_pts s0 = tv_zero"
    using new by (auto simp: createNew_h264or5_def MediaOutputSink.extend_def new_MediaOutputSink_def split: if_splits)
  obtain s1 where "continuePlaying_h264or5 s0 = Ret s1" "buffer_ok s1" "collected s1 = collected s0 @ start_code"
    "sink_buf_size s1 = sink_buf_size s0" "has_client s1 = has_client s0" "last_pts s1 = last_pts s0"
    by (rule continue_complete [of s0]) (use s0 n in \<open>simp_all\<close>)
  with s0 show thesis by (intro that [of s1]) (simp_all add: collected_def)
qed

text \<open>C24: the sink for H.264 and H.265 loses no unit. A new sink with room for a unit behind the largest
  group of parameter sets receives units that are in order and in time, for a client that has its metadata: it never
  writes outside its buffer, what the listener has got and what is still in the buffer are all units, in order, each
  behind a start code (one more is ready for the next unit), and the buffer never keeps more than 1028 bytes.\<close>

theorem h264_units_complete:
  assumes "createNew_h264or5 ga mem True True index n h = Some s0"
    and "length (mem n) = n" "MAX_PARAMETER_NAL_SIZE + 4 \<le> n" "n < 2 ^ 32"
    and "sink_ready c" "units_ordered tv_zero es" "units_fit clk n es"
  shows "\<exists>s1 s' c'. continuePlaying_h264or5 s0 = Ret s1 \<and> sink_run (feed_h264or5 ga clk True) es s1 c = Ret (s', c') \<and>
    call_data (rc_calls c') @ collected s' =
    call_data (rc_calls c) @ start_code @ concat (map (\<lambda>e. fst e @ start_code) es) \<and>
    unat (recv_buf_size s') \<le> MAX_PARAMETER_NAL_SIZE + 4"
proof -
  obtain s1 where s1: "continuePlaying_h264or5 s0 = Ret s1" "buffer_ok s1" "collected s1 = start_code"
    "sink_buf_size s1 = n" "has_client s1" "last_pts s1 = tv_zero"
    by (rule h264or5_started [OF assms(1-4)])
  show ?thesis
    using units_complete [OF s1(2) assms(5) s1(5), of es clk ga] s1 assms(6,7) by (auto simp: buffer_ok_def)
qed

theorem h264_units_complete_witness:
  "\<exists>s0 s1 s' c'. createNew_h264or5 wit_gaps wit_memory True True 0 4096 264 = Some s0 \<and> continuePlaying_h264or5 s0 = Ret s1 \<and>
    sink_run (feed_h264or5 wit_gaps (\<lambda>_. wit_time 5) True)
      [([0x67, 1], wit_time 4, (None, None, None)), ([0x65, 2], wit_time 5, (None, None, None))] s1
      (wit_client\<lparr>rc_is_metadata_ok := True\<rparr>) = Ret (s', c') \<and>
    call_data (rc_calls c') @ collected s' = [0, 0, 0, 1, 0x67, 1, 0, 0, 0, 1, 0x65, 2, 0, 0, 0, 1]"
proof -
  have "createNew_h264or5 wit_gaps wit_memory True True 0 4096 264 \<noteq> None"
    by (simp add: createNew_h264or5_def MAX_PARAMETER_NAL_SIZE_def)
  then obtain s0 where s0: "createNew_h264or5 wit_gaps wit_memory True True 0 4096 264 = Some s0" by auto
  let ?c = "wit_client\<lparr>rc_is_metadata_ok := True\<rparr>" and ?clk = "\<lambda>_. wit_time 5"
  let ?es = "[([0x67, 1], wit_time 4, (None, None, None)), ([0x65, 2], wit_time 5, (None, None, None))] :: parameter_sets sink_frame list"
  have c: "sink_ready ?c" "call_data (rc_calls ?c) = []" by (simp_all add: sink_ready_def wit_client_def)
  have es: "units_ordered tv_zero ?es" "units_fit ?clk 4096 ?es"
    by (simp_all add: units_fit_def in_sync_def not_after_def pts_before_def wit_time_def tv_zero_def MAX_PARAMETER_NAL_SIZE_def)
  have n: "MAX_PARAMETER_NAL_SIZE + 4 \<le> 4096" by (simp add: MAX_PARAMETER_NAL_SIZE_def)
  show ?thesis
    using h264_units_complete [OF s0 wit_memory_length n _ c(1) es] s0 c(2) by auto
qed

section \<open>Dropped frames\<close>

definition buffer_safe :: "'d H264or5OutputSink \<Rightarrow> bool" where
  "buffer_safe s \<longleftrightarrow> length (recv_buf s) = sink_buf_size s \<and> sink_buf_size s < 2 ^ 32 \<and>
     unat (recv_buf_size s) \<le> sink_buf_size s"

lemma stale_unit:
  assumes "buffer_safe s" "pts_before pts (last_pts s)"
  shows "if unat (recv_buf_size s) + 4 \<le> sink_buf_size s
    then \<exists>s'. feed_h264or5 ga clk framer (frame, pts, k) s c = Ret (s', c) \<and> buffer_safe s' \<and>
      unat (recv_buf_size s') = unat (recv_buf_size s) + 4 \<and> last_pts s' = last_pts s \<and> sink_buf_size s' = sink_buf_size s
    else feed_h264or5 ga clk framer (frame, pts, k) s c = Undef"
proof -
  let ?n = "unat (recv_buf_size s)"
  have fits: "?n + length (take (buf_space s) frame) \<le> length (recv_buf s)"
    using assms(1) by (auto simp: buffer_safe_def buf_space_def min_def)
  obtain b where b: "put_bytes ?n (take (buf_space s) frame) (recv_buf s) = Ret b" "length b = length (recv_buf s)"
    by (rule put_bytes_fits [OF fits])
  have feed: "feed_h264or5 ga clk framer (frame, pts, k) s c =
      bind_cpp (continuePlaying_h264or5 (s\<lparr>recv_buf := b\<rparr>)) (\<lambda>s2. Ret (s2, c))"
    using assms(2) b(1) by (simp add: feed_h264or5_def afterGettingFrame_h264or5_def DoAfterGettingFrame_h264or5_def)
  show ?thesis
  proof (cases "?n + 4 \<le> sink_buf_size s")
    case True
    then have "unat (recv_buf_size s + 4) = ?n + 4"
      using unat_add_fits [of "recv_buf_size s" 4] assms(1) by (simp add: buffer_safe_def)
    then show ?thesis
      using True assms(1) b(2) feed by (simp add: continuePlaying_h264or5_def put_bytes_def buffer_safe_def)
  next
    case False
    then show ?thesis
      using assms(1) b(2) feed by (simp add: continuePlaying_h264or5_def put_bytes_def buffer_safe_def)
  qed
qed

text \<open>C39: a frame whose time lies before the last one is dropped, but the start code in front of it stays in
  the buffer. After a number of such frames the buffer holds that many start codes more, the listener has got nothing, and
  the frame for which they do not fit any more makes the sink write behind the end of its buffer.\<close>

theorem stale_units_overflow:
  assumes "buffer_safe s" "list_all (\<lambda>e. pts_before (fst (snd e)) (last_pts s)) es"
  shows "if unat (recv_buf_size s) + 4 * length es \<le> sink_buf_size s
    then \<exists>s'. sink_run (feed_h264or5 ga clk framer) es s c = Ret (s', c) \<and>
      unat (recv_buf_size s') = unat (recv_buf_size s) + 4 * length es
    else sink_run (feed_h264or5 ga clk framer) es s c = Undef"
  using assms
proof (induction es arbitrary: s)
  case Nil
  then show ?case by (simp add: buffer_safe_def)
next
  case (Cons e es)
  obtain frame pts k where e: "e = (frame, pts, k)" by (cases e)
  have old: "pts_before pts (last_pts s)" using Cons.prems(2) e by simp
  show ?case
  proof (cases "unat (recv_buf_size s) + 4 \<le> sink_buf_size s")
    case True
    then obtain s1 where s1: "feed_h264or5 ga clk framer e s c = Ret (s1, c)" "buffer_safe s1"
      "unat (recv_buf_size s1) = unat (recv_buf_size s) + 4" "last_pts s1 = last_pts s" "sink_buf_size s1 = sink_buf_size s"
      using stale_unit [OF Cons.prems(1) old, of ga clk framer frame k c] e by auto
    then show ?thesis using Cons.IH [OF s1(2)] Cons.prems(2) by (auto split: if_splits)
  next
    case False
    then show ?thesis using stale_unit [OF Cons.prems(1) old, of ga clk framer frame k c] e by simp
  qed
qed

theorem stale_units_overflow_witness:
  "(\<exists>s'. sink_run (feed_h264or5 wit_gaps (\<lambda>_. wit_time 9) True) (replicate 256 ([0x41, 7], wit_time 8, (None, None, None)))
      ((wit_h264_sink 1028)\<lparr>last_pts := wit_time 9\<rparr>) wit_client = Ret (s', wit_client) \<and> unat (recv_buf_size s') = 1028) \<and>
   sink_run (feed_h264or5 wit_gaps (\<lambda>_. wit_time 9) True) (replicate 257 ([0x41, 7], wit_time 8, (None, None, None)))
     ((wit_h264_sink 1028)\<lparr>last_pts := wit_time 9\<rparr>) wit_client = Undef"
proof -
  let ?s = "(wit_h264_sink 1028)\<lparr>last_pts := wit_time 9\<rparr>" and ?e = "([0x41, 7], wit_time 8, (None, None, None)) :: parameter_sets sink_frame"
  have s: "buffer_safe ?s" "unat (recv_buf_size ?s) = 4" "sink_buf_size ?s = 1028"
    by (simp_all add: buffer_safe_def wit_h264_sink_def wit_sink_def MediaOutputSink.extend_def new_MediaOutputSink_def)
  have es: "list_all (\<lambda>e. pts_before (fst (snd e)) (last_pts ?s)) (replicate n ?e)" for n
    by (simp add: list_all_length pts_before_def wit_time_def)
  show ?thesis
    using stale_units_overflow [OF s(1) es [of 256], where ga = wit_gaps and clk = "\<lambda>_. wit_time 9" and framer = True and c = wit_client]
      stale_units_overflow [OF s(1) es [of 257], where ga = wit_gaps and clk = "\<lambda>_. wit_time 9" and framer = True and c = wit_client]
    unfolding s(2,3) length_replicate by simp
qed

section \<open>Order of the times\<close>

text \<open>C25: the times of the frames that the listener gets from a sink never run backwards, for a sink of each of the
  three classes, whatever frames arrive, with and without the framer of the codec, while the metadata is complete or
  not and frames wait in the queue.\<close>

theorem sink_times_ordered:
  assumes "pub_times c = []" "frame_queue s4 = []"
    and "sink_run (feed_base clk) fs s c = Ret (s', c1)"
    and "sink_run (feed_mpeg4 ga clk framer) fs4 s4 c = Ret (s4', c2)"
    and "sink_run (feed_h264or5 ga clk framer) fs5 s5 c = Ret (s5', c3)"
  shows "sorted_wrt not_after (pub_times c1) \<and> sorted_wrt not_after (pub_times c2) \<and> sorted_wrt not_after (pub_times c3)"
  using base_sink.run_times [OF assms(1) _ assms(3)] mpeg4_sink.run_times [OF assms(1) _ assms(4)]
    h264or5_sink.run_times [OF assms(1) _ assms(5)] assms(2) by (simp add: queue_times_def)

definition run_count :: "('s \<times> LiveRtspClient) cpp \<Rightarrow> nat option" where
  "run_count r = (case r of Ret (s, c) \<Rightarrow> Some (length (pub_times c)) | Undef \<Rightarrow> None)"

lemma run_count_Some: "run_count r = Some n \<Longrightarrow> \<exists>s c. r = Ret (s, c) \<and> length (pub_times c) = n"
  by (auto simp: run_count_def split: cpp.splits)

theorem sink_times_ordered_witness:
  "\<exists>s' c1 s4' c2 s5' c3.
    sink_run (feed_base (\<lambda>_. wit_time 5)) [([1, 2], wit_time 4, ()), ([3], wit_time 3, ()), ([4], wit_time 5, ())] (wit_sink 100)
      (wit_client\<lparr>rc_is_metadata_ok := True\<rparr>) = Ret (s', c1) \<and>
    sink_run (feed_mpeg4 wit_gaps (\<lambda>_. wit_time 5) True) [([1, 2], wit_time 4, None), ([3], wit_time 3, None), ([4], wit_time 5, None)]
      (wit_sink 100) (wit_client\<lparr>rc_is_metadata_ok := True\<rparr>) = Ret (s4', c2) \<and>
    sink_run (feed_h264or5 wit_gaps (\<lambda>_. wit_time 5) True)
      [([0x65, 2], wit_time 4, (None, None, None)), ([0x41], wit_time 3, (None, None, None)), ([0x41], wit_time 5, (None, None, None))]
      (wit_h264_sink 100) (wit_client\<lparr>rc_is_metadata_ok := True\<rparr>) = Ret (s5', c3) \<and>
    map (length \<circ> pub_times) [c1, c2, c3] = [2, 2, 2] \<and>
    sorted_wrt not_after (pub_times c1) \<and> sorted_wrt not_after (pub_times c2) \<and> sorted_wrt not_after (pub_times c3)"
proof -
  let ?c = "wit_client\<lparr>rc_is_metadata_ok := True\<rparr>" and ?clk = "\<lambda>_. wit_time 5"
  let ?fs = "[([1, 2], wit_time 4, ()), ([3], wit_time 3, ()), ([4], wit_time 5, ())] :: unit sink_frame list"
  let ?f4 = "[([1, 2], wit_time 4, None), ([3], wit_time 3, None), ([4], wit_time 5, None)] :: u8 list option sink_frame list"
  let ?f5 = "[([0x65, 2], wit_time 4, (None, None, None)), ([0x41], wit_time 3, (None, None, None)),
    ([0x41], wit_time 5, (None, None, None))] :: parameter_sets sink_frame list"
  have "run_count (sink_run (feed_base ?clk) ?fs (wit_sink 100) ?c) = Some 2" by code_simp
  then obtain s' c1 where r1: "sink_run (feed_base ?clk) ?fs (wit_sink 100) ?c = Ret (s', c1)" "length (pub_times c1) = 2"
    by (auto dest: run_count_Some)
  have "run_count (sink_run (feed_mpeg4 wit_gaps ?clk True) ?f4 (wit_sink 100) ?c) = Some 2" by code_simp
  then obtain s4' c2 where r2: "sink_run (feed_mpeg4 wit_gaps ?clk True) ?f4 (wit_sink 100) ?c = Ret (s4', c2)" "length (pub_times c2) = 2"
    by (auto dest: run_count_Some)
  have "run_count (sink_run (feed_h264or5 wit_gaps ?clk True) ?f5 (wit_h264_sink 100) ?c) = Some 2" by code_simp
  then obtain s5' c3 where r3: "sink_run (feed_h264or5 wit_gaps ?clk True) ?f5 (wit_h264_sink 100) ?c = Ret (s5', c3)"
    "length (pub_times c3) = 2" by (auto dest: run_count_Some)
  have "pub_times ?c = []" "frame_queue (wit_sink 100) = []"
    by (simp_all add: pub_times_def wit_client_def wit_sink_def new_MediaOutputSink_def)
  from sink_times_ordered [OF this r1(1) r2(1) r3(1)] show ?thesis using r1 r2 r3 by auto
qed

end
