(* ===== verification/Sink_Announcement.thy ===== *)
theory Sink_Announcement
  imports Output_Sink_Runs
begin

text \<open>
  What the listener of the RTSP client hears of the metadata: the client announces it once, complete and before the
  first frame, and every frame belongs to a sub stream of it. The invariant is kept by every sink whose index is that of
  a sub stream (locale \<open>announcing_sink\<close>, for all three classes).
\<close>

section \<open>The invariant of the client\<close>

definition in_range :: "nat \<Rightarrow> int \<Rightarrow> bool" where
  "in_range ns i \<longleftrightarrow> 0 \<le> i \<and> i < int ns"

text \<open>A call before the announcement, and one after it.\<close>

fun early_call :: "nat \<Rightarrow> rtsp_call \<Rightarrow> bool" where
  "early_call ns (OnError _) = True"
| "early_call ns (OnLostFrameUpdate i _) = in_range ns i"
| "early_call ns _ = False"

fun late_call :: "StreamMetadata \<Rightarrow> rtsp_call \<Rightarrow> bool" where
  "late_call m (OnMediaFrame fi _) = (fi_ssrc fi = sm_ssrc m \<and> in_range (length (sm_sub_streams m)) (fi_sub_stream_index fi))"
| "late_call m (OnError _) = True"
| "late_call m (OnLostFrameUpdate i _) = in_range (length (sm_sub_streams m)) i"
| "late_call m (OnMetaReady _) = False"

definition complete_metadata :: "StreamMetadata \<Rightarrow> bool" where
  "complete_metadata m \<longleftrightarrow> sm_ssrc m \<noteq> 0 \<and> sm_source_proto m \<noteq> [] \<and> sm_sub_streams m \<noteq> [] \<and>
     list_all (\<lambda>x. ss_codec_name x \<noteq> [] \<and>
       (ss_codec_name x \<in> {''H264'', ''H265'', ''MP4V-ES''} \<longrightarrow> ss_extra_data x \<noteq> [])) (sm_sub_streams m)"

definition announced :: "StreamMetadata \<Rightarrow> rtsp_call list \<Rightarrow> bool" where
  "announced m cs \<longleftrightarrow> complete_metadata m \<and> (\<exists>pre post. cs = pre @ OnMetaReady m # post \<and>
     list_all (early_call (length (sm_sub_streams m))) pre \<and> list_all (late_call m) post)"

definition meta_inv :: "nat \<Rightarrow> LiveRtspClient \<Rightarrow> bool" where
  "meta_inv ns c \<longleftrightarrow> rc_listener c \<and> length (sm_sub_streams (rc_metadata c)) = ns \<and>
     (if rc_is_metadata_ok c then announced (rc_metadata c) (rc_calls c) else list_all (early_call ns) (rc_calls c))"

lemma sub_streams_ready_iff:
  "sub_streams_ready ms \<longleftrightarrow> list_all (\<lambda>x. ss_codec_name x \<noteq> [] \<and>
     (ss_codec_name x \<in> {''H264'', ''H265'', ''MP4V-ES''} \<longrightarrow> ss_extra_data x \<noteq> [])) ms"
  by (induction ms) auto

lemma announced_more: "announced m cs \<Longrightarrow> late_call m x \<Longrightarrow> announced m (cs @ [x])"
proof -
  assume "announced m cs" and x: "late_call m x"
  then obtain pre post where "complete_metadata m" "cs = pre @ OnMetaReady m # post"
    "list_all (early_call (length (sm_sub_streams m))) pre" "list_all (late_call m) (post @ [x])"
    unfolding announced_def by auto
  then show ?thesis
    unfolding announced_def by (intro conjI exI [of _ pre] exI [of _ "post @ [x]"]) simp_all
qed

lemma announced_first:
  "list_all (early_call (length (sm_sub_streams m))) cs \<Longrightarrow> complete_metadata m \<Longrightarrow> announced m (cs @ [OnMetaReady m])"
  unfolding announced_def by force

lemma CheckMetadata_inv: "meta_inv ns c \<Longrightarrow> meta_inv ns (snd (CheckMetadata c))"
  by (auto simp: meta_inv_def CheckMetadata_def notify_listener_def Let_def sub_streams_ready_iff complete_metadata_def
      intro!: announced_first)

lemma notify_inv:
  assumes "meta_inv ns c" "early_call ns x \<or> rc_is_metadata_ok c" "rc_is_metadata_ok c \<Longrightarrow> late_call (rc_metadata c) x"
  shows "meta_inv ns (notify_listener x c)"
  using assms announced_more by (auto simp: meta_inv_def notify_listener_def)

lemma HandleError_inv: "meta_inv ns c \<Longrightarrow> meta_inv ns (HandleError e c)"
  unfolding HandleError_def by (rule notify_inv) simp_all

lemma AfterGettingFrame_inv: "meta_inv ns c \<Longrightarrow> in_range ns i \<Longrightarrow> meta_inv ns (AfterGettingFrame clk i ft ts d c)"
proof -
  assume m: "meta_inv ns c" and i: "in_range ns i"
  let ?c = "c\<lparr>rc_last_frame_time := clk (rc_clock_reads c), rc_clock_reads := Suc (rc_clock_reads c)\<rparr>"
  have c: "meta_inv ns ?c" and n: "length (sm_sub_streams (rc_metadata c)) = ns" using m by (simp_all add: meta_inv_def)
  show ?thesis
    using m c i n by (auto simp: AfterGettingFrame_def HandleError_inv IsMetaReady_client_def Let_def intro!: notify_inv)
qed

lemma UpdateLostFrame_inv: "meta_inv ns c \<Longrightarrow> in_range ns i \<Longrightarrow> meta_inv ns (UpdateLostFrame i n c)"
  unfolding UpdateLostFrame_def by (rule notify_inv) (simp_all add: meta_inv_def)

lemma CheckLost_inv: "meta_inv ns c \<Longrightarrow> in_range ns (sub_stream_index s) \<Longrightarrow> meta_inv ns (snd (CheckLostByTime ga ft pts s c))"
  by (auto simp: CheckLostByTime_def Let_def UpdateLostFrame_inv split: option.splits prod.splits)

lemma update_sink_meta_inv: "meta_inv ns c \<Longrightarrow> update_sink_meta cl i extra c = Ret c' \<Longrightarrow> meta_inv ns c'"
proof (cases "rc_is_metadata_ok c")
  case True
  assume "meta_inv ns c" "update_sink_meta cl i extra c = Ret c'"
  with True show ?thesis by (auto simp: update_sink_meta_def IsMetaReady_client_def)
next
  case False
  assume m: "meta_inv ns c" and u: "update_sink_meta cl i extra c = Ret c'"
  have "meta_inv ns (c\<lparr>rc_metadata := (rc_metadata c)\<lparr>sm_sub_streams := (sm_sub_streams (rc_metadata c))[j := x]\<rparr>\<rparr>)"
    for j x using m False by (simp add: meta_inv_def)
  with m u show ?thesis
    by (auto simp: update_sink_meta_def set_extra_data_def Let_def CheckMetadata_inv split: if_splits option.splits)
qed

lemma flush_frames_inv: "meta_inv ns c \<Longrightarrow> in_range ns i \<Longrightarrow> meta_inv ns (flush_frames clk cl i fs c)"
  by (induction fs arbitrary: c) (simp_all add: AfterGettingFrame_inv)

lemmas client_inv = AfterGettingFrame_inv flush_frames_inv CheckLost_inv

section \<open>The sinks\<close>

text \<open>What a sink promises of the client and of its own index.\<close>

locale announcing_sink =
  fixes feed :: "'e \<Rightarrow> 's \<Rightarrow> LiveRtspClient \<Rightarrow> ('s \<times> LiveRtspClient) cpp"
    and index :: "'s \<Rightarrow> int"
  assumes feed_inv: "meta_inv ns c \<Longrightarrow> in_range ns (index s) \<Longrightarrow> feed e s c = Ret (s', c') \<Longrightarrow> meta_inv ns c'"
    and feed_index: "feed e s c = Ret (s', c') \<Longrightarrow> index s' = index s"
begin

lemma run_inv:
  "meta_inv ns c \<Longrightarrow> in_range ns (index s) \<Longrightarrow> sink_run feed es s c = Ret (s', c') \<Longrightarrow> meta_inv ns c' \<and> index s' = index s"
proof (induction es arbitrary: s c)
  case (Cons e es)
  from Cons.prems(3) obtain s1 c1 where "feed e s c = Ret (s1, c1)" "sink_run feed es s1 c1 = Ret (s', c')"
    by (cases "feed e s c") auto
  with Cons show ?case using feed_inv feed_index by metis
qed simp

end

lemma CheckLost_index: "sub_stream_index (fst (CheckLostByTime ga ft pts s c)) = sub_stream_index s"
  by (cases "CheckLostByTime ga ft pts s c") (simp add: CheckLost_keeps)

lemma output_buffer_index: "sub_stream_index (fst (output_buffer clk ft pts s c)) = sub_stream_index s"
  by (simp add: output_buffer_def Let_def)

lemma drop_stale_index [simp]: "sub_stream_index (drop_stale ga pts s) = sub_stream_index s"
  by (simp add: drop_stale_def ClearQueue_def)

lemma base_index: "DoAfterGettingFrame_base clk n tr pts s c = Ret (s', c') \<Longrightarrow> sub_stream_index s' = sub_stream_index s"
  by (auto simp: DoAfterGettingFrame_base_def Let_def split: if_splits)

lemma base_inv:
  "DoAfterGettingFrame_base clk n tr pts s c = Ret (s', c') \<Longrightarrow> meta_inv ns c \<Longrightarrow> in_range ns (sub_stream_index s) \<Longrightarrow>
    meta_inv ns c'"
  by (auto simp: DoAfterGettingFrame_base_def Let_def client_inv split: if_splits)

interpretation base_client: announcing_sink "feed_base clk" sub_stream_index for clk
  by unfold_locales (auto simp: feed_base_def afterGettingFrame_base_def bind_cpp_Ret_conv dest: base_inv base_index
      split: prod.splits)

lemma output_buffer_inv:
  "meta_inv ns c \<Longrightarrow> in_range ns (sub_stream_index s) \<Longrightarrow> meta_inv ns (snd (output_buffer clk ft pts s c))"
  by (simp add: output_buffer_def Let_def client_inv)

lemma h264or5_inv:
  assumes "DoAfterGettingFrame_h264or5 ga clk framer n tr pts s c = Ret (s', c')" "meta_inv ns c"
    "in_range ns (sub_stream_index s)"
  shows "meta_inv ns c'"
proof (cases "pts_before pts (last_pts s) \<or> 0 < tr \<or> framer = None")
  case True
  with assms show ?thesis
    by (auto simp: DoAfterGettingFrame_h264or5_def Let_def bind_cpp_Ret_conv split: if_splits dest: base_inv)
next
  case False
  then obtain sets where "framer = Some sets" by auto
  with False assms(1) obtain c1 ft where
    "update_sink_meta (has_client s) (sub_stream_index s) (sets_extra_data (h_number s) sets) c = Ret c1"
    and r: "(case CheckLostByTime ga ft pts (s\<lparr>last_pts := pts\<rparr>) c1 of (s2, c2) \<Rightarrow>
      Ret (output_buffer clk ft pts (s2\<lparr>recv_buf_size := recv_buf_size s2 + of_nat n\<rparr>) c2)) = Ret (s', c')"
    by (auto simp: DoAfterGettingFrame_h264or5_def Let_def bind_cpp_Ret_conv split: if_split_asm)
  then have c1: "meta_inv ns c1" using assms(2) update_sink_meta_inv by blast
  obtain s2 c2 where l: "CheckLostByTime ga ft pts (s\<lparr>last_pts := pts\<rparr>) c1 = (s2, c2)" by fastforce
  have c2: "meta_inv ns c2" "sub_stream_index s2 = sub_stream_index s"
    using CheckLost_inv [OF c1, of "s\<lparr>last_pts := pts\<rparr>" ga ft pts] CheckLost_index [of ga ft pts "s\<lparr>last_pts := pts\<rparr>" c1]
      assms(3) l by simp_all
  from output_buffer_inv [OF c2(1), of "s2\<lparr>recv_buf_size := recv_buf_size s2 + of_nat n\<rparr>" clk ft pts] show ?thesis
    using r l assms(3) c2(2) by simp
qed

lemma h264or5_index:
  "DoAfterGettingFrame_h264or5 ga clk framer n tr pts s c = Ret (s', c') \<Longrightarrow> sub_stream_index s' = sub_stream_index s"
  by (auto simp: CheckLost_index output_buffer_index DoAfterGettingFrame_h264or5_def Let_def bind_cpp_Ret_conv
      case_prod_beta prod_eq_iff split: if_splits option.splits dest!: base_index)

interpretation h264or5_client: announcing_sink "feed_h264or5 ga clk framer" sub_stream_index for ga clk framer
  by unfold_locales (auto simp: feed_h264or5_def afterGettingFrame_h264or5_def continuePlaying_h264or5_def bind_cpp_Ret_conv
      split: prod.splits dest: h264or5_inv h264or5_index)

lemma mpeg4_inv:
  assumes "DoAfterGettingFrame_mpeg4 ga clk framer n tr pts s c = Ret (s', c')" "meta_inv ns c"
    "in_range ns (sub_stream_index s)"
  shows "meta_inv ns c'"
proof (cases "pts_before pts (last_pts s) \<or> 0 < tr \<or> framer = None")
  case True
  with assms show ?thesis
    by (auto simp: DoAfterGettingFrame_mpeg4_def Let_def split: if_splits dest: base_inv)
next
  case False
  then obtain config where "framer = Some config" by auto
  let ?s = "drop_stale ga pts (s\<lparr>last_pts := pts\<rparr>)"
  from \<open>framer = Some config\<close> False assms(1) obtain c1 ft where
    "update_sink_meta (has_client ?s) (sub_stream_index ?s) (config_extra_data config) c = Ret c1"
    and r: "(case CheckLostByTime ga ft pts ?s c1 of (s3, c2) \<Rightarrow> Ret (if has_client s3 then
         (if IsMetaReady_client c2 then
            let (s4, c3) = (if frame_queue s3 \<noteq> [] then FlushQueue clk s3 c2 else (s3, c2))
            in (s4, AfterGettingFrame clk (sub_stream_index s4) ft pts (take n (recv_buf ?s)) c3)
          else if ft = MEDIA_FRAME_TYPE_PARAM_FRAME then (PushOneFrame ft pts (take n (recv_buf ?s)) s3, c2) else (s3, c2))
         else (s3, c2))) = Ret (s', c')"
    by (auto simp: DoAfterGettingFrame_mpeg4_def Let_def bind_cpp_Ret_conv split: if_split_asm)
  then have c1: "meta_inv ns c1" using assms(2) update_sink_meta_inv by blast
  obtain s3 c2 where l: "CheckLostByTime ga ft pts ?s c1 = (s3, c2)" by fastforce
  have "meta_inv ns c2" "in_range ns (sub_stream_index s3)"
    using CheckLost_inv [OF c1, of ?s ga ft pts] CheckLost_index [of ga ft pts ?s c1] assms(3) l by simp_all
  then show ?thesis using r l by (auto simp: FlushQueue_def client_inv split: if_split_asm)
qed

lemma mpeg4_index:
  "DoAfterGettingFrame_mpeg4 ga clk framer n tr pts s c = Ret (s', c') \<Longrightarrow> sub_stream_index s' = sub_stream_index s"
  by (auto simp: CheckLost_index DoAfterGettingFrame_mpeg4_def Let_def bind_cpp_Ret_conv case_prod_beta prod_eq_iff
      FlushQueue_def PushOneFrame_def split: if_splits option.splits dest!: base_index)

interpretation mpeg4_client: announcing_sink "feed_mpeg4 ga clk framer" sub_stream_index for ga clk framer
  by unfold_locales (auto simp: feed_mpeg4_def afterGettingFrame_mpeg4_def bind_cpp_Ret_conv split: prod.splits
      dest: mpeg4_inv mpeg4_index)

end
