(* ===== verification/Rtsp_Setup.thy ===== *)
theory Rtsp_Setup
  imports Sink_Announcement
begin

text \<open>
  The set-up of a session by the RTSP client (\<open>stsw_rtsp_client.cc\<close>: \<open>SetupSinks\<close>, \<open>SetupMetaFromSession\<close> and the end of
  \<open>SetupStreams\<close>) and the session that runs after it: the sinks of all sub streams with their client.

  A subsession of live555 is the record of what its accessors return; the records of parameter sets and the
  configuration are those that the parsers of live555 return for its attributes. The framers that \<open>SetupSinks\<close> adds
  are the ones that the sinks for their codecs look for.
\<close>

section \<open>Subsessions\<close>

record MediaSubsession =
  ms_read_source :: bool
  ms_medium_name :: string
  ms_codec_name :: string
  ms_video_height :: "16 word"
  ms_video_width :: "16 word"
  ms_video_fps :: u32
  ms_num_channels :: u32
  ms_rtp_timestamp_frequency :: u32
  ms_bandwidth :: u32
  ms_sprop_sets :: "u8 list list"
  ms_sprop_vps :: "u8 list list"
  ms_sprop_sps :: "u8 list list"
  ms_sprop_pps :: "u8 list list"
  ms_config :: "u8 list option"

definition sprop_extra :: "u8 list list \<Rightarrow> string" where
  "sprop_extra rs = concat (map (\<lambda>r. text_of (start_code @ r)) rs)"

definition config_extra :: "u8 list option \<Rightarrow> string" where
  "config_extra config = (case config_extra_data config of None \<Rightarrow> [] | Some d \<Rightarrow> d)"

definition video_extra :: "bool \<Rightarrow> MediaSubsession \<Rightarrow> string" where
  "video_extra ignore_sdp_sps x =
     (if ms_codec_name x = ''H264'' then
        (if \<not> ignore_sdp_sps then sprop_extra (ms_sprop_sets x) else [])
      else if ms_codec_name x = ''H265'' then
        (if \<not> ignore_sdp_sps
         then sprop_extra (ms_sprop_vps x) @ sprop_extra (ms_sprop_sps x) @ sprop_extra (ms_sprop_pps x) else [])
      else if ms_codec_name x = ''MP4V-ES'' then config_extra (ms_config x)
      else [])"

definition sub_metadata_of :: "bool \<Rightarrow> int \<Rightarrow> MediaSubsession \<Rightarrow> SubStreamMetadata" where
  "sub_metadata_of ignore_sdp_sps index x =
     (let m = new_SubStreamMetadata\<lparr>ss_sub_stream_index := index, ss_codec_name := ms_codec_name x,
                ss_direction := SUB_STREAM_DIRECTION_OUTBOUND\<rparr>
      in if ms_medium_name x = ''video'' then
           m\<lparr>ss_media_type := SUB_STREAM_MEIDA_TYPE_VIDEO,
             ss_video := (ss_video m)\<lparr>vp_height := ucast (ms_video_height x), vp_width := ucast (ms_video_width x),
                                      vp_fps := ms_video_fps x\<rparr>,
             ss_extra_data := video_extra ignore_sdp_sps x\<rparr>
         else if ms_medium_name x = ''audio'' then
           (let a = (ss_audio m)\<lparr>ap_channels := (if ms_num_channels x \<noteq> 0 then ms_num_channels x else 1)\<rparr>;
                a' = (if ms_rtp_timestamp_frequency x \<noteq> 0
                      then a\<lparr>ap_samples_per_second := ms_rtp_timestamp_frequency x\<rparr> else a);
                m' = m\<lparr>ss_media_type := SUB_STREAM_MEIDA_TYPE_AUDIO, ss_audio := a'\<rparr>
            in if ms_codec_name x = ''MPEG4-GENERIC''
               then m'\<lparr>ss_codec_name := ''AAC'', ss_extra_data := config_extra (ms_config x)\<rparr> else m')
         else if ms_medium_name x = ''text'' then m\<lparr>ss_media_type := SUB_STREAM_MEIDA_TYPE_TEXT\<rparr>
         else m\<lparr>ss_media_type := SUB_STREAM_MEIDA_TYPE_PRIVATE\<rparr>)"

definition is_mux :: "MediaSubsession \<Rightarrow> bool" where
  "is_mux x = (ms_codec_name x = ''MP2P'' \<or> ms_codec_name x = ''MP2T'')"

text \<open>The loop over the subsessions; \<open>None\<close> when it ends at a multiplexed stream.\<close>

fun setup_sub_streams ::
  "bool \<Rightarrow> int \<Rightarrow> u32 \<Rightarrow> SubStreamMetadata list \<Rightarrow> MediaSubsession list \<Rightarrow> (SubStreamMetadata list \<times> u32) option" where
  "setup_sub_streams ig index bps ms [] = Some (ms, bps)"
| "setup_sub_streams ig index bps ms (x # xs) =
     (if \<not> ms_read_source x then setup_sub_streams ig index bps ms xs
      else if is_mux x then None
      else setup_sub_streams ig (index + 1) (bps + ms_bandwidth x * 1000) (ms @ [sub_metadata_of ig index x]) xs)"

definition SetupMetaFromSession :: "bool \<Rightarrow> MediaSubsession list option \<Rightarrow> LiveRtspClient \<Rightarrow> LiveRtspClient" where
  "SetupMetaFromSession ignore_sdp_sps session c =
     (case session of
        None \<Rightarrow> c
      | Some xs \<Rightarrow>
          (case setup_sub_streams ignore_sdp_sps 0 0 (sm_sub_streams (rc_metadata c)) xs of
             None \<Rightarrow> c\<lparr>rc_metadata := (rc_metadata c)\<lparr>sm_sub_streams := []\<rparr>\<rparr>
           | Some (ms, bps) \<Rightarrow>
               snd (CheckMetadata (c\<lparr>rc_metadata := (rc_metadata c)\<lparr>sm_sub_streams := ms, sm_bps := bps\<rparr>\<rparr>))))"

section \<open>Sinks\<close>

definition VideoSinkBufferSize :: nat where "VideoSinkBufferSize = 1048576"
definition AudioSinkBufferSize :: nat where "AudioSinkBufferSize = 131072"
definition RTSP_CLIENT_ERR_NO_SUBSESSION :: int where "RTSP_CLIENT_ERR_NO_SUBSESSION = -6"
definition RTSP_CLIENT_ERR_SUBSESSION_INIT_ERR :: int where "RTSP_CLIENT_ERR_SUBSESSION_INIT_ERR = -7"

datatype 'd output_sink =
    PlainSink "'d MediaOutputSink"
  | H264or5Sink "'d H264or5OutputSink"
  | Mpeg4Sink "'d MediaOutputSink"

definition special_sink ::
  "'d gap_arith \<Rightarrow> (nat \<Rightarrow> u8 list) \<Rightarrow> int \<Rightarrow> MediaSubsession \<Rightarrow> 'd output_sink option" where
  "special_sink ga mem index x =
     (if ms_medium_name x = ''video'' then
        (if ms_codec_name x = ''H264''
         then map_option H264or5Sink (createNew_h264or5 ga mem True True index VideoSinkBufferSize 264)
         else if ms_codec_name x = ''H265''
         then map_option H264or5Sink (createNew_h264or5 ga mem True True index VideoSinkBufferSize 265)
         else if ms_codec_name x = ''MP4V-ES''
         then map_option Mpeg4Sink (createNew_mpeg4 ga mem True True index VideoSinkBufferSize)
         else map_option PlainSink (createNew_base ga mem True True index VideoSinkBufferSize))
      else if ms_medium_name x = ''audio''
      then map_option PlainSink (createNew_base ga mem True True index AudioSinkBufferSize)
      else None)"

definition sink_for :: "'d gap_arith \<Rightarrow> (nat \<Rightarrow> u8 list) \<Rightarrow> int \<Rightarrow> MediaSubsession \<Rightarrow> 'd output_sink option" where
  "sink_for ga mem index x =
     (case special_sink ga mem index x of
        Some s \<Rightarrow> Some s
      | None \<Rightarrow> map_option PlainSink (createNew_base ga mem True True index AudioSinkBufferSize))"

text \<open>\<open>startPlaying\<close> of live555 ends with a call of \<open>continuePlaying\<close>.\<close>

fun start_sink :: "'d output_sink \<Rightarrow> 'd output_sink cpp" where
  "start_sink (H264or5Sink s) = bind_cpp (continuePlaying_h264or5 s) (\<lambda>s'. Ret (H264or5Sink s'))"
| "start_sink s = Ret s"

fun setup_sinks ::
  "'d gap_arith \<Rightarrow> (nat \<Rightarrow> u8 list) \<Rightarrow> int \<Rightarrow> MediaSubsession list \<Rightarrow> 'd output_sink list cpp" where
  "setup_sinks ga mem index [] = Ret []"
| "setup_sinks ga mem index (x # xs) =
     (if \<not> ms_read_source x then setup_sinks ga mem index xs
      else case sink_for ga mem index x of
          None \<Rightarrow> setup_sinks ga mem index xs
        | Some s \<Rightarrow> bind_cpp (start_sink s) (\<lambda>s'.
            bind_cpp (setup_sinks ga mem (index + 1) xs) (\<lambda>ss. Ret (s' # ss))))"

definition SetupSinks :: "'d gap_arith \<Rightarrow> (nat \<Rightarrow> u8 list) \<Rightarrow> MediaSubsession list \<Rightarrow> (int \<times> 'd output_sink list) cpp" where
  "SetupSinks ga mem xs =
     bind_cpp (setup_sinks ga mem 0 xs) (\<lambda>ss. Ret (if ss = [] then RTSP_CLIENT_ERR_NO_SUBSESSION else 0, ss))"

text \<open>What \<open>SetupStreams\<close> does when every subsession is set up, up to the request to play.\<close>

definition SetupStreams_end ::
  "bool \<Rightarrow> 'd gap_arith \<Rightarrow> (nat \<Rightarrow> u8 list) \<Rightarrow> MediaSubsession list \<Rightarrow> LiveRtspClient \<Rightarrow>
     ('d output_sink list \<times> LiveRtspClient) cpp" where
  "SetupStreams_end ignore_sdp_sps ga mem xs c =
     bind_cpp (SetupSinks ga mem xs) (\<lambda>(ret, ss).
       if ret \<noteq> 0 then Ret (ss, HandleError RTSP_CLIENT_ERR_SUBSESSION_INIT_ERR c)
       else Ret (ss, SetupMetaFromSession ignore_sdp_sps (Some xs) c))"

text \<open>A frame that arrives at a sink, with what the framer of its codec knows.\<close>

record sink_input =
  in_frame :: "u8 list"
  in_pts :: timeval
  in_sets :: parameter_sets
  in_config :: "u8 list option"

fun feed_sink ::
  "'d gap_arith \<Rightarrow> (nat \<Rightarrow> timeval) \<Rightarrow> sink_input \<Rightarrow> 'd output_sink \<Rightarrow> LiveRtspClient \<Rightarrow>
     ('d output_sink \<times> LiveRtspClient) cpp" where
  "feed_sink ga clk e (PlainSink s) c =
     bind_cpp (feed_base clk (in_frame e, in_pts e, ()) s c) (\<lambda>(s', c'). Ret (PlainSink s', c'))"
| "feed_sink ga clk e (H264or5Sink s) c =
     bind_cpp (feed_h264or5 ga clk True (in_frame e, in_pts e, in_sets e) s c) (\<lambda>(s', c'). Ret (H264or5Sink s', c'))"
| "feed_sink ga clk e (Mpeg4Sink s) c =
     bind_cpp (feed_mpeg4 ga clk True (in_frame e, in_pts e, in_config e) s c) (\<lambda>(s', c'). Ret (Mpeg4Sink s', c'))"

end
