(* ===== verification/Rtsp_Session.thy ===== *)
theory Rtsp_Session
  imports Rtsp_Setup
begin

text \<open>
  A session of the RTSP source from its set-up on: sinks and sub streams are numbered alike, the metadata is
  announced once, complete and before the first frame, and no sink looks up a sub stream that does not exist, whatever
  the order in which the sinks get their frames. With a multiplexed stream in the session the last point fails.
\<close>

section \<open>The set-up\<close>

fun sink_index :: "'d output_sink \<Rightarrow> int" where
  "sink_index (PlainSink s) = sub_stream_index s"
| "sink_index (H264or5Sink s) = sub_stream_index s"
| "sink_index (Mpeg4Sink s) = sub_stream_index s"

text \<open>The class of the sink suits the subsession, and the sink is ready for a frame.\<close>

fun sink_suits :: "MediaSubsession \<Rightarrow> 'd output_sink \<Rightarrow> bool" where
  "sink_suits x (H264or5Sink s) \<longleftrightarrow> ms_medium_name x = ''video'' \<and>
     (ms_codec_name x = ''H264'' \<and> h_number s = 264 \<or> ms_codec_name x = ''H265'' \<and> h_number s = 265) \<and>
     buffer_ok s \<and> has_client s \<and> collected s = start_code"
| "sink_suits x (Mpeg4Sink s) \<longleftrightarrow> ms_medium_name x = ''video'' \<and> ms_codec_name x = ''MP4V-ES'' \<and> has_client s"
| "sink_suits x (PlainSink s) \<longleftrightarrow>
     \<not> (ms_medium_name x = ''video'' \<and> ms_codec_name x \<in> {''H264'', ''H265'', ''MP4V-ES''}) \<and> has_client s"

abbreviation initiated :: "MediaSubsession list \<Rightarrow> MediaSubsession list" where
  "initiated xs \<equiv> filter ms_read_source xs"

definition no_mux :: "MediaSubsession list \<Rightarrow> bool" where
  "no_mux xs = list_all (\<lambda>x. \<not> is_mux x) (initiated xs)"

definition sized_memory :: "(nat \<Rightarrow> u8 list) \<Rightarrow> bool" where
  "sized_memory mem \<longleftrightarrow> (\<forall>n. length (mem n) = n)"

lemma createNew_h264or5_fields:
  "createNew_h264or5 ga mem cl sub index n h = Some s \<Longrightarrow> sub_stream_index s = index \<and> h_number s = h"
  by (auto simp: createNew_h264or5_def MediaOutputSink.extend_def new_MediaOutputSink_def split: if_splits)

lemma h264or5_sink_started:
  assumes "sized_memory mem" "0 \<le> index" "h = 264 \<or> h = 265"
  shows "\<exists>s s'. createNew_h264or5 ga mem True True index VideoSinkBufferSize h = Some s \<and> continuePlaying_h264or5 s = Ret s' \<and>
    sub_stream_index s' = index \<and> h_number s' = h \<and> buffer_ok s' \<and> has_client s' \<and> collected s' = start_code"
proof -
  have "createNew_h264or5 ga mem True True index VideoSinkBufferSize h \<noteq> None"
    using assms by (auto simp: createNew_h264or5_def VideoSinkBufferSize_def MAX_PARAMETER_NAL_SIZE_def)
  then obtain s where s: "createNew_h264or5 ga mem True True index VideoSinkBufferSize h = Some s" by auto
  obtain s' where s': "continuePlaying_h264or5 s = Ret s'" "buffer_ok s'" "collected s' = start_code" "has_client s'"
    using assms(1) by (auto intro: h264or5_started [OF s]
        simp: sized_memory_def VideoSinkBufferSize_def MAX_PARAMETER_NAL_SIZE_def)
  have "sub_stream_index s' = sub_stream_index s" "h_number s' = h_number s"
    using s'(1) by (auto simp: continuePlaying_h264or5_def bind_cpp_Ret_conv)
  then show ?thesis using s s' createNew_h264or5_fields [OF s] by auto
qed

lemma sink_started:
  assumes "sized_memory mem" "0 \<le> index"
  obtains s s' where "sink_for ga mem index x = Some s" "start_sink s = Ret s'" "sink_index s' = index" "sink_suits x s'"
proof (cases "ms_medium_name x = ''video'' \<and> ms_codec_name x \<in> {''H264'', ''H265''}")
  case True
  then show thesis
    using h264or5_sink_started [OF assms, of 264 ga] h264or5_sink_started [OF assms, of 265 ga] that
    by (auto simp: sink_for_def special_sink_def)
next
  case False
  then have "\<exists>s s'. sink_for ga mem index x = Some s \<and> start_sink s = Ret s' \<and> sink_index s' = index \<and> sink_suits x s'"
    using assms(2)
    by (auto simp: sink_for_def special_sink_def createNew_mpeg4_def createNew_base_def new_MediaOutputSink_def
        VideoSinkBufferSize_def AudioSinkBufferSize_def)
  then show thesis using that by blast
qed

lemma setup_sinks_all:
  assumes "sized_memory mem" "0 \<le> index"
  shows "\<exists>ss. setup_sinks ga mem index xs = Ret ss \<and> list_all2 sink_suits (initiated xs) ss \<and>
    (\<forall>i < length ss. sink_index (ss ! i) = index + int i)"
  using assms(2)
proof (induction xs arbitrary: index)
  case (Cons x xs)
  show ?case
  proof (cases "ms_read_source x")
    case True
    obtain s s' where s: "sink_for ga mem index x = Some s" "start_sink s = Ret s'" "sink_index s' = index" "sink_suits x s'"
      using sink_started [OF assms(1) Cons.prems] by metis
    obtain ss where ss: "setup_sinks ga mem (index + 1) xs = Ret ss" "list_all2 sink_suits (initiated xs) ss"
      "\<forall>i < length ss. sink_index (ss ! i) = index + 1 + int i" using Cons.IH [of "index + 1"] Cons.prems by auto
    have "\<forall>i < length (s' # ss). sink_index ((s' # ss) ! i) = index + int i"
      using ss(3) s(3) by (auto simp: less_Suc_eq_0_disj nth_Cons')
    then show ?thesis using True s ss by (intro exI [of _ "s' # ss"]) simp
  qed (use Cons in simp)
qed simp

lemma setup_sub_streams_all:
  assumes "no_mux xs"
  shows "\<exists>bps'. setup_sub_streams ig index bps ms xs =
    Some (ms @ map (\<lambda>i. sub_metadata_of ig (index + int i) (initiated xs ! i)) [0..<length (initiated xs)], bps')"
  using assms
proof (induction xs arbitrary: index bps ms)
  case (Cons x xs)
  have split: "[0..<Suc n] = 0 # map Suc [0..<n]" for n by (simp add: map_Suc_upt upt_conv_Cons)
  have rest: "no_mux xs" "ms_read_source x \<Longrightarrow> \<not> is_mux x" using Cons.prems by (auto simp: no_mux_def split: if_splits)
  show ?case
    using Cons.IH [OF rest(1), of index bps ms] rest(2)
      Cons.IH [OF rest(1), of "index + 1" "bps + ms_bandwidth x * 1000" "ms @ [sub_metadata_of ig index x]"]
    by (auto simp: split comp_def algebra_simps simp del: upt_Suc)
qed simp

lemma sub_metadata_index [simp]: "ss_sub_stream_index (sub_metadata_of ig i x) = i"
  by (simp add: sub_metadata_of_def Let_def)

lemma CheckMetadata_metadata [simp]: "rc_metadata (snd (CheckMetadata c)) = rc_metadata c"
  by (simp add: CheckMetadata_def notify_listener_def Let_def)

lemma setup_complete:
  assumes "sized_memory mem" "sm_sub_streams (rc_metadata c) = []" "no_mux xs" "initiated xs \<noteq> []"
  obtains ss c' where "SetupStreams_end ig ga mem xs c = Ret (ss, c')" "list_all2 sink_suits (initiated xs) ss"
    "sm_sub_streams (rc_metadata c') = map (\<lambda>i. sub_metadata_of ig (int i) (initiated xs ! i)) [0..<length ss]"
    "\<forall>i < length ss. sink_index (ss ! i) = int i"
    "\<exists>m. c' = snd (CheckMetadata (c\<lparr>rc_metadata := m\<rparr>))"
proof -
  obtain ss where ss: "setup_sinks ga mem 0 xs = Ret ss" "list_all2 sink_suits (initiated xs) ss"
    "\<forall>i < length ss. sink_index (ss ! i) = int i" using setup_sinks_all [OF assms(1), of 0 ga xs] by auto
  have n: "length (initiated xs) = length ss" "ss \<noteq> []" using ss(2) assms(4) by (auto dest: list_all2_lengthD)
  obtain bps where "setup_sub_streams ig 0 0 [] xs =
      Some (map (\<lambda>i. sub_metadata_of ig (int i) (initiated xs ! i)) [0..<length ss], bps)"
    using setup_sub_streams_all [OF assms(3), of ig 0 0 "[]"] n(1) by auto
  then show thesis
    using assms(2) ss n by (intro that [of ss]) (auto simp: SetupStreams_end_def SetupSinks_def SetupMetaFromSession_def)
qed

text \<open>C26: the set-up of a session without multiplexed streams. Every subsession that is initiated gets a sink, of the
  class for its codec, ready for the first frame, and a sub stream in the metadata; both have its position as their
  index.\<close>

theorem session_setup:
  assumes "sized_memory mem" "sm_sub_streams (rc_metadata c) = []" "no_mux xs" "initiated xs \<noteq> []"
  shows "\<exists>ss c'. SetupStreams_end ig ga mem xs c = Ret (ss, c') \<and>
    list_all2 sink_suits (initiated xs) ss \<and>
    sm_sub_streams (rc_metadata c') = map (\<lambda>i. sub_metadata_of ig (int i) (initiated xs ! i)) [0..<length ss] \<and>
    map sink_index ss = map ss_sub_stream_index (sm_sub_streams (rc_metadata c'))"
proof -
  obtain ss c' where s: "SetupStreams_end ig ga mem xs c = Ret (ss, c')" "list_all2 sink_suits (initiated xs) ss"
    "sm_sub_streams (rc_metadata c') = map (\<lambda>i. sub_metadata_of ig (int i) (initiated xs ! i)) [0..<length ss]"
    "\<forall>i < length ss. sink_index (ss ! i) = int i" using setup_complete [OF assms] by metis
  have "map sink_index ss = map ss_sub_stream_index (sm_sub_streams (rc_metadata c'))"
    unfolding s(3) by (rule nth_equalityI) (use s(4) in simp_all)
  with s show ?thesis by blast
qed

definition wit_subsession :: "string \<Rightarrow> string \<Rightarrow> MediaSubsession" where
  "wit_subsession medium codec = \<lparr>ms_read_source = True, ms_medium_name = medium, ms_codec_name = codec,
     ms_video_height = 0, ms_video_width = 0, ms_video_fps = 25, ms_num_channels = 2, ms_rtp_timestamp_frequency = 90000,
     ms_bandwidth = 500, ms_sprop_sets = [], ms_sprop_vps = [], ms_sprop_sps = [], ms_sprop_pps = [], ms_config = None\<rparr>"

abbreviation wit_session :: "MediaSubsession list" where
  "wit_session \<equiv> [wit_subsession ''video'' ''H264'', wit_subsession ''audio'' ''MPEG4-GENERIC'']"

lemma wit_session_facts:
  "sized_memory wit_memory" "sm_sub_streams (rc_metadata wit_client) = []" "no_mux wit_session"
  "initiated wit_session = wit_session"
  by (simp_all add: sized_memory_def wit_memory_def wit_client_def new_StreamMetadata_def no_mux_def is_mux_def
      wit_subsession_def)

theorem session_setup_witness:
  "\<exists>ss c'. SetupStreams_end False wit_gaps wit_memory wit_session wit_client = Ret (ss, c') \<and>
    list_all2 sink_suits wit_session ss \<and> map sink_index ss = [0, 1] \<and>
    map ss_codec_name (sm_sub_streams (rc_metadata c')) = [''H264'', ''AAC'']"
proof -
  obtain ss c' where s: "SetupStreams_end False wit_gaps wit_memory wit_session wit_client = Ret (ss, c')"
    "list_all2 sink_suits wit_session ss"
    "sm_sub_streams (rc_metadata c') = map (\<lambda>i. sub_metadata_of False (int i) (wit_session ! i)) [0..<length ss]"
    "map sink_index ss = map ss_sub_stream_index (sm_sub_streams (rc_metadata c'))"
    using session_setup [OF wit_session_facts(1-3), of False wit_gaps] unfolding wit_session_facts(4) by auto
  have n: "[0..<length ss] = [0, 1]" using list_all2_lengthD [OF s(2)] by (auto simp: upt_rec)
  have m: "sm_sub_streams (rc_metadata c') =
      [sub_metadata_of False 0 (wit_subsession ''video'' ''H264''), sub_metadata_of False 1 (wit_subsession ''audio'' ''MPEG4-GENERIC'')]"
    unfolding s(3) n by simp
  have names: "map ss_codec_name (sm_sub_streams (rc_metadata c')) = [''H264'', ''AAC'']"
    unfolding m by (simp add: sub_metadata_of_def wit_subsession_def Let_def)
  have "map sink_index ss = [0, 1]" unfolding s(4) m by simp
  with s(1,2) names show ?thesis by (intro exI conjI)
qed

section \<open>The running session\<close>

lemma feed_sink_inv:
  "feed_sink ga clk e s c = Ret (s', c') \<Longrightarrow> meta_inv ns c \<Longrightarrow> in_range ns (sink_index s) \<Longrightarrow> meta_inv ns c'"
  by (cases s) (auto simp: bind_cpp_Ret_conv intro: base_client.feed_inv h264or5_client.feed_inv mpeg4_client.feed_inv)

lemma feed_sink_index: "feed_sink ga clk e s c = Ret (s', c') \<Longrightarrow> sink_index s' = sink_index s"
  by (cases s) (auto simp: bind_cpp_Ret_conv dest: base_client.feed_index h264or5_client.feed_index mpeg4_client.feed_index)

interpretation any_client: announcing_sink "feed_sink ga clk" sink_index for ga clk
  by unfold_locales (blast intro: feed_sink_inv feed_sink_index)+

text \<open>A frame arrives at one of the sinks, the timer of the gap check fires, the client is shut down.\<close>

inductive session_step ::
  "'d gap_arith \<Rightarrow> (nat \<Rightarrow> timeval) \<Rightarrow> 'd output_sink list \<times> LiveRtspClient \<Rightarrow>
     'd output_sink list \<times> LiveRtspClient \<Rightarrow> bool" for ga clk where
  step_frame: "i < length ss \<Longrightarrow> feed_sink ga clk e (ss ! i) c = Ret (s', c') \<Longrightarrow>
     session_step ga clk (ss, c) (ss[i := s'], c')"
| step_gap: "CheckInterFrameGaps now c = (c', again) \<Longrightarrow> session_step ga clk (ss, c) (ss, c')"
| step_shutdown: "session_step ga clk (ss, c) (ss, c\<lparr>rc_are_already_shutting_down := True\<rparr>)"

inductive_cases session_stepE: "session_step ga clk st st'"

definition session_inv :: "'d output_sink list \<times> LiveRtspClient \<Rightarrow> bool" where
  "session_inv st \<longleftrightarrow> (case st of (ss, c) \<Rightarrow> meta_inv (length ss) c \<and> (\<forall>i < length ss. sink_index (ss ! i) = int i))"

lemma CheckInterFrameGaps_inv: "meta_inv ns c \<Longrightarrow> CheckInterFrameGaps now c = (c', again) \<Longrightarrow> meta_inv ns c'"
  by (auto simp: CheckInterFrameGaps_def HandleError_inv split: if_splits)

lemma session_step_inv: "session_step ga clk st st' \<Longrightarrow> session_inv st \<Longrightarrow> session_inv st'"
proof (induction rule: session_step.induct)
  case (step_frame i ss e c s' c')
  have "meta_inv (length ss) c'" using any_client.feed_inv [OF _ _ step_frame.hyps(2)] step_frame.prems step_frame.hyps(1)
    by (simp add: session_inv_def in_range_def)
  moreover have "sink_index s' = sink_index (ss ! i)" using any_client.feed_index [OF step_frame.hyps(2)] .
  ultimately show ?case using step_frame by (auto simp: session_inv_def nth_list_update)
next
  case (step_gap now c c' again ss)
  then show ?case using CheckInterFrameGaps_inv by (auto simp: session_inv_def)
next
  case (step_shutdown ss c)
  then show ?case by (simp add: session_inv_def meta_inv_def)
qed

lemma session_reach_inv: "(session_step ga clk)\<^sup>*\<^sup>* st st' \<Longrightarrow> session_inv st \<Longrightarrow> session_inv st'"
  by (induction rule: rtranclp_induct) (auto intro: session_step_inv)

lemma session_starts:
  assumes "sized_memory mem" "sm_sub_streams (rc_metadata c) = []" "no_mux xs" "initiated xs \<noteq> []"
    and "rc_listener c" "rc_calls c = []" "\<not> rc_is_metadata_ok c" "SetupStreams_end ig ga mem xs c = Ret (ss, c1)"
  shows "session_inv (ss, c1)"
proof -
  obtain m where s: "sm_sub_streams (rc_metadata c1) = map (\<lambda>i. sub_metadata_of ig (int i) (initiated xs ! i)) [0..<length ss]"
    "\<forall>i < length ss. sink_index (ss ! i) = int i" and c1: "c1 = snd (CheckMetadata (c\<lparr>rc_metadata := m\<rparr>))"
    using setup_complete [OF assms(1-4), of ig ga] assms(8) by fastforce
  have "length (sm_sub_streams m) = length ss" using s(1) c1 by simp
  then have "meta_inv (length ss) (c\<lparr>rc_metadata := m\<rparr>)" using assms by (simp add: meta_inv_def)
  then show ?thesis using c1 CheckMetadata_inv s(2) by (simp add: session_inv_def)
qed

text \<open>C23: in a session without multiplexed streams (none of the initiated subsessions is MP2T or MP2P, and there is at
  least one), the client tells its listener the metadata before it hands on the first frame, once, and when it is
  complete, and every frame is one of its sub streams, in every state that the session reaches after its set-up, however
  the frames of the sinks follow each other and the timers fire. The sinks of such a session never look for a sub stream that the
  metadata does not have.\<close>

theorem session_metadata_first:
  assumes "sized_memory mem" "sm_sub_streams (rc_metadata c) = []" "no_mux xs" "initiated xs \<noteq> []"
    and "rc_listener c" "rc_calls c = []" "\<not> rc_is_metadata_ok c" "SetupStreams_end ig ga mem xs c = Ret (ss, c1)"
    and "(session_step ga clk)\<^sup>*\<^sup>* (ss, c1) (ss', c')"
  shows "(if rc_is_metadata_ok c' then announced (rc_metadata c') (rc_calls c') else list_all (early_call (length ss')) (rc_calls c')) \<and>
    list_all (\<lambda>s. update_sink_meta True (sink_index s) extra c' \<noteq> Undef) ss'"
proof -
  have inv: "session_inv (ss', c')" using session_reach_inv [OF assms(9)] session_starts [OF assms(1-8)] by blast
  then have "update_sink_meta True (sink_index (ss' ! i)) extra c' \<noteq> Undef" if "i < length ss'" for i
    using that by (auto simp: session_inv_def meta_inv_def update_sink_meta_def set_extra_data_def Let_def split: option.splits)
  then show ?thesis using inv by (auto simp: session_inv_def meta_inv_def list_all_length split: if_splits)
qed

text \<open>A session with one audio stream: the metadata is complete after the set-up, and the first frame is handed on.\<close>

abbreviation wit_audio :: "MediaSubsession list" where
  "wit_audio \<equiv> [wit_subsession ''audio'' ''PCMU'']"

abbreviation wit_input :: sink_input where
  "wit_input \<equiv> \<lparr>in_frame = [1, 2, 3], in_pts = wit_time 5, in_sets = (None, None, None), in_config = None\<rparr>"

lemma wit_audio_facts:
  "no_mux wit_audio" "initiated wit_audio \<noteq> []" "rc_listener wit_client" "rc_calls wit_client = []"
  "\<not> rc_is_metadata_ok wit_client"
  by (simp_all add: no_mux_def is_mux_def wit_subsession_def wit_client_def)

lemma wit_audio_run:
  "\<exists>s c1 s' c' m fi. SetupStreams_end False wit_gaps wit_memory wit_audio wit_client = Ret ([s], c1) \<and>
    feed_sink wit_gaps (\<lambda>_. wit_time 5) wit_input s c1 = Ret (s', c') \<and>
    rc_is_metadata_ok c' \<and> rc_calls c' = [OnMetaReady m, OnMediaFrame fi [1, 2, 3]]"
  by (simp add: SetupStreams_end_def SetupSinks_def sink_for_def special_sink_def createNew_base_def wit_subsession_def
      new_MediaOutputSink_def AudioSinkBufferSize_def SetupMetaFromSession_def is_mux_def CheckMetadata_def wit_client_def
      new_meta_defs sub_metadata_of_def notify_listener_def feed_base_def afterGettingFrame_base_def put_bytes_def
      DoAfterGettingFrame_base_def pts_before_def tv_zero_def wit_time_def AfterGettingFrame_def IsMetaReady_client_def Let_def)

theorem session_metadata_first_witness:
  "\<exists>ss c1 ss' c'. SetupStreams_end False wit_gaps wit_memory wit_audio wit_client = Ret (ss, c1) \<and>
    session_step wit_gaps (\<lambda>_. wit_time 5) (ss, c1) (ss', c') \<and> length (rc_calls c') = 2 \<and>
    announced (rc_metadata c') (rc_calls c') \<and>
    list_all (\<lambda>s. update_sink_meta True (sink_index s) (Some ''sps'') c' \<noteq> Undef) ss'"
proof -
  obtain s c1 s' c' m fi where r: "SetupStreams_end False wit_gaps wit_memory wit_audio wit_client = Ret ([s], c1)"
    "feed_sink wit_gaps (\<lambda>_. wit_time 5) wit_input s c1 = Ret (s', c')"
    "rc_is_metadata_ok c'" "rc_calls c' = [OnMetaReady m, OnMediaFrame fi [1, 2, 3]]" using wit_audio_run by metis
  have step: "session_step wit_gaps (\<lambda>_. wit_time 5) ([s], c1) ([s'], c')"
    using session_step.step_frame [of 0 "[s]" wit_gaps "\<lambda>_. wit_time 5" wit_input c1 s' c'] r(2) by simp
  have "announced (rc_metadata c') (rc_calls c') \<and>
      list_all (\<lambda>s. update_sink_meta True (sink_index s) (Some ''sps'') c' \<noteq> Undef) [s']"
    using session_metadata_first [OF wit_session_facts(1,2) wit_audio_facts r(1)
        r_into_rtranclp [of "session_step wit_gaps (\<lambda>_. wit_time 5)", OF step], of "Some ''sps''"] r(3) by simp
  moreover have "length (rc_calls c') = 2" using r(4) by simp
  ultimately show ?thesis using r(1) step by blast
qed

section \<open>Multiplexed streams\<close>

lemma setup_sub_streams_mux: "\<not> no_mux xs \<Longrightarrow> setup_sub_streams ig index bps ms xs = None"
  by (induction xs arbitrary: index bps ms) (auto simp: no_mux_def)

text \<open>
  With a multiplexed stream beside it, a sink for H.264 or H.265 looks up its sub stream in an empty list as soon as a
  frame arrives.
\<close>

theorem mux_session_undefined:
  assumes "sized_memory mem" "\<not> no_mux xs" "\<not> rc_is_metadata_ok c" "SetupStreams_end ig ga mem xs c = Ret (ss, c1)"
    and "H264or5Sink s \<in> set ss" "not_after (last_pts s) pts" "length frame \<le> buf_space s"
  shows "feed_h264or5 ga clk True (frame, pts, sets) s c1 = Undef"
proof -
  obtain ss0 where ss0: "setup_sinks ga mem 0 xs = Ret ss0" "list_all2 sink_suits (initiated xs) ss0"
    using setup_sinks_all [OF assms(1), of 0 ga xs] by auto
  have c1: "ss0 = ss" "sm_sub_streams (rc_metadata c1) = []" "\<not> rc_is_metadata_ok c1"
    using assms(3-5) ss0(1) setup_sub_streams_mux [OF assms(2)]
    by (auto simp: SetupStreams_end_def SetupSinks_def SetupMetaFromSession_def split: if_splits)
  obtain x where "sink_suits x (H264or5Sink s)"
    using ss0(2) assms(5) c1(1) by (metis in_set_conv_nth list_all2_nthD2)
  then have ok: "buffer_ok s" "has_client s" by simp_all
  have fits: "unat (recv_buf_size s) + length frame \<le> length (recv_buf s)"
    using ok(1) assms(7) by (auto simp: buffer_ok_def buf_space_def)
  obtain b where b: "put_bytes (unat (recv_buf_size s)) frame (recv_buf s) = Ret b" "length b = length (recv_buf s)"
    by (rule put_bytes_fits [OF fits])
  have "update_sink_meta (has_client s) (sub_stream_index s) extra c1 = Undef" for extra
    using ok(2) c1(2,3) by (simp add: update_sink_meta_def IsMetaReady_client_def set_extra_data_def Let_def)
  then show ?thesis
    using b fits assms(6,7) by (simp add: feed_h264or5_def afterGettingFrame_h264or5_def DoAfterGettingFrame_h264or5_def
        not_after_def Let_def min_def)
qed

end
