(* ===== verification/Ffmpeg_Demuxer.thy ===== *)
theory Ffmpeg_Demuxer
  imports Nal_Parser
begin

text \<open>
  The demuxer of the FFmpeg source: class \<open>FFmpegDemuxer\<close>
  (\<open>sources/ffmpeg_demuxer_source/src/stsw_ffmpeg_demuxer.cc\<close>), which opens an input, reads its packets, and
  reads ahead until the metadata of all streams is known.

  The FFmpeg library is a parameter: \<open>open_env\<close> has the results of the calls that \<open>Open\<close> makes, and every
  call of \<open>av_read_frame\<close> is an \<open>av_read\<close>: its result, the packet (after
  \<open>av_packet_split_side_data\<close>), the streams of the format context at that time and the readings of the
  clocks. A method that reads takes the list of the calls to come and gives back the rest of it; \<open>None\<close> is a method that is still
  waiting when the list is used up. The memory of packets, log messages and the dump of the packet are left out, except that
  the dump reads \<open>streams[stream_index]\<close> before the index is checked.
\<close>

section \<open>What FFmpeg provides\<close>

datatype av_ret = AVERROR_EAGAIN | AVERROR_EOF | AV_ret int

record av_read =
  rd_ret :: av_ret
  rd_pkt :: AVPacket
  rd_streams :: "AVStream list"
  rd_now_sec :: int
  rd_now_usec :: int
  rd_mono_sec :: int
  rd_mono_nsec :: int

text \<open>The value of \<open>rand\<close>, the length of the input as a number of type \<open>double\<close>, and the texts are parameters too.\<close>

record open_env =
  oe_dict_ret :: int
  oe_alloc :: bool
  oe_open_ret :: int
  oe_info_ret :: int
  oe_rand :: int
  oe_duration :: int
  oe_seconds :: "int \<Rightarrow> u64"
  oe_protocol_name :: "string option"
  oe_iformat_name :: "string option"
  oe_bit_rate :: int
  oe_streams :: "AVStream list"
  oe_codec_name :: "AVCodecID \<Rightarrow> string"
  oe_mono :: "nat \<Rightarrow> int \<times> int"

definition PLAY_MODE_AUTO :: int where "PLAY_MODE_AUTO = 0"
definition PLAY_MODE_LIVE :: int where "PLAY_MODE_LIVE = 1"
definition PLAY_MODE_REPLAY :: int where "PLAY_MODE_REPLAY = 2"

section \<open>Input and output\<close>

definition new_FFmpegDemuxer :: FFmpegDemuxer where
  "new_FFmpegDemuxer =
     \<lparr>dm_io_enabled = True, dm_open = False, dm_io_start_sec = 0, dm_io_start_nsec = 0, dm_io_timeout = 0,
      dm_meta = new_StreamMetadata, dm_stream_parsers = [], dm_cached_pkts = [], dm_ssrc = 0, dm_base_pts = AV_NOPTS_VALUE,
      dm_base_sec = 0, dm_base_usec = 0\<rparr>"

definition set_io_enabled :: "bool \<Rightarrow> FFmpegDemuxer \<Rightarrow> FFmpegDemuxer" where
  "set_io_enabled b dm = dm\<lparr>dm_io_enabled := b\<rparr>"

definition StartIO :: "int \<times> int \<Rightarrow> FFmpegDemuxer \<Rightarrow> FFmpegDemuxer" where
  "StartIO now dm = dm\<lparr>dm_io_start_sec := fst now, dm_io_start_nsec := snd now\<rparr>"

definition StopIO :: "FFmpegDemuxer \<Rightarrow> FFmpegDemuxer" where
  "StopIO dm = dm\<lparr>dm_io_start_sec := 0, dm_io_start_nsec := 0\<rparr>"

text \<open>FFmpeg calls this during an operation, and gives the operation up when the result is not zero.\<close>

definition IOInterruptCB :: "int \<Rightarrow> int \<Rightarrow> FFmpegDemuxer \<Rightarrow> int" where
  "IOInterruptCB cur_sec cur_nsec dm =
     (if \<not> dm_io_enabled dm then 1
      else if dm_io_start_sec dm \<noteq> 0 then
        let io_dur = (word_of_int ((cur_sec - dm_io_start_sec dm) * 1000 + (cur_nsec - dm_io_start_nsec dm) sdiv 1000000) :: u64)
        in if io_dur \<ge> dm_io_timeout dm then 1 else 0
      else 0)"

section \<open>Opening and closing\<close>

definition sub_metadata :: "open_env \<Rightarrow> nat \<Rightarrow> AVStream \<Rightarrow> SubStreamMetadata option cpp" where
  "sub_metadata oe i st =
     (let m = new_SubStreamMetadata\<lparr>ss_codec_name := CodecNameFromId (oe_codec_name oe) (av_codec_id st),
                ss_sub_stream_index := int i, ss_direction := SUB_STREAM_DIRECTION_OUTBOUND, ss_extra_data := av_extradata st\<rparr>
      in case av_codec_type st of
           AVMEDIA_TYPE_AUDIO \<Rightarrow>
             Ret (Some (m\<lparr>ss_media_type := SUB_STREAM_MEIDA_TYPE_AUDIO,
               ss_audio := (ss_audio m)\<lparr>ap_channels := word_of_int (av_channels st),
                 ap_samples_per_second := word_of_int (av_sample_rate st), ap_bits_per_sample := word_of_int (av_bits_per_raw_sample st)\<rparr>\<rparr>))
         | AVMEDIA_TYPE_VIDEO \<Rightarrow>
             bind_cpp (if av_avg_frame_rate_num st \<noteq> 0 \<and> av_avg_frame_rate_den st \<noteq> 0
                       then bind_cpp (chk32 (av_avg_frame_rate_num st sdiv av_avg_frame_rate_den st))
                              (\<lambda>q. Ret ((ss_video m)\<lparr>vp_fps := word_of_int q\<rparr>))
                       else Ret (ss_video m)) (\<lambda>v.
             let v1 = (if av_width st \<noteq> 0 \<and> av_height st \<noteq> 0
                       then v\<lparr>vp_height := word_of_int (av_height st), vp_width := word_of_int (av_width st)\<rparr> else v)
             in Ret (Some (m\<lparr>ss_media_type := SUB_STREAM_MEIDA_TYPE_VIDEO, ss_video := v1\<rparr>)))
         | AVMEDIA_TYPE_OTHER \<Rightarrow> Ret None)"

text \<open>The sub streams are appended to those that the metadata already has.\<close>

fun open_sub_streams :: "open_env \<Rightarrow> nat \<Rightarrow> AVStream list \<Rightarrow> FFmpegDemuxer \<Rightarrow> (int \<times> FFmpegDemuxer) cpp" where
  "open_sub_streams oe i [] dm = Ret (0, dm)"
| "open_sub_streams oe i (st # sts) dm =
     bind_cpp (sub_metadata oe i st) (\<lambda>r.
       case r of
         None \<Rightarrow> Ret (FFMPEG_SOURCE_ERR_GENERAL, dm)
       | Some m \<Rightarrow> open_sub_streams oe (i + 1) sts (dm\<lparr>dm_meta := (dm_meta dm)\<lparr>sm_sub_streams := sm_sub_streams (dm_meta dm) @ [m]\<rparr>\<rparr>))"

fun open_parsers :: "nat \<Rightarrow> AVStream list \<Rightarrow> FFmpegDemuxer \<Rightarrow> (int \<times> FFmpegDemuxer) cpp" where
  "open_parsers i [] dm = Ret (0, dm)"
| "open_parsers i (st # sts) dm =
     bind_cpp (Init_parser st (int i) dm (NewStreamParser (av_codec_id st))) (\<lambda>(ret, dm1, p).
       if ret \<noteq> 0 then Ret (FFMPEG_SOURCE_ERR_GENERAL, dm1\<lparr>dm_stream_parsers := []\<rparr>)
       else open_parsers (i + 1) sts (dm1\<lparr>dm_stream_parsers := dm_stream_parsers dm1 @ [p]\<rparr>))"

text \<open>The metadata of the input as a whole.\<close>

definition open_meta :: "open_env \<Rightarrow> int \<Rightarrow> FFmpegDemuxer \<Rightarrow> FFmpegDemuxer" where
  "open_meta oe play_mode dm =
     (let ssrc = word_of_int (oe_rand oe mod 0xffffffff);
          unlimited = (oe_duration oe = 0 \<or> oe_duration oe = AV_NOPTS_VALUE);
          len = (if unlimited then 0 else oe_seconds oe (oe_duration oe));
          m = (dm_meta dm)\<lparr>sm_ssrc := ssrc\<rparr>;
          m1 = (if play_mode = PLAY_MODE_AUTO then
                  if unlimited then m\<lparr>sm_play_type := STREAM_PLAY_TYPE_LIVE, sm_stream_len := 0\<rparr>
                  else m\<lparr>sm_play_type := STREAM_PLAY_TYPE_REPLAY, sm_stream_len := len\<rparr>
                else if play_mode = PLAY_MODE_LIVE then m\<lparr>sm_play_type := STREAM_PLAY_TYPE_LIVE, sm_stream_len := 0\<rparr>
                else if play_mode = PLAY_MODE_REPLAY then m\<lparr>sm_play_type := STREAM_PLAY_TYPE_REPLAY, sm_stream_len := len\<rparr>
                else m);
          name = (case oe_protocol_name oe of Some n \<Rightarrow> n | None \<Rightarrow> case oe_iformat_name oe of Some n \<Rightarrow> n | None \<Rightarrow> ''ffmpeg'')
      in dm\<lparr>dm_ssrc := ssrc, dm_meta := m1\<lparr>sm_source_proto := name, sm_bps := word_of_int (oe_bit_rate oe)\<rparr>\<rparr>)"

definition Open_demuxer :: "open_env \<Rightarrow> u64 \<Rightarrow> int \<Rightarrow> FFmpegDemuxer \<Rightarrow> (int \<times> FFmpegDemuxer) cpp" where
  "Open_demuxer oe io_timeout play_mode dm =
     (if \<not> dm_io_enabled dm then Ret (FFMPEG_SOURCE_ERR_IO, dm)
      else
        let dm1 = dm\<lparr>dm_base_pts := AV_NOPTS_VALUE, dm_base_sec := 0, dm_base_usec := 0\<rparr>
        in if oe_dict_ret oe \<noteq> 0 then Ret (FFMPEG_SOURCE_ERR_GENERAL, dm1)
           else if \<not> oe_alloc oe then Ret (FFMPEG_SOURCE_ERR_GENERAL, dm1\<lparr>dm_open := False\<rparr>)
           else
             let dm2 = StopIO (StartIO (oe_mono oe 0) (dm1\<lparr>dm_open := True, dm_io_timeout := io_timeout\<rparr>))
             in if oe_open_ret oe < 0 then Ret (FFMPEG_SOURCE_ERR_IO, dm2\<lparr>dm_open := False\<rparr>)
                else
                  let dm3 = StopIO (StartIO (oe_mono oe 1) dm2)
                  in if oe_info_ret oe < 0 then Ret (FFMPEG_SOURCE_ERR_IO, dm3\<lparr>dm_open := False\<rparr>)
                     else
                       bind_cpp (open_sub_streams oe 0 (oe_streams oe) (open_meta oe play_mode dm3)) (\<lambda>(ret, dm4).
                       if ret \<noteq> 0 then Ret (ret, dm4\<lparr>dm_open := False\<rparr>)
                       else
                         bind_cpp (open_parsers 0 (oe_streams oe) dm4) (\<lambda>(ret, dm5).
                         if ret \<noteq> 0 then Ret (ret, dm5\<lparr>dm_open := False\<rparr>) else Ret (0, dm5))))"

definition Close_demuxer :: "FFmpegDemuxer \<Rightarrow> FFmpegDemuxer" where
  "Close_demuxer dm =
     (if \<not> dm_open dm then dm
      else dm\<lparr>dm_cached_pkts := [], dm_stream_parsers := [], dm_open := False\<rparr>)"

section \<open>Reading\<close>

text \<open>The call of \<open>av_read_frame\<close> that is not to be repeated.\<close>

fun read_frame :: "av_read list \<Rightarrow> FFmpegDemuxer \<Rightarrow> (av_read \<times> FFmpegDemuxer \<times> av_read list) option" where
  "read_frame [] dm = None"
| "read_frame (r # rs) dm =
     (let dm1 = StopIO (StartIO (rd_mono_sec r, rd_mono_nsec r) dm)
      in if rd_ret r = AVERROR_EAGAIN then read_frame rs dm1 else Some (r, dm1, rs))"

text \<open>The packet, handed to the parser of its stream.\<close>

definition parse_frame :: "av_read \<Rightarrow> FFmpegDemuxer \<Rightarrow> (int \<times> (MediaFrameInfo \<times> AVPacket) option \<times> bool option \<times> FFmpegDemuxer) cpp" where
  "parse_frame r dm =
     (let i = pkt_stream_index (rd_pkt r)
      in if i < 0 \<or> nat i \<ge> length (rd_streams r) then Undef
         else if nat i \<ge> length (dm_stream_parsers dm) then Ret (FFMPEG_SOURCE_ERR_GENERAL, None, None, dm)
         else
           bind_cpp (Parse_packet (rd_now_sec r) (rd_now_usec r) (rd_streams r ! nat i) (rd_pkt r) dm (dm_stream_parsers dm ! nat i))
             (\<lambda>(ret, fi, pkt, changed, dm1, p).
                Ret (ret, (if ret = 0 then map_option (\<lambda>f. (f\<lparr>fi_ssrc := dm_ssrc dm1\<rparr>, pkt)) fi else None), changed,
                     dm1\<lparr>dm_stream_parsers := (dm_stream_parsers dm1)[nat i := p]\<rparr>)))"

type_synonym read_result = "((int \<times> (MediaFrameInfo \<times> AVPacket) option \<times> bool option \<times> FFmpegDemuxer) \<times> av_read list) option cpp"

definition ReadPacket :: "av_read list \<Rightarrow> FFmpegDemuxer \<Rightarrow> read_result" where
  "ReadPacket rs dm =
     (if \<not> dm_open dm then Ret (Some ((-1, None, None, dm), rs))
      else if \<not> dm_io_enabled dm then Ret (Some ((FFMPEG_SOURCE_ERR_IO, None, None, dm), rs))
      else
        case dm_cached_pkts dm of
          node # nodes \<Rightarrow> Ret (Some ((0, Some node, Some False, dm\<lparr>dm_cached_pkts := nodes\<rparr>), rs))
        | [] \<Rightarrow>
            case read_frame rs dm of
              None \<Rightarrow> Ret None
            | Some (r, dm1, rest) \<Rightarrow>
                case rd_ret r of
                  AVERROR_EAGAIN \<Rightarrow> Undef
                | AVERROR_EOF \<Rightarrow> Ret (Some ((FFMPEG_SOURCE_ERR_EOF, None, None, dm1), rest))
                | AV_ret ret \<Rightarrow>
                    if ret < 0 then Ret (Some ((FFMPEG_SOURCE_ERR_IO, None, None, dm1), rest))
                    else bind_cpp (parse_frame r dm1) (\<lambda>res. Ret (Some (res, rest))))"

fun parsers_ready :: "FFmpegDemuxer \<Rightarrow> StreamParser list \<Rightarrow> bool cpp" where
  "parsers_ready dm [] = Ret True"
| "parsers_ready dm (p # ps) = bind_cpp (IsMetaReady_parser dm p) (\<lambda>b. if b then parsers_ready dm ps else Ret False)"

definition IsMetaReady_demuxer :: "FFmpegDemuxer \<Rightarrow> bool cpp" where
  "IsMetaReady_demuxer dm = parsers_ready dm (dm_stream_parsers dm)"

lemma read_frame_rest: "read_frame rs dm = Some (r, dm1, rest) \<Longrightarrow> length rest < length rs"
  by (induction rs dm rule: read_frame.induct) (auto simp: Let_def split: if_splits)

text \<open>The loop of \<open>ReadMeta\<close>; the clock is read before the first call of \<open>av_read_frame\<close> of a pass.\<close>

function read_meta_loop :: "int \<Rightarrow> int \<Rightarrow> av_read list \<Rightarrow> FFmpegDemuxer \<Rightarrow> ((int \<times> FFmpegDemuxer) \<times> av_read list) option cpp" where
  "read_meta_loop start timeout rs dm =
     (case IsMetaReady_demuxer dm of
        Undef \<Rightarrow> Undef
      | Ret True \<Rightarrow> Ret (Some ((0, dm), rs))
      | Ret False \<Rightarrow>
          if rs \<noteq> [] \<and> rd_mono_sec (hd rs) - start \<ge> timeout then Ret (Some ((FFMPEG_SOURCE_ERR_TIMEOUT, dm), rs))
          else
            case read_frame rs dm of
              None \<Rightarrow> Ret None
            | Some (r, dm1, rest) \<Rightarrow>
                case rd_ret r of
                  AVERROR_EAGAIN \<Rightarrow> Undef
                | AVERROR_EOF \<Rightarrow> Ret (Some ((FFMPEG_SOURCE_ERR_EOF, dm1), rest))
                | AV_ret ret \<Rightarrow>
                    if ret \<noteq> 0 then Ret (Some ((FFMPEG_SOURCE_ERR_IO, dm1), rest))
                    else
                      case parse_frame r dm1 of
                        Undef \<Rightarrow> Undef
                      | Ret (ret, node, changed, dm2) \<Rightarrow>
                          if ret = FFMPEG_SOURCE_ERR_DROP then read_meta_loop start timeout rest dm2
                          else if ret \<noteq> 0 then Ret (Some ((ret, dm2), rest))
                          else
                            case node of
                              None \<Rightarrow> Undef
                            | Some n \<Rightarrow> read_meta_loop start timeout rest (dm2\<lparr>dm_cached_pkts := dm_cached_pkts dm2 @ [n]\<rparr>))"
  by pat_completeness auto
termination by (relation "measure (\<lambda>(start, timeout, rs, dm). length rs)") (auto dest: read_frame_rest)

declare read_meta_loop.simps [simp del]

text \<open>\<open>ReadMeta\<close>; the metadata is given when the result is zero.\<close>

definition ReadMeta ::
  "int \<Rightarrow> int \<Rightarrow> av_read list \<Rightarrow> FFmpegDemuxer \<Rightarrow> ((int \<times> StreamMetadata option \<times> FFmpegDemuxer) \<times> av_read list) option cpp" where
  "ReadMeta start timeout rs dm =
     (if \<not> dm_open dm then Ret (Some ((-1, None, dm), rs))
      else if \<not> dm_io_enabled dm then Ret (Some ((FFMPEG_SOURCE_ERR_IO, None, dm), rs))
      else bind_cpp (read_meta_loop start timeout rs dm) (\<lambda>res.
        case res of
          None \<Rightarrow> Ret None
        | Some ((ret, dm1), rest) \<Rightarrow> Ret (Some ((ret, if ret = 0 then Some (dm_meta dm1) else None, dm1), rest))))"

end
