(* ===== verification/Demuxer_Source.thy ===== *)
theory Demuxer_Source
  imports Ffmpeg_Demuxer Stream_Source
begin

text \<open>
  The FFmpeg source (\<open>sources/ffmpeg_demuxer_source/src/stsw_ffmpeg_demuxer_source.cc\<close>): a demuxer whose
  packets a thread of its own publishes through a stream source. The source's listener does nothing.

  The thread and the methods of other threads share \<open>is_started_\<close>; every reading of it by the thread
  is a parameter of its pass, as are the readings of the clock. The calls of the error function are recorded. The handler of
  the signal that interrupts the thread is a flag.
\<close>

section \<open>State\<close>

definition SOURCE_STREAM_STATE_ERR_TIME :: int where "SOURCE_STREAM_STATE_ERR_TIME = -4"

record 'b FFmpegDemuxerSource =
  fs_source :: "'b StreamSource"
  fs_demuxer :: FFmpegDemuxer
  fs_input_name :: string
  fs_options :: string
  fs_io_timeout :: u64
  fs_native_frame_rate :: bool
  fs_local_gap_max_time :: int
  fs_is_started :: bool
  fs_live_thread_id :: nat
  fs_on_error_fun :: bool
  fs_error_calls :: "int list"
  fs_default_stream_index :: int
  fs_meta :: StreamMetadata
  fs_sigusr1 :: bool

definition new_FFmpegDemuxerSource :: "'b FFmpegDemuxerSource" where
  "new_FFmpegDemuxerSource =
     \<lparr>fs_source = new_StreamSource, fs_demuxer = new_FFmpegDemuxer, fs_input_name = '''', fs_options = '''', fs_io_timeout = 0,
      fs_native_frame_rate = False, fs_local_gap_max_time = 0, fs_is_started = False, fs_live_thread_id = 0,
      fs_on_error_fun = False, fs_error_calls = [], fs_default_stream_index = 0, fs_meta = new_StreamMetadata, fs_sigusr1 = False\<rparr>"

definition demuxer_listener :: SourceListener where
  "demuxer_listener = \<lparr>on_media_statistic = (\<lambda>m. m)\<rparr>"

section \<open>Life cycle\<close>

definition Init_fs ::
  "int \<Rightarrow> init_env \<Rightarrow> string \<Rightarrow> string \<Rightarrow> string \<Rightarrow> int \<Rightarrow> u64 \<Rightarrow> bool \<Rightarrow> int \<Rightarrow> int \<Rightarrow> int \<Rightarrow> 'b FFmpegDemuxerSource \<Rightarrow>
     (int \<times> 'b FFmpegDemuxerSource) cpp" where
  "Init_fs sigaction_ret ie input stream_name options local_gap_max_time io_timeout native_frame_rate source_tcp_port queue_size debug_flags f =
     (if sigaction_ret \<noteq> 0 then Ret (FFMPEG_SOURCE_ERR_GENERAL, f)
      else
        let f1 = f\<lparr>fs_sigusr1 := True\<rparr>
        in bind_cpp (Init ie stream_name source_tcp_port (of_int queue_size) (Some demuxer_listener) (of_int debug_flags) (fs_source f1)) (\<lambda>(ret, s).
           if ret \<noteq> 0 then Ret (FFMPEG_SOURCE_ERR_GENERAL, f1\<lparr>fs_source := s, fs_sigusr1 := False\<rparr>)
           else Ret (0, f1\<lparr>fs_source := s, fs_input_name := input, fs_io_timeout := io_timeout, fs_options := options,
                          fs_native_frame_rate := native_frame_rate, fs_local_gap_max_time := local_gap_max_time\<rparr>)))"

definition Uninit_fs :: "'b FFmpegDemuxerSource \<Rightarrow> 'b FFmpegDemuxerSource" where
  "Uninit_fs f =
     f\<lparr>fs_input_name := '''', fs_options := '''', fs_native_frame_rate := False, fs_io_timeout := 0, fs_local_gap_max_time := 0,
       fs_source := Uninit (fs_source f), fs_sigusr1 := False\<rparr>"

abbreviation META_READ_TIMEOUT :: int where "META_READ_TIMEOUT \<equiv> 10"

definition set_state :: "'b src_env \<Rightarrow> int \<Rightarrow> 'b FFmpegDemuxerSource \<Rightarrow> 'b FFmpegDemuxerSource" where
  "set_state E st f = f\<lparr>fs_source := set_stream_state E st (fs_source f)\<rparr>"

definition close_fs :: "'b FFmpegDemuxerSource \<Rightarrow> 'b FFmpegDemuxerSource" where
  "close_fs f = f\<lparr>fs_demuxer := Close_demuxer (fs_demuxer f)\<rparr>"

text \<open>\<open>Start\<close>, from its last part to its first. \<open>src_thread\<close> and \<open>live_thread\<close> are the threads that are made, or
  \<open>None\<close> where the system has none.\<close>

definition start_threads ::
  "'b src_env \<Rightarrow> nat option \<Rightarrow> nat option \<Rightarrow> bool \<Rightarrow> 'b FFmpegDemuxerSource \<Rightarrow> int \<times> 'b FFmpegDemuxerSource" where
  "start_threads E src_thread live_thread on_error_fun f =
     (let (ret, s) = Start src_thread (set_stream_meta (fs_meta f) (fs_source f));
          f1 = f\<lparr>fs_source := s\<rparr>
      in if ret \<noteq> 0 then (FFMPEG_SOURCE_ERR_GENERAL, close_fs (set_state E SOURCE_STREAM_STATE_ERR f1))
         else
           let f2 = (set_state E SOURCE_STREAM_STATE_OK f1)\<lparr>fs_on_error_fun := on_error_fun, fs_is_started := True\<rparr>
           in case live_thread of
                Some tid \<Rightarrow> (0, f2\<lparr>fs_live_thread_id := tid\<rparr>)
              | None \<Rightarrow>
                  let f3 = set_state E SOURCE_STREAM_STATE_ERR (f2\<lparr>fs_is_started := False, fs_live_thread_id := 0, fs_on_error_fun := False\<rparr>)
                  in (-1, close_fs (f3\<lparr>fs_source := Stop (fs_source f3)\<rparr>)))"

definition start_read ::
  "'b src_env \<Rightarrow> int \<Rightarrow> nat option \<Rightarrow> nat option \<Rightarrow> bool \<Rightarrow> av_read list \<Rightarrow> 'b FFmpegDemuxerSource \<Rightarrow>
     ((int \<times> 'b FFmpegDemuxerSource) \<times> av_read list) option cpp" where
  "start_read E mono_sec src_thread live_thread on_error_fun rs f =
     bind_cpp (ReadMeta mono_sec META_READ_TIMEOUT rs (fs_demuxer f)) (\<lambda>res.
     case res of
       None \<Rightarrow> Ret None
     | Some ((ret, meta, dm), rest) \<Rightarrow>
         let f1 = f\<lparr>fs_demuxer := dm, fs_meta := (case meta of Some m \<Rightarrow> m | None \<Rightarrow> fs_meta f)\<rparr>
         in if ret \<noteq> 0 then Ret (Some ((ret, close_fs (set_state E SOURCE_STREAM_STATE_ERR f1)), rest))
            else if sm_play_type (fs_meta f1) = STREAM_PLAY_TYPE_REPLAY
            then Ret (Some ((ret, close_fs (set_state E SOURCE_STREAM_STATE_ERR f1)), rest))
            else Ret (Some (start_threads E src_thread live_thread on_error_fun f1, rest)))"

definition Start_fs ::
  "'b src_env \<Rightarrow> open_env \<Rightarrow> int \<Rightarrow> nat option \<Rightarrow> nat option \<Rightarrow> bool \<Rightarrow> av_read list \<Rightarrow> 'b FFmpegDemuxerSource \<Rightarrow>
     ((int \<times> 'b FFmpegDemuxerSource) \<times> av_read list) option cpp" where
  "Start_fs E oe mono_sec src_thread live_thread on_error_fun rs f =
     (if fs_is_started f then Ret (Some ((0, f), rs))
      else
        let play_mode = (if fs_native_frame_rate f then PLAY_MODE_LIVE else PLAY_MODE_AUTO);
            f1 = set_state E SOURCE_STREAM_STATE_CONNECTING f
        in bind_cpp (Open_demuxer oe (fs_io_timeout f1) play_mode (set_io_enabled True (fs_demuxer f1))) (\<lambda>(ret, dm).
           let f2 = f1\<lparr>fs_demuxer := dm\<rparr>
           in if ret \<noteq> 0 then Ret (Some ((ret, set_state E SOURCE_STREAM_STATE_ERR_CONNECT_FAIL f2), rs))
              else start_read E mono_sec src_thread live_thread on_error_fun rs f2))"

text \<open>\<open>Stop\<close> as seen by its caller once the thread has ended.\<close>

definition Stop_fs :: "'b FFmpegDemuxerSource \<Rightarrow> 'b FFmpegDemuxerSource" where
  "Stop_fs f =
     (if \<not> fs_is_started f then f
      else
        let f1 = f\<lparr>fs_is_started := False, fs_demuxer := set_io_enabled False (fs_demuxer f)\<rparr>;
            f2 = (if fs_live_thread_id f1 \<noteq> 0 then f1\<lparr>fs_live_thread_id := 0\<rparr> else f1);
            f3 = f2\<lparr>fs_on_error_fun := False, fs_source := Stop (fs_source f2)\<rparr>
        in close_fs (f3\<lparr>fs_demuxer := set_io_enabled True (fs_demuxer f3)\<rparr>))"

fun find_video :: "nat \<Rightarrow> SubStreamMetadata list \<Rightarrow> int" where
  "find_video i [] = 0"
| "find_video i (m # ms) = (if ss_media_type m = SUB_STREAM_MEIDA_TYPE_VIDEO then int i else find_video (i + 1) ms)"

definition FindDefaultStreamIndex :: "StreamMetadata \<Rightarrow> int" where
  "FindDefaultStreamIndex meta = find_video 0 (sm_sub_streams meta)"

section \<open>The thread\<close>

text \<open>One pass of the loop: \<open>lp_started\<close> and \<open>lp_started_err\<close> are \<open>is_started_\<close> at the head of the loop and after
  an error, \<open>lp_waits\<close> its readings while the thread waits for the time of a frame, each with the clock after the sleep, and
  \<open>lp_started_wait\<close> its reading after that.\<close>

record 'b live_env =
  lp_env :: "'b src_env"
  lp_started :: bool
  lp_started_err :: bool
  lp_mono :: int
  lp_now :: "int \<times> int"
  lp_waits :: "(bool \<times> int \<times> int) list"
  lp_started_wait :: bool

definition before_time :: "int \<times> int \<Rightarrow> MediaFrameInfo \<Rightarrow> bool" where
  "before_time now fi \<longleftrightarrow> fst now < fi_tv_sec fi \<or> fst now = fi_tv_sec fi \<and> snd now < fi_tv_usec fi"

fun wait_loop :: "MediaFrameInfo \<Rightarrow> (bool \<times> int \<times> int) list \<Rightarrow> int \<times> int \<Rightarrow> (int \<times> int) option" where
  "wait_loop fi [] now = (if before_time now fi then None else Some now)"
| "wait_loop fi ((started, clock) # ws) now =
     (if before_time now fi then if \<not> started then Some now else wait_loop fi ws clock else Some now)"

text \<open>The data of a packet that lies in the parser's buffer are gone when the parser has used the buffer for
  another packet.\<close>

definition pkt_blob :: "FFmpegDemuxer \<Rightarrow> AVPacket \<Rightarrow> blob cpp" where
  "pkt_blob dm pkt =
     (if pkt_in_key_buf pkt \<and>
         \<not> (0 \<le> pkt_stream_index pkt \<and> nat (pkt_stream_index pkt) < length (dm_stream_parsers dm) \<and>
            (case sp_kind (dm_stream_parsers dm ! nat (pkt_stream_index pkt)) of
               H264or5_Parser _ buf _ \<Rightarrow> buf = pkt_data pkt | _ \<Rightarrow> False))
      then Undef
      else if nat (pkt_size pkt) > length (pkt_data pkt) then Undef
      else Ret (Some (text_of (take (nat (pkt_size pkt)) (pkt_data pkt)))))"

text \<open>What a pass leads to: the next one, or the end of the loop with the value of \<open>ret\<close>; or the thread still waits.\<close>

datatype live_next = Live_continue int | Live_break int | Live_waiting

definition gap_too_much :: "int \<times> int \<Rightarrow> MediaFrameInfo \<Rightarrow> int \<Rightarrow> bool" where
  "gap_too_much now fi gap \<longleftrightarrow> fi_tv_sec fi \<le> fst now - gap \<or> fi_tv_sec fi \<ge> fst now + gap"

definition send_frame ::
  "'b live_env \<Rightarrow> int \<times> int \<Rightarrow> MediaFrameInfo \<Rightarrow> AVPacket \<Rightarrow> 'b FFmpegDemuxerSource \<Rightarrow> (live_next \<times> (int \<times> int) \<times> 'b FFmpegDemuxerSource) cpp" where
  "send_frame L now fi pkt f =
     (let now1 = (if fs_local_gap_max_time f > 0 then lp_now L else now)
      in if fs_local_gap_max_time f > 0 \<and> gap_too_much now1 fi (fs_local_gap_max_time f)
         then Ret (Live_break FFMPEG_SOURCE_ERR_GAP, now1, set_state (lp_env L) SOURCE_STREAM_STATE_ERR_TIME f)
         else
           let waits = (fs_native_frame_rate f \<and> fi_sub_stream_index fi = fs_default_stream_index f)
           in case (if waits then wait_loop fi (lp_waits L) now1 else Some now1) of
                None \<Rightarrow> Ret (Live_waiting, now1, f)
              | Some now2 \<Rightarrow>
                  if waits \<and> \<not> lp_started_wait L then Ret (Live_break 0, now2, f)
                  else
                    bind_cpp (pkt_blob (fs_demuxer f) pkt) (\<lambda>blob.
                    bind_cpp (SendLiveMediaFrame (se_codec (lp_env L)) fi blob (fs_source f)) (\<lambda>(ret, s).
                    if ret \<noteq> 0
                    then Ret (Live_break FFMPEG_SOURCE_ERR_GENERAL, now2, set_state (lp_env L) SOURCE_STREAM_STATE_ERR (f\<lparr>fs_source := s\<rparr>))
                    else Ret (Live_continue 0, now2, f\<lparr>fs_source := s\<rparr>))))"

text \<open>The metadata of the demuxer is read again after a packet that has changed it.\<close>

definition refresh_meta ::
  "'b live_env \<Rightarrow> bool option \<Rightarrow> av_read list \<Rightarrow> 'b FFmpegDemuxerSource \<Rightarrow> (live_next \<times> 'b FFmpegDemuxerSource \<times> av_read list) cpp" where
  "refresh_meta L changed rs f =
     (if changed = Some True then
        bind_cpp (ReadMeta (lp_mono L) META_READ_TIMEOUT rs (fs_demuxer f)) (\<lambda>res.
        case res of
          None \<Rightarrow> Ret (Live_waiting, f, rs)
        | Some ((ret, meta, dm), rest) \<Rightarrow>
            let f1 = f\<lparr>fs_demuxer := dm, fs_meta := (case meta of Some m \<Rightarrow> m | None \<Rightarrow> fs_meta f)\<rparr>
            in if ret \<noteq> 0 then Ret (Live_break ret, set_state (lp_env L) SOURCE_STREAM_STATE_ERR f1, rest)
               else Ret (Live_continue 0, f1\<lparr>fs_source := set_stream_meta (fs_meta f1) (fs_source f1)\<rparr>, rest))
      else Ret (Live_continue 0, f, rs))"

definition live_pass ::
  "'b live_env \<Rightarrow> av_read list \<Rightarrow> int \<times> int \<Rightarrow> 'b FFmpegDemuxerSource \<Rightarrow>
     (live_next \<times> (int \<times> int) \<times> 'b FFmpegDemuxerSource \<times> av_read list) cpp" where
  "live_pass L rs now f =
     bind_cpp (ReadPacket rs (fs_demuxer f)) (\<lambda>res.
     case res of
       None \<Rightarrow> Ret (Live_waiting, now, f, rs)
     | Some ((ret, node, changed, dm), rest) \<Rightarrow>
         let f1 = f\<lparr>fs_demuxer := dm\<rparr>
         in if ret \<noteq> 0 then
              if ret = FFMPEG_SOURCE_ERR_IO \<and> \<not> lp_started_err L then Ret (Live_break ret, now, f1, rest)
              else if ret = FFMPEG_SOURCE_ERR_DROP then Ret (Live_continue ret, now, f1, rest)
              else Ret (Live_break ret, now, set_state (lp_env L) SOURCE_STREAM_STATE_ERR_MEIDA_STOP f1, rest)
            else
              case node of
                None \<Rightarrow> Undef
              | Some (fi, pkt) \<Rightarrow>
                  bind_cpp (refresh_meta L changed rest f1) (\<lambda>(next1, f2, rest1).
                  if next1 \<noteq> Live_continue 0 then Ret (next1, now, f2, rest1)
                  else bind_cpp (send_frame L now fi pkt f2) (\<lambda>(next2, now2, f3). Ret (next2, now2, f3, rest1))))"

text \<open>The loop. \<open>now\<close> is not initialized before it. The result is the value of \<open>ret\<close> at the end, or \<open>None\<close> while
  the thread runs.\<close>

fun live_loop ::
  "'b live_env list \<Rightarrow> int \<Rightarrow> av_read list \<Rightarrow> int \<times> int \<Rightarrow> 'b FFmpegDemuxerSource \<Rightarrow> (int option \<times> 'b FFmpegDemuxerSource \<times> av_read list) cpp" where
  "live_loop [] ret rs now f = Ret (None, f, rs)"
| "live_loop (L # Ls) ret rs now f =
     (if \<not> lp_started L then Ret (Some ret, f, rs)
      else bind_cpp (live_pass L rs now f) (\<lambda>(next1, now1, f1, rest).
        case next1 of
          Live_continue ret1 \<Rightarrow> live_loop Ls ret1 rest now1 f1
        | Live_break ret1 \<Rightarrow> Ret (Some ret1, f1, rest)
        | Live_waiting \<Rightarrow> Ret (None, f1, rest)))"

definition InternalLiveRoutine ::
  "'b live_env list \<Rightarrow> bool \<Rightarrow> av_read list \<Rightarrow> int \<times> int \<Rightarrow> 'b FFmpegDemuxerSource \<Rightarrow> (bool \<times> 'b FFmpegDemuxerSource \<times> av_read list) cpp" where
  "InternalLiveRoutine Ls started rs garbage f =
     bind_cpp (live_loop Ls 0 rs garbage f) (\<lambda>(end_ret, f1, rest).
     case end_ret of
       None \<Rightarrow> Ret (False, f1, rest)
     | Some ret \<Rightarrow>
         Ret (True, (if started \<and> ret \<noteq> 0 \<and> fs_on_error_fun f1 then f1\<lparr>fs_error_calls := fs_error_calls f1 @ [ret]\<rparr> else f1), rest))"

end
