(* ===== verification/Nal_Properties.thy ===== *)
theory Nal_Properties
  imports Nal_Parser Bit_Reader_Properties
begin

text \<open>
  Properties of the parsers of the FFmpeg source: the time stamps of a live stream, the conversion of the
  configuration and of the packets of MP4 files to streams of units with start codes, and the
  parameter sets that are taken from a key frame.
\<close>

section \<open>Time stamps\<close>

text \<open>C38: the frames that a live stream delivers, whatever the class of its parser, have valid times that
  never run backwards, even where the time stamps of the packets do.\<close>

theorem live_times_ordered:
  assumes "\<forall>e \<in> set es. event_ok e" "time_inv dm p" "parse_run Parse_packet es dm p = Ret (fs, dm1, p1)"
  shows "(\<forall>f \<in> set fs. 0 \<le> fi_tv_usec f \<and> fi_tv_usec f < 1000000) \<and> sorted (map frame_micro fs)"
  using pk.run_sorted [OF assms] by blast

text \<open>C28: no drift of a live stream in steady state. When the parser has seen a key frame and a packet with a
  time stamp, the further packets (none of them corrupt, each with a time stamp, in order and less than 61 seconds
  after the one before, with the same time base \<open>num / den\<close>), if their parsing is defined, all become frames, and the
  time of the last frame, measured from the last time before them, lags behind the time stamp of its packet by
  at most \<open>1 - 1 / den\<close> microseconds for each of these packets.\<close>

theorem live_time_drift:
  assumes "steady num den es (sp_last_pts p)" "es \<noteq> []" "time_inv dm p" "sp_last_pts p \<noteq> AV_NOPTS_VALUE" "sp_gop_started p"
    "0 < den" "den < 2 ^ 31" "parse_run Parse_packet es dm p = Ret (fs, dm1, p1)"
  shows "length fs = length es \<and>
    0 \<le> (sp_last_pts p1 - sp_last_pts p) * num * 1000000 - den * (frame_micro (last fs) - last_micro p) \<and>
    (sp_last_pts p1 - sp_last_pts p) * num * 1000000 - den * (frame_micro (last fs) - last_micro p) \<le> int (length es) * (den - 1)"
proof -
  note d = pk.run_drift [OF assms(1,3-8)]
  then have "fs \<noteq> []" using assms(2) by (metis length_0_conv)
  with d show ?thesis by metis
qed

definition demo_stream :: AVStream where
  "demo_stream = \<lparr>av_codec_id = AV_CODEC_ID_AAC, av_codec_type = AVMEDIA_TYPE_AUDIO, av_width = 0, av_height = 0,
     av_channels = 1, av_sample_rate = 8000, av_bits_per_raw_sample = 16, av_extradata = [], av_time_base_num = 1,
     av_time_base_den = 90000, av_avg_frame_rate_num = 0, av_avg_frame_rate_den = 0\<rparr>"

definition demo_packet :: "int \<Rightarrow> AVPacket" where
  "demo_packet pts = \<lparr>pkt_stream_index = 0, pkt_data = [1, 2, 3], pkt_size = 3, pkt_pts = pts, pkt_duration = 0, pkt_key = True,
     pkt_corrupt = False, pkt_in_key_buf = False\<rparr>"

definition demo_demuxer :: FFmpegDemuxer where
  "demo_demuxer = \<lparr>dm_io_enabled = True, dm_open = True, dm_io_start_sec = 0, dm_io_start_nsec = 0, dm_io_timeout = 0,
     dm_meta = new_StreamMetadata, dm_stream_parsers = [], dm_cached_pkts = [], dm_ssrc = 0, dm_base_pts = AV_NOPTS_VALUE,
     dm_base_sec = 0, dm_base_usec = 0\<rparr>"

definition demo_parser :: StreamParser where
  "demo_parser = snd (base_Init demo_demuxer 0 (new_StreamParser Plain_Parser))"

lemma demo_run:
  "parse_run Parse_packet [(7, 999999, demo_stream, demo_packet 1000), (8, 0, demo_stream, demo_packet 91001), (9, 0, demo_stream, demo_packet 5)]
     demo_demuxer demo_parser =
   Ret ([\<lparr>fi_sub_stream_index = 0, fi_frame_type = MEDIA_FRAME_TYPE_KEY_FRAME, fi_tv_sec = 7, fi_tv_usec = 999999, fi_ssrc = 0\<rparr>,
     \<lparr>fi_sub_stream_index = 0, fi_frame_type = MEDIA_FRAME_TYPE_KEY_FRAME, fi_tv_sec = 9, fi_tv_usec = 10, fi_ssrc = 0\<rparr>,
     \<lparr>fi_sub_stream_index = 0, fi_frame_type = MEDIA_FRAME_TYPE_KEY_FRAME, fi_tv_sec = 9, fi_tv_usec = 10, fi_ssrc = 0\<rparr>],
     demo_demuxer\<lparr>dm_base_pts := 1000, dm_base_sec := 7, dm_base_usec := 999999\<rparr>,
     demo_parser\<lparr>sp_gop_started := True, sp_last_pts := 5, sp_last_live_sec := 9, sp_last_live_usec := 10\<rparr>)"
  by code_simp


theorem live_times_ordered_witness:
  "sorted (map frame_micro [\<lparr>fi_sub_stream_index = 0, fi_frame_type = MEDIA_FRAME_TYPE_KEY_FRAME, fi_tv_sec = 7, fi_tv_usec = 999999, fi_ssrc = 0\<rparr>,
     \<lparr>fi_sub_stream_index = 0, fi_frame_type = MEDIA_FRAME_TYPE_KEY_FRAME, fi_tv_sec = 9, fi_tv_usec = 10, fi_ssrc = 0\<rparr>,
     \<lparr>fi_sub_stream_index = 0, fi_frame_type = MEDIA_FRAME_TYPE_KEY_FRAME, fi_tv_sec = 9, fi_tv_usec = 10, fi_ssrc = 0\<rparr>])"
  by (rule live_times_ordered [THEN conjunct2, OF _ _ demo_run])
     (simp_all add: event_ok_def stream_ok_def demo_stream_def time_inv_def demo_demuxer_def demo_parser_def base_Init_def
       new_StreamParser_def new_StreamMetadata_def)

text \<open>Two frames at 30000/1001 frames a second: each is a fraction of a microsecond late.\<close>

definition demo_started :: StreamParser where
  "demo_started = demo_parser\<lparr>sp_gop_started := True, sp_last_pts := 0, sp_last_live_sec := 7, sp_last_live_usec := 999999\<rparr>"

lemma demo_drift_run:
  "parse_run Parse_packet [(7, 0, demo_stream, demo_packet 3003), (7, 0, demo_stream, demo_packet 6006)] demo_demuxer demo_started =
   Ret ([\<lparr>fi_sub_stream_index = 0, fi_frame_type = MEDIA_FRAME_TYPE_KEY_FRAME, fi_tv_sec = 8, fi_tv_usec = 33365, fi_ssrc = 0\<rparr>,
     \<lparr>fi_sub_stream_index = 0, fi_frame_type = MEDIA_FRAME_TYPE_KEY_FRAME, fi_tv_sec = 8, fi_tv_usec = 66731, fi_ssrc = 0\<rparr>],
     demo_demuxer\<lparr>dm_base_pts := 3003, dm_base_sec := 7, dm_base_usec := 0\<rparr>,
     demo_started\<lparr>sp_last_pts := 6006, sp_last_live_sec := 8, sp_last_live_usec := 66731\<rparr>)"
  by code_simp

theorem live_time_drift_witness:
  "(6006 - 0) * 1 * 1000000 - 90000 * (frame_micro \<lparr>fi_sub_stream_index = 0, fi_frame_type = MEDIA_FRAME_TYPE_KEY_FRAME,
      fi_tv_sec = 8, fi_tv_usec = 66731, fi_ssrc = 0\<rparr> - last_micro demo_started) \<le> (2 :: int) * (90000 - 1)"
  using live_time_drift [OF _ _ _ _ _ _ _ demo_drift_run, of 1 90000]
  by (simp add: event_ok_def stream_ok_def demo_stream_def demo_packet_def time_inv_def demo_demuxer_def demo_started_def demo_parser_def
       base_Init_def new_StreamParser_def new_StreamMetadata_def AV_NOPTS_VALUE_def)


section \<open>Units of MP4 files\<close>

text \<open>A stream of units with start codes; the configuration record of an MP4 file, which has the sequence and the
  picture parameter sets behind sizes of two bytes; and a packet of an MP4 file, which has its units behind
  sizes of four bytes.\<close>

definition annexb :: "u8 list list \<Rightarrow> u8 list" where
  "annexb us = concat (map (\<lambda>u. start_code @ u) us)"

definition size16 :: "nat \<Rightarrow> u8 list" where
  "size16 n = [word_of_nat (n div 256), word_of_nat n]"

definition size32 :: "nat \<Rightarrow> u8 list" where
  "size32 n = map (\<lambda>k. word_of_nat (drop_bit k n)) [24, 16, 8, 0]"

definition sized :: "(nat \<Rightarrow> u8 list) \<Rightarrow> u8 list list \<Rightarrow> u8 list" where
  "sized sz us = concat (map (\<lambda>u. sz (length u) @ u) us)"

definition avcc_record :: "u8 \<Rightarrow> u8 \<Rightarrow> u8 \<Rightarrow> u8 list list \<Rightarrow> u8 list list \<Rightarrow> u8 list" where
  "avcc_record profile flags level sps pps =
     [1, profile, flags, level, 0xFF, 0xE0 OR word_of_nat (length sps)] @ sized size16 sps @
     [word_of_nat (length pps)] @ sized size16 pps"

lemma annexb_simps [simp]: "annexb [] = []" "annexb (u # us) = 0 # 0 # 0 # 1 # u @ annexb us" "annexb (us @ vs) = annexb us @ annexb vs"
  by (simp_all add: annexb_def)

lemma sized_simps [simp]: "sized sz [] = []" "sized sz (u # us) = sz (length u) @ u @ sized sz us"
  by (simp_all add: sized_def)

lemma length_size [simp]: "length (size16 n) = 2" "length (size32 n) = 4"
  by (simp_all add: size16_def size32_def)

lemma RB16_size16: "n < 65536 \<Longrightarrow> RB16 (pre @ size16 n @ r) (length pre) = n"
  by (simp add: RB16_def size16_def nth_append unat_of_nat)

lemma word_of_size32:
  "push_bit 24 (ucast (word_of_nat (drop_bit 24 n) :: u8)) OR push_bit 16 (ucast (word_of_nat (drop_bit 16 n) :: u8)) OR
     push_bit 8 (ucast (word_of_nat (drop_bit 8 n) :: u8)) OR ucast (word_of_nat n :: u8) = (word_of_nat n :: u32)"
proof (rule bit_word_eqI)
  fix k assume k: "k < LENGTH(32)"
  then consider "k < 8" | "8 \<le> k" "k < 16" | "16 \<le> k" "k < 24" | "24 \<le> k" "k < 32" by fastforce
  then show "bit (push_bit 24 (ucast (word_of_nat (drop_bit 24 n) :: u8)) OR push_bit 16 (ucast (word_of_nat (drop_bit 16 n) :: u8)) OR
     push_bit 8 (ucast (word_of_nat (drop_bit 8 n) :: u8)) OR ucast (word_of_nat n :: u8) :: u32) k = bit (word_of_nat n :: u32) k"
    by cases (auto simp: bit_simps)
qed

lemma be32_size32:
  assumes "n < 2 ^ 31"
  shows "be32 (pre @ size32 n @ r) (length pre) = int n"
proof -
  have "be32 (pre @ size32 n @ r) (length pre) = sint (word_of_nat n :: u32)"
    unfolding be32_def by (simp add: size32_def nth_append word_of_size32)
  also have "\<dots> = int n" using assms by (simp add: signed_of_nat signed_take_bit_int_eq_self)
  finally show ?thesis .
qed

lemma avcc_units_sized:
  assumes "\<forall>u \<in> set us. length u < 65536"
  shows "avcc_units (pre @ sized size16 us @ post) (length us) (length pre) acc =
    Ret (Some (length (pre @ sized size16 us), acc @ annexb us))"
  using assms
proof (induction us arbitrary: pre acc)
  case (Cons u us)
  let ?b = "pre @ sized size16 (u # us) @ post"
  have s: "RB16 (pre @ size16 (length u) @ u @ sized size16 us @ post) (length pre) = length u"
    using Cons.prems by (simp add: RB16_size16)
  have "avcc_units ?b (Suc (length us)) (length pre) acc =
      avcc_units ?b (length us) (length pre + 2 + length u) (acc @ start_code @ u)"
    by (simp add: s Let_def)
  also have "\<dots> = Ret (Some (length (pre @ sized size16 (u # us)), acc @ annexb (u # us)))"
    using Cons.IH [of "pre @ size16 (length u) @ u" "acc @ start_code @ u"] Cons.prems by (simp add: add.assoc)
  finally show ?case by simp
qed simp

lemma sps_count: "n < 32 \<Longrightarrow> unat ((0xE0 OR word_of_nat n :: u8) AND 0x1F) = n"
proof -
  assume n: "n < 32"
  have "(0x1F :: u8) = mask 5" by (simp add: mask_eq_exp_minus_1)
  then have "(0xE0 OR word_of_nat n :: u8) AND 0x1F = word_of_nat n AND mask 5"
    by (simp add: bit.conj_disj_distrib2)
  then show ?thesis using n by (simp add: unat_of_nat take_bit_eq_mask [symmetric] unsigned_take_bit_eq take_bit_nat_eq_self)
qed

text \<open>The configuration record is converted without loss.\<close>

lemma AvcC_record:
  assumes "length sps < 32" "length pps < 256" "\<forall>u \<in> set (sps @ pps). length u < 65536"
  shows "AvcCToAnnexB (avcc_record profile flags level sps pps) = Ret (0, annexb (sps @ pps))"
proof -
  define h where "h = [1, profile, flags, level, 0xFF, 0xE0 OR word_of_nat (length sps)]"
  define b where "b = h @ sized size16 sps @ [word_of_nat (length pps)] @ sized size16 pps"
  have h: "length h = 6" "h ! 5 = 0xE0 OR word_of_nat (length sps)" by (simp_all add: h_def)
  have u1: "avcc_units b (length sps) 6 [] = Ret (Some (6 + length (sized size16 sps), annexb sps))"
    using avcc_units_sized [of sps h "[word_of_nat (length pps)] @ sized size16 pps" "[]"] assms(3)
    unfolding b_def by (simp add: h)
  have u2: "avcc_units b (length pps) (6 + length (sized size16 sps) + 1) (annexb sps) =
      Ret (Some (length b, annexb sps @ annexb pps))"
    using avcc_units_sized [of pps "h @ sized size16 sps @ [word_of_nat (length pps)]" "[]" "annexb sps"] assms(3)
    unfolding b_def by (simp add: h)
  have n: "b ! (6 + length (sized size16 sps)) = word_of_nat (length pps)" "b ! 5 = 0xE0 OR word_of_nat (length sps)"
    "6 + length (sized size16 sps) < length b"
    using h by (simp_all add: b_def nth_append)
  have "avcc_record profile flags level sps pps = b" by (simp add: avcc_record_def b_def h_def)
  moreover have "unat (word_of_nat (length pps) :: u8) = length pps" using assms(2) by (simp add: unat_of_nat)
  ultimately show ?thesis using u1 u2 n assms(1) by (simp add: AvcCToAnnexB_def sps_count)
qed


text \<open>The sizes in front of the units of a packet are replaced with start codes.\<close>

lemma avc1_loop_sized:
  assumes "us \<noteq> []" "\<forall>u \<in> set us. u \<noteq> [] \<and> length u < 2 ^ 31" "sz = int (length (pre @ sized size32 us))"
  shows "avc1_loop (pre @ sized size32 us) (length pre) sz = Ret (pre @ annexb us)"
  using assms
proof (induction us arbitrary: pre)
  case (Cons u us)
  let ?d = "pre @ size32 (length u) @ u @ sized size32 us"
  have s: "be32 ?d (length pre) = int (length u)" using Cons.prems(2) be32_size32 [of "length u" pre] by simp
  have c: "put_start_code ?d (length pre) = (pre @ start_code @ u) @ sized size32 us"
    by (simp add: put_start_code_def)
  show ?case
  proof (cases us)
    case Nil
    with s c Cons.prems(3) show ?thesis by (subst avc1_loop.simps) (simp add: Let_def)
  next
    case (Cons v vs)
    with Cons.prems(2) have "v \<noteq> []" by simp
    moreover have "sz = int (length pre + 8 + length u + length v + length (sized size32 vs))"
      using Cons.prems(3) Cons by simp
    ultimately have g: "\<not> int (length pre) + 4 + int (length u) \<ge> sz - 4" by (simp add: length_greater_0_conv [symmetric] del: length_greater_0_conv)
    have "avc1_loop ?d (length pre) sz = avc1_loop ((pre @ start_code @ u) @ sized size32 us) (length (pre @ start_code @ u)) sz"
      using g by (subst avc1_loop.simps) (simp add: s c Let_def nat_add_distrib eval_nat_numeral)
    also have "\<dots> = Ret ((pre @ start_code @ u) @ annexb us)"
      using Cons.prems Cons by (intro Cons.IH) auto
    finally show ?thesis by simp
  qed
qed simp

definition packet_sized :: "AVPacket \<Rightarrow> u8 list list \<Rightarrow> bool" where
  "packet_sized pkt us \<longleftrightarrow> us \<noteq> [] \<and> (\<forall>u \<in> set us. u \<noteq> [] \<and> length u < 2 ^ 31) \<and> length (hd us) \<noteq> 1 \<and>
     pkt_data pkt = sized size32 us \<and> pkt_size pkt = int (length (pkt_data pkt))"

lemma size32_start: "n < 2 ^ 31 \<Longrightarrow> size32 n = start_code \<Longrightarrow> n = 1"
proof -
  assume "n < 2 ^ 31" "size32 n = start_code"
  then have "int n = be32 start_code 0" using be32_size32 [of n "[]" "[]"] by simp
  also have "\<dots> = 1" by (simp add: be32_def)
  finally show "n = 1" by simp
qed

lemma length_sized_annexb: "length (sized size32 us) = length (annexb us)"
  by (induction us) simp_all

lemma Parse_data_sized:
  assumes "packet_sized pkt us"
  shows "Parse_h264or5_data pkt = Ret (annexb us)"
proof -
  obtain u vs where us: "us = u # vs" using assms by (cases us) (auto simp: packet_sized_def)
  then have "take 4 (pkt_data pkt) = size32 (length u)" using assms by (simp add: packet_sized_def)
  moreover have "length u < 2 ^ 31" "length u \<noteq> 1" using assms us by (auto simp: packet_sized_def)
  ultimately have "take 4 (pkt_data pkt) \<noteq> start_code" using size32_start by metis
  then show ?thesis using avc1_loop_sized [of us "pkt_size pkt" "[]"] assms
    by (auto simp: Parse_h264or5_data_def packet_sized_def us)
qed

definition key_buf :: "StreamParser \<Rightarrow> nat \<Rightarrow> u8 list \<Rightarrow> bool" where
  "key_buf p h extra \<longleftrightarrow> (\<exists>buf. sp_kind p = H264or5_Parser h buf (length extra) \<and> take (length extra) buf = extra)"

lemma resize_key_buf: "take n buf = extra \<Longrightarrow> n = length extra \<Longrightarrow> resize n buf = extra"
  by (auto simp: resize_def) (metis diff_is_0_eq length_take min.absorb_iff2 nat_le_linear min_def)

lemma add_header_key_buf:
  assumes "key_buf p h extra" "add_header pkt p = Ret (pkt1, p1)"
  shows "key_buf p1 h extra"
  using assms by (auto simp: key_buf_def add_header_def Let_def resize_key_buf split: if_splits)

lemma frame_info_keeps: "DoUpdateFrameInfo now_sec now_usec st pkt dm p = Ret (ret, fi, dm1, p1) \<Longrightarrow>
  dm_meta dm1 = dm_meta dm \<and> dm_stream_parsers dm1 = dm_stream_parsers dm \<and> sp_stream_index p1 = sp_stream_index p \<and> sp_is_init p1 = sp_is_init p \<and>
  sp_kind p1 = sp_kind p"
  by (auto simp: DoUpdateFrameInfo_def live_time_def replay_time_def bind_cpp_Ret_conv Let_def split: if_splits prod.splits)

lemma base_Parse_keeps:
  "base_Parse upd now_sec now_usec st pkt dm p = Ret (ret, fi, pkt1, c, dm1, p1) \<Longrightarrow> sp_kind p1 = sp_kind p \<and> pkt1 = pkt"
  by (auto simp: base_Parse_def bind_cpp_Ret_conv Let_def split: if_splits prod.splits dest!: frame_info_keeps)

lemma Parse_packet_key_buf:
  assumes "key_buf p h extra" "Parse_packet now_sec now_usec st pkt dm p = Ret (ret, fi, pkt1, c, dm1, p1)"
  shows "key_buf p1 h extra"
proof -
  obtain d pkt2 p2 where "add_header (pkt\<lparr>pkt_data := d\<rparr>) p = Ret (pkt2, p2)"
    "base_Parse DoUpdateMeta now_sec now_usec st pkt2 dm p2 = Ret (ret, fi, pkt1, c, dm1, p1)"
    using assms by (auto simp: key_buf_def Parse_packet_def bind_cpp_Ret_conv)
  with base_Parse_keeps add_header_key_buf [OF assms(1)] show ?thesis by (fastforce simp: key_buf_def)
qed

lemma parse_run_key_buf:
  "key_buf p h extra \<Longrightarrow> parse_run Parse_packet es dm p = Ret (fs, dm1, p1) \<Longrightarrow> key_buf p1 h extra"
proof (induction es arbitrary: dm p fs)
  case (Cons e es)
  from Cons.prems(2) obtain a b st pkt ret fi pkt1 c dm2 p2 fs2 where
    "Parse_packet a b st pkt dm p = Ret (ret, fi, pkt1, c, dm2, p2)" "parse_run Parse_packet es dm2 p2 = Ret (fs2, dm1, p1)"
    by (cases e) (auto simp: bind_cpp_Ret_conv)
  with Cons.IH Parse_packet_key_buf [OF Cons.prems(1)] show ?case by blast
qed simp


text \<open>C27: an H.264 stream of an MP4 file: the configuration record becomes the extra data of the sub stream, as units
  with start codes, and however many packets have been read since, a key frame that begins with a coded slice is
  delivered as the parameter sets of the record followed by its units, all with start codes.\<close>

theorem mp4_key_frame:
  assumes "length sps < 32" "length pps < 256" "\<forall>u \<in> set (sps @ pps). length u < 65536" "sps \<noteq> []"
    "av_codec_id st0 = AV_CODEC_ID_H264" "0 \<le> i" "nat i < length (sm_sub_streams (dm_meta dm))"
    "ss_extra_data (sm_sub_streams (dm_meta dm) ! nat i) = text_of (avcc_record profile flags level sps pps)"
    "packet_sized pkt us" "pkt_key pkt" "IsVCL 264 (nal_type 264 (hd (hd us)))"
  shows "\<exists>dm0 p0. Init_parser st0 i dm (NewStreamParser (av_codec_id st0)) = Ret (0, dm0, p0) \<and>
    ss_extra_data (sm_sub_streams (dm_meta dm0) ! nat i) = text_of (annexb (sps @ pps)) \<and>
    (\<forall>es fs dm1 p1. parse_run Parse_packet es dm0 p0 = Ret (fs, dm1, p1) \<longrightarrow>
       (\<exists>p2. Parse_packet now_sec now_usec st pkt dm1 p1 =
          base_Parse DoUpdateMeta now_sec now_usec st
            (pkt\<lparr>pkt_data := annexb (sps @ pps @ us), pkt_size := int (length (annexb (sps @ pps @ us))), pkt_in_key_buf := True\<rparr>) dm1 p2))"
proof -
  let ?e = "annexb (sps @ pps)"
  have "bytes_of (ss_extra_data (sm_sub_streams (dm_meta dm) ! nat i)) = avcc_record profile flags level sps pps" using assms(8) by simp
  moreover have "ss_extra_data (sm_sub_streams (dm_meta dm) ! nat i) \<noteq> []" "hd (avcc_record profile flags level sps pps) = 1"
    using assms(8) by (simp_all add: avcc_record_def text_of_def)
  ultimately obtain dm0 p0 where init: "Init_parser st0 i dm (NewStreamParser (av_codec_id st0)) = Ret (0, dm0, p0)"
    and e: "ss_extra_data (sm_sub_streams (dm_meta dm0) ! nat i) = text_of ?e" and k: "key_buf p0 264 ?e"
    using assms(5-7) AvcC_record [OF assms(1-3)]
    by (simp add: Init_parser_def NewStreamParser_def new_StreamParser_def Init_h264or5_def sub_stream_def base_Init_def Let_def
        set_sub_stream_def key_buf_def)
  have u: "\<exists>u vs. us = u # vs \<and> 2 \<le> length u"
  proof (cases us)
    case (Cons u vs)
    then have "length u \<noteq> 0" "length u \<noteq> 1" using assms(9) by (auto simp: packet_sized_def)
    with Cons show ?thesis by (metis One_nat_def less_2_cases_iff not_less)
  qed (use assms(9) in \<open>simp add: packet_sized_def\<close>)
  have "\<exists>p2. Parse_packet now_sec now_usec st pkt dm1 p1 = base_Parse DoUpdateMeta now_sec now_usec st
      (pkt\<lparr>pkt_data := annexb (sps @ pps @ us), pkt_size := int (length (annexb (sps @ pps @ us))), pkt_in_key_buf := True\<rparr>) dm1 p2"
    if run: "parse_run Parse_packet es dm0 p0 = Ret (fs, dm1, p1)" for es fs dm1 p1
  proof -
    obtain buf where kind: "sp_kind p1 = H264or5_Parser 264 buf (length ?e)" and b: "resize (length ?e) buf = ?e"
      using parse_run_key_buf [OF k run] resize_key_buf unfolding key_buf_def by blast
    have l: "nat (pkt_size pkt) = length (annexb us)" "pkt_size pkt > 5"
      using assms(9) u by (auto simp: packet_sized_def length_sized_annexb)
    have v: "annexb us ! 4 = hd (hd us)" using u by (auto simp: hd_conv_nth nth_append)
    have "?e \<noteq> []" using assms(4) by (cases sps) simp_all
    with kind b l v assms(10,11) show ?thesis
      by (simp add: Parse_packet_def Parse_data_sized [OF assms(9)] add_header_def Let_def) blast
  qed
  with init e show ?thesis by blast
qed


definition demo_video :: AVStream where
  "demo_video = demo_stream\<lparr>av_codec_id := AV_CODEC_ID_H264, av_codec_type := AVMEDIA_TYPE_VIDEO\<rparr>"

definition demo_sub_stream :: "u8 list \<Rightarrow> FFmpegDemuxer" where
  "demo_sub_stream extra = demo_demuxer\<lparr>dm_meta := new_StreamMetadata\<lparr>sm_sub_streams :=
     [new_SubStreamMetadata\<lparr>ss_extra_data := text_of extra\<rparr>]\<rparr>\<rparr>"

theorem mp4_key_frame_witness:
  "\<exists>dm0 p0. Init_parser demo_video 0 (demo_sub_stream (avcc_record 66 0 30 [[0x67, 1]] [[0x68, 2]])) (NewStreamParser AV_CODEC_ID_H264) =
      Ret (0, dm0, p0) \<and>
    ss_extra_data (sm_sub_streams (dm_meta dm0) ! 0) = text_of [0, 0, 0, 1, 0x67, 1, 0, 0, 0, 1, 0x68, 2]"
proof -
  let ?p = "(demo_packet 0)\<lparr>pkt_data := sized size32 [[0x65, 3]], pkt_size := 6\<rparr>"
  have "packet_sized ?p [[0x65, 3]]" by (simp add: packet_sized_def)
  moreover have "IsVCL 264 (nal_type 264 0x65)" by (simp add: IsVCL_def nal_type_def)
  ultimately show ?thesis
    using mp4_key_frame [of "[[0x67, 1]]" "[[0x68, 2]]" demo_video 0 "demo_sub_stream (avcc_record 66 0 30 [[0x67, 1]] [[0x68, 2]])" 66 0 30
        ?p "[[0x65, 3]]" 0 0 demo_video]
    by (simp add: demo_video_def demo_stream_def demo_sub_stream_def demo_packet_def) blast
qed


section \<open>Parameter sets in a key frame\<close>

fun no_code :: "u8 list \<Rightarrow> bool" where
  "no_code (a # b # c # d # r) = (\<not> (a = 0 \<and> b = 0 \<and> c = 0 \<and> d = 1) \<and> no_code (b # c # d # r))"
| "no_code _ = True"

definition unit_ok :: "nat \<Rightarrow> u8 list \<Rightarrow> bool" where
  "unit_ok h u \<longleftrightarrow> 2 \<le> length u \<and> no_code u \<and> \<not> IsVCL h (nal_type h (hd u))"

definition slice_ok :: "nat \<Rightarrow> u8 list \<Rightarrow> bool" where
  "slice_ok h u \<longleftrightarrow> 2 \<le> length u \<and> IsVCL h (nal_type h (hd u))"

definition has_sets :: "nat \<Rightarrow> u8 list list \<Rightarrow> bool" where
  "has_sets h us \<longleftrightarrow> (h = 265 \<longrightarrow> (\<exists>u \<in> set us. IsVPS h (nal_type h (hd u)))) \<and>
     (\<exists>u \<in> set us. IsSPS h (nal_type h (hd u))) \<and> (\<exists>u \<in> set us. IsPPS h (nal_type h (hd u)))"

lemma no_code_tail: "no_code u \<Longrightarrow> no_code (0 # 0 # 1 # u)"
  by (cases u rule: no_code.cases) simp_all

lemma no_code_suffix: "no_code (a # u) \<Longrightarrow> no_code u"
proof -
  assume n: "no_code (a # u)"
  consider "u = []" | b where "u = [b]" | b c where "u = [b, c]" | b c d v where "u = b # c # d # v"
    by (metis neq_Nil_conv)
  then show "no_code u" using n by cases auto
qed

text \<open>The bytes up to the next start code are passed over.\<close>

declare extra_scan.simps(1) [simp del]

lemma extra_scan_pass:
  "\<not> (a = 0 \<and> b = 0 \<and> c = 0 \<and> d = 1) \<Longrightarrow>
     extra_scan h p (a # b # c # d # e # r) (vps, sps, pps) = extra_scan h (p + 1) (b # c # d # e # r) (vps, sps, pps)"
  by (simp only: extra_scan.simps if_False)

lemma extra_scan_skip:
  "no_code u \<Longrightarrow> extra_scan h p (u @ start_code @ e # r) (vps, sps, pps) = extra_scan h (p + length u) (start_code @ e # r) (vps, sps, pps)"
proof (induction u arbitrary: p)
  case (Cons a u)
  have n: "no_code u" using Cons.prems by (rule no_code_suffix)
  consider "u = []" | b where "u = [b]" | b c where "u = [b, c]" | b c d v where "u = b # c # d # v"
    by (metis neq_Nil_conv)
  then show ?case
  proof cases
    case (4 b c d v)
    then have "extra_scan h p (a # b # c # d # v @ start_code @ e # r) (vps, sps, pps) =
        extra_scan h (p + 1) (b # c # d # v @ start_code @ e # r) (vps, sps, pps)"
      using Cons.prems by (cases v) (simp_all add: extra_scan_pass)
    with 4 Cons.IH [OF n, of "p + 1"] show ?thesis by simp
  qed (use Cons.IH [OF n, of "p + 1"] in \<open>simp_all add: extra_scan_pass\<close>)
qed simp

lemma set_types: "h = 264 \<or> h = 265 \<Longrightarrow> IsVPS h t \<or> IsSPS h t \<or> IsPPS h t \<Longrightarrow> \<not> IsVCL h t"
  "h = 264 \<or> h = 265 \<Longrightarrow> \<not> (IsVPS h t \<and> IsSPS h t) \<and> \<not> (IsVPS h t \<and> IsPPS h t) \<and> \<not> (IsSPS h t \<and> IsPPS h t)"
  by (auto simp: IsVPS_def IsSPS_def IsPPS_def IsVCL_def)

lemma extra_scan_code:
  assumes h: "h = 264 \<or> h = 265" and r: "r \<noteq> []"
  shows "extra_scan h p (start_code @ a # r) (vps, sps, pps) =
    (if IsVCL h (nal_type h a) then (Some p, vps, sps, pps)
     else extra_scan h (p + 1) (0 # 0 # 1 # a # r)
       (vps \<or> IsVPS h (nal_type h a), sps \<or> IsSPS h (nal_type h a), pps \<or> IsPPS h (nal_type h a)))"
proof -
  have t: "(if h = 264 then a AND 0x1F else if h = 265 \<and> r \<noteq> [] then drop_bit 1 (a AND 0x7E) else 0xFF) = nal_type h a"
    using h r by (auto simp: nal_type_def)
  show ?thesis
    unfolding append_Cons append_Nil extra_scan.simps t Let_def
    using set_types [OF h, of "nal_type h a"] by (simp del: extra_scan.simps)
qed

lemma extra_scan_unit:
  assumes h: "h = 264 \<or> h = 265" and u: "unit_ok h u"
  shows "extra_scan h p (start_code @ u @ start_code @ e # r) (vps, sps, pps) =
    extra_scan h (p + (4 + length u)) (start_code @ e # r)
      (vps \<or> IsVPS h (nal_type h (hd u)), sps \<or> IsSPS h (nal_type h (hd u)), pps \<or> IsPPS h (nal_type h (hd u)))"
proof -
  obtain a v where v: "u = a # v" using u by (cases u) (auto simp: unit_ok_def)
  have "extra_scan h p (start_code @ u @ start_code @ e # r) (vps, sps, pps) =
      extra_scan h (p + 1) ((0 # 0 # 1 # u) @ start_code @ e # r)
        (vps \<or> IsVPS h (nal_type h a), sps \<or> IsSPS h (nal_type h a), pps \<or> IsPPS h (nal_type h a))"
    using extra_scan_code [OF h, of "v @ start_code @ e # r" p a] u v by (simp add: unit_ok_def)
  then show ?thesis using extra_scan_skip [OF no_code_tail, of u h "p + 1" e r] u v by (simp add: unit_ok_def eval_nat_numeral)
qed

lemma extra_scan_slice:
  assumes h: "h = 264 \<or> h = 265" and u: "slice_ok h u"
  shows "extra_scan h p (start_code @ u @ r) (vps, sps, pps) = (Some p, vps, sps, pps)"
proof -
  obtain a b v where v: "u = a # b # v" using u by (auto simp: slice_ok_def Suc_le_length_iff numeral_2_eq_2)
  then have "IsVCL h (nal_type h a)" using u by (simp add: slice_ok_def)
  then show ?thesis using v extra_scan_code [OF h, of "b # v @ r" p a] by simp
qed

lemma extra_scan_units:
  assumes h: "h = 264 \<or> h = 265" and s: "slice_ok h s"
  shows "\<forall>u \<in> set us. unit_ok h u \<Longrightarrow> extra_scan h p (annexb us @ start_code @ s @ r) (vps, sps, pps) =
    (Some (p + length (annexb us)), vps \<or> (\<exists>u \<in> set us. IsVPS h (nal_type h (hd u))),
     sps \<or> (\<exists>u \<in> set us. IsSPS h (nal_type h (hd u))), pps \<or> (\<exists>u \<in> set us. IsPPS h (nal_type h (hd u))))"
proof (induction us arbitrary: p vps sps pps)
  case Nil
  with extra_scan_slice [OF h s] show ?case by simp
next
  case (Cons u us)
  have "\<exists>e q. annexb us @ start_code @ s @ r = start_code @ e # q"
  proof (cases us)
    case Nil
    with s show ?thesis by (cases s) (auto simp: slice_ok_def)
  next
    case (Cons v vs)
    with Cons.prems show ?thesis by (cases v) (auto simp: unit_ok_def)
  qed
  then obtain e q where q: "annexb us @ start_code @ s @ r = start_code @ e # q" by blast
  have "extra_scan h p (annexb (u # us) @ start_code @ s @ r) (vps, sps, pps) =
      extra_scan h p (start_code @ u @ start_code @ e # q) (vps, sps, pps)"
    using q by simp
  also have "\<dots> = extra_scan h (p + (4 + length u)) (annexb us @ start_code @ s @ r)
      (vps \<or> IsVPS h (nal_type h (hd u)), sps \<or> IsSPS h (nal_type h (hd u)), pps \<or> IsPPS h (nal_type h (hd u)))"
    using Cons.prems by (subst extra_scan_unit [OF h]) (simp_all only: q list.set_intros)
  finally show ?case using Cons by (auto simp: add.assoc)
qed


definition key_frame_of :: "nat \<Rightarrow> u8 list list \<Rightarrow> u8 list \<Rightarrow> u8 list \<Rightarrow> AVPacket \<Rightarrow> bool" where
  "key_frame_of h us s r pkt \<longleftrightarrow> (\<forall>u \<in> set us. unit_ok h u) \<and> has_sets h us \<and> slice_ok h s \<and> pkt_key pkt \<and> \<not> pkt_in_key_buf pkt \<and>
     pkt_data pkt = annexb us @ start_code @ s @ r \<and> pkt_size pkt = int (length (pkt_data pkt))"

lemma key_frame_nonempty: "key_frame_of h us s r pkt \<Longrightarrow> \<exists>u vs. us = u # vs"
  by (cases us) (auto simp: key_frame_of_def has_sets_def)

lemma GetExtraDataSize_units:
  assumes "h = 264 \<or> h = 265" "key_frame_of h us s r pkt"
  shows "GetExtraDataSize h pkt = Ret (int (length (annexb us)))"
proof -
  have "extra_scan h 0 (annexb us @ start_code @ s @ r) (False, False, False) =
      (Some (length (annexb us)), \<exists>u \<in> set us. IsVPS h (nal_type h (hd u)), \<exists>u \<in> set us. IsSPS h (nal_type h (hd u)),
       \<exists>u \<in> set us. IsPPS h (nal_type h (hd u)))"
    using extra_scan_units [OF assms(1), of s us 0 r False False False] assms(2) by (simp add: key_frame_of_def)
  moreover have "annexb us \<noteq> []" "pkt_data pkt = annexb us @ start_code @ s @ r" "pkt_size pkt = int (length (pkt_data pkt))" "has_sets h us"
    using assms(2) key_frame_nonempty [OF assms(2)] by (auto simp: key_frame_of_def)
  ultimately show ?thesis using assms(1) unfolding GetExtraDataSize_def has_sets_def Let_def
    by (auto simp del: append_Cons append_Nil)
qed

text \<open>What a key frame leaves in the metadata of its sub stream.\<close>

lemma video_update_extra:
  assumes "DoUpdateMeta_video g st pkt dm p = Ret (c, dm1)" "pkt_key pkt" "g pkt = Ret n" "n \<noteq> 0"
  shows "0 \<le> sp_stream_index p \<and> nat (sp_stream_index p) < length (sm_sub_streams (dm_meta dm1)) \<and>
    ss_extra_data (sm_sub_streams (dm_meta dm1) ! nat (sp_stream_index p)) = text_of (take (nat n) (pkt_data pkt)) \<and>
    (ss_extra_data (sm_sub_streams (dm_meta dm) ! nat (sp_stream_index p)) \<noteq> text_of (take (nat n) (pkt_data pkt)) \<longrightarrow> c)"
proof -
  obtain m cm where m: "sub_stream dm (sp_stream_index p) = Ret m" and u: "update_video st m = Ret cm"
    and r: "c = fst (update_extra n pkt cm)" "dm1 = set_sub_stream dm (sp_stream_index p) (snd (update_extra n pkt cm))"
    using assms by (auto simp: DoUpdateMeta_video_def bind_cpp_Ret_conv Let_def)
  have "ss_extra_data (snd cm) = ss_extra_data m"
    using u by (auto simp: update_video_def bind_cpp_Ret_conv Let_def split: if_splits prod.splits)
  then show ?thesis using m r assms(4)
    by (auto simp: sub_stream_def set_sub_stream_def update_extra_def Let_def split: if_splits)
qed


text \<open>a key frame of H.264 or H.265 that begins with parameter sets is passed on unchanged, the bytes in front of its
  first coded slice become the extra data of the sub stream, the change is reported, and the parser then says
  that the metadata is complete.\<close>

theorem key_frame_sets:
  assumes h: "h = 264 \<or> h = 265" and k: "sp_kind p = H264or5_Parser h buf n" "sp_is_init p" and f: "key_frame_of h us s r pkt"
    and parse: "Parse_packet now_sec now_usec st pkt dm p = Ret (0, fi, pkt1, c, dm1, p1)"
  shows "pkt1 = pkt \<and> fi \<noteq> None \<and>
    ss_extra_data (sm_sub_streams (dm_meta dm1) ! nat (sp_stream_index p)) = text_of (annexb us) \<and>
    (ss_extra_data (sm_sub_streams (dm_meta dm) ! nat (sp_stream_index p)) \<noteq> text_of (annexb us) \<longrightarrow> c = Some True) \<and>
    IsMetaReady_parser dm1 p1 = Ret True"
proof -
  obtain u vs where us: "us = u # vs" using key_frame_nonempty [OF f] by blast
  then have u: "u \<noteq> []" "\<not> IsVCL h (nal_type h (hd u))" using f by (auto simp: key_frame_of_def unit_ok_def)
  have z: "nat (pkt_size pkt) = length (pkt_data pkt)" using f by (simp add: key_frame_of_def)
  have d: "take 4 (pkt_data pkt) = start_code" "length (pkt_data pkt) \<ge> 4" "pkt_data pkt ! 4 = hd u"
    using u f us by (auto simp: key_frame_of_def hd_conv_nth nth_append)
  then have "Parse_h264or5_data pkt = Ret (pkt_data pkt)" "add_header pkt p = Ret (pkt, p)"
    using k u z by (simp_all add: Parse_h264or5_data_def add_header_def)
  then have "base_Parse DoUpdateMeta now_sec now_usec st pkt dm p = Ret (0, fi, pkt1, c, dm1, p1)"
    using parse k by (simp add: Parse_packet_def)
  then obtain frame_info dm2 p2 changed where b: "DoUpdateFrameInfo now_sec now_usec st pkt dm p = Ret (0, frame_info, dm2, p2)"
      "DoUpdateMeta st pkt dm2 p2 = Ret (changed, dm1)" "c = Some changed" "pkt1 = pkt" "fi = Some frame_info"
      and p1: "sp_kind p1 = sp_kind p2" "sp_is_init p1 = sp_is_init p2" "sp_stream_index p1 = sp_stream_index p2"
    by (auto simp: base_Parse_def bind_cpp_Ret_conv Let_def FFMPEG_SOURCE_ERR_DROP_def split: if_splits)
  note keep = frame_info_keeps [OF b(1)]
  have "DoUpdateMeta_video (\<lambda>pkt. if pkt_in_key_buf pkt then Ret 0 else GetExtraDataSize h pkt) st pkt dm2 p2 = Ret (changed, dm1)"
    using b(2) keep k by (simp add: DoUpdateMeta_def DoUpdateMeta_h264or5_def)
  note v = video_update_extra [OF this, of "int (length (annexb us))"]
  have "pkt_key pkt" "\<not> pkt_in_key_buf pkt" "take (length (annexb us)) (pkt_data pkt) = annexb us" "int (length (annexb us)) \<noteq> 0"
    using f us by (auto simp: key_frame_of_def)
  with v GetExtraDataSize_units [OF h f] have "0 \<le> sp_stream_index p2 \<and> nat (sp_stream_index p2) < length (sm_sub_streams (dm_meta dm1)) \<and>
    ss_extra_data (sm_sub_streams (dm_meta dm1) ! nat (sp_stream_index p2)) = text_of (annexb us) \<and>
    (ss_extra_data (sm_sub_streams (dm_meta dm2) ! nat (sp_stream_index p2)) \<noteq> text_of (annexb us) \<longrightarrow> changed)"
    by simp
  moreover have "text_of (annexb us) \<noteq> []" using us by (simp add: text_of_def)
  ultimately show ?thesis using keep b p1 k by (auto simp: IsMetaReady_parser_def sub_stream_def)
qed


definition demo_key_frame :: AVPacket where
  "demo_key_frame = (demo_packet 0)\<lparr>pkt_data := [0, 0, 0, 1, 0x67, 1, 0, 0, 0, 1, 0x68, 2, 0, 0, 0, 1, 0x65, 3], pkt_size := 18\<rparr>"

lemma demo_key_frame_run:
  "Parse_packet 7 0 demo_video demo_key_frame (demo_sub_stream []) (demo_parser\<lparr>sp_kind := H264or5_Parser 264 [] 0\<rparr>) =
   Ret (0, Some \<lparr>fi_sub_stream_index = 0, fi_frame_type = MEDIA_FRAME_TYPE_KEY_FRAME, fi_tv_sec = 7, fi_tv_usec = 0, fi_ssrc = 0\<rparr>,
     demo_key_frame, Some True,
     (demo_sub_stream [0, 0, 0, 1, 0x67, 1, 0, 0, 0, 1, 0x68, 2])\<lparr>dm_base_pts := 0, dm_base_sec := 7, dm_base_usec := 0\<rparr>,
     demo_parser\<lparr>sp_kind := H264or5_Parser 264 [] 0, sp_gop_started := True, sp_last_pts := 0, sp_last_live_sec := 7,
       sp_last_live_usec := 0\<rparr>)"
  by code_simp

theorem key_frame_sets_witness:
  "IsMetaReady_parser ((demo_sub_stream [0, 0, 0, 1, 0x67, 1, 0, 0, 0, 1, 0x68, 2])\<lparr>dm_base_pts := 0, dm_base_sec := 7, dm_base_usec := 0\<rparr>)
     (demo_parser\<lparr>sp_kind := H264or5_Parser 264 [] 0, sp_gop_started := True, sp_last_pts := 0, sp_last_live_sec := 7,
       sp_last_live_usec := 0\<rparr>) = Ret True"
proof -
  have "key_frame_of 264 [[0x67, 1], [0x68, 2]] [0x65, 3] [] demo_key_frame"
    by (simp add: key_frame_of_def unit_ok_def slice_ok_def has_sets_def demo_key_frame_def demo_packet_def nal_type_def
        IsVCL_def IsSPS_def IsPPS_def)
  moreover have "sp_is_init demo_parser" by (simp add: demo_parser_def base_Init_def new_StreamParser_def)
  ultimately show ?thesis using key_frame_sets [OF _ _ _ _ demo_key_frame_run] by simp
qed

end
