(* ===== verification/Demuxer_Properties.thy ===== *)
theory Demuxer_Properties
  imports Demuxer_Source Nal_Properties Source_Properties
begin

text \<open>
  Properties of the demuxer and of the source that publishes its packets.
\<close>

section \<open>The packets kept for later\<close>

text \<open>A parser neither reads nor changes the list of packets that \<open>ReadMeta\<close> keeps, nor the state of the input.\<close>

definition keep_cache :: "(MediaFrameInfo \<times> AVPacket) list \<Rightarrow> FFmpegDemuxer \<Rightarrow> FFmpegDemuxer" where
  "keep_cache c dm = dm\<lparr>dm_cached_pkts := c\<rparr>"

lemma keep_cache_simps [simp]:
  "dm_base_pts (keep_cache c dm) = dm_base_pts dm" "dm_base_sec (keep_cache c dm) = dm_base_sec dm"
  "dm_base_usec (keep_cache c dm) = dm_base_usec dm" "dm_stream_parsers (keep_cache c dm) = dm_stream_parsers dm"
  "dm_ssrc (keep_cache c dm) = dm_ssrc dm" "dm_open (keep_cache c dm) = dm_open dm" "dm_meta (keep_cache c dm) = dm_meta dm"
  "dm_io_enabled (keep_cache c dm) = dm_io_enabled dm" "dm_cached_pkts (keep_cache c dm) = c"
  "keep_cache c (keep_cache b dm) = keep_cache c dm" "keep_cache (dm_cached_pkts dm) dm = dm"
  "(keep_cache c dm)\<lparr>dm_base_pts := x, dm_base_sec := y, dm_base_usec := z\<rparr> = keep_cache c (dm\<lparr>dm_base_pts := x, dm_base_sec := y, dm_base_usec := z\<rparr>)"
  "(keep_cache c dm)\<lparr>dm_stream_parsers := ps\<rparr> = keep_cache c (dm\<lparr>dm_stream_parsers := ps\<rparr>)"
  by (simp_all add: keep_cache_def)

lemma bind_cpp_assoc: "bind_cpp (bind_cpp m f) g = bind_cpp m (\<lambda>x. bind_cpp (f x) g)"
  by (cases m) simp_all

lemma bind_cpp_if: "bind_cpp (if b then m else n) g = (if b then bind_cpp m g else bind_cpp n g)"
  by simp

lemma bind_cpp_split: "bind_cpp (case x of (a, b) \<Rightarrow> f a b) g = (case x of (a, b) \<Rightarrow> bind_cpp (f a b) g)"
  by (cases x) simp

lemmas bind_laws = bind_cpp_assoc bind_cpp_if bind_cpp_split

lemma live_time_cache:
  "live_time now_sec now_usec st pkt (keep_cache c dm) p =
     bind_cpp (live_time now_sec now_usec st pkt dm p) (\<lambda>(ret, sec, usec, dm1, p1). Ret (ret, sec, usec, keep_cache c dm1, p1))"
  by (cases "dm_base_pts dm = AV_NOPTS_VALUE \<and> pkt_pts pkt \<noteq> AV_NOPTS_VALUE")
     (auto simp: live_time_def Let_def bind_laws cong: if_cong)

lemma replay_time_cache:
  "replay_time st pkt (keep_cache c dm) p =
     bind_cpp (replay_time st pkt dm p) (\<lambda>(ret, sec, usec, dm1, p1). Ret (ret, sec, usec, keep_cache c dm1, p1))"
  by (cases "pkt_pts pkt = AV_NOPTS_VALUE") (auto simp: replay_time_def Let_def bind_laws cong: if_cong)

lemma frame_info_cache:
  "DoUpdateFrameInfo now_sec now_usec st pkt (keep_cache c dm) p =
     bind_cpp (DoUpdateFrameInfo now_sec now_usec st pkt dm p) (\<lambda>(ret, fi, dm1, p1). Ret (ret, fi, keep_cache c dm1, p1))"
  by (simp add: DoUpdateFrameInfo_def live_time_cache replay_time_cache bind_laws cong: if_cong)

lemma sub_stream_cache [simp]: "sub_stream (keep_cache c dm) i = sub_stream dm i"
  by (simp add: sub_stream_def keep_cache_def)

lemma set_sub_stream_cache: "set_sub_stream (keep_cache c dm) i m = keep_cache c (set_sub_stream dm i m)"
  by (simp add: set_sub_stream_def keep_cache_def)

lemma video_update_cache:
  "DoUpdateMeta_video g st pkt (keep_cache c dm) p =
     bind_cpp (DoUpdateMeta_video g st pkt dm p) (\<lambda>(changed, dm1). Ret (changed, keep_cache c dm1))"
  by (simp add: DoUpdateMeta_video_def set_sub_stream_cache bind_laws Let_def cong: if_cong)

lemma DoUpdateMeta_cache:
  "DoUpdateMeta st pkt (keep_cache c dm) p =
     bind_cpp (DoUpdateMeta st pkt dm p) (\<lambda>(changed, dm1). Ret (changed, keep_cache c dm1))"
  by (simp add: DoUpdateMeta_def base_DoUpdateMeta_def DoUpdateMeta_h264or5_def DoUpdateMeta_mpeg4_def video_update_cache split: parser_kind.splits)

lemma base_Parse_cache:
  "base_Parse DoUpdateMeta now_sec now_usec st pkt (keep_cache c dm) p =
     bind_cpp (base_Parse DoUpdateMeta now_sec now_usec st pkt dm p)
       (\<lambda>(ret, fi, pkt1, changed, dm1, p1). Ret (ret, fi, pkt1, changed, keep_cache c dm1, p1))"
  by (simp add: base_Parse_def frame_info_cache DoUpdateMeta_cache bind_laws Let_def cong: if_cong)

lemma Parse_packet_cache:
  "Parse_packet now_sec now_usec st pkt (keep_cache c dm) p =
     bind_cpp (Parse_packet now_sec now_usec st pkt dm p)
       (\<lambda>(ret, fi, pkt1, changed, dm1, p1). Ret (ret, fi, pkt1, changed, keep_cache c dm1, p1))"
  by (simp add: Parse_packet_def base_Parse_cache bind_laws cong: if_cong split: parser_kind.splits)

lemma parse_frame_cache:
  "parse_frame r (keep_cache c dm) =
     bind_cpp (parse_frame r dm) (\<lambda>(ret, node, changed, dm1). Ret (ret, node, changed, keep_cache c dm1))"
  by (simp add: parse_frame_def Parse_packet_cache bind_laws Let_def cong: if_cong)


lemma read_frame_cache:
  "read_frame rs (keep_cache c dm) = map_option (\<lambda>(r, dm1, rest). (r, keep_cache c dm1, rest)) (read_frame rs dm)"
proof (induction rs arbitrary: dm)
  case (Cons r rs)
  have "StopIO (StartIO now (keep_cache c dm)) = keep_cache c (StopIO (StartIO now dm))" for now dm
    by (simp add: StopIO_def StartIO_def keep_cache_def)
  with Cons show ?case by (simp add: Let_def)
qed simp

text \<open>What reading and parsing leave alone.\<close>

definition same_io :: "FFmpegDemuxer \<Rightarrow> FFmpegDemuxer \<Rightarrow> bool" where
  "same_io dm dm1 \<longleftrightarrow> dm_open dm1 = dm_open dm \<and> dm_io_enabled dm1 = dm_io_enabled dm \<and> dm_ssrc dm1 = dm_ssrc dm \<and>
     dm_cached_pkts dm1 = dm_cached_pkts dm \<and> length (dm_stream_parsers dm1) = length (dm_stream_parsers dm)"

lemma same_io_refl [simp]: "same_io dm dm"
  by (simp add: same_io_def)

lemma same_io_trans [trans]: "same_io a b \<Longrightarrow> same_io b c \<Longrightarrow> same_io a c"
  by (simp add: same_io_def)

lemma read_frame_same: "read_frame rs dm = Some (r, dm1, rest) \<Longrightarrow> same_io dm dm1 \<and> rd_ret r \<noteq> AVERROR_EAGAIN"
  by (induction rs dm rule: read_frame.induct) (auto simp: Let_def same_io_def StopIO_def StartIO_def split: if_splits)

lemma frame_info_same: "DoUpdateFrameInfo now_sec now_usec st pkt dm p = Ret (ret, fi, dm1, p1) \<Longrightarrow> same_io dm dm1"
  by (auto simp: DoUpdateFrameInfo_def live_time_def replay_time_def same_io_def bind_cpp_Ret_conv Let_def split: if_splits prod.splits)

lemma video_update_same: "DoUpdateMeta_video g st pkt dm p = Ret (changed, dm1) \<Longrightarrow> same_io dm dm1"
  by (auto simp: DoUpdateMeta_video_def bind_cpp_Ret_conv Let_def same_io_def set_sub_stream_def split: if_splits)

lemma DoUpdateMeta_same: "DoUpdateMeta st pkt dm p = Ret (changed, dm1) \<Longrightarrow> same_io dm dm1"
  by (auto simp: DoUpdateMeta_def base_DoUpdateMeta_def DoUpdateMeta_h264or5_def DoUpdateMeta_mpeg4_def
      split: parser_kind.splits dest: video_update_same)

lemma base_Parse_same:
  assumes "base_Parse DoUpdateMeta now_sec now_usec st pkt dm p = Ret (ret, fi, pkt1, changed, dm1, p1)"
  shows "same_io dm dm1 \<and> (ret = 0 \<longleftrightarrow> fi \<noteq> None)"
  using assms
  by (auto simp: base_Parse_def bind_cpp_Ret_conv Let_def FFMPEG_SOURCE_ERR_DROP_def split: if_splits
      dest!: frame_info_same DoUpdateMeta_same elim: same_io_trans)

lemma Parse_packet_same:
  assumes "Parse_packet now_sec now_usec st pkt dm p = Ret (ret, fi, pkt1, changed, dm1, p1)"
  shows "same_io dm dm1 \<and> (ret = 0 \<longleftrightarrow> fi \<noteq> None)"
  using Parse_packet_base [OF assms] base_Parse_same by metis

lemma parse_frame_same:
  assumes "parse_frame r dm = Ret (ret, node, changed, dm1)"
  shows "same_io dm dm1 \<and> (ret = 0 \<longleftrightarrow> node \<noteq> None)"
proof (cases "nat (pkt_stream_index (rd_pkt r)) \<ge> length (dm_stream_parsers dm)")
  case True
  with assms show ?thesis by (auto simp: parse_frame_def Let_def FFMPEG_SOURCE_ERR_GENERAL_def split: if_splits)
next
  case False
  with assms obtain fi pkt dm2 p where
    "Parse_packet (rd_now_sec r) (rd_now_usec r) (rd_streams r ! nat (pkt_stream_index (rd_pkt r))) (rd_pkt r) dm
       (dm_stream_parsers dm ! nat (pkt_stream_index (rd_pkt r))) = Ret (ret, fi, pkt, changed, dm2, p)"
    "dm1 = dm2\<lparr>dm_stream_parsers := (dm_stream_parsers dm2)[nat (pkt_stream_index (rd_pkt r)) := p]\<rparr>"
    "node = (if ret = 0 then map_option (\<lambda>f. (f\<lparr>fi_ssrc := dm_ssrc dm2\<rparr>, pkt)) fi else None)"
    by (auto simp: parse_frame_def Let_def bind_cpp_Ret_conv split: if_splits)
  with Parse_packet_same show ?thesis by (fastforce simp: same_io_def)
qed

section \<open>The frames that are read\<close>

text \<open>The nodes that \<open>ReadPacket\<close> gives when it is called again and again, and why it ends. A node has the data as they
  were when its packet was parsed; what can still be read when it is delivered is below.\<close>

datatype drain_end = Drain_waiting | Drain_end int | Drain_undef

lemma ReadPacket_smaller:
  assumes "ReadPacket rs dm = Ret (Some ((ret, node, changed, dm1), rest))" "ret = 0 \<or> ret = FFMPEG_SOURCE_ERR_DROP"
  shows "length rest + length (dm_cached_pkts dm1) < length rs + length (dm_cached_pkts dm)"
proof (cases "dm_cached_pkts dm")
  case Nil
  with assms obtain r dm2 where "read_frame rs dm = Some (r, dm2, rest)" "parse_frame r dm2 = Ret (ret, node, changed, dm1)"
    by (auto simp: ReadPacket_def bind_cpp_Ret_conv FFMPEG_SOURCE_ERR_DROP_def FFMPEG_SOURCE_ERR_IO_def FFMPEG_SOURCE_ERR_EOF_def
        split: if_splits option.splits av_ret.splits prod.splits)
  then show ?thesis using read_frame_rest read_frame_same parse_frame_same by (fastforce simp: same_io_def)
next
  case (Cons n ns)
  with assms show ?thesis
    by (auto simp: ReadPacket_def FFMPEG_SOURCE_ERR_DROP_def FFMPEG_SOURCE_ERR_IO_def split: if_splits)
qed

function drain :: "av_read list \<Rightarrow> FFmpegDemuxer \<Rightarrow> (MediaFrameInfo \<times> AVPacket) list \<times> drain_end" where
  "drain rs dm =
     (case ReadPacket rs dm of
        Undef \<Rightarrow> ([], Drain_undef)
      | Ret None \<Rightarrow> ([], Drain_waiting)
      | Ret (Some ((ret, node, changed, dm1), rest)) \<Rightarrow>
          if ret = FFMPEG_SOURCE_ERR_DROP then drain rest dm1
          else if ret \<noteq> 0 then ([], Drain_end ret)
          else
            case node of
              None \<Rightarrow> ([], Drain_undef)
            | Some n \<Rightarrow> (n # fst (drain rest dm1), snd (drain rest dm1)))"
  by pat_completeness auto
termination by (relation "measure (\<lambda>(rs, dm). length rs + length (dm_cached_pkts dm))") (auto dest: ReadPacket_smaller)

declare drain.simps [simp del]


lemma drain_cached:
  assumes "dm_open dm" "dm_io_enabled dm"
  shows "drain rs (keep_cache (c @ d) dm) = (c @ fst (drain rs (keep_cache d dm)), snd (drain rs (keep_cache d dm)))"
proof (induction c)
  case (Cons n c)
  have "ReadPacket rs (keep_cache (n # c @ d) dm) = Ret (Some ((0, Some n, Some False, keep_cache (c @ d) dm), rs))"
    using assms by (simp add: ReadPacket_def) (simp add: keep_cache_def)
  then have "drain rs (keep_cache (n # c @ d) dm) = (n # fst (drain rs (keep_cache (c @ d) dm)), snd (drain rs (keep_cache (c @ d) dm)))"
    by (subst drain.simps) (simp add: FFMPEG_SOURCE_ERR_DROP_def)
  with Cons show ?case by simp
qed simp

text \<open>One packet that is read when no packet is kept.\<close>

lemma drain_read:
  assumes "dm_open dm" "dm_io_enabled dm" "read_frame rs dm = Some (r, dm1, rest)" "rd_ret r = AV_ret 0"
    "parse_frame r dm1 = Ret (ret, node, changed, dm2)" "ret = 0 \<or> ret = FFMPEG_SOURCE_ERR_DROP"
  shows "drain rs (keep_cache [] dm) = ((case node of None \<Rightarrow> [] | Some n \<Rightarrow> [n]) @ fst (drain rest (keep_cache [] dm2)),
    snd (drain rest (keep_cache [] dm2)))"
proof -
  have "ReadPacket rs (keep_cache [] dm) = Ret (Some ((ret, node, changed, keep_cache [] dm2), rest))"
    using assms(1-5) by (simp add: ReadPacket_def read_frame_cache parse_frame_cache)
  moreover have "ret = 0 \<longleftrightarrow> node \<noteq> None" using parse_frame_same [OF assms(5)] by simp
  ultimately show ?thesis using assms(6)
    by (cases node; subst drain.simps) (auto simp: FFMPEG_SOURCE_ERR_DROP_def)
qed

lemma drain_split:
  assumes "dm_open dm" "dm_io_enabled dm"
  shows "drain rs dm = (dm_cached_pkts dm @ fst (drain rs (keep_cache [] dm)), snd (drain rs (keep_cache [] dm)))"
  using drain_cached [OF assms, of rs "dm_cached_pkts dm" "[]"] by simp

text \<open>Induction over the packets that a successful \<open>ReadMeta\<close> reads.\<close>

lemma read_meta_loop_run [consumes 3, case_names ready step]:
  assumes "read_meta_loop start timeout rs dm = Ret (Some ((0, dm1), rest))" "dm_open dm" "dm_io_enabled dm"
    and ready: "\<lbrakk>IsMetaReady_demuxer dm1 = Ret True; dm_open dm1; dm_io_enabled dm1\<rbrakk> \<Longrightarrow> P rest dm1"
    and step: "\<And>rs dm r dm2 rest2 ret node changed dm3. \<lbrakk>dm_open dm; dm_io_enabled dm; read_frame rs dm = Some (r, dm2, rest2);
        rd_ret r = AV_ret 0; parse_frame r dm2 = Ret (ret, node, changed, dm3); ret = 0 \<or> ret = FFMPEG_SOURCE_ERR_DROP; same_io dm dm3;
        P rest2 (dm3\<lparr>dm_cached_pkts := dm_cached_pkts dm3 @ (case node of None \<Rightarrow> [] | Some n \<Rightarrow> [n])\<rparr>)\<rbrakk> \<Longrightarrow> P rs dm"
  shows "P rs dm"
  using assms(1-3)
proof (induction start timeout rs dm rule: read_meta_loop.induct)
  case (1 start timeout rs dm)
  consider "IsMetaReady_demuxer dm = Undef" | "IsMetaReady_demuxer dm = Ret True" | "IsMetaReady_demuxer dm = Ret False"
    by (metis cpp.exhaust)
  then show ?case
  proof cases
    case 3
    with "1.prems"(1) obtain r dm2 rest2 ret node changed dm3 where
      r: "read_frame rs dm = Some (r, dm2, rest2)" "rd_ret r = AV_ret 0" "parse_frame r dm2 = Ret (ret, node, changed, dm3)"
        "ret = 0 \<or> ret = FFMPEG_SOURCE_ERR_DROP" and late: "\<not> (rs \<noteq> [] \<and> rd_mono_sec (hd rs) - start \<ge> timeout)"
      by (subst (asm) read_meta_loop.simps)
         (auto simp: FFMPEG_SOURCE_ERR_TIMEOUT_def FFMPEG_SOURCE_ERR_EOF_def FFMPEG_SOURCE_ERR_IO_def
           split: if_splits option.splits av_ret.splits cpp.splits prod.splits)
    let ?dm = "dm3\<lparr>dm_cached_pkts := dm_cached_pkts dm3 @ (case node of None \<Rightarrow> [] | Some n \<Rightarrow> [n])\<rparr>"
    have io: "same_io dm dm3" "ret = 0 \<longleftrightarrow> node \<noteq> None"
      using read_frame_same [OF r(1)] parse_frame_same [OF r(3)] same_io_trans by blast+
    then have o: "dm_open ?dm" "dm_io_enabled ?dm" using "1.prems"(2,3) by (simp_all add: same_io_def)
    have loop: "read_meta_loop start timeout rest2 ?dm = Ret (Some ((0, dm1), rest))"
      using "1.prems"(1) 3 r late io(2)
      by (subst (asm) read_meta_loop.simps) (cases node; auto simp: FFMPEG_SOURCE_ERR_DROP_def split: if_splits)
    have "P rest2 ?dm"
    proof (cases node)
      case None
      with io(2) r(4) have "ret = FFMPEG_SOURCE_ERR_DROP" by simp
      with 1(1) [OF 3 _ late r(1) _ _ r(2) _ r(3)] show ?thesis using loop o None by simp
    next
      case (Some n)
      with io(2) have "ret = 0" by simp
      with 1(2) [OF 3 _ late r(1) _ _ r(2) _ r(3)] show ?thesis using loop o Some by (simp add: FFMPEG_SOURCE_ERR_DROP_def)
    qed
    then show ?thesis by (rule step [OF "1.prems"(2,3) r io(1)])
  qed (use "1.prems" ready in \<open>auto simp: read_meta_loop.simps [of start]\<close>)
qed

lemma read_meta_drain:
  assumes "read_meta_loop start timeout rs dm = Ret (Some ((0, dm1), rest))" "dm_open dm" "dm_io_enabled dm"
  shows "drain rest dm1 = drain rs dm \<and> IsMetaReady_demuxer dm1 = Ret True \<and> dm_open dm1 \<and> dm_io_enabled dm1 \<and> dm_ssrc dm1 = dm_ssrc dm"
  using assms
proof (induction rule: read_meta_loop_run)
  case (step rs dm r dm2 rest2 ret node changed dm3)
  let ?dm = "dm3\<lparr>dm_cached_pkts := dm_cached_pkts dm3 @ (case node of None \<Rightarrow> [] | Some n \<Rightarrow> [n])\<rparr>"
  have o: "dm_open ?dm" "dm_io_enabled ?dm" "dm_ssrc ?dm = dm_ssrc dm" using step by (simp_all add: same_io_def)
  have "drain rest2 ?dm = drain rs dm"
    using drain_split [OF o(1,2), of rest2] drain_split [OF step(1,2), of rs] drain_read [OF step(1-6)] step(7)
    by (simp add: same_io_def keep_cache_def)
  then show ?case using o(3) step(8) by simp
qed simp


lemma ReadMeta_drain:
  assumes "ReadMeta start timeout rs dm = Ret (Some ((0, meta, dm1), rest))"
  shows "drain rest dm1 = drain rs dm" "meta = Some (dm_meta dm1)" "IsMetaReady_demuxer dm1 = Ret True"
proof -
  from assms have "read_meta_loop start timeout rs dm = Ret (Some ((0, dm1), rest))" "dm_open dm" "dm_io_enabled dm" "meta = Some (dm_meta dm1)"
    by (auto simp: ReadMeta_def bind_cpp_Ret_conv FFMPEG_SOURCE_ERR_IO_def split: if_splits option.splits prod.splits)
  with read_meta_drain show "drain rest dm1 = drain rs dm" "meta = Some (dm_meta dm1)" "IsMetaReady_demuxer dm1 = Ret True" by blast+
qed

text \<open>The same with the data of each packet as its receiver can read them at that moment (\<open>pkt_blob\<close>): those of a key
  frame that lies in the buffer of its parser are gone when the parser has used the buffer again.\<close>

function delivered :: "av_read list \<Rightarrow> FFmpegDemuxer \<Rightarrow> ((MediaFrameInfo \<times> AVPacket) \<times> blob cpp) list \<times> drain_end" where
  "delivered rs dm =
     (case ReadPacket rs dm of
        Undef \<Rightarrow> ([], Drain_undef)
      | Ret None \<Rightarrow> ([], Drain_waiting)
      | Ret (Some ((ret, node, changed, dm1), rest)) \<Rightarrow>
          if ret = FFMPEG_SOURCE_ERR_DROP then delivered rest dm1
          else if ret \<noteq> 0 then ([], Drain_end ret)
          else
            case node of
              None \<Rightarrow> ([], Drain_undef)
            | Some n \<Rightarrow> ((n, pkt_blob dm1 (snd n)) # fst (delivered rest dm1), snd (delivered rest dm1)))"
  by pat_completeness auto
termination by (relation "measure (\<lambda>(rs, dm). length rs + length (dm_cached_pkts dm))") (auto dest: ReadPacket_smaller)

declare delivered.simps [simp del]

text \<open>No packet that is kept has lost its data.\<close>

definition kept_intact :: "FFmpegDemuxer \<Rightarrow> bool" where
  "kept_intact dm \<longleftrightarrow> list_all (\<lambda>n. pkt_blob dm (snd n) \<noteq> Undef) (dm_cached_pkts dm)"

definition with_data :: "FFmpegDemuxer \<Rightarrow> MediaFrameInfo \<times> AVPacket \<Rightarrow> (MediaFrameInfo \<times> AVPacket) \<times> blob cpp" where
  "with_data dm n = (n, pkt_blob dm (snd n))"

lemma pkt_blob_cache [simp]: "pkt_blob (keep_cache c dm) pkt = pkt_blob dm pkt"
  by (simp add: pkt_blob_def)

lemma pkt_blob_cached_pkts [simp]: "pkt_blob (dm\<lparr>dm_cached_pkts := c\<rparr>) pkt = pkt_blob dm pkt"
  by (simp add: pkt_blob_def)

lemma pkt_blob_det: "pkt_blob a pkt \<noteq> Undef \<Longrightarrow> pkt_blob b pkt \<noteq> Undef \<Longrightarrow> pkt_blob a pkt = pkt_blob b pkt"
  by (auto simp: pkt_blob_def split: if_splits)

lemma delivered_cached:
  assumes "dm_open dm" "dm_io_enabled dm"
  shows "delivered rs (keep_cache (c @ d) dm) = (map (with_data dm) c @ fst (delivered rs (keep_cache d dm)), snd (delivered rs (keep_cache d dm)))"
proof (induction c)
  case (Cons n c)
  have "ReadPacket rs (keep_cache (n # c @ d) dm) = Ret (Some ((0, Some n, Some False, keep_cache (c @ d) dm), rs))"
    using assms by (simp add: ReadPacket_def) (simp add: keep_cache_def)
  then have "delivered rs (keep_cache (n # c @ d) dm) =
      (with_data dm n # fst (delivered rs (keep_cache (c @ d) dm)), snd (delivered rs (keep_cache (c @ d) dm)))"
    by (subst delivered.simps) (simp add: FFMPEG_SOURCE_ERR_DROP_def with_data_def)
  with Cons show ?case by simp
qed simp

lemma delivered_split:
  assumes "dm_open dm" "dm_io_enabled dm"
  shows "delivered rs dm = (map (with_data dm) (dm_cached_pkts dm) @ fst (delivered rs (keep_cache [] dm)), snd (delivered rs (keep_cache [] dm)))"
  using delivered_cached [OF assms, of rs "dm_cached_pkts dm" "[]"] by simp

lemma delivered_read:
  assumes "dm_open dm" "dm_io_enabled dm" "read_frame rs dm = Some (r, dm1, rest)" "rd_ret r = AV_ret 0"
    "parse_frame r dm1 = Ret (ret, node, changed, dm2)" "ret = 0 \<or> ret = FFMPEG_SOURCE_ERR_DROP"
  shows "delivered rs (keep_cache [] dm) = ((case node of None \<Rightarrow> [] | Some n \<Rightarrow> [with_data dm2 n]) @ fst (delivered rest (keep_cache [] dm2)),
    snd (delivered rest (keep_cache [] dm2)))"
proof -
  have "ReadPacket rs (keep_cache [] dm) = Ret (Some ((ret, node, changed, keep_cache [] dm2), rest))"
    using assms(1-5) by (simp add: ReadPacket_def read_frame_cache parse_frame_cache)
  moreover have "ret = 0 \<longleftrightarrow> node \<noteq> None" using parse_frame_same [OF assms(5)] by simp
  ultimately show ?thesis using assms(6)
    by (cases node; subst delivered.simps) (auto simp: FFMPEG_SOURCE_ERR_DROP_def with_data_def)
qed

text \<open>The data of a packet that was just parsed can be read: those of a key frame are what its parser has in the buffer.\<close>

lemma Parse_packet_fresh:
  assumes "Parse_packet now_sec now_usec st pkt dm p = Ret (ret, fi, pkt1, c, dm1, p1)" "\<not> pkt_in_key_buf pkt"
  shows "pkt_stream_index pkt1 = pkt_stream_index pkt \<and> (pkt_in_key_buf pkt1 \<longrightarrow> (\<exists>h k. sp_kind p1 = H264or5_Parser h (pkt_data pkt1) k))"
proof (cases "sp_kind p")
  case (H264or5_Parser a b k)
  with assms(1) obtain d pkt2 p2 where h: "add_header (pkt\<lparr>pkt_data := d\<rparr>) p = Ret (pkt2, p2)"
    "base_Parse DoUpdateMeta now_sec now_usec st pkt2 dm p2 = Ret (ret, fi, pkt1, c, dm1, p1)"
    by (auto simp: Parse_packet_def bind_cpp_Ret_conv)
  from h(1) assms(2) have "pkt_stream_index pkt2 = pkt_stream_index pkt \<and>
      (pkt_in_key_buf pkt2 \<longrightarrow> (\<exists>h k. sp_kind p2 = H264or5_Parser h (pkt_data pkt2) k))"
    by (auto simp: add_header_def Let_def split: parser_kind.splits if_splits)
  with base_Parse_keeps [OF h(2)] show ?thesis by simp
qed (use assms in \<open>auto simp: Parse_packet_def dest!: base_Parse_keeps\<close>)

lemma parse_frame_fresh:
  assumes "parse_frame r dm = Ret (ret, Some n, changed, dm1)" "\<not> pkt_in_key_buf (rd_pkt r)" "pkt_blob dm2 (snd n) \<noteq> Undef"
  shows "with_data dm1 n = with_data dm2 n"
proof -
  let ?i = "nat (pkt_stream_index (rd_pkt r))"
  from assms(1) obtain fi pkt dm3 p where pp: "Parse_packet (rd_now_sec r) (rd_now_usec r) (rd_streams r ! ?i) (rd_pkt r) dm (dm_stream_parsers dm ! ?i) =
      Ret (ret, fi, pkt, changed, dm3, p)" and d: "dm1 = dm3\<lparr>dm_stream_parsers := (dm_stream_parsers dm3)[?i := p]\<rparr>" and n: "snd n = pkt"
    and i: "0 \<le> pkt_stream_index (rd_pkt r)" "?i < length (dm_stream_parsers dm)"
    by (auto simp: parse_frame_def Let_def bind_cpp_Ret_conv split: if_splits)
  have "length (dm_stream_parsers dm3) = length (dm_stream_parsers dm)" using Parse_packet_same [OF pp] by (simp add: same_io_def)
  then have p: "dm_stream_parsers dm1 ! ?i = p" "?i < length (dm_stream_parsers dm1)" using i by (simp_all add: d)
  have size: "\<not> nat (pkt_size pkt) > length (pkt_data pkt)" using assms(3) n unfolding pkt_blob_def by (auto split: if_splits)
  note f = Parse_packet_fresh [OF pp assms(2)]
  have "pkt_blob dm1 (snd n) \<noteq> Undef"
  proof (cases "pkt_in_key_buf pkt")
    case True
    with f obtain h k where "sp_kind p = H264or5_Parser h (pkt_data pkt) k" by blast
    with f p i(1) size show ?thesis by (simp add: pkt_blob_def n)
  next
    case False
    with size show ?thesis by (simp add: pkt_blob_def n)
  qed
  from pkt_blob_det [OF this assms(3)] show ?thesis by (simp only: with_data_def)
qed

lemma read_frame_from: "read_frame rs dm = Some (r, dm1, rest) \<Longrightarrow> r \<in> set rs \<and> set rest \<subseteq> set rs"
  by (induction rs dm rule: read_frame.induct) (auto simp: Let_def split: if_splits)

text \<open>What \<open>ReadMeta\<close> keeps is, as far as it is intact, what would have been delivered.\<close>

lemma read_meta_delivered:
  assumes "read_meta_loop start timeout rs dm = Ret (Some ((0, dm1), rest))" "dm_open dm" "dm_io_enabled dm"
    and "\<forall>r \<in> set rs. \<not> pkt_in_key_buf (rd_pkt r)"
  shows "\<exists>new. dm_cached_pkts dm1 = dm_cached_pkts dm @ new \<and>
    (list_all (\<lambda>n. pkt_blob dm1 (snd n) \<noteq> Undef) new \<longrightarrow>
       delivered rs (keep_cache [] dm) =
         (map (with_data dm1) new @ fst (delivered rest (keep_cache [] dm1)), snd (delivered rest (keep_cache [] dm1))))"
  using assms
proof (induction rule: read_meta_loop_run)
  case (step rs dm r dm2 rest2 ret node changed dm3)
  let ?new = "case node of None \<Rightarrow> [] | Some n \<Rightarrow> [n]"
  let ?dm = "dm3\<lparr>dm_cached_pkts := dm_cached_pkts dm3 @ ?new\<rparr>"
  note f = read_frame_from [OF step(3)]
  with step(8,9) obtain new where new: "dm_cached_pkts dm1 = dm_cached_pkts ?dm @ new"
    "list_all (\<lambda>n. pkt_blob dm1 (snd n) \<noteq> Undef) new \<Longrightarrow> delivered rest2 (keep_cache [] dm3) =
       (map (with_data dm1) new @ fst (delivered rest (keep_cache [] dm1)), snd (delivered rest (keep_cache [] dm1)))"
    by (auto simp: keep_cache_def)
  have "map (with_data dm3) ?new = map (with_data dm1) ?new" if "list_all (\<lambda>n. pkt_blob dm1 (snd n) \<noteq> Undef) ?new"
    using that step(5,9) f by (cases node) (auto intro: parse_frame_fresh)
  with new delivered_read [OF step(1-6)] step(7) show ?case
    by (intro exI [of _ "?new @ new"]) (cases node; auto simp: same_io_def)
qed simp

text \<open>C17: reading ahead until the metadata is complete loses, adds and reorders nothing that is still intact. When no packet that is
  kept at the end of \<open>ReadMeta\<close> (nor one kept before it) has lost its data, that is, no key frame that was put into the buffer of its
  parser has been overwritten there by a later one, then the frames delivered afterwards, first those kept and then those read later, with the
  data that the receiver finds when it gets each of them, are those that would have been delivered without reading ahead. The packets that
  \<open>av_read_frame\<close> gives have data of their own. The metadata is that of the demuxer, and every parser is ready.\<close>

theorem read_ahead_transparent:
  assumes "ReadMeta start timeout rs dm = Ret (Some ((0, meta, dm1), rest))"
    and "\<forall>r \<in> set rs. \<not> pkt_in_key_buf (rd_pkt r)" "kept_intact dm" "kept_intact dm1"
  shows "delivered rest dm1 = delivered rs dm \<and> meta = Some (dm_meta dm1) \<and> IsMetaReady_demuxer dm1 = Ret True"
proof -
  from assms(1) have l: "read_meta_loop start timeout rs dm = Ret (Some ((0, dm1), rest))" "dm_open dm" "dm_io_enabled dm"
    by (auto simp: ReadMeta_def bind_cpp_Ret_conv FFMPEG_SOURCE_ERR_IO_def split: if_splits option.splits prod.splits)
  from read_meta_delivered [OF this assms(2)] obtain new where new: "dm_cached_pkts dm1 = dm_cached_pkts dm @ new"
    "list_all (\<lambda>n. pkt_blob dm1 (snd n) \<noteq> Undef) new \<longrightarrow> delivered rs (keep_cache [] dm) =
       (map (with_data dm1) new @ fst (delivered rest (keep_cache [] dm1)), snd (delivered rest (keep_cache [] dm1)))"
    by blast
  have "map (with_data dm1) (dm_cached_pkts dm) = map (with_data dm) (dm_cached_pkts dm)"
    using assms(3,4) new(1) by (auto simp: kept_intact_def with_data_def list_all_iff intro: pkt_blob_det)
  moreover have "dm_open dm1" "dm_io_enabled dm1" using read_meta_drain [OF l] by simp_all
  ultimately have "delivered rest dm1 = delivered rs dm"
    using new assms(4) delivered_split [of dm1 rest] delivered_split [OF l(2,3), of rs] by (simp add: kept_intact_def)
  with ReadMeta_drain [OF assms(1)] show ?thesis by blast
qed

section \<open>Complete metadata stays complete\<close>

text \<open>The sub streams stay, and extra data are never removed.\<close>

definition grows :: "FFmpegDemuxer \<Rightarrow> FFmpegDemuxer \<Rightarrow> bool" where
  "grows dm dm1 \<longleftrightarrow> dm_stream_parsers dm1 = dm_stream_parsers dm \<and> sm_ssrc (dm_meta dm1) = sm_ssrc (dm_meta dm) \<and>
     length (sm_sub_streams (dm_meta dm1)) = length (sm_sub_streams (dm_meta dm)) \<and>
     (\<forall>j < length (sm_sub_streams (dm_meta dm)). ss_extra_data (sm_sub_streams (dm_meta dm) ! j) \<noteq> [] \<longrightarrow>
        ss_extra_data (sm_sub_streams (dm_meta dm1) ! j) \<noteq> [])"

lemma grows_refl [simp]: "grows dm dm"
  by (simp add: grows_def)

lemma extra_sizes_positive:
  "GetExtraDataSize h pkt = Ret n \<Longrightarrow> n \<noteq> 0 \<Longrightarrow> 0 < n \<and> pkt_data pkt \<noteq> []"
  "GetExtraDataSize_mpeg4 pkt = Ret n \<Longrightarrow> n \<noteq> 0 \<Longrightarrow> 0 < n \<and> pkt_data pkt \<noteq> []"
proof -
  show "0 < n \<and> pkt_data pkt \<noteq> []" if g: "GetExtraDataSize h pkt = Ret n" and n: "n \<noteq> 0"
  proof (cases "pkt_data pkt")
    case Nil
    with g n show ?thesis by (auto simp: GetExtraDataSize_def Let_def split: if_splits)
  next
    case Cons
    with g n show ?thesis by (auto simp: GetExtraDataSize_def Let_def split: if_splits prod.splits option.splits)
  qed
  have v: "vop_scan i d = Some k \<Longrightarrow> i \<le> k" for i d k by (induction i d rule: vop_scan.induct) (auto split: if_splits)
  show "0 < n \<and> pkt_data pkt \<noteq> []" if g: "GetExtraDataSize_mpeg4 pkt = Ret n" and n: "n \<noteq> 0"
  proof -
    have t: "take 4 (take (nat (pkt_size pkt)) (pkt_data pkt)) = [0, 0, 1, 0xB0]"
      using g n by (auto simp: GetExtraDataSize_mpeg4_def Let_def split: if_splits)
    then have "pkt_data pkt \<noteq> []" "0 < pkt_size pkt" by (auto intro: ccontr)
    with g n t show ?thesis by (auto simp: GetExtraDataSize_mpeg4_def Let_def split: if_splits option.splits dest: v)
  qed
qed

lemma video_update_grows:
  assumes "DoUpdateMeta_video g st pkt dm p = Ret (changed, dm1)" "\<And>n. g pkt = Ret n \<Longrightarrow> n \<noteq> 0 \<Longrightarrow> 0 < n \<and> pkt_data pkt \<noteq> []"
  shows "grows dm dm1"
proof (cases "pkt_key pkt")
  case True
  then obtain m cm n where m: "sub_stream dm (sp_stream_index p) = Ret m" and u: "update_video st m = Ret cm"
    and n: "n = 0 \<or> g pkt = Ret n" and r: "dm1 = set_sub_stream dm (sp_stream_index p) (snd (update_extra n pkt cm))"
    using assms(1) by (auto simp: DoUpdateMeta_video_def bind_cpp_Ret_conv Let_def split: if_splits)
  have "ss_extra_data (snd cm) = ss_extra_data m"
    using u by (auto simp: update_video_def bind_cpp_Ret_conv Let_def split: if_splits prod.splits)
  moreover have "n \<noteq> 0 \<Longrightarrow> text_of (take (nat n) (pkt_data pkt)) \<noteq> []" using n assms(2) by (auto simp: text_of_def)
  ultimately show ?thesis using m r
    by (auto simp: grows_def set_sub_stream_def sub_stream_def update_extra_def Let_def nth_list_update split: if_splits)
next
  case False
  with assms(1) show ?thesis by (simp add: DoUpdateMeta_video_def)
qed

lemma DoUpdateMeta_grows: "DoUpdateMeta st pkt dm p = Ret (changed, dm1) \<Longrightarrow> grows dm dm1"
  by (auto simp: DoUpdateMeta_def base_DoUpdateMeta_def DoUpdateMeta_h264or5_def DoUpdateMeta_mpeg4_def
      split: parser_kind.splits if_splits elim!: video_update_grows dest: extra_sizes_positive)

text \<open>What parsing keeps of a parser.\<close>

definition same_parser :: "StreamParser \<Rightarrow> StreamParser \<Rightarrow> bool" where
  "same_parser p p1 \<longleftrightarrow> sp_stream_index p1 = sp_stream_index p \<and> sp_is_init p1 = sp_is_init p \<and> (sp_kind p1 = Plain_Parser \<longleftrightarrow> sp_kind p = Plain_Parser)"

lemma base_Parse_live:
  assumes "base_Parse DoUpdateMeta now_sec now_usec st pkt dm p = Ret (ret, fi, pkt1, changed, dm1, p1)"
  shows "grows dm dm1 \<and> same_parser p p1 \<and> (\<forall>f. fi = Some f \<longrightarrow> fi_sub_stream_index f = sp_stream_index p)"
proof (cases "pkt_corrupt pkt")
  case True
  with assms show ?thesis by (auto simp: base_Parse_def same_parser_def)
next
  case False
  with assms obtain r frame_info dm2 p2 where i: "DoUpdateFrameInfo now_sec now_usec st pkt dm p = Ret (r, frame_info, dm2, p2)"
    and c: "(dm1 = dm2 \<and> fi = None \<and> p1 = p2) \<or> (\<exists>b. DoUpdateMeta st pkt dm2 p2 = Ret (b, dm1)) \<and> (fi = None \<or> fi = Some frame_info) \<and> same_parser p2 p1"
    by (auto simp: base_Parse_def bind_cpp_Ret_conv Let_def same_parser_def split: if_splits)
  have "grows dm2 dm1" using c by (auto dest: DoUpdateMeta_grows)
  then have "grows dm dm1" using frame_info_keeps [OF i] by (simp add: grows_def)
  moreover have "fi_sub_stream_index frame_info = sp_stream_index p" using i by (auto simp: DoUpdateFrameInfo_def bind_cpp_Ret_conv)
  ultimately show ?thesis using c frame_info_keeps [OF i] by (auto simp: same_parser_def)
qed

lemma Parse_packet_live:
  assumes "Parse_packet now_sec now_usec st pkt dm p = Ret (ret, fi, pkt1, changed, dm1, p1)"
  shows "grows dm dm1 \<and> same_parser p p1 \<and> (\<forall>f. fi = Some f \<longrightarrow> fi_sub_stream_index f = sp_stream_index p)"
proof (cases "\<exists>h b n. sp_kind p = H264or5_Parser h b n")
  case True
  then obtain d pkt2 p2 where h: "add_header (pkt\<lparr>pkt_data := d\<rparr>) p = Ret (pkt2, p2)"
    "base_Parse DoUpdateMeta now_sec now_usec st pkt2 dm p2 = Ret (ret, fi, pkt1, changed, dm1, p1)"
    using assms by (auto simp: Parse_packet_def bind_cpp_Ret_conv)
  have "same_parser p p2 " using h(1) by (auto simp: add_header_def same_parser_def Let_def split: parser_kind.splits if_splits)
  with base_Parse_live [OF h(2)] show ?thesis by (auto simp: same_parser_def)
next
  case False
  with assms have "base_Parse DoUpdateMeta now_sec now_usec st pkt dm p = Ret (ret, fi, pkt1, changed, dm1, p1)"
    by (auto simp: Parse_packet_def split: parser_kind.splits)
  then show ?thesis by (rule base_Parse_live)
qed


lemma ready_mono:
  assumes "IsMetaReady_parser dm p = Ret True" "grows dm dm1" "same_parser p p1"
  shows "IsMetaReady_parser dm1 p1 = Ret True"
proof (cases "sp_kind p = Plain_Parser")
  case True
  with assms(3) show ?thesis by (simp add: IsMetaReady_parser_def same_parser_def)
next
  case False
  let ?ready = "\<lambda>dm p. sp_is_init p \<and> 0 \<le> sp_stream_index p \<and> nat (sp_stream_index p) < length (sm_sub_streams (dm_meta dm)) \<and>
    ss_extra_data (sm_sub_streams (dm_meta dm) ! nat (sp_stream_index p)) \<noteq> []"
  have r: "IsMetaReady_parser dm p = Ret True \<longleftrightarrow> ?ready dm p" if "sp_kind p \<noteq> Plain_Parser" for dm p
    using that by (auto simp: IsMetaReady_parser_def sub_stream_def bind_cpp_Ret_conv split: parser_kind.splits)
  have "sp_kind p1 \<noteq> Plain_Parser" using False assms(3) by (simp add: same_parser_def)
  with r [OF this] r [OF False] assms show ?thesis by (auto simp: grows_def same_parser_def)
qed

lemma ready_same_meta:
  assumes "dm_meta dm1 = dm_meta dm"
  shows "IsMetaReady_parser dm1 p = IsMetaReady_parser dm p"
proof -
  have "sub_stream dm1 i = sub_stream dm i" for i using assms by (simp add: sub_stream_def)
  then show ?thesis by (cases "sp_kind p") (simp_all add: IsMetaReady_parser_def)
qed

lemma parsers_ready_all: "parsers_ready dm ps = Ret True \<longleftrightarrow> (\<forall>p \<in> set ps. IsMetaReady_parser dm p = Ret True)"
  by (induction ps) (auto simp: bind_cpp_Ret_conv)

text \<open>An open demuxer whose frames belong to the metadata.\<close>

definition node_ok :: "FFmpegDemuxer \<Rightarrow> MediaFrameInfo \<times> AVPacket \<Rightarrow> bool" where
  "node_ok dm n \<longleftrightarrow> fi_ssrc (fst n) = dm_ssrc dm \<and> fi_sub_stream_index (fst n) < int (length (sm_sub_streams (dm_meta dm)))"

definition demuxer_ok :: "FFmpegDemuxer \<Rightarrow> bool" where
  "demuxer_ok dm \<longleftrightarrow> dm_open dm \<and> dm_io_enabled dm \<and> sm_ssrc (dm_meta dm) = dm_ssrc dm \<and>
     (\<forall>p \<in> set (dm_stream_parsers dm). sp_stream_index p < int (length (sm_sub_streams (dm_meta dm)))) \<and>
     (\<forall>n \<in> set (dm_cached_pkts dm). node_ok dm n)"

definition same_meta :: "FFmpegDemuxer \<Rightarrow> FFmpegDemuxer \<Rightarrow> bool" where
  "same_meta dm dm1 \<longleftrightarrow> dm_ssrc dm1 = dm_ssrc dm \<and> length (sm_sub_streams (dm_meta dm1)) = length (sm_sub_streams (dm_meta dm))"

definition demuxer_kept :: "FFmpegDemuxer \<Rightarrow> FFmpegDemuxer \<Rightarrow> bool" where
  "demuxer_kept dm dm1 \<longleftrightarrow> demuxer_ok dm1 \<and> same_meta dm dm1 \<and>
     (IsMetaReady_demuxer dm = Ret True \<longrightarrow> IsMetaReady_demuxer dm1 = Ret True)"

lemma read_frame_kept:
  assumes "demuxer_ok dm" "read_frame rs dm = Some (r, dm1, rest)"
  shows "demuxer_kept dm dm1"
proof -
  have m: "dm_meta dm1 = dm_meta dm \<and> dm_stream_parsers dm1 = dm_stream_parsers dm"
    using assms(2) by (induction rs dm rule: read_frame.induct) (auto simp: Let_def StopIO_def StartIO_def split: if_splits)
  then show ?thesis using assms(1) read_frame_same [OF assms(2)] ready_same_meta [of dm1 dm]
    by (auto simp: demuxer_kept_def demuxer_ok_def same_meta_def same_io_def node_ok_def IsMetaReady_demuxer_def parsers_ready_all)
qed

lemma parse_frame_kept:
  assumes ok: "demuxer_ok dm" and p: "parse_frame r dm = Ret (ret, node, changed, dm1)"
  shows "demuxer_kept dm dm1 \<and> (\<forall>n. node = Some n \<longrightarrow> node_ok dm1 n)"
proof -
  let ?i = "nat (pkt_stream_index (rd_pkt r))"
  show ?thesis
  proof (cases "?i \<ge> length (dm_stream_parsers dm)")
    case True
    with ok p show ?thesis by (auto simp: parse_frame_def Let_def demuxer_kept_def same_meta_def split: if_splits)
  next
    case False
    with p obtain fi pkt dm2 q where
      q: "Parse_packet (rd_now_sec r) (rd_now_usec r) (rd_streams r ! ?i) (rd_pkt r) dm (dm_stream_parsers dm ! ?i) = Ret (ret, fi, pkt, changed, dm2, q)"
      and d: "dm1 = dm2\<lparr>dm_stream_parsers := (dm_stream_parsers dm2)[?i := q]\<rparr>"
      and n: "node = (if ret = 0 then map_option (\<lambda>f. (f\<lparr>fi_ssrc := dm_ssrc dm2\<rparr>, pkt)) fi else None)"
      by (auto simp: parse_frame_def Let_def bind_cpp_Ret_conv split: if_splits)
    note k = Parse_packet_live [OF q] and s = Parse_packet_same [OF q]
    have m: "dm_stream_parsers dm1 = (dm_stream_parsers dm)[?i := q]" "dm_meta dm1 = dm_meta dm2" "dm_ssrc dm1 = dm_ssrc dm"
      "dm_cached_pkts dm1 = dm_cached_pkts dm" "dm_open dm1 = dm_open dm" "dm_io_enabled dm1 = dm_io_enabled dm"
      "length (sm_sub_streams (dm_meta dm1)) = length (sm_sub_streams (dm_meta dm))" "sm_ssrc (dm_meta dm1) = sm_ssrc (dm_meta dm)"
      using k s d by (simp_all add: grows_def same_io_def)
    have pi: "sp_stream_index (dm_stream_parsers dm ! ?i) < int (length (sm_sub_streams (dm_meta dm)))"
      using ok False by (simp add: demuxer_ok_def)
    have "demuxer_ok dm1"
      using ok m k pi by (auto simp: demuxer_ok_def node_ok_def same_parser_def dest!: set_update_subset_insert [THEN subsetD])
    moreover have "\<forall>n. node = Some n \<longrightarrow> node_ok dm1 n"
      using n k pi m s by (auto simp: node_ok_def same_io_def split: if_splits)
    moreover have "IsMetaReady_demuxer dm1 = Ret True" if ready: "IsMetaReady_demuxer dm = Ret True"
      unfolding IsMetaReady_demuxer_def parsers_ready_all
    proof
      fix p assume "p \<in> set (dm_stream_parsers dm1)"
      then consider "p = q" | "p \<in> set (dm_stream_parsers dm)" using m(1) set_update_subset_insert by fastforce
      then have "\<exists>p0 \<in> set (dm_stream_parsers dm). same_parser p0 p"
      proof cases
        case 1
        with k False show ?thesis by (intro bexI [of _ "dm_stream_parsers dm ! ?i"]) simp_all
      qed (auto simp: same_parser_def)
      then have "IsMetaReady_parser dm2 p = Ret True"
        using ready k ready_mono unfolding IsMetaReady_demuxer_def parsers_ready_all by blast
      then show "IsMetaReady_parser dm1 p = Ret True"
        using ready_same_meta [OF m(2)] by simp
    qed
    ultimately show ?thesis using m by (simp add: demuxer_kept_def same_meta_def)
  qed
qed


lemma demuxer_kept_trans: "demuxer_kept a b \<Longrightarrow> demuxer_kept b c \<Longrightarrow> demuxer_kept a c"
  by (simp add: demuxer_kept_def same_meta_def)

lemma demuxer_kept_refl: "demuxer_ok dm \<Longrightarrow> demuxer_kept dm dm"
  by (simp add: demuxer_kept_def same_meta_def)

text \<open>One call of \<open>ReadPacket\<close>, and its place among the frames that are read.\<close>

lemma ReadPacket_drain:
  assumes "ReadPacket rs dm = Ret (Some ((ret, node, changed, dm1), rest))"
  shows "drain rs dm = (if ret = FFMPEG_SOURCE_ERR_DROP then drain rest dm1
    else if ret \<noteq> 0 then ([], Drain_end ret) else (the node # fst (drain rest dm1), snd (drain rest dm1)))"
    "ret = 0 \<longleftrightarrow> node \<noteq> None"
proof -
  show n: "ret = 0 \<longleftrightarrow> node \<noteq> None"
    using assms by (auto simp: ReadPacket_def bind_cpp_Ret_conv FFMPEG_SOURCE_ERR_IO_def FFMPEG_SOURCE_ERR_EOF_def
        split: if_splits list.splits option.splits av_ret.splits prod.splits dest!: parse_frame_same)
  show "drain rs dm = (if ret = FFMPEG_SOURCE_ERR_DROP then drain rest dm1
    else if ret \<noteq> 0 then ([], Drain_end ret) else (the node # fst (drain rest dm1), snd (drain rest dm1)))"
    using n by (subst drain.simps) (auto simp: assms)
qed

lemma ReadPacket_kept:
  assumes ok: "demuxer_ok dm" and r: "ReadPacket rs dm = Ret (Some ((ret, node, changed, dm1), rest))"
  shows "demuxer_kept dm dm1 \<and> (\<forall>n. node = Some n \<longrightarrow> node_ok dm1 n)"
proof (cases "dm_cached_pkts dm")
  case Nil
  with ok r obtain q dm2 where q: "read_frame rs dm = Some (q, dm2, rest)"
    and c: "dm1 = dm2 \<and> node = None \<or> parse_frame q dm2 = Ret (ret, node, changed, dm1)"
    by (auto simp: ReadPacket_def demuxer_ok_def bind_cpp_Ret_conv split: if_splits option.splits av_ret.splits)
  have k: "demuxer_kept dm dm2" by (rule read_frame_kept [OF ok q])
  then have "demuxer_ok dm2" by (simp add: demuxer_kept_def)
  with c parse_frame_kept [OF this] k demuxer_kept_trans [OF k] show ?thesis by blast
next
  case (Cons n ns)
  with ok r have d: "dm1 = keep_cache ns dm" "node = Some n" by (auto simp: ReadPacket_def demuxer_ok_def keep_cache_def)
  have "IsMetaReady_parser dm1 p = IsMetaReady_parser dm p" for p by (rule ready_same_meta) (simp add: d)
  with ok Cons d show ?thesis
    by (auto simp: demuxer_kept_def demuxer_ok_def same_meta_def node_ok_def IsMetaReady_demuxer_def parsers_ready_all)
qed

section \<open>Publishing\<close>

definition media_blobs :: "'b StreamSource \<Rightarrow> blob list" where
  "media_blobs s = map pb_blob (filter (\<lambda>m. pb_channel m = STSW_PUBLISH_MEDIA_CHANNEL) (src_pub_sent s))"

definition frame_blob :: "MediaFrameInfo \<times> AVPacket \<Rightarrow> blob" where
  "frame_blob n = blob_part (Some (text_of (take (nat (pkt_size (snd n))) (pkt_data (snd n)))))"

lemma set_state_keeps [simp]:
  "media_blobs (fs_source (set_state E st f)) = media_blobs (fs_source f)" "fs_demuxer (set_state E st f) = fs_demuxer f"
  "IsInit (fs_source (set_state E st f)) = IsInit (fs_source f)" "src_stream_meta (fs_source (set_state E st f)) = src_stream_meta (fs_source f)"
  by (auto simp: set_state_def set_stream_state_def SendStreamInfo_def SendPublishMsg_def media_blobs_def IsInit_def Let_def
      STSW_PUBLISH_INFO_CHANNEL_def STSW_PUBLISH_MEDIA_CHANNEL_def split: option.splits)

lemma set_state_fields:
  "fs_io_timeout (set_state E st f) = fs_io_timeout f" "fs_local_gap_max_time (set_state E st f) = fs_local_gap_max_time f"
  "fs_native_frame_rate (set_state E st f) = fs_native_frame_rate f" "fs_is_started (set_state E st f) = fs_is_started f"
  "fs_on_error_fun (set_state E st f) = fs_on_error_fun f" "fs_error_calls (set_state E st f) = fs_error_calls f"
  "fs_meta (set_state E st f) = fs_meta f"
  by (simp_all add: set_state_def)

lemma set_stream_meta_keeps [simp]:
  "media_blobs (set_stream_meta m s) = media_blobs s" "IsInit (set_stream_meta m s) = IsInit s" "src_stream_meta (set_stream_meta m s) = m"
  by (auto simp: set_stream_meta_def media_blobs_def IsInit_def Let_def)

lemma send_media_blobs:
  assumes "SendLiveMediaFrame C fi d s = Ret (ret, t)"
  shows "ret \<noteq> 0 \<Longrightarrow> media_blobs t = media_blobs s" "ret = 0 \<Longrightarrow> media_blobs t = media_blobs s @ [blob_part d]"
    "IsInit t = IsInit s" "src_stream_meta t = src_stream_meta s"
    "IsInit s \<Longrightarrow> fi_ssrc fi = sm_ssrc (src_stream_meta s) \<Longrightarrow> fi_sub_stream_index fi < int (length (sm_sub_streams (src_stream_meta s))) \<Longrightarrow> ret = 0"
  using assms
  by (auto simp: SendLiveMediaFrame_def SendPublishMsg_def media_blobs_def IsInit_def STSW_PUBLISH_MEDIA_CHANNEL_def Let_def ERROR_CODE_GENERAL_def
      ERROR_CODE_PARAM_def split: if_splits prod.splits)

text \<open>Sending one frame.\<close>

lemma send_frame_blobs:
  assumes "send_frame L now fi pkt f = Ret (nx, now1, f1)"
  shows "fs_demuxer f1 = fs_demuxer f \<and>
    (if nx = Live_continue 0 then media_blobs (fs_source f1) = media_blobs (fs_source f) @ [frame_blob (fi, pkt)]
     else media_blobs (fs_source f1) = media_blobs (fs_source f) \<and> (\<forall>r. nx \<noteq> Live_continue r))"
proof -
  have b: "pkt_blob dm pkt = Ret b \<Longrightarrow> blob_part b = frame_blob (fi, pkt)" for dm b
    by (auto simp: pkt_blob_def frame_blob_def split: if_splits)
  show ?thesis using assms
    by (auto simp: send_frame_def Let_def bind_cpp_Ret_conv split: if_splits option.splits dest!: b dest: send_media_blobs(1,2))
qed


lemma refresh_meta_blobs:
  assumes "refresh_meta L changed rs f = Ret (nx, f1, rest)"
  shows "media_blobs (fs_source f1) = media_blobs (fs_source f)" "nx = Live_continue 0 \<Longrightarrow> drain rest (fs_demuxer f1) = drain rs (fs_demuxer f)"
    "nx \<noteq> Live_continue 0 \<Longrightarrow> \<forall>r. nx \<noteq> Live_continue r"
proof -
  have "media_blobs (fs_source f1) = media_blobs (fs_source f) \<and>
    (if nx = Live_continue 0 then drain rest (fs_demuxer f1) = drain rs (fs_demuxer f) else \<forall>r. nx \<noteq> Live_continue r)"
  proof (cases "changed = Some True")
    case True
    then obtain res where r: "ReadMeta (lp_mono L) META_READ_TIMEOUT rs (fs_demuxer f) = Ret res"
      using assms by (auto simp: refresh_meta_def bind_cpp_Ret_conv)
    show ?thesis
    proof (cases res)
      case None
      with True r assms show ?thesis by (auto simp: refresh_meta_def)
    next
      case (Some a)
      then obtain ret meta dm r1 where a: "res = Some ((ret, meta, dm), r1)" by (cases a) auto
      with r have "ret = 0 \<Longrightarrow> drain r1 dm = drain rs (fs_demuxer f)" by (simp add: ReadMeta_drain(1))
      with a True r assms show ?thesis by (auto simp: refresh_meta_def Let_def split: if_splits)
    qed
  qed (use assms in \<open>auto simp: refresh_meta_def\<close>)
  then show "media_blobs (fs_source f1) = media_blobs (fs_source f)" "nx = Live_continue 0 \<Longrightarrow> drain rest (fs_demuxer f1) = drain rs (fs_demuxer f)"
    "nx \<noteq> Live_continue 0 \<Longrightarrow> \<forall>r. nx \<noteq> Live_continue r" by (auto split: if_splits)
qed

text \<open>One pass of the thread: it ends or waits without having published anything, drops a packet, or publishes the next frame.\<close>

lemma live_pass_cases:
  assumes "live_pass L rs now f = Ret (nx, now1, f1, rest)"
  obtains "\<forall>r. nx \<noteq> Live_continue r" "media_blobs (fs_source f1) = media_blobs (fs_source f)"
  | "nx = Live_continue FFMPEG_SOURCE_ERR_DROP" "media_blobs (fs_source f1) = media_blobs (fs_source f)"
    "drain rs (fs_demuxer f) = drain rest (fs_demuxer f1)"
  | n where "nx = Live_continue 0" "media_blobs (fs_source f1) = media_blobs (fs_source f) @ [frame_blob n]"
    "fst (drain rs (fs_demuxer f)) = n # fst (drain rest (fs_demuxer f1))" "snd (drain rs (fs_demuxer f)) = snd (drain rest (fs_demuxer f1))"
proof (cases "ReadPacket rs (fs_demuxer f)")
  case Undef
  with assms that show thesis by (simp add: live_pass_def)
next
  case (Ret res)
  show thesis
  proof (cases res)
    case None
    with Ret assms that(1) show thesis by (auto simp: live_pass_def)
  next
    case (Some a)
    then obtain ret node changed dm r1 where a: "res = Some ((ret, node, changed, dm), r1)" by (cases a) auto
    with Ret have read: "ReadPacket rs (fs_demuxer f) = Ret (Some ((ret, node, changed, dm), r1))" by simp
    note d = ReadPacket_drain [OF read]
    show thesis
    proof (cases node)
      case None
      with d(2) assms read have "ret \<noteq> 0" "(nx = Live_continue ret \<and> ret = FFMPEG_SOURCE_ERR_DROP \<and> f1 = f\<lparr>fs_demuxer := dm\<rparr> \<and> rest = r1) \<or>
          (nx = Live_break ret \<and> media_blobs (fs_source f1) = media_blobs (fs_source f))"
        by (auto simp: live_pass_def Let_def split: if_splits)
      with d(1) that(1,2) show thesis by auto
    next
      case (Some n)
      obtain fi pkt where n: "n = (fi, pkt)" by (cases n)
      obtain n1 f2 where m: "refresh_meta L changed r1 (f\<lparr>fs_demuxer := dm\<rparr>) = Ret (n1, f2, rest)"
        and c: "(n1 \<noteq> Live_continue 0 \<and> nx = n1 \<and> f1 = f2) \<or> (n1 = Live_continue 0 \<and> send_frame L now fi pkt f2 = Ret (nx, now1, f1))"
        using assms read Some n d(2) by (auto simp: live_pass_def Let_def bind_cpp_Ret_conv split: if_splits)
      have "(\<forall>r. nx \<noteq> Live_continue r) \<and> media_blobs (fs_source f1) = media_blobs (fs_source f) \<or>
        (\<exists>f2. send_frame L now fi pkt f2 = Ret (nx, now1, f1) \<and> media_blobs (fs_source f2) = media_blobs (fs_source f) \<and>
           drain rest (fs_demuxer f2) = drain r1 dm)"
        using c refresh_meta_blobs [OF m] by auto
      then show thesis
      proof (elim disjE exE conjE)
        fix f2 assume s: "send_frame L now fi pkt f2 = Ret (nx, now1, f1)" "media_blobs (fs_source f2) = media_blobs (fs_source f)"
          "drain rest (fs_demuxer f2) = drain r1 dm"
        have "ret = 0" using d(2) Some by simp
        with d(1) Some have "drain rs (fs_demuxer f) = (n # fst (drain r1 dm), snd (drain r1 dm))" by (simp add: FFMPEG_SOURCE_ERR_DROP_def)
        with s send_frame_blobs [OF s(1)] n that(1,3) show thesis by (auto split: if_splits)
      qed (rule that(1))
    qed
  qed
qed

lemma live_loop_step:
  assumes "live_loop (L # Ls) ret rs now f = Ret (e, f1, rest)" "lp_started L"
  obtains nx now1 f2 r2 where "live_pass L rs now f = Ret (nx, now1, f2, r2)"
    "(case nx of Live_continue ret1 \<Rightarrow> live_loop Ls ret1 r2 now1 f2 | Live_break ret1 \<Rightarrow> Ret (Some ret1, f2, r2)
      | Live_waiting \<Rightarrow> Ret (None, f2, r2)) = Ret (e, f1, rest)"
proof -
  obtain x where "live_pass L rs now f = Ret x" "(case x of (nx, now1, f2, r2) \<Rightarrow> case nx of Live_continue ret1 \<Rightarrow> live_loop Ls ret1 r2 now1 f2
      | Live_break ret1 \<Rightarrow> Ret (Some ret1, f2, r2) | Live_waiting \<Rightarrow> Ret (None, f2, r2)) = Ret (e, f1, rest)"
    using assms by (auto simp only: live_loop.simps bind_cpp_Ret_conv not_not if_False simp_thms)
  with that show thesis by (cases x) simp
qed

lemma InternalLiveRoutine_end:
  assumes "InternalLiveRoutine Ls started rs garbage f = Ret (ended, f1, rest)"
  obtains e f2 where "live_loop Ls 0 rs garbage f = Ret (e, f2, rest)" "fs_source f1 = fs_source f2"
    "fs_error_calls f1 = fs_error_calls f2 @ (case e of Some r \<Rightarrow> if started \<and> r \<noteq> 0 \<and> fs_on_error_fun f2 then [r] else [] | None \<Rightarrow> [])"
proof -
  obtain e f2 r2 where "live_loop Ls 0 rs garbage f = Ret (e, f2, r2)" using assms by (auto simp: InternalLiveRoutine_def bind_cpp_Ret_conv)
  with assms that show thesis by (cases e) (auto simp: InternalLiveRoutine_def split: if_splits)
qed

lemma live_loop_prefix:
  assumes "live_loop Ls ret rs now f = Ret (e, f1, rest)"
  shows "\<exists>k \<le> length (fst (drain rs (fs_demuxer f))).
    media_blobs (fs_source f1) = media_blobs (fs_source f) @ map frame_blob (take k (fst (drain rs (fs_demuxer f))))"
  using assms
proof (induction Ls arbitrary: ret rs now f)
  case Nil
  then show ?case by (auto intro!: exI [of _ 0])
next
  case (Cons L Ls)
  show ?case
  proof (cases "lp_started L")
    case False
    with Cons.prems show ?thesis by (auto intro!: exI [of _ 0])
  next
    case True
    from live_loop_step [OF Cons.prems this] obtain nx now1 f2 r2 where p: "live_pass L rs now f = Ret (nx, now1, f2, r2)"
      and c: "(case nx of Live_continue ret1 \<Rightarrow> live_loop Ls ret1 r2 now1 f2 | Live_break ret1 \<Rightarrow> Ret (Some ret1, f2, r2)
        | Live_waiting \<Rightarrow> Ret (None, f2, r2)) = Ret (e, f1, rest)" .
    from p show ?thesis
    proof (cases rule: live_pass_cases)
      case 1
      with c have "f1 = f2" by (auto split: live_next.splits)
      with 1 show ?thesis by (auto intro!: exI [of _ 0])
    next
      case 2
      with c have "live_loop Ls FFMPEG_SOURCE_ERR_DROP r2 now1 f2 = Ret (e, f1, rest)" by simp
      from Cons.IH [OF this] 2 show ?thesis by simp
    next
      case (3 n)
      with c have "live_loop Ls 0 r2 now1 f2 = Ret (e, f1, rest)" by simp
      from Cons.IH [OF this] obtain k where "k \<le> length (fst (drain r2 (fs_demuxer f2)))"
        "media_blobs (fs_source f1) = media_blobs (fs_source f2) @ map frame_blob (take k (fst (drain r2 (fs_demuxer f2))))" by blast
      with 3 show ?thesis by (intro exI [of _ "Suc k"]) simp
    qed
  qed
qed


section \<open>Every frame is published\<close>

text \<open>The state between two passes of the thread of a source that does not wait for the time of a frame; \<open>g\<close> is the
  largest gap to the local time that it accepts, if positive.\<close>

definition live_ok :: "int \<Rightarrow> 'b FFmpegDemuxerSource \<Rightarrow> bool" where
  "live_ok g f \<longleftrightarrow> demuxer_ok (fs_demuxer f) \<and> IsMetaReady_demuxer (fs_demuxer f) = Ret True \<and> IsInit (fs_source f) \<and>
     sm_ssrc (src_stream_meta (fs_source f)) = dm_ssrc (fs_demuxer f) \<and>
     length (sm_sub_streams (src_stream_meta (fs_source f))) = length (sm_sub_streams (dm_meta (fs_demuxer f))) \<and>
     fs_local_gap_max_time f = g \<and> \<not> fs_native_frame_rate f"

text \<open>A frame that is too far from the clock at one of the passes.\<close>

definition gap_at :: "'b live_env \<Rightarrow> int \<Rightarrow> MediaFrameInfo \<times> AVPacket \<Rightarrow> bool" where
  "gap_at L g n \<longleftrightarrow> g > 0 \<and> gap_too_much (lp_now L) (fst n) g"

lemma ReadMeta_ready:
  "demuxer_ok dm \<Longrightarrow> IsMetaReady_demuxer dm = Ret True \<Longrightarrow> ReadMeta start timeout rs dm = Ret (Some ((0, Some (dm_meta dm), dm), rs))"
  by (simp add: ReadMeta_def demuxer_ok_def read_meta_loop.simps [of start])

lemma refresh_meta_ok:
  assumes "live_ok g f" "refresh_meta L changed rs f = Ret (nx, f1, rest)"
  shows "live_ok g f1" "nx = Live_continue 0" "fs_demuxer f1 = fs_demuxer f" "rest = rs"
  using assms
  by (auto simp: refresh_meta_def live_ok_def ReadMeta_ready Let_def demuxer_ok_def split: if_splits)

lemma send_frame_ok:
  assumes "live_ok g f" "node_ok (fs_demuxer f) (fi, pkt)" "send_frame L now fi pkt f = Ret (nx, now1, f1)"
  shows "if gap_at L g (fi, pkt) then nx = Live_break FFMPEG_SOURCE_ERR_GAP else live_ok g f1 \<and> nx = Live_continue 0"
proof (cases "gap_at L g (fi, pkt)")
  case True
  with assms show ?thesis by (auto simp: gap_at_def send_frame_def live_ok_def Let_def)
next
  case False
  with assms obtain b r s where b: "SendLiveMediaFrame (se_codec (lp_env L)) fi b (fs_source f) = Ret (r, s)"
    and c: "if r \<noteq> 0 then nx = Live_break FFMPEG_SOURCE_ERR_GENERAL else nx = Live_continue 0 \<and> f1 = f\<lparr>fs_source := s\<rparr>"
    by (auto simp: gap_at_def send_frame_def live_ok_def Let_def bind_cpp_Ret_conv split: if_splits)
  have "r = 0" using send_media_blobs(5) [OF b] assms(1,2) by (auto simp: live_ok_def node_ok_def)
  with False c send_media_blobs(3,4) [OF b] assms(1) show ?thesis by (auto simp: live_ok_def)
qed

lemma live_pass_ok:
  assumes ok: "live_ok g f" and p: "live_pass L rs now f = Ret (nx, now1, f1, rest)"
  shows "case nx of
      Live_waiting \<Rightarrow> drain rs (fs_demuxer f) = ([], Drain_waiting)
    | Live_break r \<Rightarrow> drain rs (fs_demuxer f) = ([], Drain_end r) \<or>
        r = FFMPEG_SOURCE_ERR_GAP \<and> (\<exists>n ns. fst (drain rs (fs_demuxer f)) = n # ns \<and> gap_at L g n)
    | Live_continue r \<Rightarrow> live_ok g f1 \<and> length rest + length (dm_cached_pkts (fs_demuxer f1)) < length rs + length (dm_cached_pkts (fs_demuxer f))"
proof (cases "ReadPacket rs (fs_demuxer f)")
  case Undef
  with p show ?thesis by (simp add: live_pass_def)
next
  case (Ret res)
  show ?thesis
  proof (cases res)
    case None
    with Ret have "drain rs (fs_demuxer f) = ([], Drain_waiting)" by (subst drain.simps) simp
    with None Ret p show ?thesis by (auto simp: live_pass_def)
  next
    case (Some a)
    then obtain ret node changed dm r1 where "res = Some ((ret, node, changed, dm), r1)" by (cases a) auto
    with Ret have read: "ReadPacket rs (fs_demuxer f) = Ret (Some ((ret, node, changed, dm), r1))" by simp
    have "demuxer_ok (fs_demuxer f)" using ok by (simp add: live_ok_def)
    note k = ReadPacket_kept [OF this read] and d = ReadPacket_drain [OF read] and s = ReadPacket_smaller [OF read]
    have ok1: "live_ok g (f\<lparr>fs_demuxer := dm\<rparr>)" using k ok by (simp add: live_ok_def demuxer_kept_def same_meta_def)
    show ?thesis
    proof (cases node)
      case None
      with d p read have "ret \<noteq> 0" "if ret = FFMPEG_SOURCE_ERR_DROP then nx = Live_continue ret \<and> f1 = f\<lparr>fs_demuxer := dm\<rparr> \<and> rest = r1 else nx = Live_break ret"
        by (auto simp: live_pass_def Let_def FFMPEG_SOURCE_ERR_DROP_def FFMPEG_SOURCE_ERR_IO_def split: if_splits)
      with d(1) s ok1 show ?thesis by (auto split: if_splits)
    next
      case (Some n)
      obtain fi pkt where n: "n = (fi, pkt)" by (cases n)
      have "ret = 0" using d(2) Some by simp
      then obtain n1 f2 where m: "refresh_meta L changed r1 (f\<lparr>fs_demuxer := dm\<rparr>) = Ret (n1, f2, rest)"
        and c: "n1 \<noteq> Live_continue 0 \<or> send_frame L now fi pkt f2 = Ret (nx, now1, f1)"
        using p read Some n by (auto simp: live_pass_def Let_def bind_cpp_Ret_conv split: if_splits)
      note r = refresh_meta_ok [OF ok1 m]
      then have sf: "send_frame L now fi pkt f2 = Ret (nx, now1, f1)" and no: "node_ok (fs_demuxer f2) (fi, pkt)"
        using c k Some n by auto
      have "fs_demuxer f1 = dm" using send_frame_blobs [OF sf] r(3) by simp
      moreover have "fst (drain rs (fs_demuxer f)) = (fi, pkt) # fst (drain r1 dm)"
        using d(1) Some n \<open>ret = 0\<close> by (simp add: FFMPEG_SOURCE_ERR_DROP_def)
      ultimately show ?thesis using send_frame_ok [OF r(1) no sf] s \<open>ret = 0\<close> r(4) by (auto split: if_splits)
    qed
  qed
qed

text \<open>The end of a run: every frame has been published, or the first \<open>k\<close> of them and the next one is too far from the
  clock.\<close>

definition all_or_gap ::
  "'b live_env set \<Rightarrow> int \<Rightarrow> (MediaFrameInfo \<times> AVPacket) list \<times> drain_end \<Rightarrow> blob list \<Rightarrow> int option \<Rightarrow> bool" where
  "all_or_gap Ls g d out e \<longleftrightarrow>
     out = map frame_blob (fst d) \<and> e = (case snd d of Drain_end r \<Rightarrow> Some r | _ \<Rightarrow> None) \<or>
     (\<exists>k < length (fst d). out = map frame_blob (take k (fst d)) \<and> e = Some FFMPEG_SOURCE_ERR_GAP \<and>
        (\<exists>L \<in> Ls. gap_at L g (fst d ! k)))"

lemma all_or_gap_Cons:
  assumes "all_or_gap A g d out e" "A \<subseteq> B" "fst d1 = n # fst d" "snd d1 = snd d"
  shows "all_or_gap B g d1 (frame_blob n # out) e"
  using assms unfolding all_or_gap_def
  by (elim disjE exE conjE) (fastforce intro: exI [of _ "Suc k" for k])+

lemma live_loop_all:
  assumes "live_ok g f" "live_loop Ls ret rs now f = Ret (e, f1, rest)" "\<forall>L \<in> set Ls. lp_started L"
    "length rs + length (dm_cached_pkts (fs_demuxer f)) < length Ls"
  shows "\<exists>out. media_blobs (fs_source f1) = media_blobs (fs_source f) @ out \<and>
    all_or_gap (set Ls) g (drain rs (fs_demuxer f)) out e"
  using assms
proof (induction Ls arbitrary: ret rs now f)
  case (Cons L Ls)
  from Cons.prems(3) have "lp_started L" by simp
  from live_loop_step [OF Cons.prems(2) this] obtain nx now1 f2 r2 where p: "live_pass L rs now f = Ret (nx, now1, f2, r2)"
    and c: "(case nx of Live_continue ret1 \<Rightarrow> live_loop Ls ret1 r2 now1 f2 | Live_break ret1 \<Rightarrow> Ret (Some ret1, f2, r2)
        | Live_waiting \<Rightarrow> Ret (None, f2, r2)) = Ret (e, f1, rest)" .
  note k = live_pass_ok [OF Cons.prems(1) p]
  show ?case
  proof (cases nx)
    case (Live_continue r)
    then have "live_ok g f2" "live_loop Ls r r2 now1 f2 = Ret (e, f1, rest)" "length r2 + length (dm_cached_pkts (fs_demuxer f2)) < length Ls"
      using k c Cons.prems(4) by auto
    with Cons.IH [of f2 r r2 now1] Cons.prems(3) obtain out
      where o: "media_blobs (fs_source f1) = media_blobs (fs_source f2) @ out" "all_or_gap (set Ls) g (drain r2 (fs_demuxer f2)) out e" by auto
    from p show ?thesis
    proof (cases rule: live_pass_cases)
      case 2
      with o show ?thesis by (auto simp: all_or_gap_def)
    next
      case (3 n)
      with all_or_gap_Cons [OF o(2), of "set (L # Ls)" "drain rs (fs_demuxer f)" n] o(1) show ?thesis by auto
    qed (use Live_continue in simp)
  next
    case (Live_break r)
    with c have e: "e = Some r" "f1 = f2" by simp_all
    from p Live_break have b: "media_blobs (fs_source f2) = media_blobs (fs_source f)" by (cases rule: live_pass_cases) simp_all
    have "all_or_gap (set (L # Ls)) g (drain rs (fs_demuxer f)) [] e"
      using k Live_break e unfolding all_or_gap_def by (auto intro!: exI [of _ 0])
    with b e show ?thesis by simp
  next
    case Live_waiting
    with p k c show ?thesis by (cases rule: live_pass_cases) (simp_all add: all_or_gap_def)
  qed
qed simp


section \<open>Starting\<close>

lemma set_sub_stream_keeps:
  "same_io dm (set_sub_stream dm i m) \<and> dm_stream_parsers (set_sub_stream dm i m) = dm_stream_parsers dm \<and>
   same_meta dm (set_sub_stream dm i m) \<and> sm_ssrc (dm_meta (set_sub_stream dm i m)) = sm_ssrc (dm_meta dm)"
  by (simp add: same_io_def same_meta_def set_sub_stream_def)

lemma Init_h264or5_cases:
  assumes "\<not> sp_is_init p0" "Init_h264or5 st i dm p0 = Ret (ret, dm1, p)"
  shows "dm1 = dm \<and> ret \<noteq> 0 \<or> (\<exists>m. dm1 = set_sub_stream dm i m) \<and> sp_stream_index p = i"
proof (cases "av_codec_id st \<noteq> AV_CODEC_ID_H264 \<and> av_codec_id st \<noteq> AV_CODEC_ID_H265")
  case True
  with assms(2) show ?thesis by (simp add: Init_h264or5_def)
next
  case False
  from assms(2) show ?thesis
    unfolding Init_h264or5_def Let_def if_not_P [OF False]
  proof (elim bind_cpp_RetE, goal_cases)
    case (1 m r)
    from 1(3) assms(1) show ?case by (cases r; cases "fst r = 0") (auto simp: base_Init_def)
  qed
qed

lemma Init_parser_keeps:
  assumes "Init_parser st i dm (NewStreamParser c) = Ret (ret, dm1, p)"
  shows "same_io dm dm1 \<and> dm_stream_parsers dm1 = dm_stream_parsers dm \<and> same_meta dm dm1 \<and> sm_ssrc (dm_meta dm1) = sm_ssrc (dm_meta dm) \<and>
    (ret = 0 \<longrightarrow> sp_stream_index p = i)"
proof -
  have n: "\<not> sp_is_init (NewStreamParser c)" by (simp add: NewStreamParser_def new_StreamParser_def)
  show ?thesis
  proof (cases "sp_kind (NewStreamParser c)")
    case Plain_Parser
    with assms n show ?thesis by (auto simp: Init_parser_def base_Init_def same_meta_def)
  next
    case (H264or5_Parser h b k)
    then have "Init_h264or5 st i dm (NewStreamParser c) = Ret (ret, dm1, p)" using assms by (simp add: Init_parser_def)
    from Init_h264or5_cases [OF n this] show ?thesis using set_sub_stream_keeps [of dm i] by (auto simp: same_meta_def)
  next
    case Mpeg4_Parser
    then have "Init_mpeg4 i dm (NewStreamParser c) = Ret (ret, dm1, p)" using assms by (simp add: Init_parser_def)
    then show ?thesis using n set_sub_stream_keeps [of dm]
      by (auto simp: Init_mpeg4_def base_Init_def bind_cpp_Ret_conv Let_def)
  qed
qed

lemma open_sub_streams_keeps:
  "open_sub_streams oe i sts dm = Ret (0, dm1) \<Longrightarrow>
     same_io dm dm1 \<and> dm_stream_parsers dm1 = dm_stream_parsers dm \<and> sm_ssrc (dm_meta dm1) = sm_ssrc (dm_meta dm) \<and>
     length (sm_sub_streams (dm_meta dm1)) = length (sm_sub_streams (dm_meta dm)) + length sts"
proof (induction sts arbitrary: i dm)
  case (Cons st sts)
  then obtain m where "open_sub_streams oe (i + 1) sts (dm\<lparr>dm_meta := (dm_meta dm)\<lparr>sm_sub_streams := sm_sub_streams (dm_meta dm) @ [m]\<rparr>\<rparr>) = Ret (0, dm1)"
    by (auto simp: bind_cpp_Ret_conv FFMPEG_SOURCE_ERR_GENERAL_def split: option.splits)
  from Cons.IH [OF this] show ?case by (simp add: same_io_def)
qed simp

lemma open_parsers_ok:
  "open_parsers i sts dm = Ret (0, dm1) \<Longrightarrow> i + length sts \<le> length (sm_sub_streams (dm_meta dm)) \<Longrightarrow>
   \<forall>p \<in> set (dm_stream_parsers dm). sp_stream_index p < int (length (sm_sub_streams (dm_meta dm))) \<Longrightarrow>
     (\<forall>p \<in> set (dm_stream_parsers dm1). sp_stream_index p < int (length (sm_sub_streams (dm_meta dm1)))) \<and>
     dm_open dm1 = dm_open dm \<and> dm_io_enabled dm1 = dm_io_enabled dm \<and> dm_cached_pkts dm1 = dm_cached_pkts dm \<and>
     same_meta dm dm1 \<and> sm_ssrc (dm_meta dm1) = sm_ssrc (dm_meta dm)"
proof (induction sts arbitrary: i dm)
  case Nil
  then show ?case by (simp add: same_meta_def)
next
  case (Cons st sts)
  then obtain dm2 p where i: "Init_parser st (int i) dm (NewStreamParser (av_codec_id st)) = Ret (0, dm2, p)"
    and o: "open_parsers (i + 1) sts (dm2\<lparr>dm_stream_parsers := dm_stream_parsers dm2 @ [p]\<rparr>) = Ret (0, dm1)"
    by (auto simp: bind_cpp_Ret_conv FFMPEG_SOURCE_ERR_GENERAL_def split: if_splits)
  note k = Init_parser_keeps [OF i]
  have "sp_stream_index p = int i" "length (sm_sub_streams (dm_meta dm2)) = length (sm_sub_streams (dm_meta dm))"
    using k by (simp_all add: same_meta_def)
  with Cons.IH [OF o] Cons.prems(2,3) k show ?case by (auto simp: same_io_def same_meta_def)
qed

lemma Open_demuxer_ok:
  assumes "Open_demuxer oe io_timeout play_mode dm = Ret (0, dm1)" "dm_cached_pkts dm = []" "dm_stream_parsers dm = []"
  shows "demuxer_ok dm1"
proof -
  let ?dm = "open_meta oe play_mode (StopIO (StartIO (oe_mono oe 1) (StopIO (StartIO (oe_mono oe 0)
    (dm\<lparr>dm_base_pts := AV_NOPTS_VALUE, dm_base_sec := 0, dm_base_usec := 0, dm_open := True, dm_io_timeout := io_timeout\<rparr>)))))"
  have e: "dm_io_enabled dm" using assms(1) by (auto simp: Open_demuxer_def FFMPEG_SOURCE_ERR_IO_def split: if_splits)
  from assms(1) obtain dm2 where s: "open_sub_streams oe 0 (oe_streams oe) ?dm = Ret (0, dm2)"
    and p: "open_parsers 0 (oe_streams oe) dm2 = Ret (0, dm1)"
    by (auto simp: Open_demuxer_def Let_def bind_cpp_Ret_conv FFMPEG_SOURCE_ERR_IO_def FFMPEG_SOURCE_ERR_GENERAL_def split: if_splits)
  have "dm_open ?dm" "dm_io_enabled ?dm" "dm_cached_pkts ?dm = []" "dm_stream_parsers ?dm = []" "sm_ssrc (dm_meta ?dm) = dm_ssrc ?dm"
    using assms(2,3) e by (simp_all add: open_meta_def StopIO_def StartIO_def Let_def)
  with open_sub_streams_keeps [OF s] have "dm_open dm2" "dm_io_enabled dm2" "dm_cached_pkts dm2 = []" "dm_stream_parsers dm2 = []"
    "sm_ssrc (dm_meta dm2) = dm_ssrc dm2" "length (oe_streams oe) \<le> length (sm_sub_streams (dm_meta dm2))"
    by (simp_all add: same_io_def)
  with open_parsers_ok [OF p] show ?thesis by (auto simp: demuxer_ok_def same_meta_def)
qed


lemma read_meta_kept:
  assumes "read_meta_loop start timeout rs dm = Ret (Some ((ret, dm1), rest))" "demuxer_ok dm"
  shows "demuxer_ok dm1 \<and> same_meta dm dm1"
  using assms
proof (induction start timeout rs dm rule: read_meta_loop.induct)
  case (1 start timeout rs dm)
  consider "IsMetaReady_demuxer dm = Ret False" "\<not> (rs \<noteq> [] \<and> rd_mono_sec (hd rs) - start \<ge> timeout)"
    | "dm1 = dm"
    using "1.prems"(1) by (subst (asm) read_meta_loop.simps) (auto split: cpp.splits bool.splits if_splits)
  then show ?case
  proof cases
    case 1
    note loop = trans [OF read_meta_loop.simps [symmetric] "1.prems"(1)]
    from loop 1 obtain r dm2 rest2 where r: "read_frame rs dm = Some (r, dm2, rest2)" by (auto split: option.splits)
    have k: "demuxer_kept dm dm2" by (rule read_frame_kept [OF "1.prems"(2) r])
    then have ok2: "demuxer_ok dm2" by (simp add: demuxer_kept_def)
    consider "dm1 = dm2" | ret1 node changed dm3 where "rd_ret r = AV_ret 0" "parse_frame r dm2 = Ret (ret1, node, changed, dm3)"
      using loop 1 r by (auto split: av_ret.splits cpp.splits if_splits)
    then show ?thesis
    proof cases
      case 1
      with k show ?thesis by (simp add: demuxer_kept_def)
    next
      case p: (2 ret1 node changed dm3)
      note k3 = parse_frame_kept [OF ok2 p(2)] and n = parse_frame_same [OF p(2)]
      have m: "same_meta dm dm3" using k k3 by (simp add: demuxer_kept_def same_meta_def)
      consider "ret1 = FFMPEG_SOURCE_ERR_DROP" | "ret1 \<noteq> FFMPEG_SOURCE_ERR_DROP" "ret1 \<noteq> 0" | x where "ret1 = 0" "node = Some x"
        using n by auto
      then show ?thesis
      proof cases
        case d: 1
        from loop 1 r p d have "read_meta_loop start timeout rest2 dm3 = Ret (Some ((ret, dm1), rest))" by simp
        with "1.IH"(1) [OF 1(1) _ 1(2) r _ _ p(1) _ p(2)] k3 d m show ?thesis by (auto simp: demuxer_kept_def same_meta_def)
      next
        case 2
        from loop 1 r p 2 have "dm1 = dm3" by simp
        with k3 m show ?thesis by (simp add: demuxer_kept_def)
      next
        case x: (3 x)
        let ?dm = "dm3\<lparr>dm_cached_pkts := dm_cached_pkts dm3 @ [x]\<rparr>"
        from loop 1 r p x have "read_meta_loop start timeout rest2 ?dm = Ret (Some ((ret, dm1), rest))" by (simp add: FFMPEG_SOURCE_ERR_DROP_def)
        moreover have "demuxer_ok ?dm" using k3 x by (auto simp: demuxer_kept_def demuxer_ok_def node_ok_def)
        ultimately show ?thesis
          using "1.IH"(2) [OF 1(1) _ 1(2) r _ _ p(1) _ p(2)] x m by (auto simp: same_meta_def FFMPEG_SOURCE_ERR_DROP_def)
      qed
    qed
  next
    case 2
    with "1.prems"(2) show ?thesis by (simp add: same_meta_def)
  qed
qed


lemma Start_keeps:
  assumes "Start thread s = (0, t)"
  shows "IsInit t = IsInit s" "src_stream_meta t = src_stream_meta s" "media_blobs t = media_blobs s"
  using assms
  by (auto simp: Start_def IsInit_def media_blobs_def Let_def flag_simps src_flag_defs ERROR_CODE_BUSY_def split: if_splits option.splits)

lemma start_threads_ok:
  assumes "start_threads E src_thread live_thread fn f = (0, f1)"
  shows "fs_demuxer f1 = fs_demuxer f" "media_blobs (fs_source f1) = media_blobs (fs_source f)" "IsInit (fs_source f1) = IsInit (fs_source f)"
    "src_stream_meta (fs_source f1) = fs_meta f" "fs_local_gap_max_time f1 = fs_local_gap_max_time f"
    "fs_native_frame_rate f1 = fs_native_frame_rate f" "fs_is_started f1" "fs_on_error_fun f1 = fn" "fs_error_calls f1 = fs_error_calls f"
proof -
  obtain ret s where s: "Start src_thread (set_stream_meta (fs_meta f) (fs_source f)) = (ret, s)" by fastforce
  with assms have z: "ret = 0" and t: "\<exists>tid. f1 = (set_state E SOURCE_STREAM_STATE_OK (f\<lparr>fs_source := s\<rparr>))
      \<lparr>fs_on_error_fun := fn, fs_is_started := True, fs_live_thread_id := tid\<rparr>"
    by (auto simp: start_threads_def Let_def FFMPEG_SOURCE_ERR_GENERAL_def split: if_splits option.splits)
  have "fs_demuxer f1 = fs_demuxer f \<and> media_blobs (fs_source f1) = media_blobs s \<and> IsInit (fs_source f1) = IsInit s \<and>
      src_stream_meta (fs_source f1) = src_stream_meta s \<and> fs_local_gap_max_time f1 = fs_local_gap_max_time f \<and>
      fs_native_frame_rate f1 = fs_native_frame_rate f \<and> fs_is_started f1 \<and> fs_on_error_fun f1 = fn \<and> fs_error_calls f1 = fs_error_calls f"
    using t by (auto simp: set_state_fields)
  with Start_keeps [OF s [unfolded z]]
  show "fs_demuxer f1 = fs_demuxer f" "media_blobs (fs_source f1) = media_blobs (fs_source f)" "IsInit (fs_source f1) = IsInit (fs_source f)"
    "src_stream_meta (fs_source f1) = fs_meta f" "fs_local_gap_max_time f1 = fs_local_gap_max_time f"
    "fs_native_frame_rate f1 = fs_native_frame_rate f" "fs_is_started f1" "fs_on_error_fun f1 = fn" "fs_error_calls f1 = fs_error_calls f"
    by simp_all
qed

lemma start_read_ok:
  assumes "start_read E t src_thread live_thread fn rs f = Ret (Some ((0, f1), rest))" "fs_is_started f1" "\<not> fs_is_started f"
    "demuxer_ok (fs_demuxer f)" "IsInit (fs_source f)" "\<not> fs_native_frame_rate f"
  shows "live_ok (fs_local_gap_max_time f) f1 \<and> drain rest (fs_demuxer f1) = drain rs (fs_demuxer f) \<and> media_blobs (fs_source f1) = media_blobs (fs_source f) \<and>
    fs_on_error_fun f1 = fn \<and> fs_error_calls f1 = fs_error_calls f"
proof -
  from assms(1) obtain res where r: "ReadMeta t META_READ_TIMEOUT rs (fs_demuxer f) = Ret res" by (auto simp: start_read_def bind_cpp_Ret_conv)
  with assms(1) obtain ret meta dm rest1 where res: "res = Some ((ret, meta, dm), rest1)" by (cases res) (auto simp: start_read_def)
  let ?f = "f\<lparr>fs_demuxer := dm, fs_meta := (case meta of Some m \<Rightarrow> m | None \<Rightarrow> fs_meta f)\<rparr>"
  have "ret = 0 \<and> rest1 = rest \<and> start_threads E src_thread live_thread fn ?f = (0, f1)"
    using assms(1-3) r res by (auto simp: start_read_def Let_def close_fs_def set_state_fields split: if_splits)
  then have p: "ret = 0" "rest1 = rest" "start_threads E src_thread live_thread fn ?f = (0, f1)" by simp_all
  note m = ReadMeta_drain [OF r [unfolded res p(1)]] and th = start_threads_ok [OF p(3)]
  have "read_meta_loop t META_READ_TIMEOUT rs (fs_demuxer f) = Ret (Some ((0, dm), rest))"
    using r res p(1,2) assms(4) by (auto simp: ReadMeta_def demuxer_ok_def bind_cpp_Ret_conv split: option.splits)
  from read_meta_kept [OF this assms(4)] m th p(2) assms(5,6) show ?thesis by (simp add: live_ok_def demuxer_ok_def)
qed

text \<open>A successful start: the demuxer has been opened, and all its frames are still to come.\<close>

lemma Start_fs_live:
  assumes st: "Start_fs E oe t src_thread live_thread fn rs f = Ret (Some ((0, f1), rest))" and s: "\<not> fs_is_started f" "fs_is_started f1"
    and d: "dm_cached_pkts (fs_demuxer f) = []" "dm_stream_parsers (fs_demuxer f) = []" and i: "IsInit (fs_source f)"
    and g: "\<not> fs_native_frame_rate f"
  obtains dm where "Open_demuxer oe (fs_io_timeout f) PLAY_MODE_AUTO (set_io_enabled True (fs_demuxer f)) = Ret (0, dm)" "live_ok (fs_local_gap_max_time f) f1"
    "drain rest (fs_demuxer f1) = drain rs dm" "media_blobs (fs_source f1) = media_blobs (fs_source f)"
    "fs_on_error_fun f1 = fn" "fs_error_calls f1 = fs_error_calls f"
proof -
  from st s(1) g obtain ret dm where o: "Open_demuxer oe (fs_io_timeout f) PLAY_MODE_AUTO (set_io_enabled True (fs_demuxer f)) = Ret (ret, dm)"
    and c: "start_read E t src_thread live_thread fn rs ((set_state E SOURCE_STREAM_STATE_CONNECTING f)\<lparr>fs_demuxer := dm\<rparr>) = Ret (Some ((0, f1), rest))"
      "ret = 0"
    by (auto simp: Start_fs_def Let_def bind_cpp_Ret_conv set_state_fields split: if_splits)
  have ok: "demuxer_ok dm" by (rule Open_demuxer_ok [OF o [unfolded c(2)]]) (simp_all add: set_io_enabled_def d)
  from start_read_ok [OF c(1) s(2)] ok s(1) i g
  have "live_ok (fs_local_gap_max_time f) f1" "drain rest (fs_demuxer f1) = drain rs dm" "media_blobs (fs_source f1) = media_blobs (fs_source f)"
    "fs_on_error_fun f1 = fn" "fs_error_calls f1 = fs_error_calls f"
    by (simp_all add: set_state_fields)
  with that [OF o [unfolded c(2)]] show thesis by blast
qed


text \<open>The thread does not touch the error function.\<close>

definition same_error_fun :: "'b FFmpegDemuxerSource \<Rightarrow> 'b FFmpegDemuxerSource \<Rightarrow> bool" where
  "same_error_fun f f1 \<longleftrightarrow> fs_on_error_fun f1 = fs_on_error_fun f \<and> fs_error_calls f1 = fs_error_calls f"

lemma send_frame_error_fun: "send_frame L now fi pkt f = Ret (nx, now1, f1) \<Longrightarrow> same_error_fun f f1"
  by (auto simp: send_frame_def Let_def bind_cpp_Ret_conv same_error_fun_def set_state_fields split: if_splits option.splits)

lemma refresh_meta_error_fun: "refresh_meta L changed rs f = Ret (nx, f1, rest) \<Longrightarrow> same_error_fun f f1"
proof (cases "ReadMeta (lp_mono L) META_READ_TIMEOUT rs (fs_demuxer f)")
  case (Ret res)
  assume "refresh_meta L changed rs f = Ret (nx, f1, rest)"
  with Ret show ?thesis
    by (cases res) (auto simp: refresh_meta_def Let_def same_error_fun_def set_state_fields split: if_splits)
qed (auto simp: refresh_meta_def same_error_fun_def split: if_splits)

lemma live_pass_error_fun:
  assumes "live_pass L rs now f = Ret (nx, now1, f1, rest)"
  shows "same_error_fun f f1"
proof (cases "ReadPacket rs (fs_demuxer f)")
  case (Ret res)
  show ?thesis
  proof (cases res)
    case None
    with Ret assms show ?thesis by (auto simp: live_pass_def same_error_fun_def)
  next
    case (Some a)
    obtain ret node changed dm r1 where "a = ((ret, node, changed, dm), r1)" by (metis prod_cases5 surj_pair)
    with Some Ret assms show ?thesis
      by (cases node)
         (auto simp: live_pass_def Let_def bind_cpp_Ret_conv same_error_fun_def set_state_fields split: if_splits
           dest!: send_frame_error_fun refresh_meta_error_fun)
  qed
qed (use assms in \<open>simp add: live_pass_def\<close>)

lemma live_loop_error_fun: "live_loop Ls ret rs now f = Ret (e, f1, rest) \<Longrightarrow> same_error_fun f f1"
proof (induction Ls arbitrary: ret rs now f)
  case (Cons L Ls)
  show ?case
  proof (cases "lp_started L")
    case True
    from live_loop_step [OF Cons.prems this] obtain nx now1 f2 r2 where p: "live_pass L rs now f = Ret (nx, now1, f2, r2)"
      and c: "(case nx of Live_continue ret1 \<Rightarrow> live_loop Ls ret1 r2 now1 f2 | Live_break ret1 \<Rightarrow> Ret (Some ret1, f2, r2)
        | Live_waiting \<Rightarrow> Ret (None, f2, r2)) = Ret (e, f1, rest)" .
    from c have "f1 = f2 \<or> (\<exists>r. live_loop Ls r r2 now1 f2 = Ret (e, f1, rest))" by (cases nx) auto
    then have "same_error_fun f2 f1"
    proof
      assume "\<exists>r. live_loop Ls r r2 now1 f2 = Ret (e, f1, rest)"
      with Cons.IH show ?thesis by blast
    qed (simp add: same_error_fun_def)
    with live_pass_error_fun [OF p] show ?thesis by (simp add: same_error_fun_def)
  qed (use Cons.prems in \<open>simp add: same_error_fun_def\<close>)
qed (simp add: same_error_fun_def)

section \<open>Main results\<close>

text \<open>Whatever the settings, what the thread of the FFmpeg source publishes on the media channel is the data of the first
  frames that the demuxer reads, in order and without a gap.\<close>

theorem live_publishes_prefix:
  assumes "InternalLiveRoutine Ls started rs garbage f = Ret (ended, f1, rest)"
  shows "\<exists>k \<le> length (fst (drain rs (fs_demuxer f))).
    media_blobs (fs_source f1) = media_blobs (fs_source f) @ map frame_blob (take k (fst (drain rs (fs_demuxer f))))"
proof -
  obtain e f2 where "live_loop Ls 0 rs garbage f = Ret (e, f2, rest)" "fs_source f1 = fs_source f2"
    by (rule InternalLiveRoutine_end [OF assms])
  with live_loop_prefix show ?thesis by metis
qed

text \<open>C16: a source that starts publishes every frame of its input. For an initialised source whose demuxer holds nothing of an earlier input, without the native frame rate option and after a \<open>Start\<close> that succeeds,
  a thread that is not stopped, that makes more passes than there are packets to read, and whose run is defined (in particular, no key frame
  that waits to be published has lost its data to the next one in the buffer of its parser) publishes all frames that the opened demuxer
  yields, in order, those read for the metadata included; and where the input ends or fails, the error function is called once with the
  reason. There is one exception, when a largest gap to the local time is set: the thread stops in front of a frame whose time is that far from the
  clock at one of its passes; then exactly the frames before it are published, and the error function is called with the gap error.\<close>

theorem start_publishes_all:
  assumes start: "Start_fs E oe t src_thread live_thread fn rs f = Ret (Some ((0, f1), rest))" "\<not> fs_is_started f" "fs_is_started f1"
    and fresh: "dm_cached_pkts (fs_demuxer f) = []" "dm_stream_parsers (fs_demuxer f) = []" "IsInit (fs_source f)"
    and mode: "\<not> fs_native_frame_rate f"
    and run: "InternalLiveRoutine Ls True rest garbage f1 = Ret (ended, f2, rest2)" "\<forall>L \<in> set Ls. lp_started L"
      "length rest + length (dm_cached_pkts (fs_demuxer f1)) < length Ls"
  shows "\<exists>dm. Open_demuxer oe (fs_io_timeout f) PLAY_MODE_AUTO (set_io_enabled True (fs_demuxer f)) = Ret (0, dm) \<and>
    (media_blobs (fs_source f2) = media_blobs (fs_source f) @ map frame_blob (fst (drain rs dm)) \<and>
     fs_error_calls f2 = fs_error_calls f @ (case snd (drain rs dm) of Drain_end r \<Rightarrow> if fn \<and> r \<noteq> 0 then [r] else [] | _ \<Rightarrow> []) \<or>
     (\<exists>k < length (fst (drain rs dm)).
        fs_local_gap_max_time f > 0 \<and>
        (\<exists>L \<in> set Ls. gap_too_much (lp_now L) (fst (fst (drain rs dm) ! k)) (fs_local_gap_max_time f)) \<and>
        media_blobs (fs_source f2) = media_blobs (fs_source f) @ map frame_blob (take k (fst (drain rs dm))) \<and>
        fs_error_calls f2 = fs_error_calls f @ (if fn then [FFMPEG_SOURCE_ERR_GAP] else [])))"
proof -
  obtain dm where o: "Open_demuxer oe (fs_io_timeout f) PLAY_MODE_AUTO (set_io_enabled True (fs_demuxer f)) = Ret (0, dm)"
    "live_ok (fs_local_gap_max_time f) f1" "drain rest (fs_demuxer f1) = drain rs dm" "media_blobs (fs_source f1) = media_blobs (fs_source f)"
    "fs_on_error_fun f1 = fn" "fs_error_calls f1 = fs_error_calls f"
    by (rule Start_fs_live [OF start fresh mode])
  obtain e f3 where l: "live_loop Ls 0 rest garbage f1 = Ret (e, f3, rest2)" and s: "fs_source f2 = fs_source f3"
    and c: "fs_error_calls f2 = fs_error_calls f3 @ (case e of Some r \<Rightarrow> if True \<and> r \<noteq> 0 \<and> fs_on_error_fun f3 then [r] else [] | None \<Rightarrow> [])"
    by (rule InternalLiveRoutine_end [OF run(1)])
  have k: "fs_on_error_fun f3 = fn" "fs_error_calls f3 = fs_error_calls f" using live_loop_error_fun [OF l] o(5,6) by (simp_all add: same_error_fun_def)
  obtain out where a: "media_blobs (fs_source f3) = media_blobs (fs_source f) @ out"
    "all_or_gap (set Ls) (fs_local_gap_max_time f) (drain rs dm) out e"
    using live_loop_all [OF o(2) l run(2,3)] o(3,4) by auto
  have calls: "fs_error_calls f2 = fs_error_calls f @ (case e of Some r \<Rightarrow> if r \<noteq> 0 \<and> fn then [r] else [] | None \<Rightarrow> [])"
    using c k by (auto split: option.split)
  from a(2) [unfolded all_or_gap_def] show ?thesis
  proof (elim disjE exE conjE bexE)
    assume "out = map frame_blob (fst (drain rs dm))" "e = (case snd (drain rs dm) of Drain_end r \<Rightarrow> Some r | _ \<Rightarrow> None)"
    with o(1) a(1) s calls show ?thesis by (cases "snd (drain rs dm)") auto
  next
    fix k L assume "k < length (fst (drain rs dm))" "out = map frame_blob (take k (fst (drain rs dm)))" "e = Some FFMPEG_SOURCE_ERR_GAP"
      "L \<in> set Ls" "gap_at L (fs_local_gap_max_time f) (fst (drain rs dm) ! k)"
    with o(1) a(1) s calls show ?thesis by (auto simp: gap_at_def FFMPEG_SOURCE_ERR_GAP_def)
  qed
qed


section \<open>Examples\<close>

definition demo_open_env :: open_env where
  "demo_open_env = \<lparr>oe_dict_ret = 0, oe_alloc = True, oe_open_ret = 0, oe_info_ret = 0, oe_rand = 7, oe_duration = 0, oe_seconds = (\<lambda>_. 0),
     oe_protocol_name = None, oe_iformat_name = None, oe_bit_rate = 0, oe_streams = [demo_stream], oe_codec_name = (\<lambda>_. ''''),
     oe_mono = (\<lambda>_. (1, 0))\<rparr>"

definition demo_read :: "av_ret \<Rightarrow> int \<Rightarrow> av_read" where
  "demo_read ret pts = \<lparr>rd_ret = ret, rd_pkt = demo_packet pts, rd_streams = [demo_stream], rd_now_sec = 7, rd_now_usec = 0, rd_mono_sec = 1,
     rd_mono_nsec = 0\<rparr>"

definition demo_reads :: "av_read list" where
  "demo_reads = [demo_read AVERROR_EAGAIN 0, demo_read (AV_ret 0) 1000, demo_read (AV_ret 0) 91001, demo_read AVERROR_EOF 0]"

definition demo_fs :: "wire FFmpegDemuxerSource" where
  "demo_fs = new_FFmpegDemuxerSource\<lparr>fs_source := demo_source, fs_local_gap_max_time := 20\<rparr>"

definition demo_pass :: "wire live_env" where
  "demo_pass = \<lparr>lp_env = demo_env, lp_started = True, lp_started_err = True, lp_mono = 1, lp_now = (7, 0), lp_waits = [], lp_started_wait = True\<rparr>"

definition demo_start :: "((int \<times> wire FFmpegDemuxerSource) \<times> av_read list) option cpp" where
  "demo_start = Start_fs demo_env demo_open_env 1 (Some 1) (Some 2) True demo_reads demo_fs"

definition is_Ret :: "'a cpp \<Rightarrow> bool" where
  "is_Ret m = (case m of Ret _ \<Rightarrow> True | Undef \<Rightarrow> False)"

lemma is_Ret_conv: "is_Ret m \<longleftrightarrow> (\<exists>x. m = Ret x)"
  by (cases m) (simp_all add: is_Ret_def)

lemma demo_start_ok:
  "case demo_start of
     Ret (Some ((ret, f1), rest)) \<Rightarrow> ret = 0 \<and> fs_is_started f1 \<and> length rest + length (dm_cached_pkts (fs_demuxer f1)) < 5 \<and>
       is_Ret (InternalLiveRoutine (replicate 5 demo_pass) True rest (0, 0) f1)
   | _ \<Rightarrow> False"
  by code_simp


lemma demo_start_cases:
  obtains f1 rest ended f2 rest2 where "Start_fs demo_env demo_open_env 1 (Some 1) (Some 2) True demo_reads demo_fs = Ret (Some ((0, f1), rest))"
    "fs_is_started f1" "length rest + length (dm_cached_pkts (fs_demuxer f1)) < 5"
    "InternalLiveRoutine (replicate 5 demo_pass) True rest (0, 0) f1 = Ret (ended, f2, rest2)"
proof -
  obtain f1 rest where s: "demo_start = Ret (Some ((0, f1), rest))" "fs_is_started f1" "length rest + length (dm_cached_pkts (fs_demuxer f1)) < 5"
    and n: "is_Ret (InternalLiveRoutine (replicate 5 demo_pass) True rest (0, 0) f1)"
    using demo_start_ok by (auto split: cpp.split_asm option.split_asm)
  obtain ended f2 rest2 where "InternalLiveRoutine (replicate 5 demo_pass) True rest (0, 0) f1 = Ret (ended, f2, rest2)"
    using n by (auto simp: is_Ret_conv)
  with s that show thesis unfolding demo_start_def by blast
qed

lemma demo_fs_fresh: "\<not> fs_is_started demo_fs" "dm_cached_pkts (fs_demuxer demo_fs) = []" "dm_stream_parsers (fs_demuxer demo_fs) = []"
  "IsInit (fs_source demo_fs)" "\<not> fs_native_frame_rate demo_fs"
  using demo_source_init by (simp_all add: demo_fs_def new_FFmpegDemuxerSource_def new_FFmpegDemuxer_def)

lemma demo_no_gap:
  "case Open_demuxer demo_open_env 0 PLAY_MODE_AUTO (set_io_enabled True new_FFmpegDemuxer) of
     Ret (ret, dm) \<Rightarrow> list_all (\<lambda>n. \<not> gap_too_much (7, 0) (fst n) 20) (fst (drain demo_reads dm)) \<and> length (fst (drain demo_reads dm)) = 2
   | Undef \<Rightarrow> False"
  by code_simp

theorem start_publishes_all_witness:
  "\<exists>f1 rest ended f2 rest2 dm. Start_fs demo_env demo_open_env 1 (Some 1) (Some 2) True demo_reads demo_fs = Ret (Some ((0, f1), rest)) \<and>
     InternalLiveRoutine (replicate 5 demo_pass) True rest (0, 0) f1 = Ret (ended, f2, rest2) \<and>
     Open_demuxer demo_open_env 0 PLAY_MODE_AUTO (set_io_enabled True new_FFmpegDemuxer) = Ret (0, dm) \<and>
     media_blobs (fs_source f2) = media_blobs demo_source @ map frame_blob (fst (drain demo_reads dm)) \<and> length (fst (drain demo_reads dm)) = 2"
proof -
  obtain f1 rest ended f2 rest2 where d: "Start_fs demo_env demo_open_env 1 (Some 1) (Some 2) True demo_reads demo_fs = Ret (Some ((0, f1), rest))"
    "fs_is_started f1" "length rest + length (dm_cached_pkts (fs_demuxer f1)) < 5"
    "InternalLiveRoutine (replicate 5 demo_pass) True rest (0, 0) f1 = Ret (ended, f2, rest2)"
    by (rule demo_start_cases)
  have s: "\<forall>L \<in> set (replicate 5 demo_pass). lp_started L" by (simp add: demo_pass_def)
  have "length rest + length (dm_cached_pkts (fs_demuxer f1)) < length (replicate 5 demo_pass)" using d(3) by simp
  from start_publishes_all [OF d(1) demo_fs_fresh(1) d(2) demo_fs_fresh(2-5) d(4) s this]
  obtain dm where o: "Open_demuxer demo_open_env 0 PLAY_MODE_AUTO (set_io_enabled True new_FFmpegDemuxer) = Ret (0, dm)"
    and m: "media_blobs (fs_source f2) = media_blobs demo_source @ map frame_blob (fst (drain demo_reads dm)) \<or>
      (\<exists>k < length (fst (drain demo_reads dm)). gap_too_much (7, 0) (fst (fst (drain demo_reads dm) ! k)) 20)"
    by (auto simp: demo_fs_def new_FFmpegDemuxerSource_def demo_pass_def)
  have "media_blobs (fs_source f2) = media_blobs demo_source @ map frame_blob (fst (drain demo_reads dm))" "length (fst (drain demo_reads dm)) = 2"
    using m demo_no_gap o by (auto simp: list_all_length)
  with o d(1,4) show ?thesis by blast
qed

theorem live_publishes_prefix_witness:
  "\<exists>f1 rest ended f2 rest2 k. InternalLiveRoutine (replicate 5 demo_pass) True rest (0, 0) f1 = Ret (ended, f2, rest2) \<and>
     media_blobs (fs_source f2) = media_blobs (fs_source f1) @ map frame_blob (take k (fst (drain rest (fs_demuxer f1))))"
proof -
  obtain f1 rest ended f2 rest2 where d: "InternalLiveRoutine (replicate 5 demo_pass) True rest (0, 0) f1 = Ret (ended, f2, rest2)"
    by (rule demo_start_cases)
  from live_publishes_prefix [OF this] d show ?thesis by blast
qed

text \<open>An input with a video stream whose parameter sets come with the first key frame.\<close>

definition demo_video_demuxer :: FFmpegDemuxer where
  "demo_video_demuxer = (demo_sub_stream [])\<lparr>dm_stream_parsers := [demo_parser\<lparr>sp_kind := H264or5_Parser 264 [] 0\<rparr>]\<rparr>"

definition demo_video_reads :: "av_read list" where
  "demo_video_reads = [(demo_read (AV_ret 0) 0)\<lparr>rd_pkt := demo_key_frame, rd_streams := [demo_video]\<rparr>, demo_read (AV_ret 0) 3000]"

lemma demo_video_read_ok:
  "(case ReadMeta 1 10 demo_video_reads demo_video_demuxer of
      Ret (Some ((ret, meta, dm1), rest)) \<Rightarrow> ret = 0 \<and> length rest = 1 \<and> length (dm_cached_pkts dm1) = 1 \<and> kept_intact dm1
    | _ \<Rightarrow> False) \<and>
   list_all (\<lambda>r. \<not> pkt_in_key_buf (rd_pkt r)) demo_video_reads \<and> kept_intact demo_video_demuxer"
  by code_simp

theorem read_ahead_transparent_witness:
  "\<exists>meta dm1 rest. ReadMeta 1 10 demo_video_reads demo_video_demuxer = Ret (Some ((0, meta, dm1), rest)) \<and> length (dm_cached_pkts dm1) = 1 \<and>
     delivered rest dm1 = delivered demo_video_reads demo_video_demuxer"
proof -
  obtain meta dm1 rest where r: "ReadMeta 1 10 demo_video_reads demo_video_demuxer = Ret (Some ((0, meta, dm1), rest))"
    "length (dm_cached_pkts dm1) = 1" "kept_intact dm1"
    using demo_video_read_ok by (auto split: cpp.splits option.splits prod.splits)
  have k: "\<forall>r \<in> set demo_video_reads. \<not> pkt_in_key_buf (rd_pkt r)" "kept_intact demo_video_demuxer"
    using demo_video_read_ok by (simp_all add: list_all_iff)
  from read_ahead_transparent [OF r(1) k r(3)] r show ?thesis by blast
qed


section \<open>Waiting and giving up\<close>

lemma read_frame_until:
  "rd_ret r \<noteq> AVERROR_EAGAIN \<Longrightarrow> \<exists>q dm1 rest. read_frame (xs @ r # zs) dm = Some (q, dm1, rest) \<and>
     (rest = zs \<or> (\<exists>us. rest = us @ r # zs \<and> length us < length xs))"
proof (induction xs arbitrary: dm)
  case (Cons x xs)
  let ?dm = "StopIO (StartIO (rd_mono_sec x, rd_mono_nsec x) dm)"
  show ?case
  proof (cases "rd_ret x = AVERROR_EAGAIN")
    case True
    then have "read_frame ((x # xs) @ r # zs) dm = read_frame (xs @ r # zs) ?dm" by (simp add: Let_def)
    with Cons.IH [OF Cons.prems, of ?dm] show ?thesis by (metis length_Cons less_SucI)
  next
    case False
    then have "read_frame ((x # xs) @ r # zs) dm = Some (x, ?dm, xs @ r # zs)" by (simp add: Let_def)
    then show ?thesis by (metis length_Cons lessI)
  qed
qed (simp add: Let_def)

lemma read_meta_late:
  assumes "rd_mono_sec y - start \<ge> timeout"
  shows "read_meta_loop start timeout (y # ys) dm \<noteq> Ret None"
  using assms by (subst read_meta_loop.simps) (auto split: cpp.splits bool.splits)

lemma read_meta_loop_returns:
  assumes "rd_ret r \<noteq> AVERROR_EAGAIN" "rd_mono_sec y - start \<ge> timeout"
  shows "read_meta_loop start timeout (xs @ r # y # ys) dm \<noteq> Ret None"
proof (induction "length xs" arbitrary: xs dm rule: less_induct)
  case less
  obtain q dm1 rest where q: "read_frame (xs @ r # y # ys) dm = Some (q, dm1, rest)"
    and rest: "rest = y # ys \<or> (\<exists>us. rest = us @ r # y # ys \<and> length us < length xs)"
    using read_frame_until [OF assms(1)] by blast
  have "read_meta_loop start timeout rest d \<noteq> Ret None" for d
    using rest less read_meta_late [OF assms(2)] by auto
  then show ?case
    by (subst read_meta_loop.simps) (auto simp: q split: cpp.splits bool.splits av_ret.splits option.splits)
qed

text \<open>\<open>ReadMeta\<close> gives up: once the clock is past the time limit after a call of \<open>av_read_frame\<close> that had not to be repeated,
  \<open>ReadMeta\<close> has returned, whatever was read before.\<close>

theorem read_meta_returns:
  assumes "rd_ret r \<noteq> AVERROR_EAGAIN" "rd_mono_sec y - start \<ge> timeout"
  shows "ReadMeta start timeout (xs @ r # y # ys) dm \<noteq> Ret None"
proof (cases "read_meta_loop start timeout (xs @ r # y # ys) dm")
  case (Ret res)
  with read_meta_loop_returns [OF assms, of xs ys dm] obtain a where "res = Some a" by (cases res) auto
  with Ret show ?thesis by (cases a) (auto simp: ReadMeta_def)
qed (simp add: ReadMeta_def)

theorem read_meta_returns_witness:
  "ReadMeta 1 10 [demo_read AVERROR_EAGAIN 0, demo_read (AV_ret 0) 0, (demo_read AVERROR_EAGAIN 0)\<lparr>rd_mono_sec := 12\<rparr>] demo_video_demuxer \<noteq> Ret None"
  using read_meta_returns [of "demo_read (AV_ret 0) 0" 10 "(demo_read AVERROR_EAGAIN 0)\<lparr>rd_mono_sec := 12\<rparr>" 1 "[demo_read AVERROR_EAGAIN 0]" "[]"
      demo_video_demuxer]
  by (simp add: demo_read_def)

lemma sdiv_close:
  fixes a :: int
  shows "a - 1000000 < (a sdiv 1000000) * 1000000" "(a sdiv 1000000) * 1000000 < a + 1000000" "0 \<le> a \<Longrightarrow> 0 \<le> a sdiv 1000000"
proof -
  have e: "b div 1000000 * 1000000 = b - b mod 1000000" "0 \<le> b mod 1000000" "b mod 1000000 < 1000000" for b :: int
    by (simp_all add: minus_mod_eq_div_mult)
  have "a sdiv 1000000 = (if 0 \<le> a then a div 1000000 else - (- a div 1000000))"
    by (cases "a = 0") (simp_all add: signed_divide_int_def)
  then show "a - 1000000 < (a sdiv 1000000) * 1000000" "(a sdiv 1000000) * 1000000 < a + 1000000" "0 \<le> a \<Longrightarrow> 0 \<le> a sdiv 1000000"
    using e [of a] e [of "- a"] by (simp_all split: if_splits)
qed

lemma uint_word_of_int64: "0 \<le> x \<Longrightarrow> x < 2 ^ 64 \<Longrightarrow> uint (word_of_int x :: u64) = x"
  by (simp add: uint_word_of_int_eq take_bit_int_eq_self)

text \<open>an operation on the input is interrupted when \<open>io_timeout_\<close> milliseconds have passed since its start, and not more than
  one millisecond before.\<close>

theorem io_interrupt:
  assumes "dm_io_enabled dm" "0 < sec" "0 \<le> nsec" "nsec < 1000000000" "0 \<le> cur_nsec" "cur_nsec < 1000000000"
    "elapsed = (cur_sec - sec) * 1000000000 + (cur_nsec - nsec)" "0 \<le> elapsed" "elapsed < 2 ^ 63"
  shows "(uint (dm_io_timeout dm) * 1000000 \<le> elapsed \<longrightarrow> IOInterruptCB cur_sec cur_nsec (StartIO (sec, nsec) dm) = 1) \<and>
    (elapsed \<le> (uint (dm_io_timeout dm) - 1) * 1000000 \<longrightarrow> IOInterruptCB cur_sec cur_nsec (StartIO (sec, nsec) dm) = 0)"
proof -
  let ?d = "(cur_sec - sec) * 1000 + (cur_nsec - nsec) sdiv 1000000"
  note c = sdiv_close [of "cur_nsec - nsec"]
  have m: "?d * 1000000 = (cur_sec - sec) * 1000000000 + ((cur_nsec - nsec) sdiv 1000000) * 1000000" by simp
  have b: "elapsed - 1000000 < ?d * 1000000" "?d * 1000000 < elapsed + 1000000" unfolding m assms(7) using c(1,2) by simp_all
  have "- 1000000000 < (cur_sec - sec) * 1000000000" using assms(3-8) by linarith
  then have n: "0 \<le> cur_sec - sec" by simp
  have d: "0 \<le> ?d"
  proof (cases "cur_sec - sec = 0")
    case True
    then show ?thesis using c(3) assms(7,8) by simp
  next
    case False
    with n have "1000000000 \<le> (cur_sec - sec) * 1000000000" by simp
    moreover have "- 1001000000 < ((cur_nsec - nsec) sdiv 1000000) * 1000000" using c(1) assms(3-6) by linarith
    ultimately have "- 1000000 < ?d * 1000000" unfolding m by linarith
    then show ?thesis by simp
  qed
  have "elapsed + 1000000 < 2 ^ 64 * 1000000" using assms(9) by simp
  with b(2) have "?d * 1000000 < 2 ^ 64 * 1000000" by (rule less_trans)
  then have "?d < 2 ^ 64" by simp
  with d have w: "uint (word_of_int ?d :: u64) = ?d" by (rule uint_word_of_int64)
  have r: "IOInterruptCB cur_sec cur_nsec (StartIO (sec, nsec) dm) = (if uint (dm_io_timeout dm) \<le> ?d then 1 else 0)"
    unfolding IOInterruptCB_def Let_def word_le_def StartIO_def using assms(1,2) w by (simp del: of_int_add of_int_mult of_int_diff)
  have "uint (dm_io_timeout dm) \<le> ?d" if "uint (dm_io_timeout dm) * 1000000 \<le> elapsed"
  proof -
    have "(uint (dm_io_timeout dm) - 1) * 1000000 \<le> elapsed - 1000000" using that by simp
    also note b(1)
    finally have "(uint (dm_io_timeout dm) - 1) * 1000000 < ?d * 1000000" .
    then show ?thesis by simp
  qed
  moreover have "?d < uint (dm_io_timeout dm)" if "elapsed \<le> (uint (dm_io_timeout dm) - 1) * 1000000"
  proof -
    note b(2)
    also have "elapsed + 1000000 \<le> uint (dm_io_timeout dm) * 1000000" using that by simp
    finally have "?d * 1000000 < uint (dm_io_timeout dm) * 1000000" .
    then show ?thesis by simp
  qed
  ultimately show ?thesis using r by auto
qed

theorem io_interrupt_witness:
  "IOInterruptCB 8 100000000 (StartIO (7, 900000000) (new_FFmpegDemuxer\<lparr>dm_io_timeout := 200\<rparr>)) = 1 \<and>
   IOInterruptCB 8 99000000 (StartIO (7, 900000000) (new_FFmpegDemuxer\<lparr>dm_io_timeout := 200\<rparr>)) = 0"
  using io_interrupt [of "new_FFmpegDemuxer\<lparr>dm_io_timeout := 200\<rparr>" 7 900000000 100000000 200000000 8]
    io_interrupt [of "new_FFmpegDemuxer\<lparr>dm_io_timeout := 200\<rparr>" 7 900000000 99000000 199000000 8]
  by (simp add: new_FFmpegDemuxer_def)

text \<open>\<open>Start\<close> reports success for an input that is not live, although it has not started.\<close>

lemma start_replay_not_started:
  assumes "\<not> fs_is_started f" "\<not> fs_native_frame_rate f"
    "Open_demuxer oe (fs_io_timeout f) PLAY_MODE_AUTO (set_io_enabled True (fs_demuxer f)) = Ret (0, dm)"
    "ReadMeta t META_READ_TIMEOUT rs dm = Ret (Some ((0, Some m, dm1), rest))" "sm_play_type m = STREAM_PLAY_TYPE_REPLAY"
  shows "\<exists>f1. Start_fs E oe t src_thread live_thread fn rs f = Ret (Some ((0, f1), rest)) \<and> \<not> fs_is_started f1 \<and> \<not> dm_open (fs_demuxer f1)"
  using assms by (simp add: Start_fs_def start_read_def Let_def set_state_fields close_fs_def Close_demuxer_def)

end
