(* ===== verification/Rtsp_App.thy ===== *)
theory Rtsp_App
  imports Rtsp_Session Demuxer_Properties
begin

text \<open>
  The RTSP source (\<open>sources/stsw_rtsp_source/src/stsw_rtsp_source_app.cc\<close>): the listener of the RTSP client that drives a
  stream source. What the client of a session hands on is published, frame by frame. The option handling, the
  event loop and the logger of the program are left out; the calls of the listener are those that the session recorded.
\<close>

section \<open>The listener\<close>

definition MAX_SUBSTREAM_NUMBER :: nat where "MAX_SUBSTREAM_NUMBER = 64"
definition RTSP_CLIENT_ERR_CONNECT_FAIL :: int where "RTSP_CLIENT_ERR_CONNECT_FAIL = -1"
definition RTSP_CLIENT_ERR_DESCRIBE_ERR :: int where "RTSP_CLIENT_ERR_DESCRIBE_ERR = -2"
definition RTSP_CLIENT_ERR_SUBSESSION_BYE :: int where "RTSP_CLIENT_ERR_SUBSESSION_BYE = -8"

record 'b RtspSourceApp =
  app_source :: "'b StreamSource"
  app_lost_frames :: "u64 list"
  app_exit_code :: int
  app_watch :: bool

definition OnMediaFrame_app ::
  "'b src_env \<Rightarrow> MediaFrameInfo \<Rightarrow> u8 list \<Rightarrow> 'b RtspSourceApp \<Rightarrow> 'b RtspSourceApp cpp" where
  "OnMediaFrame_app E frame_info frame_data a =
     bind_cpp (SendLiveMediaFrame (se_codec E) frame_info (Some (text_of frame_data)) (app_source a)) (\<lambda>(ret, s).
       Ret (if ret \<noteq> 0 then a\<lparr>app_source := s, app_exit_code := ret, app_watch := True\<rparr> else a\<lparr>app_source := s\<rparr>))"

definition error_state :: "int \<Rightarrow> int" where
  "error_state err_code =
     (if err_code = RTSP_CLIENT_ERR_CONNECT_FAIL \<or> err_code = RTSP_CLIENT_ERR_DESCRIBE_ERR
      then SOURCE_STREAM_STATE_ERR_CONNECT_FAIL
      else if err_code = RTSP_CLIENT_ERR_SUBSESSION_BYE \<or> err_code = RTSP_CLIENT_ERR_INTER_FRAME_GAP
      then SOURCE_STREAM_STATE_ERR_MEIDA_STOP
      else if err_code = RTSP_CLIENT_ERR_TIME_ERR then SOURCE_STREAM_STATE_ERR_TIME
      else SOURCE_STREAM_STATE_ERR)"

definition OnError_app :: "'b src_env \<Rightarrow> int \<Rightarrow> 'b RtspSourceApp \<Rightarrow> 'b RtspSourceApp" where
  "OnError_app E err_code a =
     a\<lparr>app_source := set_stream_state E (error_state err_code) (app_source a), app_exit_code := ERROR_CODE_GENERAL,
       app_watch := True\<rparr>"

definition OnMetaReady_app :: "nat option \<Rightarrow> StreamMetadata \<Rightarrow> 'b RtspSourceApp \<Rightarrow> 'b RtspSourceApp" where
  "OnMetaReady_app thread metadata a =
     (let (ret, s) = Start thread (set_stream_meta metadata (app_source a));
          a1 = a\<lparr>app_lost_frames := replicate MAX_SUBSTREAM_NUMBER 0, app_source := s\<rparr>
      in if ret \<noteq> 0 then a1\<lparr>app_exit_code := ret, app_watch := True\<rparr> else a1)"

definition OnRtspOK_app :: "'b src_env \<Rightarrow> 'b RtspSourceApp \<Rightarrow> 'b RtspSourceApp" where
  "OnRtspOK_app E a = a\<lparr>app_source := set_stream_state E SOURCE_STREAM_STATE_OK (app_source a)\<rparr>"

text \<open>The test has no lower bound.\<close>

definition OnLostFrameUpdate_app :: "int \<Rightarrow> u64 \<Rightarrow> 'b RtspSourceApp \<Rightarrow> 'b RtspSourceApp cpp" where
  "OnLostFrameUpdate_app i lost_frame a =
     (if i < int MAX_SUBSTREAM_NUMBER then
        (if i < 0 \<or> nat i \<ge> length (app_lost_frames a) then Undef
         else Ret (a\<lparr>app_lost_frames := (app_lost_frames a)[nat i := lost_frame]\<rparr>))
      else Ret a)"

fun set_lost_frames :: "u64 list \<Rightarrow> SubStreamMediaStatistic list \<Rightarrow> SubStreamMediaStatistic list cpp" where
  "set_lost_frames lost [] = Ret []"
| "set_lost_frames lost (st # sts) =
     (if st_sub_stream_index st < int MAX_SUBSTREAM_NUMBER then
        (if st_sub_stream_index st < 0 \<or> nat (st_sub_stream_index st) \<ge> length lost then Undef
         else bind_cpp (set_lost_frames lost sts) (\<lambda>sts'.
           Ret (st\<lparr>st_lost_frames := lost ! nat (st_sub_stream_index st)\<rparr> # sts')))
      else Ret (st # sts))"

definition OnMediaStatistic_app :: "MediaStatisticInfo \<Rightarrow> 'b RtspSourceApp \<Rightarrow> MediaStatisticInfo cpp" where
  "OnMediaStatistic_app statistic a =
     bind_cpp (set_lost_frames (app_lost_frames a) (mi_sub_streams statistic)) (\<lambda>sts.
       Ret (statistic\<lparr>mi_sub_streams := sts\<rparr>))"

fun app_call :: "'b src_env \<Rightarrow> nat option \<Rightarrow> rtsp_call \<Rightarrow> 'b RtspSourceApp \<Rightarrow> 'b RtspSourceApp cpp" where
  "app_call E thread (OnMediaFrame fi d) a = OnMediaFrame_app E fi d a"
| "app_call E thread (OnError e) a = Ret (OnError_app E e a)"
| "app_call E thread (OnMetaReady m) a = Ret (OnMetaReady_app thread m a)"
| "app_call E thread (OnLostFrameUpdate i n) a = OnLostFrameUpdate_app i n a"

text \<open>The calls one after the other; the environment of a call is given by its number.\<close>

fun app_run ::
  "(nat \<Rightarrow> 'b src_env) \<Rightarrow> nat option \<Rightarrow> nat \<Rightarrow> rtsp_call list \<Rightarrow> 'b RtspSourceApp \<Rightarrow> 'b RtspSourceApp cpp" where
  "app_run E thread k [] a = Ret a"
| "app_run E thread k (x # xs) a = bind_cpp (app_call (E k) thread x a) (app_run E thread (Suc k) xs)"

section \<open>Publishing\<close>

fun call_blobs :: "rtsp_call list \<Rightarrow> blob list" where
  "call_blobs [] = []"
| "call_blobs (OnMediaFrame fi d # xs) = blob_part (Some (text_of d)) # call_blobs xs"
| "call_blobs (_ # xs) = call_blobs xs"

fun is_error_call :: "rtsp_call \<Rightarrow> bool" where
  "is_error_call (OnError _) = True"
| "is_error_call _ = False"

fun is_meta_call :: "rtsp_call \<Rightarrow> bool" where
  "is_meta_call (OnMetaReady _) = True"
| "is_meta_call _ = False"

definition app_ok :: "'b RtspSourceApp \<Rightarrow> bool" where
  "app_ok a \<longleftrightarrow> source_inv (app_source a) \<and> IsInit (app_source a) \<and> length (app_lost_frames a) = MAX_SUBSTREAM_NUMBER"

text \<open>One call went well: \<open>m\<close> is the metadata afterwards.\<close>

definition call_done :: "rtsp_call \<Rightarrow> StreamMetadata \<Rightarrow> 'b RtspSourceApp \<Rightarrow> 'b RtspSourceApp \<Rightarrow> bool" where
  "call_done x m a a' \<longleftrightarrow> app_ok a' \<and> src_stream_meta (app_source a') = m \<and>
     media_blobs (app_source a') = media_blobs (app_source a) @ call_blobs [x] \<and>
     app_watch a' = (app_watch a \<or> is_error_call x) \<and>
     IsStarted (app_source a') = (IsStarted (app_source a) \<or> is_meta_call x)"

lemma call_blobs_append: "call_blobs (xs @ ys) = call_blobs xs @ call_blobs ys"
  by (induction xs rule: call_blobs.induct) simp_all

lemma app_run_append:
  "app_run E th k (xs @ ys) a = bind_cpp (app_run E th k xs a) (app_run E th (k + length xs) ys)"
  by (induction xs arbitrary: k a) (simp_all add: bind_cpp_def split: cpp.splits)

lemma set_stream_state_keeps:
  "media_blobs (set_stream_state E st s) = media_blobs s" "IsInit (set_stream_state E st s) = IsInit s"
  "src_stream_meta (set_stream_state E st s) = src_stream_meta s" "IsStarted (set_stream_state E st s) = IsStarted s"
  by (auto simp: set_stream_state_def SendStreamInfo_def SendPublishMsg_def media_blobs_def IsInit_def IsStarted_def Let_def
      STSW_PUBLISH_INFO_CHANNEL_def STSW_PUBLISH_MEDIA_CHANNEL_def)

lemma error_call: "app_ok a \<Longrightarrow> call_done (OnError e) (src_stream_meta (app_source a)) a (OnError_app E e a)"
  by (simp add: call_done_def app_ok_def OnError_app_def set_stream_state_keeps set_stream_state_inv)

lemma lost_call:
  assumes "app_ok a" "0 \<le> i"
  shows "\<exists>a'. OnLostFrameUpdate_app i n a = Ret a' \<and> call_done (OnLostFrameUpdate i n) (src_stream_meta (app_source a)) a a'"
  using assms by (auto simp: call_done_def app_ok_def OnLostFrameUpdate_app_def)

lemma send_started: "SendLiveMediaFrame C fi d s = Ret (ret, t) \<Longrightarrow> IsStarted t = IsStarted s"
  by (auto simp: SendLiveMediaFrame_def SendPublishMsg_def IsStarted_def Let_def split: if_splits prod.splits)

lemma frame_call:
  assumes "app_ok a" "frame_ok (app_source a) fi"
  shows "\<exists>a'. OnMediaFrame_app E fi d a = Ret a' \<and> call_done (OnMediaFrame fi d) (src_stream_meta (app_source a)) a a'"
proof -
  from assms have s: "source_inv (app_source a)" "IsInit (app_source a)" by (simp_all add: app_ok_def)
  obtain t where t: "SendLiveMediaFrame (se_codec E) fi (Some (text_of d)) (app_source a) = Ret (0, t)" "source_inv t" "IsInit t"
    "src_stream_meta t = src_stream_meta (app_source a)" by (rule send_one [OF s assms(2)])
  then show ?thesis
    using assms(1) send_media_blobs(2) [OF t(1)] send_started [OF t(1)] by (auto simp: call_done_def app_ok_def OnMediaFrame_app_def)
qed

lemma meta_call:
  assumes "app_ok a" "tid \<noteq> 0"
  shows "call_done (OnMetaReady m) m a (OnMetaReady_app (Some tid) m a)"
proof -
  let ?s = "set_stream_meta m (app_source a)"
  have inv: "source_inv ?s" "IsInit ?s" using assms(1) by (simp_all add: app_ok_def set_stream_meta_inv)
  have "fst (Start (Some tid) ?s) = 0"
    using inv by (auto simp: Start_def Let_def source_inv_defs life_inv_def IsStarted_def)
  then obtain t where t: "Start (Some tid) ?s = (0, t)" by (metis prod.collapse)
  have "source_inv t" using Start_inv [OF inv(1), of "Some tid"] t assms(2) by simp
  moreover have "IsStarted t" using t inv by (auto simp: Start_def Let_def IsStarted_def flag_simps src_flag_defs ERROR_CODE_BUSY_def split: if_splits)
  ultimately show ?thesis
    using t Start_keeps [OF t] inv(2) by (simp add: call_done_def app_ok_def OnMetaReady_app_def)
qed

definition run_done :: "rtsp_call list \<Rightarrow> StreamMetadata \<Rightarrow> 'b RtspSourceApp \<Rightarrow> 'b RtspSourceApp cpp \<Rightarrow> bool" where
  "run_done xs m a r \<longleftrightarrow> (\<exists>a'. r = Ret a' \<and> app_ok a' \<and> src_stream_meta (app_source a') = m \<and>
     media_blobs (app_source a') = media_blobs (app_source a) @ call_blobs xs \<and>
     app_watch a' = (app_watch a \<or> list_ex is_error_call xs) \<and>
     IsStarted (app_source a') = (IsStarted (app_source a) \<or> list_ex is_meta_call xs))"

lemma run_done_Cons:
  assumes "app_call (E k) th x a = Ret a1" "call_done x m1 a a1" "run_done xs m a1 (app_run E th (Suc k) xs a1)"
  shows "run_done (x # xs) m a (app_run E th k (x # xs) a)"
  using assms call_blobs_append [of "[x]" xs] by (auto simp: run_done_def call_done_def)

lemma early_one:
  assumes "early_call ns x" "app_ok a"
  shows "\<exists>a1. app_call E th x a = Ret a1 \<and> call_done x (src_stream_meta (app_source a)) a a1"
  using assms by (cases x) (simp_all add: error_call lost_call in_range_def)

lemma late_one:
  assumes "late_call (src_stream_meta (app_source a)) x" "app_ok a"
  shows "\<exists>a1. app_call E th x a = Ret a1 \<and> call_done x (src_stream_meta (app_source a)) a a1"
  using assms by (cases x) (simp_all add: error_call lost_call frame_call frame_ok_def in_range_def)

lemma early_run:
  "list_all (early_call ns) xs \<Longrightarrow> app_ok a \<Longrightarrow> run_done xs (src_stream_meta (app_source a)) a (app_run E th k xs a)"
proof (induction xs arbitrary: a k)
  case (Cons x xs)
  obtain a1 where a1: "app_call (E k) th x a = Ret a1" "call_done x (src_stream_meta (app_source a)) a a1"
    using early_one [of ns x a "E k" th] Cons.prems by auto
  then have "app_ok a1" "src_stream_meta (app_source a1) = src_stream_meta (app_source a)" by (simp_all add: call_done_def)
  then show ?case using run_done_Cons [of E k th, OF a1] Cons.IH [of a1 "Suc k"] Cons.prems by simp
qed (simp add: run_done_def)

lemma early_no_meta: "list_all (early_call ns) xs \<Longrightarrow> \<not> list_ex is_meta_call xs"
proof (induction xs)
  case (Cons x xs)
  then show ?case by (cases x) simp_all
qed simp

lemma late_run:
  "list_all (late_call m) xs \<Longrightarrow> app_ok a \<Longrightarrow> src_stream_meta (app_source a) = m \<Longrightarrow> run_done xs m a (app_run E th k xs a)"
proof (induction xs arbitrary: a k)
  case (Cons x xs)
  obtain a1 where a1: "app_call (E k) th x a = Ret a1" "call_done x m a a1"
    using late_one [of a x "E k" th] Cons.prems by auto
  then have "app_ok a1" "src_stream_meta (app_source a1) = m" by (simp_all add: call_done_def)
  then show ?case using run_done_Cons [of E k th, OF a1] Cons.IH [of a1 "Suc k"] Cons.prems by simp
qed (simp add: run_done_def)

lemma announced_run:
  assumes "announced m xs" "app_ok a" "tid \<noteq> 0"
  shows "run_done xs m a (app_run E (Some tid) k xs a)"
proof -
  obtain pre post where xs: "xs = pre @ OnMetaReady m # post" "list_all (early_call (length (sm_sub_streams m))) pre"
    "list_all (late_call m) post" using assms(1) by (auto simp: announced_def)
  obtain a1 where a1: "app_run E (Some tid) k pre a = Ret a1" "app_ok a1"
    "media_blobs (app_source a1) = media_blobs (app_source a) @ call_blobs pre"
    "app_watch a1 = (app_watch a \<or> list_ex is_error_call pre)"
    "IsStarted (app_source a1) = (IsStarted (app_source a) \<or> list_ex is_meta_call pre)"
    using early_run [OF xs(2) assms(2), of E "Some tid" k] by (auto simp: run_done_def)
  note m = meta_call [OF a1(2) assms(3), of m]
  then have "run_done post m (OnMetaReady_app (Some tid) m a1) (app_run E (Some tid) (Suc (k + length pre)) post (OnMetaReady_app (Some tid) m a1))"
    by (intro late_run [OF xs(3)]) (simp_all add: call_done_def)
  with m a1 show ?thesis by (auto simp: xs(1) run_done_def call_done_def app_run_append call_blobs_append)
qed

text \<open>C22: the RTSP source publishes every frame that its session hands on. After the set-up of a session with at
  least one stream and without multiplexed ones, for an initialised stream source, whatever frames the sinks receive and in whatever order, the calls that the client makes run
  through without undefined behaviour: the stream source is started, with the metadata of the session, as soon as that is
  complete, and is not started by anything else; every frame of the calls is accepted and published on the media channel, in order, and nothing else is; and the
  program is told to end if and only if the client reported an error.\<close>

theorem rtsp_source_publishes:
  assumes "sized_memory mem" "sm_sub_streams (rc_metadata c) = []" "no_mux xs" "initiated xs \<noteq> []"
    and "rc_listener c" "rc_calls c = []" "\<not> rc_is_metadata_ok c" "SetupStreams_end ig ga mem xs c = Ret (ss, c1)"
    and "(session_step ga clk)\<^sup>*\<^sup>* (ss, c1) (ss', c')" "app_ok a" "tid \<noteq> 0"
  shows "\<exists>a'. app_run E (Some tid) 0 (rc_calls c') a = Ret a' \<and>
    media_blobs (app_source a') = media_blobs (app_source a) @ call_blobs (rc_calls c') \<and>
    src_stream_meta (app_source a') = (if rc_is_metadata_ok c' then rc_metadata c' else src_stream_meta (app_source a)) \<and>
    IsStarted (app_source a') = (IsStarted (app_source a) \<or> rc_is_metadata_ok c') \<and>
    app_watch a' = (app_watch a \<or> list_ex is_error_call (rc_calls c'))"
proof -
  have "session_inv (ss', c')" using session_reach_inv [OF assms(9)] session_starts [OF assms(1-8)] by blast
  then have inv: "meta_inv (length ss') c'" by (simp add: session_inv_def)
  show ?thesis
  proof (cases "rc_is_metadata_ok c'")
    case True
    then have "announced (rc_metadata c') (rc_calls c')" using inv by (simp add: meta_inv_def)
    moreover from this have "list_ex is_meta_call (rc_calls c')" by (auto simp: announced_def)
    ultimately show ?thesis using announced_run [of "rc_metadata c'", OF _ assms(10,11), of _ E 0] True by (auto simp: run_done_def)
  next
    case False
    then have "list_all (early_call (length ss')) (rc_calls c')" using inv by (simp add: meta_inv_def)
    moreover from this have "\<not> list_ex is_meta_call (rc_calls c')" by (rule early_no_meta)
    ultimately show ?thesis using early_run [OF _ assms(10), of _ _ E "Some tid" 0] False by (auto simp: run_done_def)
  qed
qed

theorem rtsp_source_publishes_witness:
  "\<exists>ss c1 ss' c' a'. SetupStreams_end False wit_gaps wit_memory wit_audio wit_client = Ret (ss, c1) \<and>
    session_step wit_gaps (\<lambda>_. wit_time 5) (ss, c1) (ss', c') \<and>
    app_run (\<lambda>_. demo_env) (Some 1) 0 (rc_calls c')
      \<lparr>app_source = demo_source, app_lost_frames = replicate 64 0, app_exit_code = 0, app_watch = False\<rparr> = Ret a' \<and>
    media_blobs (app_source a') = media_blobs demo_source @ [Some (text_of [1, 2, 3])] \<and> \<not> app_watch a' \<and>
    \<not> IsStarted demo_source \<and> IsStarted (app_source a')"
proof -
  obtain s c1 s' c' m fi where r: "SetupStreams_end False wit_gaps wit_memory wit_audio wit_client = Ret ([s], c1)"
    "feed_sink wit_gaps (\<lambda>_. wit_time 5) wit_input s c1 = Ret (s', c')"
    "rc_calls c' = [OnMetaReady m, OnMediaFrame fi [1, 2, 3]]" "rc_is_metadata_ok c'" using wit_audio_run by metis
  have step: "session_step wit_gaps (\<lambda>_. wit_time 5) ([s], c1) ([s'], c')"
    using session_step.step_frame [of 0 "[s]" wit_gaps "\<lambda>_. wit_time 5" wit_input c1 s' c'] r(2) by simp
  let ?a = "\<lparr>app_source = demo_source, app_lost_frames = replicate 64 0, app_exit_code = 0, app_watch = False\<rparr>"
  have a: "app_ok ?a" using demo_source_inv demo_source_init(1) by (simp add: app_ok_def MAX_SUBSTREAM_NUMBER_def)
  obtain a' where "app_run (\<lambda>_. demo_env) (Some 1) 0 (rc_calls c') ?a = Ret a'"
    "media_blobs (app_source a') = media_blobs demo_source @ call_blobs (rc_calls c')"
    "app_watch a' = list_ex is_error_call (rc_calls c')" "IsStarted (app_source a') = (IsStarted demo_source \<or> rc_is_metadata_ok c')"
    using rtsp_source_publishes [OF wit_session_facts(1,2) wit_audio_facts r(1)
        r_into_rtranclp [of "session_step wit_gaps (\<lambda>_. wit_time 5)", OF step] a, of 1 "\<lambda>_. demo_env"] by auto
  then have "app_run (\<lambda>_. demo_env) (Some 1) 0 (rc_calls c') ?a = Ret a'" "\<not> app_watch a'" "IsStarted (app_source a')"
    "media_blobs (app_source a') = media_blobs demo_source @ [Some (text_of [1, 2, 3])]"
    by (simp_all add: r(3,4) blob_part_def text_of_def)
  moreover have "\<not> IsStarted demo_source" by (simp add: demo_defs IsStarted_def flag_simps)
  ultimately show ?thesis using r(1) step by blast
qed

end
