(* ===== verification/Buffer_Queue.thy ===== *)
theory Buffer_Queue
  imports Stsw_Prelude
begin

text \<open>
  The buffer queue of the RTSP port (\<open>ports/stsw_rtsp_port/src/bufferqueue.c\<close>): a producer keeps the packets of a
  track in a \<open>GQueue\<close>, every RTP session reads them through a consumer of its own, and a packet is freed when all
  consumers have seen it.

  \<^item> an element of the queue and the \<open>GList\<close> node that holds it are allocated together and freed together under
    the lock of the producer, so both have one address, and \<open>queue\<close> is the list of the live nodes from head to
    tail with their elements. An address is never given out twice: every access through a pointer to a freed node or
    element is \<open>Dangling\<close>, and so is an access through a null pointer;
  \<^item> a failed \<open>g_assert\<close> ends the server: \<open>Abort\<close>;
  \<^item> \<open>gulong\<close> has 64 bits; \<open>g_assert_cmpint\<close> compares signed values, \<open>g_assert_cmpuint\<close> unsigned ones;
  \<^item> a payload is its address, 0 is \<open>NULL\<close>; \<open>freed\<close> lists the payloads that were given to \<open>free_function\<close>;
  \<^item> all operations but the reads of \<open>stopped\<close> run under the lock of the producer, so that concurrent sessions are
    an interleaving of whole operations: the function \<open>bq_step\<close>.
\<close>

section \<open>Outcomes\<close>

datatype 'a bq_result = Done 'a | Abort | Dangling

definition bind_bq :: "'a bq_result \<Rightarrow> ('a \<Rightarrow> 'b bq_result) \<Rightarrow> 'b bq_result" where
  "bind_bq m f = (case m of Done x \<Rightarrow> f x | Abort \<Rightarrow> Abort | Dangling \<Rightarrow> Dangling)"

lemma bind_bq_simps [simp]:
  "bind_bq (Done x) f = f x"
  "bind_bq Abort f = Abort"
  "bind_bq Dangling f = Dangling"
  by (simp_all add: bind_bq_def)

section \<open>Data\<close>

record BufferQueue_Element =
  payload :: nat
  seen :: u64
  serial :: u64

type_synonym bq_nodes = "(nat \<times> BufferQueue_Element) list"

record BufferQueue_Producer =
  queue :: "bq_nodes option"
  next_serial :: u64
  queue_serial :: u64
  consumers :: u64
  stopped :: int
  bq_key :: "string option"
  next_addr :: nat
  freed :: "nat list"

record BufferQueue_Consumer =
  consumer_queue_serial :: u64
  current_element_pointer :: "nat option"
  current_element_object :: "nat option"

text \<open>\<open>g_slice_new0\<close>: all fields zero.\<close>

definition producer_new0 :: BufferQueue_Producer where
  "producer_new0 = \<lparr>queue = None, next_serial = 0, queue_serial = 0, consumers = 0, stopped = 0, bq_key = None,
     next_addr = 0, freed = []\<rparr>"

definition consumer_new0 :: BufferQueue_Consumer where
  "consumer_new0 = \<lparr>consumer_queue_serial = 0, current_element_pointer = None, current_element_object = None\<rparr>"

section \<open>The linked list\<close>

definition queue_head :: "bq_nodes \<Rightarrow> nat option" where
  "queue_head q = (case q of [] \<Rightarrow> None | x # _ \<Rightarrow> Some (fst x))"

fun node_next :: "nat \<Rightarrow> bq_nodes \<Rightarrow> nat option" where
  "node_next a [] = None"
| "node_next a (x # q) = (if fst x = a then queue_head q else node_next a q)"

text \<open>The nodes that a walk from \<open>a\<close> through \<open>prev\<close> visits: \<open>a\<close>, then the nodes before it, up to the head.\<close>

definition walk_back :: "nat \<Rightarrow> bq_nodes \<Rightarrow> nat list" where
  "walk_back a q = a # rev (takeWhile (\<lambda>b. b \<noteq> a) (map fst q))"

definition set_elem :: "nat \<Rightarrow> BufferQueue_Element \<Rightarrow> bq_nodes \<Rightarrow> bq_nodes" where
  "set_elem a e q = map (\<lambda>x. if fst x = a then (a, e) else x) q"

section \<open>Producer\<close>

definition bq_element_free_internal :: "BufferQueue_Element \<Rightarrow> BufferQueue_Producer \<Rightarrow> BufferQueue_Producer" where
  "bq_element_free_internal e p = p\<lparr>freed := freed p @ [payload e]\<rparr>"

definition free_elements :: "bq_nodes \<Rightarrow> BufferQueue_Producer \<Rightarrow> BufferQueue_Producer" where
  "free_elements q p = fold (\<lambda>x. bq_element_free_internal (snd x)) q p"

definition bq_producer_reset_queue :: "BufferQueue_Producer \<Rightarrow> BufferQueue_Producer bq_result" where
  "bq_producer_reset_queue p =
     (if stopped p \<noteq> 0 then Abort
      else
        let p1 = (case queue p of None \<Rightarrow> p | Some q \<Rightarrow> free_elements q p)
        in Done (p1\<lparr>queue := Some [], queue_serial := queue_serial p1 + 1, next_serial := 0\<rparr>))"

definition bq_producer_put :: "nat \<Rightarrow> BufferQueue_Producer \<Rightarrow> BufferQueue_Producer bq_result" where
  "bq_producer_put pl p =
     (if pl = 0 then Abort
      else if stopped p \<noteq> 0 then Abort
      else
        let e = \<lparr>payload = pl, seen = 0, serial = next_serial p\<rparr>;
            p1 = p\<lparr>next_serial := next_serial p + 1\<rparr>
        in if next_serial p1 = 0 then Abort
           else (case queue p1 of
               None \<Rightarrow> Dangling
             | Some q \<Rightarrow> Done (p1\<lparr>queue := Some (q @ [(next_addr p1, e)]), next_addr := Suc (next_addr p1)\<rparr>)))"

definition bq_producer_queue_length :: "BufferQueue_Producer \<Rightarrow> u32 bq_result" where
  "bq_producer_queue_length p =
     (if stopped p \<noteq> 0 then Abort
      else case queue p of None \<Rightarrow> Dangling | Some q \<Rightarrow> Done (of_nat (length q)))"

definition bq_producer_consumer_num :: "BufferQueue_Producer \<Rightarrow> u32" where
  "bq_producer_consumer_num p = ucast (consumers p)"

text \<open>The producer is gone afterwards; what is left of it is the list of the payloads that it freed.\<close>

definition bq_producer_free_internal :: "BufferQueue_Producer \<Rightarrow> nat list bq_result" where
  "bq_producer_free_internal p =
     (if consumers p \<noteq> 0 then Abort
      else case queue p of None \<Rightarrow> Done (freed p) | Some q \<Rightarrow> Done (freed (free_elements q p)))"

section \<open>Consumer\<close>

definition bq_consumer_new :: "BufferQueue_Producer \<Rightarrow> (BufferQueue_Consumer option \<times> BufferQueue_Producer) bq_result" where
  "bq_consumer_new p =
     (if stopped p = 1 then Done (None, p)
      else if \<not> consumers p < - 1 then Abort
      else Done (Some consumer_new0, p\<lparr>consumers := consumers p + 1\<rparr>))"

definition bq_consumer_elem_unref ::
  "BufferQueue_Consumer \<Rightarrow> BufferQueue_Producer \<Rightarrow> (BufferQueue_Consumer \<times> BufferQueue_Producer) bq_result" where
  "bq_consumer_elem_unref c p =
     (case current_element_object c of
        None \<Rightarrow> Done (c, p)
      | Some a \<Rightarrow>
          if queue_serial p \<noteq> consumer_queue_serial c then Done (c, p)
          else case queue p of
            None \<Rightarrow> Dangling
          | Some q \<Rightarrow> (case map_of q a of
              None \<Rightarrow> Dangling
            | Some e \<Rightarrow>
                let e1 = e\<lparr>seen := seen e + 1\<rparr>;
                    p1 = p\<lparr>queue := Some (set_elem a e1 q)\<rparr>
                in if seen e1 < consumers p1 then Done (c, p1)
                   else
                     let p2 = bq_element_free_internal e1 p1;
                         c1 = c\<lparr>current_element_object := None\<rparr>
                     in if current_element_pointer c1 \<noteq> queue_head (set_elem a e1 q) then Abort
                        else Done (c1, p2\<lparr>queue := Some (tl (set_elem a e1 q))\<rparr>)))"

fun unsee_walk :: "nat list \<Rightarrow> u64 \<Rightarrow> bq_nodes \<Rightarrow> bq_nodes bq_result" where
  "unsee_walk [] n q = Done q"
| "unsee_walk (a # as) n q =
     (case map_of q a of
        None \<Rightarrow> Dangling
      | Some e \<Rightarrow> if seen e \<le> n then unsee_walk as n (set_elem a (e\<lparr>seen := seen e - 1\<rparr>) q) else Abort)"

definition bq_consumer_free :: "BufferQueue_Consumer \<Rightarrow> BufferQueue_Producer \<Rightarrow> BufferQueue_Producer bq_result" where
  "bq_consumer_free c p =
     (if \<not> 0 < consumers p then Abort
      else bind_bq (bq_consumer_elem_unref c p) (\<lambda>(c1, p1).
        let p2 = p1\<lparr>consumers := consumers p1 - 1\<rparr>
        in if consumers p2 = 0 then
             (if stopped p2 \<noteq> 0 then Done p2
              else case queue p2 of
                None \<Rightarrow> Done p2
              | Some q \<Rightarrow> Done ((free_elements q p2)\<lparr>queue := Some []\<rparr>))
           else if current_element_object c1 \<noteq> None then
             (case (current_element_pointer c1, queue p2) of
                (Some a, Some q) \<Rightarrow>
                  bind_bq (unsee_walk (walk_back a q) (consumers p2) q) (\<lambda>q1. Done (p2\<lparr>queue := Some q1\<rparr>))
              | _ \<Rightarrow> Dangling)
           else Done p2))"

definition bq_consumer_move_internal ::
  "BufferQueue_Consumer \<Rightarrow> BufferQueue_Producer \<Rightarrow> (bool \<times> BufferQueue_Consumer \<times> BufferQueue_Producer) bq_result" where
  "bq_consumer_move_internal c p =
     bind_bq
       (if queue_serial p \<noteq> consumer_queue_serial c \<or> current_element_pointer c = None then
          (case queue p of None \<Rightarrow> Dangling | Some q \<Rightarrow> Done (queue_head q, c, p))
        else case (current_element_pointer c, queue p) of
          (Some a, Some q) \<Rightarrow>
            if a \<in> fst ` set q
            then bind_bq (bq_consumer_elem_unref c p) (\<lambda>(c1, p1). Done (node_next a q, c1, p1))
            else Dangling
        | _ \<Rightarrow> Dangling)
       (\<lambda>(expected_next, c1, p1).
          Done (expected_next \<noteq> None,
                c1\<lparr>consumer_queue_serial := queue_serial p1, current_element_pointer := expected_next,
                   current_element_object := expected_next\<rparr>,
                p1))"

definition bq_consumer_unseen :: "BufferQueue_Consumer \<Rightarrow> BufferQueue_Producer \<Rightarrow> u64 bq_result" where
  "bq_consumer_unseen c p =
     (if stopped p \<noteq> 0 then Done 0
      else if consumer_queue_serial c \<noteq> queue_serial p then Done (next_serial p)
      else case queue p of
        None \<Rightarrow> Dangling
      | Some q \<Rightarrow> (case current_element_object c of
          Some a \<Rightarrow> (case map_of q a of
              None \<Rightarrow> Dangling
            | Some e \<Rightarrow> if sint (next_serial p) > sint (serial e) then Done (next_serial p - serial e) else Abort)
        | None \<Rightarrow> if queue_head q = None then Done 0 else Done (next_serial p)))"

definition bq_consumer_move ::
  "BufferQueue_Consumer \<Rightarrow> BufferQueue_Producer \<Rightarrow> (bool \<times> BufferQueue_Consumer \<times> BufferQueue_Producer) bq_result" where
  "bq_consumer_move c p =
     (if stopped p \<noteq> 0 then Done (False, c, p) else bq_consumer_move_internal c p)"

definition bq_consumer_get ::
  "BufferQueue_Consumer \<Rightarrow> BufferQueue_Producer \<Rightarrow> (nat \<times> BufferQueue_Consumer \<times> BufferQueue_Producer) bq_result" where
  "bq_consumer_get c p =
     (if stopped p \<noteq> 0 then Done (0, c, p)
      else bind_bq
        (if consumer_queue_serial c \<noteq> queue_serial p \<or> current_element_object c = None
         then bq_consumer_move_internal c p
         else Done (True, c, p))
        (\<lambda>(moved, c1, p1).
           if \<not> moved then Done (0, c1, p1)
           else case current_element_object c1 of
             None \<Rightarrow> Done (0, c1, p1)
           | Some a \<Rightarrow> (case queue p1 of
               None \<Rightarrow> Dangling
             | Some q \<Rightarrow> (case map_of q a of None \<Rightarrow> Dangling | Some e \<Rightarrow> Done (payload e, c1, p1)))))"

definition bq_consumer_stopped :: "BufferQueue_Consumer \<Rightarrow> BufferQueue_Producer \<Rightarrow> bool" where
  "bq_consumer_stopped c p = (stopped p \<noteq> 0)"

section \<open>Shared producers\<close>

text \<open>
  The producers by address, and the table of the shared ones by key. A key of the table is the text that the caller's
  string had at the insertion.
\<close>

record bq_global =
  producers :: "(nat \<times> BufferQueue_Producer) list"
  bq_shared_producers :: "(string \<times> nat) list"
  next_producer :: nat

definition bq_init :: bq_global where
  "bq_init = \<lparr>producers = [], bq_shared_producers = [], next_producer = 0\<rparr>"

definition bq_producer_new :: "string option \<Rightarrow> bq_global \<Rightarrow> (nat \<times> bq_global) bq_result" where
  "bq_producer_new key g =
     (case (case key of None \<Rightarrow> None | Some k \<Rightarrow> map_of (bq_shared_producers g) k) of
        Some a \<Rightarrow> Done (a, g)
      | None \<Rightarrow>
          let a = next_producer g;
              tab = (case key of None \<Rightarrow> bq_shared_producers g
                     | Some k \<Rightarrow> (k, a) # filter (\<lambda>x. fst x \<noteq> k) (bq_shared_producers g))
          in bind_bq (bq_producer_reset_queue (producer_new0\<lparr>bq_key := key\<rparr>)) (\<lambda>p.
               Done (a, \<lparr>producers = (a, p) # producers g, bq_shared_producers = tab, next_producer = Suc a\<rparr>)))"

definition bq_producer_unref :: "nat option \<Rightarrow> bq_global \<Rightarrow> bq_global bq_result" where
  "bq_producer_unref a g =
     (case a of
        None \<Rightarrow> Done g
      | Some b \<Rightarrow> (case map_of (producers g) b of
          None \<Rightarrow> Dangling
        | Some p \<Rightarrow>
            if consumers p \<noteq> 0 then Done g
            else
              let tab = (case bq_key p of None \<Rightarrow> bq_shared_producers g
                         | Some k \<Rightarrow> filter (\<lambda>x. fst x \<noteq> k) (bq_shared_producers g))
              in if stopped p \<noteq> 0 then Abort
                 else bind_bq (bq_producer_free_internal (p\<lparr>stopped := 1\<rparr>)) (\<lambda>_.
                   Done (g\<lparr>producers := filter (\<lambda>x. fst x \<noteq> b) (producers g), bq_shared_producers := tab\<rparr>))))"

section \<open>One producer and its consumers\<close>

text \<open>
  The consumers in the order in which they were created, \<open>None\<close> for one that was freed. A call with a consumer that
  does not exist (any more) is an access to freed memory.
\<close>

record bq_system =
  producer :: BufferQueue_Producer
  clients :: "BufferQueue_Consumer option list"

datatype bq_op = Put nat | Reset | New | Get nat | Move nat | Unseen nat | Free nat

datatype bq_reply = No_reply | Payload nat | Moved bool | Count u64

definition with_client ::
  "nat \<Rightarrow> bq_system \<Rightarrow> (BufferQueue_Consumer \<Rightarrow> BufferQueue_Producer \<Rightarrow> 'a bq_result) \<Rightarrow> 'a bq_result" where
  "with_client i s f =
     (if i < length (clients s) then (case clients s ! i of None \<Rightarrow> Dangling | Some c \<Rightarrow> f c (producer s)) else Dangling)"

fun bq_step :: "bq_op \<Rightarrow> bq_system \<Rightarrow> (bq_reply \<times> bq_system) bq_result" where
  "bq_step (Put pl) s = bind_bq (bq_producer_put pl (producer s)) (\<lambda>p.
     Done (No_reply, \<lparr>producer = p, clients = clients s\<rparr>))"
| "bq_step Reset s = bind_bq (bq_producer_reset_queue (producer s)) (\<lambda>p.
     Done (No_reply, \<lparr>producer = p, clients = clients s\<rparr>))"
| "bq_step New s = bind_bq (bq_consumer_new (producer s)) (\<lambda>(c, p).
     Done (No_reply, \<lparr>producer = p, clients = clients s @ [c]\<rparr>))"
| "bq_step (Get i) s = bind_bq (with_client i s bq_consumer_get) (\<lambda>(r, c, p).
     Done (Payload r, \<lparr>producer = p, clients = (clients s)[i := Some c]\<rparr>))"
| "bq_step (Move i) s = bind_bq (with_client i s bq_consumer_move) (\<lambda>(r, c, p).
     Done (Moved r, \<lparr>producer = p, clients = (clients s)[i := Some c]\<rparr>))"
| "bq_step (Unseen i) s = bind_bq (with_client i s bq_consumer_unseen) (\<lambda>r. Done (Count r, s))"
| "bq_step (Free i) s = bind_bq (with_client i s bq_consumer_free) (\<lambda>p.
     Done (No_reply, \<lparr>producer = p, clients = (clients s)[i := None]\<rparr>))"

fun bq_run :: "bq_op list \<Rightarrow> bq_system \<Rightarrow> (bq_reply list \<times> bq_system) bq_result" where
  "bq_run [] s = Done ([], s)"
| "bq_run (op # ops) s = bind_bq (bq_step op s) (\<lambda>(r, s1).
     bind_bq (bq_run ops s1) (\<lambda>(rs, s2). Done (r # rs, s2)))"

definition bq_start :: bq_system where
  "bq_start = \<lparr>producer = producer_new0\<lparr>queue := Some [], queue_serial := 1\<rparr>, clients = []\<rparr>"

end
