(* ===== verification/Buffer_Queue_Properties.thy ===== *)
theory Buffer_Queue_Properties
  imports Buffer_Queue
begin

text \<open>
  Correctness of the buffer queue. Every consumer has a cursor, the index of its current element; the invariant
  says that an element was marked as seen once for every consumer whose cursor is past it, and that the slowest
  consumer is at the head. Under the invariant the consumers are independent FIFO channels (the abstract specification
  \<open>fifo_step\<close>). Two kinds of call leave the invariant: a consumer that moves past the tail while there are other
  consumers, and the departure of a consumer that is behind all others.
\<close>

section \<open>Nodes by position\<close>

definition node_index :: "nat \<Rightarrow> nat list \<Rightarrow> nat" where
  "node_index a ks = length (takeWhile (\<lambda>b. b \<noteq> a) ks)"

lemma node_index_in: "a \<in> set ks \<Longrightarrow> node_index a ks < length ks \<and> ks ! node_index a ks = a"
  by (induction ks) (auto simp: node_index_def)

lemma node_index_nth: "distinct ks \<Longrightarrow> i < length ks \<Longrightarrow> node_index (ks ! i) ks = i"
  using node_index_in [of "ks ! i" ks] by (auto simp: nth_eq_iff_index_eq)

lemma node_index_append: "a \<in> set ks \<Longrightarrow> node_index a (ks @ ls) = node_index a ks"
  by (simp add: node_index_def)

lemma node_index_tl: "ks \<noteq> [] \<Longrightarrow> a \<noteq> hd ks \<Longrightarrow> node_index a (tl ks) = node_index a ks - 1"
  by (cases ks) (auto simp: node_index_def)

lemma queue_head_nth: "queue_head q = (if q = [] then None else Some (fst (q ! 0)))"
  by (cases q) (auto simp: queue_head_def)

lemma map_of_node: "distinct (map fst q) \<Longrightarrow> i < length q \<Longrightarrow> map_of q (fst (q ! i)) = Some (snd (q ! i))"
  by (simp add: map_of_eq_Some_iff)

lemma node_next_nth:
  "distinct (map fst q) \<Longrightarrow> i < length q \<Longrightarrow>
     node_next (fst (q ! i)) q = (if Suc i < length q then Some (fst (q ! Suc i)) else None)"
proof (induction q arbitrary: i)
  case (Cons x q)
  then show ?case
  proof (cases i)
    case (Suc j)
    with Cons.prems have "fst x \<noteq> fst (q ! j)" by (auto simp: image_iff)
    with Suc Cons show ?thesis by simp
  qed (simp add: queue_head_nth)
qed simp

lemma set_elem_nth:
  assumes "distinct (map fst q)" "i < length q"
  shows "set_elem (fst (q ! i)) e q = q[i := (fst (q ! i), e)]"
proof (rule nth_equalityI)
  show "set_elem (fst (q ! i)) e q ! j = q[i := (fst (q ! i), e)] ! j" if "j < length (set_elem (fst (q ! i)) e q)" for j
    using that assms nth_eq_iff_index_eq [of "map fst q" j i] by (auto simp: set_elem_def nth_list_update)
qed (simp add: set_elem_def)

lemma map_fst_set_elem [simp]: "map fst (set_elem a e q) = map fst q"
  by (simp add: set_elem_def)

lemma walk_back_nth:
  assumes "distinct (map fst q)" "i < length q"
  shows "walk_back (fst (q ! i)) q = map (\<lambda>j. fst (q ! j)) (rev [0..<Suc i])"
proof -
  have "length (takeWhile (\<lambda>b. b \<noteq> fst (q ! i)) (map fst q)) = i"
    using node_index_nth [OF assms(1), of i] assms(2) by (simp add: node_index_def)
  then have "takeWhile (\<lambda>b. b \<noteq> fst (q ! i)) (map fst q) = take i (map fst q)"
    by (metis takeWhile_eq_take)
  also have "\<dots> = map (\<lambda>j. fst (q ! j)) [0..<i]"
    using assms(2) by (intro nth_equalityI) simp_all
  finally show ?thesis by (simp add: walk_back_def rev_map)
qed

text \<open>The loop of \<open>bq_consumer_free\<close> takes one from the seen count of every visited element.\<close>

definition unsee :: "nat \<times> BufferQueue_Element \<Rightarrow> nat \<times> BufferQueue_Element" where
  "unsee x = (fst x, (snd x)\<lparr>seen := seen (snd x) - 1\<rparr>)"

lemma unsee_walk_prefix:
  assumes "distinct (map fst q)" "i \<le> length q" "\<And>j. j < i \<Longrightarrow> seen (snd (q ! j)) \<le> n"
  shows "unsee_walk (map (\<lambda>j. fst (q ! j)) (rev [0..<i])) n q = Done (map unsee (take i q) @ drop i q)"
  using assms
proof (induction i arbitrary: q)
  case (Suc i)
  let ?q1 = "q[i := unsee (q ! i)]"
  have keys: "map fst ?q1 = map fst q"
    using Suc.prems(2) by (simp add: map_update unsee_def list_update_same_conv)
  have same: "?q1 ! j = q ! j" if "j < i" for j using that by simp
  have "unsee_walk (map (\<lambda>j. fst (?q1 ! j)) (rev [0..<i])) n ?q1 = Done (map unsee (take i ?q1) @ drop i ?q1)"
    using Suc.prems by (intro Suc.IH) (simp_all add: keys)
  moreover have "map (\<lambda>j. fst (?q1 ! j)) (rev [0..<i]) = map (\<lambda>j. fst (q ! j)) (rev [0..<i])"
    by (intro map_cong) (auto simp: same)
  moreover have "map unsee (take i ?q1) @ drop i ?q1 = map unsee (take (Suc i) q) @ drop (Suc i) q"
    using Suc.prems(2) by (simp add: take_Suc_conv_app_nth Cons_nth_drop_Suc [symmetric, of i ?q1] drop_update_cancel)
  moreover have "set_elem (fst (q ! i)) ((snd (q ! i))\<lparr>seen := seen (snd (q ! i)) - 1\<rparr>) q = ?q1"
    using Suc.prems by (simp add: set_elem_nth unsee_def)
  ultimately show ?case using Suc.prems by (simp add: map_of_node)
qed simp


section \<open>Counting cursors\<close>

text \<open>
  \<open>ks\<close> are the cursors of the consumers, \<open>None\<close> for one that has gone, \<open>ss\<close> the seen counts of the elements from the
  head on.
\<close>

definition past_count :: "nat \<Rightarrow> nat option list \<Rightarrow> nat" where
  "past_count j ks = length (filter (\<lambda>k. case k of None \<Rightarrow> False | Some n \<Rightarrow> j < n) ks)"

definition live_count :: "'a option list \<Rightarrow> nat" where
  "live_count ks = length (filter (\<lambda>k. k \<noteq> None) ks)"

definition seen_ok :: "nat list \<Rightarrow> nat option list \<Rightarrow> bool" where
  "seen_ok ss ks \<longleftrightarrow>
     (\<forall>j < length ss. ss ! j = past_count j ks) \<and>
     (\<forall>n. Some n \<in> set ks \<longrightarrow> n < length ss \<or> n = 0) \<and>
     (ss \<noteq> [] \<longrightarrow> live_count ks \<noteq> 0 \<longrightarrow> Some 0 \<in> set ks)"

lemma length_filter_update:
  "i < length xs \<Longrightarrow>
     length (filter P (xs[i := x])) + of_bool (P (xs ! i)) = length (filter P xs) + of_bool (P x)"
proof (induction xs arbitrary: i)
  case (Cons y xs)
  then show ?case by (cases i) (use Cons.IH [of "i - 1"] in \<open>auto simp: of_bool_def split: if_splits\<close>)
qed simp

lemma in_set_update_other: "x \<in> set xs \<Longrightarrow> xs ! i \<noteq> x \<Longrightarrow> x \<in> set (xs[i := y])"
  by (metis in_set_conv_nth length_list_update nth_list_update_neq)

lemma past_count_update:
  "i < length ks \<Longrightarrow> ks ! i = Some k \<Longrightarrow>
     past_count j (ks[i := Some m]) + of_bool (j < k) = past_count j ks + of_bool (j < m)"
  using length_filter_update [of i ks "\<lambda>k. case k of None \<Rightarrow> False | Some n \<Rightarrow> j < n" "Some m"]
  by (simp add: past_count_def)

lemma past_count_leave:
  "i < length ks \<Longrightarrow> ks ! i = Some k \<Longrightarrow> past_count j (ks[i := None]) + of_bool (j < k) = past_count j ks"
  using length_filter_update [of i ks "\<lambda>k. case k of None \<Rightarrow> False | Some n \<Rightarrow> j < n" None]
  by (simp add: past_count_def)

lemma live_count_update: "i < length ks \<Longrightarrow> ks ! i \<noteq> None \<Longrightarrow> live_count (ks[i := Some m]) = live_count ks"
  using length_filter_update [of i ks "\<lambda>k. k \<noteq> None" "Some m"] by (simp add: live_count_def)

lemma live_count_leave: "i < length ks \<Longrightarrow> ks ! i \<noteq> None \<Longrightarrow> Suc (live_count (ks[i := None])) = live_count ks"
  using length_filter_update [of i ks "\<lambda>k. k \<noteq> None" None] by (simp add: live_count_def)

lemma live_count_0: "live_count ks = 0 \<longleftrightarrow> (\<forall>k \<in> set ks. k = None)"
  by (simp add: live_count_def filter_empty_conv)

lemma live_count_map_option [simp]: "live_count (map (map_option f) cs) = live_count cs"
  by (simp add: live_count_def filter_map o_def)

lemma live_count_append [simp]: "live_count (cs @ [Some c]) = Suc (live_count cs)"
  by (simp add: live_count_def)

lemma past_count_le_live: "past_count j ks \<le> live_count ks"
  unfolding past_count_def live_count_def
  by (induction ks) (auto split: option.splits)

lemma past_count_eq_live:
  "past_count j ks = live_count ks \<longleftrightarrow> (\<forall>n. Some n \<in> set ks \<longrightarrow> j < n)"
proof (induction ks)
  case (Cons k ks)
  have "past_count j ks \<le> live_count ks" by (rule past_count_le_live)
  with Cons show ?case by (cases k) (auto simp: past_count_def live_count_def)
qed (simp add: past_count_def live_count_def)

lemma past_count_shift: "past_count j (map (map_option (\<lambda>n. n - Suc 0)) ks) = past_count (Suc j) ks"
  unfolding past_count_def
  by (induction ks) (auto split: option.splits)

lemma seen_ok_put:
  assumes "seen_ok ss ks"
  shows "seen_ok (ss @ [0]) ks"
proof -
  have "past_count (length ss) ks = 0"
    using assms by (fastforce simp: past_count_def seen_ok_def filter_empty_conv split: option.splits)
  moreover have "Some 0 \<in> set ks" if "live_count ks \<noteq> 0"
  proof (cases "ss = []")
    case True
    from that obtain n where "Some n \<in> set ks" by (auto simp: live_count_0)
    with assms True show ?thesis by (auto simp: seen_ok_def)
  next
    case False
    with assms that show ?thesis by (simp add: seen_ok_def)
  qed
  ultimately show ?thesis
    using assms by (auto simp: seen_ok_def nth_append less_Suc_eq)
qed

lemma seen_ok_new: "seen_ok ss ks \<Longrightarrow> seen_ok ss (ks @ [Some 0])"
  by (auto simp: seen_ok_def past_count_def)

text \<open>The last consumer to see an element is at the head, and all others are past it.\<close>

lemma seen_ok_last:
  assumes ok: "seen_ok ss ks" and i: "i < length ks" "ks ! i = Some k" and k: "k < length ss"
    and last: "live_count ks \<le> Suc (ss ! k)"
  shows "k = 0" and "j < length ks \<Longrightarrow> j \<noteq> i \<Longrightarrow> ks ! j = Some n \<Longrightarrow> 0 < n"
proof -
  have "past_count k (ks[i := Some (Suc k)]) = Suc (past_count k ks)"
    using past_count_update [OF i, of k "Suc k"] by simp
  moreover have "live_count (ks[i := Some (Suc k)]) = live_count ks" using i by (simp add: live_count_update)
  ultimately have "past_count k (ks[i := Some (Suc k)]) = live_count (ks[i := Some (Suc k)])"
    using past_count_le_live [of k "ks[i := Some (Suc k)]"] last ok k by (simp add: seen_ok_def)
  then have past: "k < n" if "Some n \<in> set (ks[i := Some (Suc k)])" for n
    using that by (simp add: past_count_eq_live)
  have others: "k < n" if "j < length ks" "j \<noteq> i" "ks ! j = Some n" for j n
    using past that by (metis length_list_update nth_list_update_neq nth_mem)
  have "Some k \<in> set ks" using i by (metis nth_mem)
  then have "live_count ks \<noteq> 0" by (auto simp: live_count_0)
  with ok k have "Some 0 \<in> set ks" by (auto simp: seen_ok_def)
  then obtain l where "l < length ks" "ks ! l = Some 0" by (auto simp: in_set_conv_nth)
  with others [of l 0] i show "k = 0" by (cases "l = i") auto
  show "j < length ks \<Longrightarrow> j \<noteq> i \<Longrightarrow> ks ! j = Some n \<Longrightarrow> 0 < n" using others [of j n] by simp
qed

lemma seen_ok_step:
  assumes ok: "seen_ok ss ks" and i: "i < length ks" "ks ! i = Some k" and k: "Suc k < length ss"
    and more: "Suc (ss ! k) < live_count ks"
  shows "seen_ok (ss[k := Suc (ss ! k)]) (ks[i := Some (Suc k)])"
proof -
  let ?ks = "ks[i := Some (Suc k)]"
  have cnt: "past_count j ?ks = (if j = k then Suc (past_count j ks) else past_count j ks)" for j
    using past_count_update [OF i, of j "Suc k"] by (cases j k rule: linorder_cases) simp_all
  have "past_count k ?ks < live_count ?ks"
    using more ok k i by (simp add: cnt live_count_update seen_ok_def)
  moreover have "Some 0 \<in> set ?ks" if "k \<noteq> 0"
  proof -
    have "Some k \<in> set ks" using i by (metis nth_mem)
    then have "live_count ks \<noteq> 0" by (auto simp: live_count_0)
    with ok k have "Some 0 \<in> set ks" by (auto simp: seen_ok_def)
    with that i show ?thesis by (simp add: in_set_update_other)
  qed
  ultimately have "Some 0 \<in> set ?ks"
    using past_count_eq_live [of k ?ks] by (metis bot_nat_0.not_eq_extremum less_irrefl_nat)
  moreover have "n < length ss \<or> n = 0" if "Some n \<in> set ?ks" for n
    using that ok k set_update_subset_insert [of ks i "Some (Suc k)"] by (auto simp: seen_ok_def)
  moreover have "ss[k := Suc (ss ! k)] ! j = past_count j ?ks" if "j < length ss" for j
    using that ok by (auto simp: seen_ok_def cnt nth_list_update)
  ultimately show ?thesis by (simp add: seen_ok_def)
qed

lemma seen_ok_pop:
  assumes ok: "seen_ok ss ks" and i: "i < length ks" "ks ! i = Some 0" and ss: "ss \<noteq> []"
  shows "seen_ok (tl ss) (map (map_option (\<lambda>n. n - Suc 0)) ks)"
proof -
  have "Some 0 \<in> set ks" using i by (metis nth_mem)
  then have "Some 0 \<in> set (map (map_option (\<lambda>n. n - Suc 0)) ks)" by force
  moreover have "n < length (tl ss) \<or> n = 0" if "Some n \<in> set (map (map_option (\<lambda>n. n - Suc 0)) ks)" for n
  proof -
    from that obtain m where "Some m \<in> set ks" "n = m - Suc 0" by (auto simp: map_option_case split: option.splits)
    with ok show ?thesis by (auto simp: seen_ok_def)
  qed
  moreover have "tl ss ! j = past_count (Suc j) ks" if "j < length (tl ss)" for j
    using that ok by (simp add: seen_ok_def nth_tl)
  ultimately show ?thesis by (simp add: seen_ok_def past_count_shift)
qed


lemma seen_ok_leave:
  assumes ok: "seen_ok ss ks" and i: "i < length ks" "ks ! i = Some k"
    and ss: "length ss' = length ss" "\<And>j. j < length ss \<Longrightarrow> ss' ! j + of_bool (j < k) = ss ! j"
    and slow: "live_count (ks[i := None]) \<noteq> 0 \<Longrightarrow> Some 0 \<in> set (ks[i := None])"
  shows "seen_ok ss' (ks[i := None])"
proof -
  have "ss' ! j = past_count j (ks[i := None])" if "j < length ss" for j
    using past_count_leave [OF i, of j] ss(2) [OF that] ok that by (simp add: seen_ok_def)
  moreover have "n < length ss \<or> n = 0" if "Some n \<in> set (ks[i := None])" for n
    using that ok set_update_subset_insert [of ks i None] by (auto simp: seen_ok_def)
  ultimately show ?thesis using slow ss(1) by (simp add: seen_ok_def)
qed

section \<open>Cursors of the consumers\<close>

definition node_keys :: "BufferQueue_Producer \<Rightarrow> nat list" where
  "node_keys p = (case queue p of None \<Rightarrow> [] | Some q \<Rightarrow> map fst q)"

definition selected :: "BufferQueue_Producer \<Rightarrow> BufferQueue_Consumer \<Rightarrow> bool" where
  "selected p c = (consumer_queue_serial c = queue_serial p \<and> current_element_pointer c \<noteq> None)"

definition cursor :: "BufferQueue_Producer \<Rightarrow> BufferQueue_Consumer \<Rightarrow> nat" where
  "cursor p c = (if selected p c then node_index (the (current_element_pointer c)) (node_keys p) else 0)"

definition buffered :: "BufferQueue_Producer \<Rightarrow> nat list" where
  "buffered p = (case queue p of None \<Rightarrow> [] | Some q \<Rightarrow> map (\<lambda>x. payload (snd x)) q)"

definition pending :: "BufferQueue_Producer \<Rightarrow> BufferQueue_Consumer \<Rightarrow> nat list" where
  "pending p c = drop (cursor p c) (buffered p)"

definition client_ok :: "BufferQueue_Producer \<Rightarrow> BufferQueue_Consumer \<Rightarrow> bool" where
  "client_ok p c \<longleftrightarrow>
     consumer_queue_serial c \<le> queue_serial p \<and>
     (consumer_queue_serial c = queue_serial p \<longrightarrow>
        current_element_object c = current_element_pointer c \<and>
        (\<forall>a. current_element_pointer c = Some a \<longrightarrow> a \<in> set (node_keys p)))"

definition producer_ok :: "BufferQueue_Producer \<Rightarrow> bool" where
  "producer_ok p \<longleftrightarrow>
     stopped p = 0 \<and> 0 < queue_serial p \<and> unat (next_serial p) < 2 ^ 63 \<and>
     (case queue p of
        None \<Rightarrow> False
      | Some q \<Rightarrow>
          distinct (map fst q) \<and> (\<forall>a \<in> set (map fst q). a < next_addr p) \<and> 0 \<notin> set (buffered p) \<and>
          length q \<le> unat (next_serial p) \<and>
          (\<forall>j < length q. unat (serial (snd (q ! j))) + length q = unat (next_serial p) + j))"

definition seen_counts :: "BufferQueue_Producer \<Rightarrow> nat list" where
  "seen_counts p = (case queue p of None \<Rightarrow> [] | Some q \<Rightarrow> map (\<lambda>x. unat (seen (snd x))) q)"

definition cursors :: "bq_system \<Rightarrow> nat option list" where
  "cursors s = map (map_option (cursor (producer s))) (clients s)"

definition bq_inv :: "bq_system \<Rightarrow> bool" where
  "bq_inv s \<longleftrightarrow>
     producer_ok (producer s) \<and>
     (\<forall>c. Some c \<in> set (clients s) \<longrightarrow> client_ok (producer s) c) \<and>
     unat (consumers (producer s)) = live_count (clients s) \<and>
     seen_ok (seen_counts (producer s)) (cursors s)"

text \<open>A consumer that has a current element stands on the node of its cursor.\<close>

lemma selected_node:
  assumes "producer_ok p" "client_ok p c" "selected p c"
  obtains q where "queue p = Some q" "cursor p c < length q"
    "current_element_pointer c = Some (fst (q ! cursor p c))"
    "current_element_object c = Some (fst (q ! cursor p c))"
proof -
  from assms(1) obtain q where q: "queue p = Some q" by (auto simp: producer_ok_def split: option.splits)
  from assms(3) obtain a where a: "current_element_pointer c = Some a" by (auto simp: selected_def)
  with assms q have "a \<in> set (map fst q)" by (auto simp: client_ok_def selected_def node_keys_def)
  with node_index_in [of a "map fst q"] have "cursor p c < length q" "fst (q ! cursor p c) = a"
    using assms(3) q a by (auto simp: cursor_def node_keys_def)
  with q a assms show thesis by (intro that) (auto simp: client_ok_def selected_def)
qed

lemma cursor_node:
  assumes "queue p = Some q" "distinct (map fst q)" "j < length q" "consumer_queue_serial c = queue_serial p"
    "current_element_pointer c = Some (fst (q ! j))"
  shows "cursor p c = j"
  using assms node_index_nth [of "map fst q" j] by (simp add: cursor_def selected_def node_keys_def)

lemma not_selected_cursor: "\<not> selected p c \<Longrightarrow> cursor p c = 0"
  by (simp add: cursor_def)

lemma length_pending: "queue p = Some q \<Longrightarrow> length (pending p c) = length q - cursor p c"
  by (simp add: pending_def buffered_def)

text \<open>What a change of the producer that keeps the addresses of the nodes keeps.\<close>

lemma same_nodes:
  assumes "node_keys p' = node_keys p" "queue_serial p' = queue_serial p"
  shows "selected p' = selected p" "cursor p' = cursor p" "client_ok p' = client_ok p"
  unfolding selected_def cursor_def client_ok_def fun_eq_iff by (simp_all only: assms simp_thms)

text \<open>Appending an element, and removing the head that a consumer is past or has not selected.\<close>

lemma appended_nodes:
  assumes "node_keys p' = node_keys p @ ks" "queue_serial p' = queue_serial p" "client_ok p c"
  shows "selected p' c = selected p c" "cursor p' c = cursor p c" "client_ok p' c"
  using assms by (auto simp: selected_def cursor_def client_ok_def node_index_append)

lemma popped_nodes:
  assumes keys: "node_keys p' = tl (node_keys p)" "node_keys p \<noteq> []" and ser: "queue_serial p' = queue_serial p"
    and ok: "client_ok p c" and pos: "0 < cursor p c"
  shows "selected p' c = selected p c" "cursor p' c = cursor p c - Suc 0" "client_ok p' c"
proof -
  have "selected p c" using pos by (auto simp: cursor_def split: if_splits)
  then obtain a where a: "current_element_pointer c = Some a" "a \<in> set (node_keys p)"
    using ok by (auto simp: selected_def client_ok_def)
  have "0 < node_index a (node_keys p)" using pos a(1) \<open>selected p c\<close> by (simp add: cursor_def)
  then have hd: "a \<noteq> hd (node_keys p)" by (cases "node_keys p") (auto simp: node_index_def)
  with keys(2) a(2) have "a \<in> set (tl (node_keys p))" by (metis list.collapse set_ConsD)
  with node_index_tl [OF keys(2) hd] a(1) \<open>selected p c\<close> ser ok keys(1)
  show "selected p' c = selected p c" "cursor p' c = cursor p c - Suc 0" "client_ok p' c"
    by (simp_all add: selected_def cursor_def client_ok_def)
qed


section \<open>Effect of the operations on the producer\<close>

lemma free_elements_simps [simp]:
  "freed (free_elements q p) = freed p @ map (\<lambda>x. payload (snd x)) q"
  "queue (free_elements q p) = queue p" "next_serial (free_elements q p) = next_serial p"
  "queue_serial (free_elements q p) = queue_serial p" "consumers (free_elements q p) = consumers p"
  "stopped (free_elements q p) = stopped p" "next_addr (free_elements q p) = next_addr p"
  unfolding free_elements_def
  by (induction q arbitrary: p) (simp_all add: bq_element_free_internal_def)

lemma producer_okE:
  assumes "producer_ok p"
  obtains q where "queue p = Some q" "distinct (map fst q)" "stopped p = 0" "0 < queue_serial p"
    "node_keys p = map fst q" "buffered p = map (\<lambda>x. payload (snd x)) q"
    "seen_counts p = map (\<lambda>x. unat (seen (snd x))) q"
  using assms by (auto simp: producer_ok_def node_keys_def buffered_def seen_counts_def split: option.splits)

lemma unat_plus_one: "unat w + 1 < 2 ^ 64 \<Longrightarrow> unat (w + 1) = unat w + 1" for w :: u64
  using unat_add_lem [of w 1] by simp

lemma unat_not_max: "w \<noteq> - 1 \<Longrightarrow> unat w + 1 < 2 ^ 64" for w :: u64
  by (simp add: word_order.not_eq_extremum word_less_nat_alt unsigned_minus_1_eq_mask mask_eq_exp_minus_1)

lemma put_effect:
  assumes ok: "producer_ok p" and pl: "pl \<noteq> 0" and n: "unat (next_serial p) + 1 < 2 ^ 63"
  obtains p' where "bq_producer_put pl p = Done p'" "producer_ok p'" "node_keys p' = node_keys p @ [next_addr p]"
    "queue_serial p' = queue_serial p" "consumers p' = consumers p" "buffered p' = buffered p @ [pl]"
    "seen_counts p' = seen_counts p @ [0]" "freed p' = freed p"
proof -
  from ok obtain q where q: "queue p = Some q" by (rule producer_okE)
  let ?e = "\<lparr>payload = pl, seen = 0, serial = next_serial p\<rparr>"
  let ?p = "p\<lparr>next_serial := next_serial p + 1, queue := Some (q @ [(next_addr p, ?e)]), next_addr := Suc (next_addr p)\<rparr>"
  have suc: "unat (next_serial p + 1) = unat (next_serial p) + 1" using n by (intro unat_plus_one) simp
  then have "next_serial p + 1 \<noteq> 0" by (metis add_is_0 one_neq_zero unat_0)
  then have "bq_producer_put pl p = Done ?p"
    using ok pl q by (simp add: bq_producer_put_def producer_ok_def Let_def)
  moreover have "producer_ok ?p"
    using ok q n pl suc by (auto simp: producer_ok_def buffered_def nth_append less_Suc_eq)
  ultimately show thesis using q by (intro that [of ?p]) (simp_all add: node_keys_def buffered_def seen_counts_def)
qed

lemma reset_effect:
  assumes ok: "producer_ok p" and n: "queue_serial p \<noteq> - 1"
  obtains p' where "bq_producer_reset_queue p = Done p'" "producer_ok p'" "node_keys p' = []"
    "queue_serial p' = queue_serial p + 1" "queue_serial p < queue_serial p'" "consumers p' = consumers p"
    "buffered p' = []" "seen_counts p' = []" "freed p' = freed p @ buffered p"
proof -
  from ok obtain q where q: "queue p = Some q" "stopped p = 0" "buffered p = map (\<lambda>x. payload (snd x)) q"
    by (rule producer_okE)
  let ?p = "(free_elements q p)\<lparr>queue := Some [], queue_serial := queue_serial p + 1, next_serial := 0\<rparr>"
  have less: "queue_serial p < queue_serial p + 1"
    using unat_plus_one [OF unat_not_max [OF n]] by (simp add: word_less_nat_alt)
  then have "producer_ok ?p" using q by (auto simp: producer_ok_def buffered_def word_gt_0)
  then show thesis
    using q less
    by (intro that [of ?p]) (simp_all add: bq_producer_reset_queue_def node_keys_def buffered_def seen_counts_def Let_def)
qed

lemma set_seen_ok:
  assumes "producer_ok p" "queue p = Some q" "k < length q"
  shows "producer_ok (p\<lparr>queue := Some (q[k := (fst (q ! k), (snd (q ! k))\<lparr>seen := v\<rparr>)])\<rparr>)"
proof -
  let ?q = "q[k := (fst (q ! k), (snd (q ! k))\<lparr>seen := v\<rparr>)]"
  have "map fst ?q = map fst q" using assms(3) by (simp add: map_update list_update_same_conv)
  moreover have "map (\<lambda>x. payload (snd x)) ?q = map (\<lambda>x. payload (snd x)) q"
    using assms(3) by (simp add: map_update list_update_same_conv)
  moreover have "serial (snd (?q ! j)) = serial (snd (q ! j))" if "j < length q" for j
    using that by (cases "j = k") simp_all
  ultimately show ?thesis using assms(1,2) by (simp add: producer_ok_def buffered_def)
qed

lemma tl_queue_ok:
  assumes "producer_ok p" "queue p = Some q"
  shows "producer_ok (p\<lparr>queue := Some (tl q), freed := f\<rparr>)"
proof (cases q)
  case (Cons x r)
  have "unat (serial (snd (r ! j))) + length r = unat (next_serial p) + j" if "j < length r" for j
    using assms Cons that by (force simp: producer_ok_def)
  with assms Cons show ?thesis by (auto simp: producer_ok_def buffered_def)
qed (use assms in \<open>simp add: producer_ok_def buffered_def\<close>)


lemma unat_seen_plus_one: "unat v < unat w \<Longrightarrow> unat (v + 1) = Suc (unat v)" for v w :: u64
proof -
  assume "unat v < unat w"
  moreover have "unat w < 2 ^ LENGTH(64)" by (rule unsigned_less)
  ultimately show "unat (v + 1) = Suc (unat v)" by (simp add: unat_plus_one)
qed

lemma unref_unfold:
  assumes "producer_ok p" "client_ok p c" "selected p c" "queue p = Some q"
  shows "bq_consumer_elem_unref c p =
    (let k = cursor p c; e = (snd (q ! k))\<lparr>seen := seen (snd (q ! k)) + 1\<rparr>;
         q' = q[k := (fst (q ! k), e)]; p' = p\<lparr>queue := Some q'\<rparr>
     in if seen e < consumers p then Done (c, p')
        else if k = 0 then Done (c\<lparr>current_element_object := None\<rparr>,
          p'\<lparr>queue := Some (tl q'), freed := freed p @ [payload (snd (q ! k))]\<rparr>)
        else Abort)"
proof -
  obtain q1 where q1: "queue p = Some q1" and k: "cursor p c < length q1"
    and ptr: "current_element_pointer c = Some (fst (q1 ! cursor p c))"
    and obj: "current_element_object c = Some (fst (q1 ! cursor p c))"
    by (rule selected_node [OF assms(1-3)])
  from assms(1) obtain q2 where "queue p = Some q2" "distinct (map fst q2)" by (rule producer_okE)
  with q1 assms(4) have q: "q1 = q" "distinct (map fst q)" by simp_all
  let ?e = "(snd (q ! cursor p c))\<lparr>seen := seen (snd (q ! cursor p c)) + 1\<rparr>"
  have "queue_head (q[cursor p c := (fst (q ! cursor p c), ?e)]) = Some (fst (q ! 0))"
    using k q(1) by (cases "cursor p c") (auto simp: queue_head_nth nth_list_update)
  moreover have "fst (q ! cursor p c) = fst (q ! 0) \<longleftrightarrow> cursor p c = 0"
    using nth_eq_iff_index_eq [OF q(2), of "cursor p c" 0] k q(1) by (cases "q = []") auto
  ultimately show ?thesis
    using k ptr obj q(1) assms(3,4) map_of_node [OF q(2), of "cursor p c"] set_elem_nth [OF q(2), of "cursor p c" ?e]
    by (cases "cursor p c = 0")
      (simp_all add: bq_consumer_elem_unref_def selected_def bq_element_free_internal_def Let_def)
qed

lemma unref_keeps:
  assumes ok: "producer_ok p" "client_ok p c" "selected p c"
    and more: "Suc (seen_counts p ! cursor p c) < unat (consumers p)"
  obtains p' where "bq_consumer_elem_unref c p = Done (c, p')" "producer_ok p'" "node_keys p' = node_keys p"
    "queue_serial p' = queue_serial p" "consumers p' = consumers p" "buffered p' = buffered p"
    "seen_counts p' = (seen_counts p)[cursor p c := Suc (seen_counts p ! cursor p c)]" "freed p' = freed p"
proof -
  obtain q where q: "queue p = Some q" and k: "cursor p c < length q" by (rule selected_node [OF ok])
  let ?k = "cursor p c" and ?v = "seen (snd (q ! cursor p c)) + 1"
  let ?p = "p\<lparr>queue := Some (q[?k := (fst (q ! ?k), (snd (q ! ?k))\<lparr>seen := ?v\<rparr>)])\<rparr>"
  have "unat (seen (snd (q ! ?k))) < unat (consumers p)" using more q k by (simp add: seen_counts_def)
  then have v: "unat ?v = Suc (unat (seen (snd (q ! ?k))))" by (rule unat_seen_plus_one)
  then have "?v < consumers p" using more q k by (simp add: seen_counts_def word_less_nat_alt)
  then have "bq_consumer_elem_unref c p = Done (c, ?p)" by (simp add: unref_unfold [OF ok q] Let_def)
  moreover have "producer_ok ?p" using ok(1) q k by (rule set_seen_ok)
  moreover have "node_keys ?p = node_keys p" "buffered ?p = buffered p"
    using q k by (simp_all add: node_keys_def buffered_def map_update list_update_same_conv)
  moreover have "seen_counts ?p = (seen_counts p)[?k := Suc (seen_counts p ! ?k)]"
    using q k v by (simp add: seen_counts_def map_update)
  ultimately show thesis by (intro that [of ?p]) simp_all
qed

lemma unref_frees:
  assumes ok: "producer_ok p" "client_ok p c" "selected p c" and k: "cursor p c = 0"
    and last: "Suc (seen_counts p ! 0) = unat (consumers p)"
  obtains p' where "bq_consumer_elem_unref c p = Done (c\<lparr>current_element_object := None\<rparr>, p')" "producer_ok p'"
    "node_keys p' = tl (node_keys p)" "queue_serial p' = queue_serial p" "consumers p' = consumers p"
    "buffered p' = tl (buffered p)" "seen_counts p' = tl (seen_counts p)" "freed p' = freed p @ [hd (buffered p)]"
proof -
  obtain q where q: "queue p = Some q" and "cursor p c < length q" by (rule selected_node [OF ok])
  with k obtain x r where r: "q = x # r" by (cases q) auto
  let ?p = "p\<lparr>queue := Some r, freed := freed p @ [payload (snd x)]\<rparr>"
  have "unat (seen (snd x)) < unat (consumers p)" using last q r by (simp add: seen_counts_def)
  then have "unat (seen (snd x) + 1) = Suc (unat (seen (snd x)))" by (rule unat_seen_plus_one)
  then have "\<not> seen (snd x) + 1 < consumers p" using last q r by (simp add: seen_counts_def word_less_nat_alt)
  then have "bq_consumer_elem_unref c p = Done (c\<lparr>current_element_object := None\<rparr>, ?p)"
    using r k by (simp add: unref_unfold [OF ok q] Let_def)
  moreover have "producer_ok ?p" using tl_queue_ok [OF ok(1) q] r by simp
  ultimately show thesis using q r by (intro that [of ?p]) (simp_all add: node_keys_def buffered_def seen_counts_def)
qed

lemma select_head:
  assumes ok: "producer_ok p" and c: "\<not> selected p c"
  obtains c' where "bq_consumer_move_internal c p = Done (buffered p \<noteq> [], c', p)" "client_ok p c'"
    "cursor p c' = 0" "selected p c' = (buffered p \<noteq> [])"
proof -
  from ok obtain q where q: "queue p = Some q" and keys: "node_keys p = map fst q"
    and buf: "buffered p = map (\<lambda>x. payload (snd x)) q" by (rule producer_okE)
  let ?c = "c\<lparr>consumer_queue_serial := queue_serial p, current_element_pointer := queue_head q,
    current_element_object := queue_head q\<rparr>"
  have "bq_consumer_move_internal c p = Done (buffered p \<noteq> [], ?c, p)"
    using c q buf by (auto simp: bq_consumer_move_internal_def selected_def queue_head_nth)
  moreover have "client_ok p ?c" "cursor p ?c = 0" "selected p ?c = (buffered p \<noteq> [])"
    using q keys buf
    by (cases q; simp add: client_ok_def cursor_def selected_def queue_head_def node_index_def)+
  ultimately show thesis by (rule that)
qed


section \<open>The specification: one FIFO channel for each consumer\<close>

text \<open>
  A channel is a flag that says whether its first packet is the current element of the consumer, and the packets that
  the consumer has not moved past, in order. \<open>fifo_step\<close> is a step on the channels, where \<open>kept\<close> are the packets
  that the producer still holds: they are what a new consumer gets to see.
\<close>

type_synonym channel = "bool \<times> nat list"

fun fifo_step :: "nat list \<Rightarrow> bq_op \<Rightarrow> channel option list \<Rightarrow> channel option list" where
  "fifo_step kept (Put pl) v = map (map_option (\<lambda>(sel, l). (sel, l @ [pl]))) v"
| "fifo_step kept Reset v = map (map_option (\<lambda>_. (False, []))) v"
| "fifo_step kept New v = v @ [Some (False, kept)]"
| "fifo_step kept (Get i) v = v[i := map_option (\<lambda>(sel, l). (l \<noteq> [], l)) (v ! i)]"
| "fifo_step kept (Move i) v =
     v[i := map_option (\<lambda>(sel, l). let l' = (if sel then tl l else l) in (l' \<noteq> [], l')) (v ! i)]"
| "fifo_step kept (Unseen i) v = v"
| "fifo_step kept (Free i) v = v[i := None]"

fun fifo_reply :: "bq_op \<Rightarrow> channel option list \<Rightarrow> bq_reply option" where
  "fifo_reply (Get i) v =
     map_option (\<lambda>(sel, l). Payload (case l of [] \<Rightarrow> 0 | pl # _ \<Rightarrow> pl)) (v ! i)"
| "fifo_reply (Move i) v = map_option (\<lambda>(sel, l). Moved ((if sel then tl l else l) \<noteq> [])) (v ! i)"
| "fifo_reply (Unseen i) v =
     (case v ! i of Some (True, l) \<Rightarrow> Some (Count (of_nat (length l))) | _ \<Rightarrow> None)"
| "fifo_reply _ v = Some No_reply"

definition channel_of :: "BufferQueue_Producer \<Rightarrow> BufferQueue_Consumer \<Rightarrow> channel" where
  "channel_of p c = (selected p c, pending p c)"

definition channels :: "bq_system \<Rightarrow> channel option list" where
  "channels s = map (map_option (channel_of (producer s))) (clients s)"

definition live_client :: "nat \<Rightarrow> bq_system \<Rightarrow> bool" where
  "live_client i s = (i < length (clients s) \<and> clients s ! i \<noteq> None)"

text \<open>
  The calls that keep the consumers independent. No payload is \<open>NULL\<close> and no serial number overflows; a consumer that
  is at the tail moves only when it is alone, and one that leaves is alone, or has no current element of an older queue
  while another consumer is at the head (or at the next element, when the one that leaves is at the head).
\<close>

fun bq_allowed :: "bq_op \<Rightarrow> bq_system \<Rightarrow> bool" where
  "bq_allowed (Put pl) s = (pl \<noteq> 0 \<and> unat (next_serial (producer s)) + 1 < 2 ^ 63)"
| "bq_allowed Reset s = (queue_serial (producer s) \<noteq> - 1)"
| "bq_allowed New s = (consumers (producer s) \<noteq> - 1)"
| "bq_allowed (Get i) s = live_client i s"
| "bq_allowed (Unseen i) s = live_client i s"
| "bq_allowed (Move i) s =
     (live_client i s \<and>
      (let p = producer s; c = the (clients s ! i)
       in selected p c \<longrightarrow> consumers p = 1 \<or> 1 < length (pending p c)))"
| "bq_allowed (Free i) s =
     (live_client i s \<and>
      (let p = producer s; c = the (clients s ! i); ahead = (if selected p c \<and> cursor p c = 0 then 1 else 0)
       in (consumers p = 1 \<or>
           (current_element_object c = None \<or> consumer_queue_serial c = queue_serial p) \<and>
           (\<exists>j < length (clients s). j \<noteq> i \<and>
              (case clients s ! j of None \<Rightarrow> False | Some d \<Rightarrow> cursor p d \<le> ahead)))))"

lemma same_channels:
  assumes "node_keys p' = node_keys p" "queue_serial p' = queue_serial p" "buffered p' = buffered p"
  shows "channel_of p' = channel_of p"
  unfolding channel_of_def pending_def fun_eq_iff by (simp add: same_nodes [OF assms(1,2)] assms(3))

lemma with_client_live:
  "clients s ! i = Some c \<Longrightarrow> i < length (clients s) \<Longrightarrow> with_client i s f = f c (producer s)"
  by (simp add: with_client_def)

lemma bq_inv_client:
  assumes "bq_inv s" "i < length (clients s)" "clients s ! i = Some c"
  shows "producer_ok (producer s)" "client_ok (producer s) c"
  using assms nth_mem [of i "clients s"] by (auto simp: bq_inv_def)

lemma map_clients_cong:
  "(\<And>c. Some c \<in> set cs \<Longrightarrow> f c = g c) \<Longrightarrow> map (map_option f) cs = map (map_option g) cs"
  by (auto intro: option.map_cong0)

lemma in_map_clients: "Some n \<in> set (map (map_option f) cs) \<longleftrightarrow> (\<exists>c. Some c \<in> set cs \<and> n = f c)"
  by (auto simp: image_iff map_option_case split: option.splits)

lemma cursor_bound:
  assumes "producer_ok p" "client_ok p c"
  shows "selected p c \<Longrightarrow> cursor p c < length (buffered p)" and "cursor p c \<le> length (buffered p)"
proof -
  show "cursor p c < length (buffered p)" if "selected p c"
    by (rule selected_node [OF assms that]) (simp add: buffered_def)
  then show "cursor p c \<le> length (buffered p)"
    by (cases "selected p c") (auto simp: not_selected_cursor)
qed

lemma bq_invI:
  assumes "producer_ok p" "\<And>c. Some c \<in> set cs \<Longrightarrow> client_ok p c" "unat (consumers p) = live_count cs"
    "seen_ok (seen_counts p) (map (map_option (cursor p)) cs)"
  shows "bq_inv \<lparr>producer = p, clients = cs\<rparr>"
  using assms by (simp add: bq_inv_def cursors_def)

lemma bq_invD:
  assumes "bq_inv s"
  shows "producer_ok (producer s)" "Some c \<in> set (clients s) \<Longrightarrow> client_ok (producer s) c"
    "unat (consumers (producer s)) = live_count (clients s)" "seen_ok (seen_counts (producer s)) (cursors s)"
  using assms by (simp_all add: bq_inv_def)

lemma put_refines:
  assumes inv: "bq_inv s" and ok: "bq_allowed (Put pl) s"
  shows "\<exists>s'. bq_step (Put pl) s = Done (No_reply, s') \<and> bq_inv s' \<and> channels s' = fifo_step k (Put pl) (channels s)"
proof -
  from inv have P: "producer_ok (producer s)" by (simp add: bq_inv_def)
  from P ok obtain p' where p: "bq_producer_put pl (producer s) = Done p'" "producer_ok p'"
    "node_keys p' = node_keys (producer s) @ [next_addr (producer s)]" "queue_serial p' = queue_serial (producer s)"
    "consumers p' = consumers (producer s)" "buffered p' = buffered (producer s) @ [pl]"
    "seen_counts p' = seen_counts (producer s) @ [0]"
    by (rule_tac put_effect [of "producer s" pl]) auto
  note same = appended_nodes [OF p(3,4)] and cl = bq_invD(2) [OF inv]
  have cur: "map (map_option (cursor p')) (clients s) = cursors s"
    unfolding cursors_def by (intro map_clients_cong same(2) cl)
  have "channel_of p' c = (\<lambda>(sel, l). (sel, l @ [pl])) (channel_of (producer s) c)" if "client_ok (producer s) c" for c
    using same(1,2) [OF that] p(6) cursor_bound(2) [OF P that] by (simp add: channel_of_def pending_def)
  then have "map (map_option (channel_of p')) (clients s) =
      map (map_option (\<lambda>c. (\<lambda>(sel, l). (sel, l @ [pl])) (channel_of (producer s) c))) (clients s)"
    by (intro map_clients_cong) (simp add: cl)
  then have "channels \<lparr>producer = p', clients = clients s\<rparr> = fifo_step k (Put pl) (channels s)"
    by (simp add: channels_def option.map_comp o_def)
  moreover have "bq_inv \<lparr>producer = p', clients = clients s\<rparr>"
    using bq_invD(3,4) [OF inv] p(2,5,7)
    by (intro bq_invI) (simp_all only: cur seen_ok_put same(3) cl)
  ultimately show ?thesis using p(1) by simp
qed

lemma reset_refines:
  assumes inv: "bq_inv s" and ok: "bq_allowed Reset s"
  shows "\<exists>s'. bq_step Reset s = Done (No_reply, s') \<and> bq_inv s' \<and> channels s' = fifo_step k Reset (channels s)"
proof -
  from bq_invD(1) [OF inv] ok obtain p' where p: "bq_producer_reset_queue (producer s) = Done p'" "producer_ok p'"
    "node_keys p' = []" "queue_serial (producer s) < queue_serial p'" "consumers p' = consumers (producer s)"
    "buffered p' = []" "seen_counts p' = []"
    by (rule_tac reset_effect [of "producer s"]) auto
  have old: "consumer_queue_serial c < queue_serial p'" if "Some c \<in> set (clients s)" for c
    using bq_invD(2) [OF inv that] p(4) by (auto simp: client_ok_def)
  then have sel: "\<not> selected p' c" if "Some c \<in> set (clients s)" for c
    using that by (force simp: selected_def)
  have "n = 0" if "Some n \<in> set (map (map_option (cursor p')) (clients s))" for n
    using that unfolding in_map_clients by (metis sel not_selected_cursor)
  then have "seen_ok (seen_counts p') (map (map_option (cursor p')) (clients s))"
    using p(7) by (simp add: seen_ok_def)
  then have "bq_inv \<lparr>producer = p', clients = clients s\<rparr>"
    using p bq_invD(3) [OF inv] old by (intro bq_invI) (force simp: client_ok_def)+
  moreover have "map (map_option (channel_of p')) (clients s) = map (map_option (\<lambda>_. (False, []))) (clients s)"
    by (intro map_clients_cong) (simp add: channel_of_def pending_def p(6) sel)
  ultimately show ?thesis using p(1) by (simp add: channels_def option.map_comp o_def)
qed

lemma new_refines:
  assumes inv: "bq_inv s" and ok: "bq_allowed New s"
  shows "\<exists>s'. bq_step New s = Done (No_reply, s') \<and> bq_inv s' \<and>
    channels s' = fifo_step (buffered (producer s)) New (channels s)"
proof -
  let ?p = "(producer s)\<lparr>consumers := consumers (producer s) + 1\<rparr>"
  have P: "producer_ok (producer s)" by (rule bq_invD(1) [OF inv])
  have keys: "node_keys ?p = node_keys (producer s)" "queue_serial ?p = queue_serial (producer s)"
    "buffered ?p = buffered (producer s)" "seen_counts ?p = seen_counts (producer s)"
    by (simp_all add: node_keys_def buffered_def seen_counts_def)
  have less: "consumers (producer s) < - 1" using ok by (simp add: word_order.not_eq_extremum)
  have fresh: "\<not> selected ?p consumer_new0" "client_ok ?p consumer_new0"
    using P by (auto simp: selected_def client_ok_def consumer_new0_def producer_ok_def)
  have "unat (consumers (producer s) + 1) = live_count (clients s) + 1"
    using ok bq_invD(3) [OF inv] unat_plus_one [OF unat_not_max, of "consumers (producer s)"] by simp
  moreover have "producer_ok ?p" using P by (cases "queue (producer s)") (simp_all add: producer_ok_def buffered_def)
  ultimately have "bq_inv \<lparr>producer = ?p, clients = clients s @ [Some consumer_new0]\<rparr>"
    using bq_invD(2,4) [OF inv] seen_ok_new fresh
    by (intro bq_invI) (auto simp: same_nodes [OF keys(1,2)] keys not_selected_cursor cursors_def)
  moreover have "bq_step New s = Done (No_reply, \<lparr>producer = ?p, clients = clients s @ [Some consumer_new0]\<rparr>)"
    using P less by (simp add: bq_consumer_new_def producer_ok_def)
  ultimately show ?thesis
    using fresh(1)
    by (simp add: channels_def same_channels [OF keys(1-3)])
      (simp add: channel_of_def pending_def same_nodes [OF keys(1,2)] not_selected_cursor)
qed


text \<open>A consumer that has no current element takes the head; the producer stays as it is.\<close>

lemma bq_inv_same_cursor:
  assumes inv: "bq_inv s" and i: "i < length (clients s)" "clients s ! i = Some c"
    and c': "client_ok (producer s) c'" "cursor (producer s) c' = cursor (producer s) c"
  shows "bq_inv \<lparr>producer = producer s, clients = (clients s)[i := Some c']\<rparr>"
    and "channels \<lparr>producer = producer s, clients = (clients s)[i := Some c']\<rparr> =
      (channels s)[i := Some (selected (producer s) c', pending (producer s) c)]"
proof -
  have "client_ok (producer s) d" if "Some d \<in> set ((clients s)[i := Some c'])" for d
    using that bq_invD(2) [OF inv] c'(1) set_update_subset_insert [of "clients s" i "Some c'"] by auto
  moreover have "map (map_option (cursor (producer s))) ((clients s)[i := Some c']) = cursors s"
    using i c'(2) by (simp add: cursors_def map_update list_update_same_conv)
  moreover have "live_count ((clients s)[i := Some c']) = live_count (clients s)"
    using i by (simp add: live_count_update)
  ultimately show "bq_inv \<lparr>producer = producer s, clients = (clients s)[i := Some c']\<rparr>"
    using bq_invD [OF inv] by (intro bq_invI) simp_all
  show "channels \<lparr>producer = producer s, clients = (clients s)[i := Some c']\<rparr> =
      (channels s)[i := Some (selected (producer s) c', pending (producer s) c)]"
    using i c'(2) by (simp add: channels_def channel_of_def pending_def map_update)
qed

lemma live_clientE:
  assumes "live_client i s"
  obtains c where "i < length (clients s)" "clients s ! i = Some c" "channels s ! i = Some (channel_of (producer s) c)"
  using assms by (auto simp: live_client_def channels_def)

lemma selected_payload:
  assumes ok: "producer_ok p" "client_ok p c" "selected p c"
  shows "bq_consumer_get c p = Done (hd (pending p c), c, p)" "pending p c \<noteq> []"
proof -
  from ok(1) obtain q where q: "queue p = Some q" "distinct (map fst q)" "stopped p = 0"
    "buffered p = map (\<lambda>x. payload (snd x)) q" by (rule producer_okE)
  obtain q1 where q1: "queue p = Some q1" "cursor p c < length q1"
    "current_element_object c = Some (fst (q1 ! cursor p c))" by (rule selected_node [OF ok])
  show "pending p c \<noteq> []" using cursor_bound(1) [OF ok] by (simp add: pending_def)
  show "bq_consumer_get c p = Done (hd (pending p c), c, p)"
    using q q1 ok(3) by (simp add: bq_consumer_get_def selected_def pending_def hd_drop_conv_nth map_of_node)
qed

lemma unselected_get:
  assumes ok: "producer_ok p" "client_ok p c" "\<not> selected p c"
  obtains c' where "bq_consumer_get c p = Done (case buffered p of [] \<Rightarrow> 0 | pl # _ \<Rightarrow> pl, c', p)"
    "client_ok p c'" "cursor p c' = 0" "selected p c' = (buffered p \<noteq> [])"
proof -
  from ok obtain c' where c': "bq_consumer_move_internal c p = Done (buffered p \<noteq> [], c', p)" "client_ok p c'"
    "cursor p c' = 0" "selected p c' = (buffered p \<noteq> [])" by (rule_tac select_head)
  have none: "consumer_queue_serial c \<noteq> queue_serial p \<or> current_element_object c = None"
    using ok(2,3) by (auto simp: client_ok_def selected_def)
  have st: "stopped p = 0" using ok(1) by (simp add: producer_ok_def)
  have "bq_consumer_get c p = Done (case buffered p of [] \<Rightarrow> 0 | pl # _ \<Rightarrow> pl, c', p)"
  proof (cases "buffered p = []")
    case True
    then show ?thesis using c'(1) none st by (simp add: bq_consumer_get_def)
  next
    case False
    then have sel: "selected p c'" using c'(4) by simp
    have "bq_consumer_get c p = bq_consumer_get c' p"
      using False c'(1,2) none st sel
      by (auto simp: bq_consumer_get_def [of c] bq_consumer_get_def [of c'] client_ok_def selected_def)
    also have "\<dots> = Done (hd (pending p c'), c', p)" by (rule selected_payload(1) [OF ok(1) c'(2) sel])
    also have "hd (pending p c') = (case buffered p of [] \<Rightarrow> 0 | pl # _ \<Rightarrow> pl)"
      using False c'(3) by (cases "buffered p") (simp_all add: pending_def)
    finally show ?thesis .
  qed
  then show thesis using c'(2-4) by (rule that)
qed

lemma get_refines:
  assumes inv: "bq_inv s" and ok: "bq_allowed (Get i) s"
  shows "\<exists>r s'. bq_step (Get i) s = Done (r, s') \<and> bq_inv s' \<and> channels s' = fifo_step k (Get i) (channels s) \<and>
    fifo_reply (Get i) (channels s) = Some r"
proof -
  from ok obtain c where i: "i < length (clients s)" "clients s ! i = Some c"
    and ch: "channels s ! i = Some (channel_of (producer s) c)" by (auto elim: live_clientE)
  note P = bq_inv_client [OF inv i]
  show ?thesis
  proof (cases "selected (producer s) c")
    case True
    note g = selected_payload [OF P True]
    from g(2) obtain pl l where "pending (producer s) c = pl # l" by (cases "pending (producer s) c") auto
    then show ?thesis
      using g(1) i ch True bq_inv_same_cursor [OF inv i P(2) refl]
      by (simp add: with_client_live channel_of_def)
  next
    case False
    from P False obtain c' where "bq_consumer_get c (producer s) =
        Done (case buffered (producer s) of [] \<Rightarrow> 0 | pl # _ \<Rightarrow> pl, c', producer s)"
      "client_ok (producer s) c'" "cursor (producer s) c' = 0"
      "selected (producer s) c' = (buffered (producer s) \<noteq> [])" by (rule unselected_get)
    then show ?thesis
      using i ch False bq_inv_same_cursor [OF inv i, of c']
      by (simp add: with_client_live channel_of_def not_selected_cursor pending_def)
  qed
qed

lemma sint_below_63:
  fixes w :: u64
  assumes "unat w < 2 ^ 63"
  shows "sint w = uint w"
proof -
  have "int (unat w) < int (2 ^ 63)" using assms by (simp only: of_nat_less_iff)
  then have "uint w < 2 ^ 63" by simp
  moreover have "- (2 ^ 63) \<le> uint w" by (rule order_trans [OF _ unsigned_greater_eq]) simp
  ultimately have "signed_take_bit 63 (uint w) = uint w" by (intro signed_take_bit_int_eq_self)
  then show ?thesis by (simp add: sint_uint)
qed

lemma unseen_refines:
  assumes inv: "bq_inv s" and ok: "bq_allowed (Unseen i) s"
  shows "\<exists>r. bq_step (Unseen i) s = Done (r, s) \<and>
    (\<forall>r'. fifo_reply (Unseen i) (channels s) = Some r' \<longrightarrow> r' = r)"
proof -
  from ok obtain c where i: "i < length (clients s)" "clients s ! i = Some c"
    and ch: "channels s ! i = Some (channel_of (producer s) c)" by (auto elim: live_clientE)
  note P = bq_inv_client [OF inv i]
  from P(1) obtain q where q: "queue (producer s) = Some q" "distinct (map fst q)" "stopped (producer s) = 0"
    by (rule producer_okE)
  show ?thesis
  proof (cases "selected (producer s) c")
    case False
    then have "consumer_queue_serial c \<noteq> queue_serial (producer s) \<or> current_element_object c = None"
      using P(2) by (auto simp: client_ok_def selected_def)
    then have "\<exists>r. bq_consumer_unseen c (producer s) = Done r"
      using q by (auto simp: bq_consumer_unseen_def)
    then show ?thesis using i ch False by (auto simp: with_client_live channel_of_def)
  next
    case True
    let ?p = "producer s" and ?k = "cursor (producer s) c"
    obtain q1 where q1: "queue ?p = Some q1" "?k < length q1" "current_element_object c = Some (fst (q1 ! ?k))"
      by (rule selected_node [OF P True])
    have k: "unat (serial (snd (q ! ?k))) + length q = unat (next_serial ?p) + ?k"
      "unat (next_serial ?p) < 2 ^ 63" "?k < length q" "length q \<le> unat (next_serial ?p)"
      using P(1) q q1 by (simp_all add: producer_ok_def)
    then have less: "serial (snd (q ! ?k)) < next_serial ?p" by (simp add: word_less_nat_alt)
    have "sint (serial (snd (q ! ?k))) < sint (next_serial ?p)"
      using k less by (simp add: sint_below_63 word_less_def)
    moreover have "next_serial ?p - serial (snd (q ! ?k)) = of_nat (length q - ?k)"
    proof -
      have "length q - ?k = unat (next_serial ?p) - unat (serial (snd (q ! ?k)))" using k by simp
      moreover have "unat (serial (snd (q ! ?k))) \<le> unat (next_serial ?p)" using k by simp
      ultimately show ?thesis by (simp only: of_nat_diff) simp
    qed
    ultimately have "bq_consumer_unseen c ?p = Done (of_nat (length (pending ?p c)))"
      using q q1 True length_pending [OF q(1)] by (simp add: bq_consumer_unseen_def selected_def map_of_node)
    then show ?thesis using i ch True by (simp add: with_client_live channel_of_def)
  qed
qed


section \<open>Moving\<close>

definition at_node :: "BufferQueue_Producer \<Rightarrow> nat option \<Rightarrow> BufferQueue_Consumer \<Rightarrow> BufferQueue_Consumer" where
  "at_node p nx c =
     c\<lparr>consumer_queue_serial := queue_serial p, current_element_pointer := nx, current_element_object := nx\<rparr>"

lemma at_node_Some:
  assumes "producer_ok p" "j < length (node_keys p)"
  shows "selected p (at_node p (Some (node_keys p ! j)) c)" "cursor p (at_node p (Some (node_keys p ! j)) c) = j"
    "client_ok p (at_node p (Some (node_keys p ! j)) c)"
proof -
  have "distinct (node_keys p)" using assms(1) by (rule producer_okE) simp
  then have "node_index (node_keys p ! j) (node_keys p) = j" using assms(2) by (rule node_index_nth)
  then show "selected p (at_node p (Some (node_keys p ! j)) c)" "cursor p (at_node p (Some (node_keys p ! j)) c) = j"
    "client_ok p (at_node p (Some (node_keys p ! j)) c)"
    using assms(2) by (simp_all add: at_node_def selected_def cursor_def client_ok_def)
qed

lemma at_node_None: "\<not> selected p (at_node p None c)" "cursor p (at_node p None c) = 0" "client_ok p (at_node p None c)"
  by (simp_all add: at_node_def selected_def cursor_def client_ok_def)

lemma move_selected:
  assumes ok: "producer_ok p" "client_ok p c" "selected p c"
    and unref: "bq_consumer_elem_unref c p = Done (c1, p1)" "c1 = c \<or> c1 = c\<lparr>current_element_object := None\<rparr>"
    and nx: "nx = (if Suc (cursor p c) < length (node_keys p) then Some (node_keys p ! Suc (cursor p c)) else None)"
  shows "bq_consumer_move c p = Done (nx \<noteq> None, at_node p1 nx c, p1)"
proof -
  from ok(1) obtain q where q: "queue p = Some q" "distinct (map fst q)" "stopped p = 0" "node_keys p = map fst q"
    by (rule producer_okE)
  obtain q1 where q1: "queue p = Some q1" "cursor p c < length q1"
    "current_element_pointer c = Some (fst (q1 ! cursor p c))" by (rule selected_node [OF ok])
  then have "node_next (fst (q ! cursor p c)) q = nx" using q nx by (simp add: node_next_nth)
  moreover have "fst (q ! cursor p c) \<in> fst ` set q" using q q1 by simp
  ultimately show ?thesis
    using q q1 ok(3) unref by (auto simp: bq_consumer_move_def bq_consumer_move_internal_def selected_def at_node_def)
qed

lemma pending_tl:
  assumes "cursor p' c' = Suc (cursor p c)" "buffered p' = buffered p"
  shows "pending p' c' = tl (pending p c)"
  using assms by (simp add: pending_def drop_Suc tl_drop)

lemma pending_popped:
  assumes "cursor p' d = cursor p d - Suc 0" "0 < cursor p d" "buffered p' = tl (buffered p)"
  shows "pending p' d = pending p d"
  using assms by (cases "cursor p d") (simp_all add: pending_def drop_Suc)

definition others_past :: "nat \<Rightarrow> bq_system \<Rightarrow> bool" where
  "others_past i s \<longleftrightarrow>
     (\<forall>j d. j < length (clients s) \<and> j \<noteq> i \<and> clients s ! j = Some d \<longrightarrow> 0 < cursor (producer s) d)"

text \<open>The two outcomes of marking the current element: it stays for the consumers behind, or the head is freed.\<close>

lemma unref_cases:
  assumes inv: "bq_inv s" and i: "i < length (clients s)" "clients s ! i = Some c" and sel: "selected (producer s) c"
  obtains (keep) "Suc (seen_counts (producer s) ! cursor (producer s) c) < unat (consumers (producer s))"
  | (free) "cursor (producer s) c = 0" "Suc (seen_counts (producer s) ! 0) = unat (consumers (producer s))"
      "others_past i s"
proof (cases "Suc (seen_counts (producer s) ! cursor (producer s) c) < unat (consumers (producer s))")
  case False
  let ?p = "producer s" and ?ks = "cursors s"
  have ok: "seen_ok (seen_counts ?p) ?ks" "unat (consumers ?p) = live_count ?ks"
    using bq_invD(3,4) [OF inv] by (simp_all add: cursors_def)
  have ks: "i < length ?ks" "?ks ! i = Some (cursor ?p c)" using i by (simp_all add: cursors_def)
  have len: "cursor ?p c < length (seen_counts ?p)"
    using bq_inv_client [OF inv i] sel by (rule selected_node) (simp add: seen_counts_def)
  note last = seen_ok_last [OF ok(1) ks len]
  have "live_count ?ks \<le> Suc (seen_counts ?p ! cursor ?p c)" using False ok(2) by simp
  note z = last [OF this]
  have "past_count 0 ?ks \<noteq> live_count ?ks"
    using z(1) ks nth_mem [OF ks(1)] by (auto simp: past_count_eq_live)
  then have "Suc (seen_counts ?p ! 0) \<le> live_count ?ks"
    using ok(1) len z(1) past_count_le_live [of 0 ?ks] by (auto simp: seen_ok_def)
  then have "Suc (seen_counts ?p ! 0) = unat (consumers ?p)" using False ok(2) z(1) by simp
  moreover have "others_past i s"
    using z(2) by (auto simp: others_past_def cursors_def)
  ultimately show thesis using z(1) by (intro free)
qed (rule keep)


text \<open>The other consumers after a step of consumer \<open>i\<close>.\<close>

lemma clients_after_keep:
  assumes inv: "bq_inv s" and i: "i < length (clients s)" "clients s ! i = Some c"
    and p': "node_keys p' = node_keys (producer s)" "queue_serial p' = queue_serial (producer s)"
      "buffered p' = buffered (producer s)"
  shows "map (map_option (cursor p')) ((clients s)[i := oc]) = (cursors s)[i := map_option (cursor p') oc]"
    "map (map_option (channel_of p')) ((clients s)[i := oc]) = (channels s)[i := map_option (channel_of p') oc]"
    "Some d \<in> set ((clients s)[i := oc]) \<Longrightarrow> oc = Some d \<or> client_ok p' d"
proof -
  show "map (map_option (cursor p')) ((clients s)[i := oc]) = (cursors s)[i := map_option (cursor p') oc]"
    by (simp add: cursors_def map_update same_nodes [OF p'(1,2)])
  show "map (map_option (channel_of p')) ((clients s)[i := oc]) = (channels s)[i := map_option (channel_of p') oc]"
    by (simp add: channels_def map_update same_channels [OF p'])
  show "oc = Some d \<or> client_ok p' d" if "Some d \<in> set ((clients s)[i := oc])"
    using that set_update_subset_insert [of "clients s" i oc] bq_invD(2) [OF inv, of d]
    by (auto simp: same_nodes [OF p'(1,2)])
qed

lemma map_except_eq:
  assumes "i < length xs" "\<And>j. j < length xs \<Longrightarrow> j \<noteq> i \<Longrightarrow> f (xs ! j) = g (xs ! j)"
  shows "map f (xs[i := x]) = (map g xs)[i := f x]"
  using assms by (intro nth_equalityI) (auto simp: nth_list_update)

lemma clients_after_free:
  assumes inv: "bq_inv s" and i: "i < length (clients s)" "clients s ! i = Some c" and sel: "selected (producer s) c"
    and others: "others_past i s"
    and p': "node_keys p' = tl (node_keys (producer s))" "queue_serial p' = queue_serial (producer s)"
      "buffered p' = tl (buffered (producer s))"
  shows "map (map_option (cursor p')) ((clients s)[i := oc]) =
      (map (map_option (\<lambda>n. n - Suc 0)) (cursors s))[i := map_option (cursor p') oc]"
    "map (map_option (channel_of p')) ((clients s)[i := oc]) = (channels s)[i := map_option (channel_of p') oc]"
    "Some d \<in> set ((clients s)[i := oc]) \<Longrightarrow> oc = Some d \<or> client_ok p' d"
proof -
  have "node_keys (producer s) \<noteq> []"
    using bq_inv_client [OF inv i] sel by (rule selected_node) (auto simp: node_keys_def)
  note pop = popped_nodes [OF p'(1) this p'(2)]
  have other: "client_ok (producer s) d \<and> 0 < cursor (producer s) d"
    if "j < length (clients s)" "j \<noteq> i" "clients s ! j = Some d" for j d
    using that others bq_inv_client(2) [OF inv] unfolding others_past_def by blast
  show "map (map_option (cursor p')) ((clients s)[i := oc]) =
      (map (map_option (\<lambda>n. n - Suc 0)) (cursors s))[i := map_option (cursor p') oc]"
  proof (subst map_except_eq [OF i(1), of _ "\<lambda>x. map_option (\<lambda>n. n - Suc 0) (map_option (cursor (producer s)) x)"])
    show "map_option (cursor p') (clients s ! j) =
        map_option (\<lambda>n. n - Suc 0) (map_option (cursor (producer s)) (clients s ! j))"
      if "j < length (clients s)" "j \<noteq> i" for j
      using other [OF that] pop(2) by (cases "clients s ! j") auto
  qed (simp add: cursors_def o_def)
  show "map (map_option (channel_of p')) ((clients s)[i := oc]) = (channels s)[i := map_option (channel_of p') oc]"
    unfolding channels_def
  proof (rule map_except_eq [OF i(1)])
    show "map_option (channel_of p') (clients s ! j) = map_option (channel_of (producer s)) (clients s ! j)"
      if "j < length (clients s)" "j \<noteq> i" for j
      using other [OF that] pop(1,2) pending_popped [OF _ _ p'(3)]
      by (cases "clients s ! j") (auto simp: channel_of_def)
  qed
  show "oc = Some d \<or> client_ok p' d" if "Some d \<in> set ((clients s)[i := oc])"
  proof -
    from that obtain j where "j < length (clients s)" "(clients s)[i := oc] ! j = Some d"
      by (auto simp: in_set_conv_nth)
    then show ?thesis using other [of j d] pop(3) [of d] by (cases "j = i") auto
  qed
qed


lemma node_keys_length: "producer_ok p \<Longrightarrow> length (node_keys p) = length (buffered p)"
  by (erule producer_okE) simp

lemma seen_counts_length: "producer_ok p \<Longrightarrow> length (seen_counts p) = length (buffered p)"
  by (erule producer_okE) simp

lemma move_keeps:
  assumes inv: "bq_inv s" and i: "i < length (clients s)" "clients s ! i = Some c" and sel: "selected (producer s) c"
    and more: "Suc (seen_counts (producer s) ! cursor (producer s) c) < unat (consumers (producer s))"
    and nxt: "Suc (cursor (producer s) c) < length (buffered (producer s))"
  shows "\<exists>s'. bq_step (Move i) s = Done (Moved True, s') \<and> bq_inv s' \<and>
    channels s' = (channels s)[i := Some (True, tl (pending (producer s) c))]"
proof -
  let ?p = "producer s" and ?k = "cursor (producer s) c"
  note P = bq_inv_client [OF inv i]
  obtain p' where p': "bq_consumer_elem_unref c ?p = Done (c, p')" "producer_ok p'" "node_keys p' = node_keys ?p"
    "queue_serial p' = queue_serial ?p" "consumers p' = consumers ?p" "buffered p' = buffered ?p"
    "seen_counts p' = (seen_counts ?p)[?k := Suc (seen_counts ?p ! ?k)]" by (rule unref_keeps [OF P sel more])
  let ?c = "at_node p' (Some (node_keys ?p ! Suc ?k)) c" and ?cs = "clients s"
  have lt: "Suc ?k < length (node_keys p')" using nxt p'(3) node_keys_length [OF P(1)] by simp
  note c' = at_node_Some [OF p'(2) lt, unfolded p'(3)]
  note after = clients_after_keep [OF inv i p'(3,4,6), where oc = "Some ?c"]
  have ks: "i < length (cursors s)" "cursors s ! i = Some ?k" using i by (simp_all add: cursors_def)
  have "seen_ok (seen_counts p') ((cursors s)[i := Some (Suc ?k)])"
    unfolding p'(7)
  proof (rule seen_ok_step [OF bq_invD(4) [OF inv] ks])
    show "Suc ?k < length (seen_counts ?p)" using nxt seen_counts_length [OF P(1)] by simp
    show "Suc (seen_counts ?p ! ?k) < live_count (cursors s)"
      using more bq_invD(3) [OF inv] by (simp add: cursors_def)
  qed
  then have "bq_inv \<lparr>producer = p', clients = ?cs[i := Some ?c]\<rparr>"
    using p'(2,5) after(1,3) c' bq_invD(3) [OF inv] i
    by (intro bq_invI) (auto simp: live_count_update)
  moreover have "channels \<lparr>producer = p', clients = ?cs[i := Some ?c]\<rparr> = (channels s)[i := Some (True, tl (pending ?p c))]"
    using after(2) c' pending_tl [OF c'(2) p'(6)] by (simp add: channels_def channel_of_def)
  moreover have "bq_consumer_move c ?p = Done (True, ?c, p')"
    using move_selected [OF P sel p'(1) _ refl] lt p'(3) by simp
  ultimately show ?thesis using i by (simp add: with_client_live)
qed

lemma move_frees:
  assumes inv: "bq_inv s" and i: "i < length (clients s)" "clients s ! i = Some c" and sel: "selected (producer s) c"
    and k: "cursor (producer s) c = 0" and last: "Suc (seen_counts (producer s) ! 0) = unat (consumers (producer s))"
    and others: "others_past i s"
  shows "\<exists>s'. bq_step (Move i) s = Done (Moved (tl (pending (producer s) c) \<noteq> []), s') \<and> bq_inv s' \<and>
    channels s' = (channels s)[i := Some (tl (pending (producer s) c) \<noteq> [], tl (pending (producer s) c))]"
proof -
  let ?p = "producer s" and ?cs = "clients s"
  note P = bq_inv_client [OF inv i]
  obtain p' where p': "bq_consumer_elem_unref c ?p = Done (c\<lparr>current_element_object := None\<rparr>, p')" "producer_ok p'"
    "node_keys p' = tl (node_keys ?p)" "queue_serial p' = queue_serial ?p" "consumers p' = consumers ?p"
    "buffered p' = tl (buffered ?p)" "seen_counts p' = tl (seen_counts ?p)"
    by (rule unref_frees [OF P sel k last])
  define nx where "nx = (if Suc 0 < length (node_keys ?p) then Some (node_keys ?p ! Suc 0) else None)"
  let ?c = "at_node p' nx c"
  have rest: "tl (pending ?p c) = buffered p'" using k p'(6) by (simp add: pending_def)
  have len: "length (node_keys p') = length (buffered p')" by (rule node_keys_length [OF p'(2)])
  then have "buffered p' = [] \<longleftrightarrow> node_keys p' = []" by (metis length_0_conv)
  then have nx: "nx = (if buffered p' = [] then None else Some (node_keys p' ! 0))"
    unfolding nx_def p'(3) by (cases "node_keys ?p"; cases "tl (node_keys ?p)") auto
  have c': "selected p' ?c = (buffered p' \<noteq> [])" "cursor p' ?c = 0" "client_ok p' ?c"
    using nx len at_node_Some [OF p'(2), of 0 c] at_node_None [of p' c] by auto
  note after = clients_after_free [OF inv i sel others p'(3,4,6), where oc = "Some ?c"]
  have ks: "i < length (cursors s)" "cursors s ! i = Some 0" using i k by (simp_all add: cursors_def)
  have "seen_counts ?p \<noteq> []" using cursor_bound(1) [OF P sel] seen_counts_length [OF P(1)] by auto
  note pop = seen_ok_pop [OF bq_invD(4) [OF inv] ks this]
  have "(map (map_option (\<lambda>n. n - Suc 0)) (cursors s))[i := Some 0] = map (map_option (\<lambda>n. n - Suc 0)) (cursors s)"
    using ks by (simp add: list_update_same_conv)
  then have "bq_inv \<lparr>producer = p', clients = ?cs[i := Some ?c]\<rparr>"
    using p'(2,5,7) after(1,3) c' bq_invD(3) [OF inv] i pop
    by (intro bq_invI) (auto simp: live_count_update)
  moreover have "channels \<lparr>producer = p', clients = ?cs[i := Some ?c]\<rparr> =
      (channels s)[i := Some (tl (pending ?p c) \<noteq> [], tl (pending ?p c))]"
    using after(2) c' by (simp add: channels_def channel_of_def rest pending_def [of p'])
  moreover have "bq_consumer_move c ?p = Done (nx \<noteq> None, ?c, p')"
    by (rule move_selected [OF P sel p'(1)]) (simp_all add: nx_def k)
  ultimately show ?thesis using i nx rest by (simp add: with_client_live)
qed

lemma move_unselected:
  assumes inv: "bq_inv s" and i: "i < length (clients s)" "clients s ! i = Some c" and sel: "\<not> selected (producer s) c"
  shows "\<exists>s'. bq_step (Move i) s = Done (Moved (pending (producer s) c \<noteq> []), s') \<and> bq_inv s' \<and>
    channels s' = (channels s)[i := Some (pending (producer s) c \<noteq> [], pending (producer s) c)]"
proof -
  let ?p = "producer s"
  note P = bq_inv_client [OF inv i]
  obtain c' where c': "bq_consumer_move_internal c ?p = Done (buffered ?p \<noteq> [], c', ?p)" "client_ok ?p c'"
    "cursor ?p c' = 0" "selected ?p c' = (buffered ?p \<noteq> [])" by (rule select_head [OF P(1) sel])
  have k: "cursor ?p c = 0" using sel by (rule not_selected_cursor)
  have "stopped ?p = 0" using P(1) by (simp add: producer_ok_def)
  then show ?thesis
    using c' i k bq_inv_same_cursor [OF inv i, of c']
    by (simp add: with_client_live bq_consumer_move_def pending_def)
qed

lemma move_refines:
  assumes inv: "bq_inv s" and ok: "bq_allowed (Move i) s"
  shows "\<exists>r s'. bq_step (Move i) s = Done (r, s') \<and> bq_inv s' \<and> channels s' = fifo_step k (Move i) (channels s) \<and>
    fifo_reply (Move i) (channels s) = Some r"
proof -
  from ok obtain c where i: "i < length (clients s)" "clients s ! i = Some c"
    and ch: "channels s ! i = Some (channel_of (producer s) c)" by (auto elim: live_clientE)
  show ?thesis
  proof (cases "selected (producer s) c")
    case False
    then show ?thesis using move_unselected [OF inv i False] ch by (auto simp: channel_of_def Let_def)
  next
    case True
    from inv i True show ?thesis
    proof (cases rule: unref_cases)
      case keep
      then have "consumers (producer s) \<noteq> 1" by auto
      then have nxt: "Suc (cursor (producer s) c) < length (buffered (producer s))"
        using ok i True by (auto simp: Let_def pending_def)
      then have "tl (pending (producer s) c) \<noteq> []" by (simp add: pending_def tl_drop drop_Suc [symmetric])
      then show ?thesis
        using move_keeps [OF inv i True keep nxt] ch True by (auto simp: channel_of_def Let_def)
    next
      case free
      then show ?thesis
        using move_frees [OF inv i True free] ch True by (auto simp: channel_of_def Let_def)
    qed
  qed
qed


section \<open>Leaving\<close>

text \<open>The last consumer takes the whole queue with it.\<close>

lemma unref_unselected:
  assumes "client_ok p c" "\<not> selected p c"
  shows "bq_consumer_elem_unref c p = Done (c, p)"
  using assms by (auto simp: bq_consumer_elem_unref_def client_ok_def selected_def split: option.splits)

lemma unref_some:
  assumes inv: "bq_inv s" and i: "i < length (clients s)" "clients s ! i = Some c"
  obtains c1 p1 where "bq_consumer_elem_unref c (producer s) = Done (c1, p1)" "producer_ok p1"
    "consumers p1 = consumers (producer s)" "freed p1 @ buffered p1 = freed (producer s) @ buffered (producer s)"
proof (cases "selected (producer s) c")
  case False
  with bq_inv_client [OF inv i] show thesis by (intro that [of c "producer s"] unref_unselected) simp_all
next
  case True
  note P = bq_inv_client [OF inv i] True
  from inv i True show thesis
  proof (cases rule: unref_cases)
    case keep
    show thesis by (rule unref_keeps [OF P keep], rule that, assumption, assumption) simp_all
  next
    case free
    have ne: "buffered (producer s) \<noteq> []" using cursor_bound(1) [OF P] by auto
    show thesis by (rule unref_frees [OF P free(1,2)], rule that, assumption, assumption) (simp_all add: ne)
  qed
qed

lemma live_one_others:
  assumes "live_count cs = 1" "i < length cs" "cs ! i \<noteq> None"
  shows "x \<in> set (cs[i := None]) \<Longrightarrow> x = None"
proof -
  have "live_count (cs[i := None]) = 0" using live_count_leave [OF assms(2,3)] assms(1) by simp
  then show "x \<in> set (cs[i := None]) \<Longrightarrow> x = None" by (simp add: live_count_0)
qed

lemma free_last:
  assumes inv: "bq_inv s" and i: "i < length (clients s)" "clients s ! i = Some c" and one: "consumers (producer s) = 1"
  shows "\<exists>s'. bq_step (Free i) s = Done (No_reply, s') \<and> bq_inv s' \<and> channels s' = (channels s)[i := None] \<and>
    buffered (producer s') = [] \<and>
    freed (producer s') = freed (producer s) @ buffered (producer s)"
proof -
  obtain c1 p1 where p1: "bq_consumer_elem_unref c (producer s) = Done (c1, p1)" "producer_ok p1"
    "consumers p1 = consumers (producer s)" "freed p1 @ buffered p1 = freed (producer s) @ buffered (producer s)"
    by (rule unref_some [OF inv i])
  obtain q where q: "queue p1 = Some q" "stopped p1 = 0" "buffered p1 = map (\<lambda>x. payload (snd x)) q"
    using p1(2) by (rule producer_okE)
  let ?p = "(free_elements q (p1\<lparr>consumers := 0\<rparr>))\<lparr>queue := Some []\<rparr>"
  have live: "live_count (clients s) = 1" using bq_invD(3) [OF inv] one by simp
  have gone: "x = None" if "x \<in> set ((clients s)[i := None])" for x
    using live_one_others [OF live i(1) _ that] i(2) by simp
  then have "live_count ((clients s)[i := None]) = 0" by (simp add: live_count_0)
  moreover have "producer_ok ?p" using p1(2) q by (simp add: producer_ok_def buffered_def)
  moreover have "seen_ok [] (map (map_option (cursor ?p)) ((clients s)[i := None]))"
    unfolding seen_ok_def in_map_clients using gone by fastforce
  ultimately have "bq_inv \<lparr>producer = ?p, clients = (clients s)[i := None]\<rparr>"
    using gone by (intro bq_invI) (auto simp: seen_counts_def)
  moreover have "map (map_option (channel_of ?p)) ((clients s)[i := None]) = (channels s)[i := None]"
  proof -
    have "map (map_option (channel_of ?p)) ((clients s)[i := None]) =
        map (map_option (channel_of (producer s))) ((clients s)[i := None])"
      by (intro map_clients_cong) (use gone in blast)
    then show ?thesis by (simp add: channels_def map_update)
  qed
  ultimately show ?thesis
    using i p1 q one
    by (simp add: with_client_live bq_consumer_free_def Let_def channels_def) (simp add: buffered_def)
qed


lemma unat_minus_consumer: "0 < unat n \<Longrightarrow> unat (n - 1) = unat n - 1" for n :: u64
  using unat_Suc_minus_one [of n] by (cases "n = 0") auto

text \<open>
  A change of the counters of a producer alone: the producer with one consumer less, and, for \<open>m > 0\<close>, with the
  seen counts of the first \<open>m\<close> elements one less.
\<close>

definition left_producer :: "nat \<Rightarrow> BufferQueue_Producer \<Rightarrow> BufferQueue_Producer" where
  "left_producer m p =
     p\<lparr>consumers := consumers p - 1, queue := map_option (\<lambda>q. map unsee (take m q) @ drop m q) (queue p)\<rparr>"

lemma left_producer_keeps:
  assumes "producer_ok p"
  shows "node_keys (left_producer m p) = node_keys p" "queue_serial (left_producer m p) = queue_serial p"
    "buffered (left_producer m p) = buffered p" "consumers (left_producer m p) = consumers p - 1"
    "producer_ok (left_producer m p)" "freed (left_producer m p) = freed p"
proof -
  from assms obtain q where q: "queue p = Some q" by (rule producer_okE)
  let ?q = "map unsee (take m q) @ drop m q"
  have nth: "fst (?q ! j) = fst (q ! j)" "payload (snd (?q ! j)) = payload (snd (q ! j))"
    "serial (snd (?q ! j)) = serial (snd (q ! j))" if "j < length q" for j
    using that by (simp_all add: nth_append unsee_def)
  have "map fst ?q = map fst q" "map (\<lambda>x. payload (snd x)) ?q = map (\<lambda>x. payload (snd x)) q"
    by (subst (3) append_take_drop_id [of m q, symmetric], simp only: map_append, simp add: unsee_def)+
  then show k: "node_keys (left_producer m p) = node_keys p" and b: "buffered (left_producer m p) = buffered p"
    using q by (simp_all add: left_producer_def node_keys_def buffered_def)
  have "min (length q) m + (length q - m) = length q" by simp
  then show "producer_ok (left_producer m p)"
    using assms q k b nth(3) by (simp add: producer_ok_def left_producer_def node_keys_def)
qed (simp_all add: left_producer_def)

lemma left_producer_seen:
  assumes "producer_ok p" "j < length (seen_counts p)" "j < m \<Longrightarrow> 0 < seen_counts p ! j"
  shows "seen_counts (left_producer m p) ! j + of_bool (j < m) = seen_counts p ! j"
    and "length (seen_counts (left_producer m p)) = length (seen_counts p)"
proof -
  from assms obtain q where q: "queue p = Some q" by (auto elim: producer_okE)
  then show "seen_counts (left_producer m p) ! j + of_bool (j < m) = seen_counts p ! j"
    using assms(2,3) by (auto simp: seen_counts_def left_producer_def nth_append unsee_def unat_minus_consumer)
  show "length (seen_counts (left_producer m p)) = length (seen_counts p)"
    using q by (simp add: seen_counts_def left_producer_def)
qed

lemma left_zero: "producer_ok p \<Longrightarrow> left_producer 0 p = p\<lparr>consumers := consumers p - 1\<rparr>"
  by (erule producer_okE) (simp add: left_producer_def)

lemma free_result:
  assumes ok: "client_ok p c" and un: "bq_consumer_elem_unref c p = Done (c1, p1)" and p1: "producer_ok p1"
    and many: "1 < unat (consumers p1)" "consumers p1 = consumers p"
  shows "current_element_object c1 = None \<Longrightarrow> bq_consumer_free c p = Done (left_producer 0 p1)"
    and "\<lbrakk>current_element_object c1 \<noteq> None; queue p1 = Some q; k < length q;
          current_element_pointer c1 = Some (fst (q ! k)); \<And>j. j < Suc k \<Longrightarrow> seen (snd (q ! j)) \<le> consumers p1 - 1\<rbrakk>
         \<Longrightarrow> bq_consumer_free c p = Done (left_producer (Suc k) p1)"
proof -
  have n: "0 < consumers p" "consumers p1 - 1 \<noteq> 0" using many by (auto simp: word_gt_0)
  show "bq_consumer_free c p = Done (left_producer 0 p1)" if "current_element_object c1 = None"
    using that n un by (simp add: bq_consumer_free_def Let_def left_zero [OF p1])
  assume a: "current_element_object c1 \<noteq> None" "queue p1 = Some q" "k < length q"
    "current_element_pointer c1 = Some (fst (q ! k))" "\<And>j. j < Suc k \<Longrightarrow> seen (snd (q ! j)) \<le> consumers p1 - 1"
  have d: "distinct (map fst q)" using p1 a(2) by (auto elim: producer_okE)
  have "unsee_walk (walk_back (fst (q ! k)) q) (consumers p1 - 1) q = Done (map unsee (take (Suc k) q) @ drop (Suc k) q)"
    unfolding walk_back_nth [OF d a(3)] by (rule unsee_walk_prefix [OF d _ a(5)]) (use a(3) in simp)
  then show "bq_consumer_free c p = Done (left_producer (Suc k) p1)"
    using a n un by (simp add: bq_consumer_free_def Let_def left_producer_def)
qed


lemma past_count_pos: "i < length ks \<Longrightarrow> ks ! i = Some n \<Longrightarrow> j < n \<Longrightarrow> 0 < past_count j ks"
  using nth_mem [of i ks] by (auto simp: past_count_def filter_empty_conv intro!: bexI [of _ "Some n"])

lemma past_count_less: "Some 0 \<in> set ks \<Longrightarrow> past_count j ks < live_count ks"
  using past_count_eq_live [of j ks] past_count_le_live [of j ks] by fastforce

definition slow_other :: "nat \<Rightarrow> nat \<Rightarrow> bq_system \<Rightarrow> bool" where
  "slow_other n i s \<longleftrightarrow>
     (\<exists>j < length (clients s). j \<noteq> i \<and> (case clients s ! j of None \<Rightarrow> False | Some d \<Rightarrow> cursor (producer s) d \<le> n))"

lemma slow_other_cursor: "slow_other 0 i s \<Longrightarrow> Some 0 \<in> set ((cursors s)[i := None])"
  by (auto simp: slow_other_def cursors_def in_set_conv_nth split: option.splits)

lemma slow_other_popped:
  assumes "slow_other 1 i s"
  shows "Some 0 \<in> set ((map (map_option (\<lambda>n. n - Suc 0)) (cursors s))[i := None])"
proof -
  from assms obtain j d where "j < length (clients s)" "j \<noteq> i" "clients s ! j = Some d" "cursor (producer s) d \<le> 1"
    by (auto simp: slow_other_def split: option.splits)
  then have "(map (map_option (\<lambda>n. n - Suc 0)) (cursors s))[i := None] ! j = Some 0" "j < length (cursors s)"
    by (simp_all add: cursors_def)
  then show ?thesis by (metis length_list_update length_map nth_mem)
qed

lemma bq_inv_left:
  assumes inv: "bq_inv s" and i: "i < length (clients s)" "clients s ! i = Some c" and p1: "producer_ok p1"
    and n: "consumers p1 = consumers (producer s)"
    and cl: "\<And>d. Some d \<in> set ((clients s)[i := None]) \<Longrightarrow> client_ok p1 d"
    and ok: "seen_ok (seen_counts (left_producer m p1)) (map (map_option (cursor p1)) ((clients s)[i := None]))"
  shows "bq_inv \<lparr>producer = left_producer m p1, clients = (clients s)[i := None]\<rparr>"
    "channels \<lparr>producer = left_producer m p1, clients = (clients s)[i := None]\<rparr> =
       map (map_option (channel_of p1)) ((clients s)[i := None])"
proof -
  note keep = left_producer_keeps [OF p1, of m]
  have "0 < unat (consumers p1)" "unat (consumers p1) - 1 = live_count ((clients s)[i := None])"
    using live_count_leave [of i "clients s"] i bq_invD(3) [OF inv] n by auto
  then have "unat (consumers (left_producer m p1)) = live_count ((clients s)[i := None])"
    unfolding keep(4) by (simp add: unat_minus_consumer)
  then show "bq_inv \<lparr>producer = left_producer m p1, clients = (clients s)[i := None]\<rparr>"
    using keep(5) cl ok by (intro bq_invI) (simp_all add: same_nodes [OF keep(1,2)] del: map_update)
  show "channels \<lparr>producer = left_producer m p1, clients = (clients s)[i := None]\<rparr> =
      map (map_option (channel_of p1)) ((clients s)[i := None])"
    by (simp add: channels_def same_channels [OF keep(1-3)])
qed

lemma free_unselected:
  assumes inv: "bq_inv s" and i: "i < length (clients s)" "clients s ! i = Some c" and sel: "\<not> selected (producer s) c"
    and many: "1 < unat (consumers (producer s))"
    and cur: "current_element_object c = None \<or> consumer_queue_serial c = queue_serial (producer s)"
    and slow: "slow_other 0 i s"
  shows "\<exists>s'. bq_step (Free i) s = Done (No_reply, s') \<and> bq_inv s' \<and> channels s' = (channels s)[i := None]"
proof -
  let ?p = "producer s"
  note P = bq_inv_client [OF inv i]
  have obj: "current_element_object c = None" using cur P(2) sel by (auto simp: client_ok_def selected_def)
  note un = unref_unselected [OF P(2) sel]
  note after = clients_after_keep [OF inv i refl refl refl, where oc = None]
  have ks: "i < length (cursors s)" "cursors s ! i = Some 0"
    using i not_selected_cursor [OF sel] by (simp_all add: cursors_def)
  have "seen_ok (seen_counts (left_producer 0 ?p)) ((cursors s)[i := None])"
    using slow_other_cursor [OF slow] left_producer_seen [OF P(1), of _ 0]
    by (intro seen_ok_leave [OF bq_invD(4) [OF inv] ks]) (auto simp: left_zero [OF P(1)] seen_counts_def)
  then have ok: "seen_ok (seen_counts (left_producer 0 ?p)) (map (map_option (cursor ?p)) ((clients s)[i := None]))"
    unfolding after(1) by simp
  note left = bq_inv_left [OF inv i P(1) refl _ ok]
  have "client_ok ?p d" if "Some d \<in> set ((clients s)[i := None])" for d using after(3) [OF that] by simp
  then show ?thesis
    using left after(2) free_result(1) [OF P(2) un P(1) many refl obj] i by (simp add: with_client_live del: map_update)
qed

lemma free_head:
  assumes inv: "bq_inv s" and i: "i < length (clients s)" "clients s ! i = Some c" and sel: "selected (producer s) c"
    and many: "1 < unat (consumers (producer s))"
    and k: "cursor (producer s) c = 0" and last: "Suc (seen_counts (producer s) ! 0) = unat (consumers (producer s))"
    and others: "others_past i s" and slow: "slow_other 1 i s"
  shows "\<exists>s'. bq_step (Free i) s = Done (No_reply, s') \<and> bq_inv s' \<and> channels s' = (channels s)[i := None]"
proof -
  let ?p = "producer s"
  note P = bq_inv_client [OF inv i]
  obtain p' where p': "bq_consumer_elem_unref c ?p = Done (c\<lparr>current_element_object := None\<rparr>, p')" "producer_ok p'"
    "node_keys p' = tl (node_keys ?p)" "queue_serial p' = queue_serial ?p" "consumers p' = consumers ?p"
    "buffered p' = tl (buffered ?p)" "seen_counts p' = tl (seen_counts ?p)"
    by (rule unref_frees [OF P sel k last])
  note after = clients_after_free [OF inv i sel others p'(3,4,6), where oc = None]
  let ?ks = "map (map_option (\<lambda>n. n - Suc 0)) (cursors s)"
  have ks: "i < length (cursors s)" "cursors s ! i = Some 0" using i k by (simp_all add: cursors_def)
  then have ks': "i < length ?ks" "?ks ! i = Some 0" by simp_all
  have "seen_counts ?p \<noteq> []" using cursor_bound(1) [OF P sel] seen_counts_length [OF P(1)] by auto
  note pop = seen_ok_pop [OF bq_invD(4) [OF inv] ks this]
  have same: "seen_counts (left_producer 0 p') = tl (seen_counts ?p)"
    using p'(7) by (simp add: left_zero [OF p'(2)] seen_counts_def)
  have "seen_ok (tl (seen_counts ?p)) (?ks[i := None])"
    using slow_other_popped [OF slow] by (intro seen_ok_leave [OF pop ks']) simp_all
  then have ok: "seen_ok (seen_counts (left_producer 0 p')) (map (map_option (cursor p')) ((clients s)[i := None]))"
    unfolding after(1) same by simp
  note left = bq_inv_left [OF inv i p'(2,5) _ ok]
  have "client_ok p' d" if "Some d \<in> set ((clients s)[i := None])" for d using after(3) [OF that] by simp
  then show ?thesis
    using left after(2) free_result(1) [OF P(2) p'(1,2)] many p'(5) i by (simp add: with_client_live del: map_update)
qed


lemma free_keep:
  assumes inv: "bq_inv s" and i: "i < length (clients s)" "clients s ! i = Some c" and sel: "selected (producer s) c"
    and more: "Suc (seen_counts (producer s) ! cursor (producer s) c) < unat (consumers (producer s))"
    and slow: "slow_other 0 i s"
  shows "\<exists>s'. bq_step (Free i) s = Done (No_reply, s') \<and> bq_inv s' \<and> channels s' = (channels s)[i := None]"
proof -
  let ?p = "producer s" and ?k = "cursor (producer s) c" and ?ss = "seen_counts (producer s)"
  note P = bq_inv_client [OF inv i]
  obtain p' where p': "bq_consumer_elem_unref c ?p = Done (c, p')" "producer_ok p'" "node_keys p' = node_keys ?p"
    "queue_serial p' = queue_serial ?p" "consumers p' = consumers ?p" "buffered p' = buffered ?p"
    "seen_counts p' = ?ss[?k := Suc (?ss ! ?k)]" by (rule unref_keeps [OF P sel more])
  from p'(2) obtain q where q: "queue p' = Some q" "node_keys p' = map fst q"
    "seen_counts p' = map (\<lambda>x. unat (seen (snd x))) q" by (rule producer_okE)
  obtain q0 where q0: "queue ?p = Some q0" "?k < length q0" "current_element_pointer c = Some (fst (q0 ! ?k))"
    "current_element_object c = Some (fst (q0 ! ?k))" by (rule selected_node [OF P sel])
  have keys: "map fst q = map fst q0" using q(2) p'(3) q0(1) by (simp add: node_keys_def)
  then have len: "length q = length q0" by (metis length_map)
  have ptr: "current_element_pointer c = Some (fst (q ! ?k))"
    using q0(2,3) keys len by (metis nth_map)
  have ks: "i < length (cursors s)" "cursors s ! i = Some ?k" using i by (simp_all add: cursors_def)
  have ss: "length ?ss = length q" "\<And>j. j < length q \<Longrightarrow> ?ss ! j = past_count j (cursors s)"
    using bq_invD(4) [OF inv] q0(1) len by (simp_all add: seen_counts_def seen_ok_def)
  have live: "unat (consumers ?p) = live_count (cursors s)" using bq_invD(3) [OF inv] by (simp add: cursors_def)
  have "Some 0 \<in> set (cursors s)"
    using slow_other_cursor [OF slow] set_update_subset_insert [of "cursors s" i None] by auto
  then have bound: "past_count j (cursors s) < unat (consumers ?p)" for j
    unfolding live by (rule past_count_less)
  have "seen (snd (q ! j)) \<le> consumers p' - 1" if "j < Suc ?k" for j
  proof -
    have "j < length q" using that q0(2) len by simp
    then have "unat (seen (snd (q ! j))) = ?ss[?k := Suc (?ss ! ?k)] ! j"
      using q(3) p'(7) by (metis nth_map)
    also have "\<dots> \<le> unat (consumers ?p) - 1"
      using \<open>j < length q\<close> ss bound [of j] more by (cases "j = ?k") auto
    finally show ?thesis
      using more p'(5) by (simp add: word_le_nat_alt unat_minus_consumer)
  qed
  then have res: "bq_consumer_free c ?p = Done (left_producer (Suc ?k) p')"
    using free_result(2) [OF P(2) p'(1,2) _ p'(5) _ q(1) _ ptr] q0(2,4) len more p'(5) by simp
  have "seen_ok (seen_counts (left_producer (Suc ?k) p')) ((cursors s)[i := None])"
  proof (rule seen_ok_leave [OF bq_invD(4) [OF inv] ks])
    have l: "length (seen_counts p') = length q" using q(3) by simp
    have pos: "0 < seen_counts p' ! j" if "j < length q" "j < Suc ?k" for j
      using that ss p'(7) past_count_pos [OF ks, of j] by (cases "j = ?k") auto
    show "seen_counts (left_producer (Suc ?k) p') ! j + of_bool (j < ?k) = ?ss ! j" if "j < length ?ss" for j
      using left_producer_seen(1) [OF p'(2), of j "Suc ?k"] pos [of j] that l ss(1) p'(7)
      by (cases j ?k rule: linorder_cases) (simp_all add: nth_list_update)
    show "length (seen_counts (left_producer (Suc ?k) p')) = length ?ss"
      using left_producer_seen(2) [OF p'(2), of ?k "Suc ?k"] pos [of ?k] q0(2) len l ss(1) by simp
  qed (rule slow_other_cursor [OF slow])
  note after = clients_after_keep [OF inv i p'(3,4,6), where oc = None]
  have ok: "seen_ok (seen_counts (left_producer (Suc ?k) p')) (map (map_option (cursor p')) ((clients s)[i := None]))"
    unfolding after(1) using \<open>seen_ok _ _\<close> by simp
  have "client_ok p' d" if "Some d \<in> set ((clients s)[i := None])" for d using after(3) [OF that] by simp
  with bq_inv_left [OF inv i p'(2,5) _ ok] show ?thesis
    using after(2) res i by (simp add: with_client_live del: map_update)
qed

lemma keep_head_other:
  assumes inv: "bq_inv s" and i: "i < length (clients s)" "clients s ! i = Some c" and sel: "selected (producer s) c"
    and k: "cursor (producer s) c = 0"
    and keep: "Suc (seen_counts (producer s) ! 0) < unat (consumers (producer s))"
  shows "slow_other 0 i s"
proof (rule ccontr)
  assume "\<not> slow_other 0 i s"
  then have past: "others_past i s" by (fastforce simp: others_past_def slow_other_def)
  let ?ks = "(cursors s)[i := Some 1]"
  have ks: "i < length (cursors s)" "cursors s ! i = Some 0" using i k by (simp_all add: cursors_def)
  have "\<forall>n. Some n \<in> set ?ks \<longrightarrow> 0 < n"
    using past i by (fastforce simp: others_past_def cursors_def in_set_conv_nth nth_list_update split: if_splits)
  then have "past_count 0 ?ks = live_count ?ks" by (simp add: past_count_eq_live)
  moreover have "past_count 0 ?ks = Suc (past_count 0 (cursors s))" using past_count_update [OF ks, of 0 1] by simp
  moreover have "0 < length (seen_counts (producer s))"
    using cursor_bound(1) [OF bq_inv_client [OF inv i] sel] k seen_counts_length [OF bq_invD(1) [OF inv]] by simp
  then have "seen_counts (producer s) ! 0 = past_count 0 (cursors s)"
    using bq_invD(4) [OF inv] by (simp add: seen_ok_def)
  ultimately show False
    using keep bq_invD(3) [OF inv] ks by (simp add: live_count_update) (simp add: cursors_def)
qed

lemma free_refines:
  assumes inv: "bq_inv s" and ok: "bq_allowed (Free i) s"
  shows "\<exists>s'. bq_step (Free i) s = Done (No_reply, s') \<and> bq_inv s' \<and> channels s' = fifo_step k (Free i) (channels s)"
proof -
  from ok obtain c where i: "i < length (clients s)" "clients s ! i = Some c" by (auto elim: live_clientE)
  let ?p = "producer s"
  show ?thesis
  proof (cases "consumers ?p = 1")
    case True
    then show ?thesis using free_last [OF inv i True] by auto
  next
    case False
    have cur: "current_element_object c = None \<or> consumer_queue_serial c = queue_serial ?p"
      and slow: "slow_other (if selected ?p c \<and> cursor ?p c = 0 then 1 else 0) i s"
      using ok i False by (auto simp: Let_def slow_other_def)
    have "live_count (clients s) \<noteq> 0" using nth_mem [OF i(1)] i(2) by (auto simp: live_count_0)
    then have many: "1 < unat (consumers ?p)"
      using False bq_invD(3) [OF inv] by (simp add: word_unat_eq_iff)
    show ?thesis
    proof (cases "selected ?p c")
      case False
      then show ?thesis using free_unselected [OF inv i False many cur] slow by simp
    next
      case True
      from inv i True show ?thesis
      proof (cases rule: unref_cases)
        case keep
        then have "slow_other 0 i s"
          using slow keep_head_other [OF inv i True] by (cases "cursor ?p c = 0") simp_all
        then show ?thesis using free_keep [OF inv i True keep] by simp
      next
        case free
        then show ?thesis using free_head [OF inv i True many free] slow True by simp
      qed
    qed
  qed
qed

end
