(* ===== verification/Buffer_Queue_Runs.thy ===== *)
theory Buffer_Queue_Runs
  imports Buffer_Queue_Properties
begin

text \<open>
  Runs of the buffer queue: any interleaving of the calls of the producer and of the sessions. The calls that keep
  the invariant refine independent FIFO channels, a session that is alone sends every packet exactly once and in
  order, and every packet is freed exactly once in every run that goes on. The last section has the runs that do not
  go on.
\<close>

section \<open>One step\<close>

lemma bq_step_ok:
  assumes inv: "bq_inv s" and ok: "bq_allowed op s"
  shows "\<exists>r s'. bq_step op s = Done (r, s') \<and> bq_inv s' \<and>
    channels s' = fifo_step (buffered (producer s)) op (channels s) \<and>
    (\<forall>r'. fifo_reply op (channels s) = Some r' \<longrightarrow> r' = r)"
proof (cases op)
  case (Put pl)
  with put_refines [OF inv] ok show ?thesis by fastforce
next
  case Reset
  with reset_refines [OF inv] ok show ?thesis by fastforce
next
  case New
  with new_refines [OF inv] ok show ?thesis by fastforce
next
  case (Get i)
  with get_refines [OF inv] ok show ?thesis by (metis option.inject)
next
  case (Move i)
  with move_refines [OF inv] ok show ?thesis by (metis option.inject)
next
  case (Unseen i)
  with unseen_refines [OF inv] ok inv show ?thesis by fastforce
next
  case (Free i)
  with free_refines [OF inv] ok show ?thesis by fastforce
qed

lemma bq_start_inv: "bq_inv bq_start"
  by (simp add: bq_inv_def bq_start_def producer_ok_def producer_new0_def buffered_def seen_counts_def cursors_def
      seen_ok_def live_count_def)

lemma bq_start_new: "bq_producer_reset_queue producer_new0 = Done (producer bq_start)"
  by (simp add: bq_producer_reset_queue_def producer_new0_def bq_start_def)

section \<open>Delivery\<close>

text \<open>The packets that were put, and those that a consumer has moved past in a run.\<close>

fun puts :: "bq_op list \<Rightarrow> nat list" where
  "puts [] = []"
| "puts (Put pl # ops) = pl # puts ops"
| "puts (_ # ops) = puts ops"

fun bq_passed :: "nat \<Rightarrow> bq_op list \<Rightarrow> bq_system \<Rightarrow> nat list" where
  "bq_passed i [] s = []"
| "bq_passed i (op # ops) s =
     (if op = Move i then (case channels s ! i of Some (True, pl # _) \<Rightarrow> [pl] | _ \<Rightarrow> []) else []) @
     (case bq_step op s of Done (_, s') \<Rightarrow> bq_passed i ops s' | _ \<Rightarrow> [])"

text \<open>Every call of a run is allowed in the state in which it is made.\<close>

fun bq_allowed_run :: "bq_op list \<Rightarrow> bq_system \<Rightarrow> bool" where
  "bq_allowed_run [] s = True"
| "bq_allowed_run (op # ops) s =
     (bq_allowed op s \<and> (case bq_step op s of Done (_, s') \<Rightarrow> bq_allowed_run ops s' | _ \<Rightarrow> True))"

definition waiting :: "nat \<Rightarrow> bq_system \<Rightarrow> nat list" where
  "waiting i s = (case channels s ! i of None \<Rightarrow> [] | Some (_, l) \<Rightarrow> l)"

lemma length_channels [simp]: "length (channels s) = length (clients s)"
  by (simp add: channels_def)

lemma live_channels: "live_client i s \<longleftrightarrow> i < length (channels s) \<and> channels s ! i \<noteq> None"
  by (auto simp: live_client_def channels_def)

lemma fifo_other:
  assumes "i < length v" "v ! i = Some (sel, l)" "op \<noteq> Free i" "op \<noteq> Reset"
  shows "i < length (fifo_step kept op v) \<and>
    (\<exists>sel' l'. fifo_step kept op v ! i = Some (sel', l') \<and>
       (if op = Move i then (case (sel, l) of (True, pl # _) \<Rightarrow> [pl] | _ \<Rightarrow> []) else []) @ l' = l @ puts [op])"
proof (cases op)
  case (Get j)
  with assms show ?thesis by (cases "j = i") auto
qed (use assms in \<open>auto simp: nth_append nth_list_update Let_def split: bool.splits list.splits\<close>)

lemma bq_delivery_induct:
  assumes "bq_inv s" "bq_allowed_run ops s" "live_client i s" "Free i \<notin> set ops" "Reset \<notin> set ops"
  shows "\<exists>rs s'. bq_run ops s = Done (rs, s') \<and> bq_inv s' \<and> live_client i s' \<and>
    bq_passed i ops s @ waiting i s' = waiting i s @ puts ops"
  using assms
proof (induction ops arbitrary: s)
  case Nil
  then show ?case by simp
next
  case (Cons op ops)
  from Cons.prems(1,2) obtain r s1 where s1: "bq_step op s = Done (r, s1)" "bq_inv s1"
    "channels s1 = fifo_step (buffered (producer s)) op (channels s)"
    using bq_step_ok [of s op] by auto
  from Cons.prems(3) obtain sel l where l: "i < length (channels s)" "channels s ! i = Some (sel, l)"
    by (auto simp: live_channels)
  with fifo_other [OF l, of op "buffered (producer s)"] Cons.prems(4,5) s1(3) obtain sel' l'
    where l': "i < length (channels s1)" "channels s1 ! i = Some (sel', l')"
      and step: "(if op = Move i then (case (sel, l) of (True, pl # _) \<Rightarrow> [pl] | _ \<Rightarrow> []) else []) @ l' = l @ puts [op]"
    by auto
  have "live_client i s1" using l' by (simp add: live_channels)
  with Cons.IH [OF s1(2)] Cons.prems(2,4,5) s1(1) obtain rs s' where s': "bq_run ops s1 = Done (rs, s')" "bq_inv s'"
    "live_client i s'" "bq_passed i ops s1 @ waiting i s' = waiting i s1 @ puts ops" by auto
  have "puts (op # ops) = puts [op] @ puts ops" by (cases op) simp_all
  moreover have "bq_passed i (op # ops) s =
      (if op = Move i then (case (sel, l) of (True, pl # _) \<Rightarrow> [pl] | _ \<Rightarrow> []) else []) @ bq_passed i ops s1"
    using l(2) s1(1) by simp
  ultimately have "bq_passed i (op # ops) s @ waiting i s' = waiting i s @ puts (op # ops)"
    using s'(4) step l(2) l'(2) by (simp add: waiting_def)
  then show ?case using s1(1) s' by simp
qed


section \<open>A session that is alone\<close>

text \<open>
  The reading side of a session sends the current packet and moves on. \<open>reader_run\<close> interleaves it with the packets
  that the parser puts into the queue, and lists the packets that were sent.
\<close>

datatype feed = Packet nat | Read

definition read_one :: "nat \<Rightarrow> bq_system \<Rightarrow> (nat list \<times> bq_system) bq_result" where
  "read_one i s = bind_bq (bq_step (Get i) s) (\<lambda>(r, s1).
     if r = Payload 0 then Done ([], s1)
     else bind_bq (bq_step (Move i) s1) (\<lambda>(_, s2). Done (case r of Payload pl \<Rightarrow> [pl] | _ \<Rightarrow> [], s2)))"

fun reader_run :: "nat \<Rightarrow> feed list \<Rightarrow> bq_system \<Rightarrow> (nat list \<times> bq_system) bq_result" where
  "reader_run i [] s = Done ([], s)"
| "reader_run i (Packet pl # es) s = bind_bq (bq_step (Put pl) s) (\<lambda>(_, s1). reader_run i es s1)"
| "reader_run i (Read # es) s = bind_bq (read_one i s) (\<lambda>(out, s1).
     bind_bq (reader_run i es s1) (\<lambda>(outs, s2). Done (out @ outs, s2)))"

fun packets :: "feed list \<Rightarrow> nat list" where
  "packets [] = []"
| "packets (Packet pl # es) = pl # packets es"
| "packets (Read # es) = packets es"

lemma unref_serial: "bq_consumer_elem_unref c p = Done (c', p') \<Longrightarrow> next_serial p' = next_serial p"
  by (auto simp: bq_consumer_elem_unref_def bq_element_free_internal_def Let_def
      split: option.splits if_splits)

lemma bind_bq_Done: "bind_bq m f = Done y \<longleftrightarrow> (\<exists>x. m = Done x \<and> f x = Done y)"
  by (cases m) auto

lemma move_internal_serial: "bq_consumer_move_internal c p = Done (b, c', p') \<Longrightarrow> next_serial p' = next_serial p"
  by (auto simp: bq_consumer_move_internal_def bind_bq_Done dest: unref_serial split: option.splits if_splits)

lemma get_moves:
  assumes g: "bq_consumer_get c p = Done (r, c', p')"
  shows "c' = c \<and> p' = p \<or> (\<exists>b. bq_consumer_move_internal c p = Done (b, c', p'))"
proof (cases "stopped p = 0")
  case True
  define m where "m = (if consumer_queue_serial c \<noteq> queue_serial p \<or> current_element_object c = None
    then bq_consumer_move_internal c p else Done (True, c, p))"
  from g True obtain b c1 p1 where m: "m = Done (b, c1, p1)"
    and t: "(if \<not> b then Done (0, c1, p1) else case current_element_object c1 of None \<Rightarrow> Done (0, c1, p1)
      | Some a \<Rightarrow> (case queue p1 of None \<Rightarrow> Dangling
          | Some q \<Rightarrow> (case map_of q a of None \<Rightarrow> Dangling | Some e \<Rightarrow> Done (payload e, c1, p1)))) = Done (r, c', p')"
    unfolding bq_consumer_get_def m_def [symmetric] by (cases m) auto
  from t have "c1 = c' \<and> p1 = p'" by (simp split: if_split_asm option.split_asm)
  with m show ?thesis unfolding m_def by (simp split: if_split_asm)
qed (use g in \<open>simp add: bq_consumer_get_def\<close>)

lemma get_serial: "bq_consumer_get c p = Done (r, c', p') \<Longrightarrow> next_serial p' = next_serial p"
  by (auto dest!: get_moves dest: move_internal_serial)

lemma move_serial: "bq_consumer_move c p = Done (r, c', p') \<Longrightarrow> next_serial p' = next_serial p"
  by (auto simp: bq_consumer_move_def dest: move_internal_serial split: if_splits)

lemma step_serial:
  "bq_step (Get i) s = Done (r, s') \<Longrightarrow> next_serial (producer s') = next_serial (producer s)"
  "bq_step (Move i) s = Done (r, s') \<Longrightarrow> next_serial (producer s') = next_serial (producer s)"
  "bq_step (Put pl) s = Done (r, s') \<Longrightarrow> next_serial (producer s') = next_serial (producer s) + 1"
  by (auto simp: bind_bq_Done with_client_def bq_producer_put_def Let_def
      dest: get_serial move_serial split: option.splits if_splits)

lemma one_consumer: "bq_inv s \<Longrightarrow> consumers (producer s) = 1 \<longleftrightarrow> live_count (channels s) = 1"
  by (simp add: bq_inv_def channels_def word_unat_eq_iff)

lemma live_count_update_some:
  "i < length v \<Longrightarrow> v ! i = Some x \<Longrightarrow> live_count (v[i := Some y]) = live_count v"
  by (simp add: live_count_update)

lemma waiting_payload: "bq_inv s \<Longrightarrow> live_client i s \<Longrightarrow> 0 \<notin> set (waiting i s)"
proof -
  assume "bq_inv s" "live_client i s"
  then obtain c where "channels s ! i = Some (channel_of (producer s) c)" "producer_ok (producer s)"
    by (auto elim: live_clientE dest: bq_invD(1))
  moreover from this(2) have "0 \<notin> set (buffered (producer s))" by (auto simp: producer_ok_def split: option.splits)
  ultimately show ?thesis by (auto simp: waiting_def channel_of_def pending_def dest: in_set_dropD)
qed

lemma read_one_alone:
  assumes inv: "bq_inv s" and i: "live_client i s" and one: "consumers (producer s) = 1"
  shows "\<exists>out s'. read_one i s = Done (out, s') \<and> bq_inv s' \<and> live_client i s' \<and> consumers (producer s') = 1 \<and>
    next_serial (producer s') = next_serial (producer s) \<and> out @ waiting i s' = waiting i s \<and>
    (out = [] \<longleftrightarrow> waiting i s = [])"
proof -
  from i obtain sel l where l: "i < length (channels s)" "channels s ! i = Some (sel, l)"
    by (auto simp: live_channels)
  obtain r s1 where s1: "bq_step (Get i) s = Done (r, s1)" "bq_inv s1"
    "channels s1 = (channels s)[i := Some (l \<noteq> [], l)]" "r = Payload (case l of [] \<Rightarrow> 0 | pl # _ \<Rightarrow> pl)"
    using bq_step_ok [OF inv, of "Get i"] i l by auto
  have i1: "live_client i s1" "i < length (channels s1)" "channels s1 ! i = Some (l \<noteq> [], l)"
    using s1(3) l by (simp_all add: live_channels)
  have one1: "consumers (producer s1) = 1"
    using one one_consumer [OF inv] one_consumer [OF s1(2)] s1(3) l live_count_update_some [OF l] by simp
  note ser1 = step_serial(1) [OF s1(1)]
  show ?thesis
  proof (cases l)
    case Nil
    then show ?thesis using s1 i1 one1 ser1 l by (simp add: read_one_def waiting_def)
  next
    case (Cons pl l1)
    have "pl \<noteq> 0" using waiting_payload [OF inv i] l Cons by (simp add: waiting_def)
    have "bq_allowed (Move i) s1" using i1(1) one1 by simp
    then obtain r2 s2 where s2: "bq_step (Move i) s1 = Done (r2, s2)" "bq_inv s2"
      "channels s2 = (channels s1)[i := Some (l1 \<noteq> [], l1)]"
      using bq_step_ok [OF s1(2), of "Move i"] i1 Cons by auto
    have "live_client i s2" "waiting i s2 = l1" using s2(3) i1(2) by (simp_all add: live_channels waiting_def)
    moreover have "consumers (producer s2) = 1"
      using one1 one_consumer [OF s1(2)] one_consumer [OF s2(2)] s2(3) live_count_update_some [OF i1(2,3)] by simp
    ultimately show ?thesis
      using s1 s2 ser1 step_serial(2) [OF s2(1)] Cons l \<open>pl \<noteq> 0\<close> by (simp add: read_one_def waiting_def)
  qed
qed

lemma reader_exact:
  assumes "bq_inv s" "live_client i s" "consumers (producer s) = 1" "0 \<notin> set (packets es)"
    "unat (next_serial (producer s)) + length (packets es) < 2 ^ 63"
  shows "\<exists>sent s'. reader_run i es s = Done (sent, s') \<and> bq_inv s' \<and> live_client i s' \<and> consumers (producer s') = 1 \<and>
    sent @ waiting i s' = waiting i s @ packets es"
  using assms
proof (induction es arbitrary: s)
  case Nil
  then show ?case by simp
next
  case (Cons e es)
  show ?case
  proof (cases e)
    case (Packet pl)
    then have "bq_allowed (Put pl) s" using Cons.prems(4,5) by simp
    with bq_step_ok [OF Cons.prems(1), of "Put pl"] obtain r s1 where s1: "bq_step (Put pl) s = Done (r, s1)"
      "bq_inv s1" "channels s1 = map (map_option (\<lambda>(sel, l). (sel, l @ [pl]))) (channels s)" by auto
    have w: "live_client i s1" "waiting i s1 = waiting i s @ [pl]"
      using s1(3) Cons.prems(2) by (auto simp: live_channels waiting_def)
    moreover have "consumers (producer s1) = 1"
      using Cons.prems(1,3) s1(2,3) one_consumer by simp
    moreover have "unat (next_serial (producer s1)) = unat (next_serial (producer s)) + 1"
      using step_serial(3) [OF s1(1)] Cons.prems(5) Packet by (simp add: unat_plus_one)
    ultimately have "\<exists>sent s'. reader_run i es s1 = Done (sent, s') \<and> bq_inv s' \<and> live_client i s' \<and>
        consumers (producer s') = 1 \<and> sent @ waiting i s' = waiting i s1 @ packets es"
      using s1(2) Cons.prems(4,5) Packet by (intro Cons.IH) simp_all
    then show ?thesis using Packet s1(1) w(2) by (simp del: bq_step.simps)
  next
    case Read
    obtain out s1 where s1: "read_one i s = Done (out, s1)" "bq_inv s1" "live_client i s1" "consumers (producer s1) = 1"
      "next_serial (producer s1) = next_serial (producer s)" "out @ waiting i s1 = waiting i s"
      using read_one_alone [OF Cons.prems(1-3)] by blast
    have "\<exists>sent s'. reader_run i es s1 = Done (sent, s') \<and> bq_inv s' \<and> live_client i s' \<and>
        consumers (producer s') = 1 \<and> sent @ waiting i s' = waiting i s1 @ packets es"
      using s1 Cons.prems(4,5) Read by (intro Cons.IH) simp_all
    then show ?thesis using Read s1(1) s1(6) [symmetric] by fastforce
  qed
qed


section \<open>Memory\<close>

text \<open>
  The producer and the consumers in any state that a run reaches, also outside the invariant. \<open>held\<close> are the packets
  that were freed, in the order of the calls, and then those in the queue.
\<close>

definition nodes_ok :: "BufferQueue_Producer \<Rightarrow> bool" where
  "nodes_ok p \<longleftrightarrow> queue p \<noteq> None \<and> distinct (node_keys p) \<and> (\<forall>a \<in> set (node_keys p). a < next_addr p)"

lemma nodes_okE:
  assumes "nodes_ok p"
  obtains q where "queue p = Some q" "distinct (map fst q)" "\<forall>a \<in> set (map fst q). a < next_addr p"
  using assms by (auto simp: nodes_ok_def node_keys_def)

lemma nodes_ok_Some: "queue p = Some q \<Longrightarrow>
  nodes_ok p \<longleftrightarrow> distinct (map fst q) \<and> (\<forall>a \<in> set (map fst q). a < next_addr p)"
  by (simp add: nodes_ok_def node_keys_def)

definition in_step :: "BufferQueue_Consumer \<Rightarrow> bool" where
  "in_step c \<longleftrightarrow> current_element_object c = current_element_pointer c"

definition held :: "BufferQueue_Producer \<Rightarrow> nat list" where
  "held p = freed p @ buffered p"

definition bq_wf :: "bq_system \<Rightarrow> bool" where
  "bq_wf s \<longleftrightarrow> nodes_ok (producer s) \<and> (\<forall>c. Some c \<in> set (clients s) \<longrightarrow> in_step c)"

lemma set_elem_payloads:
  assumes "distinct (map fst q)" "map_of q a = Some e" "payload e1 = payload e"
  shows "map (\<lambda>x. payload (snd x)) (set_elem a e1 q) = map (\<lambda>x. payload (snd x)) q"
proof -
  have "snd x = e" if "x \<in> set q" "fst x = a" for x
    using that assms(1,2) by (metis map_of_eq_Some_iff option.inject prod.collapse)
  with assms(3) show ?thesis by (auto simp: set_elem_def)
qed

lemma unref_held:
  assumes "nodes_ok p" "in_step c" "bq_consumer_elem_unref c p = Done (c', p')"
  shows "nodes_ok p' \<and> held p' = held p"
proof (cases "current_element_object c = None \<or> queue_serial p \<noteq> consumer_queue_serial c")
  case True
  then show ?thesis using assms by (cases "current_element_object c") (auto simp: bq_consumer_elem_unref_def)
next
  case False
  from assms(1) obtain q where q: "queue p = Some q" "distinct (map fst q)" "\<forall>a \<in> set (map fst q). a < next_addr p"
    by (rule nodes_okE)
  from False assms(3) q(1) obtain a e where a: "current_element_object c = Some a" "map_of q a = Some e"
    by (auto simp: bq_consumer_elem_unref_def split: option.splits)
  have ptr: "current_element_pointer c = Some a" using assms(2) a(1) by (simp add: in_step_def)
  let ?e = "e\<lparr>seen := seen e + 1\<rparr>"
  let ?q = "set_elem a ?e q"
  have pay: "map (\<lambda>x. payload (snd x)) ?q = map (\<lambda>x. payload (snd x)) q" by (rule set_elem_payloads [OF q(2) a(2)]) simp
  show ?thesis
  proof (cases "seen e + 1 < consumers p")
    case True
    then have "p' = p\<lparr>queue := Some ?q\<rparr>" using False assms(3) q(1) a by (simp add: bq_consumer_elem_unref_def Let_def)
    moreover have "buffered (p\<lparr>queue := Some ?q\<rparr>) = buffered p" using pay q(1) by (simp add: buffered_def)
    moreover have "nodes_ok (p\<lparr>queue := Some ?q\<rparr>)"
      using q by (simp add: nodes_ok_def node_keys_def)
    ultimately show ?thesis by (simp add: held_def)
  next
    case keep: False
    then have head: "Some a = queue_head ?q" and p': "p' = p\<lparr>queue := Some (tl ?q), freed := freed p @ [payload e]\<rparr>"
      using False assms(3) q(1) a ptr
      by (auto simp: bq_consumer_elem_unref_def Let_def bq_element_free_internal_def split: if_split_asm)
    from head obtain x r where r: "q = x # r" "fst x = a"
      by (cases q) (auto simp: queue_head_def set_elem_def split: if_splits)
    then have "tl ?q = r" using q(2) by (auto simp: set_elem_def image_iff intro!: map_idI)
    moreover have "snd x = e" using a(2) r by (cases x) auto
    ultimately show ?thesis using p' r q by (simp add: nodes_ok_Some held_def buffered_def)
  qed
qed

lemma unsee_walk_held:
  assumes "unsee_walk as n q = Done q'" "distinct (map fst q)"
  shows "map fst q' = map fst q \<and> map (\<lambda>x. payload (snd x)) q' = map (\<lambda>x. payload (snd x)) q"
  using assms
proof (induction as n q rule: unsee_walk.induct)
  case (2 a as n q)
  then obtain e where e: "map_of q a = Some e" "seen e \<le> n"
    "unsee_walk as n (set_elem a (e\<lparr>seen := seen e - 1\<rparr>) q) = Done q'"
    by (auto split: option.splits if_splits)
  with "2.IH" [OF e(1,2,3)] "2.prems"(2) show ?case
    using set_elem_payloads [OF "2.prems"(2) e(1), of "e\<lparr>seen := seen e - 1\<rparr>"] by simp
qed simp

lemma move_internal_held:
  assumes "nodes_ok p" "in_step c" "bq_consumer_move_internal c p = Done (b, c', p')"
  shows "nodes_ok p' \<and> in_step c' \<and> held p' = held p"
  using assms
  by (auto simp: bq_consumer_move_internal_def bind_bq_Done in_step_def split: if_split_asm option.split_asm
      dest!: unref_held [OF assms(1,2)])

lemma free_held:
  assumes "nodes_ok p" "in_step c" "bq_consumer_free c p = Done p'"
  shows "nodes_ok p' \<and> held p' = held p"
proof -
  from assms(3) obtain c1 p1 where un: "bq_consumer_elem_unref c p = Done (c1, p1)"
    by (cases "bq_consumer_elem_unref c p") (auto simp: bq_consumer_free_def split: if_splits)
  have p1: "nodes_ok p1" "held p1 = held p" using unref_held [OF assms(1,2) un] by simp_all
  obtain q where q: "queue p1 = Some q" "distinct (map fst q)" "\<forall>a \<in> set (map fst q). a < next_addr p1"
    using p1(1) by (rule nodes_okE)
  let ?p = "p1\<lparr>consumers := consumers p1 - 1\<rparr>"
  consider "p' = ?p" | "p' = (free_elements q ?p)\<lparr>queue := Some []\<rparr>"
    | a q1 where "unsee_walk (walk_back a q) (consumers p1 - 1) q = Done q1" "p' = ?p\<lparr>queue := Some q1\<rparr>"
    using assms(3) un q(1) by (auto simp: bq_consumer_free_def Let_def bind_bq_Done split: if_splits option.splits)
  then show ?thesis
  proof cases
    case 1
    then show ?thesis using p1 q by (simp add: nodes_ok_Some held_def buffered_def)
  next
    case 2
    then show ?thesis using p1 q by (simp add: nodes_ok_Some held_def buffered_def)
  next
    case 3
    note w = unsee_walk_held [OF 3(1) q(2)]
    then have "buffered p' = buffered p1" using 3(2) q(1) by (simp add: buffered_def)
    moreover have "nodes_ok p'" using w 3(2) q by (simp add: nodes_ok_def node_keys_def)
    ultimately show ?thesis using p1(2) 3(2) by (simp add: held_def)
  qed
qed


lemma in_step_update: "(\<And>d. Some d \<in> set cs \<Longrightarrow> in_step d) \<Longrightarrow> in_step c \<Longrightarrow> Some d \<in> set (cs[i := Some c]) \<Longrightarrow> in_step d"
  using set_update_subset_insert [of cs i "Some c"] by auto

lemma client_in_step:
  assumes "bq_wf s" "with_client i s f = Done r"
  obtains c where "in_step c" "f c (producer s) = Done r" "nodes_ok (producer s)"
proof -
  from assms(2) obtain c where "i < length (clients s)" "clients s ! i = Some c" "f c (producer s) = Done r"
    by (auto simp: with_client_def split: if_split_asm option.split_asm)
  with assms(1) nth_mem [of i "clients s"] show thesis by (intro that [of c]) (auto simp: bq_wf_def)
qed

lemma bq_wf_replace:
  assumes "bq_wf s" "nodes_ok p" "in_step c"
  shows "bq_wf \<lparr>producer = p, clients = (clients s)[i := Some c]\<rparr>"
  using assms in_step_update [of "clients s" c] by (auto simp: bq_wf_def)

lemma step_held:
  assumes wf: "bq_wf s" and st: "bq_step op s = Done (r, s')"
  shows "bq_wf s' \<and> held (producer s') = held (producer s) @ puts [op]"
proof (cases op)
  case (Put pl)
  obtain q where q: "queue (producer s) = Some q" "distinct (map fst q)" "\<forall>a \<in> set (map fst q). a < next_addr (producer s)"
    using wf by (auto simp: bq_wf_def elim: nodes_okE)
  from st Put q(1) obtain p' where s': "s' = \<lparr>producer = p', clients = clients s\<rparr>"
    and p': "p' = (producer s)\<lparr>next_serial := next_serial (producer s) + 1,
      queue := Some (q @ [(next_addr (producer s), \<lparr>payload = pl, seen = 0, serial = next_serial (producer s)\<rparr>)]),
      next_addr := Suc (next_addr (producer s))\<rparr>"
    by (auto simp: bind_bq_Done bq_producer_put_def Let_def split: if_split_asm)
  have "nodes_ok p'" using q unfolding p' by (auto simp: nodes_ok_def node_keys_def less_Suc_eq)
  moreover have "held p' = held (producer s) @ [pl]" using q(1) unfolding p' by (simp add: held_def buffered_def)
  ultimately show ?thesis using wf Put s' by (simp add: bq_wf_def)
next
  case Reset
  with st wf show ?thesis
    by (auto simp: bind_bq_Done bq_producer_reset_queue_def Let_def bq_wf_def nodes_ok_def node_keys_def held_def
        buffered_def split: if_split_asm)
next
  case New
  with st wf show ?thesis
    by (fastforce simp: bind_bq_Done bq_consumer_new_def bq_wf_def nodes_ok_def node_keys_def held_def buffered_def
        in_step_def consumer_new0_def split: if_split_asm)
next
  case (Get i)
  with st obtain c' p' r' where g: "with_client i s bq_consumer_get = Done (r', c', p')"
    and s': "s' = \<lparr>producer = p', clients = (clients s)[i := Some c']\<rparr>" by (auto simp: bind_bq_Done)
  from wf g obtain c where c: "in_step c" "bq_consumer_get c (producer s) = Done (r', c', p')" "nodes_ok (producer s)"
    by (rule client_in_step)
  have "nodes_ok p' \<and> in_step c' \<and> held p' = held (producer s)"
    using get_moves [OF c(2)] c move_internal_held [OF c(3,1)] by auto
  then show ?thesis using Get s' bq_wf_replace [OF wf] by simp
next
  case (Move i)
  with st obtain c' p' r' where g: "with_client i s bq_consumer_move = Done (r', c', p')"
    and s': "s' = \<lparr>producer = p', clients = (clients s)[i := Some c']\<rparr>" by (auto simp: bind_bq_Done)
  from wf g obtain c where c: "in_step c" "bq_consumer_move c (producer s) = Done (r', c', p')" "nodes_ok (producer s)"
    by (rule client_in_step)
  have "nodes_ok p' \<and> in_step c' \<and> held p' = held (producer s)"
    using c move_internal_held [OF c(3,1)] by (auto simp: bq_consumer_move_def split: if_split_asm)
  then show ?thesis using Move s' bq_wf_replace [OF wf] by simp
next
  case (Unseen i)
  with st wf show ?thesis by (auto simp: bind_bq_Done)
next
  case (Free i)
  with st obtain p' where g: "with_client i s bq_consumer_free = Done p'"
    and s': "s' = \<lparr>producer = p', clients = (clients s)[i := None]\<rparr>" by (auto simp: bind_bq_Done)
  from wf g obtain c where c: "in_step c" "bq_consumer_free c (producer s) = Done p'" "nodes_ok (producer s)"
    by (rule client_in_step)
  have "nodes_ok p'" "held p' = held (producer s)" using free_held [OF c(3,1,2)] by simp_all
  moreover have "in_step d" if "Some d \<in> set ((clients s)[i := None])" for d
    using that wf set_update_subset_insert [of "clients s" i None] by (auto simp: bq_wf_def)
  ultimately show ?thesis using Free s' by (simp add: bq_wf_def)
qed

lemma run_held: "bq_wf s \<Longrightarrow> bq_run ops s = Done (rs, s') \<Longrightarrow> held (producer s') = held (producer s) @ puts ops"
proof (induction ops arbitrary: s rs)
  case (Cons op ops)
  from Cons.prems(2) obtain r s1 rs1 where s1: "bq_step op s = Done (r, s1)" "bq_run ops s1 = Done (rs1, s')"
    by (auto simp: bind_bq_Done simp del: bq_step.simps)
  have "puts (op # ops) = puts [op] @ puts ops" by (cases op) simp_all
  with step_held [OF Cons.prems(1) s1(1)] Cons.IH [OF _ s1(2)] show ?case by simp
qed simp

lemma bq_start_wf: "bq_wf bq_start" "held (producer bq_start) = []"
  by (simp_all add: bq_wf_def bq_start_def producer_new0_def nodes_ok_def node_keys_def held_def buffered_def)


section \<open>Where the consumers disturb each other\<close>

text \<open>
  A consumer that has moved past the tail has a null pointer, which \<open>bq_consumer_move_internal\<close> takes for a consumer
  that has not started: it goes back to the head. When no other consumer is there the queue is empty by then.
\<close>

lemma tail_keeps:
  assumes inv: "bq_inv s" and i: "i < length (clients s)" "clients s ! i = Some c" and sel: "selected (producer s) c"
    and tail: "length (pending (producer s) c) = 1" and many: "1 < consumers (producer s)"
  shows "Suc (seen_counts (producer s) ! cursor (producer s) c) < unat (consumers (producer s))"
  using inv i sel
proof (cases rule: unref_cases)
  case free
  have one: "length (buffered (producer s)) = 1" using tail free(1) by (simp add: pending_def)
  have "0 < live_count ((clients s)[i := None])"
    using live_count_leave [of i "clients s"] i bq_invD(3) [OF inv] many by (simp add: word_less_nat_alt)
  then obtain d where "Some d \<in> set ((clients s)[i := None])" by (auto simp: live_count_def filter_empty_conv)
  then obtain j where j: "j < length (clients s)" "(clients s)[i := None] ! j = Some d"
    by (auto simp: in_set_conv_nth)
  then have j': "j \<noteq> i" "clients s ! j = Some d" by (cases "j = i"; simp)+
  have "0 < cursor (producer s) d" using free(3) j(1) j' by (auto simp: others_past_def)
  moreover from this have "selected (producer s) d" by (auto simp: cursor_def split: if_splits)
  ultimately show ?thesis using cursor_bound(1) [OF bq_inv_client [OF inv j(1) j'(2)]] one by simp
qed

lemma tail_restarts:
  assumes inv: "bq_inv s" and i: "i < length (clients s)" "clients s ! i = Some c" and sel: "selected (producer s) c"
    and tail: "length (pending (producer s) c) = 1" and many: "1 < consumers (producer s)"
  shows "\<exists>s1 s2. bq_step (Move i) s = Done (Moved False, s1) \<and>
    bq_step (Get i) s1 = Done (Payload (hd (buffered (producer s))), s2)"
proof -
  let ?p = "producer s"
  note P = bq_inv_client [OF inv i]
  obtain p' where p': "bq_consumer_elem_unref c ?p = Done (c, p')" "producer_ok p'" "buffered p' = buffered ?p"
    by (rule unref_keeps [OF P sel tail_keeps [OF inv i sel tail many]])
  have "\<not> Suc (cursor ?p c) < length (node_keys ?p)" using tail node_keys_length [OF P(1)] by (simp add: pending_def)
  then have m: "bq_consumer_move c ?p = Done (False, at_node p' None c, p')"
    using move_selected [OF P sel p'(1) _ refl] by simp
  obtain c' where "bq_consumer_get (at_node p' None c) p' = Done (case buffered p' of [] \<Rightarrow> 0 | pl # _ \<Rightarrow> pl, c', p')"
    using p'(2) at_node_None(3,1) by (rule unselected_get)
  moreover have "buffered ?p \<noteq> []" using cursor_bound(1) [OF P sel] by auto
  ultimately show ?thesis using m p'(3) i by (cases "buffered ?p") (auto simp: with_client_live)
qed

section \<open>Properties\<close>

text \<open>C18: The buffer queue refines independent FIFO channels, one for each consumer. In a state of the invariant every
  allowed call (of the producer or of any consumer) returns, keeps the invariant, changes the channels as the
  specification says and gives the reply of the specification: the first packet that is waiting for the consumer,
  whether there is a next one, the number of packets from the current one on.\<close>

theorem bq_refines_fifo:
  assumes "bq_inv s" "bq_allowed op s"
  shows "\<exists>r s'. bq_step op s = Done (r, s') \<and> bq_inv s' \<and>
    channels s' = fifo_step (buffered (producer s)) op (channels s) \<and>
    (\<forall>r'. fifo_reply op (channels s) = Some r' \<longrightarrow> r' = r)"
  using assms by (rule bq_step_ok)

text \<open>C20: A consumer gets every packet exactly once and in order, for any number of consumers, as long as each call is
  allowed in the state in which it is made: no consumer moves past the tail of the queue while there are others, and
  one that leaves is alone, or has no current packet of an older queue while another consumer is at the head of the
  queue (or one packet further, when the one that leaves is at the head itself); no payload is null, and no counter overflows. Such a run, without a reset of the queue and without the departure
  of consumer \<open>i\<close>, returns, and the packets that consumer \<open>i\<close> has moved past, followed by those that
  wait for it, are those that waited at the start followed by those that were put.\<close>

theorem bq_delivery:
  assumes "bq_inv s" "bq_allowed_run ops s" "live_client i s" "Free i \<notin> set ops" "Reset \<notin> set ops"
  shows "\<exists>rs s'. bq_run ops s = Done (rs, s') \<and> bq_inv s' \<and> live_client i s' \<and>
    bq_passed i ops s @ waiting i s' = waiting i s @ puts ops"
  using assms by (rule bq_delivery_induct)

definition two_sessions :: bq_system where
  "two_sessions = \<lparr>producer = (producer bq_start)\<lparr>consumers := 2\<rparr>, clients = [Some consumer_new0, Some consumer_new0]\<rparr>"

lemma two_sessions_run: "bq_run [New, New] bq_start = Done ([No_reply, No_reply], two_sessions)"
  by (simp add: two_sessions_def bq_start_def producer_new0_def bq_consumer_new_def flip: word_order.not_eq_extremum)

lemma bq_run_inv: "bq_inv s \<Longrightarrow> bq_allowed_run ops s \<Longrightarrow> bq_run ops s = Done (rs, s') \<Longrightarrow> bq_inv s'"
proof (induction ops arbitrary: s rs)
  case (Cons op ops)
  with bq_step_ok [of s op] show ?case by (fastforce simp: bind_bq_Done simp del: bq_step.simps)
qed simp

lemma two_sessions_inv: "bq_inv two_sessions"
  by (rule bq_run_inv [OF bq_start_inv _ two_sessions_run])
    (simp add: bq_start_def producer_new0_def bq_consumer_new_def flip: word_order.not_eq_extremum)

lemmas bq_eval = two_sessions_def bq_start_def producer_new0_def consumer_new0_def bq_producer_put_def
  bq_consumer_get_def bq_consumer_move_def bq_consumer_move_internal_def bq_consumer_elem_unref_def
  bq_element_free_internal_def with_client_def queue_head_def set_elem_def live_client_def selected_def cursor_def
  node_index_def node_keys_def pending_def buffered_def channels_def channel_of_def waiting_def Let_def

theorem bq_refines_fifo_witness:
  "\<exists>rs s r s'. bq_run [Put 7, Put 8, Get 0] two_sessions = Done (rs, s) \<and> bq_allowed (Move 0) s \<and>
     bq_step (Move 0) s = Done (r, s') \<and> bq_inv s' \<and> channels s' = [Some (True, [8]), Some (False, [7, 8])] \<and> r = Moved True"
proof -
  let ?ops = "[Put 7, Put 8, Get 0]"
  obtain rs s where s: "bq_run ?ops two_sessions = Done (rs, s)" and ok: "bq_allowed (Move 0) s"
    and c: "channels s = [Some (True, [7, 8]), Some (False, [7, 8])]"
    by (simp add: bq_eval)
  have "bq_inv s" by (rule bq_run_inv [OF two_sessions_inv _ s]) (simp add: bq_eval)
  from bq_refines_fifo [OF this ok] s ok show ?thesis by (auto simp: c)
qed

theorem bq_delivery_witness:
  "bq_allowed_run [Put 7, Put 8, Get 0, Move 0, Get 1, Move 1] two_sessions \<and>
   (\<exists>rs s'. bq_run [Put 7, Put 8, Get 0, Move 0, Get 1, Move 1] two_sessions = Done (rs, s') \<and>
      [7] @ waiting 1 s' = [7, 8])"
proof -
  let ?ops = "[Put 7, Put 8, Get 0, Move 0, Get 1, Move 1]"
  have ok: "bq_allowed_run ?ops two_sessions" by (simp add: bq_eval)
  have "live_client 1 two_sessions" "bq_passed 1 ?ops two_sessions = [7]" "waiting 1 two_sessions = []" "puts ?ops = [7, 8]"
    by (simp_all add: bq_eval)
  with bq_delivery [OF two_sessions_inv ok, of 1] ok show ?thesis by auto
qed


text \<open>C19: A session that is the only one of its track sends every packet exactly once and in order. For any
  interleaving of arriving packets with passes of the sending loop (get the packet, send it, move on) every call
  returns, and what was sent, followed by what is still waiting, is what waited at the start followed by what
  arrived. The queue takes at most \<open>2 ^ 63 - 1\<close> packets between two resets.\<close>

theorem bq_single_session:
  assumes "bq_inv s" "live_client i s" "consumers (producer s) = 1" "0 \<notin> set (packets es)"
    "unat (next_serial (producer s)) + length (packets es) < 2 ^ 63"
  shows "\<exists>sent s'. reader_run i es s = Done (sent, s') \<and> bq_inv s' \<and> live_client i s' \<and> consumers (producer s') = 1 \<and>
    sent @ waiting i s' = waiting i s @ packets es"
  using assms by (rule reader_exact)

definition one_session :: bq_system where
  "one_session = \<lparr>producer = (producer bq_start)\<lparr>consumers := 1\<rparr>, clients = [Some consumer_new0]\<rparr>"

lemma one_session_inv: "bq_inv one_session"
proof (rule bq_run_inv [OF bq_start_inv])
  show "bq_run [New] bq_start = Done ([No_reply], one_session)" "bq_allowed_run [New] bq_start"
    by (simp_all add: one_session_def bq_start_def producer_new0_def bq_consumer_new_def flip: word_order.not_eq_extremum)
qed

theorem bq_single_session_witness:
  "live_client 0 one_session \<and> consumers (producer one_session) = 1 \<and>
   (\<exists>sent s'. reader_run 0 [Packet 7, Read, Read, Packet 8, Packet 9, Read] one_session = Done (sent, s') \<and>
      sent @ waiting 0 s' = [7, 8, 9])"
proof -
  have s: "live_client 0 one_session" "consumers (producer one_session) = 1" "waiting 0 one_session = []"
    "next_serial (producer one_session) = 0" by (simp_all add: one_session_def bq_eval)
  show ?thesis
    using bq_single_session [OF one_session_inv s(1,2), of "[Packet 7, Read, Read, Packet 8, Packet 9, Read]"] s by auto
qed

text \<open>C21: Every packet that was put is freed at most once, in the order of arrival, and is either freed or still in
  the queue: this holds after every run of calls that goes on, also when consumers disturb each other.\<close>

theorem bq_frees_once:
  assumes "bq_run ops bq_start = Done (rs, s)"
  shows "freed (producer s) @ buffered (producer s) = puts ops"
  using run_held [OF bq_start_wf(1) assms] bq_start_wf(2) by (simp add: held_def)

theorem bq_frees_once_witness:
  "\<exists>rs s. bq_run [New, Put 7, Put 8, Get 0, Move 0] bq_start = Done (rs, s) \<and> freed (producer s) = [7] \<and>
     freed (producer s) @ buffered (producer s) = [7, 8]"
proof -
  have "\<exists>rs s. bq_run [New, Put 7, Put 8, Get 0, Move 0] bq_start = Done (rs, s) \<and> freed (producer s) = [7]"
    by (simp add: bq_eval bq_consumer_new_def flip: word_order.not_eq_extremum)
  then show ?thesis using bq_frees_once [of "[New, Put 7, Put 8, Get 0, Move 0]"] by auto
qed

text \<open>C40: With a second consumer, a consumer that moves past the tail of the queue goes back to its head: the move
  reports that there is no next packet, and the next call of \<open>bq_consumer_get\<close> returns the first packet that is
  still in the queue, which is not newer than the one it has just moved past. This is for a state of the invariant in
  which the last packet of the queue is the current one of the consumer.\<close>

theorem bq_tail_restarts:
  assumes "bq_inv s" "i < length (clients s)" "clients s ! i = Some c" "selected (producer s) c"
    "length (pending (producer s) c) = 1" "1 < consumers (producer s)"
  shows "\<exists>s1 s2. bq_step (Move i) s = Done (Moved False, s1) \<and>
    bq_step (Get i) s1 = Done (Payload (hd (buffered (producer s))), s2)"
  using assms by (rule tail_restarts)

theorem bq_tail_restarts_witness:
  "\<exists>rs s s1 s2. bq_run [Put 7, Put 8, Get 0, Move 0] two_sessions = Done (rs, s) \<and>
     bq_step (Move 0) s = Done (Moved False, s1) \<and> bq_step (Get 0) s1 = Done (Payload 7, s2)"
proof -
  let ?ops = "[Put 7, Put 8, Get 0, Move 0]"
  obtain rs s where s: "bq_run ?ops two_sessions = Done (rs, s)"
    and at: "0 < length (clients s)" "clients s ! 0 \<noteq> None" "selected (producer s) (the (clients s ! 0))"
      "length (pending (producer s) (the (clients s ! 0))) = 1" "1 < consumers (producer s)"
      "hd (buffered (producer s)) = 7"
    by (simp add: bq_eval)
  have "bq_inv s" by (rule bq_run_inv [OF two_sessions_inv _ s]) (simp add: bq_eval)
  from bq_tail_restarts [OF this at(1) _ at(3-5)] at(2,6) s show ?thesis by auto
qed

text \<open>Three runs that do not go on. After the restart at the head the packet is counted as seen twice and freed
  while the other session still has it as its current one, which then reads freed memory; when a session that is
  behind all others leaves, packets that all the others have seen stay in the queue, and the assertion that only the
  head is removed fails for the next packet; a session that leaves after a reset of the queue walks over nodes that
  the reset has freed, when another session is there.\<close>

theorem bq_unsafe_runs:
  "bq_run [New, New, Put 7, Get 0, Get 1, Move 0, Get 0, Move 0, Get 1] bq_start = Dangling \<and>
   bq_run [New, New, New, Put 7, Put 8, Put 9, Put 10, Get 0, Get 1, Move 1, Move 1, Get 2, Move 2, Move 2, Free 0,
     Move 1, Move 2] bq_start = Abort \<and>
   bq_run [New, New, Put 7, Get 0, Reset, Free 0] bq_start = Dangling"
  by (intro conjI) code_simp+


section \<open>Reachable states\<close>

text \<open>The system of one producer and its sessions as a state machine: each step is an allowed call.\<close>

definition bq_sys_step :: "bq_system \<Rightarrow> bq_system \<Rightarrow> bool" where
  "bq_sys_step s t \<longleftrightarrow> (\<exists>op r. bq_allowed op s \<and> bq_step op s = Done (r, t))"

interpretation bq_machine: state_machine "\<lambda>s. s = bq_start" bq_sys_step bq_inv
proof unfold_locales
  show "bq_inv s" if "s = bq_start" for s using that bq_start_inv by simp
  show "bq_inv t" if "bq_inv s" "bq_sys_step s t" for s t
    using that bq_step_ok [of s] unfolding bq_sys_step_def by (metis bq_result.inject prod.inject)
qed

text \<open>A reachable state never runs into a failed assertion or freed memory at an allowed call.\<close>

lemma bq_reachable_safe:
  "reachable_from (\<lambda>s. s = bq_start) bq_sys_step s \<Longrightarrow> bq_allowed op s \<Longrightarrow> \<exists>r t. bq_step op s = Done (r, t)"
  using bq_step_ok [OF bq_machine.reach_inv] by blast

section \<open>Shared producers\<close>

text \<open>
  A second request with the same key gets the same producer. There is no count of the holders: when no consumer is
  registered, the first holder that drops the producer frees it, and the second one then drops freed memory.
\<close>

lemma shared_producer:
  assumes "bq_producer_new (Some k) g = Done (a, g1)"
  shows "bq_producer_new (Some k) g1 = Done (a, g1)"
  using assms by (auto simp: bq_producer_new_def bind_bq_Done Let_def split: option.split_asm)

lemma shared_unref_twice:
  assumes "bq_producer_new (Some k) bq_init = Done (a, g1)"
  shows "\<exists>g2. bq_producer_unref (Some a) g1 = Done g2 \<and> bq_producer_unref (Some a) g2 = Dangling"
  using assms
  by (auto simp: bq_producer_new_def bq_init_def bq_producer_reset_queue_def producer_new0_def bq_producer_unref_def
      bq_producer_free_internal_def free_elements_def)

end
