(* ===== verification/Spec2Isabelle.thy ===== *)
theory Spec2Isabelle
  imports Proxy_Properties Pts_Normalizer Logger_Properties Arg_Parser Video_Size Rtsp_App Buffer_Queue_Runs
begin

text \<open>
  \<^bold>\<open>StreamSwitch\<close> distributes live media streams between processes. A \<^emph>\<open>stream source\<close> publishes the frames of one
  stream on a publish socket and answers requests (metadata, key frames, statistics, client heartbeats, the list
  of clients) on a reply socket; a \<^emph>\<open>stream sink\<close> subscribes to the frames and sends the requests. Programs built on the two
  classes bring media in (RTSP, FFmpeg and RTMP sources), pass it on (the proxy source) and hand it out (the
  RTSP port, the FFmpeg sender). This development models the library, the proxy source, the FFmpeg source, the data path of the
  RTSP source, the buffer queue of the RTSP port and the parameter set decoder of the FFmpeg sender, and proves their correctness properties.

  \<^bold>\<open>Conventions.\<close> A class is a record of its fields; a method is a function that takes the object and
  gives back the new object with the returned value. Unsigned C++ integers are words, signed ones are
  integers, narrowed with \<open>to_int32\<close> or checked with \<open>chk32\<close> and \<open>chk64\<close> where they may overflow. Undefined behaviour
  (an index outside a vector, a null pointer, an overflow of a signed number, a read outside a buffer) is the value
  \<open>Undef\<close> of \<open>'a cpp\<close>; a theorem whose conclusion is about \<open>Ret\<close> says nothing of a run that is undefined, and several theorems state exactly
  when a run is. What is sent or called is recorded: \<open>src_pub_sent\<close>, \<open>src_api_sent\<close>, \<open>snk_calls\<close>,
  \<open>fs_error_calls\<close>, \<open>rc_calls\<close>. Log messages and the release of memory are left out, but for the
  buffer queue, where freed packets and accesses to freed memory are part of the model (\<open>bq_result\<close>).

  \<^bold>\<open>Theories.\<close>

  \<^item> \<open>Stsw_Prelude\<close>: undefined behaviour, integers, C strings, flag words, \<open>std::map\<close> (locale \<open>std_map\<close>), periodic timers
    (locale \<open>periodic_timer\<close>), reachable states (locale \<open>state_machine\<close>). \<open>C_Text\<close>: \<open>strtol\<close>, \<open>strstr\<close>.
  \<^item> \<open>Stsw_Defs\<close>: the data types of \<open>libstreamswitch/include/stsw_defs.h\<close>. \<open>Stsw_Proto\<close>: the messages; their
    serialization by Protocol Buffers is a parameter (\<open>pb_codec\<close>) with the law that parsing inverts it.
  \<^item> \<open>Client_Registry\<close>, \<open>Frame_Statistic\<close>, \<open>Stream_Source\<close>, \<open>Source_Properties\<close>:
    \<open>libstreamswitch/src/stsw_stream_source.cc\<close>. The client list implements a map with leases (locale
    \<open>client_registry\<close>); the counters of both sides follow one contract (locale \<open>frame_counter\<close>); every request that has a handler gets
    exactly one reply; every sequence of operations keeps the invariant of the object; frames are published in order
    with consecutive numbers; a failed \<open>Init\<close> leaves nothing behind.
  \<^item> \<open>Stream_Sink\<close>, \<open>Sink_Properties\<close>: \<open>libstreamswitch/src/stsw_stream_sink.cc\<close>: the invariant, delivery and counting of frames,
    the schedule of the heartbeats and their repetition, checks on replies, life cycle.
  \<^item> \<open>Stream_System\<close>: a sink and a source connected; requests go through the source's reader (locale
    \<open>rpc_service\<close>). Metadata, the client list and heartbeats arrive unchanged, and the sink's count of lost frames is
    exactly the number of frames that were sent and not received.
  \<^item> \<open>Thread_Lifecycle\<close>: application threads that call \<open>Start\<close> and \<open>Stop\<close> concurrently, split at the points
    where the lock is released, as step relations: never two workers, \<open>Stop\<close> returns, and the race of the sink's \<open>Start\<close>.
  \<^item> \<open>Url_Parser\<close>, \<open>Stream_Proxy\<close>, \<open>Proxy_Properties\<close>: \<open>sources/stsw_proxy_source/src\<close>. The proxy is a listener of its own sink and
    source; its invariant includes theirs, it relays frames and metadata.
  \<^item> \<open>Pts_Normalizer\<close>: \<open>sources/stsw_rtsp_source/src/stsw_pts_normalizer.cc\<close>, on an explicit heap, since the code unlinks list nodes that
    other objects point to; it refines a list, and the normalized times of synchronised frames keep the distances of the incoming times.
  \<^item> \<open>Rotate_Logger\<close>, \<open>Logger_Properties\<close>: \<open>libstreamswitch/src/stsw_rotate_logger.cc\<close> on a model of a directory with open file
    descriptions; the log files refine a bounded queue and hold the latest output.
  \<^item> \<open>Arg_Parser\<close>: \<open>libstreamswitch/src/stsw_arg_parser.cc\<close>; \<open>getopt_long\<close> is a parameter.
  \<^item> \<open>Bit_Reader\<close>, \<open>Bit_Reader_Properties\<close>, \<open>Sps_Decoder\<close>, \<open>Sps_Properties\<close>, \<open>Mpeg4_Decoder\<close>, \<open>Video_Size\<close>:
    \<open>senders/ffmpeg_sender/src/parsers/dec_sps.cc\<close>. Reading functions against the sequence of bits (locale
    \<open>bit_code\<close>, interpreted for every syntax element); a parameter set of H.264 or H.265 that is written by the
    syntax of the standard is decoded; for H.264 frames (not fields) without 4:4:4, cropped only in 4:2:0, this gives the picture
    size of the standard (\<open>h264_size\<close>, \<open>h264_supported\<close>); the search in MPEG-4 video ends.
  \<^item> \<open>Stream_Parser\<close>, \<open>Parser_Properties\<close>, \<open>Nal_Parser\<close>, \<open>Nal_Properties\<close>, \<open>Ffmpeg_Demuxer\<close>, \<open>Demuxer_Source\<close>,
    \<open>Demuxer_Properties\<close>: \<open>sources/ffmpeg_demuxer_source/src\<close>. The times of a live stream never run backwards and, in steady state, drift
    from the time stamps by less than a microsecond per packet, for every class of parsers (locales \<open>timed_parser\<close> and
    \<open>meta_updater\<close>, the second a sublocale of the first for \<open>StreamParser::Parse\<close>); MP4 units become units with start
    codes; parameter sets in a key frame become the extra data of the sub stream; reading ahead for the metadata
    changes nothing of what is delivered (\<open>delivered\<close>), unless a key frame that is kept has lost its data to a later one in the buffer of
    its parser; a source that has started publishes every frame of its input, up to a frame that is too far from the local time where such a
    limit is set.
  \<^item> \<open>Output_Sink\<close>, \<open>Output_Sink_Properties\<close>, \<open>Output_Sink_Runs\<close>, \<open>Sink_Announcement\<close>: the output sinks of the RTSP source,
    \<open>sources/stsw_rtsp_source/src/stsw_output_sink.cc\<close>, \<open>stsw_h264or5_output_sink.cc\<close>, \<open>stsw_mpeg4_output_sink.cc\<close>. The times that a sink hands on never run
    backwards (locale \<open>ordered_sink\<close>, for all three classes); the sink for H.264 and H.265 hands on every unit behind
    a start code, with a bounded buffer, but frames that are dropped for their time make the buffer grow until it
    overflows; the client announces complete metadata once, before the first frame (locale \<open>announcing_sink\<close>).
  \<^item> \<open>Rtsp_Setup\<close>, \<open>Rtsp_Session\<close>, \<open>Rtsp_App\<close>: \<open>stsw_rtsp_client.cc\<close> (set-up of the sinks and of the metadata, the calls of the listener) and
    \<open>stsw_rtsp_source_app.cc\<close> (the listener). Sinks and sub streams are numbered alike; a running session is a step relation
    over its sinks (\<open>session_step\<close>); every frame that its client hands on is published by the stream source.
  \<^item> \<open>Buffer_Queue\<close>, \<open>Buffer_Queue_Properties\<close>, \<open>Buffer_Queue_Runs\<close>:
    \<open>ports/stsw_rtsp_port/src/bufferqueue.c\<close>. The list of nodes with their addresses, the cursors of the consumers and the
    seen counts; while no consumer overtakes the tail or leaves the slowest position, the consumers are independent FIFO channels
    (\<open>fifo_step\<close>), and a session that is alone, the way the server forks for its clients, sends every packet once and in
    order; every packet is freed once; runs with several sessions that read freed memory or fail an assertion.

  \<^bold>\<open>Parameters.\<close> Code outside the repository is a parameter: the serialization (\<open>pb_codec\<close>), the handlers a program registers and the
  clocks (\<open>src_env\<close>), the sockets and their messages (\<open>init_env\<close>, \<open>rpc_env\<close>, \<open>sink_env\<close>, \<open>src_poll\<close>), \<open>getopt_long\<close>, the results of system
  calls, FFmpeg's streams, packets and results (\<open>AVStream\<close>, \<open>AVPacket\<close>, \<open>open_env\<close>, \<open>av_read\<close>), the subsessions, framers and
  frames of live555 (\<open>MediaSubsession\<close>, \<open>parameter_sets\<close>, \<open>sink_frame\<close>), the computations with \<open>double\<close> of the sinks (\<open>gap_arith\<close>), and the content of
  memory that the code does not initialize. The queue of GLib is its documented behaviour, a list. Laws about them are hypotheses of the theorems, and a witness
  instantiates each.

  \<^bold>\<open>Loops.\<close> Loops are functions with termination proofs. The loops over linked lists in \<open>Pts_Normalizer\<close> may run forever on a cyclic list and are
  \<open>partial_function (option)\<close>; they return on every list that the code can build. \<open>mpeg4_loop\<close> counts its passes; the words
  of the buffer are enough, because every pass advances (\<open>mpeg4_terminates\<close>). Worker threads and reading methods take
  the list of what the environment delivers; a method that needs more than the list has is still waiting.

  \<^bold>\<open>Not modelled.\<close> \<open>stsw_global.cc\<close> and the main programs (signals, daemons, command line texts); the exchange of
  requests between the RTSP client and its server, callbacks of the live555 library, with its timers; the RTSP port but for its buffer queue, a server derived from Feng over
  glib, libev and network I/O; the muxers of the FFmpeg sender, which drive libavformat and compute with \<open>double\<close>; the RTMP source (librtmp); the generated Protocol
  Buffers classes; the controller (Python).
\<close>

end
